(* ===== verification/Prelude.thy ===== *)
theory Prelude
  imports Main "HOL-Library.Word" "HOL-Library.Monad_Syntax"
begin

text \<open>
  Shared vocabulary of the development: the machine integers of the code as words, byte
  order conversion and memory access on byte lists (a little-endian host, as every platform
  the build supports), and the generic facts on lists, words and options that the component
  theories use.  The collections declared here are
  \<^item> \<open>wire\<close>: rewriting of loads, stores and byte order conversions;
  \<^item> \<open>wf_intros\<close>: preservation of the component invariants.
\<close>

unbundle bit_operations_syntax

named_theorems wire "byte order, loads and stores"
named_theorems wf_intros "preservation of the component invariants"

section \<open>Machine integers\<close>

type_synonym u8 = "8 word"
type_synonym u16 = "16 word"
type_synonym u32 = "32 word"
type_synonym u64 = "64 word"
type_synonym bytes = "u8 list"

lemma unat_lt_2_8: "unat (w :: u8) < 256"
  using unsigned_less [of w] by simp

lemma unat_lt_2_16: "unat (w :: u16) < 65536"
  using unsigned_less [of w] by simp

lemma unat_lt_2_32: "unat (w :: u32) < 4294967296"
  using unsigned_less [of w] by simp

lemma unat_of_nat_small:
  "n < 2 ^ LENGTH('a) \<Longrightarrow> unat (of_nat n :: 'a::len word) = n"
  by (simp add: unat_of_nat take_bit_nat_eq_self)

lemma unat_add_small:
  "unat a + unat b < 2 ^ LENGTH('a) \<Longrightarrow> unat (a + b :: 'a::len word) = unat a + unat b"
  using unat_add_lem [of a b] by blast

lemma unat_sub_small: "b \<le> a \<Longrightarrow> unat (a - b :: 'a::len word) = unat a - unat b"
  by (rule unat_sub)

section \<open>Byte order\<close>

text \<open>The two and four bytes of an integer, the most significant first.\<close>

definition hi8 :: "u16 \<Rightarrow> u8" where "hi8 w = ucast (drop_bit 8 w)"
definition lo8 :: "u16 \<Rightarrow> u8" where "lo8 w = ucast w"
definition mk16 :: "u8 \<Rightarrow> u8 \<Rightarrow> u16" where
  "mk16 h l = push_bit 8 (ucast h) OR ucast l"

definition hi16 :: "u32 \<Rightarrow> u16" where "hi16 w = ucast (drop_bit 16 w)"
definition lo16 :: "u32 \<Rightarrow> u16" where "lo16 w = ucast w"
definition mk32 :: "u16 \<Rightarrow> u16 \<Rightarrow> u32" where
  "mk32 h l = push_bit 16 (ucast h) OR ucast l"

lemma hi8_mk16 [wire]: "hi8 (mk16 h l) = h"
  unfolding hi8_def mk16_def by (rule bit_word_eqI) (auto simp: bit_simps dest: bit_imp_le_length)

lemma lo8_mk16 [wire]: "lo8 (mk16 h l) = l"
  unfolding lo8_def mk16_def by (rule bit_word_eqI) (auto simp: bit_simps)

lemma mk16_hi_lo [wire]: "mk16 (hi8 w) (lo8 w) = w"
  unfolding hi8_def lo8_def mk16_def
  by (rule bit_word_eqI) (auto simp: bit_simps dest: bit_imp_le_length)

lemma hi16_mk32 [wire]: "hi16 (mk32 h l) = h"
  unfolding hi16_def mk32_def by (rule bit_word_eqI) (auto simp: bit_simps dest: bit_imp_le_length)

lemma lo16_mk32 [wire]: "lo16 (mk32 h l) = l"
  unfolding lo16_def mk32_def by (rule bit_word_eqI) (auto simp: bit_simps)

lemma mk32_hi_lo [wire]: "mk32 (hi16 w) (lo16 w) = w"
  unfolding hi16_def lo16_def mk32_def
  by (rule bit_word_eqI) (auto simp: bit_simps dest: bit_imp_le_length)

lemma unat_mk16: "unat (mk16 h l) = 256 * unat h + unat l"
proof -
  have disj: "push_bit 8 (ucast h :: u16) AND ucast l = 0"
    by (rule bit_word_eqI) (auto simp: bit_simps dest: bit_imp_le_length)
  have h: "unat (push_bit 8 (ucast h :: u16)) = 256 * unat h"
    using unat_lt_2_8 [of h]
    by (simp add: push_bit_eq_mult unat_word_ariths unsigned_ucast_eq take_bit_nat_eq_self take_bit_nat_def)
  have l: "unat (ucast l :: u16) = unat l"
    using unat_lt_2_8 [of l] by (simp add: unsigned_ucast_eq take_bit_nat_eq_self take_bit_nat_def)
  have "mk16 h l = push_bit 8 (ucast h) + ucast l"
    using disj by (simp add: mk16_def disjunctive_add_eq_or)
  moreover have "unat (push_bit 8 (ucast h :: u16)) + unat (ucast l :: u16) < 2 ^ LENGTH(16)"
    using unat_lt_2_8 [of h] unat_lt_2_8 [of l] by (simp only: h l) simp
  ultimately show ?thesis
    by (simp only: unat_add_small h l)
qed

section \<open>Loads, stores and byte order conversion on a little-endian host\<close>

definition st16 :: "u16 \<Rightarrow> bytes" where "st16 w = [lo8 w, hi8 w]"
definition st32 :: "u32 \<Rightarrow> bytes" where "st32 w = st16 (lo16 w) @ st16 (hi16 w)"
definition ld16 :: "bytes \<Rightarrow> nat \<Rightarrow> u16" where "ld16 bs i = mk16 (bs ! (i + 1)) (bs ! i)"
definition ld32 :: "bytes \<Rightarrow> nat \<Rightarrow> u32" where "ld32 bs i = mk32 (ld16 bs (i + 2)) (ld16 bs i)"
definition htons :: "u16 \<Rightarrow> u16" where "htons w = mk16 (lo8 w) (hi8 w)"
definition htonl :: "u32 \<Rightarrow> u32" where "htonl w = mk32 (htons (lo16 w)) (htons (hi16 w))"

abbreviation ntohs :: "u16 \<Rightarrow> u16" where "ntohs \<equiv> htons"
abbreviation ntohl :: "u32 \<Rightarrow> u32" where "ntohl \<equiv> htonl"

lemma htons_htons [simp]: "htons (htons w) = w"
  by (simp add: htons_def wire)

lemma htonl_htonl [simp]: "htonl (htonl w) = w"
  by (simp add: htonl_def wire)

lemma htons_eq_iff: "htons a = htons b \<longleftrightarrow> a = b"
  by (metis htons_htons)

lemma htons_0 [simp]: "htons 0 = 0"
  by (simp add: htons_def mk16_def hi8_def lo8_def)

lemma htons_eq_0_iff [simp]: "htons w = 0 \<longleftrightarrow> w = 0"
  by (metis htons_htons htons_0)

lemma htons_mk16 [wire]: "htons (mk16 a b) = mk16 b a"
  by (simp add: htons_def wire)

lemma st16_htons [wire]: "st16 (htons w) = [hi8 w, lo8 w]"
  by (simp add: st16_def htons_def wire)

lemma st32_htonl [wire]:
  "st32 (htonl w) = [hi8 (hi16 w), lo8 (hi16 w), hi8 (lo16 w), lo8 (lo16 w)]"
  by (simp add: st32_def htonl_def wire)

lemma length_st16 [simp]: "length (st16 w) = 2"
  by (simp add: st16_def)

lemma length_st32 [simp]: "length (st32 w) = 4"
  by (simp add: st32_def)

lemma htonl_mk32 [wire]: "htonl (mk32 a b) = mk32 (htons b) (htons a)"
  by (simp add: htonl_def wire)

lemma ld16_st16 [wire]: "ld16 (xs @ st16 w @ ys) (length xs) = w"
  by (simp add: ld16_def st16_def nth_append wire)

section \<open>Checked reads\<close>

text \<open>Reads at an offset of a buffer, \<open>None\<close> when they leave it: a 16-bit load, a byte, a run of bytes,
  and the big-endian numbers the code assembles from bytes.\<close>

definition rd16 :: "bytes \<Rightarrow> nat \<Rightarrow> u16 option" where
  "rd16 data i = (if i + 2 \<le> length data then Some (ld16 data i) else None)"

definition rd8 :: "bytes \<Rightarrow> nat \<Rightarrow> u8 option" where
  "rd8 data i = (if i < length data then Some (data ! i) else None)"

definition rd_slice :: "bytes \<Rightarrow> nat \<Rightarrow> nat \<Rightarrow> bytes option" where
  "rd_slice data i n = (if i + n \<le> length data then Some (take n (drop i data)) else None)"

definition rd_be16 :: "bytes \<Rightarrow> nat \<Rightarrow> u16 option" where
  "rd_be16 data i = do { h \<leftarrow> rd8 data i; l \<leftarrow> rd8 data (i + 1); Some (mk16 h l) }"

definition rd_be32 :: "bytes \<Rightarrow> nat \<Rightarrow> u32 option" where
  "rd_be32 data i = do { h \<leftarrow> rd_be16 data i; l \<leftarrow> rd_be16 data (i + 2); Some (mk32 h l) }"

section \<open>Lists\<close>

text \<open>\<open>blit b i xs\<close> is \<open>memcpy (b + i, xs, length xs)\<close> for a copy that stays inside \<open>b\<close>.\<close>

definition blit :: "'a list \<Rightarrow> nat \<Rightarrow> 'a list \<Rightarrow> 'a list" where
  "blit b i xs = take i b @ xs @ drop (i + length xs) b"

lemma length_blit [simp]: "i + length xs \<le> length b \<Longrightarrow> length (blit b i xs) = length b"
  by (simp add: blit_def)

lemma nth_blit:
  "i + length xs \<le> length b \<Longrightarrow>
   j < length b \<Longrightarrow>
   blit b i xs ! j = (if i \<le> j \<and> j < i + length xs then xs ! (j - i) else b ! j)"
  by (auto simp: blit_def nth_append min_def)

lemma blit_Nil [simp]: "i \<le> length b \<Longrightarrow> blit b i [] = b"
  by (simp add: blit_def)

lemma nth_map_mod: "k < n \<Longrightarrow> map f [0..<n] ! k = f k"
  by simp

lemma mod_add_cases:
  "(i :: nat) < c \<Longrightarrow> j \<le> c \<Longrightarrow> (i + j) mod c = (if i + j < c then i + j else i + j - c)"
  by (cases "i + j < c") (auto simp: mod_if)

lemma mod_offset_inj:
  assumes "(a + i) mod n = (a + j) mod n" and "i < n" and "j < (n :: nat)"
  shows "i = j"
proof -
  have eq: "i = j" if "i \<le> j" "(a + i) mod n = (a + j) mod n" "j < n" for i j
  proof -
    have "n dvd a + j - (a + i)" using that(1,2) by (subst mod_eq_dvd_iff_nat [symmetric]) simp_all
    then have "n dvd j - i" by simp
    then show ?thesis using that(1,3) by (metis dvd_imp_le leD le_antisym less_imp_diff_less not_gr_zero diff_is_0_eq)
  qed
  show ?thesis using eq [of i j] eq [of j i] assms by (cases "i \<le> j") auto
qed

lemma take_upt_0: "take n [0..<m] = [0..<min n m]"
  by (cases "n \<le> m") (auto simp: min_def)

section \<open>Options\<close>

lemma bind_Some_iff [simp]: "Option.bind x f = Some y \<longleftrightarrow> (\<exists>a. x = Some a \<and> f a = Some y)"
  by (cases x) auto

end
