(* ===== verification/Checksum.thy ===== *)
theory Checksum
  imports Prelude
begin

text \<open>
  The Internet checksum of \<^verbatim>\<open>src/common/checksum.cpp\<close> (RFC 1071): the 32-bit accumulation over
  big-endian 16-bit words, the folding loop, finalisation and verification.  The lemmas read
  the accumulator as the sum \<open>sum16\<close> of the words and folding as reduction modulo 65535; a
  field filled with the finalised sum makes the whole verify, and a change of one word is
  detected unless the two values are congruent.
\<close>

section \<open>The functions of the code\<close>

fun checksum_accumulate :: "u32 \<Rightarrow> bytes \<Rightarrow> u32" where
  "checksum_accumulate s (a # b # rest) =
     checksum_accumulate (s + (push_bit 8 (ucast a) OR ucast b)) rest"
| "checksum_accumulate s [a] = s + push_bit 8 (ucast a)"
| "checksum_accumulate s [] = s"

lemma and_FFFF: "(s :: u32) AND 0xFFFF = take_bit 16 s"
  by (simp add: take_bit_eq_mask mask_eq_exp_minus_1)

lemma unat_and_FFFF: "unat ((s :: u32) AND 0xFFFF) = unat s mod 65536"
  by (simp add: and_FFFF unsigned_take_bit_eq take_bit_nat_def)

lemma unat_drop_16: "unat (drop_bit 16 (s :: u32)) = unat s div 65536"
  by (simp add: unat_drop_bit_eq drop_bit_nat_def)

lemma unat_fold_step: "unat (((s :: u32) AND 0xFFFF) + drop_bit 16 s) = unat s mod 65536 + unat s div 65536"
proof -
  have "unat s div 65536 < 65536"
    using unat_lt_2_32 [of s] by (simp add: less_mult_imp_div_less)
  moreover have "unat s mod 65536 < 65536" by simp
  ultimately have "unat s mod 65536 + unat s div 65536 < 2 ^ LENGTH(32)"
    by simp
  then show ?thesis
    using unat_add_small [of "s AND 0xFFFF" "drop_bit 16 s"] by (simp add: unat_and_FFFF unat_drop_16)
qed

text \<open>The loop \<open>while (sum >> 16) sum = (sum & 0xFFFF) + (sum >> 16)\<close>; it decreases the sum.\<close>

function fold_carry :: "u32 \<Rightarrow> u32" where
  "fold_carry s = (if drop_bit 16 s \<noteq> 0 then fold_carry ((s AND 0xFFFF) + drop_bit 16 s) else s)"
  by pat_completeness auto
termination
proof (relation "measure unat", goal_cases)
  case 1
  show ?case by simp
next
  case (2 s)
  then have "unat s div 65536 \<noteq> 0"
    by (metis unat_drop_16 unat_eq_0)
  moreover have "unat s = 65536 * (unat s div 65536) + unat s mod 65536" by simp
  ultimately have "unat s mod 65536 + unat s div 65536 < unat s" by linarith
  then show ?case by (simp add: unat_fold_step)
qed

declare fold_carry.simps [simp del]

definition checksum_finalize :: "u32 \<Rightarrow> u16" where
  "checksum_finalize s = htons (ucast (NOT (fold_carry s) AND 0xFFFF))"

definition compute_checksum :: "bytes \<Rightarrow> u16" where
  "compute_checksum data = checksum_finalize (checksum_accumulate 0 data)"

definition verify_checksum :: "bytes \<Rightarrow> bool" where
  "verify_checksum data \<longleftrightarrow> fold_carry (checksum_accumulate 0 data) AND 0xFFFF = 0xFFFF"

section \<open>The accumulator as a sum of words\<close>

fun sum16 :: "bytes \<Rightarrow> nat" where
  "sum16 (a # b # rest) = 256 * unat a + unat b + sum16 rest"
| "sum16 [a] = 256 * unat a"
| "sum16 [] = 0"

lemma accumulate_word: "(push_bit 8 (ucast a) OR ucast b :: u32) = of_nat (256 * unat (a :: u8) + unat (b :: u8))"
proof -
  have "(push_bit 8 (ucast a) OR ucast b :: u32) = ucast (mk16 a b)"
    unfolding mk16_def by (rule bit_word_eqI) (auto simp: bit_simps dest: bit_imp_le_length)
  also have "\<dots> = of_nat (unat (mk16 a b))" by simp
  finally show ?thesis by (simp only: unat_mk16)
qed

lemma accumulate_sum16: "checksum_accumulate s bs = s + of_nat (sum16 bs)"
proof (induction s bs rule: checksum_accumulate.induct)
  case (1 s a b rest)
  then show ?case by (simp only: checksum_accumulate.simps sum16.simps accumulate_word) simp
next
  case (2 s a)
  then show ?case using accumulate_word [of a 0] by simp
next
  case (3 s)
  then show ?case by simp
qed

lemma sum16_append: "even (length xs) \<Longrightarrow> sum16 (xs @ ys) = sum16 xs + sum16 ys"
  by (induction xs rule: sum16.induct) auto

lemma accumulate_append:
  "even (length xs) \<Longrightarrow> checksum_accumulate s (xs @ ys) = checksum_accumulate (checksum_accumulate s xs) ys"
  by (simp add: accumulate_sum16 sum16_append)

lemma sum16_bound: "sum16 bs \<le> 65535 * ((length bs + 1) div 2)"
proof (induction bs rule: sum16.induct)
  case (1 a b rest)
  then show ?case using unat_lt_2_8 [of a] unat_lt_2_8 [of b] by simp
next
  case (2 a)
  then show ?case using unat_lt_2_8 [of a] by simp
qed simp

lemma sum16_small: "length bs \<le> 131000 \<Longrightarrow> sum16 bs < 4294967296"
  using sum16_bound [of bs] by linarith

section \<open>Folding is reduction modulo 65535\<close>

definition fold16 :: "nat \<Rightarrow> nat" where
  "fold16 n = (if n = 0 then 0 else (n - 1) mod 65535 + 1)"

lemma fold16_less: "fold16 n < 65536"
  using mod_less_divisor [of 65535 "n - 1"] by (simp add: fold16_def)

lemma fold16_id: "n < 65536 \<Longrightarrow> fold16 n = n"
  by (simp add: fold16_def)

lemma fold16_step: "fold16 n = fold16 (n mod 65536 + n div 65536)"
proof (cases "n = 0")
  case False
  let ?m = "n mod 65536 + n div 65536"
  have n: "n = 65536 * (n div 65536) + n mod 65536" by simp
  then have "?m \<noteq> 0" using False by linarith
  moreover have "n - 1 = (?m - 1) + 65535 * (n div 65536)" using n \<open>?m \<noteq> 0\<close> by linarith
  then have "(n - 1) mod 65535 = (?m - 1) mod 65535" by (simp only: mod_mult_self2)
  ultimately show ?thesis using False by (simp add: fold16_def)
qed simp

lemma fold16_all_ones_iff: "fold16 n = 65535 \<longleftrightarrow> 0 < n \<and> 65535 dvd n"
proof (cases "n = 0")
  case False
  then have "(n - 1) mod 65535 = 65534 \<longleftrightarrow> n mod 65535 = 0"
    using mod_Suc [of "n - 1" 65535] by (auto split: if_splits)
  then show ?thesis using False by (auto simp: fold16_def dvd_eq_mod_eq_0)
qed (simp add: fold16_def)

lemma fold16_cong: "65535 dvd (n + (65535 - fold16 n))"
proof (cases "n = 0")
  case False
  define q where "q = (n - 1) div 65535"
  have "n = 65535 * q + fold16 n"
    using False div_mult_mod_eq [of "n - 1" 65535] unfolding q_def fold16_def by simp
  moreover have "n = 65535 * q + f \<Longrightarrow> f \<le> 65535 \<Longrightarrow> n + (65535 - f) = 65535 * (q + 1)" for f :: nat
    by simp
  ultimately have "n + (65535 - fold16 n) = 65535 * (q + 1)"
    using fold16_less [of n] by fastforce
  then show ?thesis by (metis dvd_triv_left)
qed (simp add: fold16_def)

lemma unat_fold_carry: "unat (fold_carry s) = fold16 (unat s)"
proof (induction s rule: fold_carry.induct)
  case (1 s)
  show ?case
  proof (cases "drop_bit 16 s = 0")
    case True
    then have "unat s div 65536 = 0" by (metis unat_drop_16 unat_0)
    then show ?thesis using True by (simp add: fold_carry.simps [of s] fold16_id)
  next
    case False
    then have "fold_carry s = fold_carry ((s AND 0xFFFF) + drop_bit 16 s)"
      by (simp add: fold_carry.simps [of s])
    then show ?thesis using "1.IH" [OF False] fold16_step [of "unat s"] by (simp add: unat_fold_step)
  qed
qed

lemma unat_not16: "unat (NOT (x :: u16)) = 65535 - unat x"
proof -
  have "NOT x = 65535 - x" by (simp add: not_eq_complement)
  moreover have "x \<le> 65535" using unat_lt_2_16 [of x] by (simp add: word_le_nat_alt)
  ultimately show ?thesis by (simp add: unat_sub)
qed

lemma unat_finalize: "unat (ntohs (checksum_finalize s)) = 65535 - fold16 (unat s)"
proof -
  have "ucast (NOT (fold_carry s) AND 0xFFFF) = (NOT (ucast (fold_carry s)) :: u16)"
    by (rule bit_word_eqI) (auto simp: bit_simps and_FFFF dest: bit_imp_le_length)
  moreover have "unat (ucast (fold_carry s) :: u16) = fold16 (unat s)"
    using fold16_less [of "unat s"] unat_fold_carry [of s]
    by (simp add: unsigned_ucast_eq take_bit_nat_eq_self take_bit_nat_def)
  ultimately show ?thesis by (simp add: checksum_finalize_def unat_not16)
qed

lemma verify_iff:
  assumes "length bs \<le> 131000"
  shows "verify_checksum bs \<longleftrightarrow> 0 < sum16 bs \<and> 65535 dvd sum16 bs"
proof -
  let ?f = "fold_carry (checksum_accumulate 0 bs)"
  have u: "unat (of_nat (sum16 bs) :: u32) = sum16 bs"
    using sum16_small [OF assms] by (intro unat_of_nat_small) simp
  have f: "unat ?f = fold16 (sum16 bs)" by (simp add: unat_fold_carry accumulate_sum16 u)
  have "?f AND 0xFFFF = 0xFFFF \<longleftrightarrow> unat (?f AND 0xFFFF) = unat (0xFFFF :: u32)"
    by (rule word_unat_eq_iff)
  also have "\<dots> \<longleftrightarrow> fold16 (sum16 bs) = 65535"
    using fold16_less [of "sum16 bs"] by (simp add: unat_and_FFFF f)
  finally show ?thesis by (simp add: verify_checksum_def fold16_all_ones_iff)
qed

section \<open>Filling a field\<close>

lemma sum16_field:
  "even (length pre) \<Longrightarrow> sum16 (pre @ [h, l] @ post) = sum16 (pre @ [0, 0] @ post) + unat (mk16 h l)"
  by (simp add: sum16_append unat_mk16)

text \<open>
  The shared argument of every filled checksum: \<open>pseudo\<close> stands for a pseudo header, and the
  field at an even place of the rest is stored in network byte order.
\<close>

lemma sum16_filled:
  assumes "even (length pre)"
  shows "sum16 (pre @ st16 (htons w) @ post) = sum16 (pre @ [0, 0] @ post) + unat w"
  unfolding st16_htons using sum16_field [OF assms, of "hi8 w" "lo8 w" post] by (simp only: mk16_hi_lo)

lemma unat_finalize_sum16:
  assumes "length bs \<le> 131000"
  shows "unat (ntohs (checksum_finalize (checksum_accumulate 0 bs))) = 65535 - fold16 (sum16 bs)"
proof -
  have "unat (of_nat (sum16 bs) :: u32) = sum16 bs"
    using sum16_small [OF assms] by (intro unat_of_nat_small) simp
  then show ?thesis by (simp only: unat_finalize accumulate_sum16 add_0)
qed

lemma finalize_zero_iff_verify:
  assumes "length bs \<le> 131000"
  shows "checksum_finalize (checksum_accumulate 0 bs) = 0 \<longleftrightarrow> verify_checksum bs"
proof -
  let ?c = "checksum_finalize (checksum_accumulate 0 bs)"
  have "?c = 0 \<longleftrightarrow> unat (ntohs ?c) = 0" by (simp add: unat_eq_0)
  also have "\<dots> \<longleftrightarrow> fold16 (sum16 bs) = 65535"
    using fold16_less [of "sum16 bs"] unfolding unat_finalize_sum16 [OF assms] by linarith
  also have "\<dots> \<longleftrightarrow> verify_checksum bs"
    unfolding verify_iff [OF assms] by (rule fold16_all_ones_iff)
  finally show ?thesis .
qed

lemma filled_verifies:
  assumes "even (length pre)" and "length (pre @ [0, 0] @ post) \<le> 131000"
  shows "verify_checksum
           (pre @ st16 (checksum_finalize (checksum_accumulate 0 (pre @ [0, 0] @ post))) @ post)"
proof -
  define c where "c = checksum_finalize (checksum_accumulate 0 (pre @ [0, 0] @ post))"
  define n where "n = sum16 (pre @ [0, 0] @ post)"
  have w: "unat (ntohs c) = 65535 - fold16 n"
    unfolding c_def n_def by (rule unat_finalize_sum16 [OF assms(2)])
  have m: "sum16 (pre @ st16 c @ post) = n + (65535 - fold16 n)"
    using sum16_filled [OF assms(1), of "ntohs c" post] by (simp only: htons_htons w n_def)
  have "0 < n + (65535 - fold16 n)"
    by (cases "n = 0") (simp_all add: fold16_id)
  moreover have "length (pre @ st16 c @ post) \<le> 131000" using assms(2) by simp
  ultimately show ?thesis
    unfolding c_def [symmetric] by (simp only: verify_iff m fold16_cong simp_thms)
qed

text \<open>The receiver may as well check that recomputing the checksum over everything gives zero.\<close>

lemma filled_recomputes_zero:
  assumes "even (length pre)" and "length (pre @ [0, 0] @ post) \<le> 131000"
  shows "checksum_finalize (checksum_accumulate 0
           (pre @ st16 (checksum_finalize (checksum_accumulate 0 (pre @ [0, 0] @ post))) @ post)) = 0"
  by (subst finalize_zero_iff_verify) (use assms filled_verifies in simp_all)

lemma dvd_65535_word:
  fixes v w :: u16
  assumes "65535 dvd (n + unat v)" and "65535 dvd (n + unat w)"
  shows "v = w \<or> {v, w} = {0, 0xFFFF}"
proof -
  have key: "v = w \<or> (v = 0xFFFF \<and> w = 0)"
    if d: "65535 dvd (n + unat v)" "65535 dvd (n + unat w)" and le: "unat w \<le> unat v" for v w :: u16
  proof -
    have "65535 dvd (n + unat v) - (n + unat w)" using d by (rule dvd_diff_nat)
    then obtain k where k: "unat v - unat w = 65535 * k" by (auto simp: dvd_def)
    have "k = 0 \<or> k = 1" using k unat_lt_2_16 [of v] by linarith
    then consider "unat v = unat w" | "unat v = 65535" "unat w = 0"
      using k le unat_lt_2_16 [of v] by fastforce
    then show ?thesis
    proof cases
      case 1
      then show ?thesis by (simp add: word_unat_eq_iff)
    next
      case 2
      have "unat (0xFFFF :: u16) = 65535" by simp
      with 2 show ?thesis by (metis unat_eq_0 word_unat_eq_iff)
    qed
  qed
  show ?thesis
  proof (cases "unat w \<le> unat v")
    case True
    then show ?thesis using key [OF assms] by blast
  next
    case False
    then show ?thesis using key [OF assms(2) assms(1)] by auto
  qed
qed

lemma htons_FFFF: "htons w = 0xFFFF \<longleftrightarrow> w = 0xFFFF"
proof -
  have "htons 0xFFFF = 0xFFFF" by (simp add: htons_def mk16_def hi8_def lo8_def)
  then show ?thesis by (metis htons_htons)
qed

lemma word_change_detected:
  assumes "even (length pre)" and "length (pre @ [0, 0] @ post) \<le> 131000"
    and "verify_checksum (pre @ st16 v @ post)" and "verify_checksum (pre @ st16 w @ post)"
  shows "v = w \<or> {v, w} = {0, 0xFFFF}"
proof -
  let ?n = "sum16 (pre @ [0, 0] @ post)"
  have s: "sum16 (pre @ st16 x @ post) = ?n + unat (htons x)" for x
    using sum16_filled [OF assms(1), of "htons x" post] by (simp only: htons_htons)
  have len: "length (pre @ st16 x @ post) \<le> 131000" for x using assms(2) by simp
  have "65535 dvd (?n + unat (htons v))" "65535 dvd (?n + unat (htons w))"
    using assms(3,4) unfolding verify_iff [OF len] s by blast+
  then have "htons v = htons w \<or> {htons v, htons w} = {0, 0xFFFF}" by (rule dvd_65535_word)
  then show ?thesis by (auto simp: htons_eq_iff htons_FFFF doubleton_eq_iff)
qed

section \<open>Properties\<close>

text \<open>A checksum field at an even offset, computed with the field zeroed and stored raw, makes
  the data verify; changing any one aligned 16-bit word of verifying data makes it fail, unless
  the two values are the two representations of zero.\<close>

theorem checksum_fill_detects:
  assumes "even (length pre)" and "length (pre @ [0, 0] @ post) \<le> 131000"
  shows "verify_checksum (pre @ st16 (compute_checksum (pre @ [0, 0] @ post)) @ post) \<and>
         (\<forall>v w. verify_checksum (pre @ st16 v @ post) \<and> verify_checksum (pre @ st16 w @ post) \<longrightarrow>
            v = w \<or> {v, w} = {0, 0xFFFF})"
  using filled_verifies [OF assms] word_change_detected [OF assms]
  unfolding compute_checksum_def by blast

theorem checksum_fill_detects_witness:
  "verify_checksum ([69, 0] @ st16 (compute_checksum ([69, 0] @ [0, 0] @ [1, 2, 3])) @ [1, 2, 3])"
  using checksum_fill_detects [of "[69, 0]" "[1, 2, 3]"] by simp

end
