(* ===== verification/Ipv4.thy ===== *)
theory Ipv4
  imports Checksum
begin

text \<open>
  The IPv4 codec of \<^verbatim>\<open>include/neustack/net/ipv4.hpp\<close> and \<^verbatim>\<open>src/net/ipv4.cpp\<close>: the packet record, the
  validation and parsing of a received frame and the builder.  A pointer with a length is the
  list of the bytes it denotes; the result of \<open>build\<close> is the bytes written at the start of the
  buffer, \<open>None\<close> stands for the result \<open>-1\<close>.
\<close>

section \<open>Packets\<close>

record ipv4_packet =
  ip_version :: u8
  ip_ihl :: u8
  ip_dscp :: u8
  ip_ecn :: u8
  ip_total_length :: u16
  ip_identification :: u16
  ip_dont_fragment :: bool
  ip_more_fragments :: bool
  ip_fragment_offset :: u16
  ip_ttl :: u8
  ip_protocol :: u8
  ip_checksum :: u16
  ip_src_addr :: u32
  ip_dst_addr :: u32
  ip_payload :: bytes
  ip_raw_data :: bytes

definition PROTO_ICMP :: u8 where "PROTO_ICMP = 1"
definition PROTO_TCP :: u8 where "PROTO_TCP = 6"
definition PROTO_UDP :: u8 where "PROTO_UDP = 17"

text \<open>The accessors of \<open>IPv4Header\<close> on the bytes it overlays.\<close>

definition hdr_version :: "bytes \<Rightarrow> u8" where "hdr_version data = drop_bit 4 (data ! 0)"
definition hdr_ihl :: "bytes \<Rightarrow> u8" where "hdr_ihl data = data ! 0 AND 0x0F"
definition hdr_length :: "bytes \<Rightarrow> nat" where "hdr_length data = unat (hdr_ihl data) * 4"
definition hdr_flags :: "bytes \<Rightarrow> u8" where "hdr_flags data = ucast (drop_bit 13 (ntohs (ld16 data 6)))"
definition hdr_fragment_offset :: "bytes \<Rightarrow> u16" where
  "hdr_fragment_offset data = ntohs (ld16 data 6) AND 0x1FFF"

section \<open>Validation and parsing\<close>

datatype ipv4_error =
  PacketTooShort | NotIPv4 | InvalidIHL | HeaderExceedsPacket | TotalLessThanHeader
| TotalExceedsPacket | ChecksumError

definition ipv4_validate :: "bytes \<Rightarrow> ipv4_error option" where
  "ipv4_validate data =
    (if length data < 20 then Some PacketTooShort
     else if hdr_version data \<noteq> 4 then Some NotIPv4
     else if hdr_ihl data < 5 then Some InvalidIHL
     else
       let header_len = hdr_length data in
       if header_len > length data then Some HeaderExceedsPacket
       else
         let total_len = unat (ntohs (ld16 data 2)) in
         if total_len < header_len then Some TotalLessThanHeader
         else if total_len > length data then Some TotalExceedsPacket
         else if \<not> verify_checksum (take header_len data) then Some ChecksumError
         else None)"

definition ipv4_parse :: "bytes \<Rightarrow> ipv4_packet option" where
  "ipv4_parse data =
    (case ipv4_validate data of
       Some err \<Rightarrow> None
     | None \<Rightarrow>
         let header_len = hdr_length data; total = ntohs (ld16 data 2) in
         Some \<lparr>ip_version = hdr_version data, ip_ihl = hdr_ihl data,
               ip_dscp = drop_bit 2 (data ! 1), ip_ecn = data ! 1 AND 0x03,
               ip_total_length = total,
               ip_identification = ntohs (ld16 data 4),
               ip_dont_fragment = (hdr_flags data AND 0x02 \<noteq> 0),
               ip_more_fragments = (hdr_flags data AND 0x01 \<noteq> 0),
               ip_fragment_offset = hdr_fragment_offset data * 8,
               ip_ttl = data ! 8, ip_protocol = data ! 9,
               ip_checksum = ntohs (ld16 data 10),
               ip_src_addr = ntohl (ld32 data 12),
               ip_dst_addr = ntohl (ld32 data 16),
               ip_payload = take (unat total - header_len) (drop header_len data),
               ip_raw_data = data\<rparr>)"

section \<open>Building\<close>

record ipv4_builder =
  ib_dscp :: u8
  ib_ecn :: u8
  ib_identification :: u16
  ib_dont_fragment :: bool
  ib_ttl :: u8
  ib_protocol :: u8
  ib_src_addr :: u32
  ib_dst_addr :: u32
  ib_payload :: bytes

definition ipv4_builder_new :: ipv4_builder where
  "ipv4_builder_new =
     \<lparr>ib_dscp = 0, ib_ecn = 0, ib_identification = 0, ib_dont_fragment = True, ib_ttl = 64,
      ib_protocol = 0, ib_src_addr = 0, ib_dst_addr = 0, ib_payload = []\<rparr>"

text \<open>The twenty bytes of the header after the assignments of \<open>build\<close>, with the given checksum field.\<close>

definition ipv4_header_bytes :: "ipv4_builder \<Rightarrow> nat \<Rightarrow> u16 \<Rightarrow> bytes" where
  "ipv4_header_bytes b total_len checksum =
     [push_bit 4 4 OR 5, push_bit 2 (ib_dscp b) OR (ib_ecn b AND 0x03)] @
     st16 (htons (of_nat total_len)) @
     st16 (htons (ib_identification b)) @
     st16 (htons (if ib_dont_fragment b then 0 OR push_bit 13 0x02 else 0)) @
     [ib_ttl b, ib_protocol b] @
     st16 checksum @
     st32 (htonl (ib_src_addr b)) @
     st32 (htonl (ib_dst_addr b))"

definition ipv4_build :: "ipv4_builder \<Rightarrow> nat \<Rightarrow> bytes option" where
  "ipv4_build b buffer_len =
    (let total_len = 20 + length (ib_payload b) in
     if buffer_len < total_len then None
     else if total_len > 65535 then None
     else Some (ipv4_header_bytes b total_len (compute_checksum (ipv4_header_bytes b total_len 0)) @
                ib_payload b))"

definition ipv4_build_header_only :: "ipv4_builder \<Rightarrow> nat \<Rightarrow> nat \<Rightarrow> bytes option" where
  "ipv4_build_header_only b buffer_len payload_len =
    (let total_len = 20 + payload_len in
     if buffer_len < 20 then None
     else if total_len > 65535 then None
     else Some (ipv4_header_bytes b total_len (compute_checksum (ipv4_header_bytes b total_len 0))))"

section \<open>Round trip\<close>

lemma length_ipv4_header [simp]: "length (ipv4_header_bytes b n c) = 20"
  by (simp add: ipv4_header_bytes_def)

lemma ipv4_header_split:
  "\<exists>pre post. even (length pre) \<and> length (pre @ [0, 0] @ post) = 20 \<and>
     (\<forall>c. ipv4_header_bytes b n c = pre @ st16 c @ post)"
proof -
  let ?pre = "[push_bit 4 4 OR 5, push_bit 2 (ib_dscp b) OR (ib_ecn b AND 0x03)] @
     st16 (htons (of_nat n)) @ st16 (htons (ib_identification b)) @
     st16 (htons (if ib_dont_fragment b then 0 OR push_bit 13 0x02 else 0)) @ [ib_ttl b, ib_protocol b]"
  let ?post = "st32 (htonl (ib_src_addr b)) @ st32 (htonl (ib_dst_addr b))"
  have pre: "length ?pre = 10" and post: "length ?post = 8"
    by (simp_all only: length_append length_st16 length_st32 list.size)
  show ?thesis
  proof (rule exI [of _ ?pre], rule exI [of _ ?post], intro conjI allI)
    show "even (length ?pre)" unfolding pre by simp
    show "length (?pre @ [0, 0] @ ?post) = 20"
      unfolding length_append [of ?pre] length_append [of "[0, 0]"] pre post by simp
    show "ipv4_header_bytes b n c = ?pre @ st16 c @ ?post" for c
      by (simp only: ipv4_header_bytes_def append_assoc append_Cons append_Nil)
  qed
qed

lemma ipv4_header_verifies:
  "verify_checksum (ipv4_header_bytes b n (compute_checksum (ipv4_header_bytes b n 0)))"
proof -
  obtain pre post where e: "even (length pre)" and l: "length (pre @ [0, 0] @ post) = 20"
    and h: "\<And>c. ipv4_header_bytes b n c = pre @ st16 c @ post"
    using ipv4_header_split by blast
  have "st16 0 = [0, 0]" by (simp add: st16_def lo8_def hi8_def)
  then show ?thesis
    using filled_verifies [OF e, of post] l unfolding h compute_checksum_def by simp
qed

lemma header_fields:
  fixes hdr rest :: bytes
  assumes "data = ipv4_header_bytes b n c @ rest"
  shows "data ! 0 = 0x45" and "data ! 1 = push_bit 2 (ib_dscp b) OR (ib_ecn b AND 0x03)"
    and "ntohs (ld16 data 2) = of_nat n" and "ntohs (ld16 data 4) = ib_identification b"
    and "ntohs (ld16 data 6) = (if ib_dont_fragment b then 0x4000 else 0)"
    and "data ! 8 = ib_ttl b" and "data ! 9 = ib_protocol b" and "ntohs (ld16 data 10) = ntohs c"
    and "ntohl (ld32 data 12) = ib_src_addr b" and "ntohl (ld32 data 16) = ib_dst_addr b"
  unfolding assms ipv4_header_bytes_def
  by (simp_all add: ld16_def ld32_def wire)
     (simp_all add: st16_def htons_def wire)


text \<open>What the receiver reads from a built packet, followed in the frame by any padding.\<close>

definition ipv4_built_packet :: "ipv4_builder \<Rightarrow> bytes \<Rightarrow> ipv4_packet" where
  "ipv4_built_packet b data =
     \<lparr>ip_version = 4, ip_ihl = 5, ip_dscp = ib_dscp b AND 0x3F, ip_ecn = ib_ecn b AND 0x03,
      ip_total_length = of_nat (20 + length (ib_payload b)),
      ip_identification = ib_identification b, ip_dont_fragment = ib_dont_fragment b,
      ip_more_fragments = False, ip_fragment_offset = 0, ip_ttl = ib_ttl b,
      ip_protocol = ib_protocol b, ip_checksum = ntohs (ld16 data 10),
      ip_src_addr = ib_src_addr b, ip_dst_addr = ib_dst_addr b,
      ip_payload = ib_payload b, ip_raw_data = data\<rparr>"

lemma dscp_ecn_fields:
  "drop_bit 2 (push_bit 2 d OR (e AND 0x03)) = d AND 0x3F"
  "(push_bit 2 d OR (e AND 0x03)) AND 0x03 = e AND 0x03" for d e :: u8
proof -
  have m: "(0x03 :: u8) = mask 2" "(0x3F :: u8) = mask 6" by (simp_all add: mask_eq_exp_minus_1)
  show "drop_bit 2 (push_bit 2 d OR (e AND 0x03)) = d AND 0x3F"
    unfolding m by (rule bit_word_eqI) (auto simp: bit_simps dest: bit_imp_le_length)
  show "(push_bit 2 d OR (e AND 0x03)) AND 0x03 = e AND 0x03"
    unfolding m by (rule bit_word_eqI) (auto simp: bit_simps)
qed

lemma ipv4_build_Some:
  "ipv4_build b len = Some pkt \<longleftrightarrow>
   20 + length (ib_payload b) \<le> len \<and> 20 + length (ib_payload b) \<le> 65535 \<and>
   pkt = ipv4_header_bytes b (20 + length (ib_payload b))
           (compute_checksum (ipv4_header_bytes b (20 + length (ib_payload b)) 0)) @ ib_payload b"
  by (auto simp: ipv4_build_def Let_def)

lemma length_ipv4_build: "ipv4_build b len = Some pkt \<Longrightarrow> length pkt = 20 + length (ib_payload b)"
  by (auto simp: ipv4_build_Some)

lemma ipv4_parse_built:
  assumes built: "ipv4_build b len = Some pkt" and data: "data = pkt @ padding"
  shows "ipv4_parse data = Some (ipv4_built_packet b data)"
proof -
  let ?n = "20 + length (ib_payload b)"
  obtain c where c: "c = compute_checksum (ipv4_header_bytes b ?n 0)" by blast
  have n: "?n \<le> 65535" and d: "data = ipv4_header_bytes b ?n c @ ib_payload b @ padding"
    using built data c by (simp_all add: ipv4_build_Some)
  note f = header_fields [OF d]
  have u: "unat (of_nat ?n :: u16) = ?n" using n by (intro unat_of_nat_small) simp
  have ihl: "hdr_ihl data = 5" and ver: "hdr_version data = 4"
    unfolding hdr_ihl_def hdr_version_def f by simp_all
  then have hl: "hdr_length data = 20" by (simp add: hdr_length_def)
  have len: "length data = ?n + length padding" unfolding d by simp
  have v: "verify_checksum (take 20 data)"
    unfolding d c using ipv4_header_verifies [of b ?n] by simp
  have valid: "ipv4_validate data = None"
    unfolding ipv4_validate_def Let_def hl ihl ver f(3) u using len v by simp
  have flags: "hdr_flags data = (if ib_dont_fragment b then 2 else 0)"
    and frag: "hdr_fragment_offset data = 0"
    unfolding hdr_flags_def hdr_fragment_offset_def f(5) by simp_all
  have pl: "take (?n - 20) (drop 20 data) = ib_payload b" unfolding d by simp
  show ?thesis
    unfolding ipv4_parse_def Let_def valid ipv4_built_packet_def option.case hl f(3) u pl flags frag
      f(1,2,4,6-) dscp_ecn_fields ihl ver
    by simp
qed

text \<open>What an accepted frame satisfies, and the only reasons to refuse one.\<close>

definition ipv4_wellformed :: "bytes \<Rightarrow> bool" where
  "ipv4_wellformed data \<longleftrightarrow>
     20 \<le> length data \<and> hdr_version data = 4 \<and> 20 \<le> hdr_length data \<and>
     hdr_length data \<le> unat (ntohs (ld16 data 2)) \<and> unat (ntohs (ld16 data 2)) \<le> length data \<and>
     verify_checksum (take (hdr_length data) data)"

lemma ipv4_validate_None: "ipv4_validate data = None \<longleftrightarrow> ipv4_wellformed data"
proof -
  have "hdr_ihl data < 5 \<longleftrightarrow> hdr_length data < 20"
    by (simp add: hdr_length_def word_less_nat_alt)
  then show ?thesis
    by (auto simp: ipv4_validate_def ipv4_wellformed_def Let_def)
qed

lemma ipv4_parse_None: "ipv4_parse data = None \<longleftrightarrow> \<not> ipv4_wellformed data"
  unfolding ipv4_validate_None [symmetric] by (auto simp: ipv4_parse_def Let_def split: option.splits)

lemma ipv4_parse_payload:
  assumes "ipv4_parse data = Some p"
  shows "ip_raw_data p = data" and "unat (ip_ihl p) * 4 = hdr_length data"
    and "data = take (hdr_length data) data @ ip_payload p @ drop (unat (ip_total_length p)) data"
    and "length (ip_payload p) = unat (ip_total_length p) - hdr_length data"
proof -
  have wf: "ipv4_wellformed data" using assms ipv4_parse_None [of data] by auto
  then have v: "ipv4_validate data = None" by (simp add: ipv4_validate_None)
  have p: "ip_raw_data p = data" "ip_ihl p = hdr_ihl data" "ip_total_length p = ntohs (ld16 data 2)"
    "ip_payload p = take (unat (ntohs (ld16 data 2)) - hdr_length data) (drop (hdr_length data) data)"
    using assms unfolding ipv4_parse_def v Let_def by auto
  show "ip_raw_data p = data" "unat (ip_ihl p) * 4 = hdr_length data"
    by (simp_all add: p hdr_length_def)
  have le: "hdr_length data \<le> unat (ntohs (ld16 data 2))" "unat (ntohs (ld16 data 2)) \<le> length data"
    using wf by (simp_all add: ipv4_wellformed_def)
  show "length (ip_payload p) = unat (ip_total_length p) - hdr_length data"
    using le by (simp add: p)
  have "take h data @ take (t - h) (drop h data) @ drop t data = data" if "h \<le> t" for h t
    using that by (metis append.assoc append_take_drop_id le_add_diff_inverse take_add)
  from this [OF le(1)] show "data = take (hdr_length data) data @ ip_payload p @ drop (unat (ip_total_length p)) data"
    by (simp add: p)
qed

section \<open>Properties\<close>

text \<open>C9. What the builder writes, with any bytes after it in the frame, is accepted by the parser
  and read back field by field: the addresses, the protocol, the payload exactly, the
  identification and the flags, with the DSCP and ECN cut to their field widths.\<close>

theorem ipv4_roundtrip:
  assumes "ipv4_build b len = Some pkt"
  shows "ipv4_parse (pkt @ padding) = Some (ipv4_built_packet b (pkt @ padding))"
  using assms by (rule ipv4_parse_built) simp

theorem ipv4_roundtrip_witness:
  "\<exists>pkt. ipv4_build (ipv4_builder_new\<lparr>ib_src_addr := 0x0A000001, ib_payload := [1, 2, 3]\<rparr>) 1500 = Some pkt \<and>
     ipv4_parse (pkt @ [0]) =
       Some (ipv4_built_packet (ipv4_builder_new\<lparr>ib_src_addr := 0x0A000001, ib_payload := [1, 2, 3]\<rparr>) (pkt @ [0]))"
proof -
  obtain pkt where "ipv4_build (ipv4_builder_new\<lparr>ib_src_addr := 0x0A000001, ib_payload := [1, 2, 3]\<rparr>) 1500 = Some pkt"
    by (simp add: ipv4_build_Some ipv4_builder_new_def)
  from ipv4_roundtrip [OF this, of "[0]"] this show ?thesis by blast
qed

text \<open>C10. The parser accepts exactly the well-formed frames (version, header and total lengths
  within the frame, header checksum), and then the frame is the header, the payload and what
  follows the total length; so no read leaves the frame.\<close>

theorem ipv4_parse_exact:
  "(ipv4_parse data \<noteq> None \<longleftrightarrow> ipv4_wellformed data) \<and>
   (\<forall>p. ipv4_parse data = Some p \<longrightarrow>
      data = take (unat (ip_ihl p) * 4) data @ ip_payload p @ drop (unat (ip_total_length p)) data \<and>
      length (ip_payload p) = unat (ip_total_length p) - unat (ip_ihl p) * 4)"
  using ipv4_parse_None [of data] ipv4_parse_payload [of data] by metis

text \<open>The parser at a minimal frame.\<close>

theorem ipv4_parse_exact_witness:
  "\<exists>p. ipv4_parse (the (ipv4_build ipv4_builder_new 20)) = Some p \<and> length (ip_payload p) = 0"
proof -
  obtain pkt where b: "ipv4_build ipv4_builder_new 20 = Some pkt"
    by (simp add: ipv4_build_Some ipv4_builder_new_def)
  let ?p = "ipv4_built_packet ipv4_builder_new pkt"
  have p: "ipv4_parse pkt = Some ?p" using ipv4_parse_built [OF b, of pkt "[]"] by simp
  then have "length (ip_payload ?p) = unat (ip_total_length ?p) - unat (ip_ihl ?p) * 4"
    using ipv4_parse_exact [of pkt] by blast
  then show ?thesis using p b by (auto simp: ipv4_built_packet_def ipv4_builder_new_def)
qed

end
