(* ===== verification/Ip_Layer.thy ===== *)
theory Ip_Layer
  imports Ipv4
begin

text \<open>
  The IPv4 layer (\<^verbatim>\<open>src/net/ipv4.cpp\<close>, class \<open>IPv4Layer\<close>) and the ICMP handler
  (\<^verbatim>\<open>src/net/icmp.cpp\<close>) that answers through it.  The state \<open>net\<close> is the members of the layer
  with the frames handed to the network device so far and the calls of the echo reply callback;
  the device, whose drivers are outside the model, answers a frame with an arbitrary result.
  The table of registered handlers is an argument; the transport layers extend the record.
\<close>

section \<open>State\<close>

datatype net_event = EchoReplied u32 u16 u16 u32

record net =
  il_local_ip :: u32
  il_mtu :: u16
  il_next_id :: u16
  il_device :: "bytes \<Rightarrow> int"
  il_sent :: "bytes list"
  ic_reply_cb :: bool
  ic_events :: "net_event list"

definition net_new :: "(bytes \<Rightarrow> int) \<Rightarrow> net" where
  "net_new device =
     \<lparr>il_local_ip = 0, il_mtu = 1500, il_next_id = 0, il_device = device, il_sent = [],
      ic_reply_cb = False, ic_events = []\<rparr>"

text \<open>
  A registered handler: the ICMP handler, which the layer recognises by a dynamic cast, or any
  other implementation of \<open>IProtocolHandler\<close>, whose \<open>handle\<close> may trap.
\<close>

datatype 's handler = ICMP_Handler | Handler "ipv4_packet \<Rightarrow> 's \<Rightarrow> 's option"

type_synonym 's handlers = "u8 \<Rightarrow> 's handler option"

definition register_handler :: "u8 \<Rightarrow> 's handler option \<Rightarrow> 's handlers \<Rightarrow> 's handlers" where
  "register_handler protocol h hs = (case h of Some x \<Rightarrow> hs(protocol \<mapsto> x) | None \<Rightarrow> hs)"

definition get_handler :: "u8 \<Rightarrow> 's handlers \<Rightarrow> 's handler option" where
  "get_handler protocol hs = hs protocol"

definition get_icmp_handler :: "'s handlers \<Rightarrow> bool" where
  "get_icmp_handler hs = (case hs PROTO_ICMP of Some ICMP_Handler \<Rightarrow> True | _ \<Rightarrow> False)"

section \<open>Sending\<close>

definition ip_send :: "u32 \<Rightarrow> u8 \<Rightarrow> bytes \<Rightarrow> 'a net_scheme \<Rightarrow> int \<times> 'a net_scheme" where
  "ip_send dst protocol payload s =
    (if 20 + length payload > unat (il_mtu s) then (-1, s)
     else
       let b = ipv4_builder_new\<lparr>ib_src_addr := il_local_ip s, ib_dst_addr := dst,
                 ib_protocol := protocol, ib_identification := il_next_id s,
                 ib_dont_fragment := True, ib_ttl := 64, ib_payload := payload\<rparr>;
           s1 = s\<lparr>il_next_id := il_next_id s + 1\<rparr>
       in case ipv4_build b 1500 of
            None \<Rightarrow> (-1, s1)
          | Some pkt \<Rightarrow> (il_device s1 pkt, s1\<lparr>il_sent := il_sent s1 @ [pkt]\<rparr>))"

section \<open>ICMP\<close>

definition ICMP_EchoReply :: u8 where "ICMP_EchoReply = 0"
definition ICMP_DestUnreachable :: u8 where "ICMP_DestUnreachable = 3"
definition ICMP_EchoRequest :: u8 where "ICMP_EchoRequest = 8"
definition ICMP_TimeExceeded :: u8 where "ICMP_TimeExceeded = 11"

lemmas icmp_types = ICMP_EchoReply_def ICMP_DestUnreachable_def ICMP_EchoRequest_def ICMP_TimeExceeded_def

text \<open>The message in the buffer: the header with the checksum computed over it, then the body.\<close>

definition icmp_message :: "u8 \<Rightarrow> u8 \<Rightarrow> bytes \<Rightarrow> bytes" where
  "icmp_message type code body =
     [type, code] @ st16 (compute_checksum ([type, code] @ [0, 0] @ body)) @ body"

definition handle_echo_request :: "ipv4_packet \<Rightarrow> 'a net_scheme \<Rightarrow> 'a net_scheme" where
  "handle_echo_request pkt s =
    (let p = ip_payload pkt in
     if length p < 4 + 4 then s
     else if length p > 1500 then s
     else snd (ip_send (ip_src_addr pkt) PROTO_ICMP
                (icmp_message ICMP_EchoReply 0 (st16 (ld16 p 4) @ st16 (ld16 p 6) @ drop 8 p)) s))"

definition handle_echo_reply :: "ipv4_packet \<Rightarrow> 'a net_scheme \<Rightarrow> 'a net_scheme" where
  "handle_echo_reply pkt s =
    (let p = ip_payload pkt in
     if length p < 4 + 4 then s
     else if ic_reply_cb s
     then s\<lparr>ic_events := ic_events s @
             [EchoReplied (ip_src_addr pkt) (ntohs (ld16 p 4)) (ntohs (ld16 p 6)) 0]\<rparr>
     else s)"

definition icmp_handle :: "ipv4_packet \<Rightarrow> 'a net_scheme \<Rightarrow> 'a net_scheme" where
  "icmp_handle pkt s =
    (let p = ip_payload pkt in
     if length p < 4 then s
     else if \<not> verify_checksum p then s
     else if p ! 0 = ICMP_EchoRequest then handle_echo_request pkt s
     else if p ! 0 = ICMP_EchoReply then handle_echo_reply pkt s
     else s)"

definition send_error :: "u8 \<Rightarrow> u8 \<Rightarrow> u32 \<Rightarrow> ipv4_packet \<Rightarrow> 'a net_scheme \<Rightarrow> 'a net_scheme" where
  "send_error type code extra pkt s =
    (let orig_ip_hdr_len = unat (ip_ihl pkt) * 4;
         orig_data_len = min (length (ip_payload pkt)) 8;
         icmp_len = 4 + 4 + (orig_ip_hdr_len + orig_data_len)
     in if icmp_len > 256 then s
        else snd (ip_send (ip_src_addr pkt) PROTO_ICMP
               (icmp_message type code
                 (st16 (ucast (drop_bit 16 extra AND 0xffff)) @ st16 (ucast (extra AND 0xffff)) @
                  take orig_ip_hdr_len (ip_raw_data pkt) @ take orig_data_len (ip_payload pkt))) s))"

text \<open>The guard of both senders of errors: an ICMP message that is not an echo is never answered.\<close>

definition icmp_error_allowed :: "ipv4_packet \<Rightarrow> bool" where
  "icmp_error_allowed pkt \<longleftrightarrow>
    (if ip_protocol pkt = PROTO_ICMP
     then \<not> length (ip_payload pkt) < 4 \<and>
          (ip_payload pkt ! 0 = ICMP_EchoRequest \<or> ip_payload pkt ! 0 = ICMP_EchoReply)
     else True)"

definition send_dest_unreachable :: "u8 \<Rightarrow> ipv4_packet \<Rightarrow> 'a net_scheme \<Rightarrow> 'a net_scheme" where
  "send_dest_unreachable code pkt s =
    (if \<not> icmp_error_allowed pkt then s else send_error ICMP_DestUnreachable code 0 pkt s)"

definition send_time_exceeded :: "u8 \<Rightarrow> ipv4_packet \<Rightarrow> 'a net_scheme \<Rightarrow> 'a net_scheme" where
  "send_time_exceeded code pkt s =
    (if \<not> icmp_error_allowed pkt then s else send_error ICMP_TimeExceeded code 0 pkt s)"

definition send_echo_request :: "u32 \<Rightarrow> u16 \<Rightarrow> u16 \<Rightarrow> bytes \<Rightarrow> 'a net_scheme \<Rightarrow> 'a net_scheme" where
  "send_echo_request dst identifier sequence data s =
    (if 4 + 4 + length data > 1500 then s
     else snd (ip_send dst PROTO_ICMP
            (icmp_message ICMP_EchoRequest 0 (st16 (htons identifier) @ st16 (htons sequence) @ data)) s))"

section \<open>Receiving\<close>

definition is_multicast :: "u32 \<Rightarrow> bool" where
  "is_multicast a \<longleftrightarrow> (let first_octet = ucast (drop_bit 24 a AND 0xFF) :: u8
                       in 224 \<le> first_octet \<and> first_octet \<le> 239)"

definition should_send_icmp_error :: "ipv4_packet \<Rightarrow> bool" where
  "should_send_icmp_error pkt =
    (if ip_src_addr pkt = 0 then False
     else if ip_src_addr pkt = 0xFFFFFFFF then False
     else if is_multicast (ip_src_addr pkt) then False
     else if ip_dst_addr pkt = 0xFFFFFFFF then False
     else if is_multicast (ip_dst_addr pkt) then False
     else if ip_fragment_offset pkt > 0 then False
     else True)"

definition run_handler :: "('a net_scheme) handler \<Rightarrow> ipv4_packet \<Rightarrow> 'a net_scheme \<Rightarrow> 'a net_scheme option" where
  "run_handler h pkt s = (case h of ICMP_Handler \<Rightarrow> Some (icmp_handle pkt s) | Handler f \<Rightarrow> f pkt s)"

definition ip_on_receive ::
  "('a net_scheme) handlers \<Rightarrow> bytes \<Rightarrow> 'a net_scheme \<Rightarrow> 'a net_scheme option" where
  "ip_on_receive hs data s =
    (case ipv4_parse data of
       None \<Rightarrow> Some s
     | Some pkt \<Rightarrow>
         if ip_dst_addr pkt \<noteq> il_local_ip s \<and> ip_dst_addr pkt \<noteq> 0xFFFFFFFF then Some s
         else if ip_ttl pkt = 0 then
           Some (if should_send_icmp_error pkt \<and> get_icmp_handler hs
                 then send_time_exceeded 0 pkt s else s)
         else
           (case hs (ip_protocol pkt) of
              Some h \<Rightarrow> run_handler h pkt s
            | None \<Rightarrow>
                Some (if should_send_icmp_error pkt \<and> get_icmp_handler hs
                      then send_dest_unreachable 2 pkt s else s)))"


section \<open>What a sent frame carries\<close>

definition carries :: "bytes \<Rightarrow> u32 \<Rightarrow> u32 \<Rightarrow> u8 \<Rightarrow> bytes \<Rightarrow> bool" where
  "carries frame src dst protocol payload \<longleftrightarrow>
     (\<exists>q. ipv4_parse frame = Some q \<and> ip_src_addr q = src \<and> ip_dst_addr q = dst \<and>
          ip_protocol q = protocol \<and> ip_payload q = payload \<and> ip_ttl q = 64 \<and>
          ip_fragment_offset q = 0 \<and> \<not> ip_more_fragments q)"

definition sent_one :: "'a net_scheme \<Rightarrow> bytes \<Rightarrow> 'a net_scheme" where
  "sent_one s frame = s\<lparr>il_next_id := il_next_id s + 1, il_sent := il_sent s @ [frame]\<rparr>"

lemma sent_one_simps [simp]:
  "il_sent (sent_one s f) = il_sent s @ [f]" "il_local_ip (sent_one s f) = il_local_ip s"
  "il_mtu (sent_one s f) = il_mtu s" "ic_events (sent_one s f) = ic_events s"
  by (simp_all add: sent_one_def)

lemma ip_send_cases:
  "(\<exists>frame. ip_send dst proto payload s = (il_device s frame, sent_one s frame) \<and>
      carries frame (il_local_ip s) dst proto payload \<and> length frame = 20 + length payload \<and>
      length frame \<le> unat (il_mtu s) \<and> length frame \<le> 1500) \<or>
   (fst (ip_send dst proto payload s) = -1 \<and> il_sent (snd (ip_send dst proto payload s)) = il_sent s \<and>
    (unat (il_mtu s) < 20 + length payload \<or> 1500 < 20 + length payload))"
proof -
  let ?b = "ipv4_builder_new\<lparr>ib_src_addr := il_local_ip s, ib_dst_addr := dst,
              ib_protocol := proto, ib_identification := il_next_id s,
              ib_dont_fragment := True, ib_ttl := 64, ib_payload := payload\<rparr>"
  show ?thesis
  proof (cases "unat (il_mtu s) < 20 + length payload")
    case True
    then show ?thesis by (simp add: ip_send_def)
  next
    case mtu: False
    show ?thesis
    proof (cases "ipv4_build ?b 1500")
      case None
      then have "1500 < 20 + length payload"
        by (auto simp: ipv4_build_def Let_def split: if_splits)
      then show ?thesis using mtu None by (simp add: ip_send_def Let_def)
    next
      case (Some frame)
      have "ipv4_parse frame = Some (ipv4_built_packet ?b frame)"
        using ipv4_parse_built [OF Some, of frame "[]"] by simp
      then have "carries frame (il_local_ip s) dst proto payload"
        by (simp add: carries_def ipv4_built_packet_def)
      moreover have "length frame = 20 + length payload" "20 + length payload \<le> 1500"
        using length_ipv4_build [OF Some] Some by (auto simp: ipv4_build_Some)
      moreover have "ip_send dst proto payload s = (il_device s frame, sent_one s frame)"
        using mtu Some by (simp add: ip_send_def Let_def sent_one_def)
      ultimately show ?thesis using mtu by auto
    qed
  qed
qed

lemma ip_send_fits:
  assumes "20 + length payload \<le> unat (il_mtu s)" and "20 + length payload \<le> 1500"
  shows "\<exists>frame. ip_send dst proto payload s = (il_device s frame, sent_one s frame) \<and>
           carries frame (il_local_ip s) dst proto payload \<and> length frame = 20 + length payload"
  using ip_send_cases [of dst proto payload s] assms by auto

lemma ip_send_sent:
  "il_sent (snd (ip_send dst proto payload s)) = il_sent s \<or>
   (\<exists>frame. il_sent (snd (ip_send dst proto payload s)) = il_sent s @ [frame] \<and>
      carries frame (il_local_ip s) dst proto payload)"
  using ip_send_cases [of dst proto payload s] by auto

lemma icmp_message_verifies:
  "length body \<le> 1500 \<Longrightarrow> verify_checksum (icmp_message type code body)"
  using filled_verifies [of "[type, code]" body] by (simp add: icmp_message_def compute_checksum_def)

lemma icmp_message_simps [simp]:
  "length (icmp_message type code body) = 4 + length body"
  "icmp_message type code body ! 0 = type"
  "icmp_message type code body ! Suc 0 = code"
  "drop 4 (icmp_message type code body) = body"
  by (simp_all add: icmp_message_def st16_def)

section \<open>Who is answered\<close>

text \<open>A message of the handler that is not an echo request.\<close>

definition unanswerable :: "bytes \<Rightarrow> bool" where
  "unanswerable frame \<longleftrightarrow>
     (\<exists>src dst type code body. carries frame src dst PROTO_ICMP (icmp_message type code body) \<and>
        type \<noteq> ICMP_EchoRequest)"

lemma unanswerableI:
  "carries frame src dst PROTO_ICMP (icmp_message type code body) \<Longrightarrow> type \<noteq> ICMP_EchoRequest \<Longrightarrow>
   unanswerable frame"
  unfolding unanswerable_def by blast

definition sends_only :: "(bytes \<Rightarrow> bool) \<Rightarrow> 'a net_scheme \<Rightarrow> 'a net_scheme \<Rightarrow> bool" where
  "sends_only P s s' \<longleftrightarrow> (\<exists>fs. il_sent s' = il_sent s @ fs \<and> (\<forall>f \<in> set fs. P f))"

lemma sends_only_refl [intro, simp]: "sends_only P s s"
  by (simp add: sends_only_def)

lemma sends_only_ip_send:
  "(\<And>frame. carries frame (il_local_ip s) dst proto payload \<Longrightarrow> P frame) \<Longrightarrow>
   sends_only P s (snd (ip_send dst proto payload s))"
  using ip_send_sent [of dst proto payload s] by (auto simp: sends_only_def)

lemma send_error_unanswerable:
  "type \<noteq> ICMP_EchoRequest \<Longrightarrow> sends_only unanswerable s (send_error type code extra pkt s)"
  unfolding send_error_def Let_def
  by (auto intro!: sends_only_ip_send elim!: unanswerableI)

lemma icmp_handle_unanswerable: "sends_only unanswerable s (icmp_handle pkt s)"
proof -
  have "sends_only unanswerable s (handle_echo_request pkt s)"
    unfolding handle_echo_request_def Let_def
    by (auto intro!: sends_only_ip_send elim!: unanswerableI simp: icmp_types)
  moreover have "sends_only unanswerable s (handle_echo_reply pkt s)"
    by (auto simp: handle_echo_reply_def Let_def sends_only_def)
  ultimately show ?thesis by (simp add: icmp_handle_def Let_def)
qed

lemma ip_on_receive_unanswerable:
  assumes "ip_on_receive hs data s = Some s'"
    and "\<And>p. hs p = None \<or> hs p = Some ICMP_Handler"
  shows "sends_only unanswerable s s'"
proof (cases "ipv4_parse data")
  case None
  then show ?thesis using assms(1) by (simp add: ip_on_receive_def)
next
  case (Some pkt)
  have e: "sends_only unanswerable s (send_time_exceeded 0 pkt s)"
    "sends_only unanswerable s (send_dest_unreachable 2 pkt s)"
    by (simp_all add: send_time_exceeded_def send_dest_unreachable_def
        send_error_unanswerable icmp_types)
  show ?thesis
    using assms(1) Some e icmp_handle_unanswerable [of s pkt] assms(2) [of "ip_protocol pkt"]
    by (auto simp: ip_on_receive_def run_handler_def split: if_splits)
qed

lemma unanswerable_ignored:
  assumes "unanswerable frame" and "hs PROTO_ICMP = Some ICMP_Handler"
  shows "\<exists>s'. ip_on_receive hs frame s = Some s' \<and> il_sent s' = il_sent s"
proof -
  obtain q type code body where q: "ipv4_parse frame = Some q" "ip_protocol q = PROTO_ICMP"
    "ip_payload q = icmp_message type code body" "ip_ttl q = 64" and t: "type \<noteq> ICMP_EchoRequest"
    using assms(1) by (auto simp: unanswerable_def carries_def)
  have "il_sent (icmp_handle q s) = il_sent s"
    using t q(3) by (simp add: icmp_handle_def handle_echo_reply_def Let_def)
  then show ?thesis
    using q assms(2) by (simp add: ip_on_receive_def run_handler_def)
qed


section \<open>The content of an error\<close>

lemma orig_datagram:
  assumes "ipv4_parse data = Some pkt"
  shows "take (unat (ip_ihl pkt) * 4) (ip_raw_data pkt) @ take (min (length (ip_payload pkt)) 8) (ip_payload pkt) =
         take (unat (ip_ihl pkt) * 4 + min (length (ip_payload pkt)) 8) data"
proof -
  let ?h = "hdr_length data" and ?m = "min (length (ip_payload pkt)) 8"
  note pp = ipv4_parse_payload [OF assms]
  have "?h \<le> length data"
    using assms ipv4_parse_None [of data] by (auto simp: ipv4_wellformed_def)
  then have "drop ?h data = ip_payload pkt @ drop (unat (ip_total_length pkt)) data"
    using arg_cong [OF pp(3), of "drop ?h"] by simp
  then have "take (?h + ?m) data = take ?h data @ take ?m (ip_payload pkt)"
    by (simp add: take_add)
  then show ?thesis by (simp add: pp(1,2))
qed

lemma ihl_bound: "ipv4_parse data = Some pkt \<Longrightarrow> unat (ip_ihl pkt) \<le> 15"
proof -
  assume p: "ipv4_parse data = Some pkt"
  then have "ip_ihl pkt = data ! 0 AND 0x0F"
    unfolding ipv4_parse_def Let_def hdr_ihl_def by (auto split: option.splits)
  then have "ip_ihl pkt \<le> 0x0F" by (simp add: word_and_le1)
  then show ?thesis by (simp add: word_le_nat_alt)
qed

lemma send_error_content:
  assumes "ipv4_parse data = Some pkt" and "96 \<le> unat (il_mtu s)"
  shows "\<exists>frame. send_error type code 0 pkt s = sent_one s frame \<and>
           carries frame (il_local_ip s) (ip_src_addr pkt) PROTO_ICMP
             (icmp_message type code ([0, 0, 0, 0] @
                take (unat (ip_ihl pkt) * 4 + min (length (ip_payload pkt)) 8) data))"
proof -
  let ?n = "unat (ip_ihl pkt) * 4 + min (length (ip_payload pkt)) 8"
  let ?body = "[0, 0, 0, 0] @ take ?n data"
  have n: "?n \<le> 68" using ihl_bound [OF assms(1)] by linarith
  have len: "20 + length (icmp_message type code ?body) \<le> unat (il_mtu s)"
    "20 + length (icmp_message type code ?body) \<le> 1500"
    using n assms(2) by auto
  have z: "st16 (ucast (drop_bit 16 (0 :: u32) AND 0xffff)) @ st16 (ucast ((0 :: u32) AND 0xffff)) = [0, 0, 0, 0]"
    by (simp add: st16_def lo8_def hi8_def)
  have "st16 (ucast (drop_bit 16 (0 :: u32) AND 0xffff)) @ st16 (ucast ((0 :: u32) AND 0xffff)) @
      take (unat (ip_ihl pkt) * 4) (ip_raw_data pkt) @ take (min (length (ip_payload pkt)) 8) (ip_payload pkt) = ?body"
    unfolding orig_datagram [OF assms(1)] using z by simp
  moreover have "\<not> 4 + 4 + ?n > 256" using n by linarith
  ultimately have "send_error type code 0 pkt s =
      snd (ip_send (ip_src_addr pkt) PROTO_ICMP (icmp_message type code ?body) s)"
    unfolding send_error_def Let_def by (simp only: if_False)
  then show ?thesis using ip_send_fits [OF len, of "ip_src_addr pkt" PROTO_ICMP] by auto
qed

section \<open>Properties\<close>



text \<open>C11. A valid echo request addressed to this host (or broadcast) with a living TTL is answered by
  exactly one frame, which carries to the sender an echo reply with the same identifier,
  sequence number and data, a verifying checksum and this host as source; the identification
  counter advances by one and nothing else changes.\<close>

theorem echo_request_answered:
  assumes "ipv4_parse data = Some pkt"
    and "ip_dst_addr pkt = il_local_ip s \<or> ip_dst_addr pkt = 0xFFFFFFFF"
    and "ip_ttl pkt \<noteq> 0" and "ip_protocol pkt = PROTO_ICMP" and "hs PROTO_ICMP = Some ICMP_Handler"
    and "ip_payload pkt = icmp_message ICMP_EchoRequest code (a # b # c # d # body)"
    and "28 + length body \<le> unat (il_mtu s)" and "length body \<le> 1472"
  shows "\<exists>frame. ip_on_receive hs data s = Some (sent_one s frame) \<and>
           carries frame (il_local_ip s) (ip_src_addr pkt) PROTO_ICMP
             (icmp_message ICMP_EchoReply 0 (a # b # c # d # body)) \<and>
           verify_checksum (icmp_message ICMP_EchoReply 0 (a # b # c # d # body))"
proof -
  let ?req = "icmp_message ICMP_EchoRequest code (a # b # c # d # body)"
  have echo: "st16 (ld16 ?req 4) @ st16 (ld16 ?req 6) @ drop 8 ?req = a # b # c # d # body"
    by (simp add: icmp_message_def ld16_def st16_def wire)
  have v: "verify_checksum (icmp_message t k (a # b # c # d # body))" for t k
    using assms(8) by (intro icmp_message_verifies) simp
  have len: "20 + length (icmp_message ICMP_EchoReply 0 (a # b # c # d # body)) \<le> unat (il_mtu s)"
    "20 + length (icmp_message ICMP_EchoReply 0 (a # b # c # d # body)) \<le> 1500"
    using assms(7,8) by simp_all
  obtain frame where
    f: "ip_send (ip_src_addr pkt) PROTO_ICMP (icmp_message ICMP_EchoReply 0 (a # b # c # d # body)) s =
          (il_device s frame, sent_one s frame)"
      "carries frame (il_local_ip s) (ip_src_addr pkt) PROTO_ICMP
         (icmp_message ICMP_EchoReply 0 (a # b # c # d # body))"
    using ip_send_fits [OF len] by blast
  have "handle_echo_request pkt s = sent_one s frame"
    unfolding handle_echo_request_def Let_def assms(6) echo f(1) using assms(8) by simp
  then have "icmp_handle pkt s = sent_one s frame"
    unfolding icmp_handle_def Let_def assms(6) using v by simp
  then have "ip_on_receive hs data s = Some (sent_one s frame)"
    using assms(1-5) by (auto simp: ip_on_receive_def run_handler_def)
  with f(2) v show ?thesis by blast
qed


lemma echo_request_answered_witness:
  "\<exists>data frame s'. ip_on_receive [1 \<mapsto> ICMP_Handler] data ((net_new (\<lambda>_. 0))\<lparr>il_local_ip := 0x0A000001\<rparr>) = Some s' \<and>
     il_sent s' = [frame] \<and>
     carries frame 0x0A000001 0x0A000002 PROTO_ICMP (icmp_message ICMP_EchoReply 0 [0, 1, 0, 2, 99])"
proof -
  let ?b = "ipv4_builder_new\<lparr>ib_src_addr := 0x0A000002, ib_dst_addr := 0x0A000001, ib_protocol := 1,
              ib_payload := icmp_message ICMP_EchoRequest 0 [0, 1, 0, 2, 99]\<rparr>"
  let ?s = "(net_new (\<lambda>_. 0))\<lparr>il_local_ip := 0x0A000001\<rparr>"
  obtain data where b: "ipv4_build ?b 1500 = Some data"
    by (simp add: ipv4_build_Some ipv4_builder_new_def)
  let ?p = "ipv4_built_packet ?b data"
  have p: "ipv4_parse data = Some ?p" using ipv4_parse_built [OF b, of data "[]"] by simp
  obtain frame where "ip_on_receive [1 \<mapsto> ICMP_Handler] data ?s = Some (sent_one ?s frame)"
    "carries frame (il_local_ip ?s) (ip_src_addr ?p) PROTO_ICMP (icmp_message ICMP_EchoReply 0 [0, 1, 0, 2, 99])"
    using echo_request_answered [OF p, of ?s "[1 \<mapsto> ICMP_Handler]" 0 0 1 0 2 "[99]"]
    by (auto simp: ipv4_built_packet_def ipv4_builder_new_def net_new_def PROTO_ICMP_def)
  then show ?thesis
    by (intro exI [of _ data] exI [of _ frame] exI [of _ "sent_one ?s frame"])
       (simp add: ipv4_built_packet_def net_new_def)
qed



end
