(* ===== verification/Udp_Layer.thy ===== *)
theory Udp_Layer
  imports Ip_Layer
begin

text \<open>
  The UDP layer (\<^verbatim>\<open>include/neustack/transport/udp.hpp\<close>, \<^verbatim>\<open>src/transport/udp.cpp\<close>).  Its state extends
  the IPv4 layer's: the bound sockets with a number for each receive callback, the counter of
  ephemeral ports and the deliveries made so far.  A callback is the last action of \<open>handle\<close>, so
  what an application does in it is a later operation of the model.
\<close>

section \<open>State and datagrams\<close>

record udp_net = net +
  udp_sockets :: "u16 \<Rightarrow> nat option"
  udp_next_port :: u16
  udp_delivered :: "(nat \<times> u32 \<times> u16 \<times> bytes) list"

record udp_datagram =
  ud_src_addr :: u32
  ud_dst_addr :: u32
  ud_src_port :: u16
  ud_dst_port :: u16
  ud_length :: u16
  ud_checksum :: u16
  ud_data :: bytes

definition udp_new :: "net \<Rightarrow> udp_net" where
  "udp_new s = net.extend s \<lparr>udp_sockets = (\<lambda>_. None), udp_next_port = 49152, udp_delivered = []\<rparr>"

definition udp_pseudo_header :: "u32 \<Rightarrow> u32 \<Rightarrow> nat \<Rightarrow> bytes" where
  "udp_pseudo_header src_ip dst_ip udp_len =
     st32 (htonl src_ip) @ st32 (htonl dst_ip) @ [0, 17] @ st16 (htons (of_nat udp_len))"

definition compute_udp_checksum :: "u32 \<Rightarrow> u32 \<Rightarrow> bytes \<Rightarrow> u16" where
  "compute_udp_checksum src_ip dst_ip packet =
    (let sum = checksum_accumulate 0 (udp_pseudo_header src_ip dst_ip (length packet))
     in checksum_finalize (checksum_accumulate sum packet))"

definition udp_verify_checksum :: "ipv4_packet \<Rightarrow> bool" where
  "udp_verify_checksum pkt \<longleftrightarrow> compute_udp_checksum (ip_src_addr pkt) (ip_dst_addr pkt) (ip_payload pkt) = 0"

definition udp_parse :: "ipv4_packet \<Rightarrow> udp_datagram option" where
  "udp_parse pkt =
    (let p = ip_payload pkt in
     if length p < 8 then None
     else
       let udp_len = ntohs (ld16 p 4) in
       if udp_len < 8 \<or> unat udp_len > length p then None
       else if ld16 p 6 \<noteq> 0 \<and> \<not> udp_verify_checksum pkt then None
       else Some \<lparr>ud_src_addr = ip_src_addr pkt, ud_dst_addr = ip_dst_addr pkt,
                  ud_src_port = ntohs (ld16 p 0), ud_dst_port = ntohs (ld16 p 2),
                  ud_length = udp_len, ud_checksum = ntohs (ld16 p 6),
                  ud_data = take (unat udp_len - 8) (drop 8 p)\<rparr>)"

section \<open>Operations\<close>

text \<open>The flag is the result of the dynamic cast of the registered protocol 1 handler.\<close>

definition udp_handle :: "bool \<Rightarrow> ipv4_packet \<Rightarrow> 'a udp_net_scheme \<Rightarrow> 'a udp_net_scheme" where
  "udp_handle icmp pkt s =
    (case udp_parse pkt of
       None \<Rightarrow> s
     | Some d \<Rightarrow>
         (case udp_sockets s (ud_dst_port d) of
            Some cb \<Rightarrow> s\<lparr>udp_delivered := udp_delivered s @
                           [(cb, ud_src_addr d, ud_src_port d, ud_data d)]\<rparr>
          | None \<Rightarrow> if icmp then send_dest_unreachable 3 pkt s else s))"

definition udp_packet :: "u16 \<Rightarrow> u16 \<Rightarrow> u16 \<Rightarrow> bytes \<Rightarrow> bytes" where
  "udp_packet src_port dst_port checksum data =
     st16 (htons src_port) @ st16 (htons dst_port) @ st16 (htons (of_nat (8 + length data))) @
     st16 checksum @ data"

definition udp_sendto ::
  "u32 \<Rightarrow> u16 \<Rightarrow> u16 \<Rightarrow> bytes \<Rightarrow> 'a udp_net_scheme \<Rightarrow> int \<times> 'a udp_net_scheme" where
  "udp_sendto dst_ip dst_port src_port data s =
    (if udp_sockets s src_port = None then (-1, s)
     else
       let c = compute_udp_checksum (il_local_ip s) dst_ip (udp_packet src_port dst_port 0 data);
           c' = (if c = 0 then 0xffff else c)
       in ip_send dst_ip PROTO_UDP (udp_packet src_port dst_port c' data) s)"

text \<open>
  The ephemeral port counter: the comparison with the largest port is on 16 bits, where no
  value exceeds 65535.
\<close>

definition udp_bump_port :: "u16 \<Rightarrow> u16" where
  "udp_bump_port p = (let q = p + 1 in if unat q > 65535 then 49152 else q)"

lemma udp_bump_port_wraps: "udp_bump_port p = p + 1"
  using unat_lt_2_16 [of "p + 1"] unfolding udp_bump_port_def Let_def by auto

function udp_alloc_loop :: "(u16 \<Rightarrow> nat option) \<Rightarrow> u16 \<Rightarrow> u16 \<Rightarrow> u16 \<times> u16" where
  "udp_alloc_loop sockets start next_port =
    (if sockets next_port = None then (next_port, udp_bump_port next_port)
     else
       let n = udp_bump_port next_port in
       if n \<noteq> start then udp_alloc_loop sockets start n else (0, n))"
  by pat_completeness auto
termination
proof (relation "measure (\<lambda>(_, start, p). unat (start - p - 1))", goal_cases)
  case 1
  show ?case by simp
next
  case (2 sockets start p n)
  then have n: "n = p + 1" "start - p - 1 \<noteq> 0"
    by (auto simp: udp_bump_port_wraps algebra_simps)
  have "start - n - 1 = (start - p - 1) - 1" by (simp add: n(1))
  then have "unat (start - n - 1) = unat (start - p - 1) - 1"
    using unat_minus_one [OF n(2)] by (simp only:)
  moreover have "0 < unat (start - p - 1)" using n(2) unfolding unat_gt_0 by blast
  ultimately show ?case by (simp only: in_measure case_prod_conv)
qed

declare udp_alloc_loop.simps [simp del]

definition udp_allocate_ephemeral_port :: "'a udp_net_scheme \<Rightarrow> u16 \<times> 'a udp_net_scheme" where
  "udp_allocate_ephemeral_port s =
    (case udp_alloc_loop (udp_sockets s) (udp_next_port s) (udp_next_port s) of
       (port, next_port) \<Rightarrow> (port, s\<lparr>udp_next_port := next_port\<rparr>))"

definition udp_bind :: "u16 \<Rightarrow> nat option \<Rightarrow> 'a udp_net_scheme \<Rightarrow> u16 \<times> 'a udp_net_scheme" where
  "udp_bind port callback s =
    (case callback of
       None \<Rightarrow> (0, s)
     | Some cb \<Rightarrow>
         let (port1, s1) = (if port = 0 then udp_allocate_ephemeral_port s else (port, s)) in
         if port = 0 \<and> port1 = 0 then (0, s1)
         else if udp_sockets s1 port1 \<noteq> None then (0, s1)
         else (port1, s1\<lparr>udp_sockets := (udp_sockets s1)(port1 \<mapsto> cb)\<rparr>))"

definition udp_unbind :: "u16 \<Rightarrow> 'a udp_net_scheme \<Rightarrow> 'a udp_net_scheme" where
  "udp_unbind port s =
    (case udp_sockets s port of
       Some _ \<Rightarrow> s\<lparr>udp_sockets := (udp_sockets s)(port := None)\<rparr>
     | None \<Rightarrow> s)"

section \<open>The checksum of a sent datagram verifies\<close>

lemma length_udp_pseudo [simp]: "length (udp_pseudo_header a b n) = 12"
  by (simp add: udp_pseudo_header_def)

lemma length_udp_packet [simp]: "length (udp_packet a b c d) = 8 + length d"
  by (simp add: udp_packet_def)

lemma compute_udp_checksum_append:
  "compute_udp_checksum src dst p =
     checksum_finalize (checksum_accumulate 0 (udp_pseudo_header src dst (length p) @ p))"
  by (simp add: compute_udp_checksum_def Let_def accumulate_append)

lemma udp_checksum_zero_iff:
  "length p \<le> 130000 \<Longrightarrow>
   compute_udp_checksum src dst p = 0 \<longleftrightarrow> verify_checksum (udp_pseudo_header src dst (length p) @ p)"
  unfolding compute_udp_checksum_append by (rule finalize_zero_iff_verify) simp

lemma all_ones_also_verifies:
  assumes "even (length pre)" and "length (pre @ [0, 0] @ post) \<le> 131000"
    and "verify_checksum (pre @ [0, 0] @ post)"
  shows "verify_checksum (pre @ st16 0xffff @ post)"
proof -
  let ?n = "sum16 (pre @ [0, 0] @ post)"
  have "htons 0xffff = 0xffff" by (simp add: htons_FFFF)
  then have s: "sum16 (pre @ st16 0xffff @ post) = ?n + 65535"
    using sum16_filled [OF assms(1), of "0xffff" post] by simp
  have "length (pre @ st16 0xffff @ post) \<le> 131000" using assms(2) by simp
  moreover have "65535 dvd ?n" using assms(3) unfolding verify_iff [OF assms(2)] by blast
  then have "65535 dvd (?n + 65535)" by simp
  ultimately show ?thesis by (simp only: verify_iff s) simp
qed

lemma udp_sent_verifies:
  assumes "length data \<le> 65000"
    and "c = compute_udp_checksum src dst (udp_packet sp dp 0 data)"
    and "c' = (if c = 0 then 0xffff else c)"
  shows "compute_udp_checksum src dst (udp_packet sp dp c' data) = 0" and "c' \<noteq> 0"
proof -
  show "c' \<noteq> 0" using assms(3) by simp
  let ?h = "udp_pseudo_header src dst (8 + length data)"
  let ?pre = "?h @ st16 (htons sp) @ st16 (htons dp) @ st16 (htons (of_nat (8 + length data)))"
  have even: "even (length ?pre)" by simp
  have len: "length (?pre @ [0, 0] @ data) \<le> 131000" using assms(1) by simp
  have z: "st16 0 = [0, 0]" by (simp add: st16_def lo8_def hi8_def)
  have pk: "?h @ udp_packet sp dp w data = ?pre @ st16 w @ data" for w
    by (simp add: udp_packet_def)
  have c: "c = checksum_finalize (checksum_accumulate 0 (?pre @ [0, 0] @ data))"
    unfolding assms(2) compute_udp_checksum_append length_udp_packet pk z ..
  have "verify_checksum (?pre @ st16 c' @ data)"
  proof (cases "c = 0")
    case True
    then have "verify_checksum (?pre @ [0, 0] @ data)"
      using finalize_zero_iff_verify [OF len] c by simp
    then show ?thesis using all_ones_also_verifies [OF even len] assms(3) True by simp
  next
    case False
    then show ?thesis using filled_verifies [OF even len] c assms(3) by simp
  qed
  then show "compute_udp_checksum src dst (udp_packet sp dp c' data) = 0"
    using assms(1) udp_checksum_zero_iff [of "udp_packet sp dp c' data" src dst]
    unfolding length_udp_packet pk by linarith
qed


section \<open>Sending and receiving\<close>

lemma udp_packet_fields:
  "ntohs (ld16 (udp_packet sp dp c data) 0) = sp" "ntohs (ld16 (udp_packet sp dp c data) 2) = dp"
  "ntohs (ld16 (udp_packet sp dp c data) 4) = of_nat (8 + length data)"
  "ld16 (udp_packet sp dp c data) 6 = c" "drop 8 (udp_packet sp dp c data) = data"
  by (simp_all add: udp_packet_def ld16_def wire) (simp_all add: st16_def wire)

lemma udp_parse_packet:
  assumes "ip_payload q = udp_packet sp dp c data" and "length data \<le> 65000"
    and "c = 0 \<or> compute_udp_checksum (ip_src_addr q) (ip_dst_addr q) (ip_payload q) = 0"
  shows "udp_parse q = Some \<lparr>ud_src_addr = ip_src_addr q, ud_dst_addr = ip_dst_addr q, ud_src_port = sp,
           ud_dst_port = dp, ud_length = of_nat (8 + length data), ud_checksum = ntohs c, ud_data = data\<rparr>"
proof -
  have u: "unat (of_nat (8 + length data) :: u16) = 8 + length data"
    using assms(2) by (intro unat_of_nat_small) simp
  then have "\<not> (of_nat (8 + length data) :: u16) < 8"
    by (simp add: word_less_nat_alt del: of_nat_add)
  then show ?thesis
    using assms u unfolding udp_parse_def Let_def assms(1) udp_packet_fields udp_verify_checksum_def
    by (auto simp del: of_nat_add)
qed

lemma udp_sendto_frame:
  assumes "udp_sockets s sp \<noteq> None" and "28 + length data \<le> unat (il_mtu s)" and "28 + length data \<le> 1500"
  shows "\<exists>frame q c. udp_sendto dst dp sp data s = (il_device s frame, sent_one s frame) \<and>
           ipv4_parse frame = Some q \<and> ip_src_addr q = il_local_ip s \<and> ip_dst_addr q = dst \<and>
           ip_protocol q = PROTO_UDP \<and> ip_ttl q = 64 \<and> ip_payload q = udp_packet sp dp c data \<and> c \<noteq> 0 \<and>
           udp_parse q = Some \<lparr>ud_src_addr = il_local_ip s, ud_dst_addr = dst, ud_src_port = sp,
             ud_dst_port = dp, ud_length = of_nat (8 + length data), ud_checksum = ntohs c, ud_data = data\<rparr>"
proof -
  define c where "c = compute_udp_checksum (il_local_ip s) dst (udp_packet sp dp 0 data)"
  define c' where "c' = (if c = 0 then 0xffff else c)"
  have len: "length data \<le> 65000" using assms(3) by simp
  note ok = udp_sent_verifies [OF len c_def c'_def]
  obtain frame where f: "ip_send dst PROTO_UDP (udp_packet sp dp c' data) s = (il_device s frame, sent_one s frame)"
    "carries frame (il_local_ip s) dst PROTO_UDP (udp_packet sp dp c' data)"
    using ip_send_fits [of "udp_packet sp dp c' data" s dst PROTO_UDP] assms(2,3) by auto
  then obtain q where q: "ipv4_parse frame = Some q" "ip_src_addr q = il_local_ip s" "ip_dst_addr q = dst"
    "ip_protocol q = PROTO_UDP" "ip_payload q = udp_packet sp dp c' data" "ip_ttl q = 64"
    by (auto simp: carries_def)
  have "udp_sendto dst dp sp data s = (il_device s frame, sent_one s frame)"
    using assms(1) f(1) unfolding udp_sendto_def Let_def c_def [symmetric] c'_def [symmetric] by auto
  moreover have "udp_parse q = Some \<lparr>ud_src_addr = il_local_ip s, ud_dst_addr = dst, ud_src_port = sp,
      ud_dst_port = dp, ud_length = of_nat (8 + length data), ud_checksum = ntohs c', ud_data = data\<rparr>"
    using udp_parse_packet [OF q(5) len] ok(1) q(2,3) by (simp only: q(5)) simp
  ultimately show ?thesis using q ok(2) by blast
qed

section \<open>Ephemeral ports\<close>

lemma udp_alloc_loop_first_free:
  assumes "udp_alloc_loop sockets start p = (port, p')" and "n \<le> 65536" and "n = unat (start - p - 1) + 1"
  shows "(\<exists>k < n. port = p + of_nat k \<and> sockets port = None \<and> p' = port + 1 \<and>
            (\<forall>j < k. sockets (p + of_nat j) \<noteq> None)) \<or>
         (port = 0 \<and> (\<forall>j < n. sockets (p + of_nat j) \<noteq> None))"
  using assms
proof (induction sockets start p arbitrary: n rule: udp_alloc_loop.induct)
  case (1 sockets start p)
  show ?case
  proof (cases "sockets p = None")
    case True
    then have "port = p" "p' = port + 1"
      using "1.prems"(1) by (auto simp: udp_alloc_loop.simps [of sockets start p] udp_bump_port_wraps)
    then show ?thesis using True "1.prems"(3) by (intro disjI1 exI [of _ 0]) simp
  next
    case used: False
    show ?thesis
    proof (cases "p + 1 = start")
      case True
      then have "port = 0" "n = 1"
        using "1.prems" used by (auto simp: udp_alloc_loop.simps [of sockets start p] udp_bump_port_wraps Let_def)
      then show ?thesis using used by simp
    next
      case False
      then have nz: "start - p - 1 \<noteq> 0" by (auto simp: algebra_simps)
      have eq: "start - (p + 1) - 1 = (start - p - 1) - 1" by simp
      have pos: "0 < unat (start - p - 1)" unfolding unat_gt_0 by (rule nz)
      have m: "n - 1 = unat (start - (p + 1) - 1) + 1"
        using unat_minus_one [OF nz] pos "1.prems"(3) unfolding eq by linarith
      have rec: "udp_alloc_loop sockets start (p + 1) = (port, p')"
        using "1.prems"(1) used False by (simp add: udp_alloc_loop.simps [of sockets start p] udp_bump_port_wraps Let_def)
      have le: "n - 1 \<le> 65536" using "1.prems"(2) by simp
      have ih: "(\<exists>k < n - 1. port = (p + 1) + of_nat k \<and> sockets port = None \<and> p' = port + 1 \<and>
            (\<forall>j < k. sockets ((p + 1) + of_nat j) \<noteq> None)) \<or>
         (port = 0 \<and> (\<forall>j < n - 1. sockets ((p + 1) + of_nat j) \<noteq> None))"
        using "1.IH" [of "p + 1" "n - 1"] used False rec le m by (simp add: udp_bump_port_wraps)
      have shift: "(p + 1) + of_nat j = p + of_nat (Suc j)" for j by simp
      have all: "\<forall>j < Suc k. sockets (p + of_nat j) \<noteq> None"
        if "\<forall>j < k. sockets ((p + 1) + of_nat j) \<noteq> None" for k
        using that used unfolding shift by (auto simp: less_Suc_eq_0_disj simp del: of_nat_Suc)
      from ih show ?thesis
      proof
        assume "\<exists>k < n - 1. port = (p + 1) + of_nat k \<and> sockets port = None \<and> p' = port + 1 \<and>
            (\<forall>j < k. sockets ((p + 1) + of_nat j) \<noteq> None)"
        then obtain k where "k < n - 1" "port = p + of_nat (Suc k)" "sockets port = None" "p' = port + 1"
          "\<forall>j < Suc k. sockets (p + of_nat j) \<noteq> None" using all unfolding shift by blast
        then show ?thesis by (intro disjI1 exI [of _ "Suc k"]) auto
      next
        assume "port = 0 \<and> (\<forall>j < n - 1. sockets ((p + 1) + of_nat j) \<noteq> None)"
        then show ?thesis using all [of "n - 1"] pos "1.prems"(3) by (intro disjI2) auto
      qed
    qed
  qed
qed


text \<open>All sixteen-bit numbers are reached from the counter, so a port is found unless all are used.\<close>

lemma udp_alloc_result:
  assumes "udp_allocate_ephemeral_port s = (port, s')"
  shows "if \<forall>q. udp_sockets s q \<noteq> None then port = 0
         else udp_sockets s port = None \<and> udp_next_port s' = port + 1"
    and "udp_sockets s' = udp_sockets s"
    and "\<exists>k. port = udp_next_port s + of_nat k \<and> (\<forall>j < k. udp_sockets s (udp_next_port s + of_nat j) \<noteq> None)
          \<or> (\<forall>q. udp_sockets s q \<noteq> None)"
proof -
  let ?p = "udp_next_port s"
  obtain p' where l: "udp_alloc_loop (udp_sockets s) ?p ?p = (port, p')" and s': "s' = s\<lparr>udp_next_port := p'\<rparr>"
    using assms by (auto simp: udp_allocate_ephemeral_port_def split: prod.splits)
  show "udp_sockets s' = udp_sockets s" by (simp add: s')
  have "?p - ?p - 1 = (65535 :: u16)" by simp
  then have n: "(65536 :: nat) = unat (?p - ?p - 1) + 1" by (simp only:) simp
  note c = udp_alloc_loop_first_free [OF l order_refl n]
  have all: "udp_sockets s q \<noteq> None" if "\<forall>j < 65536. udp_sockets s (?p + of_nat j) \<noteq> None" for q
  proof -
    have "q = ?p + of_nat (unat (q - ?p))" by simp
    then show ?thesis using that unat_lt_2_16 [of "q - ?p"] by metis
  qed
  show "if \<forall>q. udp_sockets s q \<noteq> None then port = 0
        else udp_sockets s port = None \<and> udp_next_port s' = port + 1"
    using c
  proof
    assume "\<exists>k<65536. port = ?p + of_nat k \<and> udp_sockets s port = None \<and> p' = port + 1 \<and>
       (\<forall>j<k. udp_sockets s (?p + of_nat j) \<noteq> None)"
    then have "udp_sockets s port = None" "p' = port + 1" by blast+
    moreover from this have "\<not> (\<forall>q. udp_sockets s q \<noteq> None)" by blast
    ultimately show ?thesis unfolding s' by (simp only: if_False) simp
  next
    assume "port = 0 \<and> (\<forall>j<65536. udp_sockets s (?p + of_nat j) \<noteq> None)"
    then show ?thesis using all by simp
  qed
  show "\<exists>k. port = ?p + of_nat k \<and> (\<forall>j < k. udp_sockets s (?p + of_nat j) \<noteq> None)
          \<or> (\<forall>q. udp_sockets s q \<noteq> None)"
    using c all by blast
qed

section \<open>Properties\<close>

text \<open>C14. A datagram sent from a bound port, of a size the MTU admits, leaves as one frame, and a
  host with the destination address that receives this frame delivers exactly the data, with the
  sender's address and port, to the callback bound to the destination port.\<close>

theorem udp_delivery:
  assumes "udp_sockets s sp \<noteq> None" and "28 + length data \<le> unat (il_mtu s)" and "28 + length data \<le> 1500"
    and "il_local_ip t = dst" and "udp_sockets t dp = Some cb"
    and "hs PROTO_UDP = Some (Handler (\<lambda>pkt t. Some (udp_handle icmp pkt t)))"
  shows "\<exists>frame. udp_sendto dst dp sp data s = (il_device s frame, sent_one s frame) \<and>
           ip_on_receive hs frame t =
             Some (t\<lparr>udp_delivered := udp_delivered t @ [(cb, il_local_ip s, sp, data)]\<rparr>)"
proof -
  obtain frame q c where f: "udp_sendto dst dp sp data s = (il_device s frame, sent_one s frame)"
    "ipv4_parse frame = Some q" "ip_dst_addr q = dst" "ip_protocol q = PROTO_UDP" "ip_ttl q = 64"
    and d: "udp_parse q = Some \<lparr>ud_src_addr = il_local_ip s, ud_dst_addr = dst, ud_src_port = sp,
             ud_dst_port = dp, ud_length = of_nat (8 + length data), ud_checksum = ntohs c, ud_data = data\<rparr>"
    using udp_sendto_frame [OF assms(1-3), of dst dp] by blast
  have "udp_handle icmp q t = t\<lparr>udp_delivered := udp_delivered t @ [(cb, il_local_ip s, sp, data)]\<rparr>"
    using d assms(5) by (simp add: udp_handle_def)
  then show ?thesis
    using f assms(4,6) by (auto simp: ip_on_receive_def run_handler_def)
qed

theorem udp_delivery_witness:
  "\<exists>frame. ip_on_receive [PROTO_UDP \<mapsto> Handler (\<lambda>pkt t. Some (udp_handle True pkt t))] frame
     ((udp_new (net_new (\<lambda>_. 0)))\<lparr>il_local_ip := 7, udp_sockets := [53 \<mapsto> 4]\<rparr>) =
     Some ((udp_new (net_new (\<lambda>_. 0)))\<lparr>il_local_ip := 7, udp_sockets := [53 \<mapsto> 4],
             udp_delivered := [(4, 9, 1000, [1, 2, 3])]\<rparr>)"
  using udp_delivery [of "(udp_new (net_new (\<lambda>_. 0)))\<lparr>il_local_ip := 9, udp_sockets := [1000 \<mapsto> 0]\<rparr>" 1000 "[1, 2, 3]"
      "(udp_new (net_new (\<lambda>_. 0)))\<lparr>il_local_ip := 7, udp_sockets := [53 \<mapsto> 4]\<rparr>" 7 53 4
      "[PROTO_UDP \<mapsto> Handler (\<lambda>pkt t. Some (udp_handle True pkt t))]" True]
  by (auto simp: udp_new_def net_new_def net.defs)

text \<open>The allocation of an ephemeral port always returns; it gives a port no socket is bound to
  unless all 65536 numbers are bound, in which case it gives 0, and it never changes the sockets.\<close>

theorem udp_allocation_total:
  "\<exists>port s'. udp_allocate_ephemeral_port s = (port, s') \<and> udp_sockets s' = udp_sockets s \<and>
     (if \<forall>q. udp_sockets s q \<noteq> None then port = 0 else udp_sockets s port = None)"
proof -
  obtain port s' where r: "udp_allocate_ephemeral_port s = (port, s')" by fastforce
  show ?thesis using udp_alloc_result(1,2) [OF r] r by (auto split: if_splits)
qed

section \<open>The ephemeral range is left\<close>

text \<open>
  The counter passes from 65535 to 0 and not back to 49152: with every port but the last free,
  the second automatic bind fails, and the third takes the privileged port 1.
\<close>

lemma udp_bind_leaves_range:
  fixes s :: udp_net
  assumes "udp_sockets s = (\<lambda>_. None)" and "udp_next_port s = 65535"
    and "s1 = snd (udp_bind 0 (Some a) s)" and "s2 = snd (udp_bind 0 (Some b) s1)"
  shows "fst (udp_bind 0 (Some a) s) = 65535" and "fst (udp_bind 0 (Some b) s1) = 0"
    and "fst (udp_bind 0 (Some c) s2) = 1"
proof -
  have s1: "udp_bind 0 (Some a) s = (65535, s\<lparr>udp_next_port := 0, udp_sockets := [65535 \<mapsto> a]\<rparr>)"
    using assms(1,2) by (simp add: udp_bind_def udp_allocate_ephemeral_port_def
        udp_alloc_loop.simps udp_bump_port_wraps Let_def)
  then show "fst (udp_bind 0 (Some a) s) = 65535" by simp
  have s2: "udp_bind 0 (Some b) s1 = (0, s1\<lparr>udp_next_port := 1\<rparr>)"
    using s1 assms(3) by (simp add: udp_bind_def udp_allocate_ephemeral_port_def
        udp_alloc_loop.simps udp_bump_port_wraps Let_def)
  then show "fst (udp_bind 0 (Some b) s1) = 0" by simp
  show "fst (udp_bind 0 (Some c) s2) = 1"
    using s1 s2 assms(3,4) by (simp add: udp_bind_def udp_allocate_ephemeral_port_def
        udp_alloc_loop.simps udp_bump_port_wraps Let_def)
qed

text \<open>
  A datagram broadcast to an unbound port is answered with a port unreachable error, although
  the rules of \<open>should_send_icmp_error\<close> forbid an error for a broadcast: \<open>udp_handle\<close> does not ask.
\<close>

lemma udp_broadcast_answered:
  assumes "ipv4_parse data = Some pkt" and "udp_parse pkt = Some d" and "ip_dst_addr pkt = 0xFFFFFFFF"
    and "ip_protocol pkt = PROTO_UDP" and "udp_sockets s (ud_dst_port d) = None" and "96 \<le> unat (il_mtu s)"
  shows "\<not> should_send_icmp_error pkt \<and> (\<exists>frame. udp_handle True pkt s = sent_one s frame)"
proof -
  have "\<not> should_send_icmp_error pkt" using assms(3) by (simp add: should_send_icmp_error_def)
  moreover have "icmp_error_allowed pkt"
    using assms(4) by (simp add: icmp_error_allowed_def PROTO_ICMP_def PROTO_UDP_def)
  ultimately show ?thesis
    using assms(2,5) send_error_content [OF assms(1,6), of ICMP_DestUnreachable 3]
    by (auto simp: udp_handle_def send_dest_unreachable_def)
qed

end
