(* ===== verification/Tcp_Seq.thy ===== *)
theory Tcp_Seq
  imports Prelude
begin

text \<open>
  Sequence number comparison of \<^verbatim>\<open>include/neustack/transport/tcp_seq.hpp\<close>: arithmetic modulo
  two to the 32, compared through the sign of the 32-bit difference.  The lemmas read the
  comparisons as distances on the circle and as the order of stream positions, for positions
  less than two to the 31 apart.
\<close>

section \<open>The comparisons of the code\<close>

definition seq_lt :: "u32 \<Rightarrow> u32 \<Rightarrow> bool" where
  "seq_lt a b \<longleftrightarrow> sint (a - b) < 0"

definition seq_le :: "u32 \<Rightarrow> u32 \<Rightarrow> bool" where
  "seq_le a b \<longleftrightarrow> sint (a - b) \<le> 0"

definition seq_gt :: "u32 \<Rightarrow> u32 \<Rightarrow> bool" where
  "seq_gt a b \<longleftrightarrow> sint (a - b) > 0"

definition seq_ge :: "u32 \<Rightarrow> u32 \<Rightarrow> bool" where
  "seq_ge a b \<longleftrightarrow> sint (a - b) \<ge> 0"

definition seq_in_range :: "u32 \<Rightarrow> u32 \<Rightarrow> u32 \<Rightarrow> bool" where
  "seq_in_range s a b \<longleftrightarrow> seq_ge s a \<and> seq_lt s b"

lemmas seq_defs = seq_lt_def seq_le_def seq_gt_def seq_ge_def seq_in_range_def

section \<open>Distances\<close>

text \<open>\<open>dist a b\<close> is how far \<open>b\<close> lies ahead of \<open>a\<close> on the circle of sequence numbers.\<close>

definition dist :: "u32 \<Rightarrow> u32 \<Rightarrow> nat" where
  "dist a b = unat (b - a)"

lemma dist_lt: "dist a b < 4294967296"
  by (simp add: dist_def unat_lt_2_32)

lemma dist_self [simp]: "dist a a = 0"
  by (simp add: dist_def)

lemma dist_eq_0_iff [simp]: "dist a b = 0 \<longleftrightarrow> a = b"
  by (auto simp: dist_def unat_eq_0)

lemma dist_back:
  assumes "a \<noteq> b" shows "dist a b + dist b a = 4294967296"
proof -
  have ne: "unat a \<noteq> unat b" using assms by (simp add: word_unat_eq_iff)
  have "unat (b - a) = (if unat a \<le> unat b then unat b - unat a else unat b + 4294967296 - unat a)"
    by (simp add: unat_sub_if')
  moreover have "unat (a - b) = (if unat b \<le> unat a then unat a - unat b else unat a + 4294967296 - unat b)"
    by (simp add: unat_sub_if')
  ultimately show ?thesis
    using ne unat_lt_2_32 [of a] unat_lt_2_32 [of b] unfolding dist_def by (simp split: if_splits)
qed

lemma sint_u32_eq:
  "sint (w :: u32) = (if uint w < 2147483648 then uint w else uint w - 4294967296)"
proof -
  have s: "sint w = (uint w + 2147483648) mod 4294967296 - 2147483648"
    by (subst word_of_int_uint [of w, symmetric], subst int_word_sint) simp
  have lt: "uint w < 4294967296" using uint_lt2p [of w] by simp
  show ?thesis
  proof (cases "uint w < 2147483648")
    case True
    then have "(uint w + 2147483648) mod 4294967296 = uint w + 2147483648" by (intro mod_pos_pos_trivial) simp_all
    with True s show ?thesis by simp
  next
    case False
    then have "(uint w + 2147483648) mod 4294967296 = (uint w + 2147483648 - 4294967296) mod 4294967296"
      by (simp only: minus_mod_self2)
    also have "\<dots> = uint w + 2147483648 - 4294967296" using False lt by (intro mod_pos_pos_trivial) simp_all
    finally show ?thesis using False s by simp
  qed
qed

lemma sint_u32_neg_iff: "sint (w :: u32) < 0 \<longleftrightarrow> 2147483648 \<le> unat w"
proof -
  have "uint w < 4294967296" using uint_lt2p [of w] by simp
  moreover have "(2147483648 \<le> unat w) = (2147483648 \<le> uint w)"
    unfolding unat_eq_nat_uint by (subst le_nat_iff) simp_all
  ultimately show ?thesis by (simp add: sint_u32_eq)
qed

lemma sint_u32_zero_iff: "sint (w :: u32) = 0 \<longleftrightarrow> w = 0"
proof -
  have "uint w < 4294967296" using uint_lt2p [of w] by simp
  then show ?thesis by (auto simp: sint_u32_eq uint_0_iff)
qed

lemma seq_lt_iff_dist: "seq_lt a b \<longleftrightarrow> 2147483648 \<le> dist b a"
  by (simp add: seq_lt_def sint_u32_neg_iff dist_def)

lemma seq_ge_iff_dist: "seq_ge a b \<longleftrightarrow> dist b a < 2147483648"
  using sint_u32_neg_iff [of "a - b"] by (auto simp: seq_ge_def dist_def not_less)

lemma seq_le_iff_dist: "seq_le a b \<longleftrightarrow> a = b \<or> 2147483648 \<le> dist b a"
  using sint_u32_neg_iff [of "a - b"] sint_u32_zero_iff [of "a - b"]
  by (auto simp: seq_le_def dist_def order_le_less)

lemma seq_gt_iff_dist: "seq_gt a b \<longleftrightarrow> a \<noteq> b \<and> dist b a < 2147483648"
  using seq_le_iff_dist [of a b] by (auto simp: seq_gt_def seq_le_def not_le)

lemma seq_ge_not_lt: "seq_ge a b \<longleftrightarrow> \<not> seq_lt a b"
  by (simp add: seq_ge_def seq_lt_def not_less)

lemma seq_gt_not_le: "seq_gt a b \<longleftrightarrow> \<not> seq_le a b"
  by (simp add: seq_gt_def seq_le_def not_le)

lemma seq_le_refl [simp]: "seq_le a a"
  by (simp add: seq_le_def)

lemma seq_lt_irrefl [simp]: "\<not> seq_lt a a"
  by (simp add: seq_lt_def)

lemma seq_gt_irrefl [simp]: "\<not> seq_gt a a"
  by (simp add: seq_gt_def)

section \<open>Stream positions\<close>

text \<open>
  \<open>at b i\<close> is the sequence number of the byte \<open>i\<close> places after \<open>b\<close>; the comparisons agree with
  the order of the positions as long as these are less than two to the 31 apart.
\<close>

definition at :: "u32 \<Rightarrow> nat \<Rightarrow> u32" where
  "at b i = b + of_nat i"

lemma at_0 [simp]: "at b 0 = b"
  by (simp add: at_def)

lemma at_at: "at (at b i) j = at b (i + j)"
  by (simp add: at_def)

lemma at_add: "at b i + of_nat j = at b (i + j)"
  by (simp add: at_def)

lemma at_Suc: "at b i + 1 = at b (Suc i)"
  by (simp add: at_def)

lemma dist_at: "i \<le> j \<Longrightarrow> j - i < 4294967296 \<Longrightarrow> dist (at b i) (at b j) = j - i"
proof -
  assume "i \<le> j" and lt: "j - i < 4294967296"
  then have "at b j - at b i = of_nat (j - i)"
    by (simp add: at_def)
  then show ?thesis
    using lt by (simp only: dist_def) (rule unat_of_nat_small, simp)
qed

lemma at_inj: "i \<le> j \<Longrightarrow> j - i < 4294967296 \<Longrightarrow> at b i = at b j \<longleftrightarrow> i = j"
  using dist_at [of i j b] by (auto simp flip: dist_eq_0_iff)

lemma dist_at_back: "i < j \<Longrightarrow> j - i < 4294967296 \<Longrightarrow> dist (at b j) (at b i) = 4294967296 - (j - i)"
  using dist_back [of "at b i" "at b j"] dist_at [of i j b] at_inj [of i j b] by auto

lemma seq_cmp_at:
  assumes "i < j + 2147483648" and "j < i + 2147483648"
  shows "seq_lt (at b i) (at b j) \<longleftrightarrow> i < j"
    and "seq_le (at b i) (at b j) \<longleftrightarrow> i \<le> j"
    and "seq_gt (at b i) (at b j) \<longleftrightarrow> i > j"
    and "seq_ge (at b i) (at b j) \<longleftrightarrow> i \<ge> j"
proof -
  have lt: "seq_lt (at b i) (at b j) \<longleftrightarrow> i < j"
  proof (cases "i < j")
    case True
    with assms show ?thesis by (simp add: seq_lt_iff_dist dist_at_back)
  next
    case False
    with assms show ?thesis by (simp add: seq_lt_iff_dist dist_at)
  qed
  have eq: "at b i = at b j \<longleftrightarrow> i = j"
  proof (cases "i \<le> j")
    case True
    moreover have "j - i < 4294967296" using assms by linarith
    ultimately show ?thesis by (rule at_inj)
  next
    case False
    then have "at b j = at b i \<longleftrightarrow> j = i" using assms by (intro at_inj) linarith+
    then show ?thesis by metis
  qed
  show "seq_lt (at b i) (at b j) \<longleftrightarrow> i < j" by (rule lt)
  show "seq_ge (at b i) (at b j) \<longleftrightarrow> i \<ge> j" using lt by (simp add: seq_ge_not_lt not_less)
  show "seq_le (at b i) (at b j) \<longleftrightarrow> i \<le> j"
    using lt eq by (auto simp: seq_le_iff_dist seq_lt_iff_dist)
  then show "seq_gt (at b i) (at b j) \<longleftrightarrow> i > j" by (simp add: seq_gt_not_le not_le)
qed

lemma seq_in_range_window:
  assumes "w \<le> 2147483648"
  shows "seq_in_range s b (at b w) \<longleftrightarrow> dist b s < w"
proof -
  let ?d = "dist b s"
  have s: "s = at b ?d" by (simp add: at_def dist_def)
  have lt: "?d < 2147483648 \<Longrightarrow> seq_lt (at b ?d) (at b w) \<longleftrightarrow> ?d < w"
    using assms dist_at_back [of "?d" w b] dist_at [of w "?d" b]
    by (cases "?d < w") (auto simp: seq_lt_iff_dist)
  show ?thesis
    using lt assms s by (auto simp: seq_in_range_def seq_ge_iff_dist)
qed

section \<open>Properties\<close>

text \<open>C7. For stream positions less than two to the 31 apart the wrapping comparisons of the
  sequence numbers are the comparisons of the positions, wherever the initial number lies.\<close>

theorem seq_order_correct:
  assumes "i < j + 2147483648" and "j < i + 2147483648"
  shows "(seq_lt (at b i) (at b j) \<longleftrightarrow> i < j) \<and> (seq_le (at b i) (at b j) \<longleftrightarrow> i \<le> j) \<and>
         (seq_gt (at b i) (at b j) \<longleftrightarrow> i > j) \<and> (seq_ge (at b i) (at b j) \<longleftrightarrow> i \<ge> j)"
  using seq_cmp_at [OF assms] by blast

theorem seq_order_correct_witness:
  "(seq_lt (at 0xFFFFFFFE 1) (at 0xFFFFFFFE 5) \<longleftrightarrow> (1::nat) < 5)"
  using seq_order_correct [of 1 5 "0xFFFFFFFE"] by simp

end
