(* ===== verification/Stream_Buffer.thy ===== *)
theory Stream_Buffer
  imports Prelude
begin

text \<open>
  The byte ring buffer of \<^verbatim>\<open>include/neustack/common/ring_buffer.hpp\<close> (class \<open>StreamBuffer\<close>):
  the record of its members, one definition per method with the two-chunk copies written out,
  and the abstraction \<open>sb_contents\<close> to the list of buffered bytes.  A method whose C++ body
  divides by a capacity of zero returns \<open>None\<close> there.  The locale \<open>byte_fifo\<close> is the interface
  the transport layer relies on; its interpretation discharges the laws for this buffer.
\<close>

section \<open>State and operations\<close>

record stream_buffer =
  sb_buffer :: bytes
  sb_capacity :: nat
  sb_read_pos :: nat
  sb_write_pos :: nat
  sb_size :: nat

definition sb_new :: "nat \<Rightarrow> stream_buffer" where
  "sb_new capacity =
     \<lparr>sb_buffer = replicate capacity 0, sb_capacity = capacity,
      sb_read_pos = 0, sb_write_pos = 0, sb_size = 0\<rparr>"

definition sb_available :: "stream_buffer \<Rightarrow> nat" where
  "sb_available b = sb_capacity b - sb_size b"

definition sb_empty :: "stream_buffer \<Rightarrow> bool" where
  "sb_empty b \<longleftrightarrow> sb_size b = 0"

definition sb_full :: "stream_buffer \<Rightarrow> bool" where
  "sb_full b \<longleftrightarrow> sb_size b = sb_capacity b"

definition sb_write :: "stream_buffer \<Rightarrow> bytes \<Rightarrow> nat \<times> stream_buffer" where
  "sb_write b data =
    (let to_write = min (length data) (sb_available b) in
     if to_write = 0 then (0, b)
     else
       let first_chunk = min to_write (sb_capacity b - sb_write_pos b);
           buf1 = blit (sb_buffer b) (sb_write_pos b) (take first_chunk data);
           buf2 = (if to_write > first_chunk
                   then blit buf1 0 (take (to_write - first_chunk) (drop first_chunk data))
                   else buf1)
       in (to_write,
           b\<lparr>sb_buffer := buf2,
             sb_write_pos := (sb_write_pos b + to_write) mod sb_capacity b,
             sb_size := sb_size b + to_write\<rparr>))"

text \<open>\<open>peek\<close> and \<open>peek_at\<close> return the bytes copied to \<open>dest\<close>; their number is the C++ result.\<close>

definition sb_peek :: "stream_buffer \<Rightarrow> nat \<Rightarrow> bytes" where
  "sb_peek b len =
    (let to_read = min len (sb_size b) in
     if to_read = 0 then []
     else
       let first_chunk = min to_read (sb_capacity b - sb_read_pos b)
       in take first_chunk (drop (sb_read_pos b) (sb_buffer b)) @
          (if to_read > first_chunk then take (to_read - first_chunk) (sb_buffer b) else []))"

definition sb_consume :: "stream_buffer \<Rightarrow> nat \<Rightarrow> (nat \<times> stream_buffer) option" where
  "sb_consume b len =
    (let to_consume = min len (sb_size b) in
     if sb_capacity b = 0 then None
     else Some (to_consume,
            b\<lparr>sb_read_pos := (sb_read_pos b + to_consume) mod sb_capacity b,
              sb_size := sb_size b - to_consume\<rparr>))"

definition sb_read :: "stream_buffer \<Rightarrow> nat \<Rightarrow> (bytes \<times> stream_buffer) option" where
  "sb_read b len = do {
     let bs = sb_peek b len;
     (n, b') \<leftarrow> sb_consume b (length bs);
     Some (bs, b')
   }"

definition sb_peek_contiguous :: "stream_buffer \<Rightarrow> bytes" where
  "sb_peek_contiguous b =
    (if sb_size b = 0 then []
     else
       let first_chunk = min (sb_size b) (sb_capacity b - sb_read_pos b)
       in take first_chunk (drop (sb_read_pos b) (sb_buffer b)))"

text \<open>The span of \<open>write_contiguous\<close> as its start in the buffer and its length.\<close>

definition sb_write_contiguous :: "stream_buffer \<Rightarrow> (nat \<times> nat) option" where
  "sb_write_contiguous b =
    (if sb_available b = 0 then None
     else Some (sb_write_pos b, min (sb_available b) (sb_capacity b - sb_write_pos b)))"

definition sb_commit_write :: "stream_buffer \<Rightarrow> nat \<Rightarrow> stream_buffer option" where
  "sb_commit_write b len =
    (let to_commit = min len (sb_available b) in
     if sb_capacity b = 0 then None
     else Some (b\<lparr>sb_write_pos := (sb_write_pos b + to_commit) mod sb_capacity b,
                  sb_size := sb_size b + to_commit\<rparr>))"

definition sb_peek_at :: "stream_buffer \<Rightarrow> nat \<Rightarrow> nat \<Rightarrow> bytes" where
  "sb_peek_at b offset len =
    (if offset \<ge> sb_size b then []
     else
       let available_from_offset = sb_size b - offset;
           to_read = min len available_from_offset;
           actual_pos = (sb_read_pos b + offset) mod sb_capacity b;
           first_chunk = min to_read (sb_capacity b - actual_pos)
       in take first_chunk (drop actual_pos (sb_buffer b)) @
          (if to_read > first_chunk then take (to_read - first_chunk) (sb_buffer b) else []))"

definition sb_clear :: "stream_buffer \<Rightarrow> stream_buffer" where
  "sb_clear b = b\<lparr>sb_read_pos := 0, sb_write_pos := 0, sb_size := 0\<rparr>"

section \<open>Invariant and abstraction\<close>

definition sb_wf :: "stream_buffer \<Rightarrow> bool" where
  "sb_wf b \<longleftrightarrow>
     length (sb_buffer b) = sb_capacity b \<and> sb_size b \<le> sb_capacity b \<and>
     (sb_capacity b = 0 \<longrightarrow> sb_read_pos b = 0 \<and> sb_write_pos b = 0) \<and>
     (sb_capacity b > 0 \<longrightarrow>
        sb_read_pos b < sb_capacity b \<and>
        sb_write_pos b = (sb_read_pos b + sb_size b) mod sb_capacity b)"

definition sb_contents :: "stream_buffer \<Rightarrow> bytes" where
  "sb_contents b = map (\<lambda>k. sb_buffer b ! ((sb_read_pos b + k) mod sb_capacity b)) [0..<sb_size b]"

lemma length_sb_contents [simp]: "length (sb_contents b) = sb_size b"
  by (simp add: sb_contents_def)

lemma sb_contents_Nil_iff [simp]: "sb_contents b = [] \<longleftrightarrow> sb_size b = 0"
  by (simp add: sb_contents_def)

lemma sb_wf_new [wf_intros]: "sb_wf (sb_new c)"
  by (simp add: sb_wf_def sb_new_def)

lemma sb_size_new [simp]: "sb_size (sb_new c) = 0"
  by (simp add: sb_new_def)

lemma sb_contents_new [simp]: "sb_contents (sb_new c) = []"
  by (simp add: sb_new_def)

text \<open>
  The ring read in at most two chunks: reading \<open>n\<close> bytes from position \<open>p\<close> gives the elements
  at the positions \<open>p + k\<close> modulo the capacity.
\<close>

lemma ring_read:
  assumes "p < c" and "length buf = c" and "n \<le> c"
  shows "take (min n (c - p)) (drop p buf) @
         (if n > min n (c - p) then take (n - min n (c - p)) buf else []) =
         map (\<lambda>k. buf ! ((p + k) mod c)) [0..<n]"
  using assms
  by (intro nth_equalityI)
     (auto simp: nth_append mod_add_cases min_def not_le add.commute split: if_splits)

lemma sb_wf_dest:
  assumes "sb_wf b"
  shows "length (sb_buffer b) = sb_capacity b" and "sb_size b \<le> sb_capacity b"
    and "0 < sb_capacity b \<Longrightarrow> sb_read_pos b < sb_capacity b"
    and "0 < sb_capacity b \<Longrightarrow> sb_write_pos b < sb_capacity b"
    and "0 < sb_capacity b \<Longrightarrow> sb_write_pos b = (sb_read_pos b + sb_size b) mod sb_capacity b"
  using assms by (auto simp: sb_wf_def)

lemma sb_peek_contents: "sb_wf b \<Longrightarrow> sb_peek b len = take len (sb_contents b)"
proof -
  assume wf: "sb_wf b"
  let ?n = "min len (sb_size b)" and ?c = "sb_capacity b"
  show ?thesis
  proof (cases "?n = 0")
    case True
    then show ?thesis by (auto simp: sb_peek_def min_def split: if_splits)
  next
    case False
    then have "0 < ?c" using sb_wf_dest(2) [OF wf] by simp
    with False have "sb_peek b len = map (\<lambda>k. sb_buffer b ! ((sb_read_pos b + k) mod ?c)) [0..<?n]"
      unfolding sb_peek_def Let_def
      using sb_wf_dest [OF wf] by (subst ring_read) auto
    also have "\<dots> = take len (sb_contents b)"
      by (simp add: sb_contents_def take_map take_upt_0)
    finally show ?thesis .
  qed
qed

lemma sb_peek_at_contents:
  "sb_wf b \<Longrightarrow> sb_peek_at b offset len = take len (drop offset (sb_contents b))"
proof -
  assume wf: "sb_wf b"
  let ?n = "min len (sb_size b - offset)" and ?c = "sb_capacity b"
  let ?p = "(sb_read_pos b + offset) mod ?c"
  show ?thesis
  proof (cases "offset \<ge> sb_size b")
    case True
    then show ?thesis by (simp add: sb_peek_at_def)
  next
    case False
    then have c: "0 < ?c" using sb_wf_dest(2) [OF wf] by simp
    with False have "sb_peek_at b offset len = map (\<lambda>k. sb_buffer b ! ((?p + k) mod ?c)) [0..<?n]"
      unfolding sb_peek_at_def Let_def
      using sb_wf_dest [OF wf] by (subst ring_read) auto
    also have "\<dots> = take len (drop offset (sb_contents b))"
      using False by (intro nth_equalityI) (auto simp: sb_contents_def mod_simps ac_simps)
    finally show ?thesis .
  qed
qed

lemma sb_peek_contiguous_prefix:
  assumes wf: "sb_wf b"
  shows "sb_peek_contiguous b = take (min (sb_size b) (sb_capacity b - sb_read_pos b)) (sb_contents b)"
proof (cases "sb_size b = 0")
  case True
  then show ?thesis by (simp add: sb_peek_contiguous_def)
next
  case False
  then have "0 < sb_capacity b" using sb_wf_dest(2) [OF wf] by simp
  with sb_wf_dest [OF wf] False show ?thesis
    by (intro nth_equalityI) (auto simp: sb_peek_contiguous_def sb_contents_def)
qed

lemma sb_peek_contiguous_nonempty:
  "sb_wf b \<Longrightarrow> sb_size b \<noteq> 0 \<Longrightarrow> sb_peek_contiguous b \<noteq> []"
  using sb_wf_dest [of b] by (auto simp: sb_peek_contiguous_prefix)

section \<open>Writing\<close>

lemma ring_positions:
  fixes r s n c w k j :: nat
  assumes "r < c" and "s + n \<le> c" and "w = (r + s) mod c" and "k < s + n" and "j = (r + k) mod c"
  shows "k < s \<Longrightarrow> \<not> (w \<le> j \<and> j < w + n) \<and> \<not> j + c < w + n"
    and "s \<le> k \<Longrightarrow> (w \<le> j \<and> j < w + n \<and> j - w = k - s) \<or>
                  (\<not> (w \<le> j \<and> j < w + n) \<and> j + c < w + n \<and> j + c - w = k - s)"
  using assms by (auto simp: mod_add_cases split: if_splits)

lemma ring_write:
  assumes "w < c" and "length buf = c" and "length xs = n" and "n \<le> c"
    and "first = min n (c - w)"
    and "buf1 = blit buf w (take first xs)"
    and "buf2 = (if n > first then blit buf1 0 (take (n - first) (drop first xs)) else buf1)"
  shows "length buf2 = c"
    and "i < c \<Longrightarrow> buf2 ! i = (if w \<le> i \<and> i < w + n then xs ! (i - w)
                                else if i + c < w + n then xs ! (i + c - w) else buf ! i)"
proof -
  have b1: "length buf1 = c" using assms by simp
  show "length buf2 = c" using assms b1 by (simp add: min_def)
  show "i < c \<Longrightarrow> buf2 ! i = (if w \<le> i \<and> i < w + n then xs ! (i - w)
                                else if i + c < w + n then xs ! (i + c - w) else buf ! i)"
    using assms b1 by (auto simp: nth_blit min_def add.commute split: if_splits)
qed

lemma sb_write_count: "fst (sb_write b data) = min (length data) (sb_available b)"
  by (simp add: sb_write_def Let_def)

lemma sb_write_correct:
  assumes wf: "sb_wf b" and w: "sb_write b data = (n, b')"
  shows "sb_wf b'" and "sb_contents b' = sb_contents b @ take n data"
    and "n = min (length data) (sb_available b)" and "sb_capacity b' = sb_capacity b"
proof -
  show n: "n = min (length data) (sb_available b)" using w sb_write_count [of b data] by simp
  have "sb_wf b' \<and> sb_contents b' = sb_contents b @ take n data \<and> sb_capacity b' = sb_capacity b"
  proof (cases "n = 0")
    case True
    then show ?thesis using w n wf by (auto simp: sb_write_def Let_def split: if_splits)
  next
    case False
    let ?c = "sb_capacity b" and ?w = "sb_write_pos b" and ?r = "sb_read_pos b" and ?s = "sb_size b"
    have c: "0 < ?c" and fits: "?s + n \<le> ?c" using False n by (auto simp: sb_available_def)
    define first where "first = min n (?c - ?w)"
    define buf1 where "buf1 = blit (sb_buffer b) ?w (take first data)"
    define buf2 where "buf2 = (if n > first then blit buf1 0 (take (n - first) (drop first data)) else buf1)"
    have b': "b' = b\<lparr>sb_buffer := buf2, sb_write_pos := (?w + n) mod ?c, sb_size := ?s + n\<rparr>"
      using w n False by (auto simp: sb_write_def Let_def first_def buf1_def buf2_def)
    have t: "take first (take n data) = take first data"
      "take (n - first) (drop first (take n data)) = take (n - first) (drop first data)"
      by (auto simp: first_def drop_take min_def)
    note wf' = sb_wf_dest [OF wf]
    have len_take: "length (take n data) = n" and n_le: "n \<le> ?c" using n fits by auto
    have buf1_t: "buf1 = blit (sb_buffer b) ?w (take first (take n data))"
      and buf2_t: "buf2 = (if n > first then blit buf1 0 (take (n - first) (drop first (take n data))) else buf1)"
      by (simp_all only: t buf1_def buf2_def)
    have buf2: "length buf2 = ?c"
      "\<And>i. i < ?c \<Longrightarrow> buf2 ! i = (if ?w \<le> i \<and> i < ?w + n then take n data ! (i - ?w)
                                else if i + ?c < ?w + n then take n data ! (i + ?c - ?w)
                                else sb_buffer b ! i)"
      using ring_write [of ?w ?c "sb_buffer b" "take n data" n first buf1 buf2,
          OF wf'(4) [OF c] wf'(1) len_take n_le first_def buf1_t buf2_t] by blast+
    have "sb_wf b'"
      using wf' c fits buf2(1) by (simp add: b' sb_wf_def mod_simps add.assoc)
    moreover have "sb_contents b' = sb_contents b @ take n data"
    proof (rule nth_equalityI)
      show "length (sb_contents b') = length (sb_contents b @ take n data)"
        using n by (simp add: b')
    next
      fix k assume "k < length (sb_contents b')"
      then have k: "k < ?s + n" by (simp add: b')
      let ?j = "(?r + k) mod ?c"
      have "sb_contents b' ! k = buf2 ! ?j" using k by (simp add: b' sb_contents_def nth_append)
      also have "\<dots> = (if k < ?s then sb_buffer b ! ?j else take n data ! (k - ?s))"
        using ring_positions [of ?r ?c ?s n ?w k ?j] wf' c fits k buf2(2) [of ?j] by auto
      also have "\<dots> = (sb_contents b @ take n data) ! k"
        by (simp add: nth_append sb_contents_def)
      finally show "sb_contents b' ! k = (sb_contents b @ take n data) ! k" .
    qed
    ultimately show ?thesis by (simp add: b')
  qed
  then show "sb_wf b'" "sb_contents b' = sb_contents b @ take n data" "sb_capacity b' = sb_capacity b"
    by auto
qed

section \<open>Consuming, reading, clearing\<close>

lemma sb_consume_correct:
  assumes wf: "sb_wf b" and c: "sb_consume b len = Some (n, b')"
  shows "sb_wf b'" and "sb_contents b' = drop n (sb_contents b)"
    and "n = min len (sb_size b)" and "sb_capacity b' = sb_capacity b"
proof -
  let ?c = "sb_capacity b" and ?r = "sb_read_pos b"
  have pos: "0 < ?c" and n: "n = min len (sb_size b)"
    and b': "b' = b\<lparr>sb_read_pos := (?r + n) mod ?c, sb_size := sb_size b - n\<rparr>"
    using c by (auto simp: sb_consume_def Let_def split: if_splits)
  note wf' = sb_wf_dest [OF wf]
  show "n = min len (sb_size b)" by (rule n)
  show "sb_capacity b' = ?c" by (simp add: b')
  have "sb_write_pos b = (?r + n + (sb_size b - n)) mod ?c"
    using wf'(5) pos n by simp
  then have "sb_write_pos b = ((?r + n) mod ?c + (sb_size b - n)) mod ?c"
    by (simp add: mod_simps)
  then show "sb_wf b'"
    using wf'(1,2) pos n by (simp add: b' sb_wf_def)
  show "sb_contents b' = drop n (sb_contents b)"
    by (rule nth_equalityI) (auto simp: b' sb_contents_def mod_simps add.assoc)
qed

lemma sb_consume_total: "0 < sb_capacity b \<Longrightarrow> \<exists>b'. sb_consume b len = Some (min len (sb_size b), b')"
  by (simp add: sb_consume_def Let_def)

lemma sb_read_correct:
  assumes wf: "sb_wf b" and r: "sb_read b len = Some (bs, b')"
  shows "sb_wf b'" and "bs = take len (sb_contents b)" and "sb_contents b' = drop len (sb_contents b)"
    and "sb_capacity b' = sb_capacity b"
proof -
  from r obtain n where c: "sb_consume b (length (sb_peek b len)) = Some (n, b')"
    and bs: "bs = sb_peek b len"
    unfolding sb_read_def Let_def bind_Some_iff by fastforce
  note cc = sb_consume_correct [OF wf c]
  show "sb_wf b'" by (rule cc(1))
  show "sb_capacity b' = sb_capacity b" by (rule cc(4))
  show "bs = take len (sb_contents b)" using wf by (simp add: bs sb_peek_contents)
  have "n = min len (sb_size b)"
    unfolding cc(3) sb_peek_contents [OF wf] by simp
  then show "sb_contents b' = drop len (sb_contents b)"
    unfolding cc(2) by (simp add: min_def)
qed

lemma sb_read_total: "0 < sb_capacity b \<Longrightarrow> \<exists>bs b'. sb_read b len = Some (bs, b')"
  using sb_consume_total [of b "length (sb_peek b len)"] by (fastforce simp: sb_read_def Let_def)

lemma sb_clear_correct: "sb_wf b \<Longrightarrow> sb_wf (sb_clear b) \<and> sb_contents (sb_clear b) = []"
  by (auto simp: sb_wf_def sb_clear_def)

text \<open>
  Writing through the span: filling the first bytes of the span of \<open>write_contiguous\<close> and
  committing them is the same as \<open>write\<close> of those bytes.
\<close>

lemma sb_span_write:
  assumes wf: "sb_wf b" and span: "sb_write_contiguous b = Some (p, len)"
    and n: "length data \<le> len" "data \<noteq> []"
  shows "sb_commit_write (b\<lparr>sb_buffer := blit (sb_buffer b) p data\<rparr>) (length data) =
         Some (snd (sb_write b data))"
proof -
  have av: "sb_available b \<noteq> 0" and p: "p = sb_write_pos b"
    and len: "len = min (sb_available b) (sb_capacity b - sb_write_pos b)"
    using span by (auto simp: sb_write_contiguous_def split: if_splits)
  have "min (length data) (sb_available b) = length data"
    and "min (length data) (sb_capacity b - sb_write_pos b) = length data"
    using n len by auto
  moreover have "sb_capacity b \<noteq> 0" using av by (auto simp: sb_available_def)
  ultimately show ?thesis
    using n by (simp add: sb_commit_write_def sb_write_def sb_available_def p Let_def)
qed

section \<open>The byte queue interface\<close>

text \<open>
  What the transport layer relies on: \<open>put\<close> appends as much as there is room for, \<open>get\<close> reads
  from the head, \<open>front\<close> is a non-empty prefix of the content and \<open>discard\<close> removes from the head.
\<close>

locale byte_fifo =
  fixes inv :: "'b \<Rightarrow> bool"
    and content :: "'b \<Rightarrow> bytes"
    and capacity :: "'b \<Rightarrow> nat"
    and put :: "'b \<Rightarrow> bytes \<Rightarrow> nat \<times> 'b"
    and get :: "'b \<Rightarrow> nat \<Rightarrow> (bytes \<times> 'b) option"
    and front :: "'b \<Rightarrow> bytes"
    and discard :: "'b \<Rightarrow> nat \<Rightarrow> (nat \<times> 'b) option"
  assumes put_law: "inv b \<Longrightarrow> put b d = (n, b') \<Longrightarrow>
      n = min (length d) (capacity b - length (content b)) \<and>
      inv b' \<and> content b' = content b @ take n d \<and> capacity b' = capacity b"
    and get_law: "inv b \<Longrightarrow>
      \<exists>b'. get b k = Some (take k (content b), b') \<and> inv b' \<and> content b' = drop k (content b) \<and>
           capacity b' = capacity b"
    and front_law: "inv b \<Longrightarrow> content b \<noteq> [] \<Longrightarrow>
      front b \<noteq> [] \<and> (\<exists>rest. content b = front b @ rest)"
    and discard_law: "inv b \<Longrightarrow>
      \<exists>b'. discard b k = Some (min k (length (content b)), b') \<and> inv b' \<and>
           content b' = drop k (content b) \<and> capacity b' = capacity b"
    and bounded: "inv b \<Longrightarrow> length (content b) \<le> capacity b"

text \<open>A run of writes and reads: the bytes accepted, the bytes read and the final buffer.\<close>

datatype stream_op = Put bytes | Get nat

fun fifo_run ::
  "('b \<Rightarrow> bytes \<Rightarrow> nat \<times> 'b) \<Rightarrow> ('b \<Rightarrow> nat \<Rightarrow> (bytes \<times> 'b) option) \<Rightarrow> 'b \<Rightarrow> stream_op list \<Rightarrow>
   (bytes \<times> bytes \<times> 'b) option" where
  "fifo_run put get b [] = Some ([], [], b)"
| "fifo_run put get b (Put d # ops) =
     (case put b d of (n, b') \<Rightarrow>
        do { (acc, rd, b'') \<leftarrow> fifo_run put get b' ops; Some (take n d @ acc, rd, b'') })"
| "fifo_run put get b (Get k # ops) =
     do { (bs, b') \<leftarrow> get b k; (acc, rd, b'') \<leftarrow> fifo_run put get b' ops; Some (acc, bs @ rd, b'') }"

context byte_fifo
begin

lemma run_fifo:
  "inv b \<Longrightarrow> \<exists>acc rd b'. fifo_run put get b ops = Some (acc, rd, b') \<and> inv b' \<and>
     content b @ acc = rd @ content b' \<and> capacity b' = capacity b"
proof (induction ops arbitrary: b)
  case Nil
  then show ?case by simp
next
  case (Cons op ops)
  show ?case
  proof (cases op)
    case (Put d)
    obtain n b' where p: "put b d = (n, b')" by fastforce
    note pl = put_law [OF Cons.prems p]
    then obtain acc rd b'' where
      "fifo_run put get b' ops = Some (acc, rd, b'')" "inv b''"
      "content b' @ acc = rd @ content b''" "capacity b'' = capacity b'"
      using Cons.IH by blast
    then show ?thesis using pl p Put by auto
  next
    case (Get k)
    obtain b' where g: "get b k = Some (take k (content b), b')" "inv b'"
      "content b' = drop k (content b)" "capacity b' = capacity b"
      using get_law [OF Cons.prems] by blast
    then obtain acc rd b'' where
      "fifo_run put get b' ops = Some (acc, rd, b'')" "inv b''"
      "content b' @ acc = rd @ content b''" "capacity b'' = capacity b'"
      using Cons.IH by blast
    moreover from this g have "content b @ acc = (take k (content b) @ rd) @ content b''"
      by (metis append.assoc append_take_drop_id)
    ultimately show ?thesis using g Get by auto
  qed
qed

text \<open>Handing the first \<open>k\<close> bytes of the front span on and discarding them loses nothing.\<close>

lemma discard_front:
  assumes "inv b" and "content b \<noteq> []" and "k \<le> length (front b)"
  shows "\<exists>b'. discard b k = Some (k, b') \<and> inv b' \<and> content b = take k (front b) @ content b' \<and>
              capacity b' = capacity b"
proof -
  obtain rest where f: "content b = front b @ rest" using front_law assms by blast
  obtain b' where d: "discard b k = Some (min k (length (content b)), b')" "inv b'"
    "content b' = drop k (content b)" "capacity b' = capacity b"
    using discard_law assms(1) by blast
  have k: "min k (length (content b)) = k" using assms(3) f by simp
  have "content b = take k (front b) @ content b'"
    using f assms(3) append_take_drop_id [of k "content b"] unfolding d(3) by simp
  with d(1,2,4) show ?thesis unfolding k by blast
qed

end

definition sb_live :: "stream_buffer \<Rightarrow> bool" where
  "sb_live b \<longleftrightarrow> sb_wf b \<and> 0 < sb_capacity b"

lemma sb_live_new [simp]: "0 < c \<Longrightarrow> sb_live (sb_new c)"
  using sb_wf_new by (simp add: sb_live_def sb_new_def)

interpretation sb: byte_fifo sb_live sb_contents sb_capacity sb_write sb_read sb_peek_contiguous sb_consume
proof (unfold_locales, goal_cases)
  case (1 b d n b')
  then show ?case
    using sb_write_correct [of b d n b'] by (simp add: sb_live_def sb_available_def)
next
  case (2 b k)
  then obtain bs b' where r: "sb_read b k = Some (bs, b')"
    using sb_read_total [of b k] unfolding sb_live_def by blast
  then show ?case using 2 sb_read_correct [of b k bs b'] by (auto simp: sb_live_def)
next
  case (3 b)
  then show ?case
    using sb_peek_contiguous_prefix [of b] sb_peek_contiguous_nonempty [of b]
    by (metis append_take_drop_id sb_contents_Nil_iff sb_live_def)
next
  case (4 b k)
  then obtain b' where c: "sb_consume b k = Some (min k (sb_size b), b')"
    using sb_consume_total [of b k] unfolding sb_live_def by blast
  then show ?case using 4 sb_consume_correct [of b k "min k (sb_size b)" b']
    by (auto simp: sb_live_def min_def)
next
  case (5 b)
  then show ?case by (simp add: sb_live_def sb_wf_def)
qed

section \<open>Properties\<close>

text \<open>C6. Any sequence of writes and reads on a buffer made by the constructor with a non-zero
  capacity returns (no division by zero), and the bytes read followed by the bytes still
  buffered are exactly the bytes accepted, in order, never more than the capacity.\<close>

theorem stream_buffer_fifo:
  assumes "0 < c"
  shows "\<exists>acc rd b. fifo_run sb_write sb_read (sb_new c) ops = Some (acc, rd, b) \<and>
           acc = rd @ sb_contents b \<and> length (sb_contents b) \<le> c"
proof -
  have live: "sb_live (sb_new c)" using assms sb_wf_new by (simp add: sb_live_def sb_new_def)
  obtain acc rd b where r: "fifo_run sb_write sb_read (sb_new c) ops = Some (acc, rd, b)"
    "sb_live b" "sb_contents (sb_new c) @ acc = rd @ sb_contents b" "sb_capacity b = sb_capacity (sb_new c)"
    using sb.run_fifo [OF live] by blast
  moreover have "sb_capacity (sb_new c) = c" by (simp add: sb_new_def)
  ultimately show ?thesis using sb.bounded [OF r(2)] by simp
qed

theorem stream_buffer_fifo_witness:
  "\<exists>acc rd b. fifo_run sb_write sb_read (sb_new 3) [Put [1, 2], Get 1, Put [3, 4, 5], Get 9] =
     Some (acc, rd, b) \<and> acc = rd @ sb_contents b \<and> length (sb_contents b) \<le> 3"
  by (rule stream_buffer_fifo) simp

text \<open>On a well-formed buffer \<open>peek_at\<close> copies exactly the requested slice of the buffered
  bytes, also where the slice wraps around the end of the array.\<close>

theorem peek_at_slice:
  assumes "sb_wf b"
  shows "sb_peek_at b offset len = take len (drop offset (sb_contents b))"
  using assms by (rule sb_peek_at_contents)

theorem peek_at_slice_witness:
  "sb_peek_at \<lparr>sb_buffer = [7, 8, 9], sb_capacity = 3, sb_read_pos = 2, sb_write_pos = 1, sb_size = 2\<rparr> 1 5 = [7]"
  by (subst peek_at_slice) (simp_all add: sb_wf_def sb_contents_def upt_rec)

end
