(* ===== verification/Tcp_Reno.thy ===== *)
theory Tcp_Reno
  imports Prelude
begin

text \<open>
  Congestion control (\<^verbatim>\<open>include/neustack/transport/tcp_tcb.hpp\<close>, \<open>ICongestionControl\<close>, and
  \<^verbatim>\<open>tcp_reno.hpp\<close>).  The interface is a record of operations on an arbitrary controller state
  together with the locale of what the sender relies on; \<open>TCPReno\<close>, whose dynamic type the sender
  tests, is modelled completely and shown to satisfy the contract.
\<close>

section \<open>The interface\<close>

text \<open>\<open>on_ack\<close> may divide by a zero window, so it returns an option.\<close>

record 'c cc_ops =
  cc_new :: "u16 \<Rightarrow> 'c"
  cc_on_ack :: "u32 \<Rightarrow> u32 \<Rightarrow> 'c \<Rightarrow> 'c option"
  cc_on_loss :: "u32 \<Rightarrow> 'c \<Rightarrow> 'c"
  cc_cwnd :: "'c \<Rightarrow> u32"
  cc_ssthresh :: "'c \<Rightarrow> u32"

section \<open>TCP Reno\<close>

record reno =
  reno_mss :: u32
  reno_cwnd :: u32
  reno_ssthresh :: u32
  reno_in_fast_recovery :: bool

definition reno_new :: "u32 \<Rightarrow> reno" where
  "reno_new mss =
    (let m = (if mss < 536 then 536 else mss) in
     \<lparr>reno_mss = m, reno_cwnd = m, reno_ssthresh = 65535, reno_in_fast_recovery = False\<rparr>)"

definition reno_on_ack :: "u32 \<Rightarrow> u32 \<Rightarrow> reno \<Rightarrow> reno option" where
  "reno_on_ack bytes_acked rtt_us r =
    (if reno_in_fast_recovery r
     then Some (r\<lparr>reno_cwnd := reno_ssthresh r, reno_in_fast_recovery := False\<rparr>)
     else do {
       c \<leftarrow> (if reno_cwnd r < reno_ssthresh r then Some (reno_cwnd r + reno_mss r)
             else if reno_cwnd r = 0 then None
             else Some (reno_cwnd r + reno_mss r * reno_mss r div reno_cwnd r));
       Some (r\<lparr>reno_cwnd := min c (65535 * 16)\<rparr>)
     })"

definition reno_on_loss :: "u32 \<Rightarrow> reno \<Rightarrow> reno" where
  "reno_on_loss bytes_lost r =
    (let s = max (reno_cwnd r div 2) (2 * reno_mss r) in
     r\<lparr>reno_ssthresh := s, reno_cwnd := s + 3 * reno_mss r, reno_in_fast_recovery := True\<rparr>)"

definition reno_on_timeout :: "reno \<Rightarrow> reno" where
  "reno_on_timeout r =
     r\<lparr>reno_ssthresh := max (reno_cwnd r div 2) (2 * reno_mss r), reno_cwnd := reno_mss r,
       reno_in_fast_recovery := False\<rparr>"

definition reno_on_dup_ack :: "reno \<Rightarrow> reno" where
  "reno_on_dup_ack r =
    (if reno_in_fast_recovery r then r\<lparr>reno_cwnd := reno_cwnd r + reno_mss r\<rparr> else r)"

definition reno_ops :: "reno cc_ops" where
  "reno_ops = \<lparr>cc_new = (\<lambda>mss. reno_new (ucast mss)), cc_on_ack = reno_on_ack,
               cc_on_loss = reno_on_loss, cc_cwnd = reno_cwnd, cc_ssthresh = reno_ssthresh\<rparr>"

section \<open>Invariant\<close>

text \<open>
  The window is only unconstrained inside fast recovery, where duplicate acknowledgements
  inflate it without a bound; leaving fast recovery restores the threshold.
\<close>

definition reno_wf :: "reno \<Rightarrow> bool" where
  "reno_wf r \<longleftrightarrow>
     536 \<le> unat (reno_mss r) \<and> unat (reno_mss r) \<le> 65535 \<and>
     unat (reno_mss r) \<le> unat (reno_ssthresh r) \<and> unat (reno_ssthresh r) \<le> 2147483648 \<and>
     (\<not> reno_in_fast_recovery r \<longrightarrow>
        unat (reno_mss r) \<le> unat (reno_cwnd r) \<and> unat (reno_cwnd r) \<le> 2147483648)"

lemma unat_max: "unat (max a b :: 'a::len word) = max (unat a) (unat b)"
  by (simp add: max_def word_le_nat_alt)

lemma unat_min: "unat (min a b :: 'a::len word) = min (unat a) (unat b)"
  by (simp add: min_def word_le_nat_alt)

lemma reno_ssthresh_next:
  assumes "reno_wf r"
  shows "unat (max (reno_cwnd r div 2) (2 * reno_mss r)) = max (unat (reno_cwnd r) div 2) (2 * unat (reno_mss r))"
    and "unat (max (reno_cwnd r div 2) (2 * reno_mss r)) \<le> 2147483648"
proof -
  have "unat (2 * reno_mss r) = 2 * unat (reno_mss r)"
    using assms by (simp add: reno_wf_def unat_word_ariths)
  then show u: "unat (max (reno_cwnd r div 2) (2 * reno_mss r)) = max (unat (reno_cwnd r) div 2) (2 * unat (reno_mss r))"
    by (simp add: unat_max unat_div)
  show "unat (max (reno_cwnd r div 2) (2 * reno_mss r)) \<le> 2147483648"
    unfolding u using assms unat_lt_2_32 [of "reno_cwnd r"] by (auto simp: reno_wf_def)
qed

lemma reno_wf_new [wf_intros]: "unat mss \<le> 65535 \<Longrightarrow> reno_wf (reno_new mss)"
  by (auto simp: reno_wf_def reno_new_def Let_def word_less_nat_alt not_less)

lemma reno_on_loss_wf [wf_intros]: "reno_wf r \<Longrightarrow> reno_wf (reno_on_loss n r)"
  using reno_ssthresh_next [of r] by (auto simp: reno_wf_def reno_on_loss_def Let_def)

lemma reno_on_timeout_wf [wf_intros]: "reno_wf r \<Longrightarrow> reno_wf (reno_on_timeout r)"
  using reno_ssthresh_next [of r] by (auto simp: reno_wf_def reno_on_timeout_def)

lemma reno_on_dup_ack_wf [wf_intros]: "reno_wf r \<Longrightarrow> reno_wf (reno_on_dup_ack r)"
  by (auto simp: reno_wf_def reno_on_dup_ack_def)

lemma reno_on_ack_wf:
  assumes wf: "reno_wf r"
  shows "\<exists>r'. reno_on_ack n rtt r = Some r' \<and> reno_wf r' \<and> \<not> reno_in_fast_recovery r' \<and>
           (\<not> reno_in_fast_recovery r \<longrightarrow> unat (reno_cwnd r') \<le> 65535 * 16 \<and>
              min (unat (reno_cwnd r)) (65535 * 16) \<le> unat (reno_cwnd r'))"
proof (cases "reno_in_fast_recovery r")
  case True
  then show ?thesis using wf by (auto simp: reno_on_ack_def reno_wf_def)
next
  case False
  let ?m = "reno_mss r" and ?c = "reno_cwnd r"
  have b: "536 \<le> unat ?m" "unat ?m \<le> 65535" "unat ?m \<le> unat ?c" "unat ?c \<le> 2147483648"
    using wf False by (auto simp: reno_wf_def)
  then have nz: "?c \<noteq> 0" by auto
  define d where "d = (if ?c < reno_ssthresh r then ?m else ?m * ?m div ?c)"
  have "unat (?m * ?m) = unat ?m * unat ?m"
  proof -
    have "unat ?m * unat ?m \<le> 65535 * 65535" using b(2) by (intro mult_mono) auto
    then show ?thesis by (simp add: unat_word_ariths)
  qed
  then have "unat (?m * ?m div ?c) = unat ?m * unat ?m div unat ?c" by (simp add: unat_div)
  also have "\<dots> \<le> unat ?m * unat ?m div unat ?m" using b by (intro div_le_mono2) auto
  finally have "unat (?m * ?m div ?c) \<le> unat ?m" using b by simp
  then have d: "unat d \<le> 65535" using b by (auto simp: d_def)
  then have c: "unat (?c + d) = unat ?c + unat d"
    using b by (intro unat_add_small) simp
  have r: "reno_on_ack n rtt r = Some (r\<lparr>reno_cwnd := min (?c + d) 1048560\<rparr>)"
    using False nz by (simp add: reno_on_ack_def d_def)
  have u: "unat (min (?c + d) 1048560) = min (unat ?c + unat d) 1048560"
    by (simp add: unat_min c)
  show ?thesis
    using wf False b unfolding r by (auto simp: reno_wf_def u)
qed


section \<open>The contract of a congestion controller\<close>

locale congestion_controller =
  fixes good :: "'c \<Rightarrow> bool" and ops :: "'c cc_ops"
  assumes new_law: "good (cc_new ops mss)"
    and ack_law: "good c \<Longrightarrow> \<exists>c'. cc_on_ack ops n rtt c = Some c' \<and> good c'"
    and loss_law: "good c \<Longrightarrow> good (cc_on_loss ops n c)"

interpretation reno: congestion_controller reno_wf reno_ops
proof (unfold_locales, goal_cases)
  case (1 mss)
  have "unat (ucast mss :: u32) = unat mss" 
    using unat_lt_2_16 [of mss] by (simp add: unsigned_ucast_eq take_bit_nat_eq_self)
  then show ?case using unat_lt_2_16 [of mss] by (auto simp: reno_ops_def intro: wf_intros)
next
  case (2 c n rtt)
  then show ?case using reno_on_ack_wf [of c n rtt] by (auto simp: reno_ops_def)
next
  case (3 c n)
  then show ?case by (auto simp: reno_ops_def intro: wf_intros)
qed

text \<open>
  The controller of a connection: the code calls through the interface, and finds out with a
  dynamic cast whether it is a \<open>TCPReno\<close>.
\<close>

datatype 'c congestion = CCReno reno | CCVirtual 'c

definition cg_on_ack :: "'c cc_ops \<Rightarrow> u32 \<Rightarrow> u32 \<Rightarrow> 'c congestion \<Rightarrow> 'c congestion option" where
  "cg_on_ack ops n rtt c =
    (case c of CCReno r \<Rightarrow> map_option CCReno (reno_on_ack n rtt r)
     | CCVirtual v \<Rightarrow> map_option CCVirtual (cc_on_ack ops n rtt v))"

definition cg_on_loss :: "'c cc_ops \<Rightarrow> u32 \<Rightarrow> 'c congestion \<Rightarrow> 'c congestion" where
  "cg_on_loss ops n c =
    (case c of CCReno r \<Rightarrow> CCReno (reno_on_loss n r) | CCVirtual v \<Rightarrow> CCVirtual (cc_on_loss ops n v))"

definition cg_cwnd :: "'c cc_ops \<Rightarrow> 'c congestion \<Rightarrow> u32" where
  "cg_cwnd ops c = (case c of CCReno r \<Rightarrow> reno_cwnd r | CCVirtual v \<Rightarrow> cc_cwnd ops v)"

definition cg_ssthresh :: "'c cc_ops \<Rightarrow> 'c congestion \<Rightarrow> u32" where
  "cg_ssthresh ops c = (case c of CCReno r \<Rightarrow> reno_ssthresh r | CCVirtual v \<Rightarrow> cc_ssthresh ops v)"

definition cg_inv :: "('c \<Rightarrow> bool) \<Rightarrow> 'c congestion \<Rightarrow> bool" where
  "cg_inv good c = (case c of CCReno r \<Rightarrow> reno_wf r | CCVirtual v \<Rightarrow> good v)"

context congestion_controller
begin

lemma cg_on_ack_total: "cg_inv good c \<Longrightarrow> \<exists>c'. cg_on_ack ops n rtt c = Some c' \<and> cg_inv good c'"
proof (cases c)
  case (CCReno r)
  moreover assume "cg_inv good c"
  ultimately show ?thesis using reno_on_ack_wf [of r n rtt] by (auto simp: cg_inv_def cg_on_ack_def)
next
  case (CCVirtual v)
  moreover assume "cg_inv good c"
  ultimately show ?thesis using ack_law [of v n rtt] by (auto simp: cg_inv_def cg_on_ack_def)
qed

lemma cg_on_loss_inv: "cg_inv good c \<Longrightarrow> cg_inv good (cg_on_loss ops n c)"
  using loss_law by (auto simp: cg_inv_def cg_on_loss_def intro: reno_on_loss_wf split: congestion.splits)

end

section \<open>Properties\<close>

text \<open>The calls the sender makes on a \<open>TCPReno\<close>, in any order.\<close>

datatype reno_event = RenoAck u32 u32 | RenoLoss u32 | RenoTimeout | RenoDupAck

fun reno_run :: "reno_event list \<Rightarrow> reno \<Rightarrow> reno option" where
  "reno_run [] r = Some r"
| "reno_run (RenoAck n rtt # es) r = do { r' \<leftarrow> reno_on_ack n rtt r; reno_run es r' }"
| "reno_run (RenoLoss n # es) r = reno_run es (reno_on_loss n r)"
| "reno_run (RenoTimeout # es) r = reno_run es (reno_on_timeout r)"
| "reno_run (RenoDupAck # es) r = reno_run es (reno_on_dup_ack r)"

lemma reno_run_wf: "reno_wf r \<Longrightarrow> \<exists>r'. reno_run es r = Some r' \<and> reno_wf r'"
proof (induction es r rule: reno_run.induct)
  case (2 n rtt es r)
  then obtain r' where "reno_on_ack n rtt r = Some r'" "reno_wf r'"
    using reno_on_ack_wf [of r n rtt] by blast
  then show ?case using "2.IH" by auto
qed (auto intro: wf_intros)

text \<open>C8. Whatever acknowledgements, losses, timeouts and duplicate acknowledgements a TCPReno sees,
  no call divides by zero; outside fast recovery its window is at least one segment and at most
  two to the 31; and a loss followed by a new acknowledgement leaves half the window, but at
  least two segments.\<close>

theorem reno_sound:
  "\<exists>r r'. reno_run es (reno_new (ucast (mss :: u16))) = Some r \<and>
     (reno_in_fast_recovery r \<or>
        536 \<le> unat (reno_cwnd r) \<and> unat (reno_mss r) \<le> unat (reno_cwnd r) \<and> unat (reno_cwnd r) \<le> 2 ^ 31) \<and>
     reno_run [RenoLoss a, RenoAck b c] r = Some r' \<and>
     unat (reno_cwnd r') = max (unat (reno_cwnd r) div 2) (2 * unat (reno_mss r))"
proof -
  have "reno_wf (reno_new (ucast mss))" using reno.new_law [of mss] by (simp add: reno_ops_def)
  then obtain r where r: "reno_run es (reno_new (ucast mss)) = Some r" "reno_wf r"
    using reno_run_wf by blast
  moreover have "reno_run [RenoLoss a, RenoAck b c] r =
      Some (r\<lparr>reno_ssthresh := max (reno_cwnd r div 2) (2 * reno_mss r),
             reno_cwnd := max (reno_cwnd r div 2) (2 * reno_mss r), reno_in_fast_recovery := False\<rparr>)"
    by (simp add: reno_on_loss_def reno_on_ack_def Let_def)
  ultimately show ?thesis
    using reno_ssthresh_next(1) [OF r(2)] by (auto simp: reno_wf_def)
qed

end
