(* ===== verification/Tcp_Tcb.thy ===== *)
theory Tcp_Tcb
  imports Tcp_Seq Stream_Buffer Tcp_Reno
begin

text \<open>
  The data of the TCP component (\<^verbatim>\<open>include/neustack/transport/tcp_state.hpp\<close>, \<^verbatim>\<open>tcp_tcb.hpp\<close>,
  \<^verbatim>\<open>include/neustack/common/isn_generator.hpp\<close>): states, connection tuples, options, queue
  entries and the transmission control block with its helper methods, and the generator of
  initial sequence numbers.  A time point is a number of nanoseconds; the payload array of a
  queue entry with its length is the list of the bytes in use, at most \<open>TCP_MSS_MAX\<close>.
\<close>

section \<open>States, tuples, options\<close>

datatype tcp_state =
  CLOSED | LISTEN | SYN_SENT | SYN_RCVD | ESTABLISHED | FIN_WAIT_1 | FIN_WAIT_2
| CLOSE_WAIT | CLOSING | LAST_ACK | TIME_WAIT

definition TCP_MSS_MAX :: nat where "TCP_MSS_MAX = 1460"

record tcp_tuple =
  tu_local_ip :: u32
  tu_remote_ip :: u32
  tu_local_port :: u16
  tu_remote_port :: u16

record tcp_options =
  op_nagle_enabled :: bool
  op_delayed_ack_enabled :: bool
  op_delayed_ack_timeout_ms :: u32
  op_mss :: u16
  op_recv_buffer_size :: u32
  op_send_buffer_size :: u32
  op_max_retransmit :: int
  op_initial_rto_us :: u32
  op_tcp_fast_open :: bool
  op_timestamps_enabled :: bool

definition tcp_options_default :: tcp_options where
  "tcp_options_default =
     \<lparr>op_nagle_enabled = True, op_delayed_ack_enabled = True, op_delayed_ack_timeout_ms = 200,
      op_mss = 1460, op_recv_buffer_size = 65535, op_send_buffer_size = 65535,
      op_max_retransmit = 5, op_initial_rto_us = 1000000, op_tcp_fast_open = False,
      op_timestamps_enabled = False\<rparr>"

definition tcp_options_low_latency :: tcp_options where
  "tcp_options_low_latency =
     tcp_options_default\<lparr>op_nagle_enabled := False, op_delayed_ack_enabled := False\<rparr>"

definition tcp_options_high_throughput :: tcp_options where
  "tcp_options_high_throughput =
     tcp_options_default\<lparr>op_nagle_enabled := True, op_delayed_ack_enabled := True,
       op_recv_buffer_size := 256 * 1024, op_send_buffer_size := 256 * 1024\<rparr>"

definition tcp_options_interactive :: tcp_options where
  "tcp_options_interactive =
     tcp_options_default\<lparr>op_nagle_enabled := False, op_delayed_ack_enabled := True,
       op_delayed_ack_timeout_ms := 100\<rparr>"

section \<open>Queue entries\<close>

record retransmit_entry =
  re_seq_start :: u32
  re_seq_end :: u32
  re_data :: bytes
  re_send_time :: int
  re_timeout :: int
  re_retransmit_count :: int

record ooo_segment =
  oo_seq_start :: u32
  oo_seq_end :: u32
  oo_data :: bytes

section \<open>The transmission control block\<close>

record 'c tcb =
  t_options :: tcp_options
  t_tuple :: tcp_tuple
  t_state :: tcp_state
  t_passive_open :: bool
  t_snd_una :: u32
  t_snd_nxt :: u32
  t_snd_wnd :: u32
  t_iss :: u32
  t_rcv_nxt :: u32
  t_rcv_wnd :: u32
  t_irs :: u32
  t_congestion :: "'c congestion option"
  t_retransmit_queue :: "retransmit_entry list"
  t_srtt_us :: u32
  t_rttvar_us :: u32
  t_rto_us :: u32
  t_last_rtt_us :: u32
  t_rtt_measuring :: bool
  t_rtt_seq :: u32
  t_rtt_send_time :: int
  t_ooo_queue :: "ooo_segment list"
  t_ooo_size :: nat
  t_dup_ack_count :: u32
  t_last_ack_num :: u32
  t_send_buffer :: stream_buffer
  t_recv_buffer :: stream_buffer
  t_on_connect :: bool
  t_on_receive :: bool
  t_on_close :: bool
  t_last_activity :: int
  t_zwp_needed :: bool
  t_zwp_time :: int
  t_delayed_ack_pending :: bool
  t_delayed_ack_time :: int
  t_close_pending :: bool
  t_min_rtt_us :: u32
  t_last_sample_time_us :: u64
  t_packets_sent_period :: u16
  t_packets_lost_period :: u16
  t_ecn_ce_period :: u8
  t_bytes_sent_period :: u32
  t_bytes_acked_period :: u32

definition tuple_zero :: tcp_tuple where
  "tuple_zero = \<lparr>tu_local_ip = 0, tu_remote_ip = 0, tu_local_port = 0, tu_remote_port = 0\<rparr>"

definition tcb_new :: "'c tcb" where
  "tcb_new =
     \<lparr>t_options = tcp_options_default, t_tuple = tuple_zero, t_state = CLOSED, t_passive_open = False,
      t_snd_una = 0, t_snd_nxt = 0, t_snd_wnd = 0, t_iss = 0, t_rcv_nxt = 0, t_rcv_wnd = 65535, t_irs = 0,
      t_congestion = None, t_retransmit_queue = [], t_srtt_us = 0, t_rttvar_us = 0, t_rto_us = 1000000,
      t_last_rtt_us = 0, t_rtt_measuring = False, t_rtt_seq = 0, t_rtt_send_time = 0,
      t_ooo_queue = [], t_ooo_size = 0, t_dup_ack_count = 0, t_last_ack_num = 0,
      t_send_buffer = sb_new 65536, t_recv_buffer = sb_new 65536,
      t_on_connect = False, t_on_receive = False, t_on_close = False, t_last_activity = 0,
      t_zwp_needed = False, t_zwp_time = 0, t_delayed_ack_pending = False, t_delayed_ack_time = 0,
      t_close_pending = False, t_min_rtt_us = 0, t_last_sample_time_us = 0, t_packets_sent_period = 0,
      t_packets_lost_period = 0, t_ecn_ce_period = 0, t_bytes_sent_period = 0, t_bytes_acked_period = 0\<rparr>"

definition SAMPLE_INTERVAL_US :: u64 where "SAMPLE_INTERVAL_US = 10000"

definition effective_window :: "'c cc_ops \<Rightarrow> 'c tcb \<Rightarrow> u32" where
  "effective_window ops t =
     min (case t_congestion t of Some c \<Rightarrow> cg_cwnd ops c | None \<Rightarrow> 65535) (t_snd_wnd t)"

definition available_recv_window :: "'c tcb \<Rightarrow> u32" where
  "available_recv_window t =
    (let used = sb_size (t_recv_buffer t) in
     if used < unat (op_recv_buffer_size (t_options t))
     then of_nat (unat (op_recv_buffer_size (t_options t)) - used) else 0)"

definition apply_options :: "tcp_options \<Rightarrow> 'c tcb \<Rightarrow> 'c tcb" where
  "apply_options opts t =
     t\<lparr>t_send_buffer := sb_new (unat (op_send_buffer_size opts)),
       t_recv_buffer := sb_new (unat (op_recv_buffer_size opts)),
       t_options := opts, t_rto_us := op_initial_rto_us opts, t_rcv_wnd := op_recv_buffer_size opts\<rparr>"

section \<open>Initial sequence numbers\<close>

definition rotl :: "u64 \<Rightarrow> nat \<Rightarrow> u64" where
  "rotl x n = push_bit n x OR drop_bit (64 - n) x"

definition sipround :: "u64 \<times> u64 \<times> u64 \<times> u64 \<Rightarrow> u64 \<times> u64 \<times> u64 \<times> u64" where
  "sipround v =
    (case v of (v0, v1, v2, v3) \<Rightarrow>
     let v0 = v0 + v1; v1 = rotl v1 13; v1 = v1 XOR v0; v0 = rotl v0 32;
         v2 = v2 + v3; v3 = rotl v3 16; v3 = v3 XOR v2;
         v0 = v0 + v3; v3 = rotl v3 21; v3 = v3 XOR v0;
         v2 = v2 + v1; v1 = rotl v1 17; v1 = v1 XOR v2; v2 = rotl v2 32
     in (v0, v1, v2, v3))"

text \<open>The keys are drawn once per process from the random device: arguments of the model.\<close>

definition siphash :: "u64 \<Rightarrow> u64 \<Rightarrow> u32 \<Rightarrow> u16 \<Rightarrow> u32 \<Rightarrow> u16 \<Rightarrow> u32" where
  "siphash k0 k1 lip lp rip rp =
    (let v0 = k0 XOR 0x736f6d6570736575; v1 = k1 XOR 0x646f72616e646f6d;
         v2 = k0 XOR 0x6c7967656e657261; v3 = k1 XOR 0x7465646279746573;
         m0 = push_bit 32 (ucast lip) OR push_bit 16 (ucast lp) OR ucast rp;
         m1 = ucast rip;
         (v0, v1, v2, v3) = sipround (sipround (v0, v1, v2, v3 XOR m0));
         v0 = v0 XOR m0;
         (v0, v1, v2, v3) = sipround (sipround (v0, v1, v2, v3 XOR m1));
         v0 = v0 XOR m1;
         v2 = v2 XOR 0xff;
         (v0, v1, v2, v3) = sipround (sipround (sipround (sipround (v0, v1, v2, v3))))
     in ucast (v0 XOR v1 XOR v2 XOR v3))"

definition generate_isn :: "u64 \<Rightarrow> u64 \<Rightarrow> int \<Rightarrow> tcp_tuple \<Rightarrow> u32" where
  "generate_isn k0 k1 now tu =
    (let us = now div 1000; M = word_of_int (us div 4)
     in M + siphash k0 k1 (tu_local_ip tu) (tu_local_port tu) (tu_remote_ip tu) (tu_remote_port tu))"

end
