(* ===== verification/Tcp_Wire.thy ===== *)
theory Tcp_Wire
  imports Ipv4
begin

text \<open>
  TCP segments on the wire (\<^verbatim>\<open>include/neustack/transport/tcp.hpp\<close>, \<^verbatim>\<open>tcp_segment.hpp\<close>,
  \<^verbatim>\<open>tcp_builder.hpp\<close> and their sources): the flags, the parsed segment, the builder, the
  checksum over the pseudo header and the parser, with the round trip between them.
\<close>

section \<open>Flags and segments\<close>

definition FIN :: u8 where "FIN = 0x01"
definition SYN :: u8 where "SYN = 0x02"
definition RST :: u8 where "RST = 0x04"
definition PSH :: u8 where "PSH = 0x08"
definition ACK :: u8 where "ACK = 0x10"

lemmas tcp_flags = FIN_def SYN_def RST_def PSH_def ACK_def

record tcp_segment =
  seg_src_addr :: u32
  seg_dst_addr :: u32
  seg_src_port :: u16
  seg_dst_port :: u16
  seg_seq_num :: u32
  seg_ack_num :: u32
  seg_data_offset :: u8
  seg_flags :: u8
  seg_window :: u16
  seg_checksum :: u16
  seg_urgent_ptr :: u16
  seg_data :: bytes

definition is_syn :: "tcp_segment \<Rightarrow> bool" where "is_syn seg \<longleftrightarrow> seg_flags seg AND SYN \<noteq> 0"
definition is_ack :: "tcp_segment \<Rightarrow> bool" where "is_ack seg \<longleftrightarrow> seg_flags seg AND ACK \<noteq> 0"
definition is_fin :: "tcp_segment \<Rightarrow> bool" where "is_fin seg \<longleftrightarrow> seg_flags seg AND FIN \<noteq> 0"
definition is_rst :: "tcp_segment \<Rightarrow> bool" where "is_rst seg \<longleftrightarrow> seg_flags seg AND RST \<noteq> 0"

definition data_length :: "tcp_segment \<Rightarrow> nat" where "data_length seg = length (seg_data seg)"

definition seg_len :: "tcp_segment \<Rightarrow> u32" where
  "seg_len seg = of_nat (data_length seg) + (if is_syn seg then 1 else 0) + (if is_fin seg then 1 else 0)"

section \<open>Building\<close>

record tcp_builder =
  tb_src_port :: u16
  tb_dst_port :: u16
  tb_seq :: u32
  tb_ack :: u32
  tb_flags :: u8
  tb_window :: u16
  tb_payload :: bytes

definition tcp_builder_new :: tcp_builder where
  "tcp_builder_new =
     \<lparr>tb_src_port = 0, tb_dst_port = 0, tb_seq = 0, tb_ack = 0, tb_flags = 0, tb_window = 65535,
      tb_payload = []\<rparr>"

definition tcp_header_bytes :: "tcp_builder \<Rightarrow> u16 \<Rightarrow> bytes" where
  "tcp_header_bytes b checksum =
     st16 (htons (tb_src_port b)) @ st16 (htons (tb_dst_port b)) @
     st32 (htonl (tb_seq b)) @ st32 (htonl (tb_ack b)) @
     [push_bit 4 (20 div 4), tb_flags b] @ st16 (htons (tb_window b)) @
     st16 checksum @ st16 0"

definition tcp_build :: "tcp_builder \<Rightarrow> nat \<Rightarrow> bytes option" where
  "tcp_build b buffer_len =
    (let total_len = 20 + length (tb_payload b) in
     if buffer_len < total_len then None
     else Some (tcp_header_bytes b 0 @ tb_payload b))"

definition tcp_build_header_only :: "tcp_builder \<Rightarrow> nat \<Rightarrow> bytes option" where
  "tcp_build_header_only b buffer_len =
    (if buffer_len < 20 then None else Some (tcp_header_bytes b 0))"

definition tcp_pseudo_header :: "u32 \<Rightarrow> u32 \<Rightarrow> nat \<Rightarrow> bytes" where
  "tcp_pseudo_header src_ip dst_ip tcp_len =
     st32 (htonl src_ip) @ st32 (htonl dst_ip) @ [0, 6] @ st16 (htons (of_nat tcp_len))"

definition fill_checksum :: "bytes \<Rightarrow> u32 \<Rightarrow> u32 \<Rightarrow> bytes" where
  "fill_checksum tcp_data src_ip dst_ip =
    (if length tcp_data > 65535 then tcp_data
     else
       let d0 = blit tcp_data 16 (st16 0);
           sum = checksum_accumulate 0 (tcp_pseudo_header src_ip dst_ip (length tcp_data))
       in blit d0 16 (st16 (checksum_finalize (checksum_accumulate sum d0))))"

section \<open>Parsing\<close>

definition compute_tcp_checksum :: "u32 \<Rightarrow> u32 \<Rightarrow> bytes \<Rightarrow> u16" where
  "compute_tcp_checksum src_ip dst_ip tcp_data =
    (if length tcp_data > 65535 then 0
     else
       let sum = checksum_accumulate 0 (tcp_pseudo_header src_ip dst_ip (length tcp_data))
       in checksum_finalize (checksum_accumulate sum tcp_data))"

definition tcp_verify_checksum :: "ipv4_packet \<Rightarrow> bool" where
  "tcp_verify_checksum pkt \<longleftrightarrow>
     compute_tcp_checksum (ip_src_addr pkt) (ip_dst_addr pkt) (ip_payload pkt) = 0"

definition tcp_header_length :: "bytes \<Rightarrow> u8" where
  "tcp_header_length p = drop_bit 4 (p ! 12) * 4"

definition tcp_parse :: "ipv4_packet \<Rightarrow> tcp_segment option" where
  "tcp_parse pkt =
    (let p = ip_payload pkt in
     if length p < 20 then None
     else
       let hdr_len = tcp_header_length p in
       if unat hdr_len < 20 \<or> unat hdr_len > length p then None
       else if \<not> tcp_verify_checksum pkt then None
       else Some \<lparr>seg_src_addr = ip_src_addr pkt, seg_dst_addr = ip_dst_addr pkt,
                  seg_src_port = ntohs (ld16 p 0), seg_dst_port = ntohs (ld16 p 2),
                  seg_seq_num = ntohl (ld32 p 4), seg_ack_num = ntohl (ld32 p 8),
                  seg_data_offset = hdr_len, seg_flags = p ! 13,
                  seg_window = ntohs (ld16 p 14), seg_checksum = ntohs (ld16 p 16),
                  seg_urgent_ptr = ntohs (ld16 p 18), seg_data = drop (unat hdr_len) p\<rparr>)"

section \<open>Round trip\<close>

lemma length_tcp_header [simp]: "length (tcp_header_bytes b c) = 20"
  by (simp add: tcp_header_bytes_def)

lemma length_tcp_pseudo [simp]: "length (tcp_pseudo_header a b n) = 12"
  by (simp add: tcp_pseudo_header_def)

lemma tcp_header_fields:
  fixes data p :: bytes
  assumes "p = tcp_header_bytes b c @ data"
  shows "ntohs (ld16 p 0) = tb_src_port b" and "ntohs (ld16 p 2) = tb_dst_port b"
    and "ntohl (ld32 p 4) = tb_seq b" and "ntohl (ld32 p 8) = tb_ack b"
    and "p ! 12 = 0x50" and "p ! 13 = tb_flags b" and "ntohs (ld16 p 14) = tb_window b"
    and "ntohs (ld16 p 16) = ntohs c" and "ntohs (ld16 p 18) = 0"
  unfolding assms tcp_header_bytes_def
  by (simp_all add: ld16_def ld32_def wire)
     (simp_all add: st16_def htons_def wire lo8_def hi8_def mk16_def)

lemma tcp_header_split:
  "\<exists>pre post. length pre = 16 \<and> length post = 2 \<and> (\<forall>c. tcp_header_bytes b c = pre @ st16 c @ post)"
proof -
  let ?pre = "st16 (htons (tb_src_port b)) @ st16 (htons (tb_dst_port b)) @
     st32 (htonl (tb_seq b)) @ st32 (htonl (tb_ack b)) @
     [push_bit 4 (20 div 4), tb_flags b] @ st16 (htons (tb_window b))"
  have "length ?pre = 16" by (simp only: length_append length_st16 length_st32 list.size)
  moreover have "length (st16 0) = 2" by (simp only: length_st16)
  moreover have "\<forall>c. tcp_header_bytes b c = ?pre @ st16 c @ st16 0"
    by (simp only: tcp_header_bytes_def append_assoc simp_thms)
  ultimately show ?thesis by blast
qed

lemma blit_middle: "length pre = n \<Longrightarrow> length xs = length ys \<Longrightarrow> blit (pre @ xs @ post) n ys = pre @ ys @ post"
  by (simp add: blit_def)

lemma filled_segment:
  assumes "length (tb_payload b) \<le> 60000" and "tcp_build b n = Some seg"
  shows "\<exists>c. fill_checksum seg src dst = tcp_header_bytes b c @ tb_payload b \<and>
             compute_tcp_checksum src dst (tcp_header_bytes b c @ tb_payload b) = 0"
proof -
  obtain pre post where sp: "length pre = 16" "length post = 2"
    "\<And>c. tcp_header_bytes b c = pre @ st16 c @ post"
    using tcp_header_split by blast
  let ?len = "20 + length (tb_payload b)"
  let ?ph = "tcp_pseudo_header src dst ?len"
  have seg: "seg = pre @ st16 0 @ post @ tb_payload b"
    using assms(2) by (auto simp: tcp_build_def Let_def sp(3) split: if_splits)
  define c where "c = checksum_finalize (checksum_accumulate (checksum_accumulate 0 ?ph) seg)"
  have len: "length seg = ?len" using sp by (simp add: seg)
  have z: "st16 0 = [0, 0]" by (simp add: st16_def lo8_def hi8_def)
  have "blit seg 16 (st16 0) = seg" unfolding seg by (rule blit_middle [OF sp(1) refl])
  moreover have "blit seg 16 (st16 c) = pre @ st16 c @ post @ tb_payload b"
    unfolding seg by (rule blit_middle [OF sp(1)]) simp
  ultimately have "fill_checksum seg src dst = pre @ st16 c @ post @ tb_payload b"
    using assms(1) by (simp add: fill_checksum_def len Let_def c_def)
  moreover have "compute_tcp_checksum src dst (pre @ st16 c @ post @ tb_payload b) = 0"
  proof -
    have even: "even (length (?ph @ pre))" using sp(1) by simp
    have bound: "length ((?ph @ pre) @ [0, 0] @ post @ tb_payload b) \<le> 131000"
      using sp assms(1) by simp
    have c: "c = checksum_finalize (checksum_accumulate 0 ((?ph @ pre) @ [0, 0] @ post @ tb_payload b))"
      unfolding c_def seg z by (simp add: accumulate_append)
    have "checksum_finalize (checksum_accumulate 0 ((?ph @ pre) @ st16 c @ post @ tb_payload b)) = 0"
      unfolding c by (rule filled_recomputes_zero [OF even bound])
    then have "checksum_finalize (checksum_accumulate (checksum_accumulate 0 ?ph)
        (pre @ st16 c @ post @ tb_payload b)) = 0"
      by (simp add: accumulate_append)
    then show ?thesis using sp assms(1) by (simp add: compute_tcp_checksum_def Let_def)
  qed
  ultimately show ?thesis unfolding sp(3) by (intro exI [of _ c]) simp
qed

text \<open>The segment a receiver reads.\<close>

definition tcp_built_segment :: "tcp_builder \<Rightarrow> u32 \<Rightarrow> u32 \<Rightarrow> u16 \<Rightarrow> tcp_segment" where
  "tcp_built_segment b src dst c =
     \<lparr>seg_src_addr = src, seg_dst_addr = dst, seg_src_port = tb_src_port b, seg_dst_port = tb_dst_port b,
      seg_seq_num = tb_seq b, seg_ack_num = tb_ack b, seg_data_offset = 20, seg_flags = tb_flags b,
      seg_window = tb_window b, seg_checksum = c, seg_urgent_ptr = 0, seg_data = tb_payload b\<rparr>"

lemma tcp_parse_filled:
  assumes "length (tb_payload b) \<le> 60000" and "tcp_build b n = Some seg"
    and "ip_payload q = fill_checksum seg (ip_src_addr q) (ip_dst_addr q)"
  shows "\<exists>c. tcp_parse q = Some (tcp_built_segment b (ip_src_addr q) (ip_dst_addr q) c)"
proof -
  obtain c where c: "ip_payload q = tcp_header_bytes b c @ tb_payload b"
    "compute_tcp_checksum (ip_src_addr q) (ip_dst_addr q) (tcp_header_bytes b c @ tb_payload b) = 0"
    using filled_segment [OF assms(1,2), of "ip_src_addr q" "ip_dst_addr q"] assms(3) by auto
  note f = tcp_header_fields [OF c(1)]
  have hl: "tcp_header_length (ip_payload q) = 20" unfolding tcp_header_length_def f(5) by simp
  have "tcp_verify_checksum q" using c by (simp add: tcp_verify_checksum_def)
  moreover have "length (ip_payload q) = 20 + length (tb_payload b)" unfolding c(1) by simp
  moreover have "drop 20 (ip_payload q) = tb_payload b" unfolding c(1) by simp
  moreover have "unat (20 :: u8) = 20" by simp
  ultimately show ?thesis
    unfolding tcp_parse_def Let_def hl f tcp_built_segment_def
    by (intro exI [of _ "ntohs c"]) simp
qed

section \<open>Properties\<close>

text \<open>C5. A segment written by the builder and filled with its checksum for two addresses, received
  in an IPv4 packet between these addresses, is accepted and read back exactly: ports, sequence
  and acknowledgement numbers, flags, window and payload.\<close>

theorem tcp_wire_roundtrip:
  assumes "tcp_build b n = Some seg" and "length (tb_payload b) \<le> 60000"
    and "ip_payload q = fill_checksum seg (ip_src_addr q) (ip_dst_addr q)"
  shows "\<exists>c. tcp_parse q = Some (tcp_built_segment b (ip_src_addr q) (ip_dst_addr q) c)"
  using assms(2,1,3) by (rule tcp_parse_filled)

theorem tcp_wire_roundtrip_witness:
  "\<exists>q c. tcp_parse q = Some (tcp_built_segment (tcp_builder_new\<lparr>tb_payload := [7, 8]\<rparr>) 1 2 c)"
proof -
  let ?b = "tcp_builder_new\<lparr>tb_payload := [7, 8]\<rparr>"
  obtain seg where seg: "tcp_build ?b 1480 = Some seg" by (simp add: tcp_build_def tcp_builder_new_def)
  let ?q = "(ipv4_built_packet ipv4_builder_new [])\<lparr>ip_src_addr := 1, ip_dst_addr := 2,
              ip_payload := fill_checksum seg 1 2\<rparr>"
  have "\<exists>c. tcp_parse ?q = Some (tcp_built_segment ?b (ip_src_addr ?q) (ip_dst_addr ?q) c)"
    by (rule tcp_wire_roundtrip [OF seg]) (simp_all add: tcp_builder_new_def)
  then have "\<exists>c. tcp_parse ?q = Some (tcp_built_segment ?b 1 2 c)" by simp
  then show ?thesis by blast
qed

end
