(* ===== verification/Tcp_Send.thy ===== *)
theory Tcp_Send
  imports Tcp_Tcb Tcp_Wire
begin

text \<open>
  The sending half of \<^verbatim>\<open>src/transport/tcp_connection.cpp\<close>: \<open>send_segment\<close>, \<open>raw_send\<close>, \<open>send_rst\<close>,
  the buffered sending loop, \<open>send\<close>, \<open>close\<close> and the zero window probe.  A function works on a
  connection \<open>(t, e)\<close>: its control block and the environment it shares with the other
  connections.  It returns \<open>None\<close> where the code divides by zero or does not come back.
\<close>

section \<open>Environment and parameters\<close>

record global_metrics =
  gm_packets_rx :: u64
  gm_packets_tx :: u64
  gm_bytes_rx :: u64
  gm_bytes_tx :: u64
  gm_syn_received :: u64
  gm_rst_received :: u64
  gm_fin_received :: u64
  gm_active_connections :: u32
  gm_conn_established :: u64
  gm_conn_closed :: u64
  gm_conn_reset :: u64

record tcp_sample =
  sa_timestamp_us :: u64
  sa_rtt_us :: u32
  sa_min_rtt_us :: u32
  sa_srtt_us :: u32
  sa_cwnd :: u32
  sa_ssthresh :: u32
  sa_bytes_in_flight :: u32
  sa_delivery_rate :: u32
  sa_send_rate :: u32
  sa_loss_detected :: u8
  sa_timeout_occurred :: u8
  sa_ecn_ce_count :: u8
  sa_is_app_limited :: u8
  sa_packets_sent :: u16
  sa_packets_lost :: u16

text \<open>
  \<open>e_now\<close> is the clock, read once per operation; \<open>e_out\<close> the segments given to the send callback
  with their destinations; \<open>e_app\<close> the state of the application behind the callbacks.
\<close>

record 'a env =
  e_now :: int
  e_out :: "(u32 \<times> bytes) list"
  e_metrics :: global_metrics
  e_samples :: "tcp_sample list"
  e_rtts :: "u32 list"
  e_app :: 'a

datatype conn_event = OnConnect int | OnReceive bytes | OnClose

text \<open>The calls an application makes on its connection inside a callback.\<close>

datatype app_call = CallSend bytes | CallClose | CallSetCallbacks bool bool

text \<open>
  What stays fixed: the congestion controller's operations, the application (its reaction to an
  event, and to the result of a send), whether the send callback, the sample buffer and the
  RTT histogram are set, the floating-point rate (bytes over an interval in microseconds, in
  bytes per second) and the secret keys.
\<close>

record ('c, 'a) params =
  p_cc :: "'c cc_ops"
  p_app :: "tcp_tuple \<Rightarrow> conn_event \<Rightarrow> 'a \<Rightarrow> 'a \<times> app_call list"
  p_result :: "tcp_tuple \<Rightarrow> int \<Rightarrow> 'a \<Rightarrow> 'a"
  p_send_cb :: bool
  p_metrics_buf :: bool
  p_rtt_hist :: bool
  p_rate :: "u32 \<Rightarrow> u64 \<Rightarrow> u32"
  p_isn_k0 :: u64
  p_isn_k1 :: u64

type_synonym ('c, 'a) conn = "'c tcb \<times> 'a env"

section \<open>Segments\<close>

definition window_field :: "'c tcb \<Rightarrow> u16" where
  "window_field t = ucast (min (t_rcv_wnd t) 65535)"

text \<open>The builder calls shared by \<open>send_segment\<close> and \<open>raw_send\<close>, with their 1480-byte buffer.\<close>

definition build_segment :: "'c tcb \<Rightarrow> u8 \<Rightarrow> u32 \<Rightarrow> bytes \<Rightarrow> bytes option" where
  "build_segment t flags seq data =
    (case tcp_build
            (tcp_builder_new\<lparr>tb_src_port := tu_local_port (t_tuple t),
               tb_dst_port := tu_remote_port (t_tuple t), tb_seq := seq, tb_ack := t_rcv_nxt t,
               tb_flags := flags, tb_window := window_field t, tb_payload := data\<rparr>) 1480 of
       None \<Rightarrow> None
     | Some seg \<Rightarrow> Some (fill_checksum seg (tu_local_ip (t_tuple t)) (tu_remote_ip (t_tuple t))))"

definition emit :: "u32 \<Rightarrow> bytes \<Rightarrow> 'a env \<Rightarrow> 'a env" where
  "emit dst seg e = e\<lparr>e_out := e_out e @ [(dst, seg)]\<rparr>"

text \<open>
  The steps of \<open>send_segment\<close> after the segment is built: the sequence number moves on, the
  segment is sent and counted, and data, SYN and FIN are queued for retransmission.
\<close>

definition advance_snd_nxt :: "u8 \<Rightarrow> bytes \<Rightarrow> int \<Rightarrow> 'c tcb \<Rightarrow> 'c tcb" where
  "advance_snd_nxt flags data now t =
    (let n1 = (if flags AND SYN \<noteq> 0 then t_snd_nxt t + 1 else t_snd_nxt t);
         n2 = (if data \<noteq> [] then n1 + of_nat (length data) else n1);
         n3 = (if flags AND FIN \<noteq> 0 then n2 + 1 else n2)
     in t\<lparr>t_snd_nxt := n3, t_last_activity := now\<rparr>)"

definition count_sent :: "nat \<Rightarrow> 'c tcb \<Rightarrow> 'c tcb" where
  "count_sent len t =
     t\<lparr>t_packets_sent_period := t_packets_sent_period t + 1,
       t_bytes_sent_period := t_bytes_sent_period t + of_nat len\<rparr>"

definition transmit :: "u32 \<Rightarrow> bytes \<Rightarrow> 'a env \<Rightarrow> 'a env" where
  "transmit dst seg e =
    (let e1 = emit dst seg e; g = e_metrics e1 in
     e1\<lparr>e_metrics := g\<lparr>gm_packets_tx := gm_packets_tx g + 1,
                        gm_bytes_tx := gm_bytes_tx g + of_nat (length seg)\<rparr>\<rparr>)"

definition enqueue_entry :: "u32 \<Rightarrow> bytes \<Rightarrow> int \<Rightarrow> 'c tcb \<Rightarrow> 'c tcb" where
  "enqueue_entry seq_used data now t =
    (let entry = \<lparr>re_seq_start = seq_used, re_seq_end = t_snd_nxt t, re_data = data,
                  re_send_time = now, re_timeout = now + uint (t_rto_us t) * 1000,
                  re_retransmit_count = 0\<rparr>;
         t1 = (if \<not> t_rtt_measuring t
               then t\<lparr>t_rtt_measuring := True, t_rtt_seq := re_seq_start entry,
                      t_rtt_send_time := re_send_time entry\<rparr>
               else t)
     in t1\<lparr>t_retransmit_queue := t_retransmit_queue t1 @ [entry]\<rparr>)"

definition send_segment :: "('c, 'a) params \<Rightarrow> u8 \<Rightarrow> bytes \<Rightarrow> ('c, 'a) conn \<Rightarrow> ('c, 'a) conn" where
  "send_segment P flags data = (\<lambda>(t, e).
    if length data > 1500 - 20 - 20 then (t, e)
    else
      let seq_used = (if flags AND SYN \<noteq> 0 then t_snd_una t else t_snd_nxt t) in
      case build_segment t flags seq_used data of
        None \<Rightarrow> (t, e)
      | Some seg \<Rightarrow>
          let t1 = advance_snd_nxt flags data (e_now e) t;
              (t2, e2) = (if p_send_cb P
                          then (count_sent (length data) t1, transmit (tu_remote_ip (t_tuple t)) seg e)
                          else (t1, e))
          in if data \<noteq> [] \<or> flags AND (SYN OR FIN) \<noteq> 0
             then (enqueue_entry seq_used data (e_now e) t2, e2)
             else (t2, e2))"

definition raw_send :: "('c, 'a) params \<Rightarrow> 'c tcb \<Rightarrow> u8 \<Rightarrow> u32 \<Rightarrow> bytes \<Rightarrow> 'a env \<Rightarrow> 'a env" where
  "raw_send P t flags seq data e =
    (if length data > 1500 - 20 - 20 then e
     else case build_segment t flags seq data of
            None \<Rightarrow> e
          | Some seg \<Rightarrow> if p_send_cb P then emit (tu_remote_ip (t_tuple t)) seg e else e)"

definition send_rst :: "('c, 'a) params \<Rightarrow> u32 \<Rightarrow> tcp_segment \<Rightarrow> 'a env \<Rightarrow> 'a env" where
  "send_rst P local_ip seg e =
    (let b0 = tcp_builder_new\<lparr>tb_src_port := seg_dst_port seg, tb_dst_port := seg_src_port seg\<rparr>;
         b = (if is_ack seg
              then b0\<lparr>tb_seq := seg_ack_num seg, tb_flags := RST\<rparr>
              else b0\<lparr>tb_seq := 0, tb_ack := seg_seq_num seg + seg_len seg, tb_flags := RST OR ACK\<rparr>)
     in case tcp_build b 20 of
          None \<Rightarrow> e
        | Some raw \<Rightarrow> if p_send_cb P
                      then emit (seg_src_addr seg) (fill_checksum raw local_ip (seg_src_addr seg)) e
                      else e)"

section \<open>Buffered data\<close>

definition available_window :: "'c cc_ops \<Rightarrow> 'c tcb \<Rightarrow> u32" where
  "available_window ops t =
    (let window = effective_window ops t; in_flight = t_snd_nxt t - t_snd_una t
     in if window > in_flight then window - in_flight else 0)"

partial_function (option) send_loop ::
  "('c, 'a) params \<Rightarrow> 'c tcb \<Rightarrow> 'a env \<Rightarrow> ('c, 'a) conn option" where
  "send_loop P t e =
    (if sb_empty (t_send_buffer t) then Some (t, e)
     else
       let available = available_window (p_cc P) t in
       if available = 0 then Some (t, e)
       else
         let span = sb_peek_contiguous (t_send_buffer t);
             to_send = min (min (length span) (unat available)) (unat (op_mss (t_options t)))
         in case send_segment P (ACK OR PSH) (take to_send span) (t, e) of (t1, e1) \<Rightarrow>
              Option.bind (sb_consume (t_send_buffer t1) to_send)
                (\<lambda>(n, buf). send_loop P (t1\<lparr>t_send_buffer := buf\<rparr>) e1))"

definition backpressure_window :: "'c tcb \<Rightarrow> u32" where
  "backpressure_window t =
    (let size = unat (op_send_buffer_size (t_options t)); used = sb_size (t_send_buffer t);
         free = (if size > used then size - used else 0)
     in of_nat (min free (unat (op_recv_buffer_size (t_options t)))))"

definition finish_pending_close :: "('c, 'a) params \<Rightarrow> ('c, 'a) conn \<Rightarrow> ('c, 'a) conn" where
  "finish_pending_close P = (\<lambda>(t, e).
    if sb_empty (t_send_buffer t) \<and> t_close_pending t then
      let t0 = t\<lparr>t_close_pending := False\<rparr> in
      if t_state t0 = ESTABLISHED then
        (case send_segment P (FIN OR ACK) [] (t0, e) of (t1, e1) \<Rightarrow> (t1\<lparr>t_state := FIN_WAIT_1\<rparr>, e1))
      else if t_state t0 = CLOSE_WAIT then
        (case send_segment P (FIN OR ACK) [] (t0, e) of (t1, e1) \<Rightarrow> (t1\<lparr>t_state := LAST_ACK\<rparr>, e1))
      else (t0, e)
    else (t, e))"

definition send_buffered_data :: "('c, 'a) params \<Rightarrow> ('c, 'a) conn \<Rightarrow> ('c, 'a) conn option" where
  "send_buffered_data P = (\<lambda>(t, e). do {
     (t1, e1) \<leftarrow> send_loop P t e;
     Some (finish_pending_close P (t1\<lparr>t_rcv_wnd := backpressure_window t1\<rparr>, e1))
   })"

section \<open>The application's operations\<close>

definition buffer_data :: "bytes \<Rightarrow> 'c tcb \<Rightarrow> 'c tcb" where
  "buffer_data bs t = t\<lparr>t_send_buffer := snd (sb_write (t_send_buffer t) bs)\<rparr>"

text \<open>The end of \<open>send\<close>: a first segment, the rest into the buffer, and the buffer out again.\<close>

definition send_now :: "('c, 'a) params \<Rightarrow> bytes \<Rightarrow> nat \<Rightarrow> ('c, 'a) conn \<Rightarrow> (int \<times> ('c, 'a) conn) option" where
  "send_now P data accepted = (\<lambda>(t, e).
    let to_send = min (min accepted (unat (available_window (p_cc P) t))) (unat (op_mss (t_options t))) in
    case send_segment P (ACK OR PSH) (take to_send data) (t, e) of (t1, e1) \<Rightarrow>
    let t2 = (if to_send < accepted
              then buffer_data (take (accepted - to_send) (drop to_send data)) t1 else t1)
    in if \<not> sb_empty (t_send_buffer t2)
       then do { c \<leftarrow> send_buffered_data P (t2, e1); Some (int accepted, c) }
       else Some (int accepted, t2, e1))"

definition tcp_send :: "('c, 'a) params \<Rightarrow> bytes \<Rightarrow> ('c, 'a) conn \<Rightarrow> (int \<times> ('c, 'a) conn) option" where
  "tcp_send P data = (\<lambda>(t, e).
    if t_state t \<noteq> ESTABLISHED \<and> t_state t \<noteq> CLOSE_WAIT then Some (-1, t, e)
    else if length data = 0 then Some (0, t, e)
    else
      let buffer_space = sb_available (t_send_buffer t) in
      if buffer_space = 0 then Some (-1, t, e)
      else
        let accepted = min (length data) buffer_space in
        if \<not> sb_empty (t_send_buffer t) then Some (int accepted, buffer_data (take accepted data) t, e)
        else if op_nagle_enabled (t_options t) \<and> t_snd_nxt t \<noteq> t_snd_una t \<and>
                accepted < unat (op_mss (t_options t))
        then Some (int accepted, buffer_data (take accepted data) t, e)
        else if available_window (p_cc P) t = 0
        then Some (int accepted, buffer_data (take accepted data) t, e)
        else send_now P data accepted (t, e))"

text \<open>
  \<open>close\<close>; the flag says that it deleted the control block (the manager does the deletion, a
  callback that goes on with the block is left with a dangling pointer).
\<close>

definition tcp_close :: "('c, 'a) params \<Rightarrow> ('c, 'a) conn \<Rightarrow> (bool \<times> ('c, 'a) conn) option" where
  "tcp_close P = (\<lambda>(t, e).
    case t_state t of
      ESTABLISHED \<Rightarrow> do {
        (t1, e1) \<leftarrow> send_buffered_data P (t, e);
        if \<not> sb_empty (t_send_buffer t1) then Some (False, t1\<lparr>t_close_pending := True\<rparr>, e1)
        else case send_segment P (FIN OR ACK) [] (t1, e1) of
               (t2, e2) \<Rightarrow> Some (False, t2\<lparr>t_state := FIN_WAIT_1\<rparr>, e2)
      }
    | CLOSE_WAIT \<Rightarrow> do {
        (t1, e1) \<leftarrow> send_buffered_data P (t, e);
        if \<not> sb_empty (t_send_buffer t1) then Some (False, t1\<lparr>t_close_pending := True\<rparr>, e1)
        else case send_segment P (FIN OR ACK) [] (t1, e1) of
               (t2, e2) \<Rightarrow> Some (False, t2\<lparr>t_state := LAST_ACK\<rparr>, e2)
      }
    | LISTEN \<Rightarrow> Some (True, t, e)
    | SYN_SENT \<Rightarrow> Some (True, t, e)
    | _ \<Rightarrow> Some (False, t, e))"

fun run_calls :: "('c, 'a) params \<Rightarrow> app_call list \<Rightarrow> ('c, 'a) conn \<Rightarrow> ('c, 'a) conn option" where
  "run_calls P [] c = Some c"
| "run_calls P (CallSend data # calls) c = do {
     (n, t, e) \<leftarrow> tcp_send P data c;
     run_calls P calls (t, e\<lparr>e_app := p_result P (t_tuple t) n (e_app e)\<rparr>)
   }"
| "run_calls P (CallClose # calls) c = do {
     (deleted, c') \<leftarrow> tcp_close P c;
     if deleted then None else run_calls P calls c'
   }"
| "run_calls P (CallSetCallbacks r cl # calls) (t, e) =
     run_calls P calls (t\<lparr>t_on_receive := r, t_on_close := cl\<rparr>, e)"

definition run_callback :: "('c, 'a) params \<Rightarrow> conn_event \<Rightarrow> ('c, 'a) conn \<Rightarrow> ('c, 'a) conn option" where
  "run_callback P ev = (\<lambda>(t, e).
    case p_app P (t_tuple t) ev (e_app e) of (a, calls) \<Rightarrow> run_calls P calls (t, e\<lparr>e_app := a\<rparr>))"

section \<open>Zero window probe\<close>

definition send_zero_window_probe :: "('c, 'a) params \<Rightarrow> ('c, 'a) conn \<Rightarrow> ('c, 'a) conn" where
  "send_zero_window_probe P = (\<lambda>(t, e).
    if sb_empty (t_send_buffer t) then (t, e)
    else
      let probe = sb_peek (t_send_buffer t) 1;
          b = tcp_builder_new\<lparr>tb_src_port := tu_local_port (t_tuple t),
                tb_dst_port := tu_remote_port (t_tuple t), tb_seq := t_snd_nxt t,
                tb_ack := t_rcv_nxt t, tb_flags := ACK, tb_window := ucast (t_rcv_wnd t),
                tb_payload := probe\<rparr>
      in case tcp_build b 21 of
           None \<Rightarrow> (t, e)
         | Some seg \<Rightarrow>
             if p_send_cb P
             then (t, emit (tu_remote_ip (t_tuple t))
                        (fill_checksum seg (tu_local_ip (t_tuple t)) (tu_remote_ip (t_tuple t))) e)
             else (t, e))"

definition check_zero_window_probe :: "('c, 'a) params \<Rightarrow> ('c, 'a) conn \<Rightarrow> ('c, 'a) conn" where
  "check_zero_window_probe P = (\<lambda>(t, e).
    if t_snd_wnd t = 0 \<and> \<not> sb_empty (t_send_buffer t) then
      if \<not> t_zwp_needed t
      then (t\<lparr>t_zwp_needed := True, t_zwp_time := e_now e + uint (t_rto_us t) * 1000\<rparr>, e)
      else if e_now e \<ge> t_zwp_time t then
        (case send_zero_window_probe P (t, e) of (t1, e1) \<Rightarrow>
           let next_interval = min (t_rto_us t1 * 2) 60000000
           in (t1\<lparr>t_zwp_time := e_now e1 + uint next_interval * 1000\<rparr>, e1))
      else (t, e)
    else (t\<lparr>t_zwp_needed := False\<rparr>, e))"

definition check_delayed_ack :: "('c, 'a) params \<Rightarrow> ('c, 'a) conn \<Rightarrow> ('c, 'a) conn" where
  "check_delayed_ack P = (\<lambda>(t, e).
    if t_delayed_ack_pending t \<and> e_now e \<ge> t_delayed_ack_time t then
      (case send_segment P ACK [] (t, e) of (t1, e1) \<Rightarrow> (t1\<lparr>t_delayed_ack_pending := False\<rparr>, e1))
    else (t, e))"

end
