(* ===== verification/Tcp_Ack.thy ===== *)
theory Tcp_Ack
  imports Tcp_Send
begin

text \<open>
  Acknowledgements, round-trip times and retransmission of \<^verbatim>\<open>src/transport/tcp_connection.cpp\<close>:
  \<open>update_rtt\<close>, \<open>check_dup_ack\<close>, \<open>process_ack\<close> with the sampling at its end, and
  \<open>check_retransmit\<close>.
\<close>

section \<open>Round-trip time\<close>

definition smooth_rtt :: "u32 \<Rightarrow> u32 \<times> u32 \<Rightarrow> u32 \<times> u32" where
  "smooth_rtt rtt_us = (\<lambda>(srtt, rttvar).
    if srtt = 0 then (rtt_us, rtt_us div 2)
    else
      let delta = (if srtt > rtt_us then srtt - rtt_us else rtt_us - srtt)
      in ((7 * srtt + rtt_us) div 8, (3 * rttvar + delta) div 4))"

definition clamp_rto :: "u32 \<Rightarrow> u32" where
  "clamp_rto rto = (if rto < 200000 then 200000 else if 60000000 < rto then 60000000 else rto)"

definition min_rtt :: "u32 \<Rightarrow> 'c tcb \<Rightarrow> u32" where
  "min_rtt rtt_us t =
    (if t_state t = ESTABLISHED \<and> (t_min_rtt_us t = 0 \<or> rtt_us < t_min_rtt_us t)
     then rtt_us else t_min_rtt_us t)"

definition update_rtt :: "('c, 'a) params \<Rightarrow> u32 \<Rightarrow> ('c, 'a) conn \<Rightarrow> ('c, 'a) conn" where
  "update_rtt P rtt_us = (\<lambda>(t, e).
    case smooth_rtt rtt_us (t_srtt_us t, t_rttvar_us t) of (srtt, rttvar) \<Rightarrow>
    (t\<lparr>t_last_rtt_us := rtt_us, t_min_rtt_us := min_rtt rtt_us t, t_srtt_us := srtt, t_rttvar_us := rttvar,
       t_rto_us := clamp_rto (srtt + max 100000 (4 * rttvar))\<rparr>,
     if p_rtt_hist P then e\<lparr>e_rtts := e_rtts e @ [rtt_us]\<rparr> else e))"

section \<open>Duplicate acknowledgements\<close>

text \<open>The \<open>TCPReno\<close> in fast recovery, found by the dynamic cast.\<close>

definition reno_recovering :: "'c tcb \<Rightarrow> reno option" where
  "reno_recovering t =
    (case t_congestion t of
       Some (CCReno r) \<Rightarrow> if reno_in_fast_recovery r then Some r else None
     | _ \<Rightarrow> None)"

definition check_dup_ack :: "('c, 'a) params \<Rightarrow> u32 \<Rightarrow> ('c, 'a) conn \<Rightarrow> ('c, 'a) conn" where
  "check_dup_ack P ack_num = (\<lambda>(t, e).
    case t_retransmit_queue t of
      [] \<Rightarrow> (t, e)
    | entry # _ \<Rightarrow>
        if ack_num \<noteq> t_snd_una t then (t, e)
        else
          (case reno_recovering t of
             Some r \<Rightarrow> (t\<lparr>t_congestion := Some (CCReno (reno_on_dup_ack r))\<rparr>, e)
           | None \<Rightarrow>
               let t1 = t\<lparr>t_dup_ack_count := t_dup_ack_count t + 1\<rparr> in
               if t_dup_ack_count t1 = 3 then
                 let t2 = t1\<lparr>t_packets_lost_period := t_packets_lost_period t1 + 1,
                             t_congestion := map_option (cg_on_loss (p_cc P) 0) (t_congestion t1)\<rparr>;
                     e1 = (if re_data entry \<noteq> []
                           then raw_send P t2 ACK (re_seq_start entry)
                                  (take (unat (op_mss (t_options t2))) (re_data entry)) e
                           else e)
                 in (t2\<lparr>t_dup_ack_count := 0\<rparr>, e1)
               else (t1, e)))"

section \<open>Acknowledgements\<close>

text \<open>
  The loop over the retransmit queue.  Truncating an entry by more bytes than it has would move
  memory outside its array.
\<close>

definition ack_rtt :: "('c, 'a) params \<Rightarrow> retransmit_entry \<Rightarrow> ('c, 'a) conn \<Rightarrow> ('c, 'a) conn" where
  "ack_rtt P entry = (\<lambda>(t, e).
    if t_rtt_measuring t \<and> seq_le (t_rtt_seq t) (re_seq_end entry) \<and> re_retransmit_count entry = 0
    then (case update_rtt P (word_of_int ((e_now e - t_rtt_send_time t) div 1000)) (t, e) of
            (t1, e1) \<Rightarrow> (t1\<lparr>t_rtt_measuring := False\<rparr>, e1))
    else (t, e))"

fun ack_queue ::
  "('c, 'a) params \<Rightarrow> u32 \<Rightarrow> retransmit_entry list \<Rightarrow> ('c, 'a) conn \<Rightarrow> ('c, 'a) conn option" where
  "ack_queue P ack_num [] (t, e) = Some (t\<lparr>t_retransmit_queue := []\<rparr>, e)"
| "ack_queue P ack_num (entry # rest) (t, e) =
    (if seq_le (re_seq_end entry) ack_num then ack_queue P ack_num rest (ack_rtt P entry (t, e))
     else if seq_lt (re_seq_start entry) ack_num then
       let confirmed = unat (ack_num - re_seq_start entry) in
       if confirmed \<le> TCP_MSS_MAX then
         if confirmed > length (re_data entry) then None
         else Some (t\<lparr>t_retransmit_queue :=
                entry\<lparr>re_data := drop confirmed (re_data entry), re_seq_start := ack_num\<rparr> # rest\<rparr>, e)
       else Some (t\<lparr>t_retransmit_queue := entry\<lparr>re_data := [], re_seq_start := ack_num\<rparr> # rest\<rparr>, e)
     else Some (t\<lparr>t_retransmit_queue := entry # rest\<rparr>, e))"

definition make_sample :: "('c, 'a) params \<Rightarrow> u64 \<Rightarrow> u64 \<Rightarrow> u32 \<Rightarrow> 'c tcb \<Rightarrow> tcp_sample" where
  "make_sample P now_us interval_us cwnd t =
     \<lparr>sa_timestamp_us = now_us,
      sa_rtt_us = (if t_last_rtt_us t > 0 then t_last_rtt_us t else t_srtt_us t),
      sa_min_rtt_us = t_min_rtt_us t, sa_srtt_us = t_srtt_us t, sa_cwnd = cwnd,
      sa_ssthresh = (case t_congestion t of Some c \<Rightarrow> cg_ssthresh (p_cc P) c | None \<Rightarrow> 0xFFFFFFFF),
      sa_bytes_in_flight = (if t_snd_nxt t > t_snd_una t then t_snd_nxt t - t_snd_una t else 0),
      sa_delivery_rate = p_rate P (t_bytes_acked_period t) interval_us,
      sa_send_rate = p_rate P (t_bytes_sent_period t) interval_us,
      sa_loss_detected = (if t_packets_lost_period t > 0 then 1 else 0),
      sa_timeout_occurred = 0, sa_ecn_ce_count = t_ecn_ce_period t,
      sa_is_app_limited = (if sb_empty (t_send_buffer t) then 1 else 0),
      sa_packets_sent = t_packets_sent_period t, sa_packets_lost = t_packets_lost_period t\<rparr>"

definition sample_cwnd :: "('c, 'a) params \<Rightarrow> 'c tcb \<Rightarrow> u32 option" where
  "sample_cwnd P t =
    (case t_congestion t of
       Some c \<Rightarrow> if op_mss (t_options t) = 0 then None
                 else Some (cg_cwnd (p_cc P) c div ucast (op_mss (t_options t)))
     | None \<Rightarrow> Some 1)"

definition push_sample :: "('c, 'a) params \<Rightarrow> ('c, 'a) conn \<Rightarrow> ('c, 'a) conn option" where
  "push_sample P = (\<lambda>(t, e).
    if p_metrics_buf P \<and> t_bytes_sent_period t > 0 then
      let now_us = word_of_int (e_now e div 1000) in
      if now_us - t_last_sample_time_us t \<ge> SAMPLE_INTERVAL_US then
        let interval_us = (if t_last_sample_time_us t > 0 then now_us - t_last_sample_time_us t
                           else SAMPLE_INTERVAL_US)
        in do {
          cwnd \<leftarrow> sample_cwnd P t;
          Some (t\<lparr>t_last_sample_time_us := now_us, t_packets_sent_period := 0,
                  t_packets_lost_period := 0, t_ecn_ce_period := 0, t_bytes_sent_period := 0,
                  t_bytes_acked_period := 0\<rparr>,
                e\<lparr>e_samples := e_samples e @ [make_sample P now_us interval_us cwnd t]\<rparr>)
        }
      else Some (t, e)
    else Some (t, e))"

definition process_ack ::
  "('c, 'a) params \<Rightarrow> u32 \<Rightarrow> u16 \<Rightarrow> ('c, 'a) conn \<Rightarrow> ('c, 'a) conn option" where
  "process_ack P ack_num window = (\<lambda>(t, e).
    let old_wnd = t_snd_wnd t in
    case check_dup_ack P ack_num (t\<lparr>t_snd_wnd := ucast window\<rparr>, e) of (t1, e1) \<Rightarrow>
    if \<not> seq_gt ack_num (t_snd_una t1) then
      if old_wnd = 0 \<and> window > 0 then send_buffered_data P (t1, e1) else Some (t1, e1)
    else do {
      let bytes_acked = ack_num - t_snd_una t1;
      let t2 = t1\<lparr>t_snd_una := ack_num\<rparr>;
      cc \<leftarrow> (case t_congestion t2 of
               Some c \<Rightarrow> if bytes_acked > 0
                         then map_option Some (cg_on_ack (p_cc P) bytes_acked (t_srtt_us t2) c)
                         else Some (Some c)
             | None \<Rightarrow> Some None);
      let t3 = t2\<lparr>t_congestion := cc, t_bytes_acked_period := t_bytes_acked_period t2 + bytes_acked\<rparr>;
      (t4, e4) \<leftarrow> ack_queue P ack_num (t_retransmit_queue t3) (t3, e1);
      let t5 = t4\<lparr>t_dup_ack_count := 0, t_last_ack_num := ack_num\<rparr>;
      c6 \<leftarrow> (if bytes_acked > 0 then send_buffered_data P (t5, e4) else Some (t5, e4));
      push_sample P c6
    })"

section \<open>Retransmission\<close>

definition retransmit_flags :: "'c tcb \<Rightarrow> u8" where
  "retransmit_flags t =
    (if t_state t = SYN_SENT then SYN
     else if t_state t = SYN_RCVD then SYN OR ACK
     else if t_state t = FIN_WAIT_1 \<or> t_state t = LAST_ACK then FIN OR ACK
     else 0)"

definition resend_entry :: "('c, 'a) params \<Rightarrow> 'c tcb \<Rightarrow> retransmit_entry \<Rightarrow> 'a env \<Rightarrow> 'a env" where
  "resend_entry P t entry e =
    (if re_data entry \<noteq> []
     then raw_send P t (ACK OR PSH) (re_seq_start entry)
            (take (unat (op_mss (t_options t))) (re_data entry)) e
     else if retransmit_flags t \<noteq> 0 then raw_send P t (retransmit_flags t) (re_seq_start entry) [] e
     else e)"

definition check_retransmit :: "('c, 'a) params \<Rightarrow> ('c, 'a) conn \<Rightarrow> ('c, 'a) conn option" where
  "check_retransmit P = (\<lambda>(t, e).
    case t_retransmit_queue t of
      [] \<Rightarrow> Some (t, e)
    | entry # rest \<Rightarrow>
        if e_now e < re_timeout entry then Some (t, e)
        else
          let entry1 = entry\<lparr>re_retransmit_count := re_retransmit_count entry + 1\<rparr>;
              t1 = t\<lparr>t_retransmit_queue := entry1 # rest,
                     t_congestion := (case t_congestion t of
                        Some (CCReno r) \<Rightarrow> Some (CCReno (reno_on_timeout r)) | c \<Rightarrow> c)\<rparr>
          in
          if re_retransmit_count entry1 > op_max_retransmit (t_options t1) then do {
            (t2, e2) \<leftarrow> (if t_on_close t1 then run_callback P OnClose (t1, e) else Some (t1, e));
            Some (t2\<lparr>t_state := CLOSED\<rparr>, e2)
          }
          else
            let rto = min (t_rto_us t1 * 2) 60000000;
                t2 = t1\<lparr>t_packets_lost_period := t_packets_lost_period t1 + 1, t_rto_us := rto,
                       t_retransmit_queue :=
                         entry1\<lparr>re_timeout := e_now e + uint rto * 1000\<rparr> # rest\<rparr>
            in Some (t2\<lparr>t_rtt_measuring := False\<rparr>, resend_entry P t2 entry1 e))"

end
