(* ===== verification/Tcp_Sender.thy ===== *)
theory Tcp_Sender
  imports Tcp_Ack
begin

text \<open>
  What the sender guarantees.  The bytes the application handed over and the peer has not yet
  acknowledged are, in order, the payloads of the retransmit queue followed by the send buffer;
  the entries of the queue tile the sequence space from \<open>snd_una\<close> to \<open>snd_nxt\<close> without gap or
  overlap.  Sending moves bytes from the buffer to the queue, an acknowledgement removes a prefix.
\<close>

section \<open>One segment\<close>

lemma advance_snd_nxt_frame [simp]:
  "t_options (advance_snd_nxt flags data now t) = t_options t"
  "t_tuple (advance_snd_nxt flags data now t) = t_tuple t"
  "t_state (advance_snd_nxt flags data now t) = t_state t"
  "t_passive_open (advance_snd_nxt flags data now t) = t_passive_open t"
  "t_snd_una (advance_snd_nxt flags data now t) = t_snd_una t"
  "t_snd_wnd (advance_snd_nxt flags data now t) = t_snd_wnd t"
  "t_iss (advance_snd_nxt flags data now t) = t_iss t"
  "t_rcv_nxt (advance_snd_nxt flags data now t) = t_rcv_nxt t"
  "t_rcv_wnd (advance_snd_nxt flags data now t) = t_rcv_wnd t"
  "t_irs (advance_snd_nxt flags data now t) = t_irs t"
  "t_congestion (advance_snd_nxt flags data now t) = t_congestion t"
  "t_srtt_us (advance_snd_nxt flags data now t) = t_srtt_us t"
  "t_rttvar_us (advance_snd_nxt flags data now t) = t_rttvar_us t"
  "t_rto_us (advance_snd_nxt flags data now t) = t_rto_us t"
  "t_last_rtt_us (advance_snd_nxt flags data now t) = t_last_rtt_us t"
  "t_ooo_queue (advance_snd_nxt flags data now t) = t_ooo_queue t"
  "t_ooo_size (advance_snd_nxt flags data now t) = t_ooo_size t"
  "t_dup_ack_count (advance_snd_nxt flags data now t) = t_dup_ack_count t"
  "t_last_ack_num (advance_snd_nxt flags data now t) = t_last_ack_num t"
  "t_send_buffer (advance_snd_nxt flags data now t) = t_send_buffer t"
  "t_recv_buffer (advance_snd_nxt flags data now t) = t_recv_buffer t"
  "t_on_connect (advance_snd_nxt flags data now t) = t_on_connect t"
  "t_on_receive (advance_snd_nxt flags data now t) = t_on_receive t"
  "t_on_close (advance_snd_nxt flags data now t) = t_on_close t"
  "t_zwp_needed (advance_snd_nxt flags data now t) = t_zwp_needed t"
  "t_zwp_time (advance_snd_nxt flags data now t) = t_zwp_time t"
  "t_delayed_ack_pending (advance_snd_nxt flags data now t) = t_delayed_ack_pending t"
  "t_delayed_ack_time (advance_snd_nxt flags data now t) = t_delayed_ack_time t"
  "t_close_pending (advance_snd_nxt flags data now t) = t_close_pending t"
  "t_min_rtt_us (advance_snd_nxt flags data now t) = t_min_rtt_us t"
  "t_last_sample_time_us (advance_snd_nxt flags data now t) = t_last_sample_time_us t"
  "t_packets_lost_period (advance_snd_nxt flags data now t) = t_packets_lost_period t"
  "t_ecn_ce_period (advance_snd_nxt flags data now t) = t_ecn_ce_period t"
  "t_bytes_acked_period (advance_snd_nxt flags data now t) = t_bytes_acked_period t"
  "t_retransmit_queue (advance_snd_nxt flags data now t) = t_retransmit_queue t"
  by (simp_all add: advance_snd_nxt_def Let_def)

lemma count_sent_frame [simp]:
  "t_options (count_sent n t) = t_options t"
  "t_tuple (count_sent n t) = t_tuple t"
  "t_state (count_sent n t) = t_state t"
  "t_passive_open (count_sent n t) = t_passive_open t"
  "t_snd_una (count_sent n t) = t_snd_una t"
  "t_snd_wnd (count_sent n t) = t_snd_wnd t"
  "t_iss (count_sent n t) = t_iss t"
  "t_rcv_nxt (count_sent n t) = t_rcv_nxt t"
  "t_rcv_wnd (count_sent n t) = t_rcv_wnd t"
  "t_irs (count_sent n t) = t_irs t"
  "t_congestion (count_sent n t) = t_congestion t"
  "t_srtt_us (count_sent n t) = t_srtt_us t"
  "t_rttvar_us (count_sent n t) = t_rttvar_us t"
  "t_rto_us (count_sent n t) = t_rto_us t"
  "t_last_rtt_us (count_sent n t) = t_last_rtt_us t"
  "t_ooo_queue (count_sent n t) = t_ooo_queue t"
  "t_ooo_size (count_sent n t) = t_ooo_size t"
  "t_dup_ack_count (count_sent n t) = t_dup_ack_count t"
  "t_last_ack_num (count_sent n t) = t_last_ack_num t"
  "t_send_buffer (count_sent n t) = t_send_buffer t"
  "t_recv_buffer (count_sent n t) = t_recv_buffer t"
  "t_on_connect (count_sent n t) = t_on_connect t"
  "t_on_receive (count_sent n t) = t_on_receive t"
  "t_on_close (count_sent n t) = t_on_close t"
  "t_zwp_needed (count_sent n t) = t_zwp_needed t"
  "t_zwp_time (count_sent n t) = t_zwp_time t"
  "t_delayed_ack_pending (count_sent n t) = t_delayed_ack_pending t"
  "t_delayed_ack_time (count_sent n t) = t_delayed_ack_time t"
  "t_close_pending (count_sent n t) = t_close_pending t"
  "t_min_rtt_us (count_sent n t) = t_min_rtt_us t"
  "t_last_sample_time_us (count_sent n t) = t_last_sample_time_us t"
  "t_packets_lost_period (count_sent n t) = t_packets_lost_period t"
  "t_ecn_ce_period (count_sent n t) = t_ecn_ce_period t"
  "t_bytes_acked_period (count_sent n t) = t_bytes_acked_period t"
  "t_snd_nxt (count_sent n t) = t_snd_nxt t"
  "t_retransmit_queue (count_sent n t) = t_retransmit_queue t"
  by (simp_all add: count_sent_def)

lemma enqueue_entry_frame [simp]:
  "t_options (enqueue_entry seq data now t) = t_options t"
  "t_tuple (enqueue_entry seq data now t) = t_tuple t"
  "t_state (enqueue_entry seq data now t) = t_state t"
  "t_passive_open (enqueue_entry seq data now t) = t_passive_open t"
  "t_snd_una (enqueue_entry seq data now t) = t_snd_una t"
  "t_snd_wnd (enqueue_entry seq data now t) = t_snd_wnd t"
  "t_iss (enqueue_entry seq data now t) = t_iss t"
  "t_rcv_nxt (enqueue_entry seq data now t) = t_rcv_nxt t"
  "t_rcv_wnd (enqueue_entry seq data now t) = t_rcv_wnd t"
  "t_irs (enqueue_entry seq data now t) = t_irs t"
  "t_congestion (enqueue_entry seq data now t) = t_congestion t"
  "t_srtt_us (enqueue_entry seq data now t) = t_srtt_us t"
  "t_rttvar_us (enqueue_entry seq data now t) = t_rttvar_us t"
  "t_rto_us (enqueue_entry seq data now t) = t_rto_us t"
  "t_last_rtt_us (enqueue_entry seq data now t) = t_last_rtt_us t"
  "t_ooo_queue (enqueue_entry seq data now t) = t_ooo_queue t"
  "t_ooo_size (enqueue_entry seq data now t) = t_ooo_size t"
  "t_dup_ack_count (enqueue_entry seq data now t) = t_dup_ack_count t"
  "t_last_ack_num (enqueue_entry seq data now t) = t_last_ack_num t"
  "t_send_buffer (enqueue_entry seq data now t) = t_send_buffer t"
  "t_recv_buffer (enqueue_entry seq data now t) = t_recv_buffer t"
  "t_on_connect (enqueue_entry seq data now t) = t_on_connect t"
  "t_on_receive (enqueue_entry seq data now t) = t_on_receive t"
  "t_on_close (enqueue_entry seq data now t) = t_on_close t"
  "t_zwp_needed (enqueue_entry seq data now t) = t_zwp_needed t"
  "t_zwp_time (enqueue_entry seq data now t) = t_zwp_time t"
  "t_delayed_ack_pending (enqueue_entry seq data now t) = t_delayed_ack_pending t"
  "t_delayed_ack_time (enqueue_entry seq data now t) = t_delayed_ack_time t"
  "t_close_pending (enqueue_entry seq data now t) = t_close_pending t"
  "t_min_rtt_us (enqueue_entry seq data now t) = t_min_rtt_us t"
  "t_last_sample_time_us (enqueue_entry seq data now t) = t_last_sample_time_us t"
  "t_packets_lost_period (enqueue_entry seq data now t) = t_packets_lost_period t"
  "t_ecn_ce_period (enqueue_entry seq data now t) = t_ecn_ce_period t"
  "t_bytes_acked_period (enqueue_entry seq data now t) = t_bytes_acked_period t"
  "t_snd_nxt (enqueue_entry seq data now t) = t_snd_nxt t"
  by (simp_all add: enqueue_entry_def Let_def)

lemma transmit_frame [simp]:
  "e_now (transmit dst seg e) = e_now e" "e_app (transmit dst seg e) = e_app e"
  "e_samples (transmit dst seg e) = e_samples e" "e_rtts (transmit dst seg e) = e_rtts e"
  "e_out (transmit dst seg e) = e_out e @ [(dst, seg)]"
  by (simp_all add: transmit_def emit_def Let_def)

definition entry_for :: "u8 \<Rightarrow> bytes \<Rightarrow> 'c tcb \<Rightarrow> 'a env \<Rightarrow> retransmit_entry" where
  "entry_for flags data t e =
     \<lparr>re_seq_start = (if flags AND SYN \<noteq> 0 then t_snd_una t else t_snd_nxt t),
      re_seq_end = t_snd_nxt (advance_snd_nxt flags data (e_now e) t), re_data = data,
      re_send_time = e_now e, re_timeout = e_now e + uint (t_rto_us t) * 1000,
      re_retransmit_count = 0\<rparr>"

definition queued :: "u8 \<Rightarrow> bytes \<Rightarrow> bool" where
  "queued flags data \<longleftrightarrow> data \<noteq> [] \<or> flags AND (SYN OR FIN) \<noteq> 0"

lemma enqueue_entry_queue [simp]:
  "t_retransmit_queue (enqueue_entry seq data now t) = t_retransmit_queue t @
     [\<lparr>re_seq_start = seq, re_seq_end = t_snd_nxt t, re_data = data, re_send_time = now,
       re_timeout = now + uint (t_rto_us t) * 1000, re_retransmit_count = 0\<rparr>]"
  by (simp add: enqueue_entry_def Let_def)

lemma build_segment_Some:
  "length data \<le> 1460 \<Longrightarrow> \<exists>seg. build_segment t flags seq data = Some seg"
  by (simp add: build_segment_def tcp_build_def Let_def)

lemma send_segment_eq:
  assumes "length data \<le> 1460"
  shows "\<exists>seg. build_segment t flags (re_seq_start (entry_for flags data t e)) data = Some seg \<and>
     send_segment P flags data (t, e) =
       (let t1 = advance_snd_nxt flags data (e_now e) t;
            t2 = (if p_send_cb P then count_sent (length data) t1 else t1);
            e2 = (if p_send_cb P then transmit (tu_remote_ip (t_tuple t)) seg e else e)
        in (if queued flags data
            then enqueue_entry (re_seq_start (entry_for flags data t e)) data (e_now e) t2 else t2, e2))"
proof -
  let ?seq = "if flags AND SYN \<noteq> 0 then t_snd_una t else t_snd_nxt t"
  have seq: "re_seq_start (entry_for flags data t e) = ?seq" by (simp add: entry_for_def)
  obtain seg where seg: "build_segment t flags ?seq data = Some seg"
    using build_segment_Some [OF assms] by blast
  have "\<not> length data > 1500 - 20 - 20" using assms by simp
  then have "send_segment P flags data (t, e) =
       (let t1 = advance_snd_nxt flags data (e_now e) t;
            t2 = (if p_send_cb P then count_sent (length data) t1 else t1);
            e2 = (if p_send_cb P then transmit (tu_remote_ip (t_tuple t)) seg e else e)
        in (if queued flags data then enqueue_entry ?seq data (e_now e) t2 else t2, e2))"
    unfolding send_segment_def prod.case Let_def seg option.case queued_def by auto
  with seg show ?thesis unfolding seq by blast
qed

lemma send_segment_long: "1460 < length data \<Longrightarrow> send_segment P flags data c = c"
  by (cases c) (simp add: send_segment_def)

lemma send_segment_frame [simp]:
  "t_options (fst (send_segment P flags data c)) = t_options (fst c)"
  "t_tuple (fst (send_segment P flags data c)) = t_tuple (fst c)"
  "t_state (fst (send_segment P flags data c)) = t_state (fst c)"
  "t_passive_open (fst (send_segment P flags data c)) = t_passive_open (fst c)"
  "t_snd_una (fst (send_segment P flags data c)) = t_snd_una (fst c)"
  "t_snd_wnd (fst (send_segment P flags data c)) = t_snd_wnd (fst c)"
  "t_iss (fst (send_segment P flags data c)) = t_iss (fst c)"
  "t_rcv_nxt (fst (send_segment P flags data c)) = t_rcv_nxt (fst c)"
  "t_rcv_wnd (fst (send_segment P flags data c)) = t_rcv_wnd (fst c)"
  "t_irs (fst (send_segment P flags data c)) = t_irs (fst c)"
  "t_congestion (fst (send_segment P flags data c)) = t_congestion (fst c)"
  "t_srtt_us (fst (send_segment P flags data c)) = t_srtt_us (fst c)"
  "t_rttvar_us (fst (send_segment P flags data c)) = t_rttvar_us (fst c)"
  "t_rto_us (fst (send_segment P flags data c)) = t_rto_us (fst c)"
  "t_last_rtt_us (fst (send_segment P flags data c)) = t_last_rtt_us (fst c)"
  "t_ooo_queue (fst (send_segment P flags data c)) = t_ooo_queue (fst c)"
  "t_ooo_size (fst (send_segment P flags data c)) = t_ooo_size (fst c)"
  "t_dup_ack_count (fst (send_segment P flags data c)) = t_dup_ack_count (fst c)"
  "t_last_ack_num (fst (send_segment P flags data c)) = t_last_ack_num (fst c)"
  "t_send_buffer (fst (send_segment P flags data c)) = t_send_buffer (fst c)"
  "t_recv_buffer (fst (send_segment P flags data c)) = t_recv_buffer (fst c)"
  "t_on_connect (fst (send_segment P flags data c)) = t_on_connect (fst c)"
  "t_on_receive (fst (send_segment P flags data c)) = t_on_receive (fst c)"
  "t_on_close (fst (send_segment P flags data c)) = t_on_close (fst c)"
  "t_zwp_needed (fst (send_segment P flags data c)) = t_zwp_needed (fst c)"
  "t_zwp_time (fst (send_segment P flags data c)) = t_zwp_time (fst c)"
  "t_delayed_ack_pending (fst (send_segment P flags data c)) = t_delayed_ack_pending (fst c)"
  "t_delayed_ack_time (fst (send_segment P flags data c)) = t_delayed_ack_time (fst c)"
  "t_close_pending (fst (send_segment P flags data c)) = t_close_pending (fst c)"
  "t_min_rtt_us (fst (send_segment P flags data c)) = t_min_rtt_us (fst c)"
  "t_last_sample_time_us (fst (send_segment P flags data c)) = t_last_sample_time_us (fst c)"
  "t_packets_lost_period (fst (send_segment P flags data c)) = t_packets_lost_period (fst c)"
  "t_ecn_ce_period (fst (send_segment P flags data c)) = t_ecn_ce_period (fst c)"
  "t_bytes_acked_period (fst (send_segment P flags data c)) = t_bytes_acked_period (fst c)"
  "e_now (snd (send_segment P flags data c)) = e_now (snd c)"
  "e_app (snd (send_segment P flags data c)) = e_app (snd c)"
  "e_samples (snd (send_segment P flags data c)) = e_samples (snd c)"
  "e_rtts (snd (send_segment P flags data c)) = e_rtts (snd c)"
proof -
  obtain t e where c: "c = (t, e)" by (cases c)
  consider "1460 < length data" | seg where "send_segment P flags data (t, e) =
       (let t1 = advance_snd_nxt flags data (e_now e) t;
            t2 = (if p_send_cb P then count_sent (length data) t1 else t1);
            e2 = (if p_send_cb P then transmit (tu_remote_ip (t_tuple t)) seg e else e)
        in (if queued flags data
            then enqueue_entry (re_seq_start (entry_for flags data t e)) data (e_now e) t2 else t2, e2))"
    using send_segment_eq [of data t flags e P] by (meson not_le)
  note cases = this
  show "t_options (fst (send_segment P flags data c)) = t_options (fst c)"
    "t_tuple (fst (send_segment P flags data c)) = t_tuple (fst c)"
    "t_state (fst (send_segment P flags data c)) = t_state (fst c)"
    "t_passive_open (fst (send_segment P flags data c)) = t_passive_open (fst c)"
    "t_snd_una (fst (send_segment P flags data c)) = t_snd_una (fst c)"
    "t_snd_wnd (fst (send_segment P flags data c)) = t_snd_wnd (fst c)"
    "t_iss (fst (send_segment P flags data c)) = t_iss (fst c)"
    "t_rcv_nxt (fst (send_segment P flags data c)) = t_rcv_nxt (fst c)"
    "t_rcv_wnd (fst (send_segment P flags data c)) = t_rcv_wnd (fst c)"
    "t_irs (fst (send_segment P flags data c)) = t_irs (fst c)"
    "t_congestion (fst (send_segment P flags data c)) = t_congestion (fst c)"
    "t_srtt_us (fst (send_segment P flags data c)) = t_srtt_us (fst c)"
    "t_rttvar_us (fst (send_segment P flags data c)) = t_rttvar_us (fst c)"
    "t_rto_us (fst (send_segment P flags data c)) = t_rto_us (fst c)"
    "t_last_rtt_us (fst (send_segment P flags data c)) = t_last_rtt_us (fst c)"
    "t_ooo_queue (fst (send_segment P flags data c)) = t_ooo_queue (fst c)"
    "t_ooo_size (fst (send_segment P flags data c)) = t_ooo_size (fst c)"
    "t_dup_ack_count (fst (send_segment P flags data c)) = t_dup_ack_count (fst c)"
    "t_last_ack_num (fst (send_segment P flags data c)) = t_last_ack_num (fst c)"
    "t_send_buffer (fst (send_segment P flags data c)) = t_send_buffer (fst c)"
    "t_recv_buffer (fst (send_segment P flags data c)) = t_recv_buffer (fst c)"
    "t_on_connect (fst (send_segment P flags data c)) = t_on_connect (fst c)"
    "t_on_receive (fst (send_segment P flags data c)) = t_on_receive (fst c)"
    "t_on_close (fst (send_segment P flags data c)) = t_on_close (fst c)"
    "t_zwp_needed (fst (send_segment P flags data c)) = t_zwp_needed (fst c)"
    "t_zwp_time (fst (send_segment P flags data c)) = t_zwp_time (fst c)"
    "t_delayed_ack_pending (fst (send_segment P flags data c)) = t_delayed_ack_pending (fst c)"
    "t_delayed_ack_time (fst (send_segment P flags data c)) = t_delayed_ack_time (fst c)"
    "t_close_pending (fst (send_segment P flags data c)) = t_close_pending (fst c)"
    "t_min_rtt_us (fst (send_segment P flags data c)) = t_min_rtt_us (fst c)"
    "t_last_sample_time_us (fst (send_segment P flags data c)) = t_last_sample_time_us (fst c)"
    "t_packets_lost_period (fst (send_segment P flags data c)) = t_packets_lost_period (fst c)"
    "t_ecn_ce_period (fst (send_segment P flags data c)) = t_ecn_ce_period (fst c)"
    "t_bytes_acked_period (fst (send_segment P flags data c)) = t_bytes_acked_period (fst c)"
    "e_now (snd (send_segment P flags data c)) = e_now (snd c)"
    "e_app (snd (send_segment P flags data c)) = e_app (snd c)"
    "e_samples (snd (send_segment P flags data c)) = e_samples (snd c)"
    "e_rtts (snd (send_segment P flags data c)) = e_rtts (snd c)"
    by (cases rule: cases; simp add: c send_segment_long Let_def)+
qed

lemma send_segment_queue:
  assumes "length data \<le> 1460"
  shows "t_snd_nxt (fst (send_segment P flags data c)) = re_seq_end (entry_for flags data (fst c) (snd c))"
    and "t_retransmit_queue (fst (send_segment P flags data c)) =
         t_retransmit_queue (fst c) @ (if queued flags data then [entry_for flags data (fst c) (snd c)] else [])"
proof -
  obtain t e where c: "c = (t, e)" by (cases c)
  obtain seg where s: "send_segment P flags data (t, e) =
       (let t1 = advance_snd_nxt flags data (e_now e) t;
            t2 = (if p_send_cb P then count_sent (length data) t1 else t1);
            e2 = (if p_send_cb P then transmit (tu_remote_ip (t_tuple t)) seg e else e)
        in (if queued flags data
            then enqueue_entry (re_seq_start (entry_for flags data t e)) data (e_now e) t2 else t2, e2))"
    using send_segment_eq [OF assms, of t flags e P] by blast
  show "t_snd_nxt (fst (send_segment P flags data c)) = re_seq_end (entry_for flags data (fst c) (snd c))"
    "t_retransmit_queue (fst (send_segment P flags data c)) =
       t_retransmit_queue (fst c) @ (if queued flags data then [entry_for flags data (fst c) (snd c)] else [])"
    by (simp_all add: c s Let_def entry_for_def)
qed

section \<open>What sending leaves alone\<close>

definition sent_only :: "'c tcb \<Rightarrow> 'c tcb \<Rightarrow> bool" where
  "sent_only t t' \<longleftrightarrow>
     t_options t' = t_options t \<and>
     t_tuple t' = t_tuple t \<and>
     t_state t' = t_state t \<and>
     t_passive_open t' = t_passive_open t \<and>
     t_snd_una t' = t_snd_una t \<and>
     t_snd_wnd t' = t_snd_wnd t \<and>
     t_iss t' = t_iss t \<and>
     t_rcv_nxt t' = t_rcv_nxt t \<and>
     t_rcv_wnd t' = t_rcv_wnd t \<and>
     t_irs t' = t_irs t \<and>
     t_congestion t' = t_congestion t \<and>
     t_srtt_us t' = t_srtt_us t \<and>
     t_rttvar_us t' = t_rttvar_us t \<and>
     t_rto_us t' = t_rto_us t \<and>
     t_last_rtt_us t' = t_last_rtt_us t \<and>
     t_ooo_queue t' = t_ooo_queue t \<and>
     t_ooo_size t' = t_ooo_size t \<and>
     t_dup_ack_count t' = t_dup_ack_count t \<and>
     t_last_ack_num t' = t_last_ack_num t \<and>
     t_recv_buffer t' = t_recv_buffer t \<and>
     t_on_connect t' = t_on_connect t \<and>
     t_on_receive t' = t_on_receive t \<and>
     t_on_close t' = t_on_close t \<and>
     t_zwp_needed t' = t_zwp_needed t \<and>
     t_zwp_time t' = t_zwp_time t \<and>
     t_delayed_ack_pending t' = t_delayed_ack_pending t \<and>
     t_delayed_ack_time t' = t_delayed_ack_time t \<and>
     t_close_pending t' = t_close_pending t \<and>
     t_min_rtt_us t' = t_min_rtt_us t \<and>
     t_last_sample_time_us t' = t_last_sample_time_us t \<and>
     t_packets_lost_period t' = t_packets_lost_period t \<and>
     t_ecn_ce_period t' = t_ecn_ce_period t \<and>
     t_bytes_acked_period t' = t_bytes_acked_period t"

definition env_sent_only :: "'a env \<Rightarrow> 'a env \<Rightarrow> bool" where
  "env_sent_only e e' \<longleftrightarrow>
     e_now e' = e_now e \<and> e_app e' = e_app e \<and> e_samples e' = e_samples e \<and> e_rtts e' = e_rtts e"

lemma sent_only_refl [simp]: "sent_only t t" and env_sent_only_refl [simp]: "env_sent_only e e"
  by (simp_all add: sent_only_def env_sent_only_def)

lemma sent_only_callbacks:
  "sent_only t t' \<Longrightarrow> t_on_receive t' = t_on_receive t \<and> t_on_close t' = t_on_close t"
  by (simp add: sent_only_def)

lemma sent_only_trans: "sent_only t t' \<Longrightarrow> sent_only t' t'' \<Longrightarrow> sent_only t t''"
  by (simp add: sent_only_def)

lemma env_sent_only_trans: "env_sent_only e e' \<Longrightarrow> env_sent_only e' e'' \<Longrightarrow> env_sent_only e e''"
  by (simp add: env_sent_only_def)

lemma send_segment_sent_only [simp]:
  "sent_only (fst c) (fst (send_segment P flags data c))"
  "env_sent_only (snd c) (snd (send_segment P flags data c))"
  by (simp_all add: sent_only_def env_sent_only_def)

section \<open>The tiling of the sequence space\<close>

definition esize :: "retransmit_entry \<Rightarrow> nat" where
  "esize en = (if re_data en = [] then 1 else length (re_data en))"

definition entry_ok :: "retransmit_entry \<Rightarrow> bool" where
  "entry_ok en \<longleftrightarrow> length (re_data en) \<le> 1460 \<and> re_seq_end en = re_seq_start en + of_nat (esize en)"

fun chain :: "u32 \<Rightarrow> retransmit_entry list \<Rightarrow> u32 \<Rightarrow> bool" where
  "chain a [] b \<longleftrightarrow> a = b"
| "chain a (en # q) b \<longleftrightarrow> re_seq_start en = a \<and> entry_ok en \<and> chain (re_seq_end en) q b"

definition qsize :: "retransmit_entry list \<Rightarrow> nat" where
  "qsize q = sum_list (map esize q)"

definition qbytes :: "retransmit_entry list \<Rightarrow> bytes" where
  "qbytes q = concat (map re_data q)"

lemma qsize_simps [simp]:
  "qsize [] = 0" "qsize (en # q) = esize en + qsize q" "qsize (q @ q') = qsize q + qsize q'"
  by (simp_all add: qsize_def)

lemma qbytes_simps [simp]:
  "qbytes [] = []" "qbytes (en # q) = re_data en @ qbytes q" "qbytes (q @ q') = qbytes q @ qbytes q'"
  by (simp_all add: qbytes_def)

lemma chain_snoc: "chain a q b \<Longrightarrow> entry_ok en \<Longrightarrow> re_seq_start en = b \<Longrightarrow> chain a (q @ [en]) (re_seq_end en)"
  by (induction a q b rule: chain.induct) auto

lemma chain_end: "chain a q b \<Longrightarrow> b = a + of_nat (qsize q)"
  by (induction a q b rule: chain.induct) (auto simp: entry_ok_def)

lemma chain_unat: "chain a q b \<Longrightarrow> qsize q < 4294967296 \<Longrightarrow> unat (b - a) = qsize q"
  using chain_end [of a q b] by (simp add: unat_of_nat_small)

section \<open>The invariant\<close>

definition snd_bytes :: "'c tcb \<Rightarrow> bytes" where
  "snd_bytes t = qbytes (t_retransmit_queue t) @ sb_contents (t_send_buffer t)"

definition sender_inv :: "nat \<Rightarrow> 'c tcb \<Rightarrow> bool" where
  "sender_inv k t \<longleftrightarrow>
     sb_live (t_send_buffer t) \<and> chain (t_snd_una t) (t_retransmit_queue t) (t_snd_nxt t) \<and>
     qsize (t_retransmit_queue t) \<le> 65535 + k \<and> k \<le> 1073741824 \<and> unat (t_snd_wnd t) \<le> 65535 \<and>
     0 < unat (op_mss (t_options t)) \<and> unat (op_mss (t_options t)) \<le> 1460"

lemma sender_inv_mono: "sender_inv k t \<Longrightarrow> k \<le> k' \<Longrightarrow> k' \<le> 1073741824 \<Longrightarrow> sender_inv k' t"
  by (simp add: sender_inv_def)

lemma flag_tests [simp]:
  "(ACK OR PSH) AND SYN = 0" "(ACK OR PSH) AND FIN = 0" "(ACK OR PSH) AND (SYN OR FIN) = 0"
  "(FIN OR ACK) AND SYN = 0" "(FIN OR ACK) AND FIN \<noteq> 0" "(FIN OR ACK) AND (SYN OR FIN) \<noteq> 0"
  "ACK AND SYN = 0" "ACK AND FIN = 0" "ACK AND (SYN OR FIN) = 0"
  "SYN AND SYN \<noteq> 0" "SYN AND FIN = 0" "SYN AND (SYN OR FIN) \<noteq> 0"
  "FIN \<noteq> 0" "SYN \<noteq> 0" "ACK \<noteq> 0" "RST \<noteq> 0"
  "(SYN OR ACK) AND SYN \<noteq> 0" "(SYN OR ACK) AND FIN = 0" "(SYN OR ACK) AND (SYN OR FIN) \<noteq> 0"
  by (simp_all add: tcp_flags)

lemma send_data_segment:
  assumes "data \<noteq> []" and "length data \<le> 1460"
  shows "\<exists>en. re_seq_start en = t_snd_nxt (fst c) \<and> entry_ok en \<and> re_data en = data \<and>
     t_retransmit_queue (fst (send_segment P (ACK OR PSH) data c)) = t_retransmit_queue (fst c) @ [en] \<and>
     t_snd_nxt (fst (send_segment P (ACK OR PSH) data c)) = re_seq_end en"
  using assms send_segment_queue [OF assms(2), of P "ACK OR PSH" c]
  by (intro exI [of _ "entry_for (ACK OR PSH) data (fst c) (snd c)"])
     (simp add: entry_for_def queued_def entry_ok_def esize_def advance_snd_nxt_def Let_def)

lemma send_fin_segment:
  "\<exists>en. re_seq_start en = t_snd_nxt (fst c) \<and> entry_ok en \<and> re_data en = [] \<and>
     t_retransmit_queue (fst (send_segment P (FIN OR ACK) [] c)) = t_retransmit_queue (fst c) @ [en] \<and>
     t_snd_nxt (fst (send_segment P (FIN OR ACK) [] c)) = re_seq_end en"
  using send_segment_queue [of "[]" P "FIN OR ACK" c]
  by (intro exI [of _ "entry_for (FIN OR ACK) [] (fst c) (snd c)"])
     (simp add: entry_for_def queued_def entry_ok_def esize_def advance_snd_nxt_def Let_def)

lemma send_pure_ack [simp]:
  "t_retransmit_queue (fst (send_segment P ACK [] c)) = t_retransmit_queue (fst c)"
  "t_snd_nxt (fst (send_segment P ACK [] c)) = t_snd_nxt (fst c)"
  using send_segment_queue [of "[]" P ACK c]
  by (simp_all add: entry_for_def queued_def advance_snd_nxt_def Let_def)

section \<open>The sending loop\<close>

lemma available_window_bound:
  assumes "sender_inv k t"
  shows "unat (available_window ops t) + qsize (t_retransmit_queue t) \<le>
         max (qsize (t_retransmit_queue t)) (unat (effective_window ops t))"
    and "unat (effective_window ops t) \<le> 65535"
proof -
  let ?q = "qsize (t_retransmit_queue t)"
  have q: "unat (t_snd_nxt t - t_snd_una t) = ?q"
    using assms by (intro chain_unat) (auto simp: sender_inv_def)
  show "unat (available_window ops t) + ?q \<le> max ?q (unat (effective_window ops t))"
  proof (cases "effective_window ops t > t_snd_nxt t - t_snd_una t")
    case True
    then have "unat (available_window ops t) = unat (effective_window ops t) - ?q"
      using q by (simp add: available_window_def Let_def unat_sub_small order_less_imp_le)
    then show ?thesis using True q by (simp add: word_less_nat_alt)
  next
    case False
    then show ?thesis by (simp add: available_window_def Let_def)
  qed
  have "unat (effective_window ops t) \<le> unat (t_snd_wnd t)"
    by (simp add: effective_window_def unat_min)
  then show "unat (effective_window ops t) \<le> 65535" using assms by (simp add: sender_inv_def)
qed

lemma sent_only_window:
  "sent_only t t' \<Longrightarrow> effective_window ops t' = effective_window ops t"
  by (simp add: effective_window_def sent_only_def)

lemma sent_only_sb: "sent_only t (t'\<lparr>t_send_buffer := b\<rparr>) \<longleftrightarrow> sent_only t t'"
  by (simp add: sent_only_def)

definition loop_post :: "'c cc_ops \<Rightarrow> nat \<Rightarrow> 'c tcb \<Rightarrow> 'a env \<Rightarrow> 'c tcb \<Rightarrow> 'a env \<Rightarrow> bool" where
  "loop_post ops k t e t' e' \<longleftrightarrow>
     sender_inv k t' \<and> snd_bytes t' = snd_bytes t \<and> sent_only t t' \<and> env_sent_only e e' \<and>
     qsize (t_retransmit_queue t') \<le> max (qsize (t_retransmit_queue t)) (unat (effective_window ops t)) \<and>
     (sb_empty (t_send_buffer t') \<or> available_window ops t' = 0)"

lemma send_loop_correct:
  "sender_inv k t \<Longrightarrow> \<exists>t' e'. send_loop P t e = Some (t', e') \<and> loop_post (p_cc P) k t e t' e'"
proof (induction "sb_size (t_send_buffer t)" arbitrary: t e rule: less_induct)
  case less
  let ?b = "t_send_buffer t" and ?w = "available_window (p_cc P) t"
  note inv = less.prems
  show ?case
  proof (cases "sb_empty ?b \<or> ?w = 0")
    case True
    then have "send_loop P t e = Some (t, e)" by (subst send_loop.simps) (auto simp: Let_def)
    then show ?thesis using True inv by (simp add: loop_post_def)
  next
    case False
    define n where "n = min (min (length (sb_peek_contiguous ?b)) (unat ?w)) (unat (op_mss (t_options t)))"
    define data where "data = take n (sb_peek_contiguous ?b)"
    have live: "sb_live ?b" and mss: "0 < unat (op_mss (t_options t))" "unat (op_mss (t_options t)) \<le> 1460"
      using inv by (auto simp: sender_inv_def)
    have ne: "sb_contents ?b \<noteq> []" using False by (simp add: sb_empty_def)
    have "sb_peek_contiguous ?b \<noteq> []" using sb.front_law [OF live ne] by blast
    then have n: "0 < n" "n \<le> length (sb_peek_contiguous ?b)" "n \<le> 1460" "n \<le> unat ?w"
      using mss False by (auto simp: n_def unat_gt_0)
    have data: "data \<noteq> []" "length data = n" "length data \<le> 1460"
      using n by (auto simp: data_def)
    obtain buf where c: "sb_consume ?b n = Some (n, buf)" "sb_live buf" "sb_contents ?b = data @ sb_contents buf"
      using sb.discard_front [OF live ne n(2)] by (auto simp: data_def)
    obtain t1 e1 where s: "send_segment P (ACK OR PSH) data (t, e) = (t1, e1)" by fastforce
    note so = send_segment_sent_only [of "(t, e)" P "ACK OR PSH" data, unfolded s fst_conv snd_conv]
    obtain en where en: "re_seq_start en = t_snd_nxt t" "entry_ok en" "re_data en = data"
      "t_retransmit_queue t1 = t_retransmit_queue t @ [en]" "t_snd_nxt t1 = re_seq_end en"
      using send_data_segment [OF data(1,3), of "(t, e)" P] s by auto
    have b1: "t_send_buffer t1 = ?b" using send_segment_frame [of P "ACK OR PSH" data "(t, e)"] s by simp
    let ?t2 = "t1\<lparr>t_send_buffer := buf\<rparr>"
    have es: "esize en = n" using data en(3) by (simp add: esize_def)
    have step: "send_loop P t e = send_loop P ?t2 e1"
      using False c(1) s b1 by (subst send_loop.simps) (simp add: Let_def n_def [symmetric] data_def [symmetric])
    have fr: "t_snd_una t1 = t_snd_una t" "t_snd_wnd t1 = t_snd_wnd t" "t_options t1 = t_options t"
      using so(1) by (simp_all add: sent_only_def)
    have q: "qsize (t_retransmit_queue t) + n \<le> max (qsize (t_retransmit_queue t)) (unat (effective_window (p_cc P) t))"
      using available_window_bound(1) [OF inv, of "p_cc P"] n(4) by linarith
    have "unat (effective_window (p_cc P) t) \<le> 65535" by (rule available_window_bound(2) [OF inv])
    then have "sender_inv k ?t2"
      using inv c(2) en fr es q chain_snoc [of "t_snd_una t" "t_retransmit_queue t" "t_snd_nxt t" en]
      by (auto simp: sender_inv_def)
    moreover have "sb_size buf < sb_size ?b"
      using arg_cong [OF c(3), of length] data n by simp
    ultimately obtain t' e' where r: "send_loop P ?t2 e1 = Some (t', e')" "loop_post (p_cc P) k ?t2 e1 t' e'"
      using less.hyps [of ?t2 e1] by auto
    have "snd_bytes ?t2 = snd_bytes t" by (simp add: snd_bytes_def en c(3))
    moreover have so2: "sent_only t ?t2" using so(1) by (simp add: sent_only_sb)
    moreover have "effective_window (p_cc P) ?t2 = effective_window (p_cc P) t" by (rule sent_only_window [OF so2])
    moreover have "qsize (t_retransmit_queue ?t2) = qsize (t_retransmit_queue t) + n" by (simp add: en es)
    ultimately have "loop_post (p_cc P) k t e t' e'"
      using r(2) so(2) q sent_only_trans [OF so2] env_sent_only_trans [OF so(2)]
      by (auto simp: loop_post_def)
    then show ?thesis using step r(1) by simp
  qed
qed

section \<open>What the application's calls leave alone\<close>

definition close_step :: "tcp_state \<Rightarrow> tcp_state \<Rightarrow> bool" where
  "close_step s s' \<longleftrightarrow> s' = s \<or> s = ESTABLISHED \<and> s' = FIN_WAIT_1 \<or> s = CLOSE_WAIT \<and> s' = LAST_ACK"

definition app_frame :: "'c tcb \<Rightarrow> 'c tcb \<Rightarrow> bool" where
  "app_frame t t' \<longleftrightarrow> close_step (t_state t) (t_state t') \<and>
     t_options t' = t_options t \<and>
     t_tuple t' = t_tuple t \<and>
     t_passive_open t' = t_passive_open t \<and>
     t_snd_una t' = t_snd_una t \<and>
     t_snd_wnd t' = t_snd_wnd t \<and>
     t_iss t' = t_iss t \<and>
     t_rcv_nxt t' = t_rcv_nxt t \<and>
     t_irs t' = t_irs t \<and>
     t_congestion t' = t_congestion t \<and>
     t_srtt_us t' = t_srtt_us t \<and>
     t_rttvar_us t' = t_rttvar_us t \<and>
     t_rto_us t' = t_rto_us t \<and>
     t_last_rtt_us t' = t_last_rtt_us t \<and>
     t_ooo_queue t' = t_ooo_queue t \<and>
     t_ooo_size t' = t_ooo_size t \<and>
     t_dup_ack_count t' = t_dup_ack_count t \<and>
     t_last_ack_num t' = t_last_ack_num t \<and>
     t_recv_buffer t' = t_recv_buffer t \<and>
     t_on_connect t' = t_on_connect t \<and>
     t_zwp_needed t' = t_zwp_needed t \<and>
     t_zwp_time t' = t_zwp_time t \<and>
     t_delayed_ack_pending t' = t_delayed_ack_pending t \<and>
     t_delayed_ack_time t' = t_delayed_ack_time t \<and>
     t_min_rtt_us t' = t_min_rtt_us t \<and>
     t_last_sample_time_us t' = t_last_sample_time_us t \<and>
     t_packets_lost_period t' = t_packets_lost_period t \<and>
     t_ecn_ce_period t' = t_ecn_ce_period t \<and>
     t_bytes_acked_period t' = t_bytes_acked_period t"

lemma app_frame_refl [simp]: "app_frame t t"
  by (simp add: app_frame_def close_step_def)

lemma close_step_trans: "close_step s s' \<Longrightarrow> close_step s' s'' \<Longrightarrow> close_step s s''"
  by (auto simp: close_step_def)

lemma app_frame_trans: "app_frame t t' \<Longrightarrow> app_frame t' t'' \<Longrightarrow> app_frame t t''"
  using close_step_trans [of "t_state t" "t_state t'" "t_state t''"] by (simp add: app_frame_def)

lemma sent_only_app_frame: "sent_only t t' \<Longrightarrow> app_frame t t'"
  by (simp add: sent_only_def app_frame_def close_step_def)

lemma app_frame_updates [simp]:
  "app_frame t (t'\<lparr>t_rcv_wnd := w\<rparr>) \<longleftrightarrow> app_frame t t'"
  "app_frame t (t'\<lparr>t_close_pending := c\<rparr>) \<longleftrightarrow> app_frame t t'"
  "app_frame t (t'\<lparr>t_send_buffer := b\<rparr>) \<longleftrightarrow> app_frame t t'"
  "app_frame t (t'\<lparr>t_on_receive := r, t_on_close := cl\<rparr>) \<longleftrightarrow> app_frame t t'"
  by (simp_all add: app_frame_def)

lemma sender_inv_updates [simp]:
  "sender_inv k (t\<lparr>t_rcv_wnd := w\<rparr>) \<longleftrightarrow> sender_inv k t"
  "sender_inv k (t\<lparr>t_close_pending := c\<rparr>) \<longleftrightarrow> sender_inv k t"
  "sender_inv k (t\<lparr>t_state := st\<rparr>) \<longleftrightarrow> sender_inv k t"
  "sender_inv k (t\<lparr>t_on_receive := r, t_on_close := cl\<rparr>) \<longleftrightarrow> sender_inv k t"
  "sender_inv k (t\<lparr>t_rcv_nxt := n\<rparr>) \<longleftrightarrow> sender_inv k t"
  by (simp_all add: sender_inv_def)

lemma snd_bytes_updates [simp]:
  "snd_bytes (t\<lparr>t_rcv_wnd := w\<rparr>) = snd_bytes t" "snd_bytes (t\<lparr>t_close_pending := c\<rparr>) = snd_bytes t"
  "snd_bytes (t\<lparr>t_state := st\<rparr>) = snd_bytes t" "snd_bytes (t\<lparr>t_rcv_nxt := n\<rparr>) = snd_bytes t"
  "snd_bytes (t\<lparr>t_on_receive := r, t_on_close := cl\<rparr>) = snd_bytes t"
  by (simp_all add: snd_bytes_def)

lemma send_fin_inv:
  assumes "sender_inv k t" and "k < 1073741824" and "send_segment P (FIN OR ACK) [] (t, e) = (t', e')"
  shows "sender_inv (Suc k) t'" and "snd_bytes t' = snd_bytes t" and "sent_only t t'" and "env_sent_only e e'"
    and "t_send_buffer t' = t_send_buffer t"
proof -
  obtain en where en: "re_seq_start en = t_snd_nxt t" "entry_ok en" "re_data en = []"
    "t_retransmit_queue t' = t_retransmit_queue t @ [en]" "t_snd_nxt t' = re_seq_end en"
    using send_fin_segment [of "(t, e)" P] assms(3) by auto
  show so: "sent_only t t'" "env_sent_only e e'"
    using send_segment_sent_only [of "(t, e)" P "FIN OR ACK" "[]"] assms(3) by simp_all
  show b: "t_send_buffer t' = t_send_buffer t"
    using send_segment_frame [of P "FIN OR ACK" "[]" "(t, e)"] assms(3) by simp
  show "snd_bytes t' = snd_bytes t" by (simp add: snd_bytes_def en b)
  have "esize en = 1" using en(3) by (simp add: esize_def)
  then show "sender_inv (Suc k) t'"
    using assms(1,2) en b so chain_snoc [of "t_snd_una t" "t_retransmit_queue t" "t_snd_nxt t" en]
    by (auto simp: sender_inv_def sent_only_def)
qed

definition call_post :: "nat \<Rightarrow> 'c tcb \<Rightarrow> 'a env \<Rightarrow> 'c tcb \<Rightarrow> 'a env \<Rightarrow> bool" where
  "call_post k t e t' e' \<longleftrightarrow> sender_inv k t' \<and> app_frame t t' \<and> env_sent_only e e' \<and>
     t_on_receive t' = t_on_receive t \<and> t_on_close t' = t_on_close t"

lemma finish_pending_close_post:
  assumes "sender_inv k t" and "k < 1073741824" and "finish_pending_close P (t, e) = (t', e')"
  shows "call_post (Suc k) t e t' e'" and "snd_bytes t' = snd_bytes t" and "t_send_buffer t' = t_send_buffer t"
    and "t_state t' = t_state t \<Longrightarrow> sender_inv k t'"
proof -
  have k: "sender_inv (Suc k) t" by (rule sender_inv_mono [OF assms(1)]) (use assms(2) in auto)
  have fin: "call_post (Suc k) t e (t1\<lparr>t_state := s\<rparr>) e1 \<and> snd_bytes (t1\<lparr>t_state := s\<rparr>) = snd_bytes t \<and>
      t_send_buffer (t1\<lparr>t_state := s\<rparr>) = t_send_buffer t"
    if "send_segment P (FIN OR ACK) [] (t\<lparr>t_close_pending := False\<rparr>, e) = (t1, e1)"
      and "close_step (t_state t) s" for t1 e1 s
  proof -
    have "sender_inv k (t\<lparr>t_close_pending := False\<rparr>)" using assms(1) by simp
    note f = send_fin_inv [OF this assms(2) that(1)]
    have "app_frame t (t1\<lparr>t_state := s\<rparr>)"
      using f(3) that(2) by (simp add: sent_only_def app_frame_def)
    then show ?thesis using f sent_only_callbacks [OF f(3)] by (simp add: call_post_def)
  qed
  have "call_post (Suc k) t e t' e' \<and> snd_bytes t' = snd_bytes t \<and> t_send_buffer t' = t_send_buffer t \<and>
      (t_state t' = t_state t \<longrightarrow> sender_inv k t')"
  proof (cases "sb_empty (t_send_buffer t) \<and> t_close_pending t")
    case True
    obtain t1 e1 where s: "send_segment P (FIN OR ACK) [] (t\<lparr>t_close_pending := False\<rparr>, e) = (t1, e1)"
      by fastforce
    have eq: "(t', e') = (if t_state t = ESTABLISHED then (t1\<lparr>t_state := FIN_WAIT_1\<rparr>, e1)
        else if t_state t = CLOSE_WAIT then (t1\<lparr>t_state := LAST_ACK\<rparr>, e1)
        else (t\<lparr>t_close_pending := False\<rparr>, e))"
      unfolding assms(3) [symmetric] using True s by (simp add: finish_pending_close_def Let_def)
    consider (est) "t_state t = ESTABLISHED" | (cw) "t_state t = CLOSE_WAIT"
      | (other) "t_state t \<noteq> ESTABLISHED" "t_state t \<noteq> CLOSE_WAIT" by blast
    then show ?thesis
    proof cases
      case est
      then show ?thesis using fin [OF s, of FIN_WAIT_1] eq by (simp add: close_step_def)
    next
      case cw
      then show ?thesis using fin [OF s, of LAST_ACK] eq by (simp add: close_step_def)
    next
      case other
      then show ?thesis using eq k assms(1) by (simp add: call_post_def)
    qed
  next
    case False
    have "finish_pending_close P (t, e) = (t, e)"
      unfolding finish_pending_close_def prod.case using False by (rule if_not_P)
    then have "t' = t" "e' = e" using assms(3) by simp_all
    then show ?thesis using k assms(1) by (simp add: call_post_def)
  qed
  then show "call_post (Suc k) t e t' e'" "snd_bytes t' = snd_bytes t" "t_send_buffer t' = t_send_buffer t"
      "t_state t' = t_state t \<Longrightarrow> sender_inv k t'"
    by auto
qed

lemma env_sent_only_call: "env_sent_only e e' \<Longrightarrow> call_post k t e' t' e'' \<Longrightarrow> call_post k t e t' e''"
  using env_sent_only_trans unfolding call_post_def by blast

lemma call_post_trans: "call_post k t e t' e' \<Longrightarrow> call_post k' t' e' t'' e'' \<Longrightarrow> call_post k' t e t'' e''"
  using app_frame_trans [of t t' t''] env_sent_only_trans [of e e' e''] by (simp add: call_post_def)

lemma send_buffered_data_post:
  assumes inv: "sender_inv k t" and k: "k < 1073741824"
  shows "\<exists>t' e'. send_buffered_data P (t, e) = Some (t', e') \<and> call_post (Suc k) t e t' e' \<and>
           snd_bytes t' = snd_bytes t \<and> (t_state t' = t_state t \<longrightarrow> sender_inv k t')"
proof -
  obtain t1 e1 where l: "send_loop P t e = Some (t1, e1)" "loop_post (p_cc P) k t e t1 e1"
    using send_loop_correct [OF inv] by blast
  let ?t2 = "t1\<lparr>t_rcv_wnd := backpressure_window t1\<rparr>"
  obtain t' e' where f: "finish_pending_close P (?t2, e1) = (t', e')" by fastforce
  have i: "sender_inv k ?t2" using l(2) by (simp add: loop_post_def)
  note fp = finish_pending_close_post [OF i k f]
  have "app_frame t ?t2" using l(2) sent_only_app_frame [of t t1] by (simp add: loop_post_def)
  moreover have "env_sent_only e e1" using l(2) by (simp add: loop_post_def)
  moreover have "t_on_receive t1 = t_on_receive t \<and> t_on_close t1 = t_on_close t"
    using l(2) by (simp add: loop_post_def sent_only_callbacks)
  ultimately have "call_post k t e ?t2 e1" using i by (simp add: call_post_def)
  then have "call_post (Suc k) t e t' e'" using fp(1) by (rule call_post_trans)
  moreover have "snd_bytes t' = snd_bytes t" using fp(2) l(2) by (simp add: loop_post_def)
  moreover have "t_state t1 = t_state t" using l(2) by (simp add: loop_post_def sent_only_def)
  then have "t_state t' = t_state t \<longrightarrow> sender_inv k t'" using fp(4) by simp
  ultimately show ?thesis using l(1) f by (simp add: send_buffered_data_def)
qed

section \<open>Send and close\<close>

lemma buffer_data_post:
  assumes "sender_inv k t" and "length bs \<le> sb_available (t_send_buffer t)"
  shows "sender_inv k (buffer_data bs t)" and "snd_bytes (buffer_data bs t) = snd_bytes t @ bs"
    and "sent_only t (buffer_data bs t)"
proof -
  let ?b = "t_send_buffer t"
  obtain n b' where w: "sb_write ?b bs = (n, b')" by fastforce
  have live: "sb_live ?b" using assms(1) by (simp add: sender_inv_def)
  note pl = sb.put_law [OF live w]
  have "n = length bs" using pl assms(2) by (simp add: sb_available_def)
  then have c: "sb_contents b' = sb_contents ?b @ bs" "sb_live b'" using pl by auto
  show "sender_inv k (buffer_data bs t)" using assms(1) c(2) by (simp add: buffer_data_def w sender_inv_def)
  show "snd_bytes (buffer_data bs t) = snd_bytes t @ bs" by (simp add: buffer_data_def w snd_bytes_def c(1))
  show "sent_only t (buffer_data bs t)" by (simp add: buffer_data_def sent_only_def)
qed

lemma call_post_mono: "call_post k t e t' e' \<Longrightarrow> k \<le> k' \<Longrightarrow> k' \<le> 1073741824 \<Longrightarrow> call_post k' t e t' e'"
  using sender_inv_mono [of k t' k'] by (simp add: call_post_def)

lemma sent_call_post:
  "sender_inv k t' \<Longrightarrow> sent_only t t' \<Longrightarrow> env_sent_only e e' \<Longrightarrow> call_post k t e t' e'"
  using sent_only_app_frame [of t t'] sent_only_callbacks [of t t'] by (simp add: call_post_def)

lemma send_now_post:
  assumes inv: "sender_inv k t" and k: "k < 1073741824" and w: "available_window (p_cc P) t \<noteq> 0"
    and empty: "sb_contents (t_send_buffer t) = []"
    and acc: "0 < acc" "acc \<le> length data" "acc \<le> sb_available (t_send_buffer t)"
  shows "\<exists>t' e'. send_now P data acc (t, e) = Some (int acc, t', e') \<and> call_post (Suc k) t e t' e' \<and>
           snd_bytes t' = snd_bytes t @ take acc data \<and> (t_state t' = t_state t \<longrightarrow> sender_inv k t')"
proof -
  let ?b = "t_send_buffer t" and ?w = "unat (available_window (p_cc P) t)" and ?mss = "unat (op_mss (t_options t))"
  define n where "n = min (min acc ?w) ?mss"
  have mss: "0 < ?mss" "?mss \<le> 1460" using inv by (auto simp: sender_inv_def)
  have "0 < ?w" using w by (simp add: unat_gt_0)
  then have n: "0 < n" "n \<le> acc" "n \<le> 1460" "n \<le> ?w" using acc mss by (auto simp: n_def)
  have d: "take n data \<noteq> []" "length (take n data) \<le> 1460" "length (take n data) = n" using n acc by auto
  obtain t1 e1 where s: "send_segment P (ACK OR PSH) (take n data) (t, e) = (t1, e1)" by fastforce
  note so = send_segment_sent_only [of "(t, e)" P "ACK OR PSH" "take n data", unfolded s fst_conv snd_conv]
  obtain en where en: "re_seq_start en = t_snd_nxt t" "entry_ok en" "re_data en = take n data"
    "t_retransmit_queue t1 = t_retransmit_queue t @ [en]" "t_snd_nxt t1 = re_seq_end en"
    using send_data_segment [OF d(1,2), of "(t, e)" P] s by auto
  have b1: "t_send_buffer t1 = ?b" using send_segment_frame [of P "ACK OR PSH" "take n data" "(t, e)"] s by simp
  have es: "esize en = n" using d en(3) by (simp add: esize_def)
  have q: "qsize (t_retransmit_queue t) + n \<le> max (qsize (t_retransmit_queue t)) (unat (effective_window (p_cc P) t))"
    using available_window_bound(1) [OF inv, of "p_cc P"] n(4) by linarith
  have "unat (effective_window (p_cc P) t) \<le> 65535" by (rule available_window_bound(2) [OF inv])
  then have i1: "sender_inv k t1"
    using inv en es q so(1) b1 chain_snoc [of "t_snd_una t" "t_retransmit_queue t" "t_snd_nxt t" en]
    by (auto simp: sender_inv_def sent_only_def)
  have y1: "snd_bytes t1 = snd_bytes t @ take n data" by (simp add: snd_bytes_def en b1 empty)
  define rest where "rest = take (acc - n) (drop n data)"
  define t2 where "t2 = (if n < acc then buffer_data rest t1 else t1)"
  have "sender_inv k t2 \<and> snd_bytes t2 = snd_bytes t @ take acc data \<and> sent_only t1 t2"
  proof (cases "n < acc")
    case True
    have "length rest \<le> sb_available (t_send_buffer t1)" using acc by (simp add: rest_def b1)
    note bp = buffer_data_post [OF i1 this]
    have "take n data @ rest = take acc data"
      using n(2) by (simp add: rest_def take_add [symmetric])
    then show ?thesis using bp True y1 by (simp add: t2_def)
  next
    case False
    then have "n = acc" using n(2) by simp
    then show ?thesis using i1 y1 by (simp add: t2_def)
  qed
  then have i2: "sender_inv k t2" and y2: "snd_bytes t2 = snd_bytes t @ take acc data" and f2: "sent_only t1 t2"
    by auto
  have p2: "call_post k t e t2 e1" by (rule sent_call_post [OF i2 sent_only_trans [OF so(1) f2] so(2)])
  have eq: "send_now P data acc (t, e) =
      (if \<not> sb_empty (t_send_buffer t2)
       then Option.bind (send_buffered_data P (t2, e1)) (\<lambda>c. Some (int acc, c))
       else Some (int acc, t2, e1))"
    unfolding send_now_def prod.case Let_def n_def [symmetric] s rest_def [symmetric] t2_def [symmetric] ..
  show ?thesis
  proof (cases "sb_empty (t_send_buffer t2)")
    case True
    then show ?thesis using eq y2 i2 call_post_mono [OF p2, of "Suc k"] k by simp
  next
    case False
    obtain t3 e3 where b: "send_buffered_data P (t2, e1) = Some (t3, e3)" "call_post (Suc k) t2 e1 t3 e3"
      "snd_bytes t3 = snd_bytes t2" "t_state t3 = t_state t2 \<longrightarrow> sender_inv k t3"
      using send_buffered_data_post [OF i2 k, of P e1] by blast
    have "t_state t2 = t_state t" using so(1) f2 by (simp add: sent_only_def)
    then show ?thesis using eq False y2 b(4) call_post_trans [OF p2 b(2)] b(1,3) by simp
  qed
qed

lemma tcp_send_cases:
  fixes t :: "'c tcb" and data :: bytes
  defines "acc \<equiv> min (length data) (sb_available (t_send_buffer t))"
  shows "(\<exists>n. (n = -1 \<or> n = 0) \<and> tcp_send P data (t, e) = Some (n, t, e)) \<or>
    0 < acc \<and> tcp_send P data (t, e) = Some (int acc, buffer_data (take acc data) t, e) \<or>
    0 < acc \<and> sb_empty (t_send_buffer t) \<and> available_window (p_cc P) t \<noteq> 0 \<and>
      tcp_send P data (t, e) = send_now P data acc (t, e)"
proof -
  note unf = tcp_send_def prod.case Let_def
  consider (1) "t_state t \<noteq> ESTABLISHED \<and> t_state t \<noteq> CLOSE_WAIT"
    | (2) "\<not> (t_state t \<noteq> ESTABLISHED \<and> t_state t \<noteq> CLOSE_WAIT)" "length data = 0"
    | (3) "\<not> (t_state t \<noteq> ESTABLISHED \<and> t_state t \<noteq> CLOSE_WAIT)" "length data \<noteq> 0" "sb_available (t_send_buffer t) = 0"
    | (4) "\<not> (t_state t \<noteq> ESTABLISHED \<and> t_state t \<noteq> CLOSE_WAIT)" "length data \<noteq> 0" "sb_available (t_send_buffer t) \<noteq> 0"
    by blast
  then show ?thesis
  proof cases
    case 1
    then have "tcp_send P data (t, e) = Some (-1, t, e)" unfolding unf by (rule if_P)
    then show ?thesis by blast
  next
    case 2
    then have "tcp_send P data (t, e) = Some (0, t, e)" unfolding unf by (simp only: if_False if_True simp_thms)
    then show ?thesis by blast
  next
    case 3
    then have "tcp_send P data (t, e) = Some (-1, t, e)" unfolding unf by (simp only: if_False if_True simp_thms)
    then show ?thesis by blast
  next
    case 4
    let ?nagle = "op_nagle_enabled (t_options t) \<and> t_snd_nxt t \<noteq> t_snd_una t \<and> acc < unat (op_mss (t_options t))"
    have pos: "0 < acc" using 4 by (simp add: acc_def)
    have "tcp_send P data (t, e) =
      (if \<not> sb_empty (t_send_buffer t) then Some (int acc, buffer_data (take acc data) t, e)
       else if ?nagle then Some (int acc, buffer_data (take acc data) t, e)
       else if available_window (p_cc P) t = 0 then Some (int acc, buffer_data (take acc data) t, e)
       else send_now P data acc (t, e))"
      unfolding unf acc_def using 4 by (simp only: if_False)
    then show ?thesis using pos
      by (cases "sb_empty (t_send_buffer t)"; cases ?nagle; cases "available_window (p_cc P) t = 0")
         (simp_all only: simp_thms if_True if_False)
  qed
qed

lemma tcp_send_post:
  assumes inv: "sender_inv k t" and k: "k < 1073741824"
  shows "\<exists>n t' e'. tcp_send P data (t, e) = Some (n, t', e') \<and> call_post (Suc k) t e t' e' \<and>
           - 1 \<le> n \<and> n \<le> int (length data) \<and> snd_bytes t' = snd_bytes t @ take (nat n) data \<and>
           (t_state t' = t_state t \<longrightarrow> sender_inv k t')"
proof -
  define acc where "acc = min (length data) (sb_available (t_send_buffer t))"
  have acc: "acc \<le> length data" "acc \<le> sb_available (t_send_buffer t)" by (simp_all add: acc_def)
  note cases = tcp_send_cases [where t = t and e = e and P = P and data = data, folded acc_def]
  from cases show ?thesis
  proof (elim disjE)
    assume "\<exists>n. (n = -1 \<or> n = 0) \<and> tcp_send P data (t, e) = Some (n, t, e)"
    then obtain n where n: "n = -1 \<or> n = 0" "tcp_send P data (t, e) = Some (n, t, e)" by blast
    have c: "call_post (Suc k) t e t e"
      by (rule call_post_mono [of k]) (use inv k in \<open>simp_all add: call_post_def\<close>)
    have z: "nat n = 0" using n(1) by (elim disjE) simp_all
    show ?thesis
    proof (rule exI [of _ n], rule exI [of _ t], rule exI [of _ e], intro conjI)
      show "snd_bytes t = snd_bytes t @ take (nat n) data" unfolding z by simp
      show "- 1 \<le> n" "n \<le> int (length data)" using n(1) by (elim disjE; simp)+
      show "t_state t = t_state t \<longrightarrow> sender_inv k t" using inv by simp
    qed (rule n(2), rule c)
  next
    assume "0 < acc \<and> tcp_send P data (t, e) = Some (int acc, buffer_data (take acc data) t, e)"
    then have s: "tcp_send P data (t, e) = Some (int acc, buffer_data (take acc data) t, e)" by blast
    have "length (take acc data) \<le> sb_available (t_send_buffer t)" using acc by simp
    note bp = buffer_data_post [OF inv this]
    have "call_post k t e (buffer_data (take acc data) t) e"
      by (rule sent_call_post [OF bp(1) bp(3) env_sent_only_refl])
    from this have "call_post (Suc k) t e (buffer_data (take acc data) t) e"
      by (rule call_post_mono) (use k in simp_all)
    then show ?thesis using s bp(1,2) acc(1)
      by (intro exI [of _ "int acc"] exI [of _ "buffer_data (take acc data) t"] exI [of _ e]) simp
  next
    assume "0 < acc \<and> sb_empty (t_send_buffer t) \<and> available_window (p_cc P) t \<noteq> 0 \<and>
        tcp_send P data (t, e) = send_now P data acc (t, e)"
    then have pos: "0 < acc" and e: "sb_empty (t_send_buffer t)" and w: "available_window (p_cc P) t \<noteq> 0"
      and s: "tcp_send P data (t, e) = send_now P data acc (t, e)" by blast+
    have e0: "sb_contents (t_send_buffer t) = []" using e by (simp add: sb_empty_def)
    obtain t' e' where "send_now P data acc (t, e) = Some (int acc, t', e')" "call_post (Suc k) t e t' e'"
      "snd_bytes t' = snd_bytes t @ take acc data" "t_state t' = t_state t \<longrightarrow> sender_inv k t'"
      using send_now_post [OF inv k w e0 pos acc, of e] by blast
    then show ?thesis using s acc(1)
      by (intro exI [of _ "int acc"] exI [of _ t'] exI [of _ e']) simp
  qed
qed

lemma env_call_def_simps: "env_sent_only e e' \<Longrightarrow> e_now e' = e_now e \<and> e_samples e' = e_samples e \<and> e_rtts e' = e_rtts e"
  by (simp add: env_sent_only_def)

lemma tcp_close_post:
  assumes inv: "sender_inv k t" and k: "Suc k < 1073741824"
  shows "\<exists>d t' e'. tcp_close P (t, e) = Some (d, t', e') \<and> call_post (Suc (Suc k)) t e t' e' \<and>
           snd_bytes t' = snd_bytes t \<and> (d \<longleftrightarrow> t_state t = LISTEN \<or> t_state t = SYN_SENT) \<and>
           (t_state t' = t_state t \<longrightarrow> sender_inv k t')"
proof -
  have base: "call_post (Suc (Suc k)) t e t e"
    by (rule call_post_mono [of k]) (use inv k in \<open>simp_all add: call_post_def\<close>)
  have shut: "\<exists>t' e'. Option.bind (send_buffered_data P (t, e)) (\<lambda>(t1, e1).
        if \<not> sb_empty (t_send_buffer t1) then Some (False, t1\<lparr>t_close_pending := True\<rparr>, e1)
        else case send_segment P (FIN OR ACK) [] (t1, e1) of
               (t2, e2) \<Rightarrow> Some (False, t2\<lparr>t_state := s\<rparr>, e2)) = Some (False, t', e') \<and>
        call_post (Suc (Suc k)) t e t' e' \<and> snd_bytes t' = snd_bytes t \<and> (t_state t' = t_state t \<longrightarrow> sender_inv k t')"
    if st: "(t_state t = ESTABLISHED \<and> s = FIN_WAIT_1) \<or> (t_state t = CLOSE_WAIT \<and> s = LAST_ACK)" for s
  proof -
    obtain t1 e1 where b: "send_buffered_data P (t, e) = Some (t1, e1)" "call_post (Suc k) t e t1 e1"
      "snd_bytes t1 = snd_bytes t" "t_state t1 = t_state t \<longrightarrow> sender_inv k t1"
      using send_buffered_data_post [OF inv, of P e] k by auto
    show ?thesis
    proof (cases "sb_empty (t_send_buffer t1)")
      case False
      have "call_post (Suc (Suc k)) t e t1 e1" by (rule call_post_mono [OF b(2)]) (use k in simp_all)
      then show ?thesis using False b by (simp add: call_post_def)
    next
      case True
      obtain t2 e2 where s: "send_segment P (FIN OR ACK) [] (t1, e1) = (t2, e2)" by fastforce
      have "sender_inv (Suc k) t1" using b(2) by (simp add: call_post_def)
      note f = send_fin_inv [OF this _ s]
      have cs: "close_step (t_state t) (t_state t1)" using b(2) by (simp add: call_post_def app_frame_def)
      have "app_frame t t2" using b(2) f(3) k app_frame_trans sent_only_app_frame
        unfolding call_post_def by blast
      moreover have "t_state (t2\<lparr>t_state := s\<rparr>) = s" by simp
      ultimately have "app_frame t (t2\<lparr>t_state := s\<rparr>)" using st by (auto simp: app_frame_def close_step_def)
      moreover have "env_sent_only e e2"
        using b(2) f(4) k env_sent_only_trans unfolding call_post_def by blast
      moreover have "t_on_receive t2 = t_on_receive t \<and> t_on_close t2 = t_on_close t"
        using b(2) sent_only_callbacks [OF f(3)] k by (simp add: call_post_def)
      moreover have "s \<noteq> t_state t" using st by auto
      ultimately show ?thesis using True b s f k by (simp add: call_post_def)
    qed
  qed
  consider (est) "t_state t = ESTABLISHED" | (cw) "t_state t = CLOSE_WAIT"
    | (other) "t_state t \<noteq> ESTABLISHED" "t_state t \<noteq> CLOSE_WAIT" by blast
  then show ?thesis
  proof cases
    case est
    have "tcp_close P (t, e) = Option.bind (send_buffered_data P (t, e)) (\<lambda>(t1, e1).
        if \<not> sb_empty (t_send_buffer t1) then Some (False, t1\<lparr>t_close_pending := True\<rparr>, e1)
        else case send_segment P (FIN OR ACK) [] (t1, e1) of
               (t2, e2) \<Rightarrow> Some (False, t2\<lparr>t_state := FIN_WAIT_1\<rparr>, e2))"
      by (simp add: tcp_close_def est)
    moreover obtain t' e' where "Option.bind (send_buffered_data P (t, e)) (\<lambda>(t1, e1).
        if \<not> sb_empty (t_send_buffer t1) then Some (False, t1\<lparr>t_close_pending := True\<rparr>, e1)
        else case send_segment P (FIN OR ACK) [] (t1, e1) of
               (t2, e2) \<Rightarrow> Some (False, t2\<lparr>t_state := FIN_WAIT_1\<rparr>, e2)) = Some (False, t', e')"
      "call_post (Suc (Suc k)) t e t' e'" "snd_bytes t' = snd_bytes t" "t_state t' = t_state t \<longrightarrow> sender_inv k t'"
      using shut [of FIN_WAIT_1] est by blast
    ultimately have "tcp_close P (t, e) = Some (False, t', e') \<and>
        call_post (Suc (Suc k)) t e t' e' \<and> snd_bytes t' = snd_bytes t \<and> (t_state t' = t_state t \<longrightarrow> sender_inv k t')"
      by (simp only: simp_thms)
    then show ?thesis using est by (intro exI [of _ False] exI [of _ t'] exI [of _ e']) simp
  next
    case cw
    have "tcp_close P (t, e) = Option.bind (send_buffered_data P (t, e)) (\<lambda>(t1, e1).
        if \<not> sb_empty (t_send_buffer t1) then Some (False, t1\<lparr>t_close_pending := True\<rparr>, e1)
        else case send_segment P (FIN OR ACK) [] (t1, e1) of
               (t2, e2) \<Rightarrow> Some (False, t2\<lparr>t_state := LAST_ACK\<rparr>, e2))"
      by (simp add: tcp_close_def cw)
    moreover obtain t' e' where "Option.bind (send_buffered_data P (t, e)) (\<lambda>(t1, e1).
        if \<not> sb_empty (t_send_buffer t1) then Some (False, t1\<lparr>t_close_pending := True\<rparr>, e1)
        else case send_segment P (FIN OR ACK) [] (t1, e1) of
               (t2, e2) \<Rightarrow> Some (False, t2\<lparr>t_state := LAST_ACK\<rparr>, e2)) = Some (False, t', e')"
      "call_post (Suc (Suc k)) t e t' e'" "snd_bytes t' = snd_bytes t" "t_state t' = t_state t \<longrightarrow> sender_inv k t'"
      using shut [of LAST_ACK] cw by blast
    ultimately have "tcp_close P (t, e) = Some (False, t', e') \<and>
        call_post (Suc (Suc k)) t e t' e' \<and> snd_bytes t' = snd_bytes t \<and> (t_state t' = t_state t \<longrightarrow> sender_inv k t')"
      by (simp only: simp_thms)
    then show ?thesis using cw by (intro exI [of _ False] exI [of _ t'] exI [of _ e']) simp
  next
    case other
    then have "tcp_close P (t, e) = Some (t_state t = LISTEN \<or> t_state t = SYN_SENT, t, e)"
      by (cases "t_state t") (simp_all add: tcp_close_def)
    then show ?thesis using base inv by simp
  qed
qed

section \<open>Callbacks\<close>

definition env_call :: "'a env \<Rightarrow> 'a env \<Rightarrow> bool" where
  "env_call e e' \<longleftrightarrow> e_now e' = e_now e \<and> e_samples e' = e_samples e \<and> e_rtts e' = e_rtts e"

definition cb_post :: "nat \<Rightarrow> 'c tcb \<Rightarrow> 'a env \<Rightarrow> 'c tcb \<Rightarrow> 'a env \<Rightarrow> bool" where
  "cb_post k t e t' e' \<longleftrightarrow>
     sender_inv k t' \<and> app_frame t t' \<and> env_call e e' \<and> (\<exists>sent. snd_bytes t' = snd_bytes t @ sent)"

lemma cb_post_step:
  assumes "app_frame t t'" and "env_sent_only e e'" and "snd_bytes t' = snd_bytes t @ sent"
    and "cb_post k' t' (e'\<lparr>e_app := a\<rparr>) t'' e''"
  shows "cb_post k' t e t'' e''"
proof -
  have "app_frame t t''" using assms(1,4) app_frame_trans unfolding cb_post_def by blast
  then show ?thesis
    using assms by (auto simp: cb_post_def env_call_def env_sent_only_def)
qed

text \<open>
  In a state whose control block \<open>close\<close> does not delete, the calls of a callback go through;
  each adds at most two sequence numbers that carry no data.
\<close>

lemma run_calls_post:
  "sender_inv k t \<Longrightarrow> t_state t \<noteq> LISTEN \<Longrightarrow> t_state t \<noteq> SYN_SENT \<Longrightarrow> k + 2 * length calls < 1073741824 \<Longrightarrow>
   \<exists>t' e'. run_calls P calls (t, e) = Some (t', e') \<and> cb_post (k + 2 * length calls) t e t' e'"
proof (induction calls arbitrary: k t e)
  case Nil
  then show ?case by (auto simp: cb_post_def env_call_def)
next
  case (Cons call calls)
  have st: "t_state t' \<noteq> LISTEN \<and> t_state t' \<noteq> SYN_SENT" if "app_frame t t'" for t' :: "'a tcb"
    using that Cons.prems(2,3) by (auto simp: app_frame_def close_step_def)
  show ?case
  proof (cases call)
    case (CallSend data)
    obtain n t1 e1 where s: "tcp_send P data (t, e) = Some (n, t1, e1)" "call_post (Suc k) t e t1 e1"
      "snd_bytes t1 = snd_bytes t @ take (nat n) data"
      using tcp_send_post [OF Cons.prems(1), of P data e] Cons.prems(4) by auto
    let ?e = "e1\<lparr>e_app := p_result P (t_tuple t1) n (e_app e1)\<rparr>"
    have "sender_inv (Suc (Suc k)) t1" and fr: "app_frame t t1" "env_sent_only e e1"
      using s(2) Cons.prems(4) sender_inv_mono [of "Suc k" t1 "Suc (Suc k)"] by (auto simp: call_post_def)
    then obtain t' e' where r: "run_calls P calls (t1, ?e) = Some (t', e')"
      "cb_post (Suc (Suc k) + 2 * length calls) t1 ?e t' e'"
      using Cons.IH [of "Suc (Suc k)" t1 ?e] st Cons.prems(4) by auto
    then show ?thesis using s cb_post_step [OF fr s(3) r(2)] CallSend by simp
  next
    case CallClose
    obtain t1 e1 where s: "tcp_close P (t, e) = Some (False, t1, e1)" "call_post (Suc (Suc k)) t e t1 e1"
      "snd_bytes t1 = snd_bytes t"
      using tcp_close_post [OF Cons.prems(1), of P e] Cons.prems by fastforce
    have i1: "sender_inv (Suc (Suc k)) t1" and fr: "app_frame t t1" "env_sent_only e e1"
      using s(2) by (auto simp: call_post_def)
    then obtain t' e' where r: "run_calls P calls (t1, e1) = Some (t', e')"
      "cb_post (Suc (Suc k) + 2 * length calls) t1 e1 t' e'"
      using Cons.IH [of "Suc (Suc k)" t1 e1] st Cons.prems(4) by auto
    have "e1 = e1\<lparr>e_app := e_app e1\<rparr>" by simp
    then show ?thesis using s fr r cb_post_step [of t t1 e e1 "[]" _ "e_app e1" t' e'] CallClose by simp
  next
    case (CallSetCallbacks r cl)
    let ?t = "t\<lparr>t_on_receive := r, t_on_close := cl\<rparr>"
    have k2: "sender_inv (Suc (Suc k)) ?t"
      using Cons.prems(1,4) sender_inv_mono [of k t "Suc (Suc k)"] by simp
    then obtain t' e' where x: "run_calls P calls (?t, e) = Some (t', e')"
      "cb_post (Suc (Suc k) + 2 * length calls) ?t e t' e'"
      using Cons.IH [of "Suc (Suc k)" ?t e] Cons.prems by auto
    show ?thesis using x cb_post_step [of t ?t e e "[]" _ "e_app e" t' e'] CallSetCallbacks by simp
  qed
qed

text \<open>An application that makes at most \<open>m\<close> calls in a callback.\<close>

definition calls_bounded :: "('c, 'a) params \<Rightarrow> nat \<Rightarrow> bool" where
  "calls_bounded P m \<longleftrightarrow> (\<forall>tu ev a. length (snd (p_app P tu ev a)) \<le> m)"

lemma run_callback_post:
  assumes "sender_inv k t" and "t_state t \<noteq> LISTEN" and "t_state t \<noteq> SYN_SENT"
    and "calls_bounded P m" and "k + 2 * m < 1073741824"
  shows "\<exists>t' e'. run_callback P ev (t, e) = Some (t', e') \<and> cb_post (k + 2 * m) t e t' e'"
proof -
  obtain a calls where c: "p_app P (t_tuple t) ev (e_app e) = (a, calls)" by fastforce
  have "length (snd (p_app P (t_tuple t) ev (e_app e))) \<le> m" using assms(4) unfolding calls_bounded_def by blast
  then have len: "length calls \<le> m" by (simp add: c)
  then obtain t' e' where r: "run_calls P calls (t, e\<lparr>e_app := a\<rparr>) = Some (t', e')"
    "cb_post (k + 2 * length calls) t (e\<lparr>e_app := a\<rparr>) t' e'"
    using run_calls_post [OF assms(1-3), of calls P "e\<lparr>e_app := a\<rparr>"] assms(5) by auto
  have "cb_post (k + 2 * m) t e t' e'"
    using r(2) len assms(5) sender_inv_mono [of "k + 2 * length calls" t' "k + 2 * m"]
    by (simp add: cb_post_def env_call_def)
  then show ?thesis using c r(1) by (simp add: run_callback_def)
qed

end
