(* ===== verification/Tcp_Acked.thy ===== *)
theory Tcp_Acked
  imports Tcp_Sender
begin

text \<open>
  What an acknowledgement does.  A queue stands for a list of symbols, one per sequence number: a
  byte, or \<open>None\<close> for a SYN or FIN.  An acknowledgement \<open>d\<close> numbers ahead of \<open>snd_una\<close> drops
  exactly the first \<open>d\<close> symbols, also when it ends within an entry; the new window is then used.
\<close>

section \<open>Symbols\<close>

definition esyms :: "retransmit_entry \<Rightarrow> u8 option list" where
  "esyms en = (if re_data en = [] then [None] else map Some (re_data en))"

definition qsyms :: "retransmit_entry list \<Rightarrow> u8 option list" where
  "qsyms q = concat (map esyms q)"

fun sym_bytes :: "u8 option list \<Rightarrow> bytes" where
  "sym_bytes [] = []"
| "sym_bytes (None # xs) = sym_bytes xs"
| "sym_bytes (Some b # xs) = b # sym_bytes xs"

lemma qsyms_simps [simp]: "qsyms [] = []" "qsyms (en # q) = esyms en @ qsyms q"
  by (simp_all add: qsyms_def)

lemma length_esyms [simp]: "length (esyms en) = esize en"
  by (simp add: esyms_def esize_def)

lemma length_qsyms [simp]: "length (qsyms q) = qsize q"
  by (induction q) simp_all

lemma sym_bytes_append [simp]: "sym_bytes (xs @ ys) = sym_bytes xs @ sym_bytes ys"
  by (induction xs rule: sym_bytes.induct) simp_all

lemma sym_bytes_map_Some [simp]: "sym_bytes (map Some bs) = bs"
  by (induction bs) simp_all

lemma sym_bytes_qsyms [simp]: "sym_bytes (qsyms q) = qbytes q"
  by (induction q) (simp_all add: esyms_def)

lemma sym_bytes_split: "sym_bytes (take d (qsyms q)) @ sym_bytes (drop d (qsyms q)) = qbytes q"
  by (simp flip: sym_bytes_append)

section \<open>Round-trip measurement\<close>

definition rtt_only :: "'c tcb \<Rightarrow> 'c tcb \<Rightarrow> bool" where
  "rtt_only t t' \<longleftrightarrow> (\<exists>l m s v r b. t' = t\<lparr>t_last_rtt_us := l, t_min_rtt_us := m, t_srtt_us := s,
     t_rttvar_us := v, t_rto_us := r, t_rtt_measuring := b\<rparr>)"

definition env_rtt_only :: "'a env \<Rightarrow> 'a env \<Rightarrow> bool" where
  "env_rtt_only e e' \<longleftrightarrow> (\<exists>rs. e' = e\<lparr>e_rtts := rs\<rparr>)"

lemma rtt_only_refl [simp]: "rtt_only t t"
  unfolding rtt_only_def
  by (rule exI [of _ "t_last_rtt_us t"], rule exI [of _ "t_min_rtt_us t"], rule exI [of _ "t_srtt_us t"],
      rule exI [of _ "t_rttvar_us t"], rule exI [of _ "t_rto_us t"], rule exI [of _ "t_rtt_measuring t"]) simp

lemma env_rtt_only_refl [simp]: "env_rtt_only e e"
  unfolding env_rtt_only_def by (rule exI [of _ "e_rtts e"]) simp

lemma rtt_only_trans:
  assumes "rtt_only t t'" and "rtt_only t' t''"
  shows "rtt_only t t''"
proof -
  obtain l m s v r b where 1: "t' = t\<lparr>t_last_rtt_us := l, t_min_rtt_us := m, t_srtt_us := s,
     t_rttvar_us := v, t_rto_us := r, t_rtt_measuring := b\<rparr>"
    using assms(1) by (auto simp only: rtt_only_def)
  obtain l' m' s' v' r' b' where 2: "t'' = t'\<lparr>t_last_rtt_us := l', t_min_rtt_us := m', t_srtt_us := s',
     t_rttvar_us := v', t_rto_us := r', t_rtt_measuring := b'\<rparr>"
    using assms(2) by (auto simp only: rtt_only_def)
  show ?thesis unfolding rtt_only_def
    by (rule exI [of _ l'], rule exI [of _ m'], rule exI [of _ s'], rule exI [of _ v'],
        rule exI [of _ r'], rule exI [of _ b']) (simp add: 1 2)
qed

lemma env_rtt_only_trans: "env_rtt_only e e' \<Longrightarrow> env_rtt_only e' e'' \<Longrightarrow> env_rtt_only e e''"
  by (auto simp: env_rtt_only_def)

lemma update_rtt_only: "rtt_only t (fst (update_rtt P rtt (t, e)))" "env_rtt_only e (snd (update_rtt P rtt (t, e)))"
proof -
  obtain s v where "smooth_rtt rtt (t_srtt_us t, t_rttvar_us t) = (s, v)" by fastforce
  then have u: "update_rtt P rtt (t, e) =
     (t\<lparr>t_last_rtt_us := rtt, t_min_rtt_us := min_rtt rtt t, t_srtt_us := s, t_rttvar_us := v,
        t_rto_us := clamp_rto (s + max 100000 (4 * v))\<rparr>,
      if p_rtt_hist P then e\<lparr>e_rtts := e_rtts e @ [rtt]\<rparr> else e)"
    by (simp add: update_rtt_def)
  show "rtt_only t (fst (update_rtt P rtt (t, e)))"
    unfolding u fst_conv rtt_only_def
    by (rule exI, rule exI, rule exI, rule exI, rule exI, rule exI [of _ "t_rtt_measuring t"]) simp
  show "env_rtt_only e (snd (update_rtt P rtt (t, e)))"
    unfolding u snd_conv env_rtt_only_def
    by (rule exI [of _ "if p_rtt_hist P then e_rtts e @ [rtt] else e_rtts e"]) simp
qed

lemma ack_rtt_only: "rtt_only t (fst (ack_rtt P en (t, e)))" "env_rtt_only e (snd (ack_rtt P en (t, e)))"
proof -
  define us where "us = (word_of_int ((e_now e - t_rtt_send_time t) div 1000) :: u32)"
  obtain t1 e1 where u: "update_rtt P us (t, e) = (t1, e1)" by fastforce
  have r: "rtt_only t t1" "env_rtt_only e e1" using update_rtt_only [where t = t and e = e and P = P and rtt = us] by (simp_all add: u)
  have "rtt_only t1 (t1\<lparr>t_rtt_measuring := False\<rparr>)" unfolding rtt_only_def
    by (rule exI [of _ "t_last_rtt_us t1"], rule exI [of _ "t_min_rtt_us t1"], rule exI [of _ "t_srtt_us t1"],
      rule exI [of _ "t_rttvar_us t1"], rule exI [of _ "t_rto_us t1"], rule exI [of _ False]) simp
  then have "rtt_only t (t1\<lparr>t_rtt_measuring := False\<rparr>)" using r(1) by (rule rtt_only_trans [rotated])
  then show "rtt_only t (fst (ack_rtt P en (t, e)))" "env_rtt_only e (snd (ack_rtt P en (t, e)))"
    using r(2) by (simp_all add: ack_rtt_def us_def [symmetric] u)
qed

section \<open>The loop over the queue\<close>

lemma ack_queue_post:
  "chain a q b \<Longrightarrow> qsize q < 1073807360 \<Longrightarrow> dist a ack \<le> qsize q \<Longrightarrow>
   \<exists>q' t' e'. ack_queue P ack q (t, e) = Some (t'\<lparr>t_retransmit_queue := q'\<rparr>, e') \<and>
     rtt_only t t' \<and> env_rtt_only e e' \<and> chain ack q' b \<and> qsyms q' = drop (dist a ack) (qsyms q)"
proof (induction q arbitrary: a t e)
  case Nil
  then have "ack = a" by simp
  then show ?case using Nil.prems
    by (intro exI [of _ "[]"] exI [of _ t] exI [of _ e]) simp
next
  case (Cons en q)
  define d where "d = dist a ack"
  have ack: "ack = at a d" by (simp add: d_def at_def dist_def)
  have en: "re_seq_start en = a" "entry_ok en" "chain (re_seq_end en) q b" using Cons.prems(1) by auto
  have fin: "re_seq_end en = at a (esize en)" using en by (simp add: entry_ok_def at_def)
  have sz: "esize en + qsize q < 1073807360" "d \<le> esize en + qsize q" using Cons.prems(2,3) by (simp_all add: d_def)
  have le: "seq_le (re_seq_end en) ack \<longleftrightarrow> esize en \<le> d"
    unfolding fin ack using sz by (intro seq_cmp_at) linarith+
  have lt: "seq_lt (re_seq_start en) ack \<longleftrightarrow> 0 < d"
    unfolding en(1) ack using sz seq_cmp_at(1) [of 0 d a] by simp
  show ?case
  proof (cases "esize en \<le> d")
    case True
    obtain t1 e1 where r: "ack_rtt P en (t, e) = (t1, e1)" by fastforce
    have ro: "rtt_only t t1" "env_rtt_only e e1"
      using ack_rtt_only [where t = t and e = e and P = P and en = en] by (simp_all add: r)
    have dd: "dist (re_seq_end en) ack = d - esize en"
      unfolding fin ack using True sz by (intro dist_at) linarith+
    have small: "qsize q < 1073807360" and rest: "dist (re_seq_end en) ack \<le> qsize q"
      using sz unfolding dd by linarith+
    obtain q' t' e' where q': "ack_queue P ack q (t1, e1) = Some (t'\<lparr>t_retransmit_queue := q'\<rparr>, e')"
      "rtt_only t1 t'" "env_rtt_only e1 e'" "chain ack q' b" "qsyms q' = drop (d - esize en) (qsyms q)"
      using Cons.IH [OF en(3) small, of t1 e1] rest unfolding dd by blast
    have "qsyms q' = drop d (qsyms (en # q))" using q'(5) True by simp
    moreover have "ack_queue P ack (en # q) (t, e) = Some (t'\<lparr>t_retransmit_queue := q'\<rparr>, e')"
      using le True r q'(1) by simp
    ultimately show ?thesis
      using rtt_only_trans [OF ro(1) q'(2)] env_rtt_only_trans [OF ro(2) q'(3)] q'(4) unfolding d_def by blast
  next
    case False
    show ?thesis
    proof (cases "0 < d")
      case True
      then have data: "re_data en \<noteq> []" "esize en = length (re_data en)"
        using False by (auto simp: esize_def split: if_splits)
      have len: "length (re_data en) \<le> 1460" using en(2) by (simp add: entry_ok_def)
      have c: "unat (ack - re_seq_start en) = d" by (simp add: en(1) d_def dist_def)
      define en' where "en' = en\<lparr>re_data := drop d (re_data en), re_seq_start := ack\<rparr>"
      have "ack_queue P ack (en # q) (t, e) = Some (t\<lparr>t_retransmit_queue := en' # q\<rparr>, e)"
        using le lt False True c data(2) len by (simp add: TCP_MSS_MAX_def Let_def en'_def)
      moreover have "esize en' = esize en - d" using False data by (simp add: en'_def esize_def)
      then have "entry_ok en'" using False fin ack len data(2)
        by (simp add: entry_ok_def en'_def at_def)
      then have "chain ack (en' # q) b" using en(3) by (simp add: en'_def)
      moreover have "esyms en' = drop d (esyms en)" using False data by (simp add: esyms_def en'_def drop_map)
      then have "qsyms (en' # q) = drop d (qsyms (en # q))" using False by simp
      ultimately show ?thesis
        unfolding d_def by (intro exI [of _ "en' # q"] exI [of _ t] exI [of _ e]) simp
    next
      case z: False
      have "ack_queue P ack (en # q) (t, e) = Some (t\<lparr>t_retransmit_queue := en # q\<rparr>, e)"
        using le lt False z by simp
      moreover have "ack = a" using z by (simp add: d_def)
      ultimately show ?thesis using Cons.prems(1) by (intro exI [of _ "en # q"] exI [of _ t] exI [of _ e]) simp
    qed
  qed
qed

section \<open>Duplicate acknowledgements\<close>

definition cong_ok :: "('c \<Rightarrow> bool) \<Rightarrow> 'c tcb \<Rightarrow> bool" where
  "cong_ok good t \<longleftrightarrow> (case t_congestion t of None \<Rightarrow> True | Some c \<Rightarrow> cg_inv good c)"

lemma raw_send_out: "\<exists>out. raw_send P t flags seq data e = e\<lparr>e_out := out\<rparr>"
proof -
  have "\<exists>out. e = e\<lparr>e_out := out\<rparr>" by (rule exI [of _ "e_out e"]) simp
  moreover have "\<exists>out. emit d s e = e\<lparr>e_out := out\<rparr>" for d s by (simp add: emit_def) blast
  ultimately show ?thesis by (simp add: raw_send_def split: option.splits)
qed

text \<open>The block and the environment after \<open>check_dup_ack\<close>.\<close>

definition dup_post :: "('c \<Rightarrow> bool) \<Rightarrow> 'c tcb \<Rightarrow> 'a env \<Rightarrow> 'c tcb \<times> 'a env \<Rightarrow> bool" where
  "dup_post good t e c \<longleftrightarrow> (\<exists>n l cc out.
     c = (t\<lparr>t_packets_lost_period := l, t_congestion := cc, t_dup_ack_count := n\<rparr>, e\<lparr>e_out := out\<rparr>)) \<and>
     cong_ok good (fst c)"

lemma dup_postI:
  assumes "cong_ok good (t\<lparr>t_packets_lost_period := l, t_congestion := cc, t_dup_ack_count := n\<rparr>)"
  shows "dup_post good t e (t\<lparr>t_packets_lost_period := l, t_congestion := cc, t_dup_ack_count := n\<rparr>, e\<lparr>e_out := out\<rparr>)"
  using assms unfolding dup_post_def by (simp only: fst_conv simp_thms) blast

lemma dup_post_same: "cong_ok good t \<Longrightarrow> dup_post good t e (t, e)"
  using dup_postI [where good = good and t = t and n = "t_dup_ack_count t" and l = "t_packets_lost_period t"
    and cc = "t_congestion t" and e = e and out = "e_out e"] by simp

context congestion_controller
begin

lemma check_dup_ack_post:
  assumes "cong_ok good t" and ops: "p_cc P = ops"
  shows "dup_post good t e (check_dup_ack P ack (t, e))"
proof (cases "t_retransmit_queue t")
  case Nil
  then show ?thesis using assms(1) by (simp add: check_dup_ack_def dup_post_same)
next
  case (Cons en q)
  show ?thesis
  proof (cases "ack = t_snd_una t")
    case False
    then show ?thesis using Cons assms(1) by (simp add: check_dup_ack_def dup_post_same)
  next
    case ack: True
    show ?thesis
    proof (cases "reno_recovering t")
      case (Some r)
      then have "t_congestion t = Some (CCReno r)"
        by (auto simp: reno_recovering_def split: option.splits congestion.splits if_splits)
      then have "cong_ok good (t\<lparr>t_packets_lost_period := t_packets_lost_period t,
          t_congestion := Some (CCReno (reno_on_dup_ack r)), t_dup_ack_count := t_dup_ack_count t\<rparr>)"
        using assms(1) by (simp add: cong_ok_def cg_inv_def reno_on_dup_ack_wf)
      from dup_postI [OF this, of e "e_out e"] show ?thesis
        using Cons ack Some by (simp add: check_dup_ack_def)
    next
      case None
      show ?thesis
      proof (cases "t_dup_ack_count t + 1 = 3")
        case True
        let ?t = "t\<lparr>t_dup_ack_count := 3, t_packets_lost_period := t_packets_lost_period t + 1,
                    t_congestion := map_option (cg_on_loss ops 0) (t_congestion t)\<rparr>"
        obtain out where out: "(if re_data en \<noteq> [] then raw_send P ?t ACK (re_seq_start en)
            (take (unat (op_mss (t_options t))) (re_data en)) e else e) = e\<lparr>e_out := out\<rparr>"
        proof (cases "re_data en = []")
          case True
          then show ?thesis using that [of "e_out e"] by simp
        next
          case False
          then show ?thesis using that raw_send_out [of P ?t ACK "re_seq_start en"
            "take (unat (op_mss (t_options t))) (re_data en)" e] by (simp, blast)
        qed
        have "cong_ok good (t\<lparr>t_packets_lost_period := t_packets_lost_period t + 1,
                    t_congestion := map_option (cg_on_loss ops 0) (t_congestion t), t_dup_ack_count := 0\<rparr>)"
          using assms(1) by (auto simp: cong_ok_def cg_on_loss_inv split: option.splits)
        from dup_postI [OF this, of e out] show ?thesis
          using Cons ack None True out ops by (cases "re_data en = []") (simp_all add: check_dup_ack_def Let_def)
      next
        case False
        have "cong_ok good (t\<lparr>t_packets_lost_period := t_packets_lost_period t,
            t_congestion := t_congestion t, t_dup_ack_count := t_dup_ack_count t + 1\<rparr>)"
          using assms(1) by (simp add: cong_ok_def)
        from dup_postI [OF this, of e "e_out e"] show ?thesis
          using Cons ack None False by (simp add: check_dup_ack_def Let_def)
      qed
    qed
  qed
qed

end

section \<open>Samples\<close>

definition sample_only :: "'c tcb \<Rightarrow> 'c tcb \<Rightarrow> bool" where
  "sample_only t t' \<longleftrightarrow> (\<exists>a b c d f g. t' = t\<lparr>t_last_sample_time_us := a, t_packets_sent_period := b,
     t_packets_lost_period := c, t_ecn_ce_period := d, t_bytes_sent_period := f, t_bytes_acked_period := g\<rparr>)"

lemma sample_only_refl [simp]: "sample_only t t"
  unfolding sample_only_def
  by (rule exI [of _ "t_last_sample_time_us t"], rule exI [of _ "t_packets_sent_period t"],
      rule exI [of _ "t_packets_lost_period t"], rule exI [of _ "t_ecn_ce_period t"],
      rule exI [of _ "t_bytes_sent_period t"], rule exI [of _ "t_bytes_acked_period t"]) simp

lemma push_sample_post:
  assumes "op_mss (t_options t) \<noteq> 0"
  shows "\<exists>t' ss. push_sample P (t, e) = Some (t', e\<lparr>e_samples := ss\<rparr>) \<and> sample_only t t'"
proof -
  have same: "\<exists>t' ss. Some (t, e) = Some (t', e\<lparr>e_samples := ss\<rparr>) \<and> sample_only t t'"
    by (rule exI [of _ t], rule exI [of _ "e_samples e"]) simp
  obtain cw where cw: "sample_cwnd P t = Some cw"
    using assms by (cases "t_congestion t") (simp_all add: sample_cwnd_def)
  let ?now = "word_of_int (e_now e div 1000) :: u64"
  show ?thesis
  proof (cases "(p_metrics_buf P \<and> 0 < t_bytes_sent_period t) \<and> SAMPLE_INTERVAL_US \<le> ?now - t_last_sample_time_us t")
    case True
    define t' where "t' = t\<lparr>t_last_sample_time_us := ?now, t_packets_sent_period := 0,
                  t_packets_lost_period := 0, t_ecn_ce_period := 0, t_bytes_sent_period := 0,
                  t_bytes_acked_period := 0\<rparr>"
    have "sample_only t t'" unfolding sample_only_def t'_def by blast
    moreover have "\<exists>ss. push_sample P (t, e) = Some (t', e\<lparr>e_samples := ss\<rparr>)"
      unfolding push_sample_def prod.case Let_def t'_def cw bind.simps using True by (simp only: if_True simp_thms) blast
    ultimately show ?thesis by blast
  next
    case False
    then have "push_sample P (t, e) = Some (t, e)"
      by (simp only: push_sample_def prod.case Let_def) (auto simp only: if_True if_False simp_thms split: if_splits)
    then show ?thesis using same by simp
  qed
qed

section \<open>What an acknowledgement leaves alone\<close>

definition rcv_frame :: "'c tcb \<Rightarrow> 'c tcb \<Rightarrow> bool" where
  "rcv_frame t t' \<longleftrightarrow> close_step (t_state t) (t_state t') \<and>
     t_options t' = t_options t \<and> t_tuple t' = t_tuple t \<and> t_passive_open t' = t_passive_open t \<and>
     t_iss t' = t_iss t \<and> t_rcv_nxt t' = t_rcv_nxt t \<and> t_irs t' = t_irs t \<and>
     t_ooo_queue t' = t_ooo_queue t \<and> t_ooo_size t' = t_ooo_size t \<and> t_on_connect t' = t_on_connect t"

lemma rcv_frame_refl [simp]: "rcv_frame t t"
  by (simp add: rcv_frame_def close_step_def)

lemma rcv_frame_trans: "rcv_frame t t' \<Longrightarrow> rcv_frame t' t'' \<Longrightarrow> rcv_frame t t''"
  using close_step_trans [of "t_state t" "t_state t'" "t_state t''"] by (simp add: rcv_frame_def)

lemma app_frame_rcv: "app_frame t t' \<Longrightarrow> rcv_frame t t'"
  by (simp add: app_frame_def rcv_frame_def)

section \<open>\<open>process_ack\<close>\<close>

definition acked_count :: "u32 \<Rightarrow> 'c tcb \<Rightarrow> nat" where
  "acked_count ack t = (if seq_gt ack (t_snd_una t) then dist (t_snd_una t) ack else 0)"

definition ack_post ::
  "('c \<Rightarrow> bool) \<Rightarrow> nat \<Rightarrow> u32 \<Rightarrow> u16 \<Rightarrow> 'c tcb \<Rightarrow> 'a env \<Rightarrow> 'c tcb \<Rightarrow> 'a env \<Rightarrow> bool" where
  "ack_post good k ack window t e t' e' \<longleftrightarrow>
     sender_inv k t' \<and> cong_ok good t' \<and> rcv_frame t t' \<and>
     t_on_receive t' = t_on_receive t \<and> t_on_close t' = t_on_close t \<and>
     e_now e' = e_now e \<and> e_app e' = e_app e \<and>
     t_snd_una t' = at (t_snd_una t) (acked_count ack t) \<and> t_snd_wnd t' = ucast window \<and>
     acked_count ack t \<le> qsize (t_retransmit_queue t) \<and>
     snd_bytes t = sym_bytes (take (acked_count ack t) (qsyms (t_retransmit_queue t))) @ snd_bytes t'"

lemma acked_count_le:
  assumes inv: "sender_inv k t" and ack: "seq_le ack (t_snd_nxt t)"
  shows "acked_count ack t \<le> qsize (t_retransmit_queue t)"
proof (cases "seq_gt ack (t_snd_una t)")
  case True
  let ?q = "qsize (t_retransmit_queue t)" and ?d = "dist (t_snd_una t) ack"
  have q: "?q < 1073807360" and ch: "chain (t_snd_una t) (t_retransmit_queue t) (t_snd_nxt t)"
    using inv by (simp_all add: sender_inv_def)
  have n: "t_snd_nxt t = at (t_snd_una t) ?q" using chain_end [OF ch] by (simp add: at_def)
  have a: "ack = at (t_snd_una t) ?d" by (simp add: at_def dist_def)
  have d: "?d < 2147483648" using True by (simp add: seq_gt_iff_dist)
  have "seq_le (at (t_snd_una t) ?d) (at (t_snd_una t) ?q)" using ack by (simp flip: a n)
  moreover have "seq_le (at (t_snd_una t) ?d) (at (t_snd_una t) ?q) \<longleftrightarrow> ?d \<le> ?q"
    by (rule seq_cmp_at) (use d q in linarith)+
  ultimately show ?thesis using True by (simp add: acked_count_def)
qed (simp add: acked_count_def)

lemma sender_inv_cong:
  assumes "sender_inv k t" and "t_send_buffer t' = t_send_buffer t" and "t_snd_una t' = t_snd_una t"
    and "t_retransmit_queue t' = t_retransmit_queue t" and "t_snd_nxt t' = t_snd_nxt t"
    and "unat (t_snd_wnd t') \<le> 65535" and "t_options t' = t_options t"
  shows "sender_inv k t'"
  using assms by (simp add: sender_inv_def)

lemma unat_ucast_u16 [simp]: "unat (ucast (w :: u16) :: u32) \<le> 65535"
proof -
  have "unat (ucast w :: u32) = unat w"
    using unat_lt_2_16 [of w] by (simp add: unsigned_ucast_eq take_bit_nat_eq_self)
  then show ?thesis using unat_lt_2_16 [of w] by simp
qed

lemma sample_only_frame:
  assumes "sample_only t t'"
  shows "rcv_frame t t'" and "snd_bytes t' = snd_bytes t" and "sender_inv k t \<Longrightarrow> sender_inv k t'"
    and "cong_ok good t' = cong_ok good t" and "t_snd_una t' = t_snd_una t" and "t_snd_wnd t' = t_snd_wnd t"
    and "t_on_receive t' = t_on_receive t" and "t_on_close t' = t_on_close t"
  using assms unfolding sample_only_def
  by (elim exE; simp add: rcv_frame_def close_step_def snd_bytes_def sender_inv_def cong_ok_def)+

context congestion_controller
begin

lemma on_ack_total:
  assumes "cong_ok good t"
  shows "\<exists>cc. (case t_congestion t of
        Some c \<Rightarrow> map_option Some (cg_on_ack ops n rtt c)
      | None \<Rightarrow> Some None) = Some cc \<and> cong_ok good (t\<lparr>t_congestion := cc\<rparr>)"
proof (cases "t_congestion t")
  case None
  then show ?thesis by (simp add: cong_ok_def)
next
  case (Some c)
  then have "cg_inv good c" using assms by (simp add: cong_ok_def)
  then obtain c' where "cg_on_ack ops n rtt c = Some c'" "cg_inv good c'"
    using cg_on_ack_total [of c n rtt] by blast
  then show ?thesis using Some by (simp add: cong_ok_def)
qed

text \<open>The new-data branch after the controller has been told.\<close>

lemma ack_rest:
  assumes inv: "sender_inv k t" and k: "k < 1073741824" and cong: "cong_ok good t"
    and ack: "dist (t_snd_una t) ack \<le> qsize (t_retransmit_queue t)"
  shows "\<exists>t' e'. Option.bind (ack_queue P ack (t_retransmit_queue t) (t\<lparr>t_snd_una := ack\<rparr>, e))
             (\<lambda>(t4, e4). Option.bind (send_buffered_data P (t4\<lparr>t_dup_ack_count := 0, t_last_ack_num := ack\<rparr>, e4))
                (push_sample P)) = Some (t', e') \<and>
           sender_inv (Suc k) t' \<and> cong_ok good t' \<and> rcv_frame t t' \<and>
           t_on_receive t' = t_on_receive t \<and> t_on_close t' = t_on_close t \<and>
           e_now e' = e_now e \<and> e_app e' = e_app e \<and> t_snd_una t' = ack \<and> t_snd_wnd t' = t_snd_wnd t \<and>
           snd_bytes t = sym_bytes (take (dist (t_snd_una t) ack) (qsyms (t_retransmit_queue t))) @ snd_bytes t'"
proof -
  let ?d = "dist (t_snd_una t) ack" and ?q = "t_retransmit_queue t"
  have ch: "chain (t_snd_una t) ?q (t_snd_nxt t)" and sz: "qsize ?q < 1073807360"
    using inv by (simp_all add: sender_inv_def)
  obtain q' t3 e3 where q: "ack_queue P ack ?q (t\<lparr>t_snd_una := ack\<rparr>, e) = Some (t3\<lparr>t_retransmit_queue := q'\<rparr>, e3)"
    "rtt_only (t\<lparr>t_snd_una := ack\<rparr>) t3" "env_rtt_only e e3" "chain ack q' (t_snd_nxt t)"
    "qsyms q' = drop ?d (qsyms ?q)"
    using ack_queue_post [OF ch sz ack, of P "t\<lparr>t_snd_una := ack\<rparr>" e] by blast
  define t5 where "t5 = t3\<lparr>t_retransmit_queue := q', t_dup_ack_count := 0, t_last_ack_num := ack\<rparr>"
  have sz': "qsize q' \<le> qsize ?q" using arg_cong [OF q(5), of length] by simp
  have t5: "sender_inv k t5" "rcv_frame t t5" "cong_ok good t5" "t_snd_una t5 = ack" "t_snd_wnd t5 = t_snd_wnd t"
    "t_on_receive t5 = t_on_receive t" "t_on_close t5 = t_on_close t" "t_send_buffer t5 = t_send_buffer t"
    "t_retransmit_queue t5 = q'" "op_mss (t_options t5) = op_mss (t_options t)"
  proof -
    obtain l m s v r b where t3: "t3 = t\<lparr>t_snd_una := ack, t_last_rtt_us := l, t_min_rtt_us := m,
        t_srtt_us := s, t_rttvar_us := v, t_rto_us := r, t_rtt_measuring := b\<rparr>"
      using q(2) by (auto simp only: rtt_only_def)
    show "sender_inv k t5" using inv q(4) sz' by (simp add: sender_inv_def t5_def t3)
    show "rcv_frame t t5" by (simp add: rcv_frame_def close_step_def t5_def t3)
    show "cong_ok good t5" using cong by (simp add: cong_ok_def t5_def t3)
    show "t_snd_una t5 = ack" "t_snd_wnd t5 = t_snd_wnd t"
      "t_on_receive t5 = t_on_receive t" "t_on_close t5 = t_on_close t" "t_send_buffer t5 = t_send_buffer t"
      "t_retransmit_queue t5 = q'" "op_mss (t_options t5) = op_mss (t_options t)"
      by (simp_all add: t5_def t3)
  qed
  have e3: "e_now e3 = e_now e" "e_app e3 = e_app e" using q(3) by (auto simp: env_rtt_only_def)
  have bytes: "snd_bytes t = sym_bytes (take ?d (qsyms ?q)) @ snd_bytes t5"
    using sym_bytes_split [of ?d ?q] by (simp add: snd_bytes_def t5 flip: q(5))
  obtain t6 e6 where b: "send_buffered_data P (t5, e3) = Some (t6, e6)" "call_post (Suc k) t5 e3 t6 e6"
    "snd_bytes t6 = snd_bytes t5"
    using send_buffered_data_post [OF t5(1) k, of P e3] by blast
  have af: "app_frame t5 t6" and i6: "sender_inv (Suc k) t6" using b(2) by (simp_all add: call_post_def)
  have c6: "cong_ok good t6" using af t5(3) by (simp add: app_frame_def cong_ok_def)
  have w6: "t_snd_una t6 = ack" "t_snd_wnd t6 = t_snd_wnd t" using af t5 by (simp_all add: app_frame_def)
  have m6: "op_mss (t_options t6) \<noteq> 0" using i6 by (auto simp: sender_inv_def)
  obtain t7 ss where s: "push_sample P (t6, e6) = Some (t7, e6\<lparr>e_samples := ss\<rparr>)" "sample_only t6 t7"
    using push_sample_post [OF m6, of P e6] by blast
  note f7 = sample_only_frame [OF s(2)]
  have "rcv_frame t t7" using rcv_frame_trans [OF rcv_frame_trans [OF t5(2) app_frame_rcv [OF af]] f7(1)] .
  moreover have "t_on_receive t7 = t_on_receive t \<and> t_on_close t7 = t_on_close t"
    using b(2) t5 f7 by (simp add: call_post_def)
  moreover have "e_now e6 = e_now e \<and> e_app e6 = e_app e"
    using b(2) e3 by (simp add: call_post_def env_sent_only_def)
  ultimately show ?thesis
    using f7(3) [OF i6] f7(2,4,5,6) c6 w6 bytes b(3)
    by (intro exI [of _ t7] exI [of _ "e6\<lparr>e_samples := ss\<rparr>"] conjI)
       (simp_all add: q(1) t5_def [symmetric] b(1) s(1))
qed

lemma dup_frame:
  assumes inv: "sender_inv k t"
    and d: "check_dup_ack P ack (t\<lparr>t_snd_wnd := ucast (window :: u16)\<rparr>, e) = (t1, e1)"
    and ok: "dup_post good (t\<lparr>t_snd_wnd := ucast window\<rparr>) e (t1, e1)"
  shows "sender_inv k t1" and "cong_ok good t1" and "rcv_frame t t1" and "t_on_receive t1 = t_on_receive t"
    and "t_on_close t1 = t_on_close t" and "e_now e1 = e_now e" and "e_app e1 = e_app e"
    and "t_snd_una t1 = t_snd_una t" and "t_snd_wnd t1 = ucast window" and "snd_bytes t1 = snd_bytes t"
    and "t_retransmit_queue t1 = t_retransmit_queue t" and "t_snd_nxt t1 = t_snd_nxt t"
proof -
  show "cong_ok good t1" using ok by (simp add: dup_post_def)
  obtain n l cc out where t1: "t1 = t\<lparr>t_snd_wnd := ucast window, t_packets_lost_period := l,
      t_congestion := cc, t_dup_ack_count := n\<rparr>" and e1: "e1 = e\<lparr>e_out := out\<rparr>"
    using ok by (auto simp only: dup_post_def prod.inject)
  show "sender_inv k t1" using inv by (simp add: t1 sender_inv_def)
  show "rcv_frame t t1" by (simp add: t1 rcv_frame_def close_step_def)
  show "t_on_receive t1 = t_on_receive t" "t_on_close t1 = t_on_close t" "e_now e1 = e_now e" "e_app e1 = e_app e"
    "t_snd_una t1 = t_snd_una t" "t_snd_wnd t1 = ucast window" "snd_bytes t1 = snd_bytes t"
    "t_retransmit_queue t1 = t_retransmit_queue t" "t_snd_nxt t1 = t_snd_nxt t"
    by (simp_all add: t1 e1 snd_bytes_def)
qed

lemma process_ack_post:
  assumes inv: "sender_inv k t" and k: "k < 1073741824" and cong: "cong_ok good t"
    and ack: "seq_le ack (t_snd_nxt t)" and ops: "p_cc P = ops"
  shows "\<exists>t' e'. process_ack P ack window (t, e) = Some (t', e') \<and> ack_post good (Suc k) ack window t e t' e'"
proof -
  have cong': "cong_ok good (t\<lparr>t_snd_wnd := ucast window\<rparr>)" using cong by (simp add: cong_ok_def)
  obtain t1 e1 where d: "check_dup_ack P ack (t\<lparr>t_snd_wnd := ucast window\<rparr>, e) = (t1, e1)" by fastforce
  have "dup_post good (t\<lparr>t_snd_wnd := ucast window\<rparr>) e (t1, e1)"
    using check_dup_ack_post [OF cong' ops, of e ack] by (simp add: d)
  note f = dup_frame [OF inv d this]
  have k1: "sender_inv (Suc k) t1" by (rule sender_inv_mono [OF f(1)]) (use k in simp_all)
  have le: "acked_count ack t \<le> qsize (t_retransmit_queue t)" by (rule acked_count_le [OF inv ack])
  show ?thesis
  proof (cases "seq_gt ack (t_snd_una t)")
    case False
    then have z: "acked_count ack t = 0" by (simp add: acked_count_def)
    have same: "ack_post good (Suc k) ack window t e t1 e1"
      using f k1 z by (simp add: ack_post_def)
    have eq: "process_ack P ack window (t, e) =
        (if t_snd_wnd t = 0 \<and> window > 0 then send_buffered_data P (t1, e1) else Some (t1, e1))"
      using False f(8) by (simp add: process_ack_def Let_def d)
    obtain t2 e2 where b: "send_buffered_data P (t1, e1) = Some (t2, e2)" "call_post (Suc k) t1 e1 t2 e2"
      "snd_bytes t2 = snd_bytes t1"
      using send_buffered_data_post [OF f(1) k, of P e1] by blast
    have af: "app_frame t1 t2" using b(2) by (simp add: call_post_def)
    have "rcv_frame t t2" by (rule rcv_frame_trans [OF f(3) app_frame_rcv [OF af]])
    moreover have "cong_ok good t2" "t_snd_una t2 = t_snd_una t" "t_snd_wnd t2 = ucast window"
      using af f by (simp_all add: app_frame_def cong_ok_def)
    ultimately have "ack_post good (Suc k) ack window t e t2 e2"
      using b f z by (simp add: ack_post_def call_post_def env_sent_only_def)
    then show ?thesis using eq same b(1) by simp
  next
    case True
    then have dc: "acked_count ack t = dist (t_snd_una t) ack" by (simp add: acked_count_def)
    have nz: "ack - t_snd_una t > 0"
      using True by (auto simp: seq_gt_iff_dist word_gt_0)
    obtain cc where cc: "(case t_congestion t1 of
        Some c \<Rightarrow> map_option Some (cg_on_ack (p_cc P) (ack - t_snd_una t) (t_srtt_us t1) c)
      | None \<Rightarrow> Some None) = Some cc" "cong_ok good (t1\<lparr>t_congestion := cc\<rparr>)"
      using on_ack_total [OF f(2), of "ack - t_snd_una t" "t_srtt_us t1"] ops by blast
    define t3 where "t3 = t1\<lparr>t_congestion := cc, t_bytes_acked_period := t_bytes_acked_period t1 + (ack - t_snd_una t)\<rparr>"
    have t3: "sender_inv k t3" "rcv_frame t1 t3" "cong_ok good t3" "t_snd_una t3 = t_snd_una t"
      "t_retransmit_queue t3 = t_retransmit_queue t" "t_on_receive t3 = t_on_receive t" "t_on_close t3 = t_on_close t"
      "t_snd_wnd t3 = ucast window" "snd_bytes t3 = snd_bytes t"
      using f cc(2) by (simp_all add: t3_def sender_inv_def rcv_frame_def close_step_def cong_ok_def snd_bytes_def)
    have le3: "dist (t_snd_una t3) ack \<le> qsize (t_retransmit_queue t3)" using le dc by (simp add: t3)
    obtain t' e' where r: "Option.bind (ack_queue P ack (t_retransmit_queue t3) (t3\<lparr>t_snd_una := ack\<rparr>, e1))
             (\<lambda>(t4, e4). Option.bind (send_buffered_data P (t4\<lparr>t_dup_ack_count := 0, t_last_ack_num := ack\<rparr>, e4))
                (push_sample P)) = Some (t', e')" "sender_inv (Suc k) t'" "cong_ok good t'" "rcv_frame t3 t'"
      "t_on_receive t' = t_on_receive t3" "t_on_close t' = t_on_close t3" "e_now e' = e_now e1" "e_app e' = e_app e1"
      "t_snd_una t' = ack" "t_snd_wnd t' = t_snd_wnd t3"
      "snd_bytes t3 = sym_bytes (take (dist (t_snd_una t3) ack) (qsyms (t_retransmit_queue t3))) @ snd_bytes t'"
      using ack_rest [OF t3(1) k t3(3) le3, of P e1] by (elim exE conjE) (rule that; assumption)
    have "t1\<lparr>t_snd_una := ack, t_congestion := cc, t_bytes_acked_period := t_bytes_acked_period t1 + (ack - t_snd_una t)\<rparr>
        = t3\<lparr>t_snd_una := ack\<rparr>" by (simp add: t3_def)
    then have "process_ack P ack window (t, e) = Some (t', e')"
    proof -
      have gt: "seq_gt ack (t_snd_una t1)" using True f(8) by simp
      have cc1: "(case t_congestion (t1\<lparr>t_snd_una := ack\<rparr>) of
          Some c \<Rightarrow> map_option Some
             (cg_on_ack (p_cc P) (ack - t_snd_una t1) (t_srtt_us (t1\<lparr>t_snd_una := ack\<rparr>)) c)
        | None \<Rightarrow> Some None) = Some cc"
        using cc(1) f(8) by (cases "t_congestion t1") simp_all
      have t3': "t1\<lparr>t_snd_una := ack, t_congestion := cc, t_bytes_acked_period :=
            t_bytes_acked_period (t1\<lparr>t_snd_una := ack\<rparr>) + (ack - t_snd_una t1)\<rparr> = t3\<lparr>t_snd_una := ack\<rparr>"
        by (simp add: t3_def f(8))
      have nz1: "(ack - t_snd_una t1 > 0) = True" using nz f(8) by simp
      show ?thesis
        unfolding process_ack_def prod.case Let_def d using gt
        by (simp only: nz1 if_True not_True_eq_False if_False cc1 bind.simps t3') (use r(1) f(11) in \<open>simp add: t3\<close>)
    qed
    moreover have "rcv_frame t t'" by (rule rcv_frame_trans [OF rcv_frame_trans [OF f(3) t3(2)] r(4)])
    moreover have "at (t_snd_una t) (acked_count ack t) = ack" by (simp add: dc at_def dist_def)
    moreover have "snd_bytes t = sym_bytes (take (acked_count ack t) (qsyms (t_retransmit_queue t))) @ snd_bytes t'"
      using r(11) by (simp only: t3 dc)
    ultimately show ?thesis using r(2,3,5-10) f(6,7) t3(6-8) le
      by (intro exI [of _ t'] exI [of _ e']) (simp add: ack_post_def)
  qed
qed

end

end
