(* ===== verification/Tcp_Example.thy ===== *)
theory Tcp_Example
  imports Tcp_Send
begin

text \<open>
  A concrete instance, used where a property is applied: an established connection over Reno whose
  application answers nothing, or echoes, with the default options.
\<close>

definition demo_params :: "(reno, unit) params" where
  "demo_params =
     \<lparr>p_cc = reno_ops, p_app = (\<lambda>_ _ a. (a, [])), p_result = (\<lambda>_ _ a. a), p_send_cb = True,
      p_metrics_buf = False, p_rtt_hist = False, p_rate = (\<lambda>_ _. 0), p_isn_k0 = 1, p_isn_k1 = 2\<rparr>"

definition demo_tuple :: tcp_tuple where
  "demo_tuple = \<lparr>tu_local_ip = 0x0A000001, tu_remote_ip = 0x0A000002, tu_local_port = 80, tu_remote_port = 5000\<rparr>"

definition demo_conn :: "reno tcb" where
  "demo_conn = tcb_new\<lparr>t_tuple := demo_tuple, t_state := ESTABLISHED, t_iss := 0xFFFFFFF0,
     t_snd_una := 0xFFFFFFF1, t_snd_nxt := 0xFFFFFFF1, t_snd_wnd := 1000, t_rcv_nxt := 7,
     t_congestion := Some (CCReno (reno_new 1460))\<rparr>"

definition demo_metrics :: global_metrics where
  "demo_metrics =
     \<lparr>gm_packets_rx = 0, gm_packets_tx = 0, gm_bytes_rx = 0, gm_bytes_tx = 0, gm_syn_received = 0,
      gm_rst_received = 0, gm_fin_received = 0, gm_active_connections = 1, gm_conn_established = 1,
      gm_conn_closed = 0, gm_conn_reset = 0\<rparr>"

definition demo_env :: "unit env" where
  "demo_env = \<lparr>e_now = 0, e_out = [], e_metrics = demo_metrics, e_samples = [], e_rtts = [], e_app = ()\<rparr>"

lemmas demo_simps = demo_params_def demo_tuple_def demo_conn_def demo_metrics_def demo_env_def tcb_new_def
  tcp_options_default_def

text \<open>An application that sends back what it receives and keeps it, and segments of its peer.\<close>

definition echo_params :: "(reno, bytes) params" where
  "echo_params =
     \<lparr>p_cc = reno_ops, p_app = (\<lambda>_ ev a. case ev of OnReceive d \<Rightarrow> (a @ d, [CallSend d]) | _ \<Rightarrow> (a, [])),
      p_result = (\<lambda>_ _ a. a), p_send_cb = True,
      p_metrics_buf = False, p_rtt_hist = False, p_rate = (\<lambda>_ _. 0), p_isn_k0 = 1, p_isn_k1 = 2\<rparr>"

definition echo_env :: "bytes env" where
  "echo_env = \<lparr>e_now = 0, e_out = [], e_metrics = demo_metrics, e_samples = [], e_rtts = [], e_app = []\<rparr>"

definition data_seg :: "u32 \<Rightarrow> bytes \<Rightarrow> tcp_segment" where
  "data_seg seq bs = \<lparr>seg_src_addr = 0x0A000002, seg_dst_addr = 0x0A000001, seg_src_port = 5000, seg_dst_port = 80,
     seg_seq_num = seq, seg_ack_num = 0xFFFFFFF1, seg_data_offset = 20, seg_flags = PSH, seg_window = 1000, seg_checksum = 0, seg_urgent_ptr = 0, seg_data = bs\<rparr>"


lemma data_seg_fields [simp]:
  "seg_seq_num (data_seg n bs) = n" "seg_data (data_seg n bs) = bs" "data_length (data_seg n bs) = length bs"
  "\<not> is_rst (data_seg n bs)" "\<not> is_fin (data_seg n bs)" "\<not> is_ack (data_seg n bs)"
  by (simp_all add: data_seg_def data_length_def is_rst_def is_fin_def is_ack_def tcp_flags)

end
