(* ===== verification/Tcp_Stream.thy ===== *)
theory Tcp_Stream
  imports Tcp_Acked Tcp_Example
begin

text \<open>
  The sender as a whole: runs of sends, closes, acknowledgements and timer ticks in any order.
  The stream of accepted bytes is at all times the acknowledged symbols, the payloads in the
  retransmit queue and the send buffer, in this order.
\<close>

section \<open>Timers\<close>

lemma send_zero_window_probe_out: "\<exists>out. send_zero_window_probe P (t, e) = (t, e\<lparr>e_out := out\<rparr>)"
proof -
  have same: "\<exists>out. (t, e) = (t, e\<lparr>e_out := out\<rparr>)" by (rule exI [of _ "e_out e"]) simp
  have "\<exists>out. (t, emit d s e) = (t, e\<lparr>e_out := out\<rparr>)" for d s by (simp add: emit_def) blast
  then show ?thesis using same by (simp add: send_zero_window_probe_def Let_def split: option.splits)
qed

text \<open>What the timers leave alone.\<close>

definition timer_view :: "'c tcb \<Rightarrow> 'a env \<Rightarrow> _" where
  "timer_view t e =
    ((qsyms (t_retransmit_queue t), t_send_buffer t, t_snd_una t, t_snd_nxt t, t_snd_wnd t, t_options t),
     (t_rcv_nxt t, t_ooo_queue t, t_ooo_size t, t_tuple t, t_on_receive t, t_on_close t), e_now e, e_app e)"

definition timer_post :: "'c tcb \<Rightarrow> 'a env \<Rightarrow> 'c tcb \<Rightarrow> 'a env \<Rightarrow> bool" where
  "timer_post t e t' e' \<longleftrightarrow> timer_view t' e' = timer_view t e \<and>
     (t_state t' = t_state t \<or> t_state t' = CLOSED) \<and>
     (\<forall>k. sender_inv k t \<longrightarrow> sender_inv k t') \<and> (\<forall>good. cong_ok good t \<longrightarrow> cong_ok good t')"

lemma timer_post_trans: "timer_post t e t' e' \<Longrightarrow> timer_post t' e' t'' e'' \<Longrightarrow> timer_post t e t'' e''"
  unfolding timer_post_def by metis

lemmas timer_simps = timer_post_def timer_view_def sender_inv_def cong_ok_def

lemma check_zero_window_probe_post:
  assumes "check_zero_window_probe P (t, e) = (t', e')" shows "timer_post t e t' e'"
proof -
  obtain out where p: "send_zero_window_probe P (t, e) = (t, e\<lparr>e_out := out\<rparr>)"
    using send_zero_window_probe_out by blast
  let ?on = "t_snd_wnd t = 0 \<and> \<not> sb_empty (t_send_buffer t)"
  consider "\<not> ?on" | "?on" "\<not> t_zwp_needed t" | "?on" "t_zwp_needed t" "t_zwp_time t \<le> e_now e"
    | "?on" "t_zwp_needed t" "\<not> t_zwp_time t \<le> e_now e" by blast
  then show ?thesis
  proof cases
    case 1
    then have "(t', e') = (t\<lparr>t_zwp_needed := False\<rparr>, e)"
      unfolding assms [symmetric] check_zero_window_probe_def prod.case by (rule if_not_P)
    then show ?thesis by (simp add: timer_simps)
  next
    case 2
    then have "(t', e') = (t\<lparr>t_zwp_needed := True, t_zwp_time := e_now e + uint (t_rto_us t) * 1000\<rparr>, e)"
      unfolding assms [symmetric] check_zero_window_probe_def prod.case by simp
    then show ?thesis by (simp add: timer_simps)
  next
    case 3
    then have "(t', e') = (t\<lparr>t_zwp_time := e_now e + uint (min (t_rto_us t * 2) 60000000) * 1000\<rparr>, e\<lparr>e_out := out\<rparr>)"
      unfolding assms [symmetric] check_zero_window_probe_def prod.case p by (simp add: Let_def)
    then show ?thesis by (simp add: timer_simps)
  next
    case 4
    then have "(t', e') = (t, e)"
      unfolding assms [symmetric] check_zero_window_probe_def prod.case by simp
    then show ?thesis by (simp add: timer_simps)
  qed
qed

lemma pure_ack_post:
  assumes "send_segment P ACK [] (t, e) = (t', e')" shows "timer_post t e t' e'"
proof -
  have "t' = fst (send_segment P ACK [] (t, e))" "e' = snd (send_segment P ACK [] (t, e))" using assms by simp_all
  then show ?thesis by (simp add: timer_simps)
qed

lemma check_delayed_ack_post:
  assumes "check_delayed_ack P (t, e) = (t', e')" shows "timer_post t e t' e'"
proof (cases "t_delayed_ack_pending t \<and> e_now e \<ge> t_delayed_ack_time t")
  case True
  obtain t1 e1 where s: "send_segment P ACK [] (t, e) = (t1, e1)" by fastforce
  have "timer_post t1 e1 (t1\<lparr>t_delayed_ack_pending := False\<rparr>) e1"
    by (simp add: timer_simps)
  then show ?thesis
    using timer_post_trans [OF pure_ack_post [OF s]] True assms s by (simp add: check_delayed_ack_def)
next
  case False
  then have "t' = t \<and> e' = e" using assms by (auto simp: check_delayed_ack_def)
  then show ?thesis by (simp add: timer_post_def)
qed

text \<open>Retransmission rewrites the counters of the first entry and its timeout.\<close>

lemma touch_entry_post:
  assumes "t_retransmit_queue t = en # q" and "re_seq_start en' = re_seq_start en"
    and "re_seq_end en' = re_seq_end en" and "re_data en' = re_data en"
    and "\<And>good. cong_ok good t \<Longrightarrow> cong_ok good (t\<lparr>t_congestion := cc\<rparr>)"
  shows "timer_post t e (t\<lparr>t_retransmit_queue := en' # q, t_congestion := cc\<rparr>) (e\<lparr>e_out := out\<rparr>)"
proof -
  have "entry_ok en' = entry_ok en" "esize en' = esize en" "esyms en' = esyms en"
    using assms(2-4) by (simp_all add: entry_ok_def esize_def esyms_def)
  then show ?thesis using assms by (simp add: timer_simps)
qed

lemma timer_post_rto:
  "timer_post t e (t\<lparr>t_packets_lost_period := l, t_rto_us := r, t_rtt_measuring := b\<rparr>) e"
  "timer_post t e (t\<lparr>t_state := CLOSED\<rparr>) e"
  by (simp_all add: timer_simps)

lemma resend_entry_out: "\<exists>out. resend_entry P t en e = e\<lparr>e_out := out\<rparr>"
proof -
  have "\<exists>out. e = e\<lparr>e_out := out\<rparr>" by (rule exI [of _ "e_out e"]) simp
  then show ?thesis unfolding resend_entry_def using raw_send_out [of P t] by simp
qed

lemma check_retransmit_post:
  assumes "\<not> t_on_close t"
  shows "\<exists>t' e'. check_retransmit P (t, e) = Some (t', e') \<and> timer_post t e t' e'"
proof (cases "t_retransmit_queue t")
  case Nil
  then show ?thesis by (intro exI [of _ t] exI [of _ e]) (simp add: check_retransmit_def timer_post_def)
next
  case (Cons en q)
  show ?thesis
  proof (cases "e_now e < re_timeout en")
    case True
    then show ?thesis using Cons
      by (intro exI [of _ t] exI [of _ e]) (simp add: check_retransmit_def timer_post_def)
  next
    case False
    define cc where "cc = (case t_congestion t of Some (CCReno r) \<Rightarrow> Some (CCReno (reno_on_timeout r)) | c \<Rightarrow> c)"
    have cc: "cong_ok good (t\<lparr>t_congestion := cc\<rparr>)" if "cong_ok good t" for good
      using that by (auto simp: cc_def cong_ok_def cg_inv_def reno_on_timeout_wf split: option.splits congestion.splits)
    define en1 where "en1 = en\<lparr>re_retransmit_count := re_retransmit_count en + 1\<rparr>"
    have en1: "re_seq_start en1 = re_seq_start en" "re_seq_end en1 = re_seq_end en" "re_data en1 = re_data en"
      by (simp_all add: en1_def)
    show ?thesis
    proof (cases "re_retransmit_count en1 > op_max_retransmit (t_options t)")
      case True
      let ?t = "t\<lparr>t_retransmit_queue := en1 # q, t_congestion := cc\<rparr>"
      have "check_retransmit P (t, e) = Some (?t\<lparr>t_state := CLOSED\<rparr>, e)"
        unfolding check_retransmit_def prod.case Cons list.case Let_def cc_def [symmetric] en1_def [symmetric]
        using False True assms by simp
      moreover have "timer_post t e ?t (e\<lparr>e_out := e_out e\<rparr>)" by (rule touch_entry_post [OF Cons en1 cc])
      ultimately show ?thesis using timer_post_trans [OF _ timer_post_rto(2)] by auto
    next
      case small: False
      define rto where "rto = min (t_rto_us t * 2) 60000000"
      let ?en = "en1\<lparr>re_timeout := e_now e + uint rto * 1000\<rparr>"
      let ?t = "t\<lparr>t_congestion := cc, t_packets_lost_period := t_packets_lost_period t + 1,
                 t_rto_us := rto, t_retransmit_queue := ?en # q\<rparr>"
      obtain out where out: "resend_entry P ?t en1 e = e\<lparr>e_out := out\<rparr>"
        using resend_entry_out by blast
      have "check_retransmit P (t, e) = Some (?t\<lparr>t_rtt_measuring := False\<rparr>, e\<lparr>e_out := out\<rparr>)"
        unfolding check_retransmit_def prod.case Cons list.case Let_def cc_def [symmetric] en1_def [symmetric]
        using False small out by (simp add: rto_def [symmetric])
      moreover have "timer_post t e (t\<lparr>t_retransmit_queue := ?en # q, t_congestion := cc\<rparr>) (e\<lparr>e_out := out\<rparr>)"
        by (rule touch_entry_post [OF Cons]) (simp_all add: en1 cc)
      moreover have "?t\<lparr>t_rtt_measuring := False\<rparr> = t\<lparr>t_retransmit_queue := ?en # q, t_congestion := cc,
          t_packets_lost_period := t_packets_lost_period t + 1, t_rto_us := rto, t_rtt_measuring := False\<rparr>" by simp
      ultimately show ?thesis
        using timer_post_trans [OF _ timer_post_rto(1) [where l = "t_packets_lost_period t + 1" and r = rto and b = False],
          of t e "t\<lparr>t_retransmit_queue := ?en # q, t_congestion := cc\<rparr>" "e\<lparr>e_out := out\<rparr>"]
        by (simp only: option.inject prod.inject) blast
    qed
  qed
qed

text \<open>What \<open>on_timer\<close> does with one connection, \<open>dt\<close> nanoseconds later.\<close>

definition tick_conn :: "('c, 'a) params \<Rightarrow> int \<Rightarrow> ('c, 'a) conn \<Rightarrow> ('c, 'a) conn option" where
  "tick_conn P dt = (\<lambda>(t, e). do {
     (t1, e1) \<leftarrow> check_retransmit P (t, e\<lparr>e_now := e_now e + dt\<rparr>);
     if t_state t1 = CLOSED then Some (t1, e1)
     else Some (check_zero_window_probe P (check_delayed_ack P (t1, e1)))
   })"

lemma timer_post_clock:
  "timer_post t (e\<lparr>e_now := n\<rparr>) t' e' \<Longrightarrow>
   snd_bytes t' = snd_bytes t \<and> t_snd_una t' = t_snd_una t \<and> t_on_close t' = t_on_close t \<and>
   (t_state t' = t_state t \<or> t_state t' = CLOSED) \<and>
   (sender_inv k t \<longrightarrow> sender_inv k t') \<and> (cong_ok good t \<longrightarrow> cong_ok good t')"
  by (simp add: timer_post_def timer_view_def snd_bytes_def flip: sym_bytes_qsyms)

lemma tick_conn_post:
  assumes "\<not> t_on_close t"
  shows "\<exists>t' e'. tick_conn P dt (t, e) = Some (t', e') \<and> timer_post t (e\<lparr>e_now := e_now e + dt\<rparr>) t' e'"
proof -
  let ?e = "e\<lparr>e_now := e_now e + dt\<rparr>"
  obtain t1 e1 where r: "check_retransmit P (t, ?e) = Some (t1, e1)" "timer_post t ?e t1 e1"
    using check_retransmit_post [OF assms, of P ?e] by blast
  obtain t2 e2 where d: "check_delayed_ack P (t1, e1) = (t2, e2)" by fastforce
  obtain t3 e3 where z: "check_zero_window_probe P (t2, e2) = (t3, e3)" by fastforce
  have "timer_post t ?e t3 e3"
    by (rule timer_post_trans [OF r(2) timer_post_trans [OF check_delayed_ack_post [OF d] check_zero_window_probe_post [OF z]]])
  then show ?thesis using r d z by (cases "t_state t1 = CLOSED") (simp_all add: tick_conn_def)
qed

section \<open>Runs of the sender\<close>

datatype snd_event = SndSend bytes | SndClose | SndAck u32 u16 | SndTick int

text \<open>One event, with the bytes it accepts; a connection that was given up ignores all of them.\<close>

definition snd_step :: "('c, 'a) params \<Rightarrow> snd_event \<Rightarrow> ('c, 'a) conn \<Rightarrow> (bytes \<times> ('c, 'a) conn) option" where
  "snd_step P ev c =
    (if t_state (fst c) = CLOSED then Some ([], c)
     else case ev of
       SndSend data \<Rightarrow> do { (n, c') \<leftarrow> tcp_send P data c; Some (take (nat n) data, c') }
     | SndClose \<Rightarrow> do { (deleted, c') \<leftarrow> tcp_close P c; if deleted then None else Some ([], c') }
     | SndAck ack window \<Rightarrow> map_option (Pair []) (process_ack P ack window c)
     | SndTick dt \<Rightarrow> map_option (Pair []) (tick_conn P dt c))"

fun snd_run :: "('c, 'a) params \<Rightarrow> snd_event list \<Rightarrow> ('c, 'a) conn \<Rightarrow> (bytes \<times> ('c, 'a) conn) option" where
  "snd_run P [] c = Some ([], c)"
| "snd_run P (ev # evs) c = do {
     (bs, c1) \<leftarrow> snd_step P ev c;
     (bs', c2) \<leftarrow> snd_run P evs c1;
     Some (bs @ bs', c2)
   }"

text \<open>Along the run no acknowledgement is ahead of \<open>snd_nxt\<close>.\<close>

fun acks_ok :: "('c, 'a) params \<Rightarrow> snd_event list \<Rightarrow> ('c, 'a) conn \<Rightarrow> bool" where
  "acks_ok P [] c \<longleftrightarrow> True"
| "acks_ok P (ev # evs) c \<longleftrightarrow>
     (case ev of SndAck ack _ \<Rightarrow> seq_le ack (t_snd_nxt (fst c)) | _ \<Rightarrow> True) \<and>
     (case snd_step P ev c of Some (_, c1) \<Rightarrow> acks_ok P evs c1 | None \<Rightarrow> True)"

definition live_state :: "tcp_state \<Rightarrow> bool" where
  "live_state s \<longleftrightarrow> s \<noteq> LISTEN \<and> s \<noteq> SYN_SENT"

definition run_inv :: "('c \<Rightarrow> bool) \<Rightarrow> nat \<Rightarrow> 'c tcb \<Rightarrow> bool" where
  "run_inv good k t \<longleftrightarrow> sender_inv k t \<and> cong_ok good t \<and> \<not> t_on_close t \<and> live_state (t_state t)"

lemma close_step_live: "close_step s s' \<Longrightarrow> live_state s \<Longrightarrow> live_state s'"
  by (auto simp: close_step_def live_state_def)

lemma call_post_run_inv: "call_post k t e t' e' \<Longrightarrow> run_inv good n t \<Longrightarrow> run_inv good k t'"
  using close_step_live [of "t_state t" "t_state t'"]
  by (simp add: call_post_def app_frame_def run_inv_def cong_ok_def)

text \<open>A connection on which the application can send was one before.\<close>

definition can_send :: "'c tcb \<Rightarrow> bool" where
  "can_send t \<longleftrightarrow> t_state t = ESTABLISHED \<or> t_state t = CLOSE_WAIT"

lemma close_step_can_send: "close_step (t_state t) (t_state t') \<Longrightarrow> can_send t' \<Longrightarrow> can_send t"
  by (auto simp: close_step_def can_send_def)

lemma call_post_can_send: "call_post k t e t' e' \<Longrightarrow> can_send t' \<Longrightarrow> can_send t"
  using close_step_can_send [of t t'] by (simp add: call_post_def app_frame_def)

context congestion_controller
begin

lemma snd_step_post:
  assumes inv: "run_inv good k t" and k: "Suc k < 1073741824" and ops: "p_cc P = ops"
    and ack: "\<forall>a w. ev = SndAck a w \<longrightarrow> seq_le a (t_snd_nxt t)"
  shows "\<exists>bs t' e' acked. snd_step P ev (t, e) = Some (bs, t', e') \<and> run_inv good (Suc (Suc k)) t' \<and>
           snd_bytes t @ bs = sym_bytes acked @ snd_bytes t' \<and> t_snd_una t' = at (t_snd_una t) (length acked) \<and>
           (can_send t' \<longrightarrow> can_send t)"
proof (cases "t_state t = CLOSED")
  case True
  have "run_inv good (Suc (Suc k)) t"
    using inv k sender_inv_mono [of k t "Suc (Suc k)"] by (simp add: run_inv_def)
  then show ?thesis using True
    by (intro exI [of _ "[]"] exI [of _ t] exI [of _ e] exI [of _ "[]"]) (simp add: snd_step_def)
next
  case live: False
  have s: "sender_inv k t" using inv by (simp add: run_inv_def)
  show ?thesis
  proof (cases ev)
    case (SndSend data)
    obtain n t' e' where p: "tcp_send P data (t, e) = Some (n, t', e')" "call_post (Suc k) t e t' e'"
      "snd_bytes t' = snd_bytes t @ take (nat n) data"
      using tcp_send_post [OF s Suc_lessD [OF k], of P data e] by (elim exE conjE) (rule that; assumption)
    have "call_post (Suc (Suc k)) t e t' e'" by (rule call_post_mono [OF p(2)]) (use k in simp_all)
    from call_post_run_inv [OF this inv] p live show ?thesis
      by (intro exI [of _ "take (nat n) data"] exI [of _ t'] exI [of _ e'] exI [of _ "[]"])
         (use call_post_can_send [OF p(2)] in \<open>simp add: snd_step_def SndSend call_post_def app_frame_def\<close>)
  next
    case SndClose
    obtain t' e' where p: "tcp_close P (t, e) = Some (False, t', e')" "call_post (Suc (Suc k)) t e t' e'"
      "snd_bytes t' = snd_bytes t"
    proof -
      have "\<not> (t_state t = LISTEN \<or> t_state t = SYN_SENT)" using inv by (simp add: run_inv_def live_state_def)
      moreover obtain d t' e' where x: "tcp_close P (t, e) = Some (d, t', e')" "call_post (Suc (Suc k)) t e t' e'"
        "snd_bytes t' = snd_bytes t" "d \<longleftrightarrow> t_state t = LISTEN \<or> t_state t = SYN_SENT"
        using tcp_close_post [OF s k, of P e] by (elim exE conjE) (rule that; assumption)
      ultimately show ?thesis by (intro that [of t' e']) simp_all
    qed
    from call_post_run_inv [OF p(2) inv] p live show ?thesis
      by (intro exI [of _ "[]"] exI [of _ t'] exI [of _ e'] exI [of _ "[]"])
         (use call_post_can_send [OF p(2)] in \<open>simp add: snd_step_def SndClose call_post_def app_frame_def\<close>)
  next
    case (SndAck a w)
    obtain t' e' where p: "process_ack P a w (t, e) = Some (t', e')" "ack_post good (Suc k) a w t e t' e'"
      using process_ack_post [OF s Suc_lessD [OF k] _ ack [rule_format, OF SndAck] ops, of w e] inv
      unfolding run_inv_def by blast
    have "sender_inv (Suc (Suc k)) t'"
      using p(2) k sender_inv_mono [of "Suc k" t' "Suc (Suc k)"] by (simp add: ack_post_def)
    moreover have "live_state (t_state t')"
      using p(2) inv close_step_live [of "t_state t" "t_state t'"] by (simp add: ack_post_def rcv_frame_def run_inv_def)
    ultimately have "run_inv good (Suc (Suc k)) t'" using p(2) inv by (simp add: run_inv_def ack_post_def)
    moreover have "can_send t' \<longrightarrow> can_send t"
      using close_step_can_send [of t t'] p(2) by (simp add: ack_post_def rcv_frame_def)
    ultimately show ?thesis using p live
      by (intro exI [of _ "[]"] exI [of _ t'] exI [of _ e']
                exI [of _ "take (acked_count a t) (qsyms (t_retransmit_queue t))"])
         (simp add: snd_step_def SndAck ack_post_def min_absorb2)
  next
    case (SndTick dt)
    obtain t' e' where p: "tick_conn P dt (t, e) = Some (t', e')"
      "timer_post t (e\<lparr>e_now := e_now e + dt\<rparr>) t' e'"
      using tick_conn_post [of t P dt e] inv unfolding run_inv_def by blast
    note f = timer_post_clock [OF p(2), of "Suc (Suc k)" good]
    have "run_inv good (Suc (Suc k)) t'"
      using f inv k sender_inv_mono [of k t "Suc (Suc k)"] by (auto simp: run_inv_def live_state_def)
    moreover have "can_send t' \<longrightarrow> can_send t" using f by (auto simp: can_send_def)
    ultimately show ?thesis using p f live
      by (intro exI [of _ "[]"] exI [of _ t'] exI [of _ e'] exI [of _ "[]"]) (simp add: snd_step_def SndTick)
  qed
qed

lemma snd_run_post:
  "run_inv good k t \<Longrightarrow> k + 2 * length evs < 1073741824 \<Longrightarrow> p_cc P = ops \<Longrightarrow> acks_ok P evs (t, e) \<Longrightarrow>
   \<exists>bs t' e' acked. snd_run P evs (t, e) = Some (bs, t', e') \<and> run_inv good (k + 2 * length evs) t' \<and>
     snd_bytes t @ bs = sym_bytes acked @ snd_bytes t' \<and> t_snd_una t' = at (t_snd_una t) (length acked)"
proof (induction evs arbitrary: k t e)
  case Nil
  then show ?case by (intro exI [of _ "[]"] exI [of _ t] exI [of _ e] exI [of _ "[]"]) simp
next
  case (Cons ev evs)
  have ack: "\<forall>a w. ev = SndAck a w \<longrightarrow> seq_le a (t_snd_nxt t)" using Cons.prems(4) by auto
  have small: "Suc k < 1073741824" using Cons.prems(2) by simp
  obtain bs t1 e1 acked where s: "snd_step P ev (t, e) = Some (bs, t1, e1)" "run_inv good (Suc (Suc k)) t1"
    "snd_bytes t @ bs = sym_bytes acked @ snd_bytes t1" "t_snd_una t1 = at (t_snd_una t) (length acked)"
    using snd_step_post [OF Cons.prems(1) small Cons.prems(3) ack, of e] by (elim exE conjE) (rule that; assumption)
  have "acks_ok P evs (t1, e1)" using Cons.prems(4) s(1) by simp
  obtain bs' t' e' acked' where r: "snd_run P evs (t1, e1) = Some (bs', t', e')"
    "run_inv good (Suc (Suc k) + 2 * length evs) t'" "snd_bytes t1 @ bs' = sym_bytes acked' @ snd_bytes t'"
    "t_snd_una t' = at (t_snd_una t1) (length acked')"
  proof -
    have "Suc (Suc k) + 2 * length evs < 1073741824" using Cons.prems(2) by simp
    from Cons.IH [OF s(2) this Cons.prems(3) \<open>acks_ok P evs (t1, e1)\<close>] show ?thesis
      by (elim exE conjE) (rule that; assumption)
  qed
  have "snd_bytes t @ (bs @ bs') = sym_bytes (acked @ acked') @ snd_bytes t'"
    using arg_cong [OF s(3), of "\<lambda>x. x @ bs'"] r(3) by simp
  moreover have "t_snd_una t' = at (t_snd_una t) (length (acked @ acked'))" using r(4) s(4) by (simp add: at_at)
  ultimately show ?case using s(1) r(1,2)
    by (intro exI [of _ "bs @ bs'"] exI [of _ t'] exI [of _ e'] exI [of _ "acked @ acked'"]) simp
qed

end

section \<open>Segments on the wire\<close>

text \<open>\<open>seg\<close>, received from \<open>src\<close> at \<open>dst\<close>, is read as the fields given.\<close>

definition reads_as :: "bytes \<Rightarrow> 'c tcb \<Rightarrow> u8 \<Rightarrow> u32 \<Rightarrow> bytes \<Rightarrow> bool" where
  "reads_as seg t flags seq data \<longleftrightarrow>
     (\<forall>q :: ipv4_packet. ip_src_addr q = tu_local_ip (t_tuple t) \<and> ip_dst_addr q = tu_remote_ip (t_tuple t) \<and> ip_payload q = seg \<longrightarrow>
        (\<exists>s. tcp_parse q = Some s \<and> seg_seq_num s = seq \<and> seg_ack_num s = t_rcv_nxt t \<and> seg_flags s = flags \<and>
             seg_data s = data \<and> seg_src_port s = tu_local_port (t_tuple t) \<and>
             seg_dst_port s = tu_remote_port (t_tuple t) \<and> seg_window s = window_field t \<and>
             seg_src_addr s = tu_local_ip (t_tuple t) \<and> seg_dst_addr s = tu_remote_ip (t_tuple t)))"

lemma build_segment_reads_as:
  assumes "length data \<le> 1460"
  shows "\<exists>seg. build_segment t flags seq data = Some seg \<and> reads_as seg t flags seq data"
proof -
  let ?b = "tcp_builder_new\<lparr>tb_src_port := tu_local_port (t_tuple t), tb_dst_port := tu_remote_port (t_tuple t),
    tb_seq := seq, tb_ack := t_rcv_nxt t, tb_flags := flags, tb_window := window_field t, tb_payload := data\<rparr>"
  obtain raw where raw: "tcp_build ?b 1480 = Some raw" using assms by (simp add: tcp_build_def Let_def)
  have len: "length (tb_payload ?b) \<le> 60000" using assms by simp
  have "reads_as (fill_checksum raw (tu_local_ip (t_tuple t)) (tu_remote_ip (t_tuple t))) t flags seq data"
    unfolding reads_as_def
  proof (intro allI impI, elim conjE)
    fix q :: ipv4_packet
    assume q: "ip_src_addr q = tu_local_ip (t_tuple t)" "ip_dst_addr q = tu_remote_ip (t_tuple t)"
      "ip_payload q = fill_checksum raw (tu_local_ip (t_tuple t)) (tu_remote_ip (t_tuple t))"
    then obtain c where "tcp_parse q = Some (tcp_built_segment ?b (ip_src_addr q) (ip_dst_addr q) c)"
      using tcp_parse_filled [OF len raw, of q] by auto
    then show "\<exists>s. tcp_parse q = Some s \<and> seg_seq_num s = seq \<and> seg_ack_num s = t_rcv_nxt t \<and> seg_flags s = flags \<and>
        seg_data s = data \<and> seg_src_port s = tu_local_port (t_tuple t) \<and>
        seg_dst_port s = tu_remote_port (t_tuple t) \<and> seg_window s = window_field t \<and>
        seg_src_addr s = tu_local_ip (t_tuple t) \<and> seg_dst_addr s = tu_remote_ip (t_tuple t)"
      using q by (simp add: tcp_built_segment_def)
  qed
  then show ?thesis using raw by (simp add: build_segment_def)
qed

section \<open>Properties\<close>

definition fresh_sender :: "('c \<Rightarrow> bool) \<Rightarrow> 'c tcb \<Rightarrow> bool" where
  "fresh_sender good t \<longleftrightarrow>
     t_state t \<in> {ESTABLISHED, CLOSE_WAIT} \<and> \<not> t_on_close t \<and> cong_ok good t \<and>
     sb_live (t_send_buffer t) \<and> sb_empty (t_send_buffer t) \<and> t_retransmit_queue t = [] \<and>
     t_snd_una t = t_snd_nxt t \<and> unat (t_snd_wnd t) \<le> 65535 \<and>
     0 < unat (op_mss (t_options t)) \<and> unat (op_mss (t_options t)) \<le> 1460"

lemma fresh_sender_inv: "fresh_sender good t \<Longrightarrow> run_inv good 0 t \<and> snd_bytes t = []"
  by (auto simp: fresh_sender_def run_inv_def sender_inv_def live_state_def snd_bytes_def sb_empty_def)





definition rto_ok :: "'c tcb \<Rightarrow> bool" where
  "rto_ok t \<longleftrightarrow> 200000 \<le> unat (t_rto_us t) \<and> unat (t_rto_us t) \<le> 60000000"

lemma clamp_rto_bounds: "200000 \<le> unat (clamp_rto r) \<and> unat (clamp_rto r) \<le> 60000000"
  by (auto simp: clamp_rto_def word_less_nat_alt)

text \<open>The retransmission timeout stays between 200 milliseconds and 60 seconds: every RTT
  sample, whatever its value and the wrap-around of the smoothing, sets it within these bounds, and
  backing off keeps it there without overflow.\<close>

theorem rto_bounds:
  "rto_ok (fst (update_rtt P rtt c)) \<and>
   (rto_ok t \<and> \<not> t_on_close t \<longrightarrow>
     (\<exists>t' e'. check_retransmit P (t, e) = Some (t', e') \<and> rto_ok t' \<and>
        unat (t_rto_us t) \<le> unat (t_rto_us t')))"
proof
  obtain t0 e0 where c: "c = (t0, e0)" by fastforce
  obtain s v where "smooth_rtt rtt (t_srtt_us t0, t_rttvar_us t0) = (s, v)" by fastforce
  then show "rto_ok (fst (update_rtt P rtt c))"
    using clamp_rto_bounds by (simp add: c update_rtt_def rto_ok_def)
  show "rto_ok t \<and> \<not> t_on_close t \<longrightarrow>
     (\<exists>t' e'. check_retransmit P (t, e) = Some (t', e') \<and> rto_ok t' \<and> unat (t_rto_us t) \<le> unat (t_rto_us t'))"
  proof (intro impI, elim conjE)
    assume ok: "rto_ok t" and cl: "\<not> t_on_close t"
    have "unat (t_rto_us t * 2) = unat (t_rto_us t) * 2"
      using ok by (simp add: rto_ok_def unat_word_ariths)
    then have m: "unat (min (t_rto_us t * 2) 60000000) = min (unat (t_rto_us t) * 2) 60000000"
      by (simp add: unat_min)
    show "\<exists>t' e'. check_retransmit P (t, e) = Some (t', e') \<and> rto_ok t' \<and> unat (t_rto_us t) \<le> unat (t_rto_us t')"
      using ok cl m by (cases "t_retransmit_queue t") (auto simp: check_retransmit_def Let_def rto_ok_def)
  qed
qed

theorem rto_bounds_witness:
  "rto_ok (fst (update_rtt demo_params 5 (demo_conn, demo_env))) \<and>
   (\<exists>t' e'. check_retransmit demo_params (demo_conn, demo_env) = Some (t', e') \<and> rto_ok t')"
proof -
  have "rto_ok demo_conn \<and> \<not> t_on_close demo_conn" by (simp add: rto_ok_def demo_simps)
  then show ?thesis
    using rto_bounds [of demo_params 5 "(demo_conn, demo_env)" demo_conn demo_env] by blast
qed

lemma stalled_window: "t_snd_una t = t_snd_nxt t + 1 \<Longrightarrow> available_window ops t = 0"
proof -
  assume "t_snd_una t = t_snd_nxt t + 1"
  then have "t_snd_nxt t - t_snd_una t = - 1" by simp
  moreover have "\<not> (- 1 :: u32) < w" for w by (simp add: not_less)
  ultimately show ?thesis by (simp add: available_window_def Let_def)
qed

lemma stalled_loop: "t_snd_una t = t_snd_nxt t + 1 \<Longrightarrow> send_loop P t e = Some (t, e)"
  by (subst send_loop.simps) (simp add: stalled_window)

text \<open>A zero window probe stalls the sender.  The probe carries a byte at \<open>snd_nxt\<close> that is not
  counted as sent; when the peer accepts and acknowledges it, \<open>snd_una\<close> passes \<open>snd_nxt\<close>, the data
  in flight wraps around, and from then on no window, however large, lets a buffered byte out.\<close>

theorem probe_ack_stalls:
  assumes "t_retransmit_queue t = []" and "t_snd_una t = t_snd_nxt t"
    and "congestion_controller good (p_cc P)" and "cong_ok good t"
    and "\<not> p_metrics_buf P" and "\<not> sb_empty (t_send_buffer t)"
  shows "\<exists>t'. process_ack P (t_snd_nxt t + 1) window (t, e) = Some (t', e) \<and>
     t_snd_nxt t' = t_snd_nxt t \<and> t_send_buffer t' = t_send_buffer t \<and>
     (\<forall>w e. send_loop P (t'\<lparr>t_snd_wnd := w\<rparr>) e = Some (t'\<lparr>t_snd_wnd := w\<rparr>, e))"
proof -
  have gt: "seq_gt (t_snd_nxt t + 1) (t_snd_nxt t)" by (simp add: seq_gt_iff_dist dist_def)
  have "cong_ok good (t\<lparr>t_snd_wnd := ucast window, t_snd_una := t_snd_nxt t + 1\<rparr>)"
    using assms(4) by (simp add: cong_ok_def)
  then obtain cc where cc: "(case t_congestion t of
        Some c \<Rightarrow> map_option Some (cg_on_ack (p_cc P) 1 (t_srtt_us t) c) | None \<Rightarrow> Some None) = Some cc"
    using congestion_controller.on_ack_total [OF assms(3)] by fastforce
  let ?t = "t\<lparr>t_snd_wnd := ucast window, t_snd_una := t_snd_nxt t + 1, t_congestion := cc,
    t_bytes_acked_period := t_bytes_acked_period t + 1, t_retransmit_queue := [],
    t_dup_ack_count := 0, t_last_ack_num := t_snd_nxt t + 1\<rparr>"
  have "check_dup_ack P (t_snd_nxt t + 1) (t\<lparr>t_snd_wnd := ucast window\<rparr>, e) = (t\<lparr>t_snd_wnd := ucast window\<rparr>, e)"
    using assms(1) by (simp add: check_dup_ack_def)
  moreover have "send_buffered_data P (?t, e) = Some (?t\<lparr>t_rcv_wnd := backpressure_window ?t\<rparr>, e)"
    using stalled_loop [of ?t P e] assms(6) by (simp add: send_buffered_data_def finish_pending_close_def)
  moreover have "push_sample P (?t\<lparr>t_rcv_wnd := backpressure_window ?t\<rparr>, e) =
      Some (?t\<lparr>t_rcv_wnd := backpressure_window ?t\<rparr>, e)"
    using assms(5) by (simp add: push_sample_def)
  ultimately have "process_ack P (t_snd_nxt t + 1) window (t, e) =
      Some (?t\<lparr>t_rcv_wnd := backpressure_window ?t\<rparr>, e)"
    using gt assms(1,2) cc by (simp add: process_ack_def Let_def cong: option.case_cong)
  then show ?thesis
    by (intro exI [of _ "?t\<lparr>t_rcv_wnd := backpressure_window ?t\<rparr>"]) (simp add: stalled_loop)
qed

theorem probe_ack_stalls_witness:
  "\<exists>t'. process_ack demo_params 0xFFFFFFF2 60000
      (demo_conn\<lparr>t_send_buffer := snd (sb_write (sb_new 16) [1, 2])\<rparr>, demo_env) = Some (t', demo_env) \<and>
     (\<forall>w e. send_loop demo_params (t'\<lparr>t_snd_wnd := w\<rparr>) e = Some (t'\<lparr>t_snd_wnd := w\<rparr>, e))"
proof -
  let ?t = "demo_conn\<lparr>t_send_buffer := snd (sb_write (sb_new 16) [1, 2])\<rparr>"
  have "sb_write (sb_new 16) [1, 2] = (2, snd (sb_write (sb_new 16) [1, 2]))" "\<not> sb_empty (snd (sb_write (sb_new 16) [1, 2]))"
    by (simp_all add: sb_write_def sb_new_def sb_empty_def sb_available_def Let_def)
  then have "\<exists>t'. process_ack demo_params (t_snd_nxt ?t + 1) 60000 (?t, demo_env) = Some (t', demo_env) \<and>
     t_snd_nxt t' = t_snd_nxt ?t \<and> t_send_buffer t' = t_send_buffer ?t \<and>
     (\<forall>w e. send_loop demo_params (t'\<lparr>t_snd_wnd := w\<rparr>) e = Some (t'\<lparr>t_snd_wnd := w\<rparr>, e))"
    by (intro probe_ack_stalls [where good = reno_wf])
       (use reno.congestion_controller_axioms in \<open>simp_all add: demo_simps cong_ok_def cg_inv_def reno_wf_new\<close>)
  then show ?thesis by (simp add: demo_simps) blast
qed

end
