(* ===== verification/Tcp_Receive.thy ===== *)
theory Tcp_Receive
  imports Tcp_Ack
begin

text \<open>
  The receiving half of \<^verbatim>\<open>src/transport/tcp_connection.cpp\<close>: delivery to the application, the
  queue of out-of-order segments and \<open>handle_data\<close>.  \<open>None\<close> stands for a copy past the array of
  an out-of-order segment and for a size that would wrap below zero.
\<close>

definition deliver_data :: "('c, 'a) params \<Rightarrow> bytes \<Rightarrow> ('c, 'a) conn \<Rightarrow> ('c, 'a) conn option" where
  "deliver_data P data = (\<lambda>(t, e). do {
     (t1, e1) \<leftarrow> (if t_on_receive t then run_callback P (OnReceive data) (t, e) else Some (t, e));
     Some (t1\<lparr>t_rcv_wnd := backpressure_window t1\<rparr>, e1)
   })"

fun ooo_insert :: "ooo_segment \<Rightarrow> ooo_segment list \<Rightarrow> ooo_segment list" where
  "ooo_insert s [] = [s]"
| "ooo_insert s (x # xs) =
    (if seq_lt (oo_seq_start x) (oo_seq_start s) then x # ooo_insert s xs else s # x # xs)"

definition add_to_ooo_queue :: "u32 \<Rightarrow> bytes \<Rightarrow> 'c tcb \<Rightarrow> 'c tcb option" where
  "add_to_ooo_queue seq data t =
    (if t_ooo_size t + length data > unat (op_recv_buffer_size (t_options t)) then Some t
     else if length data > TCP_MSS_MAX then None
     else Some (t\<lparr>t_ooo_queue :=
              ooo_insert \<lparr>oo_seq_start = seq, oo_seq_end = seq + of_nat (length data), oo_data = data\<rparr>
                (t_ooo_queue t),
            t_ooo_size := t_ooo_size t + length data\<rparr>))"

definition ooo_pop :: "'c tcb \<Rightarrow> 'c tcb option" where
  "ooo_pop t =
    (case t_ooo_queue t of
       [] \<Rightarrow> None
     | front # rest \<Rightarrow>
         if t_ooo_size t < length (oo_data front) then None
         else Some (t\<lparr>t_ooo_size := t_ooo_size t - length (oo_data front), t_ooo_queue := rest\<rparr>))"

partial_function (option) deliver_ooo_data ::
  "('c, 'a) params \<Rightarrow> 'c tcb \<Rightarrow> 'a env \<Rightarrow> ('c, 'a) conn option" where
  "deliver_ooo_data P t e =
    (case t_ooo_queue t of
       [] \<Rightarrow> Some (t, e)
     | front # rest \<Rightarrow>
         if seq_gt (oo_seq_start front) (t_rcv_nxt t) then Some (t, e)
         else if seq_le (oo_seq_end front) (t_rcv_nxt t)
         then Option.bind (ooo_pop t) (\<lambda>t1. deliver_ooo_data P t1 e)
         else
           let skip = (if seq_lt (oo_seq_start front) (t_rcv_nxt t)
                       then unat (t_rcv_nxt t - oo_seq_start front) else 0)
           in if skip > length (oo_data front) then None
              else Option.bind (deliver_data P (drop skip (oo_data front)) (t, e))
                (\<lambda>(t1, e1). Option.bind (ooo_pop (t1\<lparr>t_rcv_nxt := oo_seq_end front\<rparr>))
                   (\<lambda>t2. deliver_ooo_data P t2 e1)))"

definition delayed_ack :: "('c, 'a) params \<Rightarrow> ('c, 'a) conn \<Rightarrow> ('c, 'a) conn" where
  "delayed_ack P = (\<lambda>(t, e).
    if op_delayed_ack_enabled (t_options t) then
      if \<not> t_delayed_ack_pending t
      then (t\<lparr>t_delayed_ack_pending := True,
              t_delayed_ack_time := e_now e + uint (op_delayed_ack_timeout_ms (t_options t)) * 1000000\<rparr>, e)
      else (case send_segment P ACK [] (t, e) of (t1, e1) \<Rightarrow> (t1\<lparr>t_delayed_ack_pending := False\<rparr>, e1))
    else send_segment P ACK [] (t, e))"

definition handle_data :: "('c, 'a) params \<Rightarrow> tcp_segment \<Rightarrow> ('c, 'a) conn \<Rightarrow> ('c, 'a) conn option" where
  "handle_data P seg = (\<lambda>(t, e).
    if data_length seg = 0 then Some (t, e)
    else
      let seg_end = seg_seq_num seg + of_nat (data_length seg) in
      if seq_le seg_end (t_rcv_nxt t) then Some (t, e)
      else
        let partly = seq_lt (seg_seq_num seg) (t_rcv_nxt t);
            overlap = unat (t_rcv_nxt t - seg_seq_num seg)
        in
        if partly \<and> overlap \<ge> data_length seg then Some (t, e)
        else
          let seg_start = (if partly then t_rcv_nxt t else seg_seq_num seg);
              data = (if partly then drop overlap (seg_data seg) else seg_data seg)
          in
          if seg_start = t_rcv_nxt t then do {
            (t1, e1) \<leftarrow> deliver_data P data (t, e);
            (t2, e2) \<leftarrow> deliver_ooo_data P (t1\<lparr>t_rcv_nxt := seg_end\<rparr>) e1;
            Some (delayed_ack P (t2, e2))
          }
          else do {
            t1 \<leftarrow> add_to_ooo_queue seg_start data t;
            Some (send_segment P ACK [] (t1, e))
          })"

end
