(* ===== verification/Tcp_Machine.thy ===== *)
theory Tcp_Machine
  imports Tcp_Receive
begin

text \<open>
  The state machine and the connection manager of \<^verbatim>\<open>src/transport/tcp_connection.cpp\<close>.  A handler
  works on one connection and says what it does last: nothing, deleting the control block, or
  starting or restarting the TIME_WAIT timer; the manager carries that out on its tables.  The
  connection table is an association list, in some iteration order of the hash table.
\<close>

section \<open>Handlers of one connection\<close>

datatype post = Done | Delete | StartTimeWait | RestartTimeWait

definition counted_active :: "tcp_state \<Rightarrow> bool" where
  "counted_active s \<longleftrightarrow>
     s \<in> {ESTABLISHED, FIN_WAIT_1, FIN_WAIT_2, CLOSE_WAIT, CLOSING, LAST_ACK, TIME_WAIT}"

definition count_established :: "'a env \<Rightarrow> 'a env" where
  "count_established e = e\<lparr>e_metrics := (e_metrics e)
     \<lparr>gm_active_connections := gm_active_connections (e_metrics e) + 1,
      gm_conn_established := gm_conn_established (e_metrics e) + 1\<rparr>\<rparr>"

definition handle_closed :: "('c, 'a) params \<Rightarrow> u32 \<Rightarrow> tcp_segment \<Rightarrow> ('c, 'a) conn \<Rightarrow> ('c, 'a) conn" where
  "handle_closed P local_ip seg = (\<lambda>(t, e). (t, if \<not> is_rst seg then send_rst P local_ip seg e else e))"

definition handle_syn_sent ::
  "('c, 'a) params \<Rightarrow> u32 \<Rightarrow> tcp_segment \<Rightarrow> ('c, 'a) conn \<Rightarrow> ('c, 'a) conn option" where
  "handle_syn_sent P local_ip seg = (\<lambda>(t, e).
    if is_syn seg \<and> is_ack seg then
      if seg_ack_num seg \<noteq> t_iss t + 1 then Some (t, send_rst P local_ip seg e)
      else do {
        let t1 = t\<lparr>t_irs := seg_seq_num seg, t_rcv_nxt := seg_seq_num seg + 1\<rparr>;
        c2 \<leftarrow> process_ack P (seg_ack_num seg) (seg_window seg) (t1, e);
        let (t3, e3) = send_segment P ACK [] c2;
        let t4 = t3\<lparr>t_state := ESTABLISHED\<rparr>;
        let e4 = count_established e3;
        if t_on_connect t4 then run_callback P (OnConnect 0) (t4, e4) else Some (t4, e4)
      }
    else if is_syn seg \<and> \<not> is_ack seg then
      let t1 = t\<lparr>t_irs := seg_seq_num seg, t_rcv_nxt := seg_seq_num seg + 1,
                 t_retransmit_queue := [], t_snd_nxt := t_iss t\<rparr>
      in case send_segment P (SYN OR ACK) [] (t1, e) of (t2, e2) \<Rightarrow> Some (t2\<lparr>t_state := SYN_RCVD\<rparr>, e2)
    else Some (t, e))"

definition handle_established ::
  "('c, 'a) params \<Rightarrow> tcp_segment \<Rightarrow> ('c, 'a) conn \<Rightarrow> ('c, 'a) conn option" where
  "handle_established P seg c = do {
     c1 \<leftarrow> (if is_ack seg then process_ack P (seg_ack_num seg) (seg_window seg) c else Some c);
     (t2, e2) \<leftarrow> (if data_length seg > 0 then handle_data P seg c1 else Some c1);
     if is_fin seg then
       let fin_seq = seg_seq_num seg + of_nat (data_length seg) in
       if fin_seq = t_rcv_nxt t2 then
         case send_segment P ACK [] (t2\<lparr>t_rcv_nxt := t_rcv_nxt t2 + 1\<rparr>, e2) of
           (t3, e3) \<Rightarrow>
             let t4 = t3\<lparr>t_state := CLOSE_WAIT\<rparr>
             in if t_on_close t4 then run_callback P OnClose (t4, e3) else Some (t4, e3)
       else Some (t2, e2)
     else Some (t2, e2)
   }"

text \<open>The test for RST at its head, and whether \<open>on_connect\<close> reports the failure.\<close>

definition handle_syn_rcvd ::
  "('c, 'a) params \<Rightarrow> u32 \<Rightarrow> tcp_segment \<Rightarrow> ('c, 'a) conn \<Rightarrow> (post \<times> ('c, 'a) conn) option" where
  "handle_syn_rcvd P local_ip seg = (\<lambda>(t, e).
    if is_rst seg then
      if t_passive_open t then Some (Delete, t, e)
      else do {
        (t1, e1) \<leftarrow> (if t_on_connect t then run_callback P (OnConnect (-1)) (t, e) else Some (t, e));
        Some (Delete, t1\<lparr>t_state := CLOSED\<rparr>, e1)
      }
    else if \<not> is_ack seg then Some (Done, t, e)
    else if \<not> seq_gt (seg_ack_num seg) (t_snd_una t) \<or> seq_gt (seg_ack_num seg) (t_snd_nxt t)
    then Some (Done, t, send_rst P local_ip seg e)
    else do {
      (t1, e1) \<leftarrow> process_ack P (seg_ack_num seg) (seg_window seg) (t, e);
      let t2 = t1\<lparr>t_state := ESTABLISHED\<rparr>;
      let e2 = count_established e1;
      c3 \<leftarrow> (if t_on_connect t2 then run_callback P (OnConnect 0) (t2, e2) else Some (t2, e2));
      c4 \<leftarrow> (if data_length seg > 0 then handle_established P seg c3 else Some c3);
      Some (Done, c4)
    })"

definition handle_fin_wait_1 ::
  "('c, 'a) params \<Rightarrow> tcp_segment \<Rightarrow> ('c, 'a) conn \<Rightarrow> (post \<times> ('c, 'a) conn) option" where
  "handle_fin_wait_1 P seg c = do {
     c1 \<leftarrow> (if is_ack seg then process_ack P (seg_ack_num seg) (seg_window seg) c else Some c);
     let our_fin_acked = (is_ack seg \<and> t_snd_una (fst c1) = t_snd_nxt (fst c1));
     (t2, e2) \<leftarrow> (if data_length seg > 0 then handle_data P seg c1 else Some c1);
     if is_fin seg \<and> seg_seq_num seg + of_nat (data_length seg) = t_rcv_nxt t2 then
       case send_segment P ACK [] (t2\<lparr>t_rcv_nxt := t_rcv_nxt t2 + 1\<rparr>, e2) of
         (t3, e3) \<Rightarrow>
           if our_fin_acked then Some (StartTimeWait, t3\<lparr>t_state := TIME_WAIT\<rparr>, e3)
           else Some (Done, t3\<lparr>t_state := CLOSING\<rparr>, e3)
     else Some (Done, if our_fin_acked then t2\<lparr>t_state := FIN_WAIT_2\<rparr> else t2, e2)
   }"

definition handle_fin_wait_2 ::
  "('c, 'a) params \<Rightarrow> tcp_segment \<Rightarrow> ('c, 'a) conn \<Rightarrow> (post \<times> ('c, 'a) conn) option" where
  "handle_fin_wait_2 P seg c = do {
     c1 \<leftarrow> (if is_ack seg then process_ack P (seg_ack_num seg) (seg_window seg) c else Some c);
     (t2, e2) \<leftarrow> (if data_length seg > 0 then handle_data P seg c1 else Some c1);
     if is_fin seg \<and> seg_seq_num seg + of_nat (data_length seg) = t_rcv_nxt t2 then
       case send_segment P ACK [] (t2\<lparr>t_rcv_nxt := t_rcv_nxt t2 + 1\<rparr>, e2) of
         (t3, e3) \<Rightarrow> Some (StartTimeWait, t3\<lparr>t_state := TIME_WAIT\<rparr>, e3)
     else Some (Done, t2, e2)
   }"

definition handle_close_wait ::
  "('c, 'a) params \<Rightarrow> tcp_segment \<Rightarrow> ('c, 'a) conn \<Rightarrow> (post \<times> ('c, 'a) conn) option" where
  "handle_close_wait P seg c = do {
     c1 \<leftarrow> (if is_ack seg then process_ack P (seg_ack_num seg) (seg_window seg) c else Some c);
     Some (Done, c1)
   }"

definition handle_closing ::
  "('c, 'a) params \<Rightarrow> tcp_segment \<Rightarrow> ('c, 'a) conn \<Rightarrow> (post \<times> ('c, 'a) conn) option" where
  "handle_closing P seg c =
    (if is_ack seg then do {
       (t1, e1) \<leftarrow> process_ack P (seg_ack_num seg) (seg_window seg) c;
       if t_snd_una t1 = t_snd_nxt t1 then Some (StartTimeWait, t1\<lparr>t_state := TIME_WAIT\<rparr>, e1)
       else Some (Done, t1, e1)
     } else Some (Done, c))"

definition handle_last_ack ::
  "('c, 'a) params \<Rightarrow> tcp_segment \<Rightarrow> ('c, 'a) conn \<Rightarrow> (post \<times> ('c, 'a) conn) option" where
  "handle_last_ack P seg c =
    (if is_ack seg then do {
       (t1, e1) \<leftarrow> process_ack P (seg_ack_num seg) (seg_window seg) c;
       if t_snd_una t1 = t_snd_nxt t1 then Some (Delete, t1\<lparr>t_state := CLOSED\<rparr>, e1)
       else Some (Done, t1, e1)
     } else Some (Done, c))"

definition handle_time_wait ::
  "('c, 'a) params \<Rightarrow> tcp_segment \<Rightarrow> ('c, 'a) conn \<Rightarrow> (post \<times> ('c, 'a) conn) option" where
  "handle_time_wait P seg c =
    (if is_fin seg then Some (RestartTimeWait, send_segment P ACK [] c) else Some (Done, c))"

definition handle_rst ::
  "('c, 'a) params \<Rightarrow> tcp_segment \<Rightarrow> ('c, 'a) conn \<Rightarrow> (post \<times> ('c, 'a) conn) option" where
  "handle_rst P seg = (\<lambda>(t, e).
    if \<not> seq_in_range (seg_seq_num seg) (t_rcv_nxt t) (t_rcv_nxt t + t_rcv_wnd t) then Some (Done, t, e)
    else do {
      let m = e_metrics e;
      let m1 = m\<lparr>gm_conn_reset := gm_conn_reset m + 1\<rparr>;
      let m2 = (if counted_active (t_state t)
                then m1\<lparr>gm_active_connections := gm_active_connections m1 - 1\<rparr> else m1);
      let t1 = t\<lparr>t_state := CLOSED\<rparr>;
      let e1 = e\<lparr>e_metrics := m2\<rparr>;
      (t2, e2) \<leftarrow> (if t_on_close t1 then run_callback P OnClose (t1, e1) else Some (t1, e1));
      Some (Delete, t2, e2)
    })"

text \<open>The switch of \<open>on_segment_received\<close> for the control block of a connection.\<close>

definition dispatch ::
  "('c, 'a) params \<Rightarrow> u32 \<Rightarrow> tcp_segment \<Rightarrow> ('c, 'a) conn \<Rightarrow> (post \<times> ('c, 'a) conn) option" where
  "dispatch P local_ip seg c =
    (if is_rst seg then handle_rst P seg c
     else case t_state (fst c) of
       CLOSED \<Rightarrow> Some (Done, handle_closed P local_ip seg c)
     | LISTEN \<Rightarrow> Some (Done, c)
     | SYN_SENT \<Rightarrow> map_option (\<lambda>c. (Done, c)) (handle_syn_sent P local_ip seg c)
     | SYN_RCVD \<Rightarrow> handle_syn_rcvd P local_ip seg c
     | ESTABLISHED \<Rightarrow> map_option (\<lambda>c. (Done, c)) (handle_established P seg c)
     | FIN_WAIT_1 \<Rightarrow> handle_fin_wait_1 P seg c
     | FIN_WAIT_2 \<Rightarrow> handle_fin_wait_2 P seg c
     | CLOSE_WAIT \<Rightarrow> handle_close_wait P seg c
     | CLOSING \<Rightarrow> handle_closing P seg c
     | LAST_ACK \<Rightarrow> handle_last_ack P seg c
     | TIME_WAIT \<Rightarrow> handle_time_wait P seg c)"

section \<open>The manager\<close>

record ('c, 'a) mgr =
  m_local_ip :: u32
  m_default_options :: tcp_options
  m_connections :: "(tcp_tuple \<times> 'c tcb) list"
  m_listeners :: "u16 \<Rightarrow> 'c tcb option"
  m_time_wait :: "(int \<times> tcp_tuple) list"
  m_env :: "'a env"

definition TIME_WAIT_DURATION :: int where "TIME_WAIT_DURATION = 32 * 1000000000"
definition MAX_CONNECTIONS :: nat where "MAX_CONNECTIONS = 10000"
definition MAX_TIME_WAIT_ENTRIES :: nat where "MAX_TIME_WAIT_ENTRIES = 4000"

fun conn_put :: "tcp_tuple \<Rightarrow> 'c tcb \<Rightarrow> (tcp_tuple \<times> 'c tcb) list \<Rightarrow> (tcp_tuple \<times> 'c tcb) list" where
  "conn_put k v [] = [(k, v)]"
| "conn_put k v ((k', v') # xs) = (if k = k' then (k, v) # xs else (k', v') # conn_put k v xs)"

definition conn_erase :: "tcp_tuple \<Rightarrow> (tcp_tuple \<times> 'c tcb) list \<Rightarrow> (tcp_tuple \<times> 'c tcb) list" where
  "conn_erase k xs = filter (\<lambda>(k', _). k' \<noteq> k) xs"

definition find_tcb :: "tcp_tuple \<Rightarrow> ('c, 'a) mgr \<Rightarrow> 'c tcb option" where
  "find_tcb tu m = map_of (m_connections m) tu"

definition find_listening_tcb :: "u16 \<Rightarrow> ('c, 'a) mgr \<Rightarrow> 'c tcb option" where
  "find_listening_tcb port m = m_listeners m port"

definition create_tcb :: "('c, 'a) params \<Rightarrow> tcp_tuple \<Rightarrow> ('c, 'a) mgr \<Rightarrow> 'c tcb" where
  "create_tcb P tu m =
    (let t = apply_options (m_default_options m)
               (tcb_new\<lparr>t_tuple := tu, t_state := CLOSED, t_last_activity := e_now (m_env m)\<rparr>)
     in t\<lparr>t_congestion := Some (CCVirtual (cc_new (p_cc P) (op_mss (t_options t))))\<rparr>)"

definition store :: "tcp_tuple \<Rightarrow> ('c, 'a) conn \<Rightarrow> ('c, 'a) mgr \<Rightarrow> ('c, 'a) mgr" where
  "store tu c m = m\<lparr>m_connections := conn_put tu (fst c) (m_connections m), m_env := snd c\<rparr>"

text \<open>\<open>delete_tcb\<close> for a control block of the connection table and for a listening one.\<close>

definition delete_connection :: "tcp_tuple \<Rightarrow> ('c, 'a) mgr \<Rightarrow> ('c, 'a) mgr" where
  "delete_connection tu m =
    (case find_tcb tu m of
       None \<Rightarrow> m
     | Some t \<Rightarrow>
         let g = e_metrics (m_env m);
             g1 = (if counted_active (t_state t)
                   then g\<lparr>gm_active_connections := gm_active_connections g - 1\<rparr> else g);
             g2 = g1\<lparr>gm_conn_closed := gm_conn_closed g1 + 1\<rparr>
         in m\<lparr>m_connections := conn_erase tu (m_connections m),
              m_env := (m_env m)\<lparr>e_metrics := g2\<rparr>\<rparr>)"

definition delete_listener :: "u16 \<Rightarrow> ('c, 'a) mgr \<Rightarrow> ('c, 'a) mgr" where
  "delete_listener port m = m\<lparr>m_listeners := (m_listeners m)(port := None)\<rparr>"

text \<open>
  The eviction loop of \<open>start_time_wait_timer\<close>.  A stale entry may name the very block the
  timer is started for; the code then goes on with a freed pointer.
\<close>

definition close_time_wait :: "tcp_tuple \<Rightarrow> ('c, 'a) mgr \<Rightarrow> ('c, 'a) mgr" where
  "close_time_wait tu m =
    (case find_tcb tu m of
       Some t \<Rightarrow> if t_state t = TIME_WAIT
                 then delete_connection tu (store tu (t\<lparr>t_state := CLOSED\<rparr>, m_env m) m)
                 else m
     | None \<Rightarrow> m)"

fun evict_time_wait :: "(int \<times> tcp_tuple) list \<Rightarrow> ('c, 'a) mgr \<Rightarrow> ('c, 'a) mgr" where
  "evict_time_wait [] m = m\<lparr>m_time_wait := []\<rparr>"
| "evict_time_wait (x # xs) m =
    (if length (x # xs) \<ge> MAX_TIME_WAIT_ENTRIES
     then evict_time_wait xs (close_time_wait (snd x) m)
     else m\<lparr>m_time_wait := x # xs\<rparr>)"

definition start_time_wait_timer :: "tcp_tuple \<Rightarrow> ('c, 'a) mgr \<Rightarrow> ('c, 'a) mgr option" where
  "start_time_wait_timer tu m =
    (let m1 = evict_time_wait (m_time_wait m) m in
     case find_tcb tu m1 of
       None \<Rightarrow> None
     | Some t \<Rightarrow>
         let t1 = t\<lparr>t_send_buffer := sb_new 0, t_recv_buffer := sb_new 0, t_retransmit_queue := [],
                    t_ooo_queue := [], t_ooo_size := 0\<rparr>
         in Some ((store tu (t1, m_env m1) m1)
              \<lparr>m_time_wait := m_time_wait m1 @ [(e_now (m_env m1) + TIME_WAIT_DURATION, t_tuple t)]\<rparr>))"

fun renew_time_wait :: "int \<Rightarrow> tcp_tuple \<Rightarrow> (int \<times> tcp_tuple) list \<Rightarrow> (int \<times> tcp_tuple) list option" where
  "renew_time_wait expire tu [] = None"
| "renew_time_wait expire tu ((x, tu') # xs) =
    (if tu' = tu then Some ((expire, tu') # xs)
     else map_option (Cons (x, tu')) (renew_time_wait expire tu xs))"

definition restart_time_wait_timer :: "tcp_tuple \<Rightarrow> ('c, 'a) mgr \<Rightarrow> ('c, 'a) mgr option" where
  "restart_time_wait_timer tu m =
    (case renew_time_wait (e_now (m_env m) + TIME_WAIT_DURATION) tu (m_time_wait m) of
       Some xs \<Rightarrow> Some (m\<lparr>m_time_wait := xs\<rparr>)
     | None \<Rightarrow> start_time_wait_timer tu m)"

definition run_post :: "tcp_tuple \<Rightarrow> post \<Rightarrow> ('c, 'a) mgr \<Rightarrow> ('c, 'a) mgr option" where
  "run_post tu p m =
    (case p of
       Done \<Rightarrow> Some m
     | Delete \<Rightarrow> Some (delete_connection tu m)
     | StartTimeWait \<Rightarrow> start_time_wait_timer tu m
     | RestartTimeWait \<Rightarrow> restart_time_wait_timer tu m)"

section \<open>Receiving a segment\<close>

definition handle_listen :: "('c, 'a) params \<Rightarrow> 'c tcb \<Rightarrow> tcp_segment \<Rightarrow> ('c, 'a) mgr \<Rightarrow> ('c, 'a) mgr" where
  "handle_listen P listen seg m =
    (if \<not> is_syn seg \<or> is_ack seg then m
     else if length (m_connections m) \<ge> MAX_CONNECTIONS then m
     else
       let tu = \<lparr>tu_local_ip = m_local_ip m, tu_remote_ip = seg_src_addr seg,
                 tu_local_port = tu_local_port (t_tuple listen), tu_remote_port = seg_src_port seg\<rparr>;
           iss = generate_isn (p_isn_k0 P) (p_isn_k1 P) (e_now (m_env m)) tu;
           t = (create_tcb P tu m)
                 \<lparr>t_passive_open := True, t_on_connect := t_on_connect listen,
                  t_on_receive := t_on_receive listen, t_on_close := t_on_close listen,
                  t_irs := seg_seq_num seg, t_rcv_nxt := seg_seq_num seg + 1,
                  t_iss := iss, t_snd_una := iss, t_snd_nxt := iss, t_snd_wnd := ucast (seg_window seg)\<rparr>
       in case send_segment P (SYN OR ACK) [] (t, m_env m) of
            (t1, e1) \<Rightarrow> store tu (t1\<lparr>t_state := SYN_RCVD\<rparr>, e1) m)"

definition count_received :: "tcp_segment \<Rightarrow> 'a env \<Rightarrow> 'a env" where
  "count_received seg e =
    (let g = e_metrics e;
         g1 = g\<lparr>gm_packets_rx := gm_packets_rx g + 1,
                gm_bytes_rx := gm_bytes_rx g + of_nat (data_length seg + 20)\<rparr>;
         g2 = (if is_syn seg \<and> \<not> is_ack seg then g1\<lparr>gm_syn_received := gm_syn_received g1 + 1\<rparr> else g1);
         g3 = (if is_rst seg then g2\<lparr>gm_rst_received := gm_rst_received g2 + 1\<rparr> else g2);
         g4 = (if is_fin seg then g3\<lparr>gm_fin_received := gm_fin_received g3 + 1\<rparr> else g3)
     in e\<lparr>e_metrics := g4\<rparr>)"

definition segment_tuple :: "tcp_segment \<Rightarrow> tcp_tuple" where
  "segment_tuple seg =
     \<lparr>tu_local_ip = seg_dst_addr seg, tu_remote_ip = seg_src_addr seg,
      tu_local_port = seg_dst_port seg, tu_remote_port = seg_src_port seg\<rparr>"

definition on_segment_received ::
  "('c, 'a) params \<Rightarrow> tcp_segment \<Rightarrow> ('c, 'a) mgr \<Rightarrow> ('c, 'a) mgr option" where
  "on_segment_received P seg m0 =
    (let m = m0\<lparr>m_env := count_received seg (m_env m0)\<rparr>; tu = segment_tuple seg in
     case find_tcb tu m of
       Some t \<Rightarrow> do {
         (p, c) \<leftarrow> dispatch P (m_local_ip m) seg (t, m_env m);
         run_post tu p (store tu c m)
       }
     | None \<Rightarrow>
         (case find_listening_tcb (seg_dst_port seg) m of
            Some l \<Rightarrow>
              if is_rst seg then do {
                (p, l', e') \<leftarrow> handle_rst P seg (l, m_env m);
                let m1 = m\<lparr>m_listeners := (m_listeners m)(seg_dst_port seg \<mapsto> l'), m_env := e'\<rparr>;
                Some (if p = Delete then delete_listener (seg_dst_port seg) m1 else m1)
              }
              else if t_state l = LISTEN then Some (handle_listen P l seg m)
              else None
          | None \<Rightarrow>
              Some (if \<not> is_rst seg
                    then m\<lparr>m_env := send_rst P (m_local_ip m) seg (m_env m)\<rparr> else m)))"

section \<open>The application's operations\<close>

definition listen_port :: "u16 \<Rightarrow> ('c, 'a) mgr \<Rightarrow> int \<times> ('c, 'a) mgr" where
  "listen_port port m =
    (if port = 0 then (-1, m)
     else if m_listeners m port \<noteq> None then (-1, m)
     else (0, m\<lparr>m_listeners := (m_listeners m)(port \<mapsto>
            tcb_new\<lparr>t_state := LISTEN,
              t_tuple := \<lparr>tu_local_ip = m_local_ip m, tu_remote_ip = 0, tu_local_port = port,
                          tu_remote_port = 0\<rparr>,
              t_on_connect := True\<rparr>)\<rparr>))"

definition set_listener_callbacks :: "u16 \<Rightarrow> bool \<Rightarrow> bool \<Rightarrow> ('c, 'a) mgr \<Rightarrow> ('c, 'a) mgr" where
  "set_listener_callbacks port r cl m =
    (case m_listeners m port of
       Some l \<Rightarrow> m\<lparr>m_listeners := (m_listeners m)(port \<mapsto> l\<lparr>t_on_receive := r, t_on_close := cl\<rparr>)\<rparr>
     | None \<Rightarrow> m)"

definition unlisten_port :: "u16 \<Rightarrow> ('c, 'a) mgr \<Rightarrow> ('c, 'a) mgr" where
  "unlisten_port port m = m\<lparr>m_listeners := (m_listeners m)(port := None)\<rparr>"

definition connect :: "('c, 'a) params \<Rightarrow> u32 \<Rightarrow> u16 \<Rightarrow> u16 \<Rightarrow> ('c, 'a) mgr \<Rightarrow> int \<times> ('c, 'a) mgr" where
  "connect P remote_ip remote_port local_port m =
    (let tu = \<lparr>tu_local_ip = m_local_ip m, tu_remote_ip = remote_ip, tu_local_port = local_port,
               tu_remote_port = remote_port\<rparr> in
     if length (m_connections m) \<ge> MAX_CONNECTIONS then (-1, m)
     else if find_tcb tu m \<noteq> None then (-1, m)
     else
       let iss = generate_isn (p_isn_k0 P) (p_isn_k1 P) (e_now (m_env m)) tu;
           t = (create_tcb P tu m)\<lparr>t_on_connect := True, t_iss := iss, t_snd_una := iss, t_snd_nxt := iss\<rparr>
       in case send_segment P SYN [] (t, m_env m) of
            (t1, e1) \<Rightarrow> (0, store tu (t1\<lparr>t_state := SYN_SENT\<rparr>, e1) m))"

text \<open>\<open>send\<close> and \<open>close\<close> through the pointer of a connection; a dangling one traps.\<close>

definition mgr_send :: "('c, 'a) params \<Rightarrow> tcp_tuple \<Rightarrow> bytes \<Rightarrow> ('c, 'a) mgr \<Rightarrow> (int \<times> ('c, 'a) mgr) option" where
  "mgr_send P tu data m = do {
     t \<leftarrow> find_tcb tu m;
     (n, c) \<leftarrow> tcp_send P data (t, m_env m);
     Some (n, store tu c m)
   }"

definition mgr_close :: "('c, 'a) params \<Rightarrow> tcp_tuple \<Rightarrow> ('c, 'a) mgr \<Rightarrow> ('c, 'a) mgr option" where
  "mgr_close P tu m = do {
     t \<leftarrow> find_tcb tu m;
     (deleted, c) \<leftarrow> tcp_close P (t, m_env m);
     Some (if deleted then delete_connection tu (store tu c m) else store tu c m)
   }"

definition is_port_in_use :: "u16 \<Rightarrow> ('c, 'a) mgr \<Rightarrow> bool" where
  "is_port_in_use port m \<longleftrightarrow>
     m_listeners m port \<noteq> None \<or> (\<exists>(tu, _) \<in> set (m_connections m). tu_local_port tu = port)"

definition connection_count :: "('c, 'a) mgr \<Rightarrow> nat" where
  "connection_count m = length (m_connections m)"

definition visible_connections :: "('c, 'a) mgr \<Rightarrow> 'c tcb list" where
  "visible_connections m = filter (\<lambda>t. t_state t \<noteq> CLOSED) (map snd (m_connections m))"

section \<open>The timer\<close>

fun timer_connections ::
  "('c, 'a) params \<Rightarrow> (tcp_tuple \<times> 'c tcb) list \<Rightarrow> 'a env \<Rightarrow>
   ((tcp_tuple \<times> 'c tcb) list \<times> tcp_tuple list \<times> 'a env) option" where
  "timer_connections P [] e = Some ([], [], e)"
| "timer_connections P ((tu, t) # cs) e = do {
     (t1, e1) \<leftarrow> check_retransmit P (t, e);
     if t_state t1 = CLOSED then do {
       (cs', del, e') \<leftarrow> timer_connections P cs e1;
       Some ((tu, t1) # cs', tu # del, e')
     }
     else do {
       let (t2, e2) = check_zero_window_probe P (check_delayed_ack P (t1, e1));
       (cs', del, e') \<leftarrow> timer_connections P cs e2;
       Some ((tu, t2) # cs', del, e')
     }
   }"

fun expire_time_wait :: "(int \<times> tcp_tuple) list \<Rightarrow> ('c, 'a) mgr \<Rightarrow> ('c, 'a) mgr" where
  "expire_time_wait [] m = m\<lparr>m_time_wait := []\<rparr>"
| "expire_time_wait ((expire, tu) # xs) m =
    (if e_now (m_env m) \<ge> expire then expire_time_wait xs (close_time_wait tu m)
     else let m' = expire_time_wait xs m in m'\<lparr>m_time_wait := (expire, tu) # m_time_wait m'\<rparr>)"

definition on_timer :: "('c, 'a) params \<Rightarrow> ('c, 'a) mgr \<Rightarrow> ('c, 'a) mgr option" where
  "on_timer P m = do {
     (cs, del, e) \<leftarrow> timer_connections P (m_connections m) (m_env m);
     let m1 = m\<lparr>m_connections := fold conn_erase del cs, m_env := e\<rparr>;
     Some (expire_time_wait (m_time_wait m1) m1)
   }"

end
