(* ===== verification/Tcp_Receiver.thy ===== *)
theory Tcp_Receiver
  imports Tcp_Receive Tcp_Acked Tcp_Example
begin

text \<open>
  The receiver.  The peer's bytes are a stream \<open>S\<close>, byte \<open>i\<close> at the sequence number \<open>at b i\<close>.  Whatever
  the order, overlap and repetition of the segments that carry slices of it, the application is
  handed the stream from the first byte on, without gap.
\<close>

section \<open>What the application sees\<close>

text \<open>\<open>seen\<close> reads from the application's state the bytes it was handed.\<close>

definition app_reads :: "('c, 'a) params \<Rightarrow> ('a \<Rightarrow> bytes) \<Rightarrow> bool" where
  "app_reads P seen \<longleftrightarrow>
     (\<forall>tu d a. seen (fst (p_app P tu (OnReceive d) a)) = seen a @ d) \<and>
     (\<forall>tu n a. seen (p_result P tu n a) = seen a) \<and>
     (\<forall>tu ev a r cl. CallSetCallbacks r cl \<in> set (snd (p_app P tu ev a)) \<longrightarrow> r)"

lemma run_calls_seen:
  "sender_inv k t \<Longrightarrow> t_state t \<noteq> LISTEN \<Longrightarrow> t_state t \<noteq> SYN_SENT \<Longrightarrow> k + 2 * length calls < 1073741824 \<Longrightarrow>
   app_reads P seen \<Longrightarrow> (\<forall>r cl. CallSetCallbacks r cl \<in> set calls \<longrightarrow> r) \<Longrightarrow> t_on_receive t \<Longrightarrow>
   run_calls P calls (t, e) = Some (t', e') \<Longrightarrow> seen (e_app e') = seen (e_app e) \<and> t_on_receive t'"
proof (induction calls arbitrary: k t e)
  case Nil
  then show ?case by simp
next
  case (Cons call calls)
  have step: "seen (e_app e') = seen (e_app e1) \<and> t_on_receive t'"
    if "call_post (Suc (Suc k)) t e t1 e0" and "run_calls P calls (t1, e1) = Some (t', e')" for t1 e0 e1
  proof (rule Cons.IH [of "Suc (Suc k)" t1 e1])
    have "close_step (t_state t) (t_state t1)" using that(1) by (simp add: call_post_def app_frame_def)
    then show "t_state t1 \<noteq> LISTEN" "t_state t1 \<noteq> SYN_SENT"
      using Cons.prems(2,3) by (auto simp: close_step_def)
    show "t_on_receive t1" using that(1) Cons.prems(7) by (simp add: call_post_def)
    show "Suc (Suc k) + 2 * length calls < 1073741824" using Cons.prems(4) by simp
    show "sender_inv (Suc (Suc k)) t1" using that(1) by (simp add: call_post_def)
    show "\<forall>r cl. CallSetCallbacks r cl \<in> set calls \<longrightarrow> r" using Cons.prems(6) by (metis list.set_intros(2))
  qed (rule Cons.prems(5) that(2))+
  have small: "k < 1073741824" "Suc k < 1073741824" using Cons.prems(4) by simp_all
  show ?case
  proof (cases call)
    case (CallSend data)
    obtain n t1 e1 where s: "tcp_send P data (t, e) = Some (n, t1, e1)" "call_post (Suc k) t e t1 e1"
      using tcp_send_post [OF Cons.prems(1) small(1), of P data e] by (elim exE conjE) (rule that; assumption)
    have "call_post (Suc (Suc k)) t e t1 e1" by (rule call_post_mono [OF s(2)]) (use small in simp_all)
    moreover have "run_calls P calls (t1, e1\<lparr>e_app := p_result P (t_tuple t1) n (e_app e1)\<rparr>) = Some (t', e')"
      using Cons.prems(8) s(1) CallSend by simp
    ultimately have "seen (e_app e') = seen (p_result P (t_tuple t1) n (e_app e1)) \<and> t_on_receive t'"
      using step by fastforce
    moreover have "e_app e1 = e_app e" using s(2) by (simp add: call_post_def env_sent_only_def)
    ultimately show ?thesis using Cons.prems(5) by (simp add: app_reads_def)
  next
    case CallClose
    obtain d t1 e1 where s: "tcp_close P (t, e) = Some (d, t1, e1)" "call_post (Suc (Suc k)) t e t1 e1"
      "d \<longleftrightarrow> t_state t = LISTEN \<or> t_state t = SYN_SENT"
      using tcp_close_post [OF Cons.prems(1) small(2), of P e] by (elim exE conjE) (rule that; assumption)
    have "run_calls P calls (t1, e1) = Some (t', e')"
      using Cons.prems(2,3,8) s(1,3) CallClose by simp
    then have "seen (e_app e') = seen (e_app e1) \<and> t_on_receive t'" by (rule step [OF s(2)])
    moreover have "e_app e1 = e_app e" using s(2) by (simp add: call_post_def env_sent_only_def)
    ultimately show ?thesis by simp
  next
    case (CallSetCallbacks r cl)
    then have r: "r" using Cons.prems(6) by (metis list.set_intros(1))
    have "sender_inv (Suc (Suc k)) (t\<lparr>t_on_receive := r, t_on_close := cl\<rparr>)"
      using Cons.prems(1,4) sender_inv_mono [of k t "Suc (Suc k)"] by simp
    then show ?thesis
      using Cons.IH [of "Suc (Suc k)" "t\<lparr>t_on_receive := r, t_on_close := cl\<rparr>" e] Cons.prems r CallSetCallbacks by simp
  qed
qed

section \<open>Delivery\<close>

text \<open>After a delivery of \<open>data\<close>: the block as a callback leaves it, the bytes seen.\<close>

definition rcv_post ::
  "('c \<Rightarrow> bool) \<Rightarrow> ('a \<Rightarrow> bytes) \<Rightarrow> nat \<Rightarrow> bytes \<Rightarrow> 'c tcb \<Rightarrow> 'a env \<Rightarrow> 'c tcb \<Rightarrow> 'a env \<Rightarrow> bool" where
  "rcv_post good seen k data t e t' e' \<longleftrightarrow>
     sender_inv k t' \<and> cong_ok good t' \<and> rcv_frame t t' \<and> t_on_receive t' \<and> e_now e' = e_now e \<and>
     seen (e_app e') = seen (e_app e) @ data"

lemma deliver_data_post:
  assumes inv: "sender_inv k t" and st: "t_state t \<noteq> LISTEN" "t_state t \<noteq> SYN_SENT"
    and b: "calls_bounded P m" and k: "k + 2 * m < 1073741824" and rd: "app_reads P seen" and on: "t_on_receive t"
    and cong: "cong_ok good t"
  shows "\<exists>t' e'. deliver_data P data (t, e) = Some (t', e') \<and> rcv_post good seen (k + 2 * m) data t e t' e'"
proof -
  obtain t1 e1 where r: "run_callback P (OnReceive data) (t, e) = Some (t1, e1)" "cb_post (k + 2 * m) t e t1 e1"
    using run_callback_post [OF inv st b k, of "OnReceive data" e] by blast
  obtain a calls where c: "p_app P (t_tuple t) (OnReceive data) (e_app e) = (a, calls)" by fastforce
  have len: "length calls \<le> m" using b c unfolding calls_bounded_def by (metis snd_conv)
  have keep: "\<forall>r cl. CallSetCallbacks r cl \<in> set calls \<longrightarrow> r" using rd c unfolding app_reads_def by (metis snd_conv)
  have "run_calls P calls (t, e\<lparr>e_app := a\<rparr>) = Some (t1, e1)" using r(1) c by (simp add: run_callback_def)
  then have "seen (e_app e1) = seen (e_app (e\<lparr>e_app := a\<rparr>)) \<and> t_on_receive t1"
    using k len by (intro run_calls_seen [OF inv st _ rd keep on]) simp_all
  moreover have "seen a = seen (e_app e) @ data" using rd c unfolding app_reads_def by (metis fst_conv)
  ultimately have s: "seen (e_app e1) = seen (e_app e) @ data" "t_on_receive t1" by simp_all
  let ?t = "t1\<lparr>t_rcv_wnd := backpressure_window t1\<rparr>"
  have af: "app_frame t t1" and i1: "sender_inv (k + 2 * m) t1" and n1: "e_now e1 = e_now e"
    using r(2) by (simp_all add: cb_post_def env_call_def)
  have "rcv_frame t ?t" using app_frame_rcv [OF af] by (simp add: rcv_frame_def)
  moreover have "cong_ok good ?t" using af cong by (simp add: app_frame_def cong_ok_def)
  ultimately have "rcv_post good seen (k + 2 * m) data t e ?t e1" using i1 s n1 by (simp add: rcv_post_def)
  then show ?thesis using r(1) on by (simp add: deliver_data_def)
qed

section \<open>Slices of the peer's stream\<close>

definition slice :: "(nat \<Rightarrow> u8) \<Rightarrow> nat \<Rightarrow> nat \<Rightarrow> bytes" where
  "slice S i n = map S [i..<i + n]"

lemma length_slice [simp]: "length (slice S i n) = n"
  by (simp add: slice_def)

lemma slice_append: "slice S i m @ slice S (i + m) n = slice S i (m + n)"
proof -
  have "[i..<i + m] @ [i + m..<i + (m + n)] = [i..<i + (m + n)]"
    using upt_add_eq_append [of i "i + m" n] by (simp add: add.assoc)
  then show ?thesis by (simp add: slice_def add.assoc flip: map_append)
qed

lemma slice_0 [simp]: "slice S i 0 = []"
  by (simp add: slice_def)

lemma drop_slice: "k \<le> n \<Longrightarrow> drop k (slice S i n) = slice S (i + k) (n - k)"
  by (simp add: slice_def drop_map)

text \<open>A queued segment that holds the slice at \<open>i\<close>.\<close>

definition holds :: "u32 \<Rightarrow> (nat \<Rightarrow> u8) \<Rightarrow> nat \<Rightarrow> ooo_segment \<Rightarrow> bool" where
  "holds b S i x \<longleftrightarrow> oo_seq_start x = at b i \<and> oo_data x = slice S i (length (oo_data x)) \<and>
     oo_seq_end x = at b (i + length (oo_data x)) \<and> length (oo_data x) \<le> 1460"

definition ooo_inv :: "u32 \<Rightarrow> (nat \<Rightarrow> u8) \<Rightarrow> nat list \<Rightarrow> 'c tcb \<Rightarrow> bool" where
  "ooo_inv b S is t \<longleftrightarrow> list_all2 (holds b S) is (t_ooo_queue t) \<and> sorted is \<and>
     t_ooo_size t = sum_list (map (length \<circ> oo_data) (t_ooo_queue t))"

definition near :: "nat \<Rightarrow> nat \<Rightarrow> bool" where
  "near n i \<longleftrightarrow> n < i + 1073741824 \<and> i < n + 1073741824"

lemma near_cmp:
  assumes "near n i" and "d \<le> 1460"
  shows "seq_gt (at b i) (at b n) \<longleftrightarrow> n < i" and "seq_lt (at b i) (at b n) \<longleftrightarrow> i < n"
    and "seq_le (at b (i + d)) (at b n) \<longleftrightarrow> i + d \<le> n" and "at b i = at b n \<longleftrightarrow> i = n"
proof -
  show "seq_gt (at b i) (at b n) \<longleftrightarrow> n < i" "seq_lt (at b i) (at b n) \<longleftrightarrow> i < n"
    using assms by (simp_all add: near_def seq_cmp_at)
  show "seq_le (at b (i + d)) (at b n) \<longleftrightarrow> i + d \<le> n" by (rule seq_cmp_at) (use assms in \<open>simp_all add: near_def\<close>)
  show "at b i = at b n \<longleftrightarrow> i = n"
  proof (cases "i \<le> n")
    case True
    then show ?thesis using assms at_inj [of i n b] by (simp add: near_def)
  next
    case False
    then have "at b n = at b i \<longleftrightarrow> n = i" using assms at_inj [of n i b] by (simp add: near_def)
    then show ?thesis by metis
  qed
qed

lemma ooo_insert_sorted:
  assumes "holds b S i x"
  shows "list_all2 (holds b S) is xs \<Longrightarrow> sorted is \<Longrightarrow> \<forall>j\<in>set is. near i j \<Longrightarrow>
    \<exists>is'. list_all2 (holds b S) is' (ooo_insert x xs) \<and> sorted is' \<and> set is' = insert i (set is) \<and>
      length is' = Suc (length is)"
proof (induction "is" xs rule: list_all2_induct)
  case Nil
  then show ?case using assms by (intro exI [of _ "[i]"]) simp
next
  case (Cons j js y ys)
  have lt: "seq_lt (oo_seq_start y) (oo_seq_start x) \<longleftrightarrow> j < i"
    using Cons.hyps(1) assms Cons.prems(2) near_cmp(2) [of i j 0 b] by (simp add: holds_def near_def)
  show ?case
  proof (cases "j < i")
    case True
    obtain is' where "list_all2 (holds b S) is' (ooo_insert x ys)" "sorted is'" "set is' = insert i (set js)"
      "length is' = Suc (length js)"
      using Cons.IH Cons.prems by auto
    then show ?thesis using True lt Cons.hyps(1) Cons.prems(1)
      by (intro exI [of _ "j # is'"]) auto
  next
    case False
    then show ?thesis using lt assms Cons.hyps Cons.prems(1)
      by (intro exI [of _ "i # j # js"]) auto
  qed
qed

lemma ooo_insert_size:
  "sum_list (map (length \<circ> oo_data) (ooo_insert x xs)) = length (oo_data x) + sum_list (map (length \<circ> oo_data) xs)"
  by (induction xs) simp_all

section \<open>The out-of-order queue\<close>

text \<open>What the receiving functions keep, next to the data they hand over.\<close>

definition data_post ::
  "('c \<Rightarrow> bool) \<Rightarrow> ('a \<Rightarrow> bytes) \<Rightarrow> nat \<Rightarrow> bytes \<Rightarrow> 'c tcb \<Rightarrow> 'a env \<Rightarrow> 'c tcb \<Rightarrow> 'a env \<Rightarrow> bool" where
  "data_post good seen k data t e t' e' \<longleftrightarrow>
     sender_inv k t' \<and> cong_ok good t' \<and> close_step (t_state t) (t_state t') \<and> t_options t' = t_options t \<and>
     t_tuple t' = t_tuple t \<and> t_on_receive t' \<and> e_now e' = e_now e \<and> seen (e_app e') = seen (e_app e) @ data"

lemma data_post_trans:
  "data_post good seen k d t e t' e' \<Longrightarrow> data_post good seen k' d' t' e' t'' e'' \<Longrightarrow>
   data_post good seen k' (d @ d') t e t'' e''"
  using close_step_trans [of "t_state t" "t_state t'" "t_state t''"] by (simp add: data_post_def)

lemma data_post_mono:
  "data_post good seen k d t e t' e' \<Longrightarrow> k \<le> k' \<Longrightarrow> k' \<le> 1073741824 \<Longrightarrow> data_post good seen k' d t e t' e'"
  using sender_inv_mono [of k t' k'] by (simp add: data_post_def)

lemma rcv_post_data:
  "rcv_post good seen k d t e t' e' \<Longrightarrow> data_post good seen k d t e t' e'"
  by (simp add: rcv_post_def data_post_def rcv_frame_def)

lemma data_post_updates [simp]:
  "data_post good seen k d t e (t'\<lparr>t_rcv_nxt := n\<rparr>) e' \<longleftrightarrow> data_post good seen k d t e t' e'"
  "data_post good seen k d t e (t'\<lparr>t_ooo_size := z, t_ooo_queue := q\<rparr>) e' \<longleftrightarrow> data_post good seen k d t e t' e'"
  "data_post good seen k d t e (t'\<lparr>t_delayed_ack_pending := p\<rparr>) e' \<longleftrightarrow> data_post good seen k d t e t' e'"
  "data_post good seen k d t e (t'\<lparr>t_delayed_ack_pending := p, t_delayed_ack_time := w\<rparr>) e' \<longleftrightarrow> data_post good seen k d t e t' e'"
  "data_post good seen k d t e (t'\<lparr>t_ooo_queue := q, t_ooo_size := z\<rparr>) e' \<longleftrightarrow> data_post good seen k d t e t' e'"
  by (simp_all add: data_post_def cong_ok_def sender_inv_def)

lemma close_step_running: "close_step s s' \<Longrightarrow> s \<noteq> LISTEN \<Longrightarrow> s \<noteq> SYN_SENT \<Longrightarrow> s' \<noteq> LISTEN \<and> s' \<noteq> SYN_SENT"
  by (auto simp: close_step_def)

text \<open>The state a reading connection is in; the positions are those of the queue.\<close>

definition reading :: "('c \<Rightarrow> bool) \<Rightarrow> u32 \<Rightarrow> (nat \<Rightarrow> u8) \<Rightarrow> nat \<Rightarrow> nat \<Rightarrow> nat list \<Rightarrow> 'c tcb \<Rightarrow> bool" where
  "reading good b S k n is t \<longleftrightarrow>
     sender_inv k t \<and> cong_ok good t \<and> t_on_receive t \<and> t_state t \<noteq> LISTEN \<and> t_state t \<noteq> SYN_SENT \<and>
     t_rcv_nxt t = at b n \<and> ooo_inv b S is t"

lemma ooo_pop_inv:
  assumes "ooo_inv b S (i # is) t"
  shows "\<exists>x q. t_ooo_queue t = x # q \<and> holds b S i x \<and>
     ooo_pop t = Some (t\<lparr>t_ooo_size := t_ooo_size t - length (oo_data x), t_ooo_queue := q\<rparr>) \<and>
     ooo_inv b S is (t\<lparr>t_ooo_size := t_ooo_size t - length (oo_data x), t_ooo_queue := q\<rparr>)"
  using assms unfolding ooo_inv_def by (cases "t_ooo_queue t") (auto simp: ooo_pop_def)

lemma deliver_ooo_post:
  assumes b: "calls_bounded P m" and rd: "app_reads P seen"
  shows "reading good b S k n is t \<Longrightarrow> \<forall>i\<in>set is. near n i \<Longrightarrow> k + 2 * m * length is < 1073741824 \<Longrightarrow>
    \<exists>t' e' n' is' j. deliver_ooo_data P t e = Some (t', e') \<and> n \<le> n' \<and> j + length is' \<le> length is \<and>
      reading good b S (k + 2 * m * j) n' is' t' \<and> (\<forall>i\<in>set is'. n' < i \<and> near n' i) \<and> n' \<le> n + 1460 * length is \<and>
      data_post good seen (k + 2 * m * j) (slice S n (n' - n)) t e t' e'"
proof (induction "is" arbitrary: k n t e)
  case Nil
  then have q: "t_ooo_queue t = []" by (simp add: reading_def ooo_inv_def)
  have "deliver_ooo_data P t e = Some (t, e)" by (subst deliver_ooo_data.simps) (simp add: q)
  moreover have "data_post good seen k [] t e t e"
    using Nil.prems(1) by (simp add: data_post_def reading_def close_step_def)
  ultimately show ?case using Nil.prems(1)
    by (intro exI [of _ t] exI [of _ e] exI [of _ n] exI [of _ "[]"] exI [of _ 0]) simp
next
  case (Cons i "is")
  have inv: "ooo_inv b S (i # is) t" and nxt: "t_rcv_nxt t = at b n" using Cons.prems(1) by (simp_all add: reading_def)
  obtain x q where x: "t_ooo_queue t = x # q" "holds b S i x"
    using ooo_pop_inv [OF inv] by blast
  let ?len = "length (oo_data x)"
  have near: "near n i" and len: "?len \<le> 1460" using Cons.prems(2) x(2) by (simp_all add: holds_def)
  have start: "oo_seq_start x = at b i" and fin: "oo_seq_end x = at b (i + ?len)" and dat: "oo_data x = slice S i ?len"
    using x(2) by (simp_all add: holds_def)
  note cmp = near_cmp [OF near len, of b]
  have srt: "sorted (i # is)" using inv by (simp add: ooo_inv_def)
  consider (gap) "n < i" | (old) "i + ?len \<le> n" | (new) "i \<le> n" "n < i + ?len" by linarith
  then show ?case
  proof cases
    case gap
    have "deliver_ooo_data P t e = Some (t, e)"
      using gap by (subst deliver_ooo_data.simps) (simp add: x(1) start nxt cmp)
    moreover have "data_post good seen k [] t e t e"
      using Cons.prems(1) by (simp add: data_post_def reading_def close_step_def)
    moreover have "\<forall>j\<in>set (i # is). n < j \<and> near n j" using gap srt Cons.prems(2) by fastforce
    ultimately show ?thesis using Cons.prems(1)
      by (intro exI [of _ t] exI [of _ e] exI [of _ n] exI [of _ "i # is"] exI [of _ 0]) simp
  next
    case old
    obtain t1 where p: "ooo_pop t = Some t1" "ooo_inv b S is t1" and t1: "t1 = t\<lparr>t_ooo_size := t_ooo_size t - ?len, t_ooo_queue := q\<rparr>"
      using ooo_pop_inv [OF inv] x(1) by auto
    have eq: "deliver_ooo_data P t e = deliver_ooo_data P t1 e"
      using old by (subst deliver_ooo_data.simps) (simp add: x(1) start fin nxt cmp p(1))
    have r1: "reading good b S k n is t1"
      using Cons.prems(1) p(2) by (simp add: reading_def t1 sender_inv_def cong_ok_def)
    have "k + 2 * m * length is < 1073741824" using Cons.prems(3) by simp
    then obtain t' e' n' is' j where r: "deliver_ooo_data P t1 e = Some (t', e')" "n \<le> n'" "j + length is' \<le> length is"
      "reading good b S (k + 2 * m * j) n' is' t'" "\<forall>i\<in>set is'. n' < i \<and> near n' i" "n' \<le> n + 1460 * length is"
      "data_post good seen (k + 2 * m * j) (slice S n (n' - n)) t1 e t' e'"
      using Cons.IH [OF r1, of e] Cons.prems(2) by (simp, blast)
    have "data_post good seen (k + 2 * m * j) (slice S n (n' - n)) t e t' e'"
      using r(7) by (simp add: data_post_def t1)
    then show ?thesis using eq r(1-6)
      by (intro exI [of _ t'] exI [of _ e'] exI [of _ n'] exI [of _ is'] exI [of _ j]) simp
  next
    case new
    define skip where "skip = n - i"
    have sk: "(if seq_lt (oo_seq_start x) (t_rcv_nxt t) then unat (t_rcv_nxt t - oo_seq_start x) else 0) = skip"
    proof (cases "i < n")
      case True
      have "unat (at b n - at b i) = n - i"
        using dist_at [of i n b] True near by (simp add: dist_def near_def)
      then show ?thesis using True by (simp add: start nxt cmp skip_def)
    next
      case False
      then show ?thesis using new by (simp add: start nxt cmp skip_def)
    qed
    have data: "drop skip (oo_data x) = slice S n (i + ?len - n)"
      using new by (subst dat) (simp add: drop_slice skip_def add.commute)
    have st: "sender_inv k t" "t_state t \<noteq> LISTEN" "t_state t \<noteq> SYN_SENT" "cong_ok good t" "t_on_receive t"
      using Cons.prems(1) by (simp_all add: reading_def)
    have k1: "k + 2 * m < 1073741824" using Cons.prems(3) by simp
    obtain t1 e1 where d: "deliver_data P (drop skip (oo_data x)) (t, e) = Some (t1, e1)"
      "rcv_post good seen (k + 2 * m) (drop skip (oo_data x)) t e t1 e1"
      using deliver_data_post [OF st(1-3) b k1 rd st(5,4)] by blast
    have fr: "t_ooo_queue t1 = t_ooo_queue t" "t_ooo_size t1 = t_ooo_size t" "t_rcv_nxt t1 = t_rcv_nxt t"
      "close_step (t_state t) (t_state t1)"
      using d(2) by (simp_all add: rcv_post_def rcv_frame_def)
    let ?t1 = "t1\<lparr>t_rcv_nxt := oo_seq_end x\<rparr>"
    have inv1: "ooo_inv b S (i # is) ?t1" using inv by (simp add: ooo_inv_def fr)
    obtain t2 where p: "ooo_pop ?t1 = Some t2" "ooo_inv b S is t2"
      and t2: "t2 = ?t1\<lparr>t_ooo_size := t_ooo_size ?t1 - ?len, t_ooo_queue := q\<rparr>"
      using ooo_pop_inv [OF inv1] x(1) fr(1) by auto
    have eq: "deliver_ooo_data P t e = deliver_ooo_data P t2 e1"
    proof -
      have "\<not> ?len < n - i" using new by linarith
      then show ?thesis
        using new sk d(1) p(1)
        by (subst deliver_ooo_data.simps) (simp add: x(1) start fin nxt cmp Let_def skip_def)
    qed
    have pd: "data_post good seen (k + 2 * m) (slice S n (i + ?len - n)) t e t2 e1"
      using rcv_post_data [OF d(2)] by (simp add: t2 data)
    have r2: "reading good b S (k + 2 * m) (i + ?len) is t2"
    proof -
      have "t_state t1 \<noteq> LISTEN \<and> t_state t1 \<noteq> SYN_SENT" by (rule close_step_running [OF fr(4) st(2,3)])
      then have "t_state t2 \<noteq> LISTEN" "t_state t2 \<noteq> SYN_SENT" by (simp_all add: t2)
      moreover have "t_rcv_nxt t2 = at b (i + ?len)" by (simp add: t2 fin)
      ultimately show ?thesis using pd p(2) by (simp add: reading_def data_post_def)
    qed
    have near2: "\<forall>j\<in>set is. near (i + ?len) j"
    proof
      fix j assume j: "j \<in> set is"
      then have "i \<le> j" "near n j" using srt Cons.prems(2) by auto
      then show "near (i + ?len) j" using new len by (auto simp: near_def)
    qed
    have "k + 2 * m + 2 * m * length is < 1073741824" using Cons.prems(3) by simp
    then obtain t' e' n' is' j where r: "deliver_ooo_data P t2 e1 = Some (t', e')" "i + ?len \<le> n'" "j + length is' \<le> length is"
      "reading good b S (k + 2 * m + 2 * m * j) n' is' t'" "\<forall>i\<in>set is'. n' < i \<and> near n' i"
      "n' \<le> i + ?len + 1460 * length is"
      "data_post good seen (k + 2 * m + 2 * m * j) (slice S (i + ?len) (n' - (i + ?len))) t2 e1 t' e'"
      using Cons.IH [OF r2 near2, of e1] by blast
    have "slice S n (i + ?len - n) @ slice S (i + ?len) (n' - (i + ?len)) = slice S n (n' - n)"
      using slice_append [of S n "i + ?len - n" "n' - (i + ?len)"] new r(2) by simp
    then have "data_post good seen (k + 2 * m * Suc j) (slice S n (n' - n)) t e t' e'"
      using data_post_trans [OF pd r(7)] by (simp add: algebra_simps)
    moreover have "reading good b S (k + 2 * m * Suc j) n' is' t'" using r(4) by (simp add: algebra_simps)
    moreover have "n' \<le> n + 1460 * length (i # is)" using r(6) new len by simp
    ultimately show ?thesis using eq r(1,2,3,5) new
      by (intro exI [of _ t'] exI [of _ e'] exI [of _ n'] exI [of _ is'] exI [of _ "Suc j"]) simp
  qed
qed

section \<open>\<open>handle_data\<close>\<close>

text \<open>A segment that carries the slice at \<open>i\<close>, not more than two to the 30 from the position.\<close>

definition carries_slice :: "u32 \<Rightarrow> (nat \<Rightarrow> u8) \<Rightarrow> nat \<Rightarrow> tcp_segment \<Rightarrow> nat \<Rightarrow> bool" where
  "carries_slice b S n seg i \<longleftrightarrow> seg_seq_num seg = at b i \<and> seg_data seg = slice S i (data_length seg) \<and>
     data_length seg \<le> 1460 \<and> near n i"

lemma pure_ack_data:
  assumes r: "reading good b S k n is t" and s: "send_segment P ACK [] (t, e) = (t', e')"
  shows "reading good b S k n is t' \<and> data_post good seen k [] t e t' e'"
proof -
  have "t' = fst (send_segment P ACK [] (t, e))" "e' = snd (send_segment P ACK [] (t, e))" using s by simp_all
  then show ?thesis using r
    by (simp add: reading_def data_post_def ooo_inv_def sender_inv_def cong_ok_def close_step_def)
qed

lemma delayed_ack_data:
  assumes r: "reading good b S k n is t" and s: "delayed_ack P (t, e) = (t', e')"
  shows "reading good b S k n is t' \<and> data_post good seen k [] t e t' e'"
proof -
  obtain t1 e1 where a: "send_segment P ACK [] (t, e) = (t1, e1)" by fastforce
  note pa = pure_ack_data [OF r a, of seen]
  have upd: "reading good b S k n is (x\<lparr>t_delayed_ack_pending := p\<rparr>) = reading good b S k n is x"
    "reading good b S k n is (x\<lparr>t_delayed_ack_pending := p, t_delayed_ack_time := w\<rparr>) = reading good b S k n is x" for x p w
    by (simp_all add: reading_def ooo_inv_def sender_inv_def cong_ok_def)
  have self: "data_post good seen k [] t e t e" using r by (simp add: reading_def data_post_def close_step_def)
  show ?thesis
    using s pa r self unfolding delayed_ack_def prod.case a
    by (auto simp: upd split: if_splits)
qed

lemma handle_data_post:
  assumes r: "reading good b S k n is t" and near: "\<forall>i\<in>set is. n < i \<and> near n i"
    and seg: "carries_slice b S n seg i" and b: "calls_bounded P m" and rd: "app_reads P seen"
    and k: "k + 2 * m * Suc (length is) < 1073741824"
  shows "\<exists>t' e' n' is' j. handle_data P seg (t, e) = Some (t', e') \<and> n \<le> n' \<and> j + length is' \<le> Suc (length is) \<and>
     reading good b S (k + 2 * m * j) n' is' t' \<and> (\<forall>i\<in>set is'. n' < i \<and> near n' i) \<and>
     data_post good seen (k + 2 * m * j) (slice S n (n' - n)) t e t' e' \<and> max n (if i \<le> n then i + data_length seg else 0) \<le> n'"
proof -
  let ?len = "data_length seg"
  have nxt: "t_rcv_nxt t = at b n" and inv: "ooo_inv b S is t" using r by (simp_all add: reading_def)
  have start: "seg_seq_num seg = at b i" and dat: "seg_data seg = slice S i ?len" and len: "?len \<le> 1460"
    and ni: "near n i" using seg by (simp_all add: carries_slice_def)
  note cmp = near_cmp [OF ni len, of b]
  have stay: ?thesis if "handle_data P seg (t, e) = Some (t, e)" and "i + ?len \<le> n \<or> n < i"
  proof -
    have "data_post good seen k [] t e t e" using r by (simp add: data_post_def reading_def close_step_def)
    then show ?thesis using that r near
      by (intro exI [of _ t] exI [of _ e] exI [of _ n] exI [of _ "is"] exI [of _ 0]) auto
  qed
  consider (empty) "?len = 0" | (old) "?len \<noteq> 0" "i + ?len \<le> n" | (new) "?len \<noteq> 0" "i \<le> n" "n < i + ?len"
    | (ahead) "?len \<noteq> 0" "n < i" by linarith
  then show ?thesis
  proof cases
    case empty
    then show ?thesis using stay by (cases "i \<le> n") (simp_all add: handle_data_def)
  next
    case old
    then show ?thesis by (intro stay) (simp_all add: handle_data_def Let_def start nxt at_add cmp)
  next
    case new
    define data where "data = (if seq_lt (seg_seq_num seg) (t_rcv_nxt t)
      then drop (unat (t_rcv_nxt t - seg_seq_num seg)) (seg_data seg) else seg_data seg)"
    have over: "i < n \<Longrightarrow> unat (at b n - at b i) = n - i"
      using dist_at [of i n b] ni by (simp add: dist_def near_def)
    have data: "data = slice S n (i + ?len - n)"
    proof (cases "i < n")
      case True
      then show ?thesis using new over by (simp add: data_def start nxt cmp dat drop_slice add.commute)
    next
      case False
      then show ?thesis using new by (simp add: data_def start nxt cmp dat)
    qed
    have st: "sender_inv k t" "t_state t \<noteq> LISTEN" "t_state t \<noteq> SYN_SENT" "cong_ok good t" "t_on_receive t"
      using r by (simp_all add: reading_def)
    have k1: "k + 2 * m < 1073741824" using k by simp
    obtain t1 e1 where d: "deliver_data P data (t, e) = Some (t1, e1)" "rcv_post good seen (k + 2 * m) data t e t1 e1"
      using deliver_data_post [OF st(1-3) b k1 rd st(5,4)] by blast
    have fr: "t_ooo_queue t1 = t_ooo_queue t" "t_ooo_size t1 = t_ooo_size t" "close_step (t_state t) (t_state t1)"
      using d(2) by (simp_all add: rcv_post_def rcv_frame_def)
    let ?t1 = "t1\<lparr>t_rcv_nxt := at b (i + ?len)\<rparr>"
    have p1: "data_post good seen (k + 2 * m) (slice S n (i + ?len - n)) t e ?t1 e1"
      using rcv_post_data [OF d(2)] by (simp add: data)
    have r1: "reading good b S (k + 2 * m) (i + ?len) is ?t1"
      using p1 inv fr close_step_running [OF fr(3) st(2,3)]
      by (simp add: reading_def data_post_def ooo_inv_def)
    have near1: "\<forall>j\<in>set is. near (i + ?len) j" using near new len by (fastforce simp: near_def)
    have "k + 2 * m + 2 * m * length is < 1073741824" using k by simp
    then obtain t2 e2 n' is' j where o: "deliver_ooo_data P ?t1 e1 = Some (t2, e2)" "i + ?len \<le> n'"
      "j + length is' \<le> length is" "reading good b S (k + 2 * m + 2 * m * j) n' is' t2"
      "\<forall>i\<in>set is'. n' < i \<and> near n' i"
      "data_post good seen (k + 2 * m + 2 * m * j) (slice S (i + ?len) (n' - (i + ?len))) ?t1 e1 t2 e2"
      using deliver_ooo_post [OF b rd r1 near1, of e1] by blast
    obtain t3 e3 where a: "delayed_ack P (t2, e2) = (t3, e3)" by fastforce
    note da = delayed_ack_data [OF o(4) a, of seen]
    have "handle_data P seg (t, e) = Some (t3, e3)"
    proof -
      have c1: "\<not> seq_le (seg_seq_num seg + of_nat ?len) (t_rcv_nxt t)"
        using new by (simp add: start nxt at_add cmp)
      have c2: "\<not> (seq_lt (seg_seq_num seg) (t_rcv_nxt t) \<and> ?len \<le> unat (t_rcv_nxt t - seg_seq_num seg))"
        using new over by (auto simp: start nxt cmp)
      have c3: "(if seq_lt (seg_seq_num seg) (t_rcv_nxt t) then t_rcv_nxt t else seg_seq_num seg) = t_rcv_nxt t"
        using new by (simp add: start nxt cmp)
      have e: "seg_seq_num seg + of_nat ?len = at b (i + ?len)" by (simp add: start at_add)
      show ?thesis
        unfolding handle_data_def prod.case Let_def data_def [symmetric] c3
        using new(1) c1 c2 unfolding e
        by (simp only: if_False simp_thms d(1) bind.simps prod.case if_True o(1) a refl)
    qed
    moreover have "slice S n (i + ?len - n) @ slice S (i + ?len) (n' - (i + ?len)) = slice S n (n' - n)"
      using slice_append [of S n "i + ?len - n" "n' - (i + ?len)"] new o(2) by simp
    then have "data_post good seen (k + 2 * m * Suc j) (slice S n (n' - n)) t e t3 e3"
      using data_post_trans [OF data_post_trans [OF p1 o(6)] conjunct2 [OF da]] by (simp add: algebra_simps)
    moreover have "reading good b S (k + 2 * m * Suc j) n' is' t3" using da by (simp add: algebra_simps)
    ultimately show ?thesis using o(2,3,5) new
      by (intro exI [of _ t3] exI [of _ e3] exI [of _ n'] exI [of _ is'] exI [of _ "Suc j"]) simp
  next
    case ahead
    have c1: "\<not> seq_le (seg_seq_num seg + of_nat ?len) (t_rcv_nxt t)" "\<not> seq_lt (seg_seq_num seg) (t_rcv_nxt t)"
      "seg_seq_num seg \<noteq> t_rcv_nxt t"
      using ahead by (simp_all add: start nxt at_add cmp)
    have eq: "handle_data P seg (t, e) = Option.bind (add_to_ooo_queue (seg_seq_num seg) (seg_data seg) t)
        (\<lambda>t1. Some (send_segment P ACK [] (t1, e)))"
      using ahead(1) c1 by (simp add: handle_data_def Let_def)
    obtain t1 is1 where q: "add_to_ooo_queue (seg_seq_num seg) (seg_data seg) t = Some t1"
      "reading good b S k n is1 t1" "\<forall>i\<in>set is1. n < i \<and> near n i" "length is1 \<le> Suc (length is)"
      "data_post good seen k [] t e t1 e"
    proof (cases "t_ooo_size t + length (seg_data seg) > unat (op_recv_buffer_size (t_options t))")
      case True
      have "data_post good seen k [] t e t e" using r by (simp add: data_post_def reading_def close_step_def)
      then show ?thesis using that [of t "is"] True r near by (simp add: add_to_ooo_queue_def)
    next
      case False
      let ?x = "\<lparr>oo_seq_start = seg_seq_num seg, oo_seq_end = seg_seq_num seg + of_nat (length (seg_data seg)),
        oo_data = seg_data seg\<rparr>"
      have ln: "length (seg_data seg) = ?len" by (simp add: data_length_def)
      have h: "holds b S i ?x" using dat len by (simp add: holds_def start at_add ln)
      have nn: "\<forall>j\<in>set is. near i j" using near ahead(2) ni by (fastforce simp: near_def)
      obtain is1 where i1: "list_all2 (holds b S) is1 (ooo_insert ?x (t_ooo_queue t))" "sorted is1"
        "set is1 = insert i (set is)" "length is1 = Suc (length is)"
        using ooo_insert_sorted [OF h _ _ nn, of "t_ooo_queue t"] inv by (auto simp: ooo_inv_def)
      let ?t = "t\<lparr>t_ooo_queue := ooo_insert ?x (t_ooo_queue t), t_ooo_size := t_ooo_size t + length (seg_data seg)\<rparr>"
      have "ooo_inv b S is1 ?t" using i1 inv by (simp add: ooo_inv_def ooo_insert_size)
      then have "reading good b S k n is1 ?t" using r by (simp add: reading_def sender_inv_def cong_ok_def)
      moreover have "data_post good seen k [] t e ?t e" using r by (simp add: reading_def data_post_def close_step_def cong_ok_def sender_inv_def)
      ultimately show ?thesis using that [of ?t is1] False i1 near ahead(2) ni len
        by (simp add: add_to_ooo_queue_def TCP_MSS_MAX_def ln)
    qed
    obtain t2 e2 where a: "send_segment P ACK [] (t1, e) = (t2, e2)" by fastforce
    note pa = pure_ack_data [OF q(2) a, of seen]
    have "data_post good seen k [] t e t2 e2" using data_post_trans [OF q(5) conjunct2 [OF pa]] by simp
    then show ?thesis using eq q(1,3,4) a pa ahead
      by (intro exI [of _ t2] exI [of _ e2] exI [of _ n] exI [of _ is1] exI [of _ 0]) simp
  qed
qed

end
