(* ===== verification/Tcp_Transfer.thy ===== *)
theory Tcp_Transfer
  imports Tcp_Machine Tcp_Receiver
begin

text \<open>
  Data transfer through the state machine: runs of segments that are neither RST nor FIN, dispatched
  to an established connection or one that has closed its sending side.
\<close>

definition transfer_state :: "tcp_state \<Rightarrow> bool" where
  "transfer_state s \<longleftrightarrow> s = ESTABLISHED \<or> s = FIN_WAIT_1 \<or> s = FIN_WAIT_2"

lemma close_step_transfer: "close_step s s' \<Longrightarrow> transfer_state s \<Longrightarrow> transfer_state s'"
  by (auto simp: close_step_def transfer_state_def)

lemma transfer_running: "transfer_state s \<Longrightarrow> s \<noteq> LISTEN \<and> s \<noteq> SYN_SENT"
  by (auto simp: transfer_state_def)

text \<open>Acknowledgement and data, the part the handlers of these states share.\<close>

definition ack_and_data :: "('c, 'a) params \<Rightarrow> tcp_segment \<Rightarrow> ('c, 'a) conn \<Rightarrow> (bool \<times> ('c, 'a) conn) option" where
  "ack_and_data P seg c = do {
     c1 \<leftarrow> (if is_ack seg then process_ack P (seg_ack_num seg) (seg_window seg) c else Some c);
     c2 \<leftarrow> (if data_length seg > 0 then handle_data P seg c1 else Some c1);
     Some (is_ack seg \<and> t_snd_una (fst c1) = t_snd_nxt (fst c1), c2)
   }"

lemma transfer_handlers:
  assumes "\<not> is_fin seg"
  shows "handle_established P seg c = map_option snd (ack_and_data P seg c)"
    and "handle_fin_wait_2 P seg c = map_option (\<lambda>x. (Done, snd x)) (ack_and_data P seg c)"
    and "handle_fin_wait_1 P seg c = map_option (\<lambda>(acked, t, e).
           (Done, if acked then t\<lparr>t_state := FIN_WAIT_2\<rparr> else t, e)) (ack_and_data P seg c)"
  using assms
  by (auto simp: handle_established_def handle_fin_wait_1_def handle_fin_wait_2_def ack_and_data_def
      Let_def map_conv_bind_option split: Option.bind_split)

text \<open>How far the bytes go once a segment has come: past its end, when it starts within them.\<close>

definition reach_step :: "nat \<Rightarrow> tcp_segment \<times> nat \<Rightarrow> nat" where
  "reach_step n = (\<lambda>(seg, i). max n (if i \<le> n then i + data_length seg else 0))"

text \<open>One segment: the position moves from \<open>n\<close> to \<open>n'\<close>, the slice between is handed
  over, and a segment that starts no later than \<open>n\<close> moves it at least to its own end.\<close>

definition step_post ::
  "('c \<Rightarrow> bool) \<Rightarrow> u32 \<Rightarrow> (nat \<Rightarrow> u8) \<Rightarrow> ('a \<Rightarrow> bytes) \<Rightarrow> nat \<Rightarrow> nat \<Rightarrow> nat \<Rightarrow> nat list \<Rightarrow> nat \<Rightarrow> 'c tcb \<Rightarrow> 'a env \<Rightarrow> 'c tcb \<Rightarrow> 'a env \<Rightarrow> bool" where
  "step_post good b S seen m k n is r t e t' e' \<longleftrightarrow>
     (\<exists>n' is' j. n \<le> n' \<and> r \<le> n' \<and> j + length is' \<le> Suc (length is) \<and> reading good b S (Suc k + 2 * m * j) n' is' t' \<and>
        (\<forall>i\<in>set is'. n' < i \<and> near n' i) \<and> seen (e_app e') = seen (e_app e) @ slice S n (n' - n) \<and>
        transfer_state (t_state t'))"

context congestion_controller
begin

lemma ack_reading:
  assumes r: "reading good b S k n is t" and k: "k < 1073741824" and ops: "p_cc P = ops"
    and ack: "seq_le ack (t_snd_nxt t)"
  shows "\<exists>t' e'. process_ack P ack window (t, e) = Some (t', e') \<and> reading good b S (Suc k) n is t' \<and>
     data_post good seen (Suc k) [] t e t' e'"
proof -
  have st: "sender_inv k t" "cong_ok good t" "t_state t \<noteq> LISTEN" "t_state t \<noteq> SYN_SENT"
    using r by (simp_all add: reading_def)
  obtain t' e' where p: "process_ack P ack window (t, e) = Some (t', e')" "ack_post good (Suc k) ack window t e t' e'"
    using process_ack_post [OF st(1) k st(2) ack ops] by blast
  have cs: "close_step (t_state t) (t_state t')" using p(2) by (simp add: ack_post_def rcv_frame_def)
  have "reading good b S (Suc k) n is t'"
    using p(2) r close_step_running [OF cs st(3,4)]
    by (simp add: reading_def ack_post_def rcv_frame_def ooo_inv_def)
  moreover have "data_post good seen (Suc k) [] t e t' e'"
    using p(2) r by (simp add: data_post_def reading_def ack_post_def rcv_frame_def)
  ultimately show ?thesis using p(1) by blast
qed

lemma ack_and_data_post:
  assumes r: "reading good b S k n is t" and near: "\<forall>i\<in>set is. n < i \<and> near n i"
    and seg: "carries_slice b S n seg i" and app: "calls_bounded P m" "app_reads P seen"
    and k: "Suc k + 2 * m * Suc (length is) < 1073741824" and ops: "p_cc P = ops"
    and ack: "is_ack seg \<longrightarrow> seq_le (seg_ack_num seg) (t_snd_nxt t)" and st: "transfer_state (t_state t)"
  shows "\<exists>acked t' e'. ack_and_data P seg (t, e) = Some (acked, t', e') \<and> step_post good b S seen m k n is (reach_step n (seg, i)) t e t' e'"
proof -
  have mono: "sender_inv (Suc k) t" using r k sender_inv_mono [of k t "Suc k"] by (simp add: reading_def)
  obtain t1 e1 where a: "(if is_ack seg then process_ack P (seg_ack_num seg) (seg_window seg) (t, e) else Some (t, e)) = Some (t1, e1)"
    "reading good b S (Suc k) n is t1" "data_post good seen (Suc k) [] t e t1 e1"
  proof (cases "is_ack seg")
    case True
    have "k < 1073741824" using k by simp
    from ack_reading [OF r this ops, of "seg_ack_num seg" "seg_window seg" e seen] True ack
    show ?thesis using that by auto
  next
    case False
    have "data_post good seen (Suc k) [] t e t e" using r mono by (simp add: data_post_def reading_def close_step_def)
    then show ?thesis using that False r mono by (simp add: reading_def)
  qed
  have hk: "Suc k + 2 * m * Suc (length is) < 1073741824" by (rule k)
  obtain t2 e2 n' is' j where h: "handle_data P seg (t1, e1) = Some (t2, e2)" "n \<le> n'"
    "j + length is' \<le> Suc (length is)" "reading good b S (Suc k + 2 * m * j) n' is' t2"
    "\<forall>i\<in>set is'. n' < i \<and> near n' i"
    "data_post good seen (Suc k + 2 * m * j) (slice S n (n' - n)) t1 e1 t2 e2" "reach_step n (seg, i) \<le> n'"
    using handle_data_post [OF a(2) near seg app hk, of e1]
    by (elim exE conjE) (rule that; (assumption | simp only: reach_step_def prod.case))
  have hd: "(if data_length seg > 0 then handle_data P seg (t1, e1) else Some (t1, e1)) = Some (t2, e2)"
    using h(1) by (simp add: handle_data_def split: if_splits)
  have "data_post good seen (Suc k + 2 * m * j) ([] @ slice S n (n' - n)) t e t2 e2"
    by (rule data_post_trans [OF a(3) h(6)])
  then have "step_post good b S seen m k n is (reach_step n (seg, i)) t e t2 e2"
    using h(2-5,7) st close_step_transfer [of "t_state t" "t_state t2"]
    unfolding step_post_def data_post_def
    by (intro exI [of _ n'] exI [of _ is'] exI [of _ j]) simp
  then show ?thesis using a(1) hd by (simp add: ack_and_data_def)
qed

lemma transfer_step:
  assumes "reading good b S k n is t" and "\<forall>i\<in>set is. n < i \<and> near n i"
    and "carries_slice b S n seg i" and "calls_bounded P m" "app_reads P seen"
    and "Suc k + 2 * m * Suc (length is) < 1073741824" and "p_cc P = ops"
    and "is_ack seg \<longrightarrow> seq_le (seg_ack_num seg) (t_snd_nxt t)" and st: "transfer_state (t_state t)"
    and seg: "\<not> is_rst seg" "\<not> is_fin seg"
  shows "\<exists>t' e'. dispatch P ip seg (t, e) = Some (Done, t', e') \<and> step_post good b S seen m k n is (reach_step n (seg, i)) t e t' e'"
proof -
  obtain acked t' e' where a: "ack_and_data P seg (t, e) = Some (acked, t', e')" "step_post good b S seen m k n is (reach_step n (seg, i)) t e t' e'"
    using ack_and_data_post [OF assms(1-9)] by blast
  have fw2: "step_post good b S seen m k n is (reach_step n (seg, i)) t e (t'\<lparr>t_state := FIN_WAIT_2\<rparr>) e'"
    using a(2) unfolding step_post_def
    by (elim exE conjE, intro exI conjI) (assumption | simp add: reading_def ooo_inv_def cong_ok_def transfer_state_def)+
  show ?thesis
    using st seg a fw2
    by (auto simp: dispatch_def transfer_state_def transfer_handlers [OF seg(2)] simp del: split_paired_Ex)
qed

end

section \<open>Runs\<close>

fun transfer_run :: "('c, 'a) params \<Rightarrow> u32 \<Rightarrow> tcp_segment list \<Rightarrow> ('c, 'a) conn \<Rightarrow> ('c, 'a) conn option" where
  "transfer_run P ip [] c = Some c"
| "transfer_run P ip (seg # segs) c = do {
     (p, c1) \<leftarrow> dispatch P ip seg c;
     transfer_run P ip segs c1
   }"

text \<open>
  Along the run every segment carries the slice at some position not too far from the number of
  bytes seen so far, and acknowledges nothing that was not sent.
\<close>

fun segs_ok :: "('c, 'a) params \<Rightarrow> u32 \<Rightarrow> ('a \<Rightarrow> bytes) \<Rightarrow> u32 \<Rightarrow> (nat \<Rightarrow> u8) \<Rightarrow>
  (tcp_segment \<times> nat) list \<Rightarrow> ('c, 'a) conn \<Rightarrow> bool" where
  "segs_ok P ip seen b S [] c \<longleftrightarrow> True"
| "segs_ok P ip seen b S ((seg, i) # segs) c \<longleftrightarrow>
     \<not> is_rst seg \<and> \<not> is_fin seg \<and> carries_slice b S (length (seen (e_app (snd c)))) seg i \<and>
     (is_ack seg \<longrightarrow> seq_le (seg_ack_num seg) (t_snd_nxt (fst c))) \<and>
     (case dispatch P ip seg c of Some (_, c1) \<Rightarrow> segs_ok P ip seen b S segs c1 | None \<Rightarrow> True)"

lemma reach_step_mono: "n \<le> n' \<Longrightarrow> reach_step n s \<le> reach_step n' s"
  by (auto simp: reach_step_def split: prod.splits)

lemma foldl_reach_mono: "n \<le> n' \<Longrightarrow> foldl reach_step n segs \<le> foldl reach_step n' segs"
  by (induction segs arbitrary: n n') (auto simp: reach_step_mono)

context congestion_controller
begin

lemma transfer_run_post:
  assumes app: "calls_bounded P m" "app_reads P seen" and ops: "p_cc P = ops"
  shows "reading good b S k n is t \<Longrightarrow> \<forall>i\<in>set is. n < i \<and> near n i \<Longrightarrow> transfer_state (t_state t) \<Longrightarrow>
    seen (e_app e) = slice S 0 n \<Longrightarrow> k + 2 * m * length is + (2 * m + 1) * length segs < 1073741824 \<Longrightarrow>
    segs_ok P ip seen b S segs (t, e) \<Longrightarrow>
    \<exists>t' e' n'. transfer_run P ip (map fst segs) (t, e) = Some (t', e') \<and> foldl reach_step n segs \<le> n' \<and>
      seen (e_app e') = slice S 0 n' \<and> t_rcv_nxt t' = at b n' \<and> transfer_state (t_state t')"
proof (induction segs arbitrary: k n "is" t e)
  case Nil
  then show ?case by (intro exI [of _ t] exI [of _ e] exI [of _ n]) (simp add: reading_def)
next
  case (Cons s segs)
  obtain seg i where s: "s = (seg, i)" by fastforce
  have ok: "\<not> is_rst seg" "\<not> is_fin seg" "carries_slice b S n seg i"
    "is_ack seg \<longrightarrow> seq_le (seg_ack_num seg) (t_snd_nxt t)"
    using Cons.prems(4,6) by (simp_all add: s)
  have k: "Suc k + 2 * m * Suc (length is) < 1073741824" using Cons.prems(5) by simp
  obtain t1 e1 where d: "dispatch P ip seg (t, e) = Some (Done, t1, e1)" "step_post good b S seen m k n is (reach_step n (seg, i)) t e t1 e1"
    using transfer_step [OF Cons.prems(1,2) ok(3) app k ops ok(4) Cons.prems(3) ok(1,2)] by blast
  obtain n1 is1 j where p: "n \<le> n1" "reach_step n (seg, i) \<le> n1" "j + length is1 \<le> Suc (length is)" "reading good b S (Suc k + 2 * m * j) n1 is1 t1"
    "\<forall>i\<in>set is1. n1 < i \<and> near n1 i" "seen (e_app e1) = seen (e_app e) @ slice S n (n1 - n)" "transfer_state (t_state t1)"
    using d(2) unfolding step_post_def by blast
  have seen: "seen (e_app e1) = slice S 0 n1"
    using p(1,6) Cons.prems(4) slice_append [of S 0 n "n1 - n"] by simp
  have "2 * m * (j + length is1) \<le> 2 * m * Suc (length is)" using p(3) by (rule mult_le_mono2)
  then have k1: "Suc k + 2 * m * j + 2 * m * length is1 + (2 * m + 1) * length segs < 1073741824"
    using Cons.prems(5) by (simp add: algebra_simps)
  have "segs_ok P ip seen b S segs (t1, e1)" using Cons.prems(6) d(1) by (simp add: s)
  from Cons.IH [OF p(4,5,7) seen k1 this] obtain t' e' n' where
    "transfer_run P ip (map fst segs) (t1, e1) = Some (t', e')" "foldl reach_step n1 segs \<le> n'"
    "seen (e_app e') = slice S 0 n'" "t_rcv_nxt t' = at b n'" "transfer_state (t_state t')" by blast
  moreover have "foldl reach_step n (s # segs) \<le> foldl reach_step n1 segs"
    using foldl_reach_mono [OF p(2)] by (simp add: s)
  ultimately show ?case using d(1) by (intro exI [of _ t'] exI [of _ e'] exI [of _ n']) (simp add: s)
qed

end

text \<open>C1. The receiver delivers the peer's stream.  Take any stream of bytes numbered from
  \<open>rcv_nxt\<close>, and any run of segments that carry parts of it, in any order, repeated, overlapping or
  with gaps, to a connection that receives; the application may send, close and answer in its
  callbacks.  The run comes back, and what the application has been given is exactly an initial
  part of the stream, ending at \<open>rcv_nxt\<close>; and it reaches at least as far as the bytes that come
  without a gap.\<close>

theorem receiver_stream:
  assumes "congestion_controller good (p_cc P)" and "calls_bounded P m" and "app_reads P seen"
    and "sender_inv k t" and "cong_ok good t" and "t_on_receive t" and "transfer_state (t_state t)"
    and "t_ooo_queue t = []" and "t_ooo_size t = 0" and "seen (e_app e) = []"
    and "k + (2 * m + 1) * length segs < 1073741824"
    and "segs_ok P ip seen (t_rcv_nxt t) S segs (t, e)"
  shows "\<exists>t' e' n. transfer_run P ip (map fst segs) (t, e) = Some (t', e') \<and>
    seen (e_app e') = slice S 0 n \<and> t_rcv_nxt t' = t_rcv_nxt t + of_nat n \<and>
    foldl reach_step 0 segs \<le> n \<and> transfer_state (t_state t')"
proof -
  have r: "reading good (t_rcv_nxt t) S k 0 [] t"
    using assms(4-9) transfer_running [of "t_state t"] by (simp add: reading_def ooo_inv_def at_def)
  have "\<exists>t' e' n. transfer_run P ip (map fst segs) (t, e) = Some (t', e') \<and> foldl reach_step 0 segs \<le> n \<and>
    seen (e_app e') = slice S 0 n \<and> t_rcv_nxt t' = at (t_rcv_nxt t) n \<and> transfer_state (t_state t')"
    by (rule congestion_controller.transfer_run_post [OF assms(1-3) refl r])
       (use assms(7,10-12) in \<open>simp_all add: slice_def\<close>)
  then show ?thesis by (auto simp: at_def)
qed

lemma echo_gap:
  "\<exists>t' e'. dispatch echo_params ip (data_seg 9 [3, 4]) (demo_conn\<lparr>t_on_receive := True\<rparr>, echo_env) = Some (Done, t', e') \<and>
     e_app e' = []"
proof -
  have "\<exists>t' e'. send_segment echo_params ACK [] (t, echo_env) = (t', e') \<and> e_app e' = []" for t :: "reno tcb"
    by (intro exI conjI, rule prod.collapse [symmetric]) (simp add: echo_env_def)
  then show ?thesis
    by (simp add: dispatch_def handle_established_def handle_data_def add_to_ooo_queue_def TCP_MSS_MAX_def
      seq_gt_def seq_lt_def seq_le_def demo_simps Let_def)
qed

theorem receiver_stream_witness:
  "\<exists>t' e' n. transfer_run echo_params 0x0A000001 [data_seg 9 [3, 4], data_seg 7 [1, 2]]
      (demo_conn\<lparr>t_on_receive := True\<rparr>, echo_env) = Some (t', e') \<and>
    e_app e' = slice (\<lambda>i. of_nat (Suc i)) 0 n \<and> t_rcv_nxt t' = 7 + of_nat n"
proof -
  let ?t = "demo_conn\<lparr>t_on_receive := True\<rparr>"
  let ?S = "\<lambda>i. of_nat (Suc i) :: u8"
  let ?segs = "[(data_seg 9 [3, 4], 2::nat), (data_seg 7 [1, 2], 0)]"
  obtain t1 e1 where d: "dispatch echo_params 0x0A000001 (data_seg 9 [3, 4]) (?t, echo_env) = Some (Done, t1, e1)" "e_app e1 = []"
    using echo_gap [of "0x0A000001"] by blast
  have slices: "slice ?S 2 2 = [3, 4]" "slice ?S 0 2 = [1, 2]" by (simp_all add: slice_def upt_rec)
  have "segs_ok echo_params 0x0A000001 id (t_rcv_nxt ?t) ?S ?segs (?t, echo_env)"
    using d slices by (simp add: carries_slice_def near_def at_def demo_conn_def echo_env_def numeral_2_eq_2 [symmetric] split: option.splits)
  moreover have "congestion_controller reno_wf (p_cc echo_params)"
    using reno.congestion_controller_axioms by (simp add: echo_params_def)
  moreover have "calls_bounded echo_params 1" "app_reads echo_params id"
    by (auto simp: calls_bounded_def app_reads_def echo_params_def split: conn_event.splits)
  moreover have "sender_inv 0 ?t" by (simp add: sender_inv_def demo_simps)
  moreover have "cong_ok reno_wf ?t" by (simp add: demo_simps cong_ok_def cg_inv_def reno_wf_new)
  ultimately have "\<exists>t' e' n. transfer_run echo_params 0x0A000001 (map fst ?segs) (?t, echo_env) = Some (t', e') \<and>
    id (e_app e') = slice ?S 0 n \<and> t_rcv_nxt t' = t_rcv_nxt ?t + of_nat n \<and>
    foldl reach_step 0 ?segs \<le> n \<and> transfer_state (t_state t')"
    by (intro receiver_stream [where m = 1 and k = 0]) (assumption | simp add: demo_conn_def tcb_new_def transfer_state_def echo_env_def)+
  then show ?thesis by (simp add: demo_conn_def) blast
qed
end
