(* ===== verification/Tcp_Lifecycle.thy ===== *)
theory Tcp_Lifecycle
  imports Tcp_Machine Tcp_Acked Tcp_Example
begin

text \<open>
  The life of a connection: which states a segment, a timer tick or an operation of the application
  can take it to, and what it leaves alone.  The facts here need no invariant: they hold of every
  control block for which an operation comes back.
\<close>

section \<open>What the shared steps leave alone\<close>

definition stays :: "('c, 'a) conn \<Rightarrow> ('c, 'a) conn \<Rightarrow> bool" where
  "stays c c' \<longleftrightarrow>
     close_step (t_state (fst c)) (t_state (fst c')) \<and> t_tuple (fst c') = t_tuple (fst c) \<and>
     e_now (snd c') = e_now (snd c) \<and>
     gm_active_connections (e_metrics (snd c')) = gm_active_connections (e_metrics (snd c))"

lemma stays_refl [simp, intro]: "stays c c"
  by (simp add: stays_def close_step_def)

lemma stays_trans [trans]: "stays c c' \<Longrightarrow> stays c' c'' \<Longrightarrow> stays c c''"
  using close_step_trans by (auto simp: stays_def)

lemma stays_same:
  "t_state t' = t_state t \<Longrightarrow> t_tuple t' = t_tuple t \<Longrightarrow> e_now e' = e_now e \<Longrightarrow> e_metrics e' = e_metrics e \<Longrightarrow>
   stays (t, e) (t', e')"
  by (simp add: stays_def close_step_def)

text \<open>Updates of other fields do not count.\<close>

lemma stays_updates [simp]:
  "stays (t\<lparr>t_options := x0\<rparr>, e) c \<longleftrightarrow> stays (t, e) c" "stays c (t\<lparr>t_options := x0\<rparr>, e) \<longleftrightarrow> stays c (t, e)"
  "stays (t\<lparr>t_passive_open := x1\<rparr>, e) c \<longleftrightarrow> stays (t, e) c" "stays c (t\<lparr>t_passive_open := x1\<rparr>, e) \<longleftrightarrow> stays c (t, e)"
  "stays (t\<lparr>t_snd_una := x2\<rparr>, e) c \<longleftrightarrow> stays (t, e) c" "stays c (t\<lparr>t_snd_una := x2\<rparr>, e) \<longleftrightarrow> stays c (t, e)"
  "stays (t\<lparr>t_snd_nxt := x3\<rparr>, e) c \<longleftrightarrow> stays (t, e) c" "stays c (t\<lparr>t_snd_nxt := x3\<rparr>, e) \<longleftrightarrow> stays c (t, e)"
  "stays (t\<lparr>t_snd_wnd := x4\<rparr>, e) c \<longleftrightarrow> stays (t, e) c" "stays c (t\<lparr>t_snd_wnd := x4\<rparr>, e) \<longleftrightarrow> stays c (t, e)"
  "stays (t\<lparr>t_iss := x5\<rparr>, e) c \<longleftrightarrow> stays (t, e) c" "stays c (t\<lparr>t_iss := x5\<rparr>, e) \<longleftrightarrow> stays c (t, e)"
  "stays (t\<lparr>t_rcv_nxt := x6\<rparr>, e) c \<longleftrightarrow> stays (t, e) c" "stays c (t\<lparr>t_rcv_nxt := x6\<rparr>, e) \<longleftrightarrow> stays c (t, e)"
  "stays (t\<lparr>t_rcv_wnd := x7\<rparr>, e) c \<longleftrightarrow> stays (t, e) c" "stays c (t\<lparr>t_rcv_wnd := x7\<rparr>, e) \<longleftrightarrow> stays c (t, e)"
  "stays (t\<lparr>t_irs := x8\<rparr>, e) c \<longleftrightarrow> stays (t, e) c" "stays c (t\<lparr>t_irs := x8\<rparr>, e) \<longleftrightarrow> stays c (t, e)"
  "stays (t\<lparr>t_congestion := x9\<rparr>, e) c \<longleftrightarrow> stays (t, e) c" "stays c (t\<lparr>t_congestion := x9\<rparr>, e) \<longleftrightarrow> stays c (t, e)"
  "stays (t\<lparr>t_retransmit_queue := x10\<rparr>, e) c \<longleftrightarrow> stays (t, e) c" "stays c (t\<lparr>t_retransmit_queue := x10\<rparr>, e) \<longleftrightarrow> stays c (t, e)"
  "stays (t\<lparr>t_srtt_us := x11\<rparr>, e) c \<longleftrightarrow> stays (t, e) c" "stays c (t\<lparr>t_srtt_us := x11\<rparr>, e) \<longleftrightarrow> stays c (t, e)"
  "stays (t\<lparr>t_rttvar_us := x12\<rparr>, e) c \<longleftrightarrow> stays (t, e) c" "stays c (t\<lparr>t_rttvar_us := x12\<rparr>, e) \<longleftrightarrow> stays c (t, e)"
  "stays (t\<lparr>t_rto_us := x13\<rparr>, e) c \<longleftrightarrow> stays (t, e) c" "stays c (t\<lparr>t_rto_us := x13\<rparr>, e) \<longleftrightarrow> stays c (t, e)"
  "stays (t\<lparr>t_last_rtt_us := x14\<rparr>, e) c \<longleftrightarrow> stays (t, e) c" "stays c (t\<lparr>t_last_rtt_us := x14\<rparr>, e) \<longleftrightarrow> stays c (t, e)"
  "stays (t\<lparr>t_rtt_measuring := x15\<rparr>, e) c \<longleftrightarrow> stays (t, e) c" "stays c (t\<lparr>t_rtt_measuring := x15\<rparr>, e) \<longleftrightarrow> stays c (t, e)"
  "stays (t\<lparr>t_rtt_seq := x16\<rparr>, e) c \<longleftrightarrow> stays (t, e) c" "stays c (t\<lparr>t_rtt_seq := x16\<rparr>, e) \<longleftrightarrow> stays c (t, e)"
  "stays (t\<lparr>t_rtt_send_time := x17\<rparr>, e) c \<longleftrightarrow> stays (t, e) c" "stays c (t\<lparr>t_rtt_send_time := x17\<rparr>, e) \<longleftrightarrow> stays c (t, e)"
  "stays (t\<lparr>t_ooo_queue := x18\<rparr>, e) c \<longleftrightarrow> stays (t, e) c" "stays c (t\<lparr>t_ooo_queue := x18\<rparr>, e) \<longleftrightarrow> stays c (t, e)"
  "stays (t\<lparr>t_ooo_size := x19\<rparr>, e) c \<longleftrightarrow> stays (t, e) c" "stays c (t\<lparr>t_ooo_size := x19\<rparr>, e) \<longleftrightarrow> stays c (t, e)"
  "stays (t\<lparr>t_dup_ack_count := x20\<rparr>, e) c \<longleftrightarrow> stays (t, e) c" "stays c (t\<lparr>t_dup_ack_count := x20\<rparr>, e) \<longleftrightarrow> stays c (t, e)"
  "stays (t\<lparr>t_last_ack_num := x21\<rparr>, e) c \<longleftrightarrow> stays (t, e) c" "stays c (t\<lparr>t_last_ack_num := x21\<rparr>, e) \<longleftrightarrow> stays c (t, e)"
  "stays (t\<lparr>t_send_buffer := x22\<rparr>, e) c \<longleftrightarrow> stays (t, e) c" "stays c (t\<lparr>t_send_buffer := x22\<rparr>, e) \<longleftrightarrow> stays c (t, e)"
  "stays (t\<lparr>t_recv_buffer := x23\<rparr>, e) c \<longleftrightarrow> stays (t, e) c" "stays c (t\<lparr>t_recv_buffer := x23\<rparr>, e) \<longleftrightarrow> stays c (t, e)"
  "stays (t\<lparr>t_on_connect := x24\<rparr>, e) c \<longleftrightarrow> stays (t, e) c" "stays c (t\<lparr>t_on_connect := x24\<rparr>, e) \<longleftrightarrow> stays c (t, e)"
  "stays (t\<lparr>t_on_receive := x25\<rparr>, e) c \<longleftrightarrow> stays (t, e) c" "stays c (t\<lparr>t_on_receive := x25\<rparr>, e) \<longleftrightarrow> stays c (t, e)"
  "stays (t\<lparr>t_on_close := x26\<rparr>, e) c \<longleftrightarrow> stays (t, e) c" "stays c (t\<lparr>t_on_close := x26\<rparr>, e) \<longleftrightarrow> stays c (t, e)"
  "stays (t\<lparr>t_last_activity := x27\<rparr>, e) c \<longleftrightarrow> stays (t, e) c" "stays c (t\<lparr>t_last_activity := x27\<rparr>, e) \<longleftrightarrow> stays c (t, e)"
  "stays (t\<lparr>t_zwp_needed := x28\<rparr>, e) c \<longleftrightarrow> stays (t, e) c" "stays c (t\<lparr>t_zwp_needed := x28\<rparr>, e) \<longleftrightarrow> stays c (t, e)"
  "stays (t\<lparr>t_zwp_time := x29\<rparr>, e) c \<longleftrightarrow> stays (t, e) c" "stays c (t\<lparr>t_zwp_time := x29\<rparr>, e) \<longleftrightarrow> stays c (t, e)"
  "stays (t\<lparr>t_delayed_ack_pending := x30\<rparr>, e) c \<longleftrightarrow> stays (t, e) c" "stays c (t\<lparr>t_delayed_ack_pending := x30\<rparr>, e) \<longleftrightarrow> stays c (t, e)"
  "stays (t\<lparr>t_delayed_ack_time := x31\<rparr>, e) c \<longleftrightarrow> stays (t, e) c" "stays c (t\<lparr>t_delayed_ack_time := x31\<rparr>, e) \<longleftrightarrow> stays c (t, e)"
  "stays (t\<lparr>t_close_pending := x32\<rparr>, e) c \<longleftrightarrow> stays (t, e) c" "stays c (t\<lparr>t_close_pending := x32\<rparr>, e) \<longleftrightarrow> stays c (t, e)"
  "stays (t\<lparr>t_min_rtt_us := x33\<rparr>, e) c \<longleftrightarrow> stays (t, e) c" "stays c (t\<lparr>t_min_rtt_us := x33\<rparr>, e) \<longleftrightarrow> stays c (t, e)"
  "stays (t\<lparr>t_last_sample_time_us := x34\<rparr>, e) c \<longleftrightarrow> stays (t, e) c" "stays c (t\<lparr>t_last_sample_time_us := x34\<rparr>, e) \<longleftrightarrow> stays c (t, e)"
  "stays (t\<lparr>t_packets_sent_period := x35\<rparr>, e) c \<longleftrightarrow> stays (t, e) c" "stays c (t\<lparr>t_packets_sent_period := x35\<rparr>, e) \<longleftrightarrow> stays c (t, e)"
  "stays (t\<lparr>t_packets_lost_period := x36\<rparr>, e) c \<longleftrightarrow> stays (t, e) c" "stays c (t\<lparr>t_packets_lost_period := x36\<rparr>, e) \<longleftrightarrow> stays c (t, e)"
  "stays (t\<lparr>t_ecn_ce_period := x37\<rparr>, e) c \<longleftrightarrow> stays (t, e) c" "stays c (t\<lparr>t_ecn_ce_period := x37\<rparr>, e) \<longleftrightarrow> stays c (t, e)"
  "stays (t\<lparr>t_bytes_sent_period := x38\<rparr>, e) c \<longleftrightarrow> stays (t, e) c" "stays c (t\<lparr>t_bytes_sent_period := x38\<rparr>, e) \<longleftrightarrow> stays c (t, e)"
  "stays (t\<lparr>t_bytes_acked_period := x39\<rparr>, e) c \<longleftrightarrow> stays (t, e) c" "stays c (t\<lparr>t_bytes_acked_period := x39\<rparr>, e) \<longleftrightarrow> stays c (t, e)"
  "stays (t, e\<lparr>e_app := y0\<rparr>) c \<longleftrightarrow> stays (t, e) c" "stays c (t, e\<lparr>e_app := y0\<rparr>) \<longleftrightarrow> stays c (t, e)"
  "stays (t, e\<lparr>e_out := y1\<rparr>) c \<longleftrightarrow> stays (t, e) c" "stays c (t, e\<lparr>e_out := y1\<rparr>) \<longleftrightarrow> stays c (t, e)"
  "stays (t, e\<lparr>e_samples := y2\<rparr>) c \<longleftrightarrow> stays (t, e) c" "stays c (t, e\<lparr>e_samples := y2\<rparr>) \<longleftrightarrow> stays c (t, e)"
  "stays (t, e\<lparr>e_rtts := y3\<rparr>) c \<longleftrightarrow> stays (t, e) c" "stays c (t, e\<lparr>e_rtts := y3\<rparr>) \<longleftrightarrow> stays c (t, e)"
  by (simp_all add: stays_def)

lemma raw_send_frame [simp]:
  "e_now (raw_send P t fl sq d e) = e_now e" "e_metrics (raw_send P t fl sq d e) = e_metrics e"
  by (simp_all add: raw_send_def emit_def split: option.split)

lemma send_rst_frame [simp]:
  "e_now (send_rst P ip seg e) = e_now e" "e_metrics (send_rst P ip seg e) = e_metrics e"
  by (simp_all add: send_rst_def emit_def Let_def split: option.split)

lemma transmit_active [simp]:
  "gm_active_connections (e_metrics (transmit dst seg e)) = gm_active_connections (e_metrics e)"
  by (simp add: transmit_def emit_def Let_def)

lemma send_segment_active [simp]:
  "gm_active_connections (e_metrics (snd (send_segment P fl d c))) = gm_active_connections (e_metrics (snd c))"
  by (auto simp: send_segment_def Let_def split: prod.splits option.split)

lemma send_segment_same:
  "send_segment P fl d (t, e) = (t', e') \<Longrightarrow> t_state t' = t_state t \<and> t_tuple t' = t_tuple t \<and> e_now e' = e_now e \<and>
     gm_active_connections (e_metrics e') = gm_active_connections (e_metrics e)"
  by (metis send_segment_active send_segment_frame(2,3,35) fst_conv snd_conv)

lemma stays_send_segment: "send_segment P fl d c = c' \<Longrightarrow> stays c c'"
  by (auto simp: stays_def close_step_def)

lemma stays_send_loop_step:
  assumes loop: "\<And>P t e t' e'. loop P t e = Some (t', e') \<Longrightarrow> stays (t, e) (t', e')"
    and s: "(case send_segment P (ACK OR PSH) data (t, e) of (t1, e1) \<Rightarrow>
              Option.bind (sb_consume (t_send_buffer t1) k) (\<lambda>(n, buf). loop P (t1\<lparr>t_send_buffer := buf\<rparr>) e1)) = Some c'"
  shows "stays (t, e) c'"
proof -
  obtain t1 e1 where f: "send_segment P (ACK OR PSH) data (t, e) = (t1, e1)" by fastforce
  obtain buf where l: "loop P (t1\<lparr>t_send_buffer := buf\<rparr>) e1 = Some c'"
    using s f by (auto split: Option.bind_splits)
  have "stays (t1\<lparr>t_send_buffer := buf\<rparr>, e1) c'" using loop l by (cases c') (simp del: stays_updates)
  then show ?thesis using stays_trans [OF stays_send_segment [OF f]] by simp
qed

lemma stays_send_loop:
  assumes "send_loop P t e = Some c'"
  shows "stays (t, e) c'"
proof -
  have "stays (snd (fst ((P, t), e)), snd ((P, t), e)) c'"
  proof (rule send_loop.raw_induct [where Pa = "\<lambda>x c'. stays (snd (fst x), snd x) c'", OF _ assms], goal_cases)
    case (1 loop P t e c')
    show ?case
      using 1(2) stays_send_loop_step [where loop = loop and P = P and t = t and e = e and c' = c'] 1(1)
      by (simp add: Let_def split: if_splits)
  qed
  then show ?thesis by simp
qed

lemma stays_finish_pending_close: "stays c (finish_pending_close P c)"
  by (cases c) (auto simp: finish_pending_close_def Let_def stays_def close_step_def
      dest!: send_segment_same split: prod.splits)

lemma stays_send_buffered_data:
  assumes "send_buffered_data P c = Some c'"
  shows "stays c c'"
proof -
  obtain t e where c: "c = (t, e)" by fastforce
  obtain t1 e1 where l: "send_loop P t e = Some (t1, e1)"
    "c' = finish_pending_close P (t1\<lparr>t_rcv_wnd := backpressure_window t1\<rparr>, e1)"
    using assms by (auto simp: c send_buffered_data_def split: Option.bind_splits)
  have "stays c (t1, e1)" unfolding c by (rule stays_send_loop [OF l(1)])
  also have "stays (t1, e1) c'"
    using stays_finish_pending_close [of "(t1\<lparr>t_rcv_wnd := backpressure_window t1\<rparr>, e1)" P] by (simp add: l(2))
  finally show ?thesis .
qed

lemma stays_buffer_data: "stays (t, e) c \<Longrightarrow> stays (buffer_data bs t, e) c" "stays c (t, e) \<Longrightarrow> stays c (buffer_data bs t, e)"
  by (simp_all add: stays_def buffer_data_def)

lemma stays_send_now:
  assumes "send_now P data n (t, e) = Some (i, c')"
  shows "stays (t, e) c'"
proof -
  let ?n = "min (min n (unat (available_window (p_cc P) t))) (unat (op_mss (t_options t)))"
  obtain t1 e1 where s: "send_segment P (ACK OR PSH) (take ?n data) (t, e) = (t1, e1)" by fastforce
  let ?t2 = "if ?n < n then buffer_data (take (n - ?n) (drop ?n data)) t1 else t1"
  have "stays (t, e) (?t2, e1)" using stays_send_segment [OF s] by (simp add: stays_buffer_data)
  moreover have "stays (?t2, e1) c'"
    using assms s stays_send_buffered_data [of P "(?t2, e1)"]
    by (auto simp: send_now_def Let_def split: if_splits Option.bind_splits)
  ultimately show ?thesis by (rule stays_trans)
qed

lemma stays_tcp_send: "tcp_send P data c = Some (n, c') \<Longrightarrow> stays c c'"
  by (cases c) (auto simp: tcp_send_def Let_def stays_buffer_data dest: stays_send_now split: if_splits)

lemma stays_fin:
  assumes "stays (t, e) (t1, e1)" and "send_segment P (FIN OR ACK) [] (t1, e1) = (t2, e2)"
    and "t_state t = ESTABLISHED \<and> s = FIN_WAIT_1 \<or> t_state t = CLOSE_WAIT \<and> s = LAST_ACK"
  shows "stays (t, e) (t2\<lparr>t_state := s\<rparr>, e2)"
  using send_segment_same [OF assms(2)] assms(1,3) by (auto simp: stays_def close_step_def)

lemma stays_tcp_close:
  assumes "tcp_close P c = Some (d, c')"
  shows "stays c c'"
proof -
  obtain t e where c: "c = (t, e)" by fastforce
  show ?thesis
    using assms
    by (auto simp: c tcp_close_def split: tcp_state.splits if_splits prod.splits Option.bind_splits
        dest!: stays_send_buffered_data intro: stays_fin)
qed

lemma stays_run_calls: "run_calls P calls c = Some c' \<Longrightarrow> stays c c'"
proof (induction P calls c arbitrary: c' rule: run_calls.induct)
  case (2 P data calls c)
  then obtain n t e where s: "tcp_send P data c = Some (n, t, e)"
    "run_calls P calls (t, e\<lparr>e_app := p_result P (t_tuple t) n (e_app e)\<rparr>) = Some c'"
    by (auto split: Option.bind_splits)
  have "stays c (t, e)" by (rule stays_tcp_send [OF s(1)])
  moreover have "stays (t, e) c'" using 2(1) [OF s(1) refl refl s(2)] by simp
  ultimately show ?case by (rule stays_trans)
next
  case (3 P calls c)
  then obtain c1 where s: "tcp_close P c = Some (False, c1)" "run_calls P calls c1 = Some c'"
    by (auto split: Option.bind_splits if_splits)
  have "stays c c1" by (rule stays_tcp_close [OF s(1)])
  moreover have "stays c1 c'" using 3(1) [OF s(1) refl _ s(2)] by simp
  ultimately show ?case by (rule stays_trans)
qed auto

lemma stays_run_callback: "run_callback P ev c = Some c' \<Longrightarrow> stays c c'"
  by (cases c) (auto simp: run_callback_def split: prod.splits dest!: stays_run_calls)
lemma update_rtt_stays [simp]: "stays c (update_rtt P rtt c)"
  by (cases c) (auto simp: update_rtt_def split: prod.splits)

lemma stays_ack_rtt: "stays c (ack_rtt P en c)"
  using update_rtt_stays [of c P "word_of_int ((e_now (snd c) - t_rtt_send_time (fst c)) div 1000)"]
  by (cases c) (auto simp: ack_rtt_def simp del: update_rtt_stays split: prod.splits)

lemma stays_ack_queue: "ack_queue P ack q c = Some c' \<Longrightarrow> stays c c'"
proof (induction q arbitrary: c)
  case Nil
  then show ?case by (cases c) auto
next
  case (Cons en q)
  obtain t e where c: "c = (t, e)" by fastforce
  show ?case
  proof (cases "seq_le (re_seq_end en) ack")
    case True
    then have "stays (ack_rtt P en c) c'" using Cons by (simp add: c)
    then show ?thesis using stays_ack_rtt stays_trans by blast
  qed (use Cons.prems in \<open>auto simp: c Let_def split: if_splits\<close>)
qed

lemma stays_push_sample: "push_sample P c = Some c' \<Longrightarrow> stays c c'"
  by (cases c) (auto simp: push_sample_def Let_def split: if_splits Option.bind_splits)

lemma stays_check_dup_ack: "stays c (check_dup_ack P ack c)"
  by (cases c) (auto simp: check_dup_ack_def Let_def stays_def close_step_def split: list.splits option.splits)

lemma stays_process_ack:
  assumes "process_ack P ack w c = Some c'"
  shows "stays c c'"
proof -
  obtain t e where c: "c = (t, e)" by fastforce
  obtain t1 e1 where d: "check_dup_ack P ack (t\<lparr>t_snd_wnd := ucast w\<rparr>, e) = (t1, e1)" by fastforce
  have 1: "stays c (t1, e1)"
    using stays_check_dup_ack [of "(t\<lparr>t_snd_wnd := ucast w\<rparr>, e)" P ack] by (simp add: d c)
  have "stays (t1, e1) c'"
  proof (cases "seq_gt ack (t_snd_una t1)")
    case False
    then show ?thesis using assms d
      by (auto simp: c process_ack_def Let_def dest: stays_send_buffered_data split: if_splits)
  next
    case True
    obtain cc t4 e4 c6 where s:
      "ack_queue P ack (t_retransmit_queue t1) (t1\<lparr>t_snd_una := ack, t_congestion := cc,
         t_bytes_acked_period := t_bytes_acked_period t1 + (ack - t_snd_una t1)\<rparr>, e1) = Some (t4, e4)"
      "(if 0 < ack - t_snd_una t1 then send_buffered_data P (t4\<lparr>t_dup_ack_count := 0, t_last_ack_num := ack\<rparr>, e4)
        else Some (t4\<lparr>t_dup_ack_count := 0, t_last_ack_num := ack\<rparr>, e4)) = Some c6" "push_sample P c6 = Some c'"
      using assms d True by (simp add: c process_ack_def Let_def split: Option.bind_splits) blast
    have "stays (t4, e4) c6" using s(2) by (auto dest!: stays_send_buffered_data split: if_splits)
    then show ?thesis using stays_ack_queue [OF s(1)] stays_push_sample [OF s(3)] stays_trans by (simp; blast)
  qed
  with 1 show ?thesis by (rule stays_trans)
qed

lemma stays_deliver_data: "deliver_data P data c = Some c' \<Longrightarrow> stays c c'"
  by (cases c) (auto simp: deliver_data_def split: Option.bind_splits if_splits dest!: stays_run_callback)

lemma stays_ooo_pop: "ooo_pop t = Some t' \<Longrightarrow> stays (t, e) (t', e)"
  by (auto simp: ooo_pop_def split: list.splits if_splits)
lemma stays_deliver_ooo_step:
  assumes loop: "\<And>t e t' e'. loop t e = Some (t', e') \<Longrightarrow> stays (t, e) (t', e')"
    and s: "Option.bind (deliver_data P data (t, e)) (\<lambda>(t1, e1). Option.bind (ooo_pop (t1\<lparr>t_rcv_nxt := n\<rparr>)) (\<lambda>t2. loop t2 e1)) = Some c'"
  shows "stays (t, e) c'"
proof -
  obtain t1 e1 t2 where d: "deliver_data P data (t, e) = Some (t1, e1)" "ooo_pop (t1\<lparr>t_rcv_nxt := n\<rparr>) = Some t2" "loop t2 e1 = Some c'"
    using s by (auto split: Option.bind_splits)
  have "stays (t1, e1) (t2, e1)" using stays_ooo_pop [OF d(2), of e1] by simp
  moreover have "stays (t2, e1) c'" using d(3) loop by (cases c') simp
  ultimately show ?thesis using stays_deliver_data [OF d(1)] stays_trans by blast
qed

lemma stays_deliver_ooo_data:
  assumes "deliver_ooo_data P t e = Some c'"
  shows "stays (t, e) c'"
proof -
  have "stays (snd (fst ((P, t), e)), snd ((P, t), e)) c'"
  proof (rule deliver_ooo_data.raw_induct [where Pa = "\<lambda>x c'. stays (snd (fst x), snd x) c'", OF _ assms], goal_cases)
    case (1 loop P t e c')
    have l: "\<And>t e t' e'. loop P t e = Some (t', e') \<Longrightarrow> stays (t, e) (t', e')" using 1(1) by simp
    have p: "Option.bind (ooo_pop t) (\<lambda>t1. loop P t1 e) = Some c' \<Longrightarrow> stays (t, e) c'"
      using l stays_ooo_pop stays_trans by (cases c') (fastforce split: Option.bind_splits)
    show ?case
      using 1(2) p stays_deliver_ooo_step [where loop = "loop P" and P = P and t = t and e = e and c' = c', OF l]
      by (auto simp: Let_def split: list.splits if_splits)
  qed
  then show ?thesis by simp
qed

lemma stays_delayed_ack: "stays c (delayed_ack P c)"
  by (cases c) (auto simp: delayed_ack_def dest!: stays_send_segment split: prod.splits)

lemma stays_handle_data:
  assumes "handle_data P seg c = Some c'"
  shows "stays c c'"
proof -
  obtain t e where c: "c = (t, e)" by fastforce
  have ooo: "stays (t, e) (send_segment P ACK [] (t1, e))" if "add_to_ooo_queue sq data t = Some t1" for sq data t1
  proof -
    have "stays (t, e) (t1, e)" using that by (auto simp: add_to_ooo_queue_def split: if_splits)
    then show ?thesis using stays_send_segment [OF refl] stays_trans by blast
  qed
  have ord: "stays (t, e) (delayed_ack P c2)"
    if "deliver_data P data (t, e) = Some (t1, e1)" "deliver_ooo_data P (t1\<lparr>t_rcv_nxt := n\<rparr>) e1 = Some c2" for data t1 e1 n c2
    using stays_deliver_data [OF that(1)] stays_deliver_ooo_data [OF that(2)] stays_delayed_ack [of c2 P] stays_trans
    by (simp; blast)
  show ?thesis
    using assms ooo ord
    by (auto simp: c handle_data_def Let_def split: if_splits Option.bind_splits)
qed
section \<open>The state diagram\<close>

text \<open>The diagram of RFC 793, with the abort of a connection from any state.\<close>

inductive tcp_edge :: "tcp_state \<Rightarrow> tcp_state \<Rightarrow> bool" where
  open_simultaneous: "tcp_edge SYN_SENT SYN_RCVD"
| open_active: "tcp_edge SYN_SENT ESTABLISHED"
| open_passive: "tcp_edge SYN_RCVD ESTABLISHED"
| close_active: "tcp_edge ESTABLISHED FIN_WAIT_1"
| close_passive: "tcp_edge ESTABLISHED CLOSE_WAIT"
| fin_acked: "tcp_edge FIN_WAIT_1 FIN_WAIT_2"
| close_simultaneous: "tcp_edge FIN_WAIT_1 CLOSING"
| fin_received: "tcp_edge FIN_WAIT_2 TIME_WAIT"
| closing_acked: "tcp_edge CLOSING TIME_WAIT"
| close_after_fin: "tcp_edge CLOSE_WAIT LAST_ACK"
| abort: "s \<noteq> CLOSED \<Longrightarrow> tcp_edge s CLOSED"

code_pred tcp_edge .

inductive_simps tcp_edge_simps:
  "tcp_edge SYN_SENT s" "tcp_edge SYN_RCVD s" "tcp_edge ESTABLISHED s" "tcp_edge FIN_WAIT_1 s"
  "tcp_edge FIN_WAIT_2 s" "tcp_edge CLOSING s" "tcp_edge CLOSE_WAIT s" "tcp_edge LAST_ACK s"
  "tcp_edge TIME_WAIT s" "tcp_edge CLOSED s" "tcp_edge LISTEN s"

abbreviation "tcp_path \<equiv> tcp_edge\<^sup>*\<^sup>*"

text \<open>The diagram has no cycle: every edge raises the stage of a connection.\<close>

fun stage :: "tcp_state \<Rightarrow> nat" where
  "stage LISTEN = 0" | "stage SYN_SENT = 1" | "stage SYN_RCVD = 2" | "stage ESTABLISHED = 3"
| "stage FIN_WAIT_1 = 4" | "stage CLOSE_WAIT = 4" | "stage FIN_WAIT_2 = 5" | "stage CLOSING = 5"
| "stage LAST_ACK = 6" | "stage TIME_WAIT = 6" | "stage CLOSED = 7"

lemma stage_closed: "s \<noteq> CLOSED \<Longrightarrow> stage s < 7"
  by (cases s) simp_all

lemma tcp_edge_stage: "tcp_edge s s' \<Longrightarrow> stage s < stage s'"
  by (induction rule: tcp_edge.induct) (simp_all add: stage_closed)

lemma tcp_path_stage: "tcp_path s s' \<Longrightarrow> s = s' \<or> stage s < stage s'"
  by (induction rule: rtranclp_induct) (auto dest: tcp_edge_stage)

lemma close_step_path: "close_step s s' \<Longrightarrow> tcp_path s s'"
  by (auto simp: close_step_def intro: tcp_edge.intros)

lemma stays_path: "stays c c' \<Longrightarrow> tcp_path (t_state (fst c)) (t_state (fst c'))"
  by (simp add: stays_def close_step_path)

lemma stays_state:
  "stays c c' \<Longrightarrow> t_state (fst c) \<noteq> ESTABLISHED \<Longrightarrow> t_state (fst c) \<noteq> CLOSE_WAIT \<Longrightarrow> t_state (fst c') = t_state (fst c)"
  by (auto simp: stays_def close_step_def)

lemma stays_tuple: "stays c c' \<Longrightarrow> t_tuple (fst c') = t_tuple (fst c)"
  by (simp add: stays_def)

text \<open>The opening of every handler of a synchronised connection.\<close>

lemma ack_opt_stays:
  "(if b then process_ack P a w c else Some c) = Some c' \<Longrightarrow> stays c c'"
  "(if b then handle_data P seg c else Some c) = Some c' \<Longrightarrow> stays c c'"
  "(if b then run_callback P ev c else Some c) = Some c' \<Longrightarrow> stays c c'"
  by (auto split: if_splits dest: stays_process_ack stays_handle_data stays_run_callback)

text \<open>A handler moves a connection along the diagram and keeps its tuple.\<close>

definition moves :: "('c, 'a) conn \<Rightarrow> ('c, 'a) conn \<Rightarrow> bool" where
  "moves c c' \<longleftrightarrow> tcp_path (t_state (fst c)) (t_state (fst c')) \<and> t_tuple (fst c') = t_tuple (fst c)"

lemma stays_moves: "stays c c' \<Longrightarrow> moves c c'"
  by (simp add: moves_def stays_path stays_tuple)

lemma moves_trans: "moves c c' \<Longrightarrow> moves c' c'' \<Longrightarrow> moves c c''"
  by (auto simp: moves_def)
text \<open>Setting the state after shared steps.\<close>

lemma enter_state:
  "stays c (t, e) \<Longrightarrow> tcp_path (t_state (fst c)) s \<Longrightarrow> moves c (t\<lparr>t_state := s\<rparr>, e')"
  by (simp add: moves_def stays_def)

lemma ack_enter_state:
  assumes "stays c (t, e)" and "send_segment P fl d (t, e) = (t', e')" and "tcp_path (t_state (fst c)) s"
  shows "moves c (t'\<lparr>t_state := s\<rparr>, e'')"
  using stays_trans [OF assms(1) stays_send_segment [OF assms(2)]] assms(3) by (rule enter_state)

lemma tcp_paths [simp, intro]:
  "tcp_path SYN_SENT SYN_RCVD" "tcp_path SYN_SENT ESTABLISHED" "tcp_path SYN_RCVD ESTABLISHED"
  "tcp_path ESTABLISHED CLOSE_WAIT" "tcp_path FIN_WAIT_1 FIN_WAIT_2" "tcp_path FIN_WAIT_1 CLOSING"
  "tcp_path FIN_WAIT_1 TIME_WAIT" "tcp_path FIN_WAIT_2 TIME_WAIT" "tcp_path CLOSING TIME_WAIT" "tcp_path s CLOSED"
proof -
  show "tcp_path FIN_WAIT_1 TIME_WAIT"
    using fin_acked fin_received by (meson rtranclp.simps)
  show "tcp_path s CLOSED" by (cases "s = CLOSED") (simp, blast intro: abort)
qed (blast intro: tcp_edge.intros)+

definition post_fits :: "post \<Rightarrow> tcp_state \<Rightarrow> tcp_state \<Rightarrow> bool" where
  "post_fits p s s' \<longleftrightarrow> (p = StartTimeWait \<longleftrightarrow> s' = TIME_WAIT \<and> s \<noteq> TIME_WAIT) \<and> (s' = CLOSED \<and> s \<noteq> CLOSED \<longrightarrow> p = Delete)"

definition handled :: "('c, 'a) conn \<Rightarrow> post \<times> ('c, 'a) conn \<Rightarrow> bool" where
  "handled c r \<longleftrightarrow> moves c (snd r) \<and> post_fits (fst r) (t_state (fst c)) (t_state (fst (snd r)))"

lemma post_fits_done: "close_step s s' \<Longrightarrow> post_fits Done s s'"
  by (auto simp: post_fits_def close_step_def)

lemma stays_handled: "stays c c' \<Longrightarrow> handled c (Done, c')"
  by (simp add: handled_def stays_moves post_fits_done stays_def)

lemma handle_close_wait_handled: "handle_close_wait P seg c = Some r \<Longrightarrow> handled c r"
  by (auto simp: handle_close_wait_def split: Option.bind_splits dest!: ack_opt_stays intro: stays_handled)

lemma handle_time_wait_handled: "handle_time_wait P seg c = Some r \<Longrightarrow> t_state (fst c) = TIME_WAIT \<Longrightarrow> handled c r"
  by (cases c) (auto simp: handle_time_wait_def handled_def moves_def post_fits_def split: if_splits)

lemma handle_closing_handled: "handle_closing P seg c = Some r \<Longrightarrow> t_state (fst c) = CLOSING \<Longrightarrow> handled c r"
  by (auto simp: handle_closing_def handled_def post_fits_def moves_def stays_def close_step_def
      split: if_splits Option.bind_splits dest!: stays_process_ack)

lemma handle_last_ack_handled: "handle_last_ack P seg c = Some r \<Longrightarrow> t_state (fst c) = LAST_ACK \<Longrightarrow> handled c r"
  by (auto simp: handle_last_ack_def handled_def post_fits_def moves_def stays_def close_step_def
      split: if_splits Option.bind_splits dest!: stays_process_ack)
lemma handled_moves: "moves c c' \<Longrightarrow> post_fits p (t_state (fst c)) (t_state (fst c')) \<Longrightarrow> handled c (p, c')"
  by (simp add: handled_def)

lemma handle_fin_wait_2_handled:
  assumes h: "handle_fin_wait_2 P seg c = Some r" and st: "t_state (fst c) = FIN_WAIT_2"
  shows "handled c r"
proof -
  obtain c1 t2 e2 where c1: "(if is_ack seg then process_ack P (seg_ack_num seg) (seg_window seg) c else Some c) = Some c1"
    and c2: "(if data_length seg > 0 then handle_data P seg c1 else Some c1) = Some (t2, e2)"
    and r: "(if is_fin seg \<and> seg_seq_num seg + of_nat (data_length seg) = t_rcv_nxt t2 then
       case send_segment P ACK [] (t2\<lparr>t_rcv_nxt := t_rcv_nxt t2 + 1\<rparr>, e2) of
         (t3, e3) \<Rightarrow> Some (StartTimeWait, t3\<lparr>t_state := TIME_WAIT\<rparr>, e3)
     else Some (Done, t2, e2)) = Some r"
    using h by (auto simp: handle_fin_wait_2_def split: Option.bind_splits)
  have s: "stays c (t2, e2)" using ack_opt_stays(1) [OF c1] ack_opt_stays(2) [OF c2] by (rule stays_trans)
  then have "stays c (t2\<lparr>t_rcv_nxt := n\<rparr>, e2)" for n by simp
  note f = ack_enter_state [OF this]
  show ?thesis using r st stays_handled [OF s]
    by (auto simp: post_fits_def intro!: handled_moves f split: prod.splits if_splits)
qed

lemma handle_fin_wait_1_handled:
  assumes h: "handle_fin_wait_1 P seg c = Some r" and st: "t_state (fst c) = FIN_WAIT_1"
  shows "handled c r"
proof -
  obtain c1 t2 e2 where c1: "(if is_ack seg then process_ack P (seg_ack_num seg) (seg_window seg) c else Some c) = Some c1"
    and c2: "(if data_length seg > 0 then handle_data P seg c1 else Some c1) = Some (t2, e2)"
    and r: "(if is_fin seg \<and> seg_seq_num seg + of_nat (data_length seg) = t_rcv_nxt t2 then
       case send_segment P ACK [] (t2\<lparr>t_rcv_nxt := t_rcv_nxt t2 + 1\<rparr>, e2) of
         (t3, e3) \<Rightarrow>
           if is_ack seg \<and> t_snd_una (fst c1) = t_snd_nxt (fst c1) then Some (StartTimeWait, t3\<lparr>t_state := TIME_WAIT\<rparr>, e3)
           else Some (Done, t3\<lparr>t_state := CLOSING\<rparr>, e3)
     else Some (Done, if is_ack seg \<and> t_snd_una (fst c1) = t_snd_nxt (fst c1) then t2\<lparr>t_state := FIN_WAIT_2\<rparr> else t2, e2)) = Some r"
    using h by (auto simp: handle_fin_wait_1_def Let_def split: Option.bind_splits)
  have s: "stays c (t2, e2)" using ack_opt_stays(1) [OF c1] ack_opt_stays(2) [OF c2] by (rule stays_trans)
  then have "stays c (t2\<lparr>t_rcv_nxt := n\<rparr>, e2)" for n by simp
  note f = ack_enter_state [OF this]
  show ?thesis using r st stays_handled [OF s] enter_state [OF s, of FIN_WAIT_2]
    by (auto simp: post_fits_def intro!: handled_moves intro: f split: prod.splits if_splits)
qed

text \<open>\<open>handle_established\<close> also runs after the application closed in \<open>on_connect\<close>.\<close>

lemma handle_established_states:
  assumes h: "handle_established P seg c = Some c'" and st: "t_state (fst c) \<in> {ESTABLISHED, FIN_WAIT_1}"
  shows "t_state (fst c') \<in> {ESTABLISHED, FIN_WAIT_1, CLOSE_WAIT, LAST_ACK} \<and> t_tuple (fst c') = t_tuple (fst c)"
proof -
  obtain c1 t2 e2 where c1: "(if is_ack seg then process_ack P (seg_ack_num seg) (seg_window seg) c else Some c) = Some c1"
    and c2: "(if data_length seg > 0 then handle_data P seg c1 else Some c1) = Some (t2, e2)"
    and r: "(if is_fin seg then
       let fin_seq = seg_seq_num seg + of_nat (data_length seg) in
       if fin_seq = t_rcv_nxt t2 then
         case send_segment P ACK [] (t2\<lparr>t_rcv_nxt := t_rcv_nxt t2 + 1\<rparr>, e2) of
           (t3, e3) \<Rightarrow>
             let t4 = t3\<lparr>t_state := CLOSE_WAIT\<rparr>
             in if t_on_close t4 then run_callback P OnClose (t4, e3) else Some (t4, e3)
       else Some (t2, e2)
     else Some (t2, e2)) = Some c'"
    using h by (auto simp: handle_established_def split: Option.bind_splits)
  have s: "stays c (t2, e2)" using ack_opt_stays(1) [OF c1] ack_opt_stays(2) [OF c2] by (rule stays_trans)
  show ?thesis
  proof (cases "is_fin seg \<and> seg_seq_num seg + of_nat (data_length seg) = t_rcv_nxt t2")
    case False
    then have "c' = (t2, e2)" using r by (auto simp: Let_def split: if_splits)
    then show ?thesis using s st by (auto simp: stays_def close_step_def)
  next
    case True
    obtain t3 e3 where f: "send_segment P ACK [] (t2\<lparr>t_rcv_nxt := t_rcv_nxt t2 + 1\<rparr>, e2) = (t3, e3)" by fastforce
    have "stays (t3\<lparr>t_state := CLOSE_WAIT\<rparr>, e3) c'"
      using r True f by (auto simp: Let_def dest!: stays_run_callback split: if_splits)
    then show ?thesis using send_segment_same [OF f] s by (auto simp: stays_def close_step_def)
  qed
qed

lemma established_paths:
  assumes "s \<in> {ESTABLISHED, FIN_WAIT_1, CLOSE_WAIT, LAST_ACK}"
  shows "tcp_path ESTABLISHED s"
proof -
  have "tcp_path ESTABLISHED CLOSE_WAIT" "tcp_path ESTABLISHED FIN_WAIT_1" by (blast intro: tcp_edge.intros)+
  then show ?thesis using assms close_after_fin rtranclp.rtrancl_into_rtrancl [of tcp_edge ESTABLISHED CLOSE_WAIT] by blast
qed

lemma handle_established_handled:
  assumes h: "handle_established P seg c = Some c'" and st: "t_state (fst c) = ESTABLISHED"
  shows "handled c (Done, c')"
proof -
  have s: "t_state (fst c') \<in> {ESTABLISHED, FIN_WAIT_1, CLOSE_WAIT, LAST_ACK}" "t_tuple (fst c') = t_tuple (fst c)"
    using handle_established_states [OF h] st by simp_all
  then have "moves c c'" using established_paths [OF s(1)] by (simp add: moves_def st)
  then show ?thesis using s(1) st by (intro handled_moves) (auto simp: post_fits_def)
qed

lemma handle_syn_sent_handled:
  assumes h: "handle_syn_sent P ip seg c = Some c'" and st: "t_state (fst c) = SYN_SENT"
  shows "handled c (Done, c')"
proof -
  obtain t e where c: "c = (t, e)" by fastforce
  consider "c' = (t, e) \<or> c' = (t, send_rst P ip seg e)"
    | c2 where "is_syn seg" "is_ack seg"
      "process_ack P (seg_ack_num seg) (seg_window seg) (t\<lparr>t_irs := seg_seq_num seg, t_rcv_nxt := seg_seq_num seg + 1\<rparr>, e) = Some c2"
      "(let (t3, e3) = send_segment P ACK [] c2; t4 = t3\<lparr>t_state := ESTABLISHED\<rparr>; e4 = count_established e3
        in if t_on_connect t4 then run_callback P (OnConnect 0) (t4, e4) else Some (t4, e4)) = Some c'"
    | "(case send_segment P (SYN OR ACK) [] (t\<lparr>t_irs := seg_seq_num seg, t_rcv_nxt := seg_seq_num seg + 1,
        t_retransmit_queue := [], t_snd_nxt := t_iss t\<rparr>, e) of (t2, e2) \<Rightarrow> Some (t2\<lparr>t_state := SYN_RCVD\<rparr>, e2)) = Some c'"
    using h by (auto simp: c handle_syn_sent_def Let_def split: if_splits Option.bind_splits)
  then show ?thesis
  proof cases
    case 1
    then show ?thesis by (auto simp: c handled_def moves_def post_fits_def)
  next
    case (2 c2)
    have s: "stays c c2" using stays_process_ack [OF 2(3)] by (simp add: c)
    obtain t3 e3 where f: "send_segment P ACK [] c2 = (t3, e3)" by fastforce
    have m: "moves c (t3\<lparr>t_state := ESTABLISHED\<rparr>, count_established e3)"
      using enter_state [OF stays_trans [OF s stays_send_segment [OF f]], of ESTABLISHED] st by simp
    have s2: "stays (t3\<lparr>t_state := ESTABLISHED\<rparr>, count_established e3) c'"
      using 2(4) f by (auto simp: Let_def dest!: stays_run_callback split: if_splits)
    then have "t_state (fst c') = ESTABLISHED \<or> t_state (fst c') = FIN_WAIT_1" by (auto simp: stays_def close_step_def)
    then show ?thesis using moves_trans [OF m stays_moves [OF s2]] by (intro handled_moves) (auto simp: post_fits_def)
  next
    case 3
    then obtain t2 e2 where f: "send_segment P (SYN OR ACK) [] (t\<lparr>t_irs := seg_seq_num seg, t_rcv_nxt := seg_seq_num seg + 1,
        t_retransmit_queue := [], t_snd_nxt := t_iss t\<rparr>, e) = (t2, e2)" "c' = (t2\<lparr>t_state := SYN_RCVD\<rparr>, e2)"
      by (auto split: prod.splits)
    have "moves c c'"
      unfolding f(2) by (rule enter_state) (use stays_send_segment [OF f(1)] st in \<open>simp_all add: c\<close>)
    then show ?thesis using f(2) by (intro handled_moves) (auto simp: post_fits_def)
  qed
qed
lemma handle_syn_rcvd_handled:
  assumes h: "handle_syn_rcvd P ip seg c = Some r" and st: "t_state (fst c) = SYN_RCVD" and rst: "\<not> is_rst seg"
  shows "handled c r"
proof -
  obtain t e where c: "c = (t, e)" by fastforce
  consider "r = (Done, t, e) \<or> r = (Done, t, send_rst P ip seg e)"
    | t1 e1 c3 c4 where "process_ack P (seg_ack_num seg) (seg_window seg) (t, e) = Some (t1, e1)"
      "(if t_on_connect (t1\<lparr>t_state := ESTABLISHED\<rparr>)
        then run_callback P (OnConnect 0) (t1\<lparr>t_state := ESTABLISHED\<rparr>, count_established e1)
        else Some (t1\<lparr>t_state := ESTABLISHED\<rparr>, count_established e1)) = Some c3"
      "(if data_length seg > 0 then handle_established P seg c3 else Some c3) = Some c4" "r = (Done, c4)"
  proof (cases "is_ack seg \<and> seq_gt (seg_ack_num seg) (t_snd_una t) \<and> \<not> seq_gt (seg_ack_num seg) (t_snd_nxt t)")
    case False
    then show ?thesis using h rst that(1) by (auto simp: c handle_syn_rcvd_def Let_def split: if_splits)
  next
    case True
    then show ?thesis using h rst that(2) by (auto simp: c handle_syn_rcvd_def Let_def split: Option.bind_splits)
  qed
  then show ?thesis
  proof cases
    case 1
    then show ?thesis by (auto simp: c handled_def moves_def post_fits_def)
  next
    case (2 t1 e1 c3 c4)
    have s: "stays (t1\<lparr>t_state := ESTABLISHED\<rparr>, count_established e1) c3"
      using 2(2) by (auto dest!: stays_run_callback split: if_splits)
    then have c3: "t_state (fst c3) \<in> {ESTABLISHED, FIN_WAIT_1}" by (auto simp: stays_def close_step_def)
    have c4: "t_state (fst c4) \<in> {ESTABLISHED, FIN_WAIT_1, CLOSE_WAIT, LAST_ACK}" "t_tuple (fst c4) = t_tuple (fst c3)"
      using 2(3) c3 handle_established_states [of P seg c3 c4] by (auto split: if_splits)
    have "tcp_path SYN_RCVD (t_state (fst c4))"
      using established_paths [OF c4(1)] open_passive by (rule converse_rtranclp_into_rtranclp [rotated])
    moreover have "t_tuple (fst c4) = t_tuple (fst c)"
      using c4(2) stays_tuple [OF s] stays_tuple [OF stays_process_ack [OF 2(1)]] by (simp add: c)
    ultimately show ?thesis using c4(1) 2(4) st by (auto simp: handled_def moves_def post_fits_def)
  qed
qed

lemma handle_rst_handled:
  assumes h: "handle_rst P seg c = Some r"
  shows "handled c r"
proof -
  obtain t e where c: "c = (t, e)" by fastforce
  consider "r = (Done, t, e)"
    | m c2 where "(if t_on_close t then run_callback P OnClose (t\<lparr>t_state := CLOSED\<rparr>, e\<lparr>e_metrics := m\<rparr>)
        else Some (t\<lparr>t_state := CLOSED\<rparr>, e\<lparr>e_metrics := m\<rparr>)) = Some c2" "r = (Delete, c2)"
    using h by (auto simp: c handle_rst_def Let_def split: if_splits Option.bind_splits)
  then show ?thesis
  proof cases
    case 1
    then show ?thesis by (auto simp: c handled_def moves_def post_fits_def)
  next
    case (2 m c2)
    have "stays (t\<lparr>t_state := CLOSED\<rparr>, e\<lparr>e_metrics := m\<rparr>) c2" using 2(1) by (rule ack_opt_stays)
    then have "t_state (fst c2) = CLOSED" "t_tuple (fst c2) = t_tuple t" by (auto simp: stays_def close_step_def)
    then show ?thesis using 2(2) by (simp add: c handled_def moves_def post_fits_def)
  qed
qed

lemmas handlers_handled = handle_rst_handled handle_syn_sent_handled handle_syn_rcvd_handled handle_established_handled
  handle_fin_wait_1_handled handle_fin_wait_2_handled handle_close_wait_handled handle_closing_handled
  handle_last_ack_handled handle_time_wait_handled

lemma dispatch_handled:
  assumes "dispatch P ip seg c = Some r"
  shows "handled c r"
proof (cases "is_rst seg")
  case True
  then show ?thesis using assms handle_rst_handled by (simp add: dispatch_def)
next
  case False
  have unchanged: "handled c (Done, handle_closed P ip seg c)" "handled c (Done, c)"
    by (cases c; simp add: handle_closed_def handled_def moves_def post_fits_def)+
  show ?thesis
    using assms False unchanged
    by (auto simp: dispatch_def split: tcp_state.splits dest: handlers_handled)
qed
section \<open>Whole lives\<close>

lemma check_retransmit_frame:
  assumes "check_retransmit P c = Some c'"
  shows "moves c c' \<and> e_now (snd c') = e_now (snd c)"
proof -
  obtain t e where c: "c = (t, e)" by fastforce
  show ?thesis
  proof (cases "t_retransmit_queue t")
    case Nil
    then show ?thesis using assms by (auto simp: c check_retransmit_def moves_def)
  next
    case (Cons en q)
    define t1 where "t1 = t\<lparr>t_retransmit_queue := en\<lparr>re_retransmit_count := re_retransmit_count en + 1\<rparr> # q,
      t_congestion := (case t_congestion t of Some (CCReno r) \<Rightarrow> Some (CCReno (reno_on_timeout r)) | c \<Rightarrow> c)\<rparr>"
    have t1: "t_state t1 = t_state t" "t_tuple t1 = t_tuple t" "t_options t1 = t_options t" by (simp_all add: t1_def)
    show ?thesis
    proof (cases "re_timeout en \<le> e_now e \<and> op_max_retransmit (t_options t) < re_retransmit_count en + 1")
      case False
      then have "t_state (fst c') = t_state t \<and> t_tuple (fst c') = t_tuple t \<and> e_now (snd c') = e_now e"
        using assms Cons by (auto simp: c resend_entry_def check_retransmit_def Let_def split: if_splits)
      then show ?thesis by (simp add: c moves_def)
    next
      case True
      obtain t2 e2 where r: "(if t_on_close t1 then run_callback P OnClose (t1, e) else Some (t1, e)) = Some (t2, e2)"
        "c' = (t2\<lparr>t_state := CLOSED\<rparr>, e2)"
        using assms Cons True
        by (simp add: c check_retransmit_def Let_def t1_def split: Option.bind_splits cong: if_cong) blast
      have "stays (t1, e) (t2, e2)" using r(1) by (rule ack_opt_stays)
      then have "stays c (t2, e2)" using t1 by (simp add: c stays_def)
      then show ?thesis using enter_state [of c t2 e2 CLOSED e2] by (simp add: r(2) stays_def)
    qed
  qed
qed

lemmas check_retransmit_moves = check_retransmit_frame [THEN conjunct1]

lemma timer_checks_stay: "stays c (check_delayed_ack P c)" "stays c (check_zero_window_probe P c)"
proof -
  obtain t e where c: "c = (t, e)" by fastforce
  show "stays c (check_delayed_ack P c)"
    by (auto simp: c check_delayed_ack_def dest!: stays_send_segment split: prod.splits)
  have "fst (send_zero_window_probe P (t, e)) = t \<and> stays (t, e) (send_zero_window_probe P (t, e))"
    by (auto simp: send_zero_window_probe_def emit_def Let_def split: option.splits)
  then show "stays c (check_zero_window_probe P c)"
    by (auto simp: c check_zero_window_probe_def Let_def split: prod.splits)
qed

text \<open>
  Everything that can happen to a connection as long as the manager keeps it: segments, the three
  checks of the timer, the application's calls, and the passing of time.
\<close>

inductive conn_step :: "('c, 'a) params \<Rightarrow> u32 \<Rightarrow> ('c, 'a) conn \<Rightarrow> ('c, 'a) conn \<Rightarrow> bool" for P ip where
  step_segment: "dispatch P ip seg c = Some (p, c') \<Longrightarrow> conn_step P ip c c'"
| step_retransmit: "check_retransmit P c = Some c' \<Longrightarrow> conn_step P ip c c'"
| step_delayed_ack: "conn_step P ip c (check_delayed_ack P c)"
| step_probe: "conn_step P ip c (check_zero_window_probe P c)"
| step_send: "tcp_send P data c = Some (n, c') \<Longrightarrow> conn_step P ip c c'"
| step_close: "tcp_close P c = Some (False, c') \<Longrightarrow> conn_step P ip c c'"
| step_clock: "conn_step P ip (t, e) (t, e\<lparr>e_now := now\<rparr>)"

lemma conn_step_moves: "conn_step P ip c c' \<Longrightarrow> moves c c'"
proof (induction rule: conn_step.induct)
  case (step_segment seg c p c')
  then show ?case using dispatch_handled by (fastforce simp: handled_def)
next
  case (step_retransmit c c')
  then show ?case by (rule check_retransmit_moves)
next
  case (step_clock t e now)
  then show ?case by (simp add: moves_def)
qed (intro stays_moves; (rule timer_checks_stay | erule stays_tcp_send stays_tcp_close))+

lemma conn_run_moves: "(conn_step P ip)\<^sup>*\<^sup>* c c' \<Longrightarrow> moves c c'"
proof (induction rule: rtranclp_induct)
  case base
  then show ?case by (simp add: moves_def)
next
  case (step c1 c2)
  then show ?case using conn_step_moves moves_trans by blast
qed


section \<open>Resets\<close>

text \<open>In \<open>CLOSED\<close> an application can do nothing: no call sends a segment or changes the counters.\<close>

lemma closed_calls:
  "t_state t = CLOSED \<Longrightarrow>
   \<exists>t' a. run_calls P calls (t, e) = Some (t', e\<lparr>e_app := a\<rparr>) \<and> t_state t' = CLOSED \<and> t_tuple t' = t_tuple t"
proof (induction P calls "(t, e)" arbitrary: t e rule: run_calls.induct)
  case (1 P)
  then show ?case by (intro exI [of _ t] exI [of _ "e_app e"]) simp
next
  case (2 P data calls)
  have "tcp_send P data (t, e) = Some (-1, t, e)" using 2(2) by (simp add: tcp_send_def)
  from 2(1) [OF this refl refl 2(2)] this show ?case by auto
next
  case (3 P calls)
  have "tcp_close P (t, e) = Some (False, t, e)" using 3(2) by (simp add: tcp_close_def)
  from 3(1) [OF this refl _ 3(2)] this show ?case by simp
next
  case (4 P r cl calls t e)
  then show ?case by simp
qed

lemma closed_callback:
  assumes "t_state t = CLOSED"
  shows "\<exists>t' a. run_callback P ev (t, e) = Some (t', e\<lparr>e_app := a\<rparr>) \<and> t_state t' = CLOSED \<and> t_tuple t' = t_tuple t"
proof -
  obtain a calls where a: "p_app P (t_tuple t) ev (e_app e) = (a, calls)" by fastforce
  show ?thesis using closed_calls [OF assms, of P calls "e\<lparr>e_app := a\<rparr>"] by (simp add: run_callback_def a)
qed
end
