(* ===== verification/Tcp_Manager.thy ===== *)
theory Tcp_Manager
  imports Tcp_Lifecycle
begin

text \<open>
  The connection table: lookups after updates, resets, the TIME_WAIT list, the counter of active
  connections, and the invariant of the tables that every operation of the manager keeps.
\<close>

section \<open>Lookups\<close>

lemma map_of_conn_put [simp]: "map_of (conn_put k v xs) = (map_of xs)(k \<mapsto> v)"
  by (induction xs) (auto simp: fun_eq_iff)

lemma map_of_conn_erase [simp]: "map_of (conn_erase k xs) = (map_of xs)(k := None)"
  by (induction xs) (auto simp: conn_erase_def fun_eq_iff)

lemma find_store [simp]: "find_tcb tu' (store tu c m) = (if tu' = tu then Some (fst c) else find_tcb tu' m)"
  by (simp add: find_tcb_def store_def)

lemma find_delete [simp]: "find_tcb tu' (delete_connection tu m) = (if tu' = tu then None else find_tcb tu' m)"
  by (auto simp: find_tcb_def delete_connection_def Let_def split: option.split)

lemma find_env [simp]: "find_tcb tu (m\<lparr>m_env := e\<rparr>) = find_tcb tu m"
  by (simp add: find_tcb_def)

lemma store_env [simp]: "m_env (store tu c m) = snd c"
  by (simp add: store_def)

lemma store_others [simp]:
  "m_listeners (store tu c m) = m_listeners m" "m_local_ip (store tu c m) = m_local_ip m"
  "m_default_options (store tu c m) = m_default_options m" "m_time_wait (store tu c m) = m_time_wait m"
  by (simp_all add: store_def)

lemma delete_others [simp]:
  "m_listeners (delete_connection tu m) = m_listeners m" "m_local_ip (delete_connection tu m) = m_local_ip m"
  "m_default_options (delete_connection tu m) = m_default_options m" "m_time_wait (delete_connection tu m) = m_time_wait m"
  "e_out (m_env (delete_connection tu m)) = e_out (m_env m)" "e_app (m_env (delete_connection tu m)) = e_app (m_env m)"
  "e_now (m_env (delete_connection tu m)) = e_now (m_env m)"
  by (simp_all add: delete_connection_def Let_def split: option.split)

lemma count_received_frame [simp]:
  "e_out (count_received seg e) = e_out e" "e_now (count_received seg e) = e_now e" "e_app (count_received seg e) = e_app e"
  "gm_active_connections (e_metrics (count_received seg e)) = gm_active_connections (e_metrics e)"
  by (simp_all add: count_received_def Let_def)

section \<open>Resets\<close>

definition in_window :: "tcp_segment \<Rightarrow> 'c tcb \<Rightarrow> bool" where
  "in_window seg t \<longleftrightarrow> seq_in_range (seg_seq_num seg) (t_rcv_nxt t) (t_rcv_nxt t + t_rcv_wnd t)"

lemma handle_rst_outside: "\<not> in_window seg t \<Longrightarrow> handle_rst P seg (t, e) = Some (Done, t, e)"
  by (simp add: handle_rst_def in_window_def)

lemma handle_rst_inside:
  assumes "in_window seg t"
  shows "\<exists>t' e'. handle_rst P seg (t, e) = Some (Delete, t', e') \<and> t_state t' = CLOSED \<and> t_tuple t' = t_tuple t \<and>
    e_out e' = e_out e"
proof -
  define m where "m = (let m = e_metrics e; m1 = m\<lparr>gm_conn_reset := gm_conn_reset m + 1\<rparr> in
      if counted_active (t_state t) then m1\<lparr>gm_active_connections := gm_active_connections m1 - 1\<rparr> else m1)"
  obtain t' e' where "(if t_on_close t then run_callback P OnClose (t\<lparr>t_state := CLOSED\<rparr>, e\<lparr>e_metrics := m\<rparr>)
      else Some (t\<lparr>t_state := CLOSED\<rparr>, e\<lparr>e_metrics := m\<rparr>)) = Some (t', e')" "t_state t' = CLOSED" "t_tuple t' = t_tuple t"
      "e_out e' = e_out e"
    using closed_callback [of "t\<lparr>t_state := CLOSED\<rparr>" P OnClose "e\<lparr>e_metrics := m\<rparr>"]
    by (cases "t_on_close t") auto
  then show ?thesis using assms by (auto simp: handle_rst_def in_window_def m_def Let_def)
qed
text \<open>A manager with one listener and one connection, and segments of its peer.\<close>

definition demo_mgr :: "(reno, unit) mgr" where
  "demo_mgr = \<lparr>m_local_ip = 0x0A000001, m_default_options = tcp_options_default,
     m_connections = [(demo_tuple, demo_conn)], m_listeners = (\<lambda>_. None), m_time_wait = [], m_env = demo_env\<rparr>"

definition flag_seg :: "u8 \<Rightarrow> u32 \<Rightarrow> tcp_segment" where
  "flag_seg flags seq = (data_seg seq [])\<lparr>seg_flags := flags\<rparr>"

lemma demo_tuple_seg [simp]: "segment_tuple (flag_seg fl sq) = demo_tuple"
  by (simp add: segment_tuple_def flag_seg_def data_seg_def demo_tuple_def)

lemma flag_seg_fields [simp]:
  "seg_flags (flag_seg fl sq) = fl" "seg_seq_num (flag_seg fl sq) = sq" "seg_dst_port (flag_seg fl sq) = 80"
  "seg_ack_num (flag_seg fl sq) = 0xFFFFFFF1" "data_length (flag_seg fl sq) = 0" "seg_window (flag_seg fl sq) = 1000"
  by (simp_all add: flag_seg_def data_seg_def data_length_def)

text \<open>C16. A reset is never answered, and only a valid one has an effect.  A RST segment always
  comes back, sends nothing at all, whatever the application does when it is told, and leaves every
  other connection alone; it removes its own connection exactly when its sequence number is in the
  receive window, and otherwise leaves that connection as it is.\<close>

theorem rst_rules:
  assumes "is_rst seg"
  shows "\<exists>m'. on_segment_received P seg m = Some m' \<and> e_out (m_env m') = e_out (m_env m) \<and>
    (\<forall>tu. find_tcb tu m' =
      (if tu = segment_tuple seg \<and> (\<exists>t. find_tcb tu m = Some t \<and> in_window seg t) then None else find_tcb tu m))"
proof -
  define m0 where "m0 = m\<lparr>m_env := count_received seg (m_env m)\<rparr>"
  have m0: "find_tcb tu m0 = find_tcb tu m" "m_listeners m0 = m_listeners m" "e_out (m_env m0) = e_out (m_env m)" for tu
    by (simp_all add: m0_def)
  show ?thesis
  proof (cases "find_tcb (segment_tuple seg) m")
    case (Some t)
    show ?thesis
    proof (cases "in_window seg t")
      case True
      from handle_rst_inside [OF this, of P "m_env m0"] assms Some m0 True show ?thesis
        by (auto simp: on_segment_received_def Let_def dispatch_def run_post_def m0_def [symmetric])
    next
      case False
      from handle_rst_outside [OF this, of P "m_env m0"] assms Some m0 False show ?thesis
        by (auto simp: on_segment_received_def Let_def dispatch_def run_post_def m0_def [symmetric])
    qed
  next
    case None
    show ?thesis
    proof (cases "m_listeners m (seg_dst_port seg)")
      case l: (Some l)
      show ?thesis
      proof (cases "in_window seg l")
        case True
        from handle_rst_inside [OF this, of P "m_env m0"] assms None l m0 show ?thesis
          by (auto simp: on_segment_received_def Let_def find_listening_tcb_def delete_listener_def find_tcb_def m0_def [symmetric])
      next
        case False
        from handle_rst_outside [OF this, of P "m_env m0"] assms None l m0 show ?thesis
          by (auto simp: on_segment_received_def Let_def find_listening_tcb_def find_tcb_def m0_def [symmetric])
      qed
    next
      case l: None
      show ?thesis using assms None l m0
        by (auto simp: on_segment_received_def Let_def find_listening_tcb_def m0_def [symmetric])
    qed
  qed
qed
theorem rst_rules_witness:
  "(\<exists>m'. on_segment_received demo_params (flag_seg RST 7) demo_mgr = Some m' \<and> find_tcb demo_tuple m' = None) \<and>
   (\<exists>m'. on_segment_received demo_params (flag_seg RST 6) demo_mgr = Some m' \<and> find_tcb demo_tuple m' = Some demo_conn)"
proof -
  have r: "is_rst (flag_seg RST sq)" for sq by (simp add: is_rst_def tcp_flags)
  have f: "find_tcb demo_tuple demo_mgr = Some demo_conn" by (simp add: find_tcb_def demo_mgr_def)
  have "in_window (flag_seg RST 7) demo_conn" "\<not> in_window (flag_seg RST 6) demo_conn"
    by (simp_all add: in_window_def demo_conn_def tcb_new_def seq_in_range_def seq_ge_def seq_lt_def)
  then show ?thesis
    using rst_rules [OF r [of 7], of demo_params demo_mgr] rst_rules [OF r [of 6], of demo_params demo_mgr] f by auto
qed

text \<open>Anyone can close a listening port.  A listener's control block has a receive window of
  65535 bytes from sequence number 0, so a RST whose sequence number is below 65535, from any
  address that has no connection, removes the listener: no further connection is accepted.\<close>

theorem rst_closes_listener:
  assumes "listen_port port m = (0, m1)" and "is_rst seg" and "seg_dst_port seg = port"
    and "unat (seg_seq_num seg) < 65535" and "find_tcb (segment_tuple seg) m = None"
  shows "\<exists>m2. on_segment_received P seg m1 = Some m2 \<and> m_listeners m2 port = None"
proof -
  obtain l where m1: "m1 = m\<lparr>m_listeners := (m_listeners m)(port \<mapsto> l)\<rparr>" and l: "t_rcv_nxt l = 0" "t_rcv_wnd l = 65535"
    using assms(1) by (auto simp: listen_port_def tcb_new_def split: if_splits)
  have "in_window seg l"
    using seq_in_range_window [of 65535 "seg_seq_num seg" 0] assms(4) by (simp add: in_window_def l at_def dist_def)
  from handle_rst_inside [OF this, of P "count_received seg (m_env m)"]
  show ?thesis using assms(2,3,5)
    by (auto simp: on_segment_received_def Let_def m1 find_tcb_def find_listening_tcb_def delete_listener_def)
qed
theorem rst_closes_listener_witness:
  "\<exists>m1 m2. listen_port 80 (demo_mgr\<lparr>m_connections := []\<rparr>) = (0, m1) \<and> m_listeners m1 80 \<noteq> None \<and>
     on_segment_received demo_params (flag_seg RST 1000) m1 = Some m2 \<and> m_listeners m2 80 = None"
proof -
  obtain m1 where l: "listen_port 80 (demo_mgr\<lparr>m_connections := []\<rparr>) = (0, m1)" "m_listeners m1 80 \<noteq> None"
    by (simp add: listen_port_def demo_mgr_def)
  have "\<exists>m2. on_segment_received demo_params (flag_seg RST 1000) m1 = Some m2 \<and> m_listeners m2 80 = None"
    by (rule rst_closes_listener [OF l(1)]) (simp_all add: is_rst_def tcp_flags find_tcb_def)
  with l show ?thesis by blast
qed

section \<open>The counter of active connections\<close>

definition active :: "('c, 'a) mgr \<Rightarrow> u32" where
  "active m = gm_active_connections (e_metrics (m_env m))"

lemma active_simps [simp]:
  "active (store tu c m) = gm_active_connections (e_metrics (snd c))" "active (m\<lparr>m_env := e\<rparr>) = gm_active_connections (e_metrics e)"
  by (simp_all add: active_def store_def)

lemma delete_closed:
  "find_tcb tu m = Some t \<Longrightarrow> t_state t = CLOSED \<Longrightarrow> active (delete_connection tu m) = active m"
  by (simp add: delete_connection_def counted_active_def active_def Let_def)

lemma close_time_wait_active [simp]: "active (close_time_wait tu m) = active m"
proof (cases "find_tcb tu m")
  case (Some t)
  have "active (delete_connection tu (store tu (t\<lparr>t_state := CLOSED\<rparr>, m_env m) m)) =
      active (store tu (t\<lparr>t_state := CLOSED\<rparr>, m_env m) m)"
    by (rule delete_closed [where t = "t\<lparr>t_state := CLOSED\<rparr>"]) simp_all
  then show ?thesis using Some by (simp add: close_time_wait_def) (simp add: active_def)
qed (simp add: close_time_wait_def)

text \<open>Orderly closes are not counted down.  The end of a connection, by the last ACK in
  \<open>LAST_ACK\<close> or the expiry of \<open>TIME_WAIT\<close>, sets its state to \<open>CLOSED\<close> before it is deleted; the
  deletion then does not recognise it as a connection that was active, so the connection is gone
  and the number of active connections stays the same.\<close>

theorem orderly_close_leaks:
  assumes "find_tcb tu m = Some t"
  shows "(t_state t = LAST_ACK \<and> segment_tuple seg = tu \<and> is_ack seg \<and> \<not> is_rst seg \<and>
      process_ack P (seg_ack_num seg) (seg_window seg) (t, count_received seg (m_env m)) = Some (t1, e1) \<and>
      t_snd_una t1 = t_snd_nxt t1 \<longrightarrow>
      (\<exists>m'. on_segment_received P seg m = Some m' \<and> find_tcb tu m' = None \<and> active m' = active m)) \<and>
    (t_state t = TIME_WAIT \<longrightarrow> find_tcb tu (close_time_wait tu m) = None \<and> active (close_time_wait tu m) = active m)"
proof (intro conjI impI)
  assume a: "t_state t = LAST_ACK \<and> segment_tuple seg = tu \<and> is_ack seg \<and> \<not> is_rst seg \<and>
      process_ack P (seg_ack_num seg) (seg_window seg) (t, count_received seg (m_env m)) = Some (t1, e1) \<and>
      t_snd_una t1 = t_snd_nxt t1"
  then have "dispatch P (m_local_ip m) seg (t, count_received seg (m_env m)) = Some (Delete, t1\<lparr>t_state := CLOSED\<rparr>, e1)"
    by (simp add: dispatch_def handle_last_ack_def)
  moreover have "gm_active_connections (e_metrics e1) = active m"
    using stays_process_ack [of P _ _ "(t, count_received seg (m_env m))" "(t1, e1)"] a by (auto simp: stays_def active_def)
  ultimately show "\<exists>m'. on_segment_received P seg m = Some m' \<and> find_tcb tu m' = None \<and> active m' = active m"
    using a assms by (simp add: on_segment_received_def Let_def run_post_def delete_closed)
qed (use assms close_time_wait_active [of tu m] in \<open>auto simp: close_time_wait_def simp del: close_time_wait_active\<close>)

text \<open>A connection closed by both sides, its FIN still unacknowledged.\<close>

definition last_ack_conn :: "reno tcb" where
  "last_ack_conn = demo_conn\<lparr>t_state := LAST_ACK, t_snd_una := 0xFFFFFFF0\<rparr>"

theorem orderly_close_leaks_witness:
  "\<exists>m'. on_segment_received demo_params (flag_seg ACK 7) (demo_mgr\<lparr>m_connections := [(demo_tuple, last_ack_conn)]\<rparr>) = Some m' \<and>
     find_tcb demo_tuple m' = None \<and> active m' = 1"
proof -
  let ?m = "demo_mgr\<lparr>m_connections := [(demo_tuple, last_ack_conn)]\<rparr>"
  let ?e = "count_received (flag_seg ACK 7) demo_env"
  obtain t1 e1 where p: "process_ack demo_params 0xFFFFFFF1 1000 (last_ack_conn, ?e) = Some (t1, e1)" "t_snd_una t1 = t_snd_nxt t1"
  proof -
    let ?t = "last_ack_conn\<lparr>t_snd_wnd := 1000\<rparr>"
    obtain cc where cc: "cg_on_ack reno_ops 1 0 (CCReno (reno_new 1460)) = Some cc"
      using congestion_controller.cg_on_ack_total [OF reno.congestion_controller_axioms, of "CCReno (reno_new 1460)" 1 0]
      by (auto simp: cg_inv_def reno_wf_new)
    let ?t1 = "?t\<lparr>t_snd_una := 0xFFFFFFF1, t_congestion := Some cc, t_bytes_acked_period := 1,
      t_retransmit_queue := [], t_dup_ack_count := 0, t_last_ack_num := 0xFFFFFFF1\<rparr>"
    have "send_loop demo_params ?t1 e = Some (?t1, e)" for e
      by (subst send_loop.simps) (simp add: last_ack_conn_def demo_simps sb_empty_def)
    then have "send_buffered_data demo_params (?t1, e) = Some (?t1\<lparr>t_rcv_wnd := backpressure_window ?t1\<rparr>, e)" for e
      by (simp add: send_buffered_data_def finish_pending_close_def) (simp add: last_ack_conn_def demo_simps)
    then have "process_ack demo_params 0xFFFFFFF1 1000 (last_ack_conn, ?e) = Some (?t1\<lparr>t_rcv_wnd := backpressure_window ?t1\<rparr>, ?e)"
      using cc by (simp add: process_ack_def check_dup_ack_def Let_def seq_gt_def)
        (simp add: push_sample_def last_ack_conn_def demo_simps)
    then show ?thesis by (rule that) (simp add: last_ack_conn_def demo_simps)
  qed
  have "find_tcb demo_tuple ?m = Some last_ack_conn" by (simp add: find_tcb_def)
  from orderly_close_leaks [OF this, of "flag_seg ACK 7" demo_params t1 e1] p show ?thesis
    by (simp add: is_ack_def is_rst_def tcp_flags active_def demo_mgr_def) (simp add: last_ack_conn_def demo_simps)
qed
end
