(* ===== verification/Tcp_Tables.thy ===== *)
theory Tcp_Tables
  imports Tcp_Manager
begin

text \<open>
  The invariant of the manager's tables and the runs that keep it: every operation of
  \<^verbatim>\<open>TCPConnectionManager\<close>, in any order.
\<close>

section \<open>The connection table\<close>

definition entry_wf :: "u32 \<Rightarrow> tcp_tuple \<times> 'c tcb \<Rightarrow> bool" where
  "entry_wf ip = (\<lambda>(tu, t). t_tuple t = tu \<and> t_state t \<noteq> LISTEN \<and> tu_local_ip tu = ip)"

definition table_wf :: "u32 \<Rightarrow> (tcp_tuple \<times> 'c tcb) list \<Rightarrow> bool" where
  "table_wf ip cs \<longleftrightarrow> distinct (map fst cs) \<and> list_all (entry_wf ip) cs"

definition listeners_wf :: "(u16 \<Rightarrow> 'c tcb option) \<Rightarrow> bool" where
  "listeners_wf ls \<longleftrightarrow>
     (\<forall>port l. ls port = Some l \<longrightarrow> port \<noteq> 0 \<and> t_state l = LISTEN \<and> tu_local_port (t_tuple l) = port)"

definition mgr_wf :: "('c, 'a) mgr \<Rightarrow> bool" where
  "mgr_wf m \<longleftrightarrow> table_wf (m_local_ip m) (m_connections m) \<and> length (m_connections m) \<le> MAX_CONNECTIONS \<and>
     listeners_wf (m_listeners m) \<and> length (m_time_wait m) \<le> MAX_TIME_WAIT_ENTRIES"

lemma fst_conn_put: "map fst (conn_put k v xs) = (if k \<in> fst ` set xs then map fst xs else map fst xs @ [k])"
  by (induction xs) force+

lemma length_conn_put: "length (conn_put k v xs) = (if k \<in> fst ` set xs then length xs else Suc (length xs))"
  using arg_cong [OF fst_conn_put [of k v xs], of length] by simp

lemma list_all_conn_put: "list_all Q xs \<Longrightarrow> Q (k, v) \<Longrightarrow> list_all Q (conn_put k v xs)"
  by (induction xs) auto

lemma table_wf_put: "table_wf ip cs \<Longrightarrow> entry_wf ip (tu, t) \<Longrightarrow> table_wf ip (conn_put tu t cs)"
  by (auto simp: table_wf_def fst_conn_put list_all_conn_put)

lemma table_wf_erase: "table_wf ip cs \<Longrightarrow> table_wf ip (conn_erase tu cs)"
  by (auto simp: table_wf_def conn_erase_def distinct_map_filter list_all_iff)

lemma find_tcb_in: "find_tcb tu m \<noteq> None \<longleftrightarrow> tu \<in> fst ` set (m_connections m)"
  by (simp add: find_tcb_def map_of_eq_None_iff)

lemma find_tcb_wf: "mgr_wf m \<Longrightarrow> find_tcb tu m = Some t \<Longrightarrow> entry_wf (m_local_ip m) (tu, t)"
  by (auto simp: mgr_wf_def table_wf_def find_tcb_def list_all_iff dest: map_of_SomeD)

lemma mgr_wf_store:
  assumes "mgr_wf m" and "find_tcb tu m \<noteq> None \<or> length (m_connections m) < MAX_CONNECTIONS"
    and "entry_wf (m_local_ip m) (tu, fst c)"
  shows "mgr_wf (store tu c m)"
  using assms find_tcb_in [of tu m] by (auto simp: mgr_wf_def store_def table_wf_put length_conn_put)

lemma mgr_wf_delete: "mgr_wf m \<Longrightarrow> mgr_wf (delete_connection tu m)"
proof -
  have "length (conn_erase tu xs) \<le> length xs" for xs :: "(tcp_tuple \<times> 'c tcb) list"
    by (simp add: conn_erase_def)
  then show "mgr_wf m \<Longrightarrow> mgr_wf (delete_connection tu m)"
    by (auto simp: mgr_wf_def delete_connection_def Let_def table_wf_erase intro: le_trans split: option.split)
qed

lemma mgr_wf_env [simp]: "mgr_wf (m\<lparr>m_env := e\<rparr>) \<longleftrightarrow> mgr_wf m"
  by (simp add: mgr_wf_def)

lemma mgr_wf_listeners: "mgr_wf m \<Longrightarrow> listeners_wf ls \<Longrightarrow> mgr_wf (m\<lparr>m_listeners := ls\<rparr>)"
  by (simp add: mgr_wf_def)

lemma mgr_wf_time_wait: "mgr_wf m \<Longrightarrow> length xs \<le> MAX_TIME_WAIT_ENTRIES \<Longrightarrow> mgr_wf (m\<lparr>m_time_wait := xs\<rparr>)"
  by (simp add: mgr_wf_def)

section \<open>TIME_WAIT\<close>

lemma close_time_wait_wf: "mgr_wf m \<Longrightarrow> mgr_wf (close_time_wait tu m)"
  by (auto simp: close_time_wait_def entry_wf_def intro!: mgr_wf_delete mgr_wf_store dest: find_tcb_wf split: option.split)

lemma close_time_wait_time_wait [simp]: "m_time_wait (close_time_wait tu m) = m_time_wait m"
  by (auto simp: close_time_wait_def split: option.split)

lemma evict_time_wait_wf:
  "mgr_wf m \<Longrightarrow> mgr_wf (evict_time_wait xs m) \<and> length (m_time_wait (evict_time_wait xs m)) < MAX_TIME_WAIT_ENTRIES"
proof (induction xs arbitrary: m)
  case Nil
  then show ?case by (simp add: mgr_wf_time_wait MAX_TIME_WAIT_ENTRIES_def)
next
  case (Cons x xs)
  then show ?case by (auto intro: mgr_wf_time_wait close_time_wait_wf)
qed

lemma renew_time_wait_length: "renew_time_wait x tu xs = Some ys \<Longrightarrow> length ys = length xs"
  by (induction xs arbitrary: ys) (auto split: if_splits)

lemma start_time_wait_timer_wf:
  assumes "mgr_wf m" and "start_time_wait_timer tu m = Some m'"
  shows "mgr_wf m'"
proof -
  let ?m = "evict_time_wait (m_time_wait m) m"
  have wf: "mgr_wf ?m" "length (m_time_wait ?m) < MAX_TIME_WAIT_ENTRIES" using evict_time_wait_wf [OF assms(1)] by simp_all
  obtain t where t: "find_tcb tu ?m = Some t" using assms(2) by (auto simp: start_time_wait_timer_def Let_def split: option.splits)
  show ?thesis
    using assms(2) t wf find_tcb_wf [OF wf(1) t]
    by (auto simp: start_time_wait_timer_def Let_def entry_wf_def intro!: mgr_wf_time_wait mgr_wf_store)
qed

lemma restart_time_wait_timer_wf:
  assumes "mgr_wf m" and "restart_time_wait_timer tu m = Some m'"
  shows "mgr_wf m'"
proof (cases "renew_time_wait (e_now (m_env m) + TIME_WAIT_DURATION) tu (m_time_wait m)")
  case None
  then show ?thesis using assms start_time_wait_timer_wf by (simp add: restart_time_wait_timer_def)
next
  case (Some xs)
  then show ?thesis using assms renew_time_wait_length [OF Some] by (auto simp: restart_time_wait_timer_def mgr_wf_def)
qed

lemma run_post_wf: "mgr_wf m \<Longrightarrow> run_post tu p m = Some m' \<Longrightarrow> mgr_wf m'"
  by (auto simp: run_post_def mgr_wf_delete dest: start_time_wait_timer_wf restart_time_wait_timer_wf split: post.splits)

section \<open>Segments\<close>

lemma moves_entry: "entry_wf ip (tu, fst c) \<Longrightarrow> moves c c' \<Longrightarrow> entry_wf ip (tu, fst c')"
proof -
  have "tcp_path s s' \<Longrightarrow> s \<noteq> LISTEN \<Longrightarrow> s' \<noteq> LISTEN" for s s'
    using tcp_path_stage [of s s'] by (cases s') auto
  then show "entry_wf ip (tu, fst c) \<Longrightarrow> moves c c' \<Longrightarrow> entry_wf ip (tu, fst c')"
    by (auto simp: entry_wf_def moves_def)
qed

lemma store_moved:
  "mgr_wf m \<Longrightarrow> find_tcb tu m = Some t \<Longrightarrow> moves (t, e) c \<Longrightarrow> mgr_wf (store tu c m)"
  using find_tcb_wf [of m tu t] moves_entry [of "m_local_ip m" tu "(t, e)" c] by (auto intro!: mgr_wf_store)

lemma handle_listen_wf:
  assumes "mgr_wf m" and "listeners_wf (m_listeners m)"
  shows "mgr_wf (handle_listen P l seg m)"
proof -
  have "mgr_wf (store tu (t\<lparr>t_state := SYN_RCVD\<rparr>, e) m)"
    if "\<not> MAX_CONNECTIONS \<le> length (m_connections m)" "t_tuple t = tu" "tu_local_ip tu = m_local_ip m" for tu t e
    using assms(1) that by (intro mgr_wf_store) (auto simp: entry_wf_def)
  then show ?thesis
    using assms(1)
    by (auto simp: handle_listen_def Let_def create_tcb_def apply_options_def dest!: send_segment_same split: prod.split)
qed

lemma on_segment_received_wf:
  assumes "mgr_wf m" and "on_segment_received P seg m = Some m'"
  shows "mgr_wf m'"
proof -
  define m0 where "m0 = m\<lparr>m_env := count_received seg (m_env m)\<rparr>"
  have wf: "mgr_wf m0" using assms(1) by (simp add: m0_def)
  let ?tu = "segment_tuple seg"
  show ?thesis
  proof (cases "find_tcb ?tu m0")
    case (Some t)
    then obtain p c where d: "dispatch P (m_local_ip m0) seg (t, m_env m0) = Some (p, c)" "run_post ?tu p (store ?tu c m0) = Some m'"
      using assms(2) by (auto simp: on_segment_received_def Let_def m0_def [symmetric] split: Option.bind_splits)
    have "moves (t, m_env m0) c" using dispatch_handled [OF d(1)] by (simp add: handled_def)
    then show ?thesis using run_post_wf [OF store_moved [OF wf Some] d(2)] by blast
  next
    case None
    have l: "listeners_wf (m_listeners m0)" using wf by (simp add: mgr_wf_def)
    show ?thesis
    proof (cases "find_listening_tcb (seg_dst_port seg) m0")
      case l0: None
      then show ?thesis using None wf assms(2)
        by (auto simp: on_segment_received_def Let_def m0_def [symmetric] split: if_splits)
    next
      case l1: (Some lt)
      show ?thesis
      proof (cases "is_rst seg")
        case False
        then show ?thesis using None l1 assms(2) handle_listen_wf [OF wf l]
          by (auto simp: on_segment_received_def Let_def m0_def [symmetric] split: if_splits)
      next
        case True
        have "m' = m0\<lparr>m_listeners := (m_listeners m0)(seg_dst_port seg \<mapsto> lt)\<rparr> \<or>
          (\<exists>e'. m' = m0\<lparr>m_env := e', m_listeners := (m_listeners m0)(seg_dst_port seg := None)\<rparr>)"
          using None l1 True assms(2) handle_rst_inside [of seg lt P "m_env m0"] handle_rst_outside [of seg lt P "m_env m0"]
          by (cases "in_window seg lt")
             (auto simp: on_segment_received_def Let_def m0_def [symmetric] delete_listener_def)
        moreover have "listeners_wf ((m_listeners m0)(seg_dst_port seg \<mapsto> lt))"
          using l l1 by (auto simp: listeners_wf_def find_listening_tcb_def)
        moreover have "listeners_wf ((m_listeners m0)(seg_dst_port seg := None))"
          using l by (auto simp: listeners_wf_def)
        ultimately show ?thesis using wf by (auto simp: mgr_wf_def)
      qed
    qed
  qed
qed

section \<open>The timer\<close>

text \<open>One round: the retransmission check, and the other two checks unless it closed the connection.\<close>

lemma timer_connections_ConsE:
  assumes "timer_connections P ((tu, t) # cs) e = Some (cs', del, e')"
  obtains t1 e1 t2 e2 e3 t3 cs1 del1 where "check_retransmit P (t, e) = Some (t1, e1)"
    and "check_zero_window_probe P (check_delayed_ack P (t1, e1)) = (t2, e2)"
    and "timer_connections P cs e3 = Some (cs1, del1, e')" and "cs' = (tu, t3) # cs1"
    and "t_state t1 = CLOSED \<and> t3 = t1 \<and> del = tu # del1 \<or> t_state t1 \<noteq> CLOSED \<and> t3 = t2 \<and> del = del1"
proof -
  obtain t1 e1 where r: "check_retransmit P (t, e) = Some (t1, e1)" using assms by (auto split: Option.bind_splits)
  obtain t2 e2 where z: "check_zero_window_probe P (check_delayed_ack P (t1, e1)) = (t2, e2)" by fastforce
  show ?thesis using assms r z that by (cases "t_state t1 = CLOSED") (auto split: Option.bind_splits)
qed

lemma timer_checks_stay_both:
  "check_zero_window_probe P (check_delayed_ack P c) = c' \<Longrightarrow> stays c c'"
  using timer_checks_stay stays_trans by blast

lemma timer_connections_wf:
  "timer_connections P cs e = Some (cs', del, e') \<Longrightarrow> list_all (entry_wf ip) cs \<Longrightarrow>
   map fst cs' = map fst cs \<and> list_all (entry_wf ip) cs'"
proof (induction cs arbitrary: e cs' del)
  case (Cons x cs)
  obtain tu t where x: "x = (tu, t)" by fastforce
  obtain t1 e1 t2 e2 e3 t3 cs1 del1 where r: "check_retransmit P (t, e) = Some (t1, e1)"
    and z: "check_zero_window_probe P (check_delayed_ack P (t1, e1)) = (t2, e2)"
    and c: "timer_connections P cs e3 = Some (cs1, del1, e')" "cs' = (tu, t3) # cs1" "t3 = t1 \<or> t3 = t2"
    using timer_connections_ConsE [OF Cons.prems(1) [unfolded x]] by metis
  have "entry_wf ip (tu, t1)"
    using moves_entry [OF _ check_retransmit_moves [OF r], of ip tu] Cons.prems(2) by (simp add: x)
  moreover from this have "entry_wf ip (tu, t2)"
    using moves_entry [OF _ stays_moves [OF timer_checks_stay_both [OF z]], of ip tu] by simp
  ultimately show ?case using Cons.IH [OF c(1)] Cons.prems(2) c(2,3) by (auto simp: x)
qed simp

lemma fold_conn_erase: "table_wf ip cs \<Longrightarrow> table_wf ip (fold conn_erase del cs) \<and> length (fold conn_erase del cs) \<le> length cs"
proof (induction del arbitrary: cs)
  case (Cons tu del)
  have "length (conn_erase tu cs) \<le> length cs" by (simp add: conn_erase_def)
  then show ?case using Cons.IH [OF table_wf_erase [OF Cons.prems, of tu]] by simp
qed simp

lemma expire_time_wait_wf:
  "mgr_wf m \<Longrightarrow> length xs \<le> MAX_TIME_WAIT_ENTRIES \<Longrightarrow>
   mgr_wf (expire_time_wait xs m) \<and> length (m_time_wait (expire_time_wait xs m)) \<le> length xs"
proof (induction xs m rule: expire_time_wait.induct)
  case (1 m)
  then show ?case by (simp add: mgr_wf_time_wait)
next
  case (2 x tu xs m)
  show ?case
  proof (cases "e_now (m_env m) \<ge> x")
    case True
    then show ?thesis using 2(1) [OF True close_time_wait_wf [OF 2(3)]] 2(4) by auto
  next
    case False
    then show ?thesis using 2(2) [OF False 2(3)] 2(4) by (auto simp: Let_def intro!: mgr_wf_time_wait)
  qed
qed

lemma on_timer_wf:
  assumes "mgr_wf m" and "on_timer P m = Some m'"
  shows "mgr_wf m'"
proof -
  obtain cs del e where t: "timer_connections P (m_connections m) (m_env m) = Some (cs, del, e)"
    and m': "m' = expire_time_wait (m_time_wait m) (m\<lparr>m_connections := fold conn_erase del cs, m_env := e\<rparr>)"
    using assms(2) by (auto simp: on_timer_def Let_def split: Option.bind_splits)
  have cs: "table_wf (m_local_ip m) cs" "length cs = length (m_connections m)"
    using timer_connections_wf [OF t, of "m_local_ip m"] assms(1)
    by (auto simp: mgr_wf_def table_wf_def dest: arg_cong [where f = length])
  have "mgr_wf (m\<lparr>m_connections := fold conn_erase del cs, m_env := e\<rparr>)" (is "mgr_wf ?m")
    using fold_conn_erase [OF cs(1), of del] cs(2) assms(1) by (simp add: mgr_wf_def)
  moreover have "length (m_time_wait m) \<le> MAX_TIME_WAIT_ENTRIES" using assms(1) by (simp add: mgr_wf_def)
  ultimately show ?thesis using expire_time_wait_wf [of ?m "m_time_wait m"] by (simp add: m' del: mgr_wf_env)
qed

section \<open>Runs of the manager\<close>

inductive mgr_step :: "('c, 'a) params \<Rightarrow> ('c, 'a) mgr \<Rightarrow> ('c, 'a) mgr \<Rightarrow> bool" for P where
  op_segment: "on_segment_received P seg m = Some m' \<Longrightarrow> mgr_step P m m'"
| op_timer: "on_timer P m = Some m' \<Longrightarrow> mgr_step P m m'"
| op_listen: "mgr_step P m (snd (listen_port port m))"
| op_callbacks: "mgr_step P m (set_listener_callbacks port r cl m)"
| op_unlisten: "mgr_step P m (unlisten_port port m)"
| op_connect: "mgr_step P m (snd (connect P ip rport lport m))"
| op_send: "mgr_send P tu data m = Some (n, m') \<Longrightarrow> mgr_step P m m'"
| op_close: "mgr_close P tu m = Some m' \<Longrightarrow> mgr_step P m m'"
| op_clock: "mgr_step P m (m\<lparr>m_env := (m_env m)\<lparr>e_now := now\<rparr>\<rparr>)"

lemma connect_wf: "mgr_wf m \<Longrightarrow> mgr_wf (snd (connect P ip rport lport m))"
  by (auto simp: connect_def Let_def create_tcb_def apply_options_def entry_wf_def
      dest!: send_segment_same intro!: mgr_wf_store split: prod.splits)

lemma mgr_step_wf: "mgr_step P m m' \<Longrightarrow> mgr_wf m \<Longrightarrow> mgr_wf m'"
proof (induction rule: mgr_step.induct)
  case (op_segment seg m m')
  then show ?case using on_segment_received_wf by blast
next
  case (op_timer m m')
  then show ?case using on_timer_wf by blast
next
  case (op_send tu data m n m')
  then show ?case by (auto simp: mgr_send_def split: Option.bind_splits intro: store_moved stays_moves stays_tcp_send)
next
  case (op_close tu m m')
  then obtain t d c where c: "find_tcb tu m = Some t" "tcp_close P (t, m_env m) = Some (d, c)"
    "m' = (if d then delete_connection tu (store tu c m) else store tu c m)"
    by (auto simp: mgr_close_def split: Option.bind_splits)
  have "mgr_wf (store tu c m)" using store_moved [OF op_close(2) c(1) stays_moves [OF stays_tcp_close [OF c(2)]]] .
  then show ?case using c(3) by (simp add: mgr_wf_delete)
next
  case (op_connect m ip rport lport)
  then show ?case by (rule connect_wf)
qed (auto simp: mgr_wf_def listeners_wf_def listen_port_def set_listener_callbacks_def unlisten_port_def split: option.split)

definition mgr_new :: "u32 \<Rightarrow> tcp_options \<Rightarrow> 'a env \<Rightarrow> ('c, 'a) mgr" where
  "mgr_new ip opts e = \<lparr>m_local_ip = ip, m_default_options = opts, m_connections = [],
     m_listeners = (\<lambda>_. None), m_time_wait = [], m_env = e\<rparr>"

text \<open>C17. The tables of the connection manager stay well-formed.  Whatever operations are called on
  a fresh manager, and whatever segments and timer ticks it gets, no four-tuple has two control
  blocks, every block is filed under its own tuple and the local address and is not a listener,
  every listener is in \<open>LISTEN\<close> under its own non-zero port, and there are at most 10000
  connections and 4000 TIME_WAIT entries.\<close>

theorem tables_well_formed:
  assumes "(mgr_step P)\<^sup>*\<^sup>* (mgr_new ip opts e) m"
  shows "distinct (map fst (m_connections m)) \<and>
    (\<forall>(tu, t)\<in>set (m_connections m). t_tuple t = tu \<and> t_state t \<noteq> LISTEN \<and> tu_local_ip tu = m_local_ip m) \<and>
    (\<forall>port l. m_listeners m port = Some l \<longrightarrow> port \<noteq> 0 \<and> t_state l = LISTEN \<and> tu_local_port (t_tuple l) = port) \<and>
    length (m_connections m) \<le> 10000 \<and> length (m_time_wait m) \<le> 4000"
proof -
  have "mgr_wf m"
    using assms
  proof (induction rule: rtranclp_induct)
    case base
    show ?case by (simp add: mgr_new_def mgr_wf_def table_wf_def listeners_wf_def)
  next
    case (step m m')
    then show ?case using mgr_step_wf by blast
  qed
  then show ?thesis
    by (auto simp: mgr_wf_def table_wf_def listeners_wf_def entry_wf_def list_all_iff MAX_CONNECTIONS_def MAX_TIME_WAIT_ENTRIES_def)
qed

theorem tables_well_formed_witness:
  "\<exists>m. (mgr_step demo_params)\<^sup>*\<^sup>* (mgr_new 0x0A000001 tcp_options_default demo_env) m \<and>
     (\<exists>l. m_listeners m 80 = Some l \<and> t_state l = LISTEN) \<and> length (m_connections m) \<le> 10000"
proof -
  let ?m = "snd (listen_port 80 (mgr_new 0x0A000001 tcp_options_default demo_env :: (reno, unit) mgr))"
  have r: "(mgr_step demo_params)\<^sup>*\<^sup>* (mgr_new 0x0A000001 tcp_options_default demo_env) ?m"
    by (intro r_into_rtranclp op_listen)
  moreover have "m_listeners ?m 80 \<noteq> None" by (simp add: listen_port_def mgr_new_def)
  ultimately show ?thesis using tables_well_formed [OF r] by (intro exI [of _ ?m]) auto
qed

end
