(* ===== verification/Tcp_Timers.thy ===== *)
theory Tcp_Timers
  imports Tcp_Tables
begin

text \<open>
  What time does to a connection: a peer that never answers is given up after the configured
  number of retransmissions, and TIME_WAIT ends after its 32 seconds and not before.
\<close>

section \<open>Giving up\<close>

text \<open>Timer ticks at the times \<open>ts\<close> while nothing arrives.\<close>

fun silent_ticks :: "('c, 'a) params \<Rightarrow> int list \<Rightarrow> ('c, 'a) conn \<Rightarrow> ('c, 'a) conn option" where
  "silent_ticks P [] c = Some c"
| "silent_ticks P (now # ts) (t, e) = Option.bind (check_retransmit P (t, e\<lparr>e_now := now\<rparr>)) (silent_ticks P ts)"

text \<open>Ticks late enough for each timeout: an RTO is at most a minute, in nanoseconds here.\<close>

fun late_enough :: "int \<Rightarrow> int list \<Rightarrow> bool" where
  "late_enough deadline [] \<longleftrightarrow> True"
| "late_enough deadline (now # ts) \<longleftrightarrow> deadline \<le> now \<and> late_enough (now + 60000000000) ts"

lemma late_enough_mono: "late_enough d ts \<Longrightarrow> d' \<le> d \<Longrightarrow> late_enough d' ts"
  by (cases ts) auto

lemma resend_entry_app [simp]: "e_app (resend_entry P t en e) = e_app e"
  by (simp add: resend_entry_def raw_send_def emit_def split: option.split)

lemma timeout_resend:
  assumes "t_retransmit_queue t = en # q" and "re_timeout en \<le> e_now e"
    and "re_retransmit_count en < op_max_retransmit (t_options t)"
  shows "\<exists>t' e' en'. check_retransmit P (t, e) = Some (t', e') \<and> t_retransmit_queue t' = en' # q \<and>
     re_retransmit_count en' = re_retransmit_count en + 1 \<and> re_timeout en' \<le> e_now e + 60000000000 \<and>
     t_state t' = t_state t \<and> t_tuple t' = t_tuple t \<and>
     t_options t' = t_options t \<and> t_on_close t' = t_on_close t \<and> e_app e' = e_app e"
proof -
  define rto where "rto = min (t_rto_us t * 2) (60000000 :: u32)"
  have "unat rto \<le> 60000000" by (simp add: rto_def unat_min)
  moreover have "uint rto = int (unat rto)" by simp
  ultimately have u: "uint rto \<le> 60000000" by linarith
  define en' where "en' = en\<lparr>re_retransmit_count := re_retransmit_count en + 1, re_timeout := e_now e + uint rto * 1000\<rparr>"
  have f: "re_retransmit_count en' = re_retransmit_count en + 1" "re_timeout en' = e_now e + uint rto * 1000"
    by (simp_all add: en'_def)
  define en1 where "en1 = en\<lparr>re_retransmit_count := re_retransmit_count en + 1\<rparr>"
  define cc where "cc = (case t_congestion t of Some (CCReno r) \<Rightarrow> Some (CCReno (reno_on_timeout r)) | c \<Rightarrow> c)"
  have small: "\<not> op_max_retransmit (t_options t) < re_retransmit_count en1" using assms(3) by (simp add: en1_def)
  have en': "en' = en1\<lparr>re_timeout := e_now e + uint rto * 1000\<rparr>" by (simp add: en'_def en1_def)
  let ?t = "t\<lparr>t_congestion := cc, t_packets_lost_period := t_packets_lost_period t + 1,
             t_rto_us := rto, t_retransmit_queue := en' # q\<rparr>"
  have "check_retransmit P (t, e) = Some (?t\<lparr>t_rtt_measuring := False\<rparr>, resend_entry P ?t en1 e)"
    unfolding check_retransmit_def prod.case assms(1) list.case Let_def cc_def [symmetric] en1_def [symmetric]
    using assms(2) small by (simp add: rto_def [symmetric] en')
  moreover have "t_retransmit_queue (?t\<lparr>t_rtt_measuring := False\<rparr>) = en' # q" by simp
  moreover have "re_timeout en' \<le> e_now e + 60000000000" using u f(2) by linarith
  ultimately show ?thesis using f(1)
    by (intro exI [of _ "?t\<lparr>t_rtt_measuring := False\<rparr>"] exI [of _ "resend_entry P ?t en1 e"] exI [of _ en']) simp
qed

lemma timeout_give_up:
  assumes "t_retransmit_queue t = en # q" and "re_timeout en \<le> e_now e"
    and "re_retransmit_count en = op_max_retransmit (t_options t)"
    and "\<forall>a. snd (p_app P (t_tuple t) OnClose a) = []"
  shows "\<exists>t' e'. check_retransmit P (t, e) = Some (t', e') \<and> t_state t' = CLOSED \<and>
     e_app e' = (if t_on_close t then fst (p_app P (t_tuple t) OnClose (e_app e)) else e_app e)"
proof -
  obtain a where a: "p_app P (t_tuple t) OnClose (e_app e) = (a, [])" using assms(4) by (metis prod.collapse)
  show ?thesis
    using assms(1-3) a by (cases "t_on_close t") (simp_all add: check_retransmit_def Let_def run_callback_def)
qed



section \<open>The end of TIME_WAIT\<close>

lemma close_time_wait_now [simp]: "e_now (m_env (close_time_wait tu m)) = e_now (m_env m)"
  by (auto simp: close_time_wait_def split: option.split)

lemma close_time_wait_find:
  "find_tcb tu (close_time_wait tu' m) =
     (if tu' = tu \<and> (\<exists>t. find_tcb tu m = Some t \<and> t_state t = TIME_WAIT) then None else find_tcb tu m)"
  by (auto simp: close_time_wait_def split: option.split)

lemma find_time_wait [simp]: "find_tcb tu (m\<lparr>m_time_wait := xs\<rparr>) = find_tcb tu m"
  by (simp add: find_tcb_def)

lemma expire_find:
  "find_tcb tu m = Some t \<Longrightarrow> t_state t = TIME_WAIT \<Longrightarrow>
   find_tcb tu (expire_time_wait xs m) = (if \<exists>x. (x, tu) \<in> set xs \<and> x \<le> e_now (m_env m) then None else Some t)"
proof (induction xs m rule: expire_time_wait.induct)
  case (1 m)
  then show ?case by simp
next
  case (2 x tu' xs m)
  have gone: "find_tcb tu m = None \<Longrightarrow> find_tcb tu (expire_time_wait xs m) = None" for m :: "('a, 'b) mgr"
    by (induction xs m rule: expire_time_wait.induct) (auto simp: Let_def close_time_wait_find)
  show ?case
  proof (cases "e_now (m_env m) \<ge> x")
    case False
    then show ?thesis using 2(2) [OF False 2(3,4)] by (auto simp: Let_def)
  next
    case True
    show ?thesis
    proof (cases "tu' = tu")
      case eq: True
      then show ?thesis using True 2(3,4) gone [of "close_time_wait tu' m"] by (auto simp: close_time_wait_find)
    next
      case ne: False
      then have "find_tcb tu (close_time_wait tu' m) = Some t" using 2(3) by (simp add: close_time_wait_find)
      then show ?thesis using 2(1) [OF True _ 2(4)] True ne by auto
    qed
  qed
qed

lemma timer_connections_keys: "timer_connections P cs e = Some (cs', del, e') \<Longrightarrow> set del \<subseteq> fst ` set cs"
proof (induction cs arbitrary: e cs' del)
  case (Cons x cs)
  obtain tu t where x: "x = (tu, t)" by fastforce
  show ?case using Cons.prems Cons.IH unfolding x by (elim timer_connections_ConsE) fastforce
qed simp

lemma timer_connections_now: "timer_connections P cs e = Some (cs', del, e') \<Longrightarrow> e_now e' = e_now e"
proof (induction cs arbitrary: e cs' del)
  case (Cons x cs)
  obtain tu t where x: "x = (tu, t)" by fastforce
  obtain t1 e1 where r: "check_retransmit P (t, e) = Some (t1, e1)"
    using Cons.prems by (auto simp: x split: Option.bind_splits)
  obtain t2 e2 where z: "check_zero_window_probe P (check_delayed_ack P (t1, e1)) = (t2, e2)" by fastforce
  have "e_now e1 = e_now e" "e_now e2 = e_now e"
    using check_retransmit_frame [OF r] timer_checks_stay_both [OF z] by (simp_all add: stays_def)
  then show ?case
    using Cons.prems Cons.IH r z by (cases "t_state t1 = CLOSED") (auto simp: x split: Option.bind_splits)
qed simp

text \<open>The timer's checks do nothing to a connection that waits in TIME_WAIT.\<close>

lemma timer_connections_idle:
  "timer_connections P cs e = Some (cs', del, e') \<Longrightarrow> distinct (map fst cs) \<Longrightarrow> map_of cs tu = Some t \<Longrightarrow>
   t_state t = TIME_WAIT \<Longrightarrow> t_retransmit_queue t = [] \<Longrightarrow>
   \<exists>t'. map_of cs' tu = Some t' \<and> t_state t' = TIME_WAIT \<and> tu \<notin> set del"
proof (induction cs arbitrary: e cs' del)
  case (Cons x cs)
  obtain tu' t0 where x: "x = (tu', t0)" by fastforce
  obtain t1 e1 t2 e2 e3 t3 cs1 del1 where r: "check_retransmit P (t0, e) = Some (t1, e1)"
    and z: "check_zero_window_probe P (check_delayed_ack P (t1, e1)) = (t2, e2)"
    and c: "timer_connections P cs e3 = Some (cs1, del1, e')" "cs' = (tu', t3) # cs1"
      "t_state t1 = CLOSED \<and> t3 = t1 \<and> del = tu' # del1 \<or> t_state t1 \<noteq> CLOSED \<and> t3 = t2 \<and> del = del1"
    using timer_connections_ConsE [OF Cons.prems(1) [unfolded x]] .
  show ?case
  proof (cases "tu' = tu")
    case True
    then have t0: "t0 = t" "tu \<notin> fst ` set cs" using Cons.prems(2,3) by (auto simp: x)
    then have "t1 = t" using r Cons.prems(5) by (simp add: check_retransmit_def)
    then have "t_state t2 = TIME_WAIT"
      using timer_checks_stay_both [OF z] Cons.prems(4) by (auto simp: stays_def close_step_def)
    then show ?thesis using c True \<open>t1 = t\<close> t0(2) Cons.prems(4) timer_connections_keys [OF c(1)] by auto
  next
    case False
    then show ?thesis using Cons.IH [OF c(1)] Cons.prems(2-5) c(2,3) by (auto simp: x)
  qed
qed simp

lemma map_of_fold_erase: "tu \<notin> set del \<Longrightarrow> map_of (fold conn_erase del cs) tu = map_of cs tu"
  by (induction del arbitrary: cs) auto

lemma evict_find:
  "tu \<notin> snd ` set xs \<Longrightarrow> find_tcb tu (evict_time_wait xs m) = find_tcb tu m"
  by (induction xs arbitrary: m) (auto simp: close_time_wait_find)

lemma evict_subset: "set (m_time_wait (evict_time_wait xs m)) \<subseteq> set xs"
  by (induction xs arbitrary: m) auto

lemma evict_now [simp]: "e_now (m_env (evict_time_wait xs m)) = e_now (m_env m)"
  by (induction xs arbitrary: m) auto

text \<open>A connection that has just entered TIME_WAIT.\<close>

definition waiting_mgr :: "(reno, unit) mgr" where
  "waiting_mgr = demo_mgr\<lparr>m_connections := [(demo_tuple, demo_conn\<lparr>t_state := TIME_WAIT\<rparr>)]\<rparr>"


end
