(* ===== verification/Tcp_Layer.thy ===== *)
theory Tcp_Layer
  imports Tcp_Tables Tcp_Stream
begin

text \<open>
  The TCP layer over IP (\<^verbatim>\<open>src/transport/tcp_layer.cpp\<close>): packets in, the choice of a local port for
  \<open>connect\<close>, and what a segment that was sent is for the layer that receives it.
\<close>

section \<open>Operations\<close>

definition tcp_layer_handle :: "('c, 'a) params \<Rightarrow> ipv4_packet \<Rightarrow> ('c, 'a) mgr \<Rightarrow> ('c, 'a) mgr option" where
  "tcp_layer_handle P pkt m =
    (case tcp_parse pkt of Some seg \<Rightarrow> on_segment_received P seg m | None \<Rightarrow> Some m)"

text \<open>\<open>port = _next_ephemeral_port++\<close>, then the test against the last port of a 16-bit variable.\<close>

definition tcp_bump_port :: "u16 \<Rightarrow> u16" where
  "tcp_bump_port next = (if next + 1 > 65535 then 49152 else next + 1)"

fun tcp_alloc_loop :: "nat \<Rightarrow> ('c, 'a) mgr \<Rightarrow> u16 \<Rightarrow> u16 \<times> u16" where
  "tcp_alloc_loop 0 m next = (0, next)"
| "tcp_alloc_loop (Suc k) m next =
    (if \<not> is_port_in_use next m then (next, tcp_bump_port next)
     else tcp_alloc_loop k m (tcp_bump_port next))"

definition tcp_allocate_ephemeral_port :: "('c, 'a) mgr \<Rightarrow> u16 \<Rightarrow> u16 \<times> u16" where
  "tcp_allocate_ephemeral_port m next = tcp_alloc_loop 16384 m next"

text \<open>The result of \<open>connect\<close>, the manager, and the next port to try.\<close>

definition tcp_layer_connect ::
  "('c, 'a) params \<Rightarrow> u32 \<Rightarrow> u16 \<Rightarrow> u16 \<Rightarrow> ('c, 'a) mgr \<times> u16 \<Rightarrow> int \<times> ('c, 'a) mgr \<times> u16" where
  "tcp_layer_connect P remote_ip remote_port local_port = (\<lambda>(m, next).
    case (if local_port = 0 then tcp_allocate_ephemeral_port m next else (local_port, next)) of
      (port, next') \<Rightarrow>
        (case connect P remote_ip remote_port port m of (r, m') \<Rightarrow> (r, m', next')))"

section \<open>Ephemeral ports\<close>

lemma tcp_bump_port [simp]: "tcp_bump_port p = p + 1"
proof -
  have "\<not> p + 1 > 65535" using word_le_nat_alt [of "p + 1" "65535"] unat_lt_2_16 [of "p + 1"] by simp
  then show ?thesis by (simp add: tcp_bump_port_def)
qed

lemma tcp_alloc_loop_result:
  "tcp_alloc_loop k m p = (q, p') \<Longrightarrow>
   (\<exists>i < k. q = p + of_nat i \<and> \<not> is_port_in_use q m \<and> (\<forall>j < i. is_port_in_use (p + of_nat j) m) \<and> p' = q + 1) \<or>
   q = 0 \<and> (\<forall>i < k. is_port_in_use (p + of_nat i) m)"
proof (induction k arbitrary: p)
  case (Suc k)
  show ?case
  proof (cases "is_port_in_use p m")
    case False
    then show ?thesis using Suc.prems by auto
  next
    case True
    then have r: "tcp_alloc_loop k m (p + 1) = (q, p')" using Suc.prems by simp
    have used: "is_port_in_use (p + of_nat j) m" if "j < Suc i" "\<forall>j < i. is_port_in_use (p + 1 + of_nat j) m" for i j
      using that True by (cases j) (auto simp: add.assoc)
    from Suc.IH [OF r] show ?thesis
    proof (elim disjE exE conjE)
      fix i assume "i < k" "q = p + 1 + of_nat i" "\<not> is_port_in_use q m" "\<forall>j < i. is_port_in_use (p + 1 + of_nat j) m" "p' = q + 1"
      then show ?thesis using used [of _ i] by (intro disjI1 exI [of _ "Suc i"]) (auto simp: add.assoc)
    next
      assume "q = 0" "\<forall>i < k. is_port_in_use (p + 1 + of_nat i) m"
      then show ?thesis using used [of _ k] by auto
    qed
  qed
qed simp

text \<open>The ephemeral port counter leaves its range.  \<open>connect\<close> without a local port takes the
  first free port from the counter on, but the test that should bring the counter back to 49152
  compares a 16-bit variable with 65535 and never holds: after port 65535 the next one is 0, then 1
  and so on, so an outgoing connection can get port 0 or a well-known port.\<close>

theorem tcp_ephemeral_ports:
  "(case tcp_allocate_ephemeral_port m next of (q, next') \<Rightarrow>
      (\<exists>i < 16384. q = next + of_nat i \<and> \<not> is_port_in_use q m \<and>
         (\<forall>j < i. is_port_in_use (next + of_nat j) m) \<and> next' = q + 1) \<or>
      q = 0 \<and> (\<forall>i < 16384. is_port_in_use (next + of_nat i) m)) \<and>
   (\<not> is_port_in_use 65535 m \<longrightarrow> tcp_allocate_ephemeral_port m 65535 = (65535, 0)) \<and>
   (\<not> is_port_in_use 80 m \<longrightarrow> tcp_allocate_ephemeral_port m 80 = (80, 81))"
proof -
  have "tcp_alloc_loop 16384 m p = (if \<not> is_port_in_use p m then (p, p + 1) else tcp_alloc_loop 16383 m (p + 1))" for p
    using tcp_alloc_loop.simps(2) [of 16383 m p] by (simp add: eval_nat_numeral)
  then show ?thesis
    using tcp_alloc_loop_result [of 16384 m "next"]
    by (auto simp: tcp_allocate_ephemeral_port_def simp del: tcp_alloc_loop.simps split: prod.split)
qed

theorem tcp_ephemeral_ports_witness:
  "tcp_allocate_ephemeral_port (demo_mgr\<lparr>m_connections := []\<rparr>) 65535 = (65535, 0) \<and>
   tcp_allocate_ephemeral_port (demo_mgr\<lparr>m_connections := []\<rparr>) 80 = (80, 81)"
proof -
  have "\<not> is_port_in_use p (demo_mgr\<lparr>m_connections := []\<rparr>)" for p by (simp add: is_port_in_use_def demo_mgr_def)
  then show ?thesis using tcp_ephemeral_ports [of 0 "demo_mgr\<lparr>m_connections := []\<rparr>"] by blast
qed

section \<open>Segments in flight\<close>

text \<open>A packet that brings the bytes \<open>seg\<close> from \<open>src\<close> to \<open>dst\<close>.\<close>

definition brings :: "u32 \<Rightarrow> u32 \<Rightarrow> bytes \<Rightarrow> ipv4_packet \<Rightarrow> bool" where
  "brings src dst seg q \<longleftrightarrow> ip_src_addr q = src \<and> ip_dst_addr q = dst \<and> ip_payload q = seg"

text \<open>Bytes that every packet bringing them makes into a segment with the given fields.\<close>

definition on_wire :: "bytes \<Rightarrow> tcp_tuple \<Rightarrow> u8 \<Rightarrow> u32 \<Rightarrow> u32 \<Rightarrow> u16 \<Rightarrow> bytes \<Rightarrow> bool" where
  "on_wire seg tu flags seq ack window data \<longleftrightarrow>
     (\<forall>q. brings (tu_local_ip tu) (tu_remote_ip tu) seg q \<longrightarrow>
        (\<exists>s. tcp_parse q = Some s \<and> seg_seq_num s = seq \<and> seg_ack_num s = ack \<and> seg_flags s = flags \<and>
             seg_data s = data \<and> seg_window s = window \<and>
             segment_tuple s = \<lparr>tu_local_ip = tu_remote_ip tu, tu_remote_ip = tu_local_ip tu,
               tu_local_port = tu_remote_port tu, tu_remote_port = tu_local_port tu\<rparr>))"

lemma send_segment_on_wire:
  assumes "length data \<le> 1460" and "p_send_cb P"
  shows "\<exists>seg. on_wire seg (t_tuple t) fl (if fl AND SYN \<noteq> 0 then t_snd_una t else t_snd_nxt t) (t_rcv_nxt t)
      (window_field t) data \<and>
    e_out (snd (send_segment P fl data (t, e))) = e_out e @ [(tu_remote_ip (t_tuple t), seg)]"
proof -
  obtain seg where s: "build_segment t fl (re_seq_start (entry_for fl data t e)) data = Some seg"
    "send_segment P fl data (t, e) =
       (let t1 = advance_snd_nxt fl data (e_now e) t;
            t2 = (if p_send_cb P then count_sent (length data) t1 else t1);
            e2 = (if p_send_cb P then transmit (tu_remote_ip (t_tuple t)) seg e else e)
        in (if queued fl data
            then enqueue_entry (re_seq_start (entry_for fl data t e)) data (e_now e) t2 else t2, e2))"
    using send_segment_eq [OF assms(1), of t fl e P] by blast
  have "reads_as seg t fl (re_seq_start (entry_for fl data t e)) data"
    using build_segment_reads_as [OF assms(1), of t fl "re_seq_start (entry_for fl data t e)"] s(1) by auto
  then have "on_wire seg (t_tuple t) fl (re_seq_start (entry_for fl data t e)) (t_rcv_nxt t) (window_field t) data"
    by (auto simp: on_wire_def reads_as_def brings_def segment_tuple_def) 
  then show ?thesis using s(2) assms(2) by (auto simp: entry_for_def Let_def split: if_splits)
qed

section \<open>The opening handshake\<close>

text \<open>An application that only sets its callbacks when a connection opens, as the TCP layer does.\<close>

definition quiet_connect :: "('c, 'a) params \<Rightarrow> bool" where
  "quiet_connect P \<longleftrightarrow> (\<forall>tu a. \<forall>call\<in>set (snd (p_app P tu (OnConnect 0) a)). \<exists>r cl. call = CallSetCallbacks r cl)"

definition callbacks_only :: "'c tcb \<Rightarrow> 'c tcb \<Rightarrow> bool" where
  "callbacks_only t t' \<longleftrightarrow> (\<exists>r cl. t' = t\<lparr>t_on_receive := r, t_on_close := cl\<rparr>)"

lemma callbacks_only_refl [simp]: "callbacks_only t t"
  unfolding callbacks_only_def by (rule exI [of _ "t_on_receive t"], rule exI [of _ "t_on_close t"]) simp

lemma run_set_callbacks:
  "\<forall>call\<in>set calls. \<exists>r cl. call = CallSetCallbacks r cl \<Longrightarrow>
   \<exists>t'. run_calls P calls (t, e) = Some (t', e) \<and> callbacks_only t t'"
proof (induction calls arbitrary: t)
  case Nil
  show ?case by simp
next
  case (Cons call calls)
  then obtain r cl where call: "call = CallSetCallbacks r cl" by auto
  obtain t' where "run_calls P calls (t\<lparr>t_on_receive := r, t_on_close := cl\<rparr>, e) = Some (t', e)"
    "callbacks_only (t\<lparr>t_on_receive := r, t_on_close := cl\<rparr>) t'" using Cons by auto
  then show ?case by (auto simp: call callbacks_only_def)
qed

lemma connect_callback:
  assumes "quiet_connect P"
  shows "\<exists>t' a. (if t_on_connect t then run_callback P (OnConnect 0) (t, e) else Some (t, e)) = Some (t', e\<lparr>e_app := a\<rparr>) \<and>
    callbacks_only t t'"
proof (cases "t_on_connect t")
  case True
  obtain a calls where a: "p_app P (t_tuple t) (OnConnect 0) (e_app e) = (a, calls)" by fastforce
  have "\<forall>call\<in>set calls. \<exists>r cl. call = CallSetCallbacks r cl" using assms a by (metis quiet_connect_def snd_conv)
  from run_set_callbacks [OF this, of P t "e\<lparr>e_app := a\<rparr>"] show ?thesis using True a by (auto simp: run_callback_def)
next
  case False
  have "e = e\<lparr>e_app := e_app e\<rparr>" by simp
  then show ?thesis using False by (intro exI [of _ t] exI [of _ "e_app e"]) simp
qed

end
