(* ===== verification/Spsc_Queue.thy ===== *)
theory Spsc_Queue
  imports Prelude
begin

text \<open>
  The lock-free queue between one producer and one consumer thread
  (\<^verbatim>\<open>include/neustack/common/spsc_queue.hpp\<close>).  \<open>try_push\<close> and \<open>try_pop\<close> are given twice: as whole
  calls, and as the sequence of their accesses to shared memory, which the steps of the other thread
  may separate.  An acquire load sees everything before the release store it reads from, and each
  position has one writer, so interleaving the accesses is all that the two threads can do.
  The capacity is \<open>N = 2 ^ k\<close>.
\<close>

section \<open>Operations\<close>

record 'a spsc =
  sq_buffer :: "'a list"
  sq_read_pos :: u64
  sq_write_pos :: u64

definition sq_capacity :: "'a spsc \<Rightarrow> u64" where "sq_capacity q = of_nat (length (sq_buffer q))"

text \<open>\<open>pos & (N - 1)\<close>\<close>

definition sq_slot :: "'a spsc \<Rightarrow> u64 \<Rightarrow> nat" where "sq_slot q pos = unat (pos AND (sq_capacity q - 1))"

definition try_push :: "'a \<Rightarrow> 'a spsc \<Rightarrow> bool \<times> 'a spsc" where
  "try_push item q =
    (if sq_write_pos q - sq_read_pos q \<ge> sq_capacity q then (False, q)
     else (True, q\<lparr>sq_buffer := (sq_buffer q)[sq_slot q (sq_write_pos q) := item], sq_write_pos := sq_write_pos q + 1\<rparr>))"

definition try_pop :: "'a spsc \<Rightarrow> 'a option \<times> 'a spsc" where
  "try_pop q =
    (if sq_read_pos q = sq_write_pos q then (None, q)
     else (Some (sq_buffer q ! sq_slot q (sq_read_pos q)), q\<lparr>sq_read_pos := sq_read_pos q + 1\<rparr>))"

definition sq_empty :: "'a spsc \<Rightarrow> bool" where "sq_empty q \<longleftrightarrow> sq_read_pos q = sq_write_pos q"
definition sq_size :: "'a spsc \<Rightarrow> u64" where "sq_size q = sq_write_pos q - sq_read_pos q"

section \<open>Two threads\<close>

text \<open>Where a thread stands inside a call, with its local variables.\<close>

datatype 'a producer = PIdle | PLoaded 'a u64 | PReady 'a u64 | PStored 'a u64
datatype 'a consumer = CIdle | CLoaded u64 | CReady u64 | CRead u64 'a

text \<open>The queue, both threads, and what the calls that returned true have pushed and popped.\<close>

record 'a spsc_system =
  ss_queue :: "'a spsc"
  ss_producer :: "'a producer"
  ss_consumer :: "'a consumer"
  ss_pushed :: "'a list"
  ss_popped :: "'a list"

inductive spsc_step :: "'a spsc_system \<Rightarrow> 'a spsc_system \<Rightarrow> bool" where
  push_load_write: "ss_producer s = PIdle \<Longrightarrow> spsc_step s (s\<lparr>ss_producer := PLoaded x (sq_write_pos (ss_queue s))\<rparr>)"
| push_full: "ss_producer s = PLoaded x w \<Longrightarrow> w - sq_read_pos (ss_queue s) \<ge> sq_capacity (ss_queue s) \<Longrightarrow>
    spsc_step s (s\<lparr>ss_producer := PIdle\<rparr>)"
| push_load_read: "ss_producer s = PLoaded x w \<Longrightarrow> \<not> w - sq_read_pos (ss_queue s) \<ge> sq_capacity (ss_queue s) \<Longrightarrow>
    spsc_step s (s\<lparr>ss_producer := PReady x w\<rparr>)"
| push_store: "ss_producer s = PReady x w \<Longrightarrow>
    spsc_step s (s\<lparr>ss_producer := PStored x w,
      ss_queue := (ss_queue s)\<lparr>sq_buffer := (sq_buffer (ss_queue s))[sq_slot (ss_queue s) w := x]\<rparr>\<rparr>)"
| push_publish: "ss_producer s = PStored x w \<Longrightarrow>
    spsc_step s (s\<lparr>ss_producer := PIdle, ss_queue := (ss_queue s)\<lparr>sq_write_pos := w + 1\<rparr>,
      ss_pushed := ss_pushed s @ [x]\<rparr>)"
| pop_load_read: "ss_consumer s = CIdle \<Longrightarrow> spsc_step s (s\<lparr>ss_consumer := CLoaded (sq_read_pos (ss_queue s))\<rparr>)"
| pop_empty: "ss_consumer s = CLoaded r \<Longrightarrow> r = sq_write_pos (ss_queue s) \<Longrightarrow> spsc_step s (s\<lparr>ss_consumer := CIdle\<rparr>)"
| pop_load_write: "ss_consumer s = CLoaded r \<Longrightarrow> r \<noteq> sq_write_pos (ss_queue s) \<Longrightarrow>
    spsc_step s (s\<lparr>ss_consumer := CReady r\<rparr>)"
| pop_fetch: "ss_consumer s = CReady r \<Longrightarrow>
    spsc_step s (s\<lparr>ss_consumer := CRead r (sq_buffer (ss_queue s) ! sq_slot (ss_queue s) r)\<rparr>)"
| pop_release: "ss_consumer s = CRead r x \<Longrightarrow>
    spsc_step s (s\<lparr>ss_consumer := CIdle, ss_queue := (ss_queue s)\<lparr>sq_read_pos := r + 1\<rparr>,
      ss_popped := ss_popped s @ [x]\<rparr>)"

definition spsc_new :: "'a list \<Rightarrow> 'a spsc_system" where
  "spsc_new storage = \<lparr>ss_queue = \<lparr>sq_buffer = storage, sq_read_pos = 0, sq_write_pos = 0\<rparr>,
     ss_producer = PIdle, ss_consumer = CIdle, ss_pushed = [], ss_popped = []\<rparr>"

text \<open>A call of one thread with no step of the other in between is the whole call.\<close>

lemma try_push_steps:
  assumes "ss_producer s = PIdle" and "try_push x (ss_queue s) = (ok, q)"
  shows "spsc_step\<^sup>*\<^sup>* s (s\<lparr>ss_queue := q, ss_pushed := ss_pushed s @ (if ok then [x] else [])\<rparr>)"
proof -
  let ?q = "ss_queue s"
  let ?s1 = "s\<lparr>ss_producer := PLoaded x (sq_write_pos ?q)\<rparr>"
  have s1: "spsc_step s ?s1" using assms(1) by (rule push_load_write)
  show ?thesis
  proof (cases "sq_write_pos ?q - sq_read_pos ?q \<ge> sq_capacity ?q")
    case True
    then have "spsc_step ?s1 (?s1\<lparr>ss_producer := PIdle\<rparr>)" by (intro push_full [of _ x "sq_write_pos ?q"]) simp_all
    moreover have "s = s\<lparr>ss_producer := PIdle\<rparr>" using assms(1) by simp
    ultimately show ?thesis using s1 True assms by (auto simp: try_push_def)
  next
    case False
    let ?s2 = "s\<lparr>ss_producer := PReady x (sq_write_pos ?q)\<rparr>"
    let ?q3 = "?q\<lparr>sq_buffer := (sq_buffer ?q)[sq_slot ?q (sq_write_pos ?q) := x]\<rparr>"
    let ?s3 = "s\<lparr>ss_producer := PStored x (sq_write_pos ?q), ss_queue := ?q3\<rparr>"
    have "spsc_step ?s1 (?s1\<lparr>ss_producer := PReady x (sq_write_pos ?q)\<rparr>)"
      by (rule push_load_read) (use False in simp_all)
    moreover have "spsc_step ?s2 ?s3" using push_store [of ?s2 x "sq_write_pos ?q"] by simp
    moreover have "spsc_step ?s3 (s\<lparr>ss_producer := PIdle, ss_queue := ?q3\<lparr>sq_write_pos := sq_write_pos ?q + 1\<rparr>,
        ss_pushed := ss_pushed s @ [x]\<rparr>)"
      using push_publish [of ?s3 x "sq_write_pos ?q"] by simp
    moreover have "s\<lparr>ss_producer := PIdle, ss_queue := y, ss_pushed := z\<rparr> = s\<lparr>ss_queue := y, ss_pushed := z\<rparr>" for y z
      using assms(1) by simp
    ultimately show ?thesis using s1 False assms(2)
      by (auto simp: try_push_def intro: converse_rtranclp_into_rtranclp)
  qed
qed

section \<open>Positions\<close>

definition sq_wf :: "nat \<Rightarrow> 'a spsc \<Rightarrow> bool" where
  "sq_wf k q \<longleftrightarrow> k < 64 \<and> length (sq_buffer q) = 2 ^ k \<and> unat (sq_write_pos q - sq_read_pos q) \<le> 2 ^ k"

definition sq_contents :: "'a spsc \<Rightarrow> 'a list" where
  "sq_contents q = map (\<lambda>i. sq_buffer q ! sq_slot q (sq_read_pos q + of_nat i)) [0..<unat (sq_size q)]"

lemma unat_lt_2_64: "unat (w :: u64) < 2 ^ 64"
  using unsigned_less [of w] by simp

lemma sq_capacity_mask:
  assumes "k < 64" and "length (sq_buffer q) = 2 ^ k"
  shows "unat (sq_capacity q) = 2 ^ k" "sq_capacity q - 1 = mask k"
proof -
  have "(2 ^ k :: nat) < 2 ^ 64" using assms(1) by (rule power_strict_increasing) simp
  then show "unat (sq_capacity q) = 2 ^ k"
    by (simp only: sq_capacity_def assms(2)) (rule unat_of_nat_small, simp)
  show "sq_capacity q - 1 = mask k" by (simp add: sq_capacity_def assms(2) mask_eq_exp_minus_1)
qed

lemma sq_slot_mod:
  assumes "k < 64" and "length (sq_buffer q) = 2 ^ k"
  shows "sq_slot q pos = unat pos mod 2 ^ k"
  unfolding sq_slot_def sq_capacity_mask(2) [OF assms] take_bit_eq_mask [symmetric] unsigned_take_bit_eq
  by (rule take_bit_nat_def)

lemma sq_slot_offset:
  assumes "k < 64" and "length (sq_buffer q) = 2 ^ k"
  shows "sq_slot q (pos + of_nat i) = (unat pos + i) mod 2 ^ k"
proof -
  have "(2 ^ k :: nat) dvd 2 ^ 64" using assms(1) by (intro le_imp_power_dvd) simp
  then show ?thesis
    by (simp add: sq_slot_mod [OF assms] unat_word_ariths unat_of_nat mod_mod_cancel take_bit_eq_mod mod_simps)
qed

section \<open>The invariant\<close>

text \<open>What a thread has loaded is still the truth it needs: its own position is what it wrote last, and
  the other thread can only have made more room, or more to read.\<close>

fun producer_ok :: "nat \<Rightarrow> 'a spsc \<Rightarrow> 'a producer \<Rightarrow> bool" where
  "producer_ok k q PIdle \<longleftrightarrow> True"
| "producer_ok k q (PLoaded x w) \<longleftrightarrow> w = sq_write_pos q"
| "producer_ok k q (PReady x w) \<longleftrightarrow> w = sq_write_pos q \<and> unat (sq_size q) < 2 ^ k"
| "producer_ok k q (PStored x w) \<longleftrightarrow> w = sq_write_pos q \<and> unat (sq_size q) < 2 ^ k \<and> sq_buffer q ! sq_slot q w = x"

fun consumer_ok :: "'a spsc \<Rightarrow> 'a consumer \<Rightarrow> bool" where
  "consumer_ok q CIdle \<longleftrightarrow> True"
| "consumer_ok q (CLoaded r) \<longleftrightarrow> r = sq_read_pos q"
| "consumer_ok q (CReady r) \<longleftrightarrow> r = sq_read_pos q \<and> r \<noteq> sq_write_pos q"
| "consumer_ok q (CRead r x) \<longleftrightarrow> r = sq_read_pos q \<and> r \<noteq> sq_write_pos q \<and> sq_buffer q ! sq_slot q r = x"

definition spsc_inv :: "nat \<Rightarrow> 'a spsc_system \<Rightarrow> bool" where
  "spsc_inv k s \<longleftrightarrow> sq_wf k (ss_queue s) \<and> ss_pushed s = ss_popped s @ sq_contents (ss_queue s) \<and>
     producer_ok k (ss_queue s) (ss_producer s) \<and> consumer_ok (ss_queue s) (ss_consumer s)"

lemma sq_write_slot:
  assumes "sq_wf k q"
  shows "sq_slot q (sq_write_pos q) = (unat (sq_read_pos q) + unat (sq_size q)) mod 2 ^ k"
    "sq_slot q (sq_write_pos q) < length (sq_buffer q)"
proof -
  have w: "sq_write_pos q = sq_read_pos q + of_nat (unat (sq_size q))" by (simp add: sq_size_def)
  show "sq_slot q (sq_write_pos q) = (unat (sq_read_pos q) + unat (sq_size q)) mod 2 ^ k"
    by (subst w, rule sq_slot_offset) (use assms in \<open>simp_all add: sq_wf_def\<close>)
  then show "sq_slot q (sq_write_pos q) < length (sq_buffer q)" using assms by (simp add: sq_wf_def)
qed

lemma sq_slot_simps [simp]:
  "sq_slot (q\<lparr>sq_buffer := (sq_buffer q)[i := x]\<rparr>) = sq_slot q"
  "sq_slot (q\<lparr>sq_write_pos := w\<rparr>) = sq_slot q" "sq_slot (q\<lparr>sq_read_pos := r\<rparr>) = sq_slot q"
  by (simp_all add: fun_eq_iff sq_slot_def sq_capacity_def)

lemma store_keeps_contents:
  assumes "sq_wf k q" and "unat (sq_size q) < 2 ^ k"
  shows "sq_contents (q\<lparr>sq_buffer := (sq_buffer q)[sq_slot q (sq_write_pos q) := x]\<rparr>) = sq_contents q"
proof -
  have "sq_slot q (sq_read_pos q + of_nat i) \<noteq> sq_slot q (sq_write_pos q)" if "i < unat (sq_size q)" for i
    using that assms mod_offset_inj [of "unat (sq_read_pos q)" i "2 ^ k" "unat (sq_size q)"]
    by (auto simp: sq_write_slot(1) [OF assms(1)] sq_wf_def sq_slot_offset)
  then have "(sq_buffer q)[sq_slot q (sq_write_pos q) := x] ! sq_slot q (sq_read_pos q + of_nat i) =
      sq_buffer q ! sq_slot q (sq_read_pos q + of_nat i)" if "i < unat (sq_size q)" for i
    using that by (metis nth_list_update_neq)
  then show ?thesis by (simp add: sq_contents_def sq_size_def)
qed

lemma publish_contents:
  assumes "sq_wf k q" and "unat (sq_size q) < 2 ^ k"
  shows "sq_contents (q\<lparr>sq_write_pos := sq_write_pos q + 1\<rparr>) = sq_contents q @ [sq_buffer q ! sq_slot q (sq_write_pos q)]"
    "sq_wf k (q\<lparr>sq_write_pos := sq_write_pos q + 1\<rparr>)"
proof -
  have k: "(2 ^ k :: nat) < 2 ^ 64" using assms(1) by (intro power_strict_increasing) (simp_all add: sq_wf_def)
  have d: "sq_write_pos q + 1 - sq_read_pos q = sq_size q + 1" by (simp add: sq_size_def)
  have n: "unat (sq_write_pos q + 1 - sq_read_pos q) = Suc (unat (sq_size q))"
    unfolding d using assms(2) k unat_add_small [of "sq_size q" 1] by simp
  have w: "sq_read_pos q + of_nat (unat (sq_size q)) = sq_write_pos q" by (simp add: sq_size_def)
  have m: "unat (sq_size (q\<lparr>sq_write_pos := sq_write_pos q + 1\<rparr>)) = Suc (unat (sq_size q))" using n by (simp add: sq_size_def)
  show "sq_contents (q\<lparr>sq_write_pos := sq_write_pos q + 1\<rparr>) = sq_contents q @ [sq_buffer q ! sq_slot q (sq_write_pos q)]"
    using w unfolding sq_contents_def m by simp
  show "sq_wf k (q\<lparr>sq_write_pos := sq_write_pos q + 1\<rparr>)" using assms n by (simp add: sq_wf_def)
qed

lemma release_contents:
  assumes "sq_wf k q" and "sq_read_pos q \<noteq> sq_write_pos q"
  shows "sq_contents q = sq_buffer q ! sq_slot q (sq_read_pos q) # sq_contents (q\<lparr>sq_read_pos := sq_read_pos q + 1\<rparr>)"
    "unat (sq_size q) = Suc (unat (sq_size (q\<lparr>sq_read_pos := sq_read_pos q + 1\<rparr>)))"
    "sq_wf k (q\<lparr>sq_read_pos := sq_read_pos q + 1\<rparr>)"
proof -
  let ?q = "q\<lparr>sq_read_pos := sq_read_pos q + 1\<rparr>"
  have "sq_size q \<noteq> 0" using assms(2) by (simp add: sq_size_def)
  then have "unat (sq_size q - 1) = unat (sq_size q) - 1" and "unat (sq_size q) \<noteq> 0"
    by (rule unat_minus_one) (use \<open>sq_size q \<noteq> 0\<close> in \<open>simp add: unat_eq_0\<close>)
  moreover have "sq_size ?q = sq_size q - 1" by (simp add: sq_size_def)
  ultimately show size: "unat (sq_size q) = Suc (unat (sq_size ?q))" by simp
  show "sq_contents q = sq_buffer q ! sq_slot q (sq_read_pos q) # sq_contents ?q"
    unfolding sq_contents_def size
    by (simp add: map_upt_Suc add.commute add.left_commute del: upt_Suc)
  show "sq_wf k ?q" using assms(1) size by (auto simp: sq_wf_def sq_size_def)
qed

lemma spsc_inv_new: "k < 64 \<Longrightarrow> length storage = 2 ^ k \<Longrightarrow> spsc_inv k (spsc_new storage)"
  by (simp add: spsc_inv_def spsc_new_def sq_wf_def sq_contents_def sq_size_def)

lemma consumer_ok_store:
  assumes wf: "sq_wf k q" and n: "unat (sq_size q) < 2 ^ k" and "consumer_ok q c"
  shows "consumer_ok (q\<lparr>sq_buffer := (sq_buffer q)[sq_slot q (sq_write_pos q) := x]\<rparr>) c"
proof -
  have "sq_slot q (sq_write_pos q) \<noteq> sq_slot q (sq_read_pos q)" if "sq_read_pos q \<noteq> sq_write_pos q"
  proof -
    have "unat (sq_size q) \<noteq> 0" using that by (simp add: sq_size_def unat_eq_0)
    then show ?thesis
      using mod_offset_inj [of "unat (sq_read_pos q)" 0 "2 ^ k" "unat (sq_size q)"] n wf
      by (auto simp: sq_write_slot(1) [OF wf] sq_wf_def sq_slot_mod)
  qed
  then show ?thesis using assms(3) by (cases c) auto
qed

lemma consumer_ok_publish:
  assumes wf: "sq_wf k q" and n: "unat (sq_size q) < 2 ^ k" and "consumer_ok q c"
  shows "consumer_ok (q\<lparr>sq_write_pos := sq_write_pos q + 1\<rparr>) c"
proof -
  have "sq_read_pos q \<noteq> sq_write_pos q + 1"
  proof
    assume "sq_read_pos q = sq_write_pos q + 1"
    then have "sq_contents q @ [sq_buffer q ! sq_slot q (sq_write_pos q)] = []"
      using publish_contents(1) [OF wf n] by (simp add: sq_contents_def sq_size_def)
    then show False by simp
  qed
  then show ?thesis using assms(3) by (cases c) auto
qed

lemma producer_ok_release:
  assumes wf: "sq_wf k q" and "sq_read_pos q \<noteq> sq_write_pos q" and "producer_ok k q p"
  shows "producer_ok k (q\<lparr>sq_read_pos := sq_read_pos q + 1\<rparr>) p"
  using assms(3) release_contents(2) [OF wf assms(2)] by (cases p) auto

lemma spsc_step_inv:
  assumes "spsc_step s s'" and inv: "spsc_inv k s"
  shows "spsc_inv k s' \<and> length (sq_buffer (ss_queue s')) = length (sq_buffer (ss_queue s))"
proof -
  have wf: "sq_wf k (ss_queue s)" using inv by (simp add: spsc_inv_def)
  then have cap: "unat (sq_capacity (ss_queue s)) = 2 ^ k" by (simp add: sq_wf_def sq_capacity_mask)
  show ?thesis
    using assms(1)
  proof cases
    case (push_load_read x w)
    then have "unat (sq_size (ss_queue s)) < 2 ^ k"
      using inv cap by (simp add: spsc_inv_def sq_size_def word_le_nat_alt)
    then show ?thesis using push_load_read inv by (simp add: spsc_inv_def)
  next
    case (push_store x w)
    then have w: "w = sq_write_pos (ss_queue s)" "unat (sq_size (ss_queue s)) < 2 ^ k" using inv by (simp_all add: spsc_inv_def)
    show ?thesis
      using inv push_store w sq_write_slot(2) [OF wf] store_keeps_contents [OF wf w(2)] consumer_ok_store [OF wf w(2)]
      by (simp add: spsc_inv_def) (simp add: sq_wf_def sq_size_def)
  next
    case (push_publish x w)
    then have w: "w = sq_write_pos (ss_queue s)" "unat (sq_size (ss_queue s)) < 2 ^ k"
      "sq_buffer (ss_queue s) ! sq_slot (ss_queue s) w = x" using inv by (auto simp: spsc_inv_def)
    then have "sq_buffer (ss_queue s) ! sq_slot (ss_queue s) (sq_write_pos (ss_queue s)) = x" by simp
    then show ?thesis
      using inv push_publish(1) w(1) publish_contents [OF wf w(2)] consumer_ok_publish [OF wf w(2)] by (auto simp: spsc_inv_def)
  next
    case (pop_release r x)
    then have r: "r = sq_read_pos (ss_queue s)" "sq_read_pos (ss_queue s) \<noteq> sq_write_pos (ss_queue s)"
      "sq_buffer (ss_queue s) ! sq_slot (ss_queue s) (sq_read_pos (ss_queue s)) = x" using inv by (auto simp: spsc_inv_def)
    then show ?thesis
      using inv pop_release(1) release_contents [OF wf r(2)] producer_ok_release [OF wf r(2)] by (simp add: spsc_inv_def)
  qed (use inv in \<open>simp_all add: spsc_inv_def\<close>)
qed

text \<open>C27. The queue loses, repeats and reorders nothing, however the two threads interleave.  At every
  moment what the consumer's calls have returned is a prefix of what the producer's calls have put
  in; the rest, in order, is in the buffer, at most the capacity; a call that is about to write does
  not write a slot that is still to be read; and the positions may wrap around 64 bits.\<close>

theorem spsc_fifo:
  assumes "spsc_step\<^sup>*\<^sup>* (spsc_new storage) s" and "length storage = 2 ^ k" and "k < 64"
  shows "ss_pushed s = ss_popped s @ sq_contents (ss_queue s) \<and>
    length (sq_contents (ss_queue s)) = unat (sq_size (ss_queue s)) \<and> unat (sq_size (ss_queue s)) \<le> 2 ^ k \<and>
    (\<forall>x w. ss_producer s = PReady x w \<longrightarrow>
       (\<forall>i < unat (sq_size (ss_queue s)). sq_slot (ss_queue s) (sq_read_pos (ss_queue s) + of_nat i) \<noteq> sq_slot (ss_queue s) w)) \<and>
    (\<forall>r x. ss_consumer s = CRead r x \<longrightarrow> sq_contents (ss_queue s) \<noteq> [] \<and> hd (sq_contents (ss_queue s)) = x)"
proof -
  have inv: "spsc_inv k s"
    using assms(1)
  proof (induction rule: rtranclp_induct)
    case base
    show ?case using assms(2,3) by (rule spsc_inv_new [rotated])
  next
    case (step s s')
    then show ?case using spsc_step_inv by blast
  qed
  then have wf: "sq_wf k (ss_queue s)" by (simp add: spsc_inv_def)
  have "sq_slot (ss_queue s) (sq_read_pos (ss_queue s) + of_nat i) \<noteq> sq_slot (ss_queue s) w"
    if "ss_producer s = PReady x w" "i < unat (sq_size (ss_queue s))" for x w i
    using that inv wf mod_offset_inj [of "unat (sq_read_pos (ss_queue s))" i "2 ^ k" "unat (sq_size (ss_queue s))"]
    by (auto simp: spsc_inv_def sq_write_slot(1) [OF wf] sq_wf_def sq_slot_offset)
  moreover have "sq_contents (ss_queue s) \<noteq> [] \<and> hd (sq_contents (ss_queue s)) = x" if "ss_consumer s = CRead r x" for r x
    using that inv release_contents(1) [OF wf] by (auto simp: spsc_inv_def)
  ultimately show ?thesis
    using inv by (auto simp: spsc_inv_def sq_wf_def sq_size_def sq_contents_def)
qed

text \<open>Two pushes, the second call stopped before it publishes, and a pop in between.\<close>

theorem spsc_fifo_witness:
  "\<exists>s. spsc_step\<^sup>*\<^sup>* (spsc_new [0, 0 :: nat]) s \<and> ss_pushed s = [5] \<and> ss_popped s = [5] \<and>
     sq_contents (ss_queue s) = [] \<and> ss_producer s = PStored 6 1"
proof -
  let ?sys = "\<lambda>b r w p c pu po. \<lparr>ss_queue = \<lparr>sq_buffer = b, sq_read_pos = r, sq_write_pos = w\<rparr>, ss_producer = p,
      ss_consumer = c, ss_pushed = pu, ss_popped = po\<rparr> :: nat spsc_system"
  have 1: "spsc_step\<^sup>*\<^sup>* (spsc_new [0, 0]) (?sys [5, 0] 0 1 PIdle CIdle [5] [])"
    using try_push_steps [of "spsc_new [0, 0 :: nat]" 5]
    by (simp add: spsc_new_def try_push_def sq_capacity_def sq_slot_def)
  have 2: "spsc_step (?sys [5, 0] 0 1 PIdle CIdle [5] []) (?sys [5, 0] 0 1 (PLoaded 6 1) CIdle [5] [])"
    using push_load_write [of "?sys [5, 0] 0 1 PIdle CIdle [5] []" 6] by simp
  have 3: "spsc_step (?sys [5, 0] 0 1 (PLoaded 6 1) CIdle [5] []) (?sys [5, 0] 0 1 (PReady 6 1) CIdle [5] [])"
    using push_load_read [of "?sys [5, 0] 0 1 (PLoaded 6 1) CIdle [5] []" 6 1] by (simp add: sq_capacity_def word_le_nat_alt)
  have 4: "spsc_step (?sys [5, 0] 0 1 (PReady 6 1) CIdle [5] []) (?sys [5, 6] 0 1 (PStored 6 1) CIdle [5] [])"
    using push_store [of "?sys [5, 0] 0 1 (PReady 6 1) CIdle [5] []" 6 1] by (simp add: sq_capacity_def sq_slot_def)
  have 5: "spsc_step (?sys [5, 6] 0 1 (PStored 6 1) CIdle [5] []) (?sys [5, 6] 0 1 (PStored 6 1) (CLoaded 0) [5] [])"
    using pop_load_read [of "?sys [5, 6] 0 1 (PStored 6 1) CIdle [5] []"] by simp
  have 6: "spsc_step (?sys [5, 6] 0 1 (PStored 6 1) (CLoaded 0) [5] []) (?sys [5, 6] 0 1 (PStored 6 1) (CReady 0) [5] [])"
    using pop_load_write [of "?sys [5, 6] 0 1 (PStored 6 1) (CLoaded 0) [5] []" 0] by simp
  have 7: "spsc_step (?sys [5, 6] 0 1 (PStored 6 1) (CReady 0) [5] []) (?sys [5, 6] 0 1 (PStored 6 1) (CRead 0 5) [5] [])"
    using pop_fetch [of "?sys [5, 6] 0 1 (PStored 6 1) (CReady 0) [5] []" 0] by (simp add: sq_slot_def)
  have 8: "spsc_step (?sys [5, 6] 0 1 (PStored 6 1) (CRead 0 5) [5] []) (?sys [5, 6] 1 1 (PStored 6 1) CIdle [5] [5])"
    using pop_release [of "?sys [5, 6] 0 1 (PStored 6 1) (CRead 0 5) [5] []" 0 5] by simp
  have run: "spsc_step\<^sup>*\<^sup>* (spsc_new [0, 0]) (?sys [5, 6] 1 1 (PStored 6 1) CIdle [5] [5])"
    by (rule rtranclp_trans [OF 1]) (intro converse_rtranclp_into_rtranclp [of spsc_step, OF 2] converse_rtranclp_into_rtranclp [of spsc_step, OF 3]
      converse_rtranclp_into_rtranclp [of spsc_step, OF 4] converse_rtranclp_into_rtranclp [of spsc_step, OF 5] converse_rtranclp_into_rtranclp [of spsc_step, OF 6]
      converse_rtranclp_into_rtranclp [of spsc_step, OF 7] r_into_rtranclp [of spsc_step, OF 8])
  from spsc_fifo [OF run, of 1] run show ?thesis by (intro exI conjI) (assumption | simp)+
qed

end
