(* ===== verification/Rate_Limiter.thy ===== *)
theory Rate_Limiter
  imports Prelude "HOL-Library.AList"
begin

text \<open>
  The token bucket limiter of the firewall (\<^verbatim>\<open>include/neustack/firewall/rate_limiter.hpp\<close>).  There is one
  bucket per source address; the buckets, owned by a hash table, are chained by age in an intrusive
  doubly linked list.  A pointer to a bucket is the address the bucket belongs to, and following a
  pointer to no bucket is undefined behaviour and the value \<open>None\<close>.  The moving average of the
  packet rate is a \<open>double\<close>: its type and operations are parameters.
\<close>

section \<open>Operations\<close>

definition MAX_TRACKED_IPS :: nat where "MAX_TRACKED_IPS = 65536"

record rl_config =
  cf_packets_per_second :: u32
  cf_burst_size :: u32
  cf_enabled :: bool

definition rl_config_default :: rl_config where
  "rl_config_default = \<lparr>cf_packets_per_second = 1000, cf_burst_size = 100, cf_enabled = False\<rparr>"

record rl_result =
  rr_allowed :: bool
  rr_current_pps :: u32
  rr_limit_pps :: u32
  rr_tokens_left :: u32

record 'd bucket =
  bk_tokens :: u32
  bk_last_update_us :: u64
  bk_ewma_pps :: 'd
  bk_ip :: u32
  bk_lru_prev :: "u32 option"
  bk_lru_next :: "u32 option"

text \<open>The arithmetic on \<open>ewma_pps\<close>: its start, the update after some microseconds, and the conversion.\<close>

record 'd rate_math =
  rm_zero :: 'd
  rm_ewma :: "u64 \<Rightarrow> 'd \<Rightarrow> 'd"
  rm_pps :: "'d \<Rightarrow> u32"

record 'd limiter =
  rl_config :: rl_config
  rl_buckets :: "(u32 \<times> 'd bucket) list"
  rl_lru_head :: "u32 option"
  rl_lru_tail :: "u32 option"

definition rl_new :: "rl_config \<Rightarrow> 'd limiter" where
  "rl_new cfg = \<lparr>rl_config = cfg, rl_buckets = [], rl_lru_head = None, rl_lru_tail = None\<rparr>"

definition rl_find :: "u32 \<Rightarrow> 'd limiter \<Rightarrow> 'd bucket option" where
  "rl_find ip rl = map_of (rl_buckets rl) ip"

text \<open>Writing through a pointer to a bucket.\<close>

definition rl_at :: "u32 \<Rightarrow> ('d bucket \<Rightarrow> 'd bucket) \<Rightarrow> 'd limiter \<Rightarrow> 'd limiter option" where
  "rl_at p f rl =
    (case rl_find p rl of Some b \<Rightarrow> Some (rl\<lparr>rl_buckets := AList.update p (f b) (rl_buckets rl)\<rparr>) | None \<Rightarrow> None)"

definition lru_remove :: "u32 \<Rightarrow> 'd limiter \<Rightarrow> 'd limiter option" where
  "lru_remove b rl = do {
     bk \<leftarrow> rl_find b rl;
     rl \<leftarrow> (case bk_lru_prev bk of Some p \<Rightarrow> rl_at p (bk_lru_next_update (\<lambda>_. bk_lru_next bk)) rl
           | None \<Rightarrow> Some (rl\<lparr>rl_lru_head := bk_lru_next bk\<rparr>));
     rl \<leftarrow> (case bk_lru_next bk of Some n \<Rightarrow> rl_at n (bk_lru_prev_update (\<lambda>_. bk_lru_prev bk)) rl
           | None \<Rightarrow> Some (rl\<lparr>rl_lru_tail := bk_lru_prev bk\<rparr>));
     rl_at b (\<lambda>bk. bk\<lparr>bk_lru_prev := None, bk_lru_next := None\<rparr>) rl
   }"

definition lru_push_back :: "u32 \<Rightarrow> 'd limiter \<Rightarrow> 'd limiter option" where
  "lru_push_back b rl = do {
     rl \<leftarrow> rl_at b (\<lambda>bk. bk\<lparr>bk_lru_prev := rl_lru_tail rl, bk_lru_next := None\<rparr>) rl;
     rl \<leftarrow> (case rl_lru_tail rl of Some t \<Rightarrow> rl_at t (bk_lru_next_update (\<lambda>_. Some b)) rl
           | None \<Rightarrow> Some (rl\<lparr>rl_lru_head := Some b\<rparr>));
     Some (rl\<lparr>rl_lru_tail := Some b\<rparr>)
   }"

definition lru_move_to_tail :: "u32 \<Rightarrow> 'd limiter \<Rightarrow> 'd limiter option" where
  "lru_move_to_tail b rl =
    (if rl_lru_tail rl = Some b then Some rl else Option.bind (lru_remove b rl) (lru_push_back b))"

fun evict_loop :: "nat \<Rightarrow> 'd limiter \<Rightarrow> 'd limiter option" where
  "evict_loop 0 rl = Some rl"
| "evict_loop (Suc n) rl =
    (case rl_lru_head rl of
       None \<Rightarrow> Some rl
     | Some victim \<Rightarrow> do {
         v \<leftarrow> rl_find victim rl;
         rl \<leftarrow> lru_remove victim rl;
         evict_loop n (rl\<lparr>rl_buckets := AList.delete (bk_ip v) (rl_buckets rl)\<rparr>)
       })"

definition evict_lru :: "'d limiter \<Rightarrow> 'd limiter option" where
  "evict_lru rl =
    (let to_remove = length (rl_buckets rl) div 4
     in evict_loop (if to_remove = 0 then 1 else to_remove) rl)"

definition get_or_create_bucket :: "'d rate_math \<Rightarrow> u32 \<Rightarrow> u64 \<Rightarrow> 'd limiter \<Rightarrow> 'd limiter option" where
  "get_or_create_bucket M ip now rl =
    (case rl_find ip rl of
       Some _ \<Rightarrow> Some rl
     | None \<Rightarrow> do {
         rl \<leftarrow> (if length (rl_buckets rl) \<ge> MAX_TRACKED_IPS then evict_lru rl else Some rl);
         lru_push_back ip (rl\<lparr>rl_buckets := AList.update ip
           \<lparr>bk_tokens = cf_burst_size (rl_config rl), bk_last_update_us = now, bk_ewma_pps = rm_zero M, bk_ip = ip,
            bk_lru_prev = None, bk_lru_next = None\<rparr> (rl_buckets rl)\<rparr>)
       })"

text \<open>Refilling a bucket: the tokens of the time passed, up to the burst size, in 64-bit arithmetic.\<close>

definition refill :: "rl_config \<Rightarrow> u64 \<Rightarrow> u64 \<Rightarrow> u32 \<Rightarrow> u32" where
  "refill cfg last_us now tokens =
    (let elapsed_us = now - last_us;
         tokens_to_add = (elapsed_us * ucast (cf_packets_per_second cfg)) div 1000000
     in ucast (min (ucast tokens + tokens_to_add) (ucast (cf_burst_size cfg))))"

definition update_bucket :: "'d rate_math \<Rightarrow> rl_config \<Rightarrow> u64 \<Rightarrow> 'd bucket \<Rightarrow> 'd bucket" where
  "update_bucket M cfg now b =
    (let elapsed_us = now - bk_last_update_us b;
         b = b\<lparr>bk_tokens := refill cfg (bk_last_update_us b) now (bk_tokens b), bk_last_update_us := now\<rparr>
     in if elapsed_us > 0 then b\<lparr>bk_ewma_pps := rm_ewma M elapsed_us (bk_ewma_pps b)\<rparr> else b)"

definition rl_check :: "'d rate_math \<Rightarrow> u32 \<Rightarrow> u64 \<Rightarrow> 'd limiter \<Rightarrow> (rl_result \<times> 'd limiter) option" where
  "rl_check M ip now rl =
    (let pps = cf_packets_per_second (rl_config rl) in
     if \<not> cf_enabled (rl_config rl) then
       Some (\<lparr>rr_allowed = True, rr_current_pps = 0, rr_limit_pps = pps, rr_tokens_left = cf_burst_size (rl_config rl)\<rparr>, rl)
     else do {
       rl \<leftarrow> get_or_create_bucket M ip now rl;
       rl \<leftarrow> rl_at ip (update_bucket M (rl_config rl) now) rl;
       rl \<leftarrow> lru_move_to_tail ip rl;
       b \<leftarrow> rl_find ip rl;
       (let current_pps = rm_pps M (bk_ewma_pps b) in
        if bk_tokens b > 0 then do {
          rl \<leftarrow> rl_at ip (\<lambda>b. b\<lparr>bk_tokens := bk_tokens b - 1\<rparr>) rl;
          Some (\<lparr>rr_allowed = True, rr_current_pps = current_pps, rr_limit_pps = pps, rr_tokens_left = bk_tokens b - 1\<rparr>, rl)
        }
        else Some (\<lparr>rr_allowed = False, rr_current_pps = current_pps, rr_limit_pps = pps, rr_tokens_left = 0\<rparr>, rl))
     })"

definition rl_reset :: "u32 \<Rightarrow> 'd limiter \<Rightarrow> 'd limiter option" where
  "rl_reset ip rl =
    (case rl_find ip rl of
       Some _ \<Rightarrow> map_option (\<lambda>rl. rl\<lparr>rl_buckets := AList.delete ip (rl_buckets rl)\<rparr>) (lru_remove ip rl)
     | None \<Rightarrow> Some rl)"

definition rl_clear :: "'d limiter \<Rightarrow> 'd limiter" where
  "rl_clear rl = rl\<lparr>rl_buckets := [], rl_lru_head := None, rl_lru_tail := None\<rparr>"

definition rl_tracked_count :: "'d limiter \<Rightarrow> nat" where "rl_tracked_count rl = length (rl_buckets rl)"

definition rl_set_enabled :: "bool \<Rightarrow> 'd limiter \<Rightarrow> 'd limiter" where
  "rl_set_enabled on rl = rl\<lparr>rl_config := (rl_config rl)\<lparr>cf_enabled := on\<rparr>\<rparr>"

definition rl_set_rate :: "u32 \<Rightarrow> u32 \<Rightarrow> 'd limiter \<Rightarrow> 'd limiter" where
  "rl_set_rate pps burst rl = rl\<lparr>rl_config := (rl_config rl)\<lparr>cf_packets_per_second := pps, cf_burst_size := burst\<rparr>\<rparr>"

section \<open>Neighbours in a list\<close>

definition hd_opt :: "'a list \<Rightarrow> 'a option" where
  "hd_opt xs = (case xs of [] \<Rightarrow> None | x # _ \<Rightarrow> Some x)"

lemma hd_opt_simps [simp]: "hd_opt [] = None" "hd_opt (x # xs) = Some x"
  by (simp_all add: hd_opt_def)

lemma hd_opt_append: "hd_opt (xs @ ys) = (if xs = [] then hd_opt ys else hd_opt xs)"
  by (cases xs) simp_all

lemma hd_opt_rev: "hd_opt (rev xs) = (if xs = [] then None else Some (last xs))"
  by (cases xs rule: rev_cases) simp_all

fun succ_in :: "'a list \<Rightarrow> 'a \<Rightarrow> 'a option" where
  "succ_in [] k = None"
| "succ_in (x # xs) k = (if k = x then hd_opt xs else succ_in xs k)"

abbreviation pred_in :: "'a list \<Rightarrow> 'a \<Rightarrow> 'a option" where "pred_in xs \<equiv> succ_in (rev xs)"

lemma succ_in_at: "k \<notin> set xs \<Longrightarrow> succ_in (xs @ k # ys) k = hd_opt ys"
  by (induction xs) auto

lemma pred_in_at: "k \<notin> set ys \<Longrightarrow> pred_in (xs @ k # ys) k = hd_opt (rev xs)"
  using succ_in_at [of k "rev ys" "rev xs"] by simp

lemma succ_in_remove:
  "distinct (xs @ k # ys) \<Longrightarrow> j \<noteq> k \<Longrightarrow>
   succ_in (xs @ ys) j = (if hd_opt (rev xs) = Some j then hd_opt ys else succ_in (xs @ k # ys) j)"
proof (induction xs)
  case (Cons x xs)
  then show ?case by (cases xs) (auto simp: hd_opt_append hd_opt_rev split: if_splits)
qed simp

lemma pred_in_remove:
  "distinct (xs @ k # ys) \<Longrightarrow> j \<noteq> k \<Longrightarrow>
   pred_in (xs @ ys) j = (if hd_opt ys = Some j then hd_opt (rev xs) else pred_in (xs @ k # ys) j)"
  using succ_in_remove [of "rev ys" k "rev xs" j] by (auto simp: Int_commute)

lemma succ_in_snoc:
  "distinct xs \<Longrightarrow> k \<notin> set xs \<Longrightarrow>
   succ_in (xs @ [k]) j = (if j = k then None else if hd_opt (rev xs) = Some j then Some k else succ_in xs j)"
proof (induction xs)
  case (Cons x xs)
  then show ?case by (cases xs) (auto simp: hd_opt_append hd_opt_rev split: if_splits)
qed simp

lemma pred_in_snoc: "k \<notin> set xs \<Longrightarrow> pred_in (xs @ [k]) j = (if j = k then hd_opt (rev xs) else pred_in xs j)"
  by simp

section \<open>The invariant\<close>

text \<open>The chain from the head visits every bucket once, in the order \<open>ks\<close>.\<close>

definition rl_wf :: "'d limiter \<Rightarrow> u32 list \<Rightarrow> bool" where
  "rl_wf rl ks \<longleftrightarrow> distinct ks \<and> distinct (map fst (rl_buckets rl)) \<and> set ks = fst ` set (rl_buckets rl) \<and>
     rl_lru_head rl = hd_opt ks \<and> rl_lru_tail rl = hd_opt (rev ks) \<and>
     (\<forall>k b. rl_find k rl = Some b \<longrightarrow> bk_ip b = k \<and> bk_lru_prev b = pred_in ks k \<and> bk_lru_next b = succ_in ks k)"

text \<open>What a bucket holds besides its links.\<close>

definition rl_state :: "u32 \<Rightarrow> 'd limiter \<Rightarrow> (u32 \<times> u64 \<times> 'd) option" where
  "rl_state ip rl = map_option (\<lambda>b. (bk_tokens b, bk_last_update_us b, bk_ewma_pps b)) (rl_find ip rl)"

lemma rl_find_in: "rl_find k rl \<noteq> None \<longleftrightarrow> k \<in> fst ` set (rl_buckets rl)"
  by (simp add: rl_find_def map_of_eq_None_iff)

lemma rl_wf_find: "rl_wf rl ks \<Longrightarrow> k \<in> set ks \<longleftrightarrow> rl_find k rl \<noteq> None"
  unfolding rl_wf_def rl_find_in by blast

lemma rl_at_find:
  assumes "rl_find p rl = Some b"
  shows "\<exists>rl'. rl_at p f rl = Some rl' \<and> (\<forall>k. rl_find k rl' = (if k = p then Some (f b) else rl_find k rl)) \<and>
    map fst (rl_buckets rl') = map fst (rl_buckets rl) \<and> rl_lru_head rl' = rl_lru_head rl \<and>
    rl_lru_tail rl' = rl_lru_tail rl \<and> rl_config rl' = rl_config rl"
proof -
  have "p \<in> fst ` set (rl_buckets rl)" using assms rl_find_in [of p rl] by simp
  then show ?thesis
    using assms by (auto simp: rl_at_def rl_find_def update_conv' update_keys)
qed

lemma rl_update_simps [simp]:
  "rl_find k (rl\<lparr>rl_lru_head := h\<rparr>) = rl_find k rl" "rl_find k (rl\<lparr>rl_lru_tail := h\<rparr>) = rl_find k rl"
  by (simp_all add: rl_find_def)

text \<open>Removing a bucket from the chain, without removing it from the table.\<close>

lemma lru_remove_post:
  assumes wf: "rl_wf rl (xs @ k # ys)"
  shows "\<exists>rl'. lru_remove k rl = Some rl' \<and>
    (\<forall>j. rl_find j rl' = map_option (\<lambda>b. if j = k then b\<lparr>bk_lru_prev := None, bk_lru_next := None\<rparr>
       else b\<lparr>bk_lru_prev := pred_in (xs @ ys) j, bk_lru_next := succ_in (xs @ ys) j\<rparr>) (rl_find j rl)) \<and>
    map fst (rl_buckets rl') = map fst (rl_buckets rl) \<and> rl_lru_head rl' = hd_opt (xs @ ys) \<and>
    rl_lru_tail rl' = hd_opt (rev (xs @ ys)) \<and> rl_config rl' = rl_config rl"
proof -
  let ?ks = "xs @ k # ys"
  have d: "distinct ?ks" using wf by (simp add: rl_wf_def)
  have links: "bk_lru_prev b = pred_in ?ks j \<and> bk_lru_next b = succ_in ?ks j" if "rl_find j rl = Some b" for j b
    using wf that by (simp add: rl_wf_def)
  have inl: "rl_find j rl \<noteq> None" if "j \<in> set ?ks" for j using rl_wf_find [OF wf] that by blast
  obtain b where b: "rl_find k rl = Some b" using inl [of k] by auto
  have bk: "bk_lru_prev b = hd_opt (rev xs)" "bk_lru_next b = hd_opt ys"
    using links [OF b] d by (simp_all add: succ_in_at pred_in_at [of k ys xs] del: rev_append)
  have 1: "\<exists>rl1. (case hd_opt (rev xs) of Some p \<Rightarrow> rl_at p (bk_lru_next_update (\<lambda>_. hd_opt ys)) rl
           | None \<Rightarrow> Some (rl\<lparr>rl_lru_head := hd_opt ys\<rparr>)) = Some rl1 \<and>
    (\<forall>j. rl_find j rl1 = map_option (\<lambda>b. if hd_opt (rev xs) = Some j then b\<lparr>bk_lru_next := hd_opt ys\<rparr> else b) (rl_find j rl)) \<and>
    map fst (rl_buckets rl1) = map fst (rl_buckets rl) \<and> rl_lru_head rl1 = hd_opt (xs @ ys) \<and>
    rl_lru_tail rl1 = rl_lru_tail rl \<and> rl_config rl1 = rl_config rl"
  proof (cases xs rule: rev_cases)
    case Nil
    then show ?thesis by (simp add: option.map_ident)
  next
    case (snoc zs p)
    then obtain bp where bp: "rl_find p rl = Some bp" using inl [of p] by auto
    show ?thesis
      using rl_at_find [OF bp, of "bk_lru_next_update (\<lambda>_. hd_opt ys)"] bp wf snoc
      by (auto simp: rl_wf_def hd_opt_append option.map_ident)
  qed
  then obtain rl1 where rl1: "(case hd_opt (rev xs) of Some p \<Rightarrow> rl_at p (bk_lru_next_update (\<lambda>_. hd_opt ys)) rl
           | None \<Rightarrow> Some (rl\<lparr>rl_lru_head := hd_opt ys\<rparr>)) = Some rl1"
    "\<And>j. rl_find j rl1 = map_option (\<lambda>b. if hd_opt (rev xs) = Some j then b\<lparr>bk_lru_next := hd_opt ys\<rparr> else b) (rl_find j rl)"
    "map fst (rl_buckets rl1) = map fst (rl_buckets rl)" "rl_lru_head rl1 = hd_opt (xs @ ys)"
    "rl_lru_tail rl1 = rl_lru_tail rl" "rl_config rl1 = rl_config rl" by blast
  have 2: "\<exists>rl2. (case hd_opt ys of Some n \<Rightarrow> rl_at n (bk_lru_prev_update (\<lambda>_. hd_opt (rev xs))) rl1
           | None \<Rightarrow> Some (rl1\<lparr>rl_lru_tail := hd_opt (rev xs)\<rparr>)) = Some rl2 \<and>
    (\<forall>j. rl_find j rl2 = map_option (\<lambda>b. if hd_opt ys = Some j then b\<lparr>bk_lru_prev := hd_opt (rev xs)\<rparr> else b) (rl_find j rl1)) \<and>
    map fst (rl_buckets rl2) = map fst (rl_buckets rl) \<and> rl_lru_head rl2 = hd_opt (xs @ ys) \<and>
    rl_lru_tail rl2 = hd_opt (rev (xs @ ys)) \<and> rl_config rl2 = rl_config rl"
  proof (cases ys)
    case Nil
    then show ?thesis using rl1(3-) by (simp add: option.map_ident)
  next
    case (Cons n zs)
    then obtain bn where bn: "rl_find n rl1 = Some bn" using inl [of n] rl1(2) [of n] by auto
    show ?thesis
      using rl_at_find [OF bn, of "bk_lru_prev_update (\<lambda>_. hd_opt (rev xs))"] bn wf Cons rl1(3-)
      by (auto simp: rl_wf_def hd_opt_append option.map_ident)
  qed
  then obtain rl2 where rl2: "(case hd_opt ys of Some n \<Rightarrow> rl_at n (bk_lru_prev_update (\<lambda>_. hd_opt (rev xs))) rl1
           | None \<Rightarrow> Some (rl1\<lparr>rl_lru_tail := hd_opt (rev xs)\<rparr>)) = Some rl2"
    "\<And>j. rl_find j rl2 = map_option (\<lambda>b. if hd_opt ys = Some j then b\<lparr>bk_lru_prev := hd_opt (rev xs)\<rparr> else b) (rl_find j rl1)"
    "map fst (rl_buckets rl2) = map fst (rl_buckets rl)" "rl_lru_head rl2 = hd_opt (xs @ ys)"
    "rl_lru_tail rl2 = hd_opt (rev (xs @ ys))" "rl_config rl2 = rl_config rl" by blast
  have notk: "hd_opt ys \<noteq> Some k" "hd_opt (rev xs) \<noteq> Some k"
    using d by (auto simp: hd_opt_rev split: if_splits) (cases ys; simp)
  then have "rl_find k rl2 = Some b" using rl1(2) rl2(2) b by simp
  from rl_at_find [OF this, of "\<lambda>bk. bk\<lparr>bk_lru_prev := None, bk_lru_next := None\<rparr>"]
  obtain rl3 where rl3: "rl_at k (\<lambda>bk. bk\<lparr>bk_lru_prev := None, bk_lru_next := None\<rparr>) rl2 = Some rl3"
    "\<And>j. rl_find j rl3 = (if j = k then Some (b\<lparr>bk_lru_prev := None, bk_lru_next := None\<rparr>) else rl_find j rl2)"
    "map fst (rl_buckets rl3) = map fst (rl_buckets rl2)" "rl_lru_head rl3 = rl_lru_head rl2"
    "rl_lru_tail rl3 = rl_lru_tail rl2" "rl_config rl3 = rl_config rl2" by blast
  have "lru_remove k rl = Some rl3"
    by (simp add: lru_remove_def b bk rl1(1) rl2(1) rl3(1) cong: option.case_cong)
  moreover have "rl_find j rl3 = map_option (\<lambda>b. if j = k then b\<lparr>bk_lru_prev := None, bk_lru_next := None\<rparr>
       else b\<lparr>bk_lru_prev := pred_in (xs @ ys) j, bk_lru_next := succ_in (xs @ ys) j\<rparr>) (rl_find j rl)" for j
  proof (cases "j = k")
    case False
    show ?thesis
    proof (cases "rl_find j rl")
      case (Some bj)
      show ?thesis
        using links [OF Some] Some False
        by (simp add: rl3(2) rl2(2) rl1(2) succ_in_remove [OF d False] pred_in_remove [OF d False] del: rev_append)
    qed (simp add: rl3(2) rl2(2) rl1(2) False)
  qed (simp add: rl3(2) b)
  ultimately show ?thesis using rl2 rl3 by (intro exI [of _ rl3]) simp
qed

lemma lru_push_back_post:
  assumes "distinct ks" and "k \<notin> set ks" and "rl_find k rl = Some b" and ks: "\<forall>j\<in>set ks. rl_find j rl \<noteq> None"
    and "rl_lru_head rl = hd_opt ks" and "rl_lru_tail rl = hd_opt (rev ks)"
    and links: "\<forall>j bj. rl_find j rl = Some bj \<longrightarrow> j \<noteq> k \<longrightarrow>
       bk_ip bj = j \<and> bk_lru_prev bj = pred_in ks j \<and> bk_lru_next bj = succ_in ks j"
    and "distinct (map fst (rl_buckets rl))" and "insert k (set ks) = fst ` set (rl_buckets rl)" and "bk_ip b = k"
  shows "\<exists>rl'. lru_push_back k rl = Some rl' \<and> rl_wf rl' (ks @ [k]) \<and> rl_config rl' = rl_config rl \<and>
    (\<forall>j. rl_state j rl' = rl_state j rl) \<and> map fst (rl_buckets rl') = map fst (rl_buckets rl)"
proof -
  from rl_at_find [OF assms(3), of "\<lambda>bk. bk\<lparr>bk_lru_prev := rl_lru_tail rl, bk_lru_next := None\<rparr>"]
  obtain rl1 where rl1: "rl_at k (\<lambda>bk. bk\<lparr>bk_lru_prev := rl_lru_tail rl, bk_lru_next := None\<rparr>) rl = Some rl1"
    "\<And>j. rl_find j rl1 = (if j = k then Some (b\<lparr>bk_lru_prev := rl_lru_tail rl, bk_lru_next := None\<rparr>) else rl_find j rl)"
    "map fst (rl_buckets rl1) = map fst (rl_buckets rl)" "rl_lru_head rl1 = rl_lru_head rl"
    "rl_lru_tail rl1 = rl_lru_tail rl" "rl_config rl1 = rl_config rl" by blast
  have 2: "\<exists>rl2. (case rl_lru_tail rl1 of Some t \<Rightarrow> rl_at t (bk_lru_next_update (\<lambda>_. Some k)) rl1
           | None \<Rightarrow> Some (rl1\<lparr>rl_lru_head := Some k\<rparr>)) = Some rl2 \<and>
    (\<forall>j. rl_find j rl2 = map_option (\<lambda>b. if hd_opt (rev ks) = Some j then b\<lparr>bk_lru_next := Some k\<rparr> else b) (rl_find j rl1)) \<and>
    map fst (rl_buckets rl2) = map fst (rl_buckets rl) \<and> rl_lru_head rl2 = hd_opt (ks @ [k]) \<and> rl_config rl2 = rl_config rl"
  proof (cases ks rule: rev_cases)
    case Nil
    then show ?thesis using rl1(3-) assms(6) by (simp add: option.map_ident)
  next
    case (snoc zs t)
    then have "t \<noteq> k" using assms(2) by auto
    then obtain bt where bt: "rl_find t rl1 = Some bt" using ks snoc rl1(2) [of t] by auto
    show ?thesis
      using rl_at_find [OF bt, of "bk_lru_next_update (\<lambda>_. Some k)"] bt snoc rl1(3-) assms(5,6)
      by (auto simp: hd_opt_append option.map_ident)
  qed
  then obtain rl2 where rl2: "(case rl_lru_tail rl1 of Some t \<Rightarrow> rl_at t (bk_lru_next_update (\<lambda>_. Some k)) rl1
           | None \<Rightarrow> Some (rl1\<lparr>rl_lru_head := Some k\<rparr>)) = Some rl2"
    "\<And>j. rl_find j rl2 = map_option (\<lambda>b. if hd_opt (rev ks) = Some j then b\<lparr>bk_lru_next := Some k\<rparr> else b) (rl_find j rl1)"
    "map fst (rl_buckets rl2) = map fst (rl_buckets rl)" "rl_lru_head rl2 = hd_opt (ks @ [k])" "rl_config rl2 = rl_config rl"
    by blast
  let ?rl = "rl2\<lparr>rl_lru_tail := Some k\<rparr>"
  have push: "lru_push_back k rl = Some ?rl" using rl1(1) rl2(1) by (simp add: lru_push_back_def)
  have notk: "hd_opt (rev ks) \<noteq> Some k" using assms(2) by (auto simp: hd_opt_rev)
  have find: "rl_find j ?rl = (if j = k then Some (b\<lparr>bk_lru_prev := hd_opt (rev ks), bk_lru_next := None\<rparr>)
      else map_option (\<lambda>b. if hd_opt (rev ks) = Some j then b\<lparr>bk_lru_next := Some k\<rparr> else b) (rl_find j rl))" for j
    using notk by (simp add: rl2(2) rl1(2) assms(6))
  have "rl_wf ?rl (ks @ [k])"
    unfolding rl_wf_def
  proof (intro conjI allI impI)
    fix j bj assume j: "rl_find j ?rl = Some bj"
    have "bk_ip bj = j \<and> bk_lru_prev bj = pred_in (ks @ [k]) j \<and> bk_lru_next bj = succ_in (ks @ [k]) j"
    proof (cases "j = k")
      case True
      then have "bj = b\<lparr>bk_lru_prev := hd_opt (rev ks), bk_lru_next := None\<rparr>" using j find [of j] by simp
      then show ?thesis using True assms(10) succ_in_snoc [OF assms(1,2), of j] pred_in_snoc [OF assms(2), of j] by simp
    next
      case False
      then obtain b0 where b0: "rl_find j rl = Some b0" "bj = (if hd_opt (rev ks) = Some j then b0\<lparr>bk_lru_next := Some k\<rparr> else b0)"
        using j find [of j] by (cases "rl_find j rl") auto
      then show ?thesis
        using False links succ_in_snoc [OF assms(1,2), of j] pred_in_snoc [OF assms(2), of j] by (simp split: if_splits)
    qed
    then show "bk_ip bj = j" "bk_lru_prev bj = pred_in (ks @ [k]) j" "bk_lru_next bj = succ_in (ks @ [k]) j" by simp_all
  qed (use assms(1,2,8,9) rl2(3,4) in \<open>auto simp flip: set_map\<close>)
  moreover have "rl_state j ?rl = rl_state j rl" for j
    using assms(3) find [of j] by (cases "rl_find j rl") (auto simp: rl_state_def)
  ultimately show ?thesis using push rl2(3,5) by (intro exI [of _ ?rl]) simp
qed

lemma lru_move_to_tail_post:
  assumes wf: "rl_wf rl ks" and "k \<in> set ks"
  shows "\<exists>rl'. lru_move_to_tail k rl = Some rl' \<and> rl_wf rl' (remove1 k ks @ [k]) \<and> rl_config rl' = rl_config rl \<and>
    (\<forall>j. rl_state j rl' = rl_state j rl) \<and> map fst (rl_buckets rl') = map fst (rl_buckets rl)"
proof -
  have d: "distinct ks" using wf by (simp add: rl_wf_def)
  show ?thesis
  proof (cases "rl_lru_tail rl = Some k")
    case True
    then obtain xs where xs: "ks = xs @ [k]" using wf by (cases ks rule: rev_cases) (auto simp: rl_wf_def)
    then have "remove1 k ks @ [k] = ks" using d by (simp add: remove1_append)
    then show ?thesis using True wf by (simp add: lru_move_to_tail_def)
  next
    case False
    obtain xs ys where ks: "ks = xs @ k # ys" "k \<notin> set xs" using assms(2) by (auto dest: split_list_first)
    obtain rl1 where r: "lru_remove k rl = Some rl1"
      "\<And>j. rl_find j rl1 = map_option (\<lambda>b. if j = k then b\<lparr>bk_lru_prev := None, bk_lru_next := None\<rparr>
         else b\<lparr>bk_lru_prev := pred_in (xs @ ys) j, bk_lru_next := succ_in (xs @ ys) j\<rparr>) (rl_find j rl)"
      "map fst (rl_buckets rl1) = map fst (rl_buckets rl)" "rl_lru_head rl1 = hd_opt (xs @ ys)"
      "rl_lru_tail rl1 = hd_opt (rev (xs @ ys))" "rl_config rl1 = rl_config rl"
      using lru_remove_post [of rl xs k ys] wf ks(1) by blast
    obtain b where b: "rl_find k rl = Some b" using rl_wf_find [OF wf, of k] assms(2) by auto
    have keys: "set ks = fst ` set (rl_buckets rl1)" using wf r(3) by (metis rl_wf_def set_map)
    have "\<exists>rl'. lru_push_back k rl1 = Some rl' \<and> rl_wf rl' ((xs @ ys) @ [k]) \<and> rl_config rl' = rl_config rl1 \<and>
        (\<forall>j. rl_state j rl' = rl_state j rl1) \<and> map fst (rl_buckets rl') = map fst (rl_buckets rl1)"
    proof (rule lru_push_back_post [where b = "b\<lparr>bk_lru_prev := None, bk_lru_next := None\<rparr>"])
      show "\<forall>j\<in>set (xs @ ys). rl_find j rl1 \<noteq> None" using rl_wf_find [OF wf] ks(1) r(2) by auto
      show "\<forall>j bj. rl_find j rl1 = Some bj \<longrightarrow> j \<noteq> k \<longrightarrow>
         bk_ip bj = j \<and> bk_lru_prev bj = pred_in (xs @ ys) j \<and> bk_lru_next bj = succ_in (xs @ ys) j"
        using wf by (auto simp: r(2) rl_wf_def simp del: rev_append)
      show "insert k (set (xs @ ys)) = fst ` set (rl_buckets rl1)" using keys ks(1) by auto
      show "bk_ip (b\<lparr>bk_lru_prev := None, bk_lru_next := None\<rparr>) = k" using b wf by (simp add: rl_wf_def)
    qed (use d ks r b wf in \<open>auto simp: rl_wf_def\<close>)
    moreover have "rl_state j rl1 = rl_state j rl" for j by (cases "rl_find j rl") (simp_all add: rl_state_def r(2))
    moreover have "remove1 k ks = xs @ ys" using ks by (simp add: remove1_append)
    ultimately show ?thesis using False r(1,3,6) by (auto simp: lru_move_to_tail_def)
  qed
qed

text \<open>Taking a bucket out of chain and table.\<close>

lemma lru_delete_post:
  assumes wf: "rl_wf rl (xs @ k # ys)"
  shows "\<exists>rl1. lru_remove k rl = Some rl1 \<and> rl_wf (rl1\<lparr>rl_buckets := AList.delete k (rl_buckets rl1)\<rparr>) (xs @ ys) \<and>
    rl_config rl1 = rl_config rl \<and>
    (\<forall>j. rl_state j (rl1\<lparr>rl_buckets := AList.delete k (rl_buckets rl1)\<rparr>) = (if j = k then None else rl_state j rl))"
proof -
  obtain rl1 where r: "lru_remove k rl = Some rl1"
      "\<And>j. rl_find j rl1 = map_option (\<lambda>b. if j = k then b\<lparr>bk_lru_prev := None, bk_lru_next := None\<rparr>
         else b\<lparr>bk_lru_prev := pred_in (xs @ ys) j, bk_lru_next := succ_in (xs @ ys) j\<rparr>) (rl_find j rl)"
      "map fst (rl_buckets rl1) = map fst (rl_buckets rl)" "rl_lru_head rl1 = hd_opt (xs @ ys)"
      "rl_lru_tail rl1 = hd_opt (rev (xs @ ys))" "rl_config rl1 = rl_config rl"
    using lru_remove_post [OF wf] by blast
  let ?rl = "rl1\<lparr>rl_buckets := AList.delete k (rl_buckets rl1)\<rparr>"
  have find: "rl_find j ?rl = (if j = k then None else rl_find j rl1)" for j
    by (simp add: rl_find_def delete_conv')
  have d: "distinct (xs @ k # ys)" "distinct (map fst (rl_buckets rl))" "set (xs @ k # ys) = fst ` set (rl_buckets rl)"
    using wf by (simp_all add: rl_wf_def)
  have "set (xs @ ys) = fst ` set (AList.delete k (rl_buckets rl1))"
  proof -
    have "fst ` set (rl_buckets rl1) = set (xs @ k # ys)" using d(3) r(3) by (metis set_map)
    then show ?thesis using d(1) by (simp add: set_map [symmetric] delete_keys del: set_map)
  qed
  moreover have "distinct (map fst (AList.delete k (rl_buckets rl1)))" using d(2) r(3) by (simp add: distinct_delete)
  ultimately have "rl_wf ?rl (xs @ ys)"
    using d(1) r(4,5) wf unfolding rl_wf_def find r(2) by (auto simp del: rev_append split: if_splits)
  moreover have "rl_state j ?rl = (if j = k then None else rl_state j rl)" for j
    by (cases "rl_find j rl") (simp_all add: rl_state_def find r(2))
  ultimately show ?thesis using r(1,6) by blast
qed

lemma rl_wf_length: "rl_wf rl ks \<Longrightarrow> length (rl_buckets rl) = length ks"
proof -
  assume wf: "rl_wf rl ks"
  then have "distinct ks" by (simp add: rl_wf_def)
  then have "length ks = card (set ks)" by (rule distinct_card [symmetric])
  also have "set ks = set (map fst (rl_buckets rl))" using wf by (simp add: rl_wf_def)
  also have "card \<dots> = length (map fst (rl_buckets rl))" using wf by (intro distinct_card) (simp add: rl_wf_def)
  finally show ?thesis by simp
qed

lemma evict_loop_post:
  "rl_wf rl ks \<Longrightarrow> \<exists>rl'. evict_loop n rl = Some rl' \<and> rl_wf rl' (drop n ks) \<and> rl_config rl' = rl_config rl \<and>
     (\<forall>j. rl_state j rl' = (if j \<in> set (drop n ks) then rl_state j rl else None))"
proof (induction n arbitrary: rl ks)
  case 0
  then have "rl_state j rl = None" if "j \<notin> set ks" for j
    using that rl_wf_find [of rl ks j] by (simp add: rl_state_def)
  then show ?case using 0 by simp
next
  case (Suc n)
  show ?case
  proof (cases ks)
    case Nil
    then have "rl_state j rl = None" for j using Suc.prems rl_wf_find [of rl ks j] by (simp add: rl_state_def)
    then show ?thesis using Nil Suc.prems by (simp add: rl_wf_def)
  next
    case (Cons k ys)
    then have head: "rl_lru_head rl = Some k" using Suc.prems by (simp add: rl_wf_def)
    obtain v where v: "rl_find k rl = Some v" "bk_ip v = k"
      using rl_wf_find [OF Suc.prems, of k] Cons Suc.prems by (auto simp: rl_wf_def)
    have "rl_wf rl ([] @ k # ys)" using Suc.prems Cons by simp
    from lru_delete_post [OF this] obtain rl1 where r: "lru_remove k rl = Some rl1"
      "rl_wf (rl1\<lparr>rl_buckets := AList.delete k (rl_buckets rl1)\<rparr>) ys" "rl_config rl1 = rl_config rl"
      "\<And>j. rl_state j (rl1\<lparr>rl_buckets := AList.delete k (rl_buckets rl1)\<rparr>) = (if j = k then None else rl_state j rl)"
      by auto
    have nk: "k \<notin> set (drop n ys)" using Suc.prems Cons in_set_dropD [of k n ys] by (auto simp: rl_wf_def)
    from Suc.IH [OF r(2)] obtain rl' where rl': "evict_loop n (rl1\<lparr>rl_buckets := AList.delete k (rl_buckets rl1)\<rparr>) = Some rl'"
      "rl_wf rl' (drop n ys)" "rl_config rl' = rl_config rl1"
      "\<forall>j. rl_state j rl' = (if j \<in> set (drop n ys) then rl_state j (rl1\<lparr>rl_buckets := AList.delete k (rl_buckets rl1)\<rparr>) else None)"
      by auto
    have "evict_loop (Suc n) rl = Some rl'" using head v r(1) rl'(1) by simp
    moreover have "\<forall>j. rl_state j rl' = (if j \<in> set (drop (Suc n) ks) then rl_state j rl else None)"
      using rl'(4) r(4) nk Cons by simp
    ultimately show ?thesis using rl'(2,3) r(3) Cons by simp
  qed
qed

section \<open>The limiter as a list of buckets\<close>

text \<open>Tokens, time of the last update and moving average of each address, least recently seen first.\<close>

type_synonym 'd bucket_state = "u32 \<times> u64 \<times> 'd"

definition bucket_check :: "'d rate_math \<Rightarrow> rl_config \<Rightarrow> u64 \<Rightarrow> 'd bucket_state \<Rightarrow> bool \<times> 'd bucket_state" where
  "bucket_check M cfg now = (\<lambda>(tokens, last_us, ewma).
     let tokens = refill cfg last_us now tokens;
         ewma = (if now - last_us > 0 then rm_ewma M (now - last_us) ewma else ewma)
     in if tokens > 0 then (True, tokens - 1, now, ewma) else (False, tokens, now, ewma))"

definition spec_bucket :: "'d rate_math \<Rightarrow> rl_config \<Rightarrow> u32 \<Rightarrow> u64 \<Rightarrow> (u32 \<times> 'd bucket_state) list \<Rightarrow> 'd bucket_state" where
  "spec_bucket M cfg ip now xs =
     (case map_of xs ip of Some st \<Rightarrow> st | None \<Rightarrow> (cf_burst_size cfg, now, rm_zero M))"

definition spec_kept :: "u32 \<Rightarrow> (u32 \<times> 'd bucket_state) list \<Rightarrow> (u32 \<times> 'd bucket_state) list" where
  "spec_kept ip xs = (if map_of xs ip = None \<and> length xs \<ge> MAX_TRACKED_IPS then drop (length xs div 4) xs else xs)"

definition spec_check ::
  "'d rate_math \<Rightarrow> rl_config \<Rightarrow> u32 \<Rightarrow> u64 \<Rightarrow> (u32 \<times> 'd bucket_state) list \<Rightarrow> bool \<times> (u32 \<times> 'd bucket_state) list" where
  "spec_check M cfg ip now xs =
     (case bucket_check M cfg now (spec_bucket M cfg ip now xs) of (ok, st) \<Rightarrow>
        (ok, filter (\<lambda>(k, _). k \<noteq> ip) (spec_kept ip xs) @ [(ip, st)]))"

definition rl_abs :: "'d limiter \<Rightarrow> u32 list \<Rightarrow> (u32 \<times> 'd bucket_state) list" where
  "rl_abs rl ks = map (\<lambda>k. (k, the (rl_state k rl))) ks"

definition limiter_is :: "'d limiter \<Rightarrow> (u32 \<times> 'd bucket_state) list \<Rightarrow> bool" where
  "limiter_is rl xs \<longleftrightarrow> (\<exists>ks. rl_wf rl ks \<and> xs = rl_abs rl ks \<and> length xs \<le> MAX_TRACKED_IPS)"

lemma map_of_abs: "rl_wf rl ks \<Longrightarrow> map_of (rl_abs rl ks) k = rl_state k rl"
proof -
  assume wf: "rl_wf rl ks"
  have "map_of (map (\<lambda>k. (k, the (rl_state k rl))) xs) k = (if k \<in> set xs then Some (the (rl_state k rl)) else None)" for xs
    by (induction xs) auto
  then show ?thesis using rl_wf_find [OF wf, of k] by (auto simp: rl_abs_def rl_state_def)
qed

lemma create_post:
  assumes wf: "rl_wf rl ks" and len: "length ks \<le> MAX_TRACKED_IPS"
  shows "\<exists>rl' ks'. get_or_create_bucket M ip now rl = Some rl' \<and> rl_wf rl' ks' \<and> ip \<in> set ks' \<and> rl_config rl' = rl_config rl \<and>
    remove1 ip ks' = remove1 ip (if ip \<notin> set ks \<and> length ks \<ge> MAX_TRACKED_IPS then drop (length ks div 4) ks else ks) \<and>
    (\<forall>j \<in> set ks' - {ip}. rl_state j rl' = rl_state j rl) \<and>
    rl_state ip rl' = Some (spec_bucket M (rl_config rl) ip now (rl_abs rl ks)) \<and> length (remove1 ip ks') < MAX_TRACKED_IPS"
proof (cases "rl_find ip rl")
  case (Some b)
  then have "ip \<in> set ks" using rl_wf_find [OF wf] by simp
  moreover have "length ks - Suc 0 < MAX_TRACKED_IPS" using len by (simp add: MAX_TRACKED_IPS_def)
  ultimately show ?thesis
    using Some wf len map_of_abs [OF wf, of ip]
    by (intro exI [of _ rl] exI [of _ ks]) (auto simp: get_or_create_bucket_def spec_bucket_def rl_state_def length_remove1)
next
  case None
  then have ip: "ip \<notin> set ks" "rl_state ip rl = None" using rl_wf_find [OF wf] by (simp_all add: rl_state_def)
  define n where "n = (if length ks \<ge> MAX_TRACKED_IPS then length ks div 4 else 0)"
  have "\<exists>rl1. (if length (rl_buckets rl) \<ge> MAX_TRACKED_IPS then evict_lru rl else Some rl) = Some rl1 \<and> rl_wf rl1 (drop n ks) \<and>
      rl_config rl1 = rl_config rl \<and> (\<forall>j. rl_state j rl1 = (if j \<in> set (drop n ks) then rl_state j rl else None))"
  proof (cases "length ks \<ge> MAX_TRACKED_IPS")
    case True
    then have "length ks div 4 \<noteq> 0" by (simp add: MAX_TRACKED_IPS_def)
    then show ?thesis
      using True evict_loop_post [OF wf, of n] by (simp add: evict_lru_def Let_def rl_wf_length [OF wf] n_def)
  next
    case False
    then show ?thesis using wf rl_wf_find [OF wf] by (auto simp: n_def rl_wf_length [OF wf] rl_state_def)
  qed
  then obtain rl1 where rl1: "(if length (rl_buckets rl) \<ge> MAX_TRACKED_IPS then evict_lru rl else Some rl) = Some rl1"
    "rl_wf rl1 (drop n ks)" "rl_config rl1 = rl_config rl"
    "\<And>j. rl_state j rl1 = (if j \<in> set (drop n ks) then rl_state j rl else None)" by blast
  have ip': "ip \<notin> set (drop n ks)" using ip(1) in_set_dropD [of ip n ks] by blast
  then have "ip \<notin> fst ` set (rl_buckets rl1)" using rl1(2) by (simp add: rl_wf_def)
  define b where "b = \<lparr>bk_tokens = cf_burst_size (rl_config rl), bk_last_update_us = now, bk_ewma_pps = rm_zero M, bk_ip = ip,
            bk_lru_prev = None, bk_lru_next = None\<rparr>"
  define rl2 where "rl2 = rl1\<lparr>rl_buckets := AList.update ip b (rl_buckets rl1)\<rparr>"
  have find: "rl_find j rl2 = (if j = ip then Some b else rl_find j rl1)" for j
    by (simp add: rl_find_def rl2_def update_conv')
  have keys: "map fst (rl_buckets rl2) = map fst (rl_buckets rl1) @ [ip]"
    using \<open>ip \<notin> fst ` set (rl_buckets rl1)\<close> by (simp add: rl2_def update_keys)
  have "\<exists>rl'. lru_push_back ip rl2 = Some rl' \<and> rl_wf rl' (drop n ks @ [ip]) \<and> rl_config rl' = rl_config rl2 \<and>
    (\<forall>j. rl_state j rl' = rl_state j rl2) \<and> map fst (rl_buckets rl') = map fst (rl_buckets rl2)"
  proof (rule lru_push_back_post [where b = b])
    show "\<forall>j\<in>set (drop n ks). rl_find j rl2 \<noteq> None" using rl_wf_find [OF rl1(2)] find by simp
    show "\<forall>j bj. rl_find j rl2 = Some bj \<longrightarrow> j \<noteq> ip \<longrightarrow>
       bk_ip bj = j \<and> bk_lru_prev bj = pred_in (drop n ks) j \<and> bk_lru_next bj = succ_in (drop n ks) j"
      using rl1(2) by (simp add: find rl_wf_def)
    show "distinct (map fst (rl_buckets rl2))" "insert ip (set (drop n ks)) = fst ` set (rl_buckets rl2)"
      unfolding set_map [symmetric] keys using rl1(2) \<open>ip \<notin> fst ` set (rl_buckets rl1)\<close> by (auto simp: rl_wf_def)
  qed (use ip' rl1(2) find in \<open>simp_all add: rl_wf_def rl2_def b_def\<close>)
  then obtain rl' where rl': "lru_push_back ip rl2 = Some rl'" "rl_wf rl' (drop n ks @ [ip])" "rl_config rl' = rl_config rl2"
    "\<And>j. rl_state j rl' = rl_state j rl2" by blast
  have "get_or_create_bucket M ip now rl = Some rl'"
    using None rl1(1) rl'(1) rl1(3) by (simp add: get_or_create_bucket_def rl2_def b_def)
  moreover have "rl_state j rl' = rl_state j rl" if "j \<in> set (drop n ks)" for j
  proof -
    have "rl_state j rl2 = rl_state j rl1" using that ip' by (auto simp: rl_state_def find)
    then show ?thesis using that rl1(4) by (simp add: rl'(4))
  qed
  moreover have "rl_state ip rl' = Some (spec_bucket M (rl_config rl) ip now (rl_abs rl ks))"
  proof -
    have "rl_state ip rl2 = Some (cf_burst_size (rl_config rl), now, rm_zero M)" by (simp add: rl_state_def find b_def)
    then show ?thesis using ip(2) by (simp add: rl'(4) spec_bucket_def map_of_abs [OF wf])
  qed
  moreover have "length (drop n ks) < MAX_TRACKED_IPS" using len by (simp add: n_def MAX_TRACKED_IPS_def)
  ultimately show ?thesis
    using rl'(2,3) rl1(3) ip' ip(1) remove1_idem [OF ip']
    by (intro exI [of _ rl'] exI [of _ "drop n ks @ [ip]"]) (auto simp: rl2_def remove1_append n_def remove1_idem)
qed

lemma rl_at_data:
  assumes wf: "rl_wf rl ks" and b: "rl_find p rl = Some b"
    and f: "bk_ip (f b) = bk_ip b" "bk_lru_prev (f b) = bk_lru_prev b" "bk_lru_next (f b) = bk_lru_next b"
  shows "\<exists>rl'. rl_at p f rl = Some rl' \<and> rl_wf rl' ks \<and> rl_config rl' = rl_config rl \<and> rl_find p rl' = Some (f b) \<and>
    (\<forall>j. j \<noteq> p \<longrightarrow> rl_state j rl' = rl_state j rl)"
proof -
  obtain rl' where r: "rl_at p f rl = Some rl'" "\<And>k. rl_find k rl' = (if k = p then Some (f b) else rl_find k rl)"
    "map fst (rl_buckets rl') = map fst (rl_buckets rl)" "rl_lru_head rl' = rl_lru_head rl"
    "rl_lru_tail rl' = rl_lru_tail rl" "rl_config rl' = rl_config rl"
    using rl_at_find [OF b, of f] by blast
  have "fst ` set (rl_buckets rl') = fst ` set (rl_buckets rl)" using arg_cong [OF r(3), of set] by simp
  then have "rl_wf rl' ks"
    using wf b f unfolding rl_wf_def r(2-5) by (auto split: if_splits)
  moreover have "rl_state j rl' = rl_state j rl" if "j \<noteq> p" for j using that by (simp add: rl_state_def r(2))
  moreover have "rl_find p rl' = Some (f b)" by (simp add: r(2))
  ultimately show ?thesis using r(1,6) by blast
qed

lemma filter_abs: "distinct ks \<Longrightarrow> filter (\<lambda>(k, _). k \<noteq> ip) (rl_abs rl ks) = rl_abs rl (remove1 ip ks)"
  by (simp add: rl_abs_def filter_map comp_def distinct_remove1_removeAll removeAll_filter_not_eq eq_commute)

text \<open>One call of \<open>check\<close>, on the chained buckets and on the list.\<close>

lemma rl_check_post:
  assumes wf: "rl_wf rl ks" and len: "length ks \<le> MAX_TRACKED_IPS" and on: "cf_enabled (rl_config rl)"
  shows "\<exists>r rl' ks'. rl_check M ip now rl = Some (r, rl') \<and> rl_wf rl' ks' \<and> rl_config rl' = rl_config rl \<and>
    length ks' \<le> MAX_TRACKED_IPS \<and> (rr_allowed r, rl_abs rl' ks') = spec_check M (rl_config rl) ip now (rl_abs rl ks)"
proof -
  let ?st = "spec_bucket M (rl_config rl) ip now (rl_abs rl ks)"
  obtain rl1 ks1 where c: "get_or_create_bucket M ip now rl = Some rl1" "rl_wf rl1 ks1" "ip \<in> set ks1" "rl_config rl1 = rl_config rl"
    "remove1 ip ks1 = remove1 ip (if ip \<notin> set ks \<and> length ks \<ge> MAX_TRACKED_IPS then drop (length ks div 4) ks else ks)"
    "\<forall>j \<in> set ks1 - {ip}. rl_state j rl1 = rl_state j rl" "rl_state ip rl1 = Some ?st" "length (remove1 ip ks1) < MAX_TRACKED_IPS"
    using create_post [OF wf len, of M ip now] by blast
  have kept: "filter (\<lambda>(k, _). k \<noteq> ip) (spec_kept ip (rl_abs rl ks)) = rl_abs rl (remove1 ip ks1)"
  proof -
    have "spec_kept ip (rl_abs rl ks) = rl_abs rl (if ip \<notin> set ks \<and> length ks \<ge> MAX_TRACKED_IPS then drop (length ks div 4) ks else ks)"
      using rl_wf_find [OF wf, of ip] by (simp add: spec_kept_def map_of_abs [OF wf] rl_state_def) (simp add: rl_abs_def drop_map)
    then show ?thesis using wf by (subst c(5)) (simp add: filter_abs rl_wf_def)
  qed
  obtain b where b: "rl_find ip rl1 = Some b" "?st = (bk_tokens b, bk_last_update_us b, bk_ewma_pps b)"
    using c(7) by (auto simp: rl_state_def)
  let ?f = "update_bucket M (rl_config rl) now"
  have f: "bk_ip (?f b) = bk_ip b" "bk_lru_prev (?f b) = bk_lru_prev b" "bk_lru_next (?f b) = bk_lru_next b"
    by (simp_all add: update_bucket_def Let_def)
  obtain rl2 where rl2: "rl_at ip ?f rl1 = Some rl2" "rl_wf rl2 ks1" "rl_config rl2 = rl_config rl1"
    "rl_find ip rl2 = Some (?f b)" "\<And>j. j \<noteq> ip \<Longrightarrow> rl_state j rl2 = rl_state j rl1"
    using rl_at_data [where f = ?f, OF c(2) b(1) f] by blast
  let ?ks = "remove1 ip ks1 @ [ip]"
  obtain rl3 where rl3: "lru_move_to_tail ip rl2 = Some rl3" "rl_wf rl3 ?ks" "rl_config rl3 = rl_config rl2"
    "\<And>j. rl_state j rl3 = rl_state j rl2"
    using lru_move_to_tail_post [OF rl2(2) c(3)] by blast
  obtain b3 where b3: "rl_find ip rl3 = Some b3" using rl_wf_find [OF rl3(2), of ip] by auto
  have data: "bk_tokens b3 = bk_tokens (?f b)" "bk_last_update_us b3 = bk_last_update_us (?f b)" "bk_ewma_pps b3 = bk_ewma_pps (?f b)"
    using rl3(4) [of ip] by (simp_all add: rl_state_def b3 rl2(4))
  have others: "rl_state j rl3 = rl_state j rl" if "j \<in> set (remove1 ip ks1)" for j
  proof -
    have "j \<in> set ks1 - {ip}" using that c(2) by (auto simp: rl_wf_def)
    then show ?thesis using c(6) by (simp add: rl3(4) rl2(5))
  qed
  have abs: "rl_abs rl' ?ks = rl_abs rl (remove1 ip ks1) @ [(ip, st)]"
    if "\<And>j. j \<noteq> ip \<Longrightarrow> rl_state j rl' = rl_state j rl3" "rl_state ip rl' = Some st" for rl' st
  proof -
    have "ip \<notin> set (remove1 ip ks1)" using c(2) by (simp add: rl_wf_def)
    then have "rl_state j rl' = rl_state j rl" if "j \<in> set (remove1 ip ks1)" for j
      using that \<open>\<And>j. j \<noteq> ip \<Longrightarrow> rl_state j rl' = rl_state j rl3\<close> [of j] others [of j] by (cases "j = ip") auto
    then show ?thesis using that(2) by (simp add: rl_abs_def)
  qed
  have len': "length ?ks \<le> MAX_TRACKED_IPS" using c(8) by simp
  have upd: "bk_tokens (?f b) = refill (rl_config rl) (bk_last_update_us b) now (bk_tokens b)" "bk_last_update_us (?f b) = now"
    "bk_ewma_pps (?f b) = (if now - bk_last_update_us b > 0 then rm_ewma M (now - bk_last_update_us b) (bk_ewma_pps b) else bk_ewma_pps b)"
    by (simp_all add: update_bucket_def Let_def)
  have start: "get_or_create_bucket M ip now rl = Some rl1" "rl_at ip (update_bucket M (rl_config rl1) now) rl1 = Some rl2"
    using c(1,4) rl2(1) by simp_all
  show ?thesis
  proof (cases "bk_tokens b3 > 0")
    case False
    have "rl_state ip rl3 = Some (bk_tokens (?f b), now, bk_ewma_pps (?f b))" by (simp add: rl_state_def b3 data upd(2))
    from abs [OF _ this] have "rl_abs rl3 ?ks = rl_abs rl (remove1 ip ks1) @ [(ip, bk_tokens (?f b), now, bk_ewma_pps (?f b))]" by simp
    then have "(False, rl_abs rl3 ?ks) = spec_check M (rl_config rl) ip now (rl_abs rl ks)"
      using False unfolding spec_check_def b(2) bucket_check_def kept by (simp add: Let_def data(1) upd)
    moreover have "rl_check M ip now rl = Some (\<lparr>rr_allowed = False, rr_current_pps = rm_pps M (bk_ewma_pps b3),
        rr_limit_pps = cf_packets_per_second (rl_config rl), rr_tokens_left = 0\<rparr>, rl3)"
      using on False start rl3(1) b3 by (simp add: rl_check_def)
    ultimately show ?thesis using rl3(2,3) rl2(3) c(4) len' by (intro exI [of _ "\<lparr>rr_allowed = False, rr_current_pps = rm_pps M (bk_ewma_pps b3),
        rr_limit_pps = cf_packets_per_second (rl_config rl), rr_tokens_left = 0\<rparr>"] exI [of _ rl3] exI [of _ ?ks]) simp
  next
    case True
    obtain rl4 where rl4: "rl_at ip (\<lambda>b. b\<lparr>bk_tokens := bk_tokens b - 1\<rparr>) rl3 = Some rl4" "rl_wf rl4 ?ks"
      "rl_config rl4 = rl_config rl3" "rl_find ip rl4 = Some (b3\<lparr>bk_tokens := bk_tokens b3 - 1\<rparr>)"
      "\<And>j. j \<noteq> ip \<Longrightarrow> rl_state j rl4 = rl_state j rl3"
      using rl_at_data [where f = "\<lambda>b. b\<lparr>bk_tokens := bk_tokens b - 1\<rparr>", OF rl3(2) b3] by auto
    have "rl_state ip rl4 = Some (bk_tokens (?f b) - 1, now, bk_ewma_pps (?f b))" by (simp add: rl_state_def rl4(4) data upd(2))
    from abs [OF rl4(5) this] have "rl_abs rl4 ?ks = rl_abs rl (remove1 ip ks1) @ [(ip, bk_tokens (?f b) - 1, now, bk_ewma_pps (?f b))]" .
    then have "(True, rl_abs rl4 ?ks) = spec_check M (rl_config rl) ip now (rl_abs rl ks)"
      using True unfolding spec_check_def b(2) bucket_check_def kept by (simp add: Let_def data(1) upd)
    moreover have "rl_check M ip now rl = Some (\<lparr>rr_allowed = True, rr_current_pps = rm_pps M (bk_ewma_pps b3),
        rr_limit_pps = cf_packets_per_second (rl_config rl), rr_tokens_left = bk_tokens b3 - 1\<rparr>, rl4)"
      using on True start rl3(1) b3 rl4(1) by (simp add: rl_check_def)
    ultimately show ?thesis using rl4(2,3) rl3(3) rl2(3) c(4) len' by (intro exI [of _ "\<lparr>rr_allowed = True, rr_current_pps = rm_pps M (bk_ewma_pps b3),
        rr_limit_pps = cf_packets_per_second (rl_config rl), rr_tokens_left = bk_tokens b3 - 1\<rparr>"] exI [of _ rl4] exI [of _ ?ks]) simp
  qed
qed

lemma limiter_isE:
  assumes "limiter_is rl xs"
  obtains ks where "rl_wf rl ks" "xs = rl_abs rl ks" "length ks \<le> MAX_TRACKED_IPS"
  using assms by (auto simp: limiter_is_def rl_abs_def)

lemma limiter_check:
  assumes "limiter_is rl xs" and on: "cf_enabled (rl_config rl)"
  shows "\<exists>r rl'. rl_check M ip now rl = Some (r, rl') \<and> rr_allowed r = fst (spec_check M (rl_config rl) ip now xs) \<and>
         limiter_is rl' (snd (spec_check M (rl_config rl) ip now xs)) \<and> rl_config rl' = rl_config rl"
proof -
  obtain ks where ks: "rl_wf rl ks" "xs = rl_abs rl ks" "length ks \<le> MAX_TRACKED_IPS"
    using assms(1) by (rule limiter_isE)
  obtain r rl' ks' where r: "rl_check M ip now rl = Some (r, rl')" "rl_wf rl' ks'" "rl_config rl' = rl_config rl"
    "length ks' \<le> MAX_TRACKED_IPS" "(rr_allowed r, rl_abs rl' ks') = spec_check M (rl_config rl) ip now xs"
    using rl_check_post [OF ks(1,3) on, of M ip now] ks(2) by blast
  then have "limiter_is rl' (snd (spec_check M (rl_config rl) ip now xs))"
    by (auto simp: limiter_is_def rl_abs_def simp flip: r(5) intro!: exI [of _ ks'])
  then show ?thesis using r(1,3) by (auto simp flip: r(5))
qed

lemma rate_limiter_total:
  "limiter_is rl xs \<Longrightarrow> cf_enabled (rl_config rl) \<Longrightarrow> \<exists>r rl'. rl_check M ip now rl = Some (r, rl') \<and> (\<exists>xs. limiter_is rl' xs)"
  using limiter_check by blast

lemma rate_limiter_reset:
  assumes "limiter_is rl xs"
  shows "\<exists>rl'. rl_reset ip rl = Some rl' \<and> limiter_is rl' (filter (\<lambda>(k, _). k \<noteq> ip) xs)"
proof -
  obtain ks where ks: "rl_wf rl ks" "xs = rl_abs rl ks" "length ks \<le> MAX_TRACKED_IPS"
    using assms(1) by (rule limiter_isE)
  show ?thesis
  proof (cases "ip \<in> set ks")
    case True
    then obtain ys zs where yz: "ks = ys @ ip # zs" "ip \<notin> set ys" by (auto dest: split_list_first)
    obtain rl1 where d: "lru_remove ip rl = Some rl1" "rl_wf (rl1\<lparr>rl_buckets := AList.delete ip (rl_buckets rl1)\<rparr>) (ys @ zs)"
      "\<And>j. rl_state j (rl1\<lparr>rl_buckets := AList.delete ip (rl_buckets rl1)\<rparr>) = (if j = ip then None else rl_state j rl)"
      using lru_delete_post [of rl ys ip zs] ks(1) yz(1) by blast
    have "distinct ks" using ks(1) by (simp add: rl_wf_def)
    then have "filter (\<lambda>(k, _). k \<noteq> ip) xs = rl_abs (rl1\<lparr>rl_buckets := AList.delete ip (rl_buckets rl1)\<rparr>) (ys @ zs)"
      using yz by (auto simp: ks(2) filter_abs remove1_append) (auto simp: rl_abs_def d(3))
    then have "limiter_is (rl1\<lparr>rl_buckets := AList.delete ip (rl_buckets rl1)\<rparr>) (filter (\<lambda>(k, _). k \<noteq> ip) xs)"
      using d(2) ks(3) yz(1) unfolding limiter_is_def by (intro exI [of _ "ys @ zs"]) (simp add: rl_abs_def)
    then show ?thesis using d(1) rl_wf_find [OF ks(1), of ip] True by (auto simp: rl_reset_def)
  next
    case False
    then have "filter (\<lambda>(k, _). k \<noteq> ip) xs = xs"
      using ks(1) by (simp add: ks(2) filter_abs remove1_idem rl_wf_def)
    then show ?thesis using assms False rl_wf_find [OF ks(1), of ip] by (simp add: rl_reset_def)
  qed
qed

lemma rate_limiter_clear: "limiter_is (rl_clear rl) []"
  unfolding limiter_is_def by (rule exI [of _ "[]"]) (simp add: rl_wf_def rl_clear_def rl_abs_def rl_find_def)

text \<open>C25. The chained buckets implement a list of buckets ordered by age.  From any reachable state no
  operation follows a dangling pointer; \<open>check\<close> moves the address to the young end with its refilled
  bucket, after dropping the oldest quarter of the buckets when a new address finds the table full, and
  its answer is whether the refilled bucket held a token; \<open>reset\<close> and \<open>clear\<close> forget; and never more
  than 65536 addresses are tracked.\<close>

theorem rate_limiter_refines:
  assumes "limiter_is rl xs"
  shows "(cf_enabled (rl_config rl) \<longrightarrow>
      (\<exists>r rl'. rl_check M ip now rl = Some (r, rl') \<and> rr_allowed r = fst (spec_check M (rl_config rl) ip now xs) \<and>
         limiter_is rl' (snd (spec_check M (rl_config rl) ip now xs)) \<and> rl_config rl' = rl_config rl)) \<and>
    (\<exists>rl'. rl_reset ip rl = Some rl' \<and> limiter_is rl' (filter (\<lambda>(k, _). k \<noteq> ip) xs)) \<and>
    limiter_is (rl_clear rl) [] \<and> rl_tracked_count rl = length xs \<and> length xs \<le> 65536"
proof -
  obtain ks where ks: "rl_wf rl ks" "xs = rl_abs rl ks" "length ks \<le> MAX_TRACKED_IPS"
    using assms by (rule limiter_isE)
  then have "rl_tracked_count rl = length xs" by (simp add: rl_tracked_count_def rl_wf_length rl_abs_def)
  then show ?thesis
    using limiter_check [OF assms, of M ip now] rate_limiter_reset [OF assms, of ip] rate_limiter_clear ks(2,3)
    by (simp add: rl_abs_def MAX_TRACKED_IPS_def)
qed

section \<open>Runs of packets\<close>

fun rl_run :: "'d rate_math \<Rightarrow> (u32 \<times> u64) list \<Rightarrow> 'd limiter \<Rightarrow> (bool list \<times> 'd limiter) option" where
  "rl_run M [] rl = Some ([], rl)"
| "rl_run M ((ip, now) # evs) rl = do {
     (r, rl) \<leftarrow> rl_check M ip now rl;
     (rs, rl) \<leftarrow> rl_run M evs rl;
     Some (rr_allowed r # rs, rl)
   }"

text \<open>The answers one address gets, the times of its packets, and the answers of its bucket alone.\<close>

definition answers_for :: "u32 \<Rightarrow> (u32 \<times> u64) list \<Rightarrow> bool list \<Rightarrow> bool list" where
  "answers_for ip evs oks = map snd (filter (\<lambda>((ip', _), _). ip' = ip) (zip evs oks))"

definition times_of :: "u32 \<Rightarrow> (u32 \<times> u64) list \<Rightarrow> u64 list" where
  "times_of ip evs = map snd (filter (\<lambda>(ip', _). ip' = ip) evs)"

fun bucket_run :: "'d rate_math \<Rightarrow> rl_config \<Rightarrow> u64 list \<Rightarrow> 'd bucket_state \<Rightarrow> bool list" where
  "bucket_run M cfg [] st = []"
| "bucket_run M cfg (now # ts) st = (case bucket_check M cfg now st of (ok, st) \<Rightarrow> ok # bucket_run M cfg ts st)"

definition bucket_start :: "'d rate_math \<Rightarrow> rl_config \<Rightarrow> u64 list \<Rightarrow> 'd bucket_state option \<Rightarrow> bool list" where
  "bucket_start M cfg ts st =
     bucket_run M cfg ts (case st of Some st \<Rightarrow> st | None \<Rightarrow> (cf_burst_size cfg, hd ts, rm_zero M))"

lemma answers_for_Cons [simp]:
  "answers_for ip ((i, now) # evs) (ok # oks) = (if i = ip then [ok] else []) @ answers_for ip evs oks"
  by (simp add: answers_for_def)

lemma times_of_Cons [simp]: "times_of ip ((i, now) # evs) = (if i = ip then [now] else []) @ times_of ip evs"
  by (simp add: times_of_def)

lemma limiter_is_distinct: "limiter_is rl xs \<Longrightarrow> distinct (map fst xs)"
  by (auto simp: limiter_is_def rl_wf_def rl_abs_def comp_def)

lemma spec_kept_room:
  assumes "distinct (map fst xs)" and "insert ip (fst ` set xs) \<subseteq> A" and "finite A" and "card A \<le> MAX_TRACKED_IPS"
  shows "spec_kept ip xs = xs"
proof (cases "ip \<in> fst ` set xs")
  case False
  have "Suc (length xs) = card (insert ip (set (map fst xs)))"
    using False distinct_card [OF assms(1)] by (simp add: card_insert_if)
  also have "\<dots> \<le> card A" using assms(2,3) by (intro card_mono) auto
  finally show ?thesis using assms(4) by (simp add: spec_kept_def)
qed (simp add: spec_kept_def map_of_eq_None_iff)

lemma map_of_move: "map_of (filter (\<lambda>(k, _). k \<noteq> i) xs @ [(i, st)]) j = (if j = i then Some st else map_of xs j)"
  by (induction xs) auto

lemma rl_run_buckets:
  assumes "limiter_is rl xs" and "cf_enabled (rl_config rl)" and "fst ` set xs \<union> fst ` set evs \<subseteq> A"
    and "finite A" and "card A \<le> MAX_TRACKED_IPS"
  shows "\<exists>oks rl'. rl_run M evs rl = Some (oks, rl') \<and> length oks = length evs \<and>
    answers_for ip evs oks = bucket_start M (rl_config rl) (times_of ip evs) (map_of xs ip)"
  using assms(1-3)
proof (induction evs arbitrary: rl xs)
  case Nil
  then show ?case by (simp add: answers_for_def times_of_def bucket_start_def)
next
  case (Cons ev evs)
  obtain i now where ev: "ev = (i, now)" by (cases ev)
  let ?cfg = "rl_config rl"
  obtain r rl1 where c: "rl_check M i now rl = Some (r, rl1)" "rr_allowed r = fst (spec_check M ?cfg i now xs)"
    "limiter_is rl1 (snd (spec_check M ?cfg i now xs))" "rl_config rl1 = ?cfg"
    using limiter_check [OF Cons.prems(1,2), of M i now] by blast
  obtain ok st where b: "bucket_check M ?cfg now (spec_bucket M ?cfg i now xs) = (ok, st)" by (rule prod.exhaust)
  have "spec_kept i xs = xs"
    by (rule spec_kept_room [OF limiter_is_distinct [OF Cons.prems(1)] _ assms(4,5)]) (use Cons.prems(3) ev in auto)
  then have spec: "spec_check M ?cfg i now xs = (ok, filter (\<lambda>(k, _). k \<noteq> i) xs @ [(i, st)])"
    using b by (simp add: spec_check_def)
  have "fst ` set (filter (\<lambda>(k, _). k \<noteq> i) xs @ [(i, st)]) \<union> fst ` set evs \<subseteq> A"
    using Cons.prems(3) ev by auto
  note IH = Cons.IH [OF _ _ this, of rl1]
  have "limiter_is rl1 (filter (\<lambda>(k, _). k \<noteq> i) xs @ [(i, st)])" "cf_enabled (rl_config rl1)"
    using c(3,4) Cons.prems(2) by (simp_all add: spec)
  from IH [OF this] obtain oks rl2 where r2: "rl_run M evs rl1 = Some (oks, rl2)" "length oks = length evs"
    "answers_for ip evs oks = bucket_start M ?cfg (times_of ip evs) (map_of (filter (\<lambda>(k, _). k \<noteq> i) xs @ [(i, st)]) ip)"
    unfolding c(4) by blast
  have run: "rl_run M (ev # evs) rl = Some (ok # oks, rl2)" using c(1,2) r2(1) by (simp add: ev spec)
  have "answers_for ip (ev # evs) (ok # oks) = bucket_start M ?cfg (times_of ip (ev # evs)) (map_of xs ip)"
    using b r2(3) [unfolded map_of_move] by (auto simp: ev bucket_start_def spec_bucket_def split: option.splits)
  then show ?case using run r2(2) by simp
qed

section \<open>Token counting\<close>

lemma unat_ucast_u32: "unat (ucast w :: u64) = unat (w :: u32)"
  using unat_lt_2_32 [of w] by (simp add: unsigned_ucast_eq take_bit_nat_eq_self)

lemma unat_refill:
  assumes "last_us \<le> now"
  shows "unat (refill cfg last_us now tokens) =
    min (unat tokens + ((unat now - unat last_us) * unat (cf_packets_per_second cfg)) mod 2 ^ 64 div 1000000)
        (unat (cf_burst_size cfg))"
proof -
  define k where "k = ((unat now - unat last_us) * unat (cf_packets_per_second cfg)) mod 2 ^ 64 div 1000000"
  let ?add = "((now - last_us) * ucast (cf_packets_per_second cfg)) div 1000000 :: u64"
  have add: "unat ?add = k"
    using assms by (simp add: k_def unat_div unat_word_ariths unat_sub unat_ucast_u32)
  have "k < 2 ^ 64 div 1000000 + 1" by (simp add: k_def less_Suc_eq_le div_le_mono)
  then have sum: "unat (ucast tokens + ?add) = unat tokens + k"
    using unat_add_small [of "ucast tokens :: u64" ?add] add unat_lt_2_32 [of tokens] by (simp add: unat_ucast_u32)
  have "unat (min (ucast tokens + ?add) (ucast (cf_burst_size cfg) :: u64)) = min (unat tokens + k) (unat (cf_burst_size cfg))"
    using sum by (simp add: min_def word_le_nat_alt unat_ucast_u32)
  then have "unat (ucast (min (ucast tokens + ?add) (ucast (cf_burst_size cfg) :: u64)) :: u32) =
      min (unat tokens + k) (unat (cf_burst_size cfg))"
    using unat_lt_2_32 [of "cf_burst_size cfg"] by (simp add: unsigned_ucast_eq take_bit_nat_eq_self)
  then show ?thesis by (simp add: refill_def Let_def k_def)
qed

lemma div_add_le: "(a :: nat) div n + b div n \<le> (a + b) div n"
  by (subst div_add1_eq) simp

text \<open>The packets let through, by what the bucket held and the time that has passed.\<close>

lemma bucket_run_bound:
  assumes "sorted (map unat (last_us # ts))"
  shows "length (filter (\<lambda>ok. ok) (bucket_run M cfg ts (tokens, last_us, ewma))) \<le>
    unat tokens + (unat (last (last_us # ts)) - unat last_us) * unat (cf_packets_per_second cfg) div 1000000"
  using assms
proof (induction ts arbitrary: tokens last_us ewma)
  case (Cons now ts)
  let ?pps = "unat (cf_packets_per_second cfg)"
  define t where "t = refill cfg last_us now tokens"
  define e where "e = (if now - last_us > 0 then rm_ewma M (now - last_us) ewma else ewma)"
  have le: "last_us \<le> now" "unat last_us \<le> unat now" using Cons.prems by (simp_all add: word_le_nat_alt)
  have t: "unat t \<le> unat tokens + (unat now - unat last_us) * ?pps div 1000000"
    unfolding t_def unat_refill [OF le(1)] by (auto simp: min_le_iff_disj intro: div_le_mono)
  let ?stop = "unat (last (now # ts))"
  have e': "unat now \<le> ?stop" using Cons.prems by (cases ts rule: rev_cases) (auto simp: sorted_append)
  have "(unat now - unat last_us) * ?pps div 1000000 + (?stop - unat now) * ?pps div 1000000
      \<le> ((unat now - unat last_us) * ?pps + (?stop - unat now) * ?pps) div 1000000"
    by (rule div_add_le)
  also have "(unat now - unat last_us) * ?pps + (?stop - unat now) * ?pps = (?stop - unat last_us) * ?pps"
    using le(2) e' by (simp flip: add_mult_distrib)
  finally have sum: "(unat now - unat last_us) * ?pps div 1000000 + (?stop - unat now) * ?pps div 1000000
      \<le> (?stop - unat last_us) * ?pps div 1000000" .
  have IH: "length (filter (\<lambda>ok. ok) (bucket_run M cfg ts (t', now, e))) \<le> unat t' + (?stop - unat now) * ?pps div 1000000" for t'
    using Cons.IH [of now t' e] Cons.prems by simp
  have run: "bucket_run M cfg (now # ts) (tokens, last_us, ewma) =
      (if t > 0 then True # bucket_run M cfg ts (t - 1, now, e) else False # bucket_run M cfg ts (t, now, e))"
    by (simp add: bucket_check_def Let_def t_def e_def)
  have fin: "unat (last (last_us # now # ts)) = ?stop" by simp
  show ?case
    unfolding run fin
  proof (cases "t > 0")
    case True
    then have "unat (t - 1) = unat t - 1" "0 < unat t" by (simp_all add: unat_minus_one word_gt_0 unat_gt_0)
    then show "length (filter (\<lambda>ok. ok) (if t > 0 then True # bucket_run M cfg ts (t - 1, now, e) else False # bucket_run M cfg ts (t, now, e)))
      \<le> unat tokens + (?stop - unat last_us) * ?pps div 1000000"
      using True IH [of "t - 1"] t sum by (simp del: last.simps) linarith
  next
    case False
    then show "length (filter (\<lambda>ok. ok) (if t > 0 then True # bucket_run M cfg ts (t - 1, now, e) else False # bucket_run M cfg ts (t, now, e)))
      \<le> unat tokens + (?stop - unat last_us) * ?pps div 1000000"
      using IH [of t] t sum by (simp del: last.simps)
  qed
qed simp

text \<open>Packets so close together that no refill reaches a whole token.\<close>

fun dense :: "rl_config \<Rightarrow> u64 list \<Rightarrow> bool" where
  "dense cfg (t # t' # ts) \<longleftrightarrow> t \<le> t' \<and> (unat t' - unat t) * unat (cf_packets_per_second cfg) < 1000000 \<and> dense cfg (t' # ts)"
| "dense cfg ts \<longleftrightarrow> True"

lemma bucket_run_dense:
  assumes "dense cfg (last_us # ts)" and "unat tokens \<le> unat (cf_burst_size cfg)"
  shows "bucket_run M cfg ts (tokens, last_us, ewma) =
    replicate (min (length ts) (unat tokens)) True @ replicate (length ts - unat tokens) False"
  using assms
proof (induction ts arbitrary: tokens last_us ewma)
  case (Cons now ts)
  have "((unat now - unat last_us) * unat (cf_packets_per_second cfg)) mod 2 ^ 64 div 1000000 = 0"
    using Cons.prems(1) by (simp add: div_eq_0_iff less_le_trans)
  then have t: "refill cfg last_us now tokens = tokens"
    using Cons.prems unat_refill [of last_us now cfg tokens] by (simp add: word_unat_eq_iff min_def)
  have d: "dense cfg (now # ts)" using Cons.prems(1) by simp
  show ?case
  proof (cases "tokens > 0")
    case True
    then have n: "unat (tokens - 1) = unat tokens - 1" "0 < unat tokens" by (simp_all add: unat_minus_one word_gt_0 unat_gt_0)
    then obtain k where k: "unat tokens = Suc k" by (cases "unat tokens") auto
    show ?thesis
      using True t k n Cons.IH [OF d, of "tokens - 1"] Cons.prems(2) by (simp add: bucket_check_def Let_def)
  next
    case False
    then have "tokens = 0" by (simp add: word_gt_0)
    then show ?thesis using t Cons.IH [OF d, of 0] by (simp add: bucket_check_def Let_def)
  qed
qed simp

lemma sorted_times: "sorted (map (\<lambda>(_, t). unat t) evs) \<Longrightarrow> sorted (map unat (times_of ip evs))"
  unfolding times_of_def by (induction evs) (auto split: if_splits)

lemma limiter_is_new: "limiter_is (rl_new cfg) []"
  unfolding limiter_is_def by (rule exI [of _ "[]"]) (simp add: rl_wf_def rl_new_def rl_abs_def rl_find_def)


text \<open>A steady flow just over the rate is cut off for good.  The time of the last update is set to now
  even when the time passed earned no whole token, so the fractions are lost: an address whose
  packets are each less than one token's time apart gets its first packets, as many as the burst size,
  and then nothing, however long the flow lasts; at the default 1000 packets per second that
  is a flow of 1001 per second.\<close>

theorem rate_limit_starves:
  assumes "cf_enabled cfg" and "card (fst ` set evs) \<le> 65536"
    and "times_of ip evs = first # ts" and "dense cfg (first # ts)"
  shows "\<exists>oks rl. rl_run M evs (rl_new cfg) = Some (oks, rl) \<and>
    answers_for ip evs oks = replicate (min (length (first # ts)) (unat (cf_burst_size cfg))) True @
      replicate (length (first # ts) - unat (cf_burst_size cfg)) False"
proof -
  obtain oks rl where r: "rl_run M evs (rl_new cfg) = Some (oks, rl)" "length oks = length evs"
    "answers_for ip evs oks = bucket_start M cfg (times_of ip evs) (map_of [] ip)"
    using rl_run_buckets [OF limiter_is_new, of cfg evs "fst ` set evs" M ip] assms(1,2)
    by (auto simp: MAX_TRACKED_IPS_def rl_new_def)
  have "dense cfg (first # first # ts)" using assms(4) by simp
  from bucket_run_dense [OF this order_refl, of M "rm_zero M"]
  show ?thesis using r by (intro exI [of _ oks] exI [of _ rl]) (simp add: bucket_start_def assms(3))
qed

definition demo_math :: "nat rate_math" where
  "demo_math = \<lparr>rm_zero = 0, rm_ewma = \<lambda>elapsed old. (1000000 div unat elapsed + 7 * old) div 8, rm_pps = of_nat\<rparr>"

definition demo_cfg :: rl_config where
  "demo_cfg = \<lparr>cf_packets_per_second = 1000, cf_burst_size = 2, cf_enabled = True\<rparr>"

theorem rate_limit_starves_witness:
  "\<exists>oks rl. rl_run demo_math [(7, 0), (8, 0), (7, 999), (7, 1998), (7, 2997), (8, 2998)] (rl_new demo_cfg) = Some (oks, rl) \<and>
     answers_for 7 [(7, 0), (8, 0), (7, 999), (7, 1998), (7, 2997), (8, 2998)] oks = [True, True, False, False]"
proof -
  let ?evs = "[(7, 0), (8, 0), (7, 999), (7, 1998), (7, 2997), (8, 2998)] :: (u32 \<times> u64) list"
  have "cf_enabled demo_cfg" "dense demo_cfg [0, 999, 1998, 2997]" by (simp_all add: demo_cfg_def)
  moreover have "card (fst ` set ?evs) \<le> 65536" by (simp add: card_insert_if)
  moreover have "times_of 7 ?evs = [0, 999, 1998, 2997]" by (simp add: times_of_def)
  moreover have "replicate 2 b = [b, b]" for b :: bool by (simp add: numeral_2_eq_2)
  moreover have "unat (cf_burst_size demo_cfg) = 2" by (simp add: demo_cfg_def)
  ultimately show ?thesis
    using rate_limit_starves [of demo_cfg ?evs 7 0 "[999, 1998, 2997]" demo_math]
    by (simp del: rl_run.simps answers_for_Cons dense.simps)
qed


theorem rate_limiter_refines_witness:
  "\<exists>r rl'. rl_check demo_math 7 5 (rl_new demo_cfg) = Some (r, rl') \<and> rr_allowed r \<and> limiter_is rl' [(7, 1, 5, 0)]"
proof -
  have "spec_check demo_math (rl_config (rl_new demo_cfg :: nat limiter)) 7 5 [] = (True, [(7, 1, 5, 0)])"
    by (simp add: rl_new_def demo_cfg_def demo_math_def spec_check_def spec_bucket_def spec_kept_def MAX_TRACKED_IPS_def
      bucket_check_def refill_def Let_def)
  moreover have "cf_enabled (rl_config (rl_new demo_cfg :: nat limiter))" by (simp add: rl_new_def demo_cfg_def)
  ultimately show ?thesis
    using rate_limiter_refines [OF limiter_is_new [of demo_cfg], where ip = 7 and M = demo_math and now = 5] by auto
qed

end
