(* ===== verification/Firewall_Rules.thy ===== *)
theory Firewall_Rules
  imports Rate_Limiter "HOL-Library.Multiset"
begin

text \<open>
  The rule engine of the firewall (\<^verbatim>\<open>include/neustack/firewall/\<close>: \<^verbatim>\<open>rule.hpp\<close>, \<^verbatim>\<open>rule_engine.hpp\<close>,
  \<^verbatim>\<open>firewall_decision.hpp\<close>, \<^verbatim>\<open>packet_event.hpp\<close>): address lists, rate limit and prioritised rules.
  The score of a decision is a \<open>float\<close>, a type variable with the operations the code uses.
  \<open>std::sort\<close> is a parameter, of which only what the standard promises is used.
\<close>

section \<open>Decisions, events and rules\<close>

datatype fw_action = PASS | DROP | ALERT | LOG

datatype fw_reason =
  NONE | RULE_WHITELIST | RULE_BLACKLIST | RULE_PORT | RATE_LIMIT | AI_ANOMALY | MALFORMED

record 'f decision =
  d_action :: fw_action
  d_reason :: fw_reason
  d_rule_id :: u16
  d_score :: 'f
  d_rate_current :: u32
  d_rate_limit :: u32

definition decision_pass :: "('f :: zero) decision" where
  "decision_pass = \<lparr>d_action = PASS, d_reason = NONE, d_rule_id = 0, d_score = 0, d_rate_current = 0, d_rate_limit = 0\<rparr>"

definition should_pass :: "'f decision \<Rightarrow> bool" where
  "should_pass d \<longleftrightarrow> d_action d = PASS \<or> d_action d = ALERT \<or> d_action d = LOG"

definition should_drop :: "'f decision \<Rightarrow> bool" where "should_drop d \<longleftrightarrow> d_action d = DROP"
definition is_alert :: "'f decision \<Rightarrow> bool" where "is_alert d \<longleftrightarrow> d_action d = ALERT"

record packet_event =
  ev_src_ip :: u32
  ev_dst_ip :: u32
  ev_src_port :: u16
  ev_dst_port :: u16
  ev_protocol :: u8
  ev_tcp_flags :: u8
  ev_total_len :: u16
  ev_payload_len :: u16
  ev_reserved :: u32
  ev_timestamp_us :: u64
  ev_raw_packet :: bytes

record rule =
  r_src_ip :: u32
  r_src_mask :: u32
  r_dst_ip :: u32
  r_dst_mask :: u32
  r_src_port :: u16
  r_dst_port :: u16
  r_protocol :: u8
  r_id :: u16
  r_priority :: u16
  r_action :: fw_action
  r_reason :: fw_reason
  r_enabled :: bool

definition rule_matches :: "rule \<Rightarrow> u32 \<Rightarrow> u32 \<Rightarrow> u16 \<Rightarrow> u16 \<Rightarrow> u8 \<Rightarrow> bool" where
  "rule_matches r src dst sport dport proto =
    (if \<not> r_enabled r then False
     else if r_src_ip r \<noteq> 0 \<and> src AND r_src_mask r \<noteq> r_src_ip r AND r_src_mask r then False
     else if r_dst_ip r \<noteq> 0 \<and> dst AND r_dst_mask r \<noteq> r_dst_ip r AND r_dst_mask r then False
     else if r_src_port r \<noteq> 0 \<and> sport \<noteq> r_src_port r then False
     else if r_dst_port r \<noteq> 0 \<and> dport \<noteq> r_dst_port r then False
     else if r_protocol r \<noteq> 0 \<and> proto \<noteq> r_protocol r then False
     else True)"

definition blacklist_ip :: "u16 \<Rightarrow> u32 \<Rightarrow> u16 \<Rightarrow> rule" where
  "blacklist_ip i ip priority = \<lparr>r_src_ip = ip, r_src_mask = 0xFFFFFFFF, r_dst_ip = 0, r_dst_mask = 0, r_src_port = 0,
     r_dst_port = 0, r_protocol = 0, r_id = i, r_priority = priority, r_action = DROP, r_reason = RULE_BLACKLIST,
     r_enabled = True\<rparr>"

definition whitelist_ip :: "u16 \<Rightarrow> u32 \<Rightarrow> u16 \<Rightarrow> rule" where
  "whitelist_ip i ip priority = \<lparr>r_src_ip = ip, r_src_mask = 0xFFFFFFFF, r_dst_ip = 0, r_dst_mask = 0, r_src_port = 0,
     r_dst_port = 0, r_protocol = 0, r_id = i, r_priority = priority, r_action = PASS, r_reason = RULE_WHITELIST,
     r_enabled = True\<rparr>"

definition block_port :: "u16 \<Rightarrow> u16 \<Rightarrow> u8 \<Rightarrow> u16 \<Rightarrow> rule" where
  "block_port i port proto priority = \<lparr>r_src_ip = 0, r_src_mask = 0, r_dst_ip = 0, r_dst_mask = 0, r_src_port = 0,
     r_dst_port = port, r_protocol = proto, r_id = i, r_priority = priority, r_action = DROP, r_reason = RULE_PORT,
     r_enabled = True\<rparr>"

section \<open>The engine\<close>

definition MAX_RULES :: nat where "MAX_RULES = 1024"

record rule_stats =
  rs_whitelist_hits :: u64
  rs_blacklist_hits :: u64
  rs_rate_limit_drops :: u64
  rs_rule_matches :: u64
  rs_default_passes :: u64

definition rule_stats_zero :: rule_stats where
  "rule_stats_zero = \<lparr>rs_whitelist_hits = 0, rs_blacklist_hits = 0, rs_rate_limit_drops = 0, rs_rule_matches = 0,
     rs_default_passes = 0\<rparr>"

record 'd rule_engine =
  en_rules :: "rule list"
  en_whitelist_ips :: "u32 set"
  en_blacklist_ips :: "u32 set"
  en_rate_limiter :: "'d limiter"
  en_stats :: rule_stats

definition engine_new :: "'d rule_engine" where
  "engine_new = \<lparr>en_rules = [], en_whitelist_ips = {}, en_blacklist_ips = {}, en_rate_limiter = rl_new rl_config_default,
     en_stats = rule_stats_zero\<rparr>"

text \<open>\<open>srt\<close> is \<open>std::sort\<close> with the comparison of priorities.\<close>

definition add_rule :: "(rule list \<Rightarrow> rule list) \<Rightarrow> rule \<Rightarrow> 'd rule_engine \<Rightarrow> bool \<times> 'd rule_engine" where
  "add_rule srt r e =
    (if length (en_rules e) \<ge> MAX_RULES then (False, e)
     else (True, e\<lparr>en_rules := srt (en_rules e @ [r])\<rparr>))"

definition remove_rule :: "u16 \<Rightarrow> 'd rule_engine \<Rightarrow> bool \<times> 'd rule_engine" where
  "remove_rule i e =
    (let kept = filter (\<lambda>r. r_id r \<noteq> i) (en_rules e)
     in if length kept \<noteq> length (en_rules e) then (True, e\<lparr>en_rules := kept\<rparr>) else (False, e))"

fun enable_first :: "u16 \<Rightarrow> bool \<Rightarrow> rule list \<Rightarrow> rule list option" where
  "enable_first i on [] = None"
| "enable_first i on (r # rs) =
    (if r_id r = i then Some (r\<lparr>r_enabled := on\<rparr> # rs) else map_option (Cons r) (enable_first i on rs))"

definition set_rule_enabled :: "u16 \<Rightarrow> bool \<Rightarrow> 'd rule_engine \<Rightarrow> bool \<times> 'd rule_engine" where
  "set_rule_enabled i on e =
    (case enable_first i on (en_rules e) of Some rs \<Rightarrow> (True, e\<lparr>en_rules := rs\<rparr>) | None \<Rightarrow> (False, e))"

definition clear_rules :: "'d rule_engine \<Rightarrow> 'd rule_engine" where "clear_rules e = e\<lparr>en_rules := []\<rparr>"

definition add_whitelist_ip :: "u32 \<Rightarrow> 'd rule_engine \<Rightarrow> 'd rule_engine" where
  "add_whitelist_ip ip e = e\<lparr>en_whitelist_ips := insert ip (en_whitelist_ips e)\<rparr>"
definition remove_whitelist_ip :: "u32 \<Rightarrow> 'd rule_engine \<Rightarrow> 'd rule_engine" where
  "remove_whitelist_ip ip e = e\<lparr>en_whitelist_ips := en_whitelist_ips e - {ip}\<rparr>"
definition clear_whitelist :: "'d rule_engine \<Rightarrow> 'd rule_engine" where "clear_whitelist e = e\<lparr>en_whitelist_ips := {}\<rparr>"
definition add_blacklist_ip :: "u32 \<Rightarrow> 'd rule_engine \<Rightarrow> 'd rule_engine" where
  "add_blacklist_ip ip e = e\<lparr>en_blacklist_ips := insert ip (en_blacklist_ips e)\<rparr>"
definition remove_blacklist_ip :: "u32 \<Rightarrow> 'd rule_engine \<Rightarrow> 'd rule_engine" where
  "remove_blacklist_ip ip e = e\<lparr>en_blacklist_ips := en_blacklist_ips e - {ip}\<rparr>"
definition clear_blacklist :: "'d rule_engine \<Rightarrow> 'd rule_engine" where "clear_blacklist e = e\<lparr>en_blacklist_ips := {}\<rparr>"
definition reset_stats :: "'d rule_engine \<Rightarrow> 'd rule_engine" where "reset_stats e = e\<lparr>en_stats := rule_stats_zero\<rparr>"

definition event_matches :: "packet_event \<Rightarrow> rule \<Rightarrow> bool" where
  "event_matches evt r =
     rule_matches r (ev_src_ip evt) (ev_dst_ip evt) (ev_src_port evt) (ev_dst_port evt) (ev_protocol evt)"

text \<open>After the address lists: the rules in order, then the default.\<close>

definition evaluate_rules :: "packet_event \<Rightarrow> 'd rule_engine \<Rightarrow> ('f :: zero) decision \<times> 'd rule_engine" where
  "evaluate_rules evt e =
    (case List.find (event_matches evt) (en_rules e) of
       Some r \<Rightarrow> (\<lparr>d_action = r_action r, d_reason = r_reason r, d_rule_id = r_id r, d_score = 0, d_rate_current = 0,
                  d_rate_limit = 0\<rparr>,
                 e\<lparr>en_stats := (en_stats e)\<lparr>rs_rule_matches := rs_rule_matches (en_stats e) + 1\<rparr>\<rparr>)
     | None \<Rightarrow> (decision_pass, e\<lparr>en_stats := (en_stats e)\<lparr>rs_default_passes := rs_default_passes (en_stats e) + 1\<rparr>\<rparr>))"

definition engine_evaluate ::
  "'d rate_math \<Rightarrow> packet_event \<Rightarrow> u64 \<Rightarrow> 'd rule_engine \<Rightarrow> (('f :: zero) decision \<times> 'd rule_engine) option" where
  "engine_evaluate M evt now e =
    (if ev_src_ip evt \<in> en_whitelist_ips e then
       Some (\<lparr>d_action = PASS, d_reason = RULE_WHITELIST, d_rule_id = 0, d_score = 0, d_rate_current = 0, d_rate_limit = 0\<rparr>,
             e\<lparr>en_stats := (en_stats e)\<lparr>rs_whitelist_hits := rs_whitelist_hits (en_stats e) + 1\<rparr>\<rparr>)
     else if ev_src_ip evt \<in> en_blacklist_ips e then
       Some (\<lparr>d_action = DROP, d_reason = RULE_BLACKLIST, d_rule_id = 0, d_score = 0, d_rate_current = 0, d_rate_limit = 0\<rparr>,
             e\<lparr>en_stats := (en_stats e)\<lparr>rs_blacklist_hits := rs_blacklist_hits (en_stats e) + 1\<rparr>\<rparr>)
     else if cf_enabled (rl_config (en_rate_limiter e)) then
       (case rl_check M (ev_src_ip evt) now (en_rate_limiter e) of
          None \<Rightarrow> None
        | Some (result, rl) \<Rightarrow>
            let e = e\<lparr>en_rate_limiter := rl\<rparr> in
            if \<not> rr_allowed result then
              Some (\<lparr>d_action = DROP, d_reason = RATE_LIMIT, d_rule_id = 0, d_score = 0,
                     d_rate_current = rr_current_pps result, d_rate_limit = rr_limit_pps result\<rparr>,
                    e\<lparr>en_stats := (en_stats e)\<lparr>rs_rate_limit_drops := rs_rate_limit_drops (en_stats e) + 1\<rparr>\<rparr>)
            else Some (evaluate_rules evt e))
     else Some (evaluate_rules evt e))"

section \<open>The policy\<close>

text \<open>What the standard promises of \<open>std::sort\<close>: a permutation in order of the comparison.\<close>

definition sorts_rules :: "(rule list \<Rightarrow> rule list) \<Rightarrow> bool" where
  "sorts_rules srt \<longleftrightarrow> (\<forall>rs. mset (srt rs) = mset rs \<and> sorted (map r_priority (srt rs)))"

text \<open>The calls that change an engine.\<close>

inductive engine_step :: "(rule list \<Rightarrow> rule list) \<Rightarrow> 'd rate_math \<Rightarrow> 'd rule_engine \<Rightarrow> 'd rule_engine \<Rightarrow> bool"
  for srt :: "rule list \<Rightarrow> rule list" and M :: "'d rate_math" where
  "add_rule srt r e = (ok, e') \<Longrightarrow> engine_step srt M e e'"
| "remove_rule i e = (ok, e') \<Longrightarrow> engine_step srt M e e'"
| "set_rule_enabled i on e = (ok, e') \<Longrightarrow> engine_step srt M e e'"
| "engine_step srt M e (clear_rules e)"
| "engine_step srt M e (add_whitelist_ip ip e)"
| "engine_step srt M e (remove_whitelist_ip ip e)"
| "engine_step srt M e (clear_whitelist e)"
| "engine_step srt M e (add_blacklist_ip ip e)"
| "engine_step srt M e (remove_blacklist_ip ip e)"
| "engine_step srt M e (clear_blacklist e)"
| "engine_step srt M e (reset_stats e)"
| "engine_step srt M e (e\<lparr>en_rate_limiter := rl_set_enabled on (en_rate_limiter e)\<rparr>)"
| "engine_step srt M e (e\<lparr>en_rate_limiter := rl_set_rate pps burst (en_rate_limiter e)\<rparr>)"
| "engine_step srt M e (e\<lparr>en_rate_limiter := rl_clear (en_rate_limiter e)\<rparr>)"
| "rl_reset ip (en_rate_limiter e) = Some rl \<Longrightarrow> engine_step srt M e (e\<lparr>en_rate_limiter := rl\<rparr>)"
| "engine_evaluate M evt now e = Some (d :: nat decision, e') \<Longrightarrow> engine_step srt M e e'"

definition engine_wf :: "'d rule_engine \<Rightarrow> bool" where
  "engine_wf e \<longleftrightarrow> sorted (map r_priority (en_rules e)) \<and> length (en_rules e) \<le> MAX_RULES \<and>
     (\<exists>xs. limiter_is (en_rate_limiter e) xs)"

lemma limiter_is_config: "limiter_is (rl\<lparr>rl_config := c\<rparr>) xs \<longleftrightarrow> limiter_is rl xs"
  by (simp add: limiter_is_def rl_wf_def rl_abs_def rl_state_def rl_find_def)

lemma enable_first_keeps: "enable_first i on rs = Some rs' \<Longrightarrow> map r_priority rs' = map r_priority rs"
  by (induction rs arbitrary: rs') (auto split: if_splits)

lemma engine_wf_new: "engine_wf engine_new"
  using limiter_is_new by (auto simp: engine_wf_def engine_new_def)

lemma sorted_add: "sorts_rules srt \<Longrightarrow> sorted (map r_priority (srt rs)) \<and> length (srt rs) = length rs"
  unfolding sorts_rules_def by (metis size_mset)

lemma evaluate_rules_keeps:
  assumes "evaluate_rules evt e = (d, e')"
  shows "en_rate_limiter e' = en_rate_limiter e \<and> en_rules e' = en_rules e"
  using assms by (auto simp: evaluate_rules_def split: option.splits)

lemma evaluate_wf:
  assumes "engine_wf e" and "engine_evaluate M evt now e = Some (d :: ('b :: zero) decision, e')"
  shows "engine_wf e' \<and> en_rules e' = en_rules e"
proof -
  obtain xs where xs: "limiter_is (en_rate_limiter e) xs" using assms(1) by (auto simp: engine_wf_def)
  have "en_rules e' = en_rules e \<and> (\<exists>xs. limiter_is (en_rate_limiter e') xs)"
  proof (cases "cf_enabled (rl_config (en_rate_limiter e)) \<and> ev_src_ip evt \<notin> en_whitelist_ips e \<and> ev_src_ip evt \<notin> en_blacklist_ips e")
    case True
    obtain r rl where r: "rl_check M (ev_src_ip evt) now (en_rate_limiter e) = Some (r, rl)" "\<exists>xs. limiter_is rl xs"
      using rate_limiter_total [OF xs, of M "ev_src_ip evt" now] True by blast
    obtain d1 e1 where e1: "evaluate_rules evt (e\<lparr>en_rate_limiter := rl\<rparr>) = (d1 :: 'b decision, e1)" by (rule prod.exhaust)
    show ?thesis
      using assms(2) True r evaluate_rules_keeps [OF e1] e1
      by (cases "rr_allowed r") (auto simp: engine_evaluate_def Let_def)
  next
    case False
    obtain d1 e1 where e1: "evaluate_rules evt e = (d1 :: 'b decision, e1)" by (rule prod.exhaust)
    have "e' = e1 \<or> (\<exists>st. e' = e\<lparr>en_stats := st\<rparr>)"
      using assms(2) False e1 by (auto simp: engine_evaluate_def split: if_splits)
    then show ?thesis using xs evaluate_rules_keeps [OF e1] by auto
  qed
  then show ?thesis using assms(1) by (simp add: engine_wf_def)
qed

lemma engine_evaluate_total:
  assumes "engine_wf e"
  shows "\<exists>d e'. engine_evaluate M evt now e = Some (d :: ('f :: zero) decision, e')"
proof -
  obtain xs where "limiter_is (en_rate_limiter e) xs" using assms by (auto simp: engine_wf_def)
  from rate_limiter_total [OF this, of M "ev_src_ip evt" now] show ?thesis
    by (auto simp: engine_evaluate_def Let_def)
qed

lemma engine_step_wf:
  assumes "engine_step srt M e e'" and "sorts_rules srt" and wf: "engine_wf e"
  shows "engine_wf e'"
  using assms(1)
proof cases
  case (1 r ok)
  then show ?thesis
    using wf sorted_add [OF assms(2), of "en_rules e @ [r]"] by (auto simp: add_rule_def engine_wf_def split: if_splits)
next
  case (2 i ok)
  have "length (filter P rs) \<le> MAX_RULES" if "length rs \<le> MAX_RULES" for P and rs :: "rule list"
    using that length_filter_le [of P rs] by linarith
  then show ?thesis
    using 2 wf by (auto simp: remove_rule_def engine_wf_def Let_def sorted_filter split: if_splits)
next
  case (3 i on ok)
  then show ?thesis
    using wf enable_first_keeps [of i on "en_rules e"]
    by (auto simp: set_rule_enabled_def engine_wf_def split: option.splits dest: map_eq_imp_length_eq)
next
  case (15 ip rl)
  obtain xs where "limiter_is (en_rate_limiter e) xs" using wf by (auto simp: engine_wf_def)
  from rate_limiter_reset [OF this, of ip] have "\<exists>xs. limiter_is rl xs" using 15 by auto
  then show ?thesis using 15 wf by (simp add: engine_wf_def)
next
  case (16 evt now d)
  then show ?thesis using evaluate_wf [OF wf] by blast
qed (use wf rate_limiter_clear in \<open>auto simp: engine_wf_def clear_rules_def add_whitelist_ip_def remove_whitelist_ip_def
    clear_whitelist_def add_blacklist_ip_def remove_blacklist_ip_def clear_blacklist_def reset_stats_def
    rl_set_enabled_def rl_set_rate_def limiter_is_config\<close>)

lemma engine_run_wf: "(engine_step srt M)\<^sup>*\<^sup>* engine_new e \<Longrightarrow> sorts_rules srt \<Longrightarrow> engine_wf e"
  by (induction rule: rtranclp_induct) (auto intro: engine_wf_new engine_step_wf)

lemma find_sorted:
  assumes "sorted (map r_priority rs)"
  shows "List.find P rs = Some r \<Longrightarrow> r \<in> set rs \<and> P r \<and> (\<forall>r'\<in>set rs. P r' \<longrightarrow> r_priority r \<le> r_priority r')"
    "List.find P rs = None \<Longrightarrow> \<forall>r\<in>set rs. \<not> P r"
  using assms by (induction rs) (auto split: if_splits)

definition evaluations :: "'d rule_engine \<Rightarrow> u64" where
  "evaluations e = (let st = en_stats e in rs_whitelist_hits st + rs_blacklist_hits st + rs_rate_limit_drops st +
     rs_rule_matches st + rs_default_passes st)"

text \<open>The decision for a packet whose address passes the lists.\<close>

definition rules_decide :: "packet_event \<Rightarrow> rule list \<Rightarrow> ('f :: zero) decision \<Rightarrow> bool" where
  "rules_decide evt rs d \<longleftrightarrow>
     (if \<exists>r\<in>set rs. event_matches evt r
      then \<exists>r\<in>set rs. event_matches evt r \<and> (\<forall>r'\<in>set rs. event_matches evt r' \<longrightarrow> r_priority r \<le> r_priority r') \<and>
           d_action d = r_action r \<and> d_reason d = r_reason r \<and> d_rule_id d = r_id r
      else d = decision_pass)"

lemma evaluate_rules_decide:
  assumes "sorted (map r_priority (en_rules e))" and "evaluate_rules evt e = (d, e')"
  shows "rules_decide evt (en_rules e) d \<and> evaluations e' = evaluations e + 1"
proof (cases "List.find (event_matches evt) (en_rules e)")
  case None
  then show ?thesis
    using assms(2) find_sorted(2) [OF assms(1) None] by (auto simp: evaluate_rules_def rules_decide_def evaluations_def Let_def)
next
  case (Some r)
  have "\<exists>r\<in>set (en_rules e). event_matches evt r \<and> (\<forall>r'\<in>set (en_rules e). event_matches evt r' \<longrightarrow> r_priority r \<le> r_priority r') \<and>
           d_action d = r_action r \<and> d_reason d = r_reason r \<and> d_rule_id d = r_id r"
    using assms(2) find_sorted(1) [OF assms(1) Some] Some by (intro bexI [of _ r]) (auto simp: evaluate_rules_def)
  then show ?thesis
    using assms(2) Some by (auto simp: evaluate_rules_def rules_decide_def evaluations_def Let_def)
qed

text \<open>C22. The rule engine decides by its policy.  Whatever calls have shaped the engine, a packet is
  passed when its source is on the whitelist, dropped when it is on the blacklist, dropped when the
  rate limit is on and its address has used its tokens, and otherwise treated by a matching enabled
  rule of least priority number, or passed when none matches; every decision is counted once, and
  there are never more than 1024 rules.\<close>

theorem firewall_policy:
  assumes "sorts_rules srt" and "(engine_step srt M)\<^sup>*\<^sup>* engine_new e"
  shows "\<exists>d e'. engine_evaluate M evt now e = Some (d :: ('f :: zero) decision, e') \<and>
    (if ev_src_ip evt \<in> en_whitelist_ips e then d_action d = PASS \<and> d_reason d = RULE_WHITELIST
     else if ev_src_ip evt \<in> en_blacklist_ips e then d_action d = DROP \<and> d_reason d = RULE_BLACKLIST
     else if cf_enabled (rl_config (en_rate_limiter e)) \<and>
        (\<exists>r rl. rl_check M (ev_src_ip evt) now (en_rate_limiter e) = Some (r, rl) \<and> \<not> rr_allowed r)
     then d_action d = DROP \<and> d_reason d = RATE_LIMIT
     else rules_decide evt (en_rules e) d) \<and>
    evaluations e' = evaluations e + 1 \<and> length (en_rules e) \<le> 1024"
proof -
  have wf: "engine_wf e" using engine_run_wf [OF assms(2,1)] .
  then obtain xs where xs: "limiter_is (en_rate_limiter e) xs" and sorted: "sorted (map r_priority (en_rules e))"
    and len: "length (en_rules e) \<le> 1024" by (auto simp: engine_wf_def MAX_RULES_def)
  show ?thesis
  proof (cases "cf_enabled (rl_config (en_rate_limiter e)) \<and> ev_src_ip evt \<notin> en_whitelist_ips e \<and> ev_src_ip evt \<notin> en_blacklist_ips e")
    case True
    obtain r rl where r: "rl_check M (ev_src_ip evt) now (en_rate_limiter e) = Some (r, rl)"
      using rate_limiter_total [OF xs, of M "ev_src_ip evt" now] True by blast
    obtain d e' where d: "evaluate_rules evt (e\<lparr>en_rate_limiter := rl\<rparr>) = (d :: 'f decision, e')" by (rule prod.exhaust)
    have "rules_decide evt (en_rules e) d" "evaluations e' = evaluations e + 1"
      using evaluate_rules_decide [OF _ d] sorted by (simp_all add: evaluations_def)
    then show ?thesis
      using True r d len by (cases "rr_allowed r") (auto simp: engine_evaluate_def Let_def evaluations_def)
  next
    case False
    obtain d e' where d: "evaluate_rules evt e = (d :: 'f decision, e')" by (rule prod.exhaust)
    have "rules_decide evt (en_rules e) d" "evaluations e' = evaluations e + 1"
      using evaluate_rules_decide [OF sorted d] by simp_all
    then show ?thesis using False d len by (auto simp: engine_evaluate_def Let_def evaluations_def)
  qed
qed

lemma sort_key_sorts: "sorts_rules (sort_key r_priority)"
  by (simp add: sorts_rules_def)

definition demo_event :: packet_event where
  "demo_event = \<lparr>ev_src_ip = 9, ev_dst_ip = 1, ev_src_port = 5000, ev_dst_port = 22, ev_protocol = 6, ev_tcp_flags = 2,
     ev_total_len = 40, ev_payload_len = 0, ev_reserved = 0, ev_timestamp_us = 0, ev_raw_packet = []\<rparr>"

text \<open>A rule that blocks port 22 and, added after it, one of smaller number that lets one address in.\<close>

theorem firewall_policy_witness:
  "\<exists>e d e'. engine_evaluate demo_math demo_event 0 e = Some (d :: nat decision, e') \<and> d_action d = PASS \<and> d_rule_id d = 2 \<and>
     length (en_rules e) = 2"
proof -
  let ?srt = "sort_key r_priority :: rule list \<Rightarrow> rule list"
  let ?e0 = "engine_new :: nat rule_engine"
  let ?e1 = "snd (add_rule ?srt (block_port 1 22 0 100) ?e0)"
  let ?e2 = "snd (add_rule ?srt (whitelist_ip 2 9 50) ?e1)"
  have rules: "en_rules ?e2 = [whitelist_ip 2 9 50, block_port 1 22 0 100]"
    by (simp add: add_rule_def engine_new_def MAX_RULES_def whitelist_ip_def block_port_def)
  have run: "(engine_step ?srt demo_math)\<^sup>*\<^sup>* ?e0 ?e2"
    by (rule rtranclp.rtrancl_into_rtrancl [OF r_into_rtranclp]; rule engine_step.intros(1); rule prod.collapse [symmetric])
  have e: "en_whitelist_ips ?e2 = {}" "en_blacklist_ips ?e2 = {}" "\<not> cf_enabled (rl_config (en_rate_limiter ?e2))"
    by (simp_all add: add_rule_def engine_new_def MAX_RULES_def rl_new_def rl_config_default_def)
  obtain d e' where d: "engine_evaluate demo_math demo_event 0 ?e2 = Some (d :: nat decision, e')"
    "rules_decide demo_event [whitelist_ip 2 9 50, block_port 1 22 0 100] d"
    using firewall_policy [OF sort_key_sorts run, of demo_event 0, where 'f = nat] by (auto simp: e rules)
  have m: "event_matches demo_event (whitelist_ip 2 9 50)" "event_matches demo_event (block_port 1 22 0 100)"
    by (simp_all add: event_matches_def rule_matches_def demo_event_def whitelist_ip_def block_port_def)
  have p: "r_priority (whitelist_ip 2 9 50) = 50" "r_priority (block_port 1 22 0 100) = 100" "r_id (whitelist_ip 2 9 50) = 2"
    "r_action (whitelist_ip 2 9 50) = PASS"
    by (simp_all add: whitelist_ip_def block_port_def)
  have "d_action d = PASS \<and> d_rule_id d = 2" using d(2) m p by (auto simp: rules_decide_def)
  then show ?thesis using d(1) rules by (intro exI [of _ ?e2] exI [of _ d] exI [of _ e']) simp
qed

end
