(* ===== verification/Security_Metrics.thy ===== *)
theory Security_Metrics
  imports Prelude
begin

text \<open>
  The traffic counters of the firewall (\<^verbatim>\<open>include/neustack/metrics/security_metrics.hpp\<close>): the counters of the
  running second, a ring of the last ten finished seconds, and the snapshot computed from both.
  Counters are unsigned 64-bit; the conversion of two of them to \<open>double\<close> and their quotient is a
  parameter.
\<close>

section \<open>Operations\<close>

definition WINDOW_SIZE :: nat where "WINDOW_SIZE = 10"

record sec_counters =
  sc_packets_total :: u64
  sc_bytes_total :: u64
  sc_syn_packets :: u64
  sc_syn_ack_packets :: u64
  sc_rst_packets :: u64
  sc_fin_packets :: u64
  sc_new_connections :: u64
  sc_half_open :: u64
  sc_dropped_packets :: u64
  sc_alerted_packets :: u64

definition sec_zero :: sec_counters where
  "sec_zero = \<lparr>sc_packets_total = 0, sc_bytes_total = 0, sc_syn_packets = 0, sc_syn_ack_packets = 0, sc_rst_packets = 0,
     sc_fin_packets = 0, sc_new_connections = 0, sc_half_open = 0, sc_dropped_packets = 0, sc_alerted_packets = 0\<rparr>"

record sec_metrics =
  sm_current :: sec_counters
  sm_window :: "sec_counters list"
  sm_window_index :: nat
  sm_window_count :: nat

definition sec_metrics_new :: sec_metrics where
  "sec_metrics_new = \<lparr>sm_current = sec_zero, sm_window = replicate WINDOW_SIZE sec_zero, sm_window_index = 0, sm_window_count = 0\<rparr>"

text \<open>The counting of one packet, one flag after the other.\<close>

definition count_packet :: "u16 \<Rightarrow> u8 \<Rightarrow> sec_counters \<Rightarrow> sec_counters" where
  "count_packet len flags c =
    (let c = c\<lparr>sc_packets_total := sc_packets_total c + 1\<rparr>;
         c = c\<lparr>sc_bytes_total := sc_bytes_total c + ucast len\<rparr>
     in if flags \<noteq> 0 then
          let c = (if flags AND 0x02 \<noteq> 0 \<and> flags AND 0x10 = 0
                   then c\<lparr>sc_syn_packets := sc_syn_packets c + 1, sc_new_connections := sc_new_connections c + 1\<rparr> else c);
              c = (if flags AND 0x02 \<noteq> 0 \<and> flags AND 0x10 \<noteq> 0
                   then c\<lparr>sc_syn_ack_packets := sc_syn_ack_packets c + 1\<rparr> else c);
              c = (if flags AND 0x04 \<noteq> 0 then c\<lparr>sc_rst_packets := sc_rst_packets c + 1\<rparr> else c)
          in if flags AND 0x01 \<noteq> 0 then c\<lparr>sc_fin_packets := sc_fin_packets c + 1\<rparr> else c
        else c)"

definition sm_record_packet :: "u16 \<Rightarrow> u8 \<Rightarrow> sec_metrics \<Rightarrow> sec_metrics" where
  "sm_record_packet len flags m = m\<lparr>sm_current := count_packet len flags (sm_current m)\<rparr>"

definition sm_record_drop :: "sec_metrics \<Rightarrow> sec_metrics" where
  "sm_record_drop m = m\<lparr>sm_current := (sm_current m)\<lparr>sc_dropped_packets := sc_dropped_packets (sm_current m) + 1\<rparr>\<rparr>"

definition sm_record_alert :: "sec_metrics \<Rightarrow> sec_metrics" where
  "sm_record_alert m = m\<lparr>sm_current := (sm_current m)\<lparr>sc_alerted_packets := sc_alerted_packets (sm_current m) + 1\<rparr>\<rparr>"

definition sm_tick :: "sec_metrics \<Rightarrow> sec_metrics" where
  "sm_tick m = m\<lparr>sm_window := (sm_window m)[sm_window_index m := sm_current m],
     sm_window_index := (sm_window_index m + 1) mod WINDOW_SIZE,
     sm_window_count := min (sm_window_count m + 1) WINDOW_SIZE,
     sm_current := sec_zero\<rparr>"

record 'd sec_snapshot =
  sn_counters :: sec_counters
  sn_pps :: 'd
  sn_bps :: 'd
  sn_syn_rate :: 'd
  sn_rst_rate :: 'd
  sn_new_conn_rate :: 'd
  sn_syn_to_synack_ratio :: 'd
  sn_rst_ratio :: 'd
  sn_avg_packet_size :: 'd

text \<open>The sum of one counter over the slots in use and the running second, in the order of the loop.\<close>

definition sm_total :: "(sec_counters \<Rightarrow> u64) \<Rightarrow> sec_metrics \<Rightarrow> u64" where
  "sm_total f m = foldl (\<lambda>total i. total + f (sm_window m ! i)) (f (sm_current m)) [0..<sm_window_count m]"

text \<open>\<open>quot a b\<close> is \<open>static_cast<double>(a) / static_cast<double>(b)\<close>.\<close>

definition sm_snapshot :: "(u64 \<Rightarrow> u64 \<Rightarrow> 'd) \<Rightarrow> sec_metrics \<Rightarrow> 'd sec_snapshot" where
  "sm_snapshot quot m =
    (let latest = (if sm_window_count m > 0
                   then sm_window m ! ((sm_window_index m + WINDOW_SIZE - 1) mod WINDOW_SIZE) else sm_current m);
         packets = sm_total sc_packets_total m; bytes = sm_total sc_bytes_total m; syn = sm_total sc_syn_packets m;
         syn_ack = sm_total sc_syn_ack_packets m; rst = sm_total sc_rst_packets m;
         new_conn = sm_total sc_new_connections m;
         seconds = of_nat (sm_window_count m + 1)
     in \<lparr>sn_counters = latest, sn_pps = quot packets seconds, sn_bps = quot bytes seconds, sn_syn_rate = quot syn seconds,
         sn_rst_rate = quot rst seconds, sn_new_conn_rate = quot new_conn seconds,
         sn_syn_to_synack_ratio = (if syn_ack > 0 then quot syn syn_ack else quot syn 1),
         sn_rst_ratio = (if packets > 0 then quot rst packets else quot 0 1),
         sn_avg_packet_size = (if packets > 0 then quot bytes packets else quot 0 1)\<rparr>)"

section \<open>The window\<close>

datatype sec_event = Packet u16 u8 | Dropped | Alerted | Tick

fun sm_step :: "sec_event \<Rightarrow> sec_metrics \<Rightarrow> sec_metrics" where
  "sm_step (Packet len flags) m = sm_record_packet len flags m"
| "sm_step Dropped m = sm_record_drop m"
| "sm_step Alerted m = sm_record_alert m"
| "sm_step Tick m = sm_tick m"

text \<open>The counters of a list of events without ticks, and the seconds of a run: finished ones, and the running one.\<close>

fun count_event :: "sec_event \<Rightarrow> sec_counters \<Rightarrow> sec_counters" where
  "count_event (Packet len flags) c = count_packet len flags c"
| "count_event Dropped c = c\<lparr>sc_dropped_packets := sc_dropped_packets c + 1\<rparr>"
| "count_event Alerted c = c\<lparr>sc_alerted_packets := sc_alerted_packets c + 1\<rparr>"
| "count_event Tick c = c"

definition count_events :: "sec_event list \<Rightarrow> sec_counters" where
  "count_events evs = fold count_event evs sec_zero"

definition split_seconds :: "sec_event list \<Rightarrow> sec_event list list \<times> sec_event list" where
  "split_seconds evs = foldl (\<lambda>(done, now) ev. if ev = Tick then (done @ [now], []) else (done, now @ [ev])) ([], []) evs"

definition sm_inv :: "sec_event list list \<times> sec_event list \<Rightarrow> sec_metrics \<Rightarrow> bool" where
  "sm_inv s m \<longleftrightarrow> sm_current m = count_events (snd s) \<and> length (sm_window m) = 10 \<and>
     sm_window_index m = length (fst s) mod 10 \<and> sm_window_count m = min (length (fst s)) 10 \<and>
     (\<forall>i < length (fst s). length (fst s) \<le> i + 10 \<longrightarrow> sm_window m ! (i mod 10) = count_events (fst s ! i))"

lemma split_seconds_snoc:
  "split_seconds (evs @ [ev]) = (case split_seconds evs of (done, now) \<Rightarrow>
     if ev = Tick then (done @ [now], []) else (done, now @ [ev]))"
  by (simp add: split_seconds_def split: prod.split)

lemma sm_run_inv: "sm_inv (split_seconds evs) (fold sm_step evs sec_metrics_new)"
proof (induction evs rule: rev_induct)
  case Nil
  show ?case by (simp add: sm_inv_def split_seconds_def sec_metrics_new_def count_events_def WINDOW_SIZE_def)
next
  case (snoc ev evs)
  let ?m = "fold sm_step evs sec_metrics_new"
  obtain seconds cur where s: "split_seconds evs = (seconds, cur)" by (rule prod.exhaust)
  show ?case
  proof (cases "ev = Tick")
    case False
    then show ?thesis
      using snoc.IH s by (cases ev) (auto simp: sm_inv_def split_seconds_snoc count_events_def sm_record_packet_def
          sm_record_drop_def sm_record_alert_def)
  next
    case True
    have "sm_window (sm_tick ?m) ! (i mod 10) = count_events ((seconds @ [cur]) ! i)"
      if "i < length (seconds @ [cur])" "length (seconds @ [cur]) \<le> i + 10" for i
    proof (cases "i = length seconds")
      case True
      then show ?thesis using snoc.IH by (simp add: sm_inv_def s sm_tick_def)
    next
      case False
      then have "i < length seconds" "length seconds < i + 10" using that by simp_all
      then have "length seconds mod 10 \<noteq> i mod 10"
        by (metis add_diff_cancel_left' diff_less_mono less_imp_le_nat mod_eq_dvd_iff_nat nat_dvd_not_less zero_less_diff)
      then show ?thesis using snoc.IH \<open>i < length seconds\<close> \<open>length seconds < i + 10\<close> by (simp add: sm_inv_def s sm_tick_def nth_append)
    qed
    then show ?thesis
      using True snoc.IH by (simp add: sm_inv_def split_seconds_snoc s) (simp add: sm_tick_def WINDOW_SIZE_def mod_Suc_eq count_events_def)
  qed
qed

text \<open>The seconds the window covers.\<close>

definition window_seconds :: "sec_event list \<Rightarrow> sec_event list list" where
  "window_seconds evs = (let seconds = fst (split_seconds evs) in drop (length seconds - 10) seconds)"

definition window_events :: "sec_event list \<Rightarrow> sec_event list" where
  "window_events evs = concat (window_seconds evs) @ snd (split_seconds evs)"

lemma bij_mod_10: "10 \<le> n \<Longrightarrow> bij_betw (\<lambda>i. i mod 10) {n - 10..<n} {..<10 :: nat}"
proof -
  assume n: "10 \<le> n"
  have eq: "i = j" if "i mod 10 = j mod 10" "i \<le> j" "n - 10 \<le> i" "j < n" for i j
  proof -
    have "10 dvd j - i" using that(1,2) by (metis mod_eq_dvd_iff_nat)
    moreover have "j - i < 10" using that n by linarith
    ultimately show ?thesis using that(2) by (metis dvd_imp_le leD le_antisym diff_is_0_eq not_gr_zero)
  qed
  have "inj_on (\<lambda>i. i mod 10) {n - 10..<n}"
  proof (rule inj_onI)
    fix i j assume "i \<in> {n - 10..<n}" "j \<in> {n - 10..<n}" "i mod 10 = j mod 10"
    then show "i = j" using eq [of i j] eq [of j i] by (cases "i \<le> j") auto
  qed
  moreover from this have "(\<lambda>i. i mod 10) ` {n - 10..<n} = {..<10}"
    using n by (intro card_subset_eq) (auto simp: card_image)
  ultimately show ?thesis by (simp add: bij_betw_def)
qed

lemma foldl_sum: "foldl (\<lambda>total i. total + g i) a xs = a + sum_list (map g xs)" for a :: "'a :: comm_monoid_add"
  by (induction xs arbitrary: a) (simp_all add: ac_simps)

lemma sm_total_window:
  assumes "sm_inv (seconds, now) m"
  shows "sm_total f m = f (count_events now) + (\<Sum>es\<leftarrow>drop (length seconds - 10) seconds. f (count_events es))"
proof -
  let ?n = "length seconds"
  have w: "sm_window m ! (i mod 10) = count_events (seconds ! i)" if "i < ?n" "?n \<le> i + 10" for i
    using assms that by (simp add: sm_inv_def)
  have "(\<Sum>i<min ?n 10. f (sm_window m ! i)) = (\<Sum>i = ?n - 10..<?n. f (count_events (seconds ! i)))"
  proof (cases "10 \<le> ?n")
    case True
    have "(\<Sum>i<10. f (sm_window m ! i)) = (\<Sum>i = ?n - 10..<?n. f (sm_window m ! (i mod 10)))"
      using sum.reindex_bij_betw [OF bij_mod_10 [OF True], of "\<lambda>i. f (sm_window m ! i)"] by simp
    also have "\<dots> = (\<Sum>i = ?n - 10..<?n. f (count_events (seconds ! i)))" by (rule sum.cong [OF refl]) (auto intro!: arg_cong [of _ _ f] w)
    finally show ?thesis using True by simp
  next
    case False
    then have "sm_window m ! i = count_events (seconds ! i)" if "i < ?n" for i using w [of i] that by simp
    then show ?thesis using False by (simp add: lessThan_atLeast0)
  qed
  also have "\<dots> = (\<Sum>es\<leftarrow>drop (?n - 10) seconds. f (count_events es))"
  proof -
    have "drop (?n - 10) seconds = map ((!) seconds) [?n - 10..<?n]" by (rule nth_equalityI) simp_all
    then show ?thesis by (simp add: comp_def interv_sum_list_conv_sum_set_nat)
  qed
  finally show ?thesis
    using assms by (simp add: sm_total_def sm_inv_def foldl_sum interv_sum_list_conv_sum_set_nat lessThan_atLeast0)
qed

section \<open>What the counters count\<close>

fun is_packet :: "sec_event \<Rightarrow> bool" where
  "is_packet (Packet len flags) \<longleftrightarrow> True" | "is_packet ev \<longleftrightarrow> False"

fun is_syn_only :: "sec_event \<Rightarrow> bool" where
  "is_syn_only (Packet len flags) \<longleftrightarrow> flags AND 0x02 \<noteq> 0 \<and> flags AND 0x10 = 0" | "is_syn_only ev \<longleftrightarrow> False"

fun is_syn_ack :: "sec_event \<Rightarrow> bool" where
  "is_syn_ack (Packet len flags) \<longleftrightarrow> flags AND 0x02 \<noteq> 0 \<and> flags AND 0x10 \<noteq> 0" | "is_syn_ack ev \<longleftrightarrow> False"

fun is_reset :: "sec_event \<Rightarrow> bool" where
  "is_reset (Packet len flags) \<longleftrightarrow> flags AND 0x04 \<noteq> 0" | "is_reset ev \<longleftrightarrow> False"

fun packet_bytes :: "sec_event \<Rightarrow> nat" where
  "packet_bytes (Packet len flags) = unat len" | "packet_bytes ev = 0"

abbreviation number :: "('a \<Rightarrow> bool) \<Rightarrow> 'a list \<Rightarrow> nat" where "number P xs \<equiv> length (filter P xs)"

lemma count_events_fold:
  "sc_packets_total (fold count_event es c) = sc_packets_total c + of_nat (number is_packet es)"
  "sc_bytes_total (fold count_event es c) = sc_bytes_total c + of_nat (sum_list (map packet_bytes es))"
  "sc_syn_packets (fold count_event es c) = sc_syn_packets c + of_nat (number is_syn_only es)"
  "sc_syn_ack_packets (fold count_event es c) = sc_syn_ack_packets c + of_nat (number is_syn_ack es)"
  "sc_rst_packets (fold count_event es c) = sc_rst_packets c + of_nat (number is_reset es)"
  "sc_new_connections (fold count_event es c) = sc_new_connections c + of_nat (number is_syn_only es)"
proof (induction es arbitrary: c)
  case (Cons ev es)
  {
    case 1 show ?case using Cons(1) by (cases ev) (simp_all add: count_packet_def Let_def)
  next
    case 2 show ?case using Cons(2) by (cases ev) (simp_all add: count_packet_def Let_def unsigned_ucast_eq)
  next
    case 3 show ?case using Cons(3) by (cases ev) (simp_all add: count_packet_def Let_def)
  next
    case 4 show ?case using Cons(4) by (cases ev) (simp_all add: count_packet_def Let_def)
  next
    case 5 show ?case using Cons(5) by (cases ev) (simp_all add: count_packet_def Let_def)
  next
    case 6 show ?case using Cons(6) by (cases ev) (simp_all add: count_packet_def Let_def)
  }
qed simp_all

lemma number_concat: "of_nat (number P (concat xss)) = (\<Sum>xs\<leftarrow>xss. of_nat (number P xs) :: u64)"
  by (induction xss) simp_all

lemma bytes_concat: "of_nat (sum_list (map g (concat xss))) = (\<Sum>xs\<leftarrow>xss. of_nat (sum_list (map g xs)) :: u64)"
  by (induction xss) simp_all

text \<open>C30. A snapshot describes the last ten seconds.  After any run of packets, drops, alerts and ticks,
  the rates are the numbers of packets, bytes, SYNs without ACK and RSTs since the tenth tick from the
  end, divided by the seconds covered, counting the running one; the ratios are taken over the same
  packets, and the plain counters are those of the last finished second.\<close>

theorem traffic_window:
  "let m = fold sm_step evs sec_metrics_new; s = sm_snapshot quot m; recent = window_events evs;
       seconds = of_nat (length (window_seconds evs) + 1); packets = of_nat (number is_packet recent) :: u64 in
   sn_pps s = quot packets seconds \<and>
   sn_bps s = quot (of_nat (sum_list (map packet_bytes recent))) seconds \<and>
   sn_syn_rate s = quot (of_nat (number is_syn_only recent)) seconds \<and>
   sn_rst_rate s = quot (of_nat (number is_reset recent)) seconds \<and>
   sn_syn_to_synack_ratio s = quot (of_nat (number is_syn_only recent))
     (if (of_nat (number is_syn_ack recent) :: u64) > 0 then of_nat (number is_syn_ack recent) else 1) \<and>
   sn_rst_ratio s = (if packets > 0 then quot (of_nat (number is_reset recent)) packets else quot 0 1) \<and>
   sn_counters s = count_events (if window_seconds evs = [] then recent else last (window_seconds evs)) \<and>
   length (window_seconds evs) \<le> 10"
proof -
  let ?m = "fold sm_step evs sec_metrics_new"
  obtain seconds cur where s: "split_seconds evs = (seconds, cur)" by (rule prod.exhaust)
  have inv: "sm_inv (seconds, cur) ?m" using sm_run_inv [of evs] by (simp add: s)
  have ws: "window_seconds evs = drop (length seconds - 10) seconds" by (simp add: window_seconds_def s)
  have we: "window_events evs = concat (window_seconds evs) @ cur" by (simp add: window_events_def s)
  have totals: "sm_total sc_packets_total ?m = of_nat (number is_packet (window_events evs))"
    "sm_total sc_bytes_total ?m = of_nat (sum_list (map packet_bytes (window_events evs)))"
    "sm_total sc_syn_packets ?m = of_nat (number is_syn_only (window_events evs))"
    "sm_total sc_syn_ack_packets ?m = of_nat (number is_syn_ack (window_events evs))"
    "sm_total sc_rst_packets ?m = of_nat (number is_reset (window_events evs))"
    by (simp_all add: sm_total_window [OF inv] ws [symmetric] we count_events_def count_events_fold sec_zero_def
        number_concat bytes_concat)
  have count: "sm_window_count ?m = length (window_seconds evs)" using inv by (simp add: sm_inv_def ws)
  have latest: "(if sm_window_count ?m > 0 then sm_window ?m ! ((sm_window_index ?m + WINDOW_SIZE - 1) mod WINDOW_SIZE) else sm_current ?m)
      = count_events (if window_seconds evs = [] then window_events evs else last (window_seconds evs))"
  proof (cases seconds rule: rev_cases)
    case Nil
    then show ?thesis using inv by (simp add: ws we sm_inv_def)
  next
    case (snoc ss es)
    have "(Suc (length ss) mod 10 + 9) mod 10 = length ss mod 10" by (simp add: mod_simps)
    then have "(sm_window_index ?m + WINDOW_SIZE - 1) mod WINDOW_SIZE = length ss mod 10"
      using inv snoc by (simp add: sm_inv_def WINDOW_SIZE_def add.commute)
    moreover have "sm_window ?m ! (length ss mod 10) = count_events es"
      using inv snoc by (auto simp: sm_inv_def nth_append)
    moreover have "sm_window_count ?m > 0" "window_seconds evs \<noteq> []" "last (window_seconds evs) = es"
      using inv snoc by (simp_all add: sm_inv_def ws)
    ultimately show ?thesis by simp
  qed
  show ?thesis
    unfolding Let_def sm_snapshot_def latest totals by (simp add: count) (simp add: ws)
qed

end
