(* ===== verification/Firewall_Ai.thy ===== *)
theory Firewall_Ai
  imports Firewall_Rules Security_Metrics
begin

text \<open>
  The anomaly layer of the firewall (\<^verbatim>\<open>src/firewall/firewall_ai.cpp\<close>, built with \<^verbatim>\<open>NEUSTACK_AI_ENABLED\<close>): the
  cached result of the last inference, the decision it gives, and shadow mode, in which an anomaly only
  alerts, with its automatic escalation.  Feature extraction and the model, which runs in a third-party
  library, are the parameter \<open>infer\<close>; \<open>quiet\<close> is the comparison of a rate with 1.0.
\<close>

section \<open>Operations\<close>

record fw_ai_config =
  ac_shadow_mode :: bool
  ac_auto_escalate :: bool
  ac_escalate_consecutive :: u32
  ac_deescalate_normal_count :: u32
  ac_escalate_cooldown_ms :: u64
  ac_inference_interval_ms :: u32

definition fw_ai_config_default :: fw_ai_config where
  "fw_ai_config_default = \<lparr>ac_shadow_mode = True, ac_auto_escalate = False, ac_escalate_consecutive = 5,
     ac_deescalate_normal_count = 30, ac_escalate_cooldown_ms = 60000, ac_inference_interval_ms = 1000\<rparr>"

record 'f fw_ai_stats =
  as_inferences_total :: u64
  as_anomalies_detected :: u64
  as_alerts_triggered :: u64
  as_drops_by_ai :: u64
  as_last_anomaly_score :: 'f
  as_max_anomaly_score :: 'f
  as_last_anomaly_time_ms :: u64
  as_escalations :: u64
  as_deescalations :: u64

record 'f fw_ai =
  ai_config :: fw_ai_config
  ai_loaded :: bool
  ai_metrics :: sec_metrics
  ai_cached_anomaly_score :: 'f
  ai_cached_is_anomaly :: bool
  ai_stats :: "'f fw_ai_stats"
  ai_consecutive_anomaly :: u32
  ai_consecutive_normal :: u32
  ai_last_escalation_time_ms :: u64

definition fw_ai_stats_zero :: "('f :: zero) fw_ai_stats" where
  "fw_ai_stats_zero = \<lparr>as_inferences_total = 0, as_anomalies_detected = 0, as_alerts_triggered = 0, as_drops_by_ai = 0,
     as_last_anomaly_score = 0, as_max_anomaly_score = 0, as_last_anomaly_time_ms = 0, as_escalations = 0, as_deescalations = 0\<rparr>"

definition fw_ai_new :: "fw_ai_config \<Rightarrow> bool \<Rightarrow> ('f :: zero) fw_ai" where
  "fw_ai_new cfg loaded = \<lparr>ai_config = cfg, ai_loaded = loaded, ai_metrics = sec_metrics_new, ai_cached_anomaly_score = 0,
     ai_cached_is_anomaly = False,
     ai_stats = fw_ai_stats_zero,
     ai_consecutive_anomaly = 0, ai_consecutive_normal = 0, ai_last_escalation_time_ms = 0\<rparr>"

definition ai_record_packet :: "packet_event \<Rightarrow> 'f fw_ai \<Rightarrow> 'f fw_ai" where
  "ai_record_packet evt a = a\<lparr>ai_metrics := sm_record_packet (ev_total_len evt) (ev_tcp_flags evt) (ai_metrics a)\<rparr>"

definition ai_tick :: "'f fw_ai \<Rightarrow> 'f fw_ai" where
  "ai_tick a = a\<lparr>ai_metrics := sm_tick (ai_metrics a)\<rparr>"

definition ai_set_shadow_mode :: "bool \<Rightarrow> 'f fw_ai \<Rightarrow> 'f fw_ai" where
  "ai_set_shadow_mode shadow a = a\<lparr>ai_config := (ai_config a)\<lparr>ac_shadow_mode := shadow\<rparr>\<rparr>"

definition ai_set_inference_interval_ms :: "u32 \<Rightarrow> 'f fw_ai \<Rightarrow> 'f fw_ai" where
  "ai_set_inference_interval_ms ms a = a\<lparr>ai_config := (ai_config a)\<lparr>ac_inference_interval_ms := ms\<rparr>\<rparr>"

definition ai_reset_stats :: "('f :: zero) fw_ai \<Rightarrow> 'f fw_ai" where
  "ai_reset_stats a = a\<lparr>ai_stats := fw_ai_stats_zero\<rparr>"

text \<open>\<open>ok\<close>: whether the library could load the file.\<close>

definition ai_load_model :: "bool \<Rightarrow> 'f fw_ai \<Rightarrow> bool \<times> 'f fw_ai" where
  "ai_load_model ok a = (if ok then (True, a\<lparr>ai_loaded := True\<rparr>) else (False, a\<lparr>ai_loaded := False\<rparr>))"

definition ai_evaluate :: "('f :: zero) fw_ai \<Rightarrow> 'f decision" where
  "ai_evaluate a =
    (if \<not> ai_loaded a then decision_pass
     else if \<not> ai_cached_is_anomaly a then decision_pass
     else if ac_shadow_mode (ai_config a) then
       \<lparr>d_action = ALERT, d_reason = AI_ANOMALY, d_rule_id = 0, d_score = ai_cached_anomaly_score a, d_rate_current = 0,
        d_rate_limit = 0\<rparr>
     else \<lparr>d_action = DROP, d_reason = AI_ANOMALY, d_rule_id = 0, d_score = ai_cached_anomaly_score a, d_rate_current = 0,
        d_rate_limit = 0\<rparr>)"

text \<open>The automatic change of shadow mode, at the time \<open>current_ms\<close>.\<close>

definition ai_in_cooldown :: "u64 \<Rightarrow> 'f fw_ai \<Rightarrow> bool" where
  "ai_in_cooldown current_ms a \<longleftrightarrow> ai_last_escalation_time_ms a > 0 \<and>
     current_ms - ai_last_escalation_time_ms a < ac_escalate_cooldown_ms (ai_config a)"

definition ai_escalate :: "u64 \<Rightarrow> bool \<Rightarrow> 'f fw_ai \<Rightarrow> 'f fw_ai" where
  "ai_escalate current_ms is_anomaly a =
    (let in_cooldown = ai_in_cooldown current_ms a in
     if is_anomaly then
       let a = a\<lparr>ai_consecutive_anomaly := ai_consecutive_anomaly a + 1, ai_consecutive_normal := 0\<rparr> in
       if ac_shadow_mode (ai_config a) \<and> \<not> in_cooldown \<and> ai_consecutive_anomaly a \<ge> ac_escalate_consecutive (ai_config a)
       then a\<lparr>ai_config := (ai_config a)\<lparr>ac_shadow_mode := False\<rparr>, ai_consecutive_anomaly := 0,
              ai_last_escalation_time_ms := current_ms,
              ai_stats := (ai_stats a)\<lparr>as_escalations := as_escalations (ai_stats a) + 1\<rparr>\<rparr>
       else a
     else
       let a = a\<lparr>ai_consecutive_normal := ai_consecutive_normal a + 1, ai_consecutive_anomaly := 0\<rparr> in
       if \<not> ac_shadow_mode (ai_config a) \<and> \<not> in_cooldown \<and> ai_consecutive_normal a \<ge> ac_deescalate_normal_count (ai_config a)
       then a\<lparr>ai_config := (ai_config a)\<lparr>ac_shadow_mode := True\<rparr>, ai_consecutive_normal := 0,
              ai_last_escalation_time_ms := current_ms,
              ai_stats := (ai_stats a)\<lparr>as_deescalations := as_deescalations (ai_stats a) + 1\<rparr>\<rparr>
       else a)"

text \<open>The statistics of one result, and the counters of an anomaly.\<close>

definition ai_note_result :: "u64 \<Rightarrow> ('f :: ord) \<Rightarrow> bool \<Rightarrow> 'f fw_ai \<Rightarrow> 'f fw_ai" where
  "ai_note_result now_ms score is_anomaly a =
    (let a = a\<lparr>ai_cached_anomaly_score := score, ai_cached_is_anomaly := is_anomaly\<rparr>;
         st = ai_stats a;
         st = st\<lparr>as_inferences_total := as_inferences_total st + 1, as_last_anomaly_score := score\<rparr>;
         st = (if score > as_max_anomaly_score st then st\<lparr>as_max_anomaly_score := score\<rparr> else st);
         st = (if is_anomaly then st\<lparr>as_anomalies_detected := as_anomalies_detected st + 1, as_last_anomaly_time_ms := now_ms,
                 as_alerts_triggered := as_alerts_triggered st + 1\<rparr> else st)
     in if \<not> is_anomaly then a\<lparr>ai_stats := st\<rparr>
        else if ac_shadow_mode (ai_config a) then a\<lparr>ai_stats := st, ai_metrics := sm_record_alert (ai_metrics a)\<rparr>
        else a\<lparr>ai_stats := st\<lparr>as_drops_by_ai := as_drops_by_ai st + 1\<rparr>\<rparr>)"

record ('d, 'f) ai_params =
  ap_quot :: "u64 \<Rightarrow> u64 \<Rightarrow> 'd"
  ap_quiet :: "'d \<Rightarrow> bool"
  ap_infer :: "'d sec_snapshot \<Rightarrow> ('f \<times> bool) option"

definition ai_run_inference :: "('d, 'f :: {zero, ord}) ai_params \<Rightarrow> u64 \<Rightarrow> 'f fw_ai \<Rightarrow> 'f \<times> 'f fw_ai" where
  "ai_run_inference A now_ms a =
    (if \<not> ai_loaded a then (0, a)
     else
       let snapshot = sm_snapshot (ap_quot A) (ai_metrics a) in
       if ap_quiet A (sn_pps snapshot) then (0, a\<lparr>ai_cached_anomaly_score := 0, ai_cached_is_anomaly := False\<rparr>)
       else
         (case ap_infer A snapshot of
            None \<Rightarrow> (0, a)
          | Some (score, is_anomaly) \<Rightarrow>
              let a = ai_note_result now_ms score is_anomaly a in
              (score, if ac_auto_escalate (ai_config a) then ai_escalate now_ms is_anomaly a else a)))"

section \<open>Escalation\<close>

text \<open>How many results at the end of a list are anomalies, or are normal.\<close>

definition streak :: "bool \<Rightarrow> bool list \<Rightarrow> nat" where
  "streak x rs = length (takeWhile ((=) x) (rev rs))"

lemma streak_simps [simp]: "streak x [] = 0" "streak x (rs @ [y]) = (if y = x then Suc (streak x rs) else 0)"
  by (simp_all add: streak_def)

text \<open>What an inference finds, if it is made and succeeds.\<close>

definition ai_outcome :: "('d, 'f) ai_params \<Rightarrow> 'f fw_ai \<Rightarrow> bool option" where
  "ai_outcome A a =
    (let snapshot = sm_snapshot (ap_quot A) (ai_metrics a) in
     if ai_loaded a \<and> \<not> ap_quiet A (sn_pps snapshot) then map_option snd (ap_infer A snapshot) else None)"

text \<open>Everything that happens to a layer, with the results of its inferences so far.\<close>

inductive ai_history :: "('d, 'f :: {zero, ord}) ai_params \<Rightarrow> fw_ai_config \<Rightarrow> 'f fw_ai \<Rightarrow> bool list \<Rightarrow> bool"
  for A :: "('d, 'f) ai_params" and cfg :: fw_ai_config where
  history_new: "ai_history A cfg (fw_ai_new cfg loaded) []"
| history_packet: "ai_history A cfg a rs \<Longrightarrow> ai_history A cfg (ai_record_packet evt a) rs"
| history_tick: "ai_history A cfg a rs \<Longrightarrow> ai_history A cfg (ai_tick a) rs"
| history_shadow: "ai_history A cfg a rs \<Longrightarrow> ai_history A cfg (ai_set_shadow_mode shadow a) rs"
| history_interval: "ai_history A cfg a rs \<Longrightarrow> ai_history A cfg (ai_set_inference_interval_ms ms a) rs"
| history_stats: "ai_history A cfg a rs \<Longrightarrow> ai_history A cfg (ai_reset_stats a) rs"
| history_load: "ai_history A cfg a rs \<Longrightarrow> ai_history A cfg (snd (ai_load_model ok a)) rs"
| history_infer: "ai_history A cfg a rs \<Longrightarrow> ai_run_inference A now a = (score, a') \<Longrightarrow>
    ai_history A cfg a' (case ai_outcome A a of Some x \<Rightarrow> rs @ [x] | None \<Rightarrow> rs)"

lemma ai_note_result_keeps [simp]:
  "ai_config (ai_note_result now score x a) = ai_config a"
  "ai_consecutive_anomaly (ai_note_result now score x a) = ai_consecutive_anomaly a"
  "ai_consecutive_normal (ai_note_result now score x a) = ai_consecutive_normal a"
  "ai_last_escalation_time_ms (ai_note_result now score x a) = ai_last_escalation_time_ms a"
  "ai_cached_is_anomaly (ai_note_result now score x a) = x"
  "ai_cached_anomaly_score (ai_note_result now score x a) = score"
  "ai_loaded (ai_note_result now score x a) = ai_loaded a"
  by (simp_all add: ai_note_result_def Let_def)

lemma ai_metrics_keeps [simp]:
  "ai_metrics (ai_escalate now x a) = ai_metrics a" "ai_loaded (ai_escalate now x a) = ai_loaded a"
  "sm_window_count (ai_metrics (ai_note_result now score x a)) = sm_window_count (ai_metrics a)"
  "sc_packets_total (sm_current (ai_metrics (ai_note_result now score x a))) = sc_packets_total (sm_current (ai_metrics a))"
  by (simp_all add: ai_escalate_def ai_note_result_def sm_record_alert_def Let_def)

lemma unat_inc_le: "unat (n :: u32) \<le> k \<Longrightarrow> unat (n + 1) \<le> Suc k"
proof -
  assume "unat n \<le> k"
  moreover have "unat (n + 1) \<le> Suc (unat n)" by (simp only: unat_word_ariths) simp
  ultimately show ?thesis by linarith
qed

definition same_limits :: "fw_ai_config \<Rightarrow> fw_ai_config \<Rightarrow> bool" where
  "same_limits c cfg \<longleftrightarrow> ac_auto_escalate c = ac_auto_escalate cfg \<and> ac_escalate_consecutive c = ac_escalate_consecutive cfg \<and>
     ac_deescalate_normal_count c = ac_deescalate_normal_count cfg \<and> ac_escalate_cooldown_ms c = ac_escalate_cooldown_ms cfg"

lemma same_limits_upd [simp]:
  "same_limits c c" "same_limits (c\<lparr>ac_shadow_mode := s\<rparr>) cfg = same_limits c cfg"
  "same_limits (c\<lparr>ac_inference_interval_ms := ms\<rparr>) cfg = same_limits c cfg"
  by (simp_all add: same_limits_def)

definition ai_counts_ok :: "fw_ai_config \<Rightarrow> 'f fw_ai \<Rightarrow> bool list \<Rightarrow> bool" where
  "ai_counts_ok cfg a rs \<longleftrightarrow> same_limits (ai_config a) cfg \<and>
     (if ac_auto_escalate cfg
      then unat (ai_consecutive_anomaly a) \<le> streak True rs \<and> unat (ai_consecutive_normal a) \<le> streak False rs
      else ai_consecutive_anomaly a = 0 \<and> ai_consecutive_normal a = 0)"

lemma ai_run_cases:
  assumes "ai_run_inference A now a = (score, a')"
  obtains (unchanged) "ai_outcome A a = None" "a' = a"
  | (cleared) "ai_outcome A a = None" "a' = a\<lparr>ai_cached_anomaly_score := 0, ai_cached_is_anomaly := False\<rparr>"
  | (result) x where "ai_outcome A a = Some x"
      "a' = (if ac_auto_escalate (ai_config a) then ai_escalate now x (ai_note_result now score x a)
             else ai_note_result now score x a)"
  using assms
  by (auto simp: ai_run_inference_def ai_outcome_def Let_def split: if_splits option.splits)

lemma ai_escalate_counts:
  assumes "ai_counts_ok cfg a rs" and "ac_auto_escalate cfg"
  shows "ai_counts_ok cfg (ai_escalate now x a) (rs @ [x])"
  using assms by (cases x) (auto simp: ai_counts_ok_def ai_escalate_def Let_def intro: unat_inc_le)

lemma ai_history_counts: "ai_history A cfg a rs \<Longrightarrow> ai_counts_ok cfg a rs"
proof (induction rule: ai_history.induct)
  case (history_infer a rs now score a')
  from history_infer.hyps(2) show ?case
  proof (cases rule: ai_run_cases)
    case (result x)
    have noted: "ai_counts_ok cfg (ai_note_result now score x a) rs" using history_infer.IH by (simp add: ai_counts_ok_def)
    have "ac_auto_escalate (ai_config a) = ac_auto_escalate cfg" using history_infer.IH by (auto simp: ai_counts_ok_def same_limits_def)
    then show ?thesis
      using result noted ai_escalate_counts [OF noted] history_infer.IH by (auto simp: ai_counts_ok_def)
  qed (use history_infer.IH in \<open>auto simp: ai_counts_ok_def\<close>)
qed (auto simp: ai_counts_ok_def fw_ai_new_def ai_record_packet_def ai_tick_def ai_set_shadow_mode_def
    ai_set_inference_interval_ms_def ai_reset_stats_def ai_load_model_def)

lemma ai_escalate_switch:
  assumes "ac_shadow_mode (ai_config (ai_escalate now x a)) \<noteq> ac_shadow_mode (ai_config a)"
  shows "x = ac_shadow_mode (ai_config a) \<and> \<not> ai_in_cooldown now a \<and> ai_last_escalation_time_ms (ai_escalate now x a) = now \<and>
    (if x then unat (ac_escalate_consecutive (ai_config a)) \<le> unat (ai_consecutive_anomaly a + 1)
     else unat (ac_deescalate_normal_count (ai_config a)) \<le> unat (ai_consecutive_normal a + 1))"
  using assms by (auto simp: ai_escalate_def Let_def word_le_nat_alt split: if_splits)

text \<open>C29. Shadow mode changes by itself only on a streak of results and never twice within the cooldown.
  An inference switches it off only after as many consecutive anomalies as configured, and on only
  after as many consecutive normal results; it does so only with automatic escalation on, on a result of
  that kind, and not before the cooldown since the last switch has passed; and a packet is dropped for
  an anomaly exactly when the last result was one and shadow mode is off.\<close>

theorem shadow_mode_switches:
  assumes "ai_history A cfg a rs" and "ai_run_inference A now a = (score, a')"
    and "ac_shadow_mode (ai_config a') \<noteq> ac_shadow_mode (ai_config a)"
  shows "ac_auto_escalate cfg \<and> ai_outcome A a = Some (ac_shadow_mode (ai_config a)) \<and>
    (if ac_shadow_mode (ai_config a)
     then unat (ac_escalate_consecutive cfg) \<le> streak True (rs @ [True])
     else unat (ac_deescalate_normal_count cfg) \<le> streak False (rs @ [False])) \<and>
    (ai_last_escalation_time_ms a = 0 \<or> ac_escalate_cooldown_ms cfg \<le> now - ai_last_escalation_time_ms a) \<and>
    ai_last_escalation_time_ms a' = now \<and>
    (should_drop (ai_evaluate a') \<longleftrightarrow> ai_loaded a' \<and> ai_cached_is_anomaly a' \<and> \<not> ac_shadow_mode (ai_config a'))"
proof -
  have counts: "ai_counts_ok cfg a rs" using ai_history_counts [OF assms(1)] .
  from assms(2) show ?thesis
  proof (cases rule: ai_run_cases)
    case (result x)
    have auto: "ac_auto_escalate (ai_config a)" using result(2) assms(3) by (auto split: if_splits)
    have cfg: "ac_auto_escalate (ai_config a) = ac_auto_escalate cfg" "ac_escalate_consecutive (ai_config a) = ac_escalate_consecutive cfg"
      "ac_deescalate_normal_count (ai_config a) = ac_deescalate_normal_count cfg"
      "ac_escalate_cooldown_ms (ai_config a) = ac_escalate_cooldown_ms cfg" using counts by (auto simp: ai_counts_ok_def same_limits_def)
    define n where "n = ai_note_result now score x a"
    have n: "ai_config n = ai_config a" "ai_consecutive_anomaly n = ai_consecutive_anomaly a"
      "ai_consecutive_normal n = ai_consecutive_normal a" "ai_last_escalation_time_ms n = ai_last_escalation_time_ms a"
      by (simp_all add: n_def)
    have a': "a' = ai_escalate now x n" using result(2) auto by (simp add: n_def)
    have "ac_shadow_mode (ai_config (ai_escalate now x n)) \<noteq> ac_shadow_mode (ai_config n)" using assms(3) by (simp add: a' n)
    note sw = ai_escalate_switch [OF this, folded a', unfolded n]
    have streak: "unat (ai_consecutive_anomaly a + 1) \<le> Suc (streak True rs)" "unat (ai_consecutive_normal a + 1) \<le> Suc (streak False rs)"
      using counts auto cfg(1) by (simp_all add: ai_counts_ok_def unat_inc_le)
    have "ai_last_escalation_time_ms a = 0 \<or> ac_escalate_cooldown_ms cfg \<le> now - ai_last_escalation_time_ms a"
      using sw by (auto simp: ai_in_cooldown_def n cfg word_gt_0 not_less)
    then show ?thesis
      using sw streak auto cfg result(1) by (auto simp: should_drop_def ai_evaluate_def decision_pass_def split: if_splits)
  qed (use assms(3) in simp_all)
qed

definition demo_ai :: "(nat, nat) ai_params" where
  "demo_ai = \<lparr>ap_quot = \<lambda>a b. unat a div unat b, ap_quiet = \<lambda>rate. rate < 1, ap_infer = \<lambda>s. Some (9, True)\<rparr>"

definition demo_ai_cfg :: fw_ai_config where
  "demo_ai_cfg = fw_ai_config_default\<lparr>ac_auto_escalate := True, ac_escalate_consecutive := 2\<rparr>"

text \<open>One packet and two anomalous results with a limit of two: the second one ends shadow mode.\<close>

theorem shadow_mode_switches_witness:
  "\<exists>a a'. ai_history demo_ai demo_ai_cfg a [True] \<and> ai_run_inference demo_ai 2000 a = (9, a') \<and>
     ac_shadow_mode (ai_config a) \<and> \<not> ac_shadow_mode (ai_config a') \<and> should_drop (ai_evaluate a') \<and>
     2 \<le> streak True ([True] @ [True])"
proof -
  define a0 where "a0 = ai_record_packet demo_event (fw_ai_new demo_ai_cfg True :: nat fw_ai)"
  have q: "sn_pps (sm_snapshot (ap_quot demo_ai) m) \<ge> 1" if "sm_window_count m = 0" "sc_packets_total (sm_current m) = 1" for m
    using that by (simp add: sm_snapshot_def Let_def sm_total_def demo_ai_def)
  have run: "ai_run_inference demo_ai now a = (9, ai_escalate now True (ai_note_result now 9 True a))" "ai_outcome demo_ai a = Some True"
    if "ai_loaded a" "sm_window_count (ai_metrics a) = 0" "sc_packets_total (sm_current (ai_metrics a)) = 1"
      "ac_auto_escalate (ai_config a)" for a now
  proof -
    have "\<not> ap_quiet demo_ai (sn_pps (sm_snapshot (ap_quot demo_ai) (ai_metrics a)))" "ap_infer demo_ai s = Some (9, True)" for s
      using q [OF that(2,3)] by (simp_all add: demo_ai_def)
    then show "ai_run_inference demo_ai now a = (9, ai_escalate now True (ai_note_result now 9 True a))" "ai_outcome demo_ai a = Some True"
      using that(1,4) by (simp_all add: ai_run_inference_def ai_outcome_def Let_def)
  qed
  have a0: "ai_loaded a0" "sm_window_count (ai_metrics a0) = 0" "sc_packets_total (sm_current (ai_metrics a0)) = 1"
    "ai_config a0 = demo_ai_cfg" "ai_consecutive_anomaly a0 = 0" "ai_last_escalation_time_ms a0 = 0"
    by (simp_all add: a0_def ai_record_packet_def fw_ai_new_def sm_record_packet_def count_packet_def Let_def sec_metrics_new_def sec_zero_def)
  have cfg: "ac_auto_escalate demo_ai_cfg" "ac_shadow_mode demo_ai_cfg" "ac_escalate_consecutive demo_ai_cfg = 2"
    by (simp_all add: demo_ai_cfg_def fw_ai_config_default_def)
  define a1 where "a1 = ai_escalate 1000 True (ai_note_result 1000 9 True a0)"
  have a1: "ai_run_inference demo_ai 1000 a0 = (9, a1)" "ai_config a1 = demo_ai_cfg" "ai_consecutive_anomaly a1 = 1"
    "ai_last_escalation_time_ms a1 = 0" "ai_loaded a1" "sm_window_count (ai_metrics a1) = 0"
    "sc_packets_total (sm_current (ai_metrics a1)) = 1" "ai_outcome demo_ai a0 = Some True"
    using run(1) [OF a0(1-3), of 1000] run(2) [OF a0(1-3)] a0 cfg
    by (simp_all add: a1_def) (simp_all add: ai_escalate_def Let_def word_le_nat_alt)
  have shadow: "ac_shadow_mode (ai_config a1)" using a1(2) cfg(2) by simp
  have h1: "ai_history demo_ai demo_ai_cfg a1 [True]"
    using history_infer [OF history_packet [OF history_new [where A = demo_ai and cfg = demo_ai_cfg and loaded = True], of demo_event], folded a0_def, OF a1(1)] a1(8) by simp
  define a2 where "a2 = ai_escalate 2000 True (ai_note_result 2000 9 True a1)"
  have a2: "ai_run_inference demo_ai 2000 a1 = (9, a2)" "\<not> ac_shadow_mode (ai_config a2)" "ai_loaded a2" "ai_cached_is_anomaly a2"
    using run(1) [OF a1(5-7), of 2000] a1 cfg
    by (simp_all add: a2_def ai_escalate_def Let_def ai_in_cooldown_def)
  have "ac_shadow_mode (ai_config a2) \<noteq> ac_shadow_mode (ai_config a1)" using shadow a2(2) by simp
  from shadow_mode_switches [OF h1 a2(1) this] show ?thesis
    using h1 shadow a2 by (intro exI [of _ a1] exI [of _ a2]) (simp add: demo_ai_cfg_def)
qed

end
