(* ===== verification/Fixed_Pool.thy ===== *)
theory Fixed_Pool
  imports Prelude
begin

text \<open>
  The fixed-size object pool (\<^verbatim>\<open>include/neustack/common/memory_pool.hpp\<close>).  A slot holds an object or,
  overlaid on the same memory, the link of the free list; a slot is named by its index in the
  storage.  Using the memory of an object as a link, or destroying what is not an object, is
  undefined behaviour and the value \<open>None\<close> here.
\<close>

section \<open>Operations\<close>

datatype 'a slot = FreeNode "nat option" | Object 'a

record 'a pool =
  po_storage :: "'a slot list"
  po_free_head :: "nat option"
  po_in_use :: u64

text \<open>The loop of \<open>reset\<close>, from the last slot to the first.\<close>

fun pool_link :: "nat \<Rightarrow> 'a pool \<Rightarrow> 'a pool" where
  "pool_link 0 p = p"
| "pool_link (Suc i) p =
     pool_link i (p\<lparr>po_storage := (po_storage p)[i := FreeNode (po_free_head p)], po_free_head := Some i\<rparr>)"

definition pool_reset :: "'a pool \<Rightarrow> 'a pool" where
  "pool_reset p = pool_link (length (po_storage p)) (p\<lparr>po_in_use := 0, po_free_head := None\<rparr>)"

definition pool_new :: "nat \<Rightarrow> 'a pool" where
  "pool_new n = pool_reset \<lparr>po_storage = replicate n (FreeNode None), po_free_head = None, po_in_use = 0\<rparr>"

definition pool_acquire :: "'a \<Rightarrow> 'a pool \<Rightarrow> (nat option \<times> 'a pool) option" where
  "pool_acquire x p =
    (case po_free_head p of
       None \<Rightarrow> Some (None, p)
     | Some i \<Rightarrow>
        (case po_storage p ! i of
           FreeNode nx \<Rightarrow> Some (Some i, p\<lparr>po_free_head := nx, po_storage := (po_storage p)[i := Object x],
                                        po_in_use := po_in_use p + 1\<rparr>)
         | Object _ \<Rightarrow> None))"

definition pool_release :: "nat \<Rightarrow> 'a pool \<Rightarrow> 'a pool option" where
  "pool_release i p =
    (if i < length (po_storage p) then
       (case po_storage p ! i of
          Object _ \<Rightarrow> Some (p\<lparr>po_storage := (po_storage p)[i := FreeNode (po_free_head p)], po_free_head := Some i,
                               po_in_use := po_in_use p - 1\<rparr>)
        | FreeNode _ \<Rightarrow> None)
     else None)"

definition pool_capacity :: "'a pool \<Rightarrow> nat" where "pool_capacity p = length (po_storage p)"
definition pool_available :: "'a pool \<Rightarrow> u64" where "pool_available p = of_nat (pool_capacity p) - po_in_use p"
definition pool_empty :: "'a pool \<Rightarrow> bool" where "pool_empty p \<longleftrightarrow> pool_available p = 0"

text \<open>Reading and writing the object a pointer from the pool stands for.\<close>

definition pool_get :: "nat \<Rightarrow> 'a pool \<Rightarrow> 'a option" where
  "pool_get i p =
    (if i < length (po_storage p) then (case po_storage p ! i of Object x \<Rightarrow> Some x | FreeNode _ \<Rightarrow> None) else None)"

section \<open>The free list\<close>

fun free_chain :: "'a slot list \<Rightarrow> nat option \<Rightarrow> nat list \<Rightarrow> bool" where
  "free_chain st h [] \<longleftrightarrow> h = None"
| "free_chain st h (i # is) \<longleftrightarrow> h = Some i \<and> i < length st \<and> (\<exists>nx. st ! i = FreeNode nx \<and> free_chain st nx is)"

definition pool_wf :: "'a pool \<Rightarrow> bool" where
  "pool_wf p \<longleftrightarrow> (\<exists>fs. free_chain (po_storage p) (po_free_head p) fs \<and> distinct fs \<and>
     set fs = {i. i < length (po_storage p) \<and> pool_get i p = None} \<and>
     unat (po_in_use p) + length fs = length (po_storage p))"

lemma free_chain_update [simp]: "i \<notin> set is \<Longrightarrow> free_chain (st[i := s]) h is = free_chain st h is"
  by (induction "is" arbitrary: h) auto

lemma pool_get_simps:
  "pool_get j (p\<lparr>po_free_head := h\<rparr>) = pool_get j p"
  "pool_get j (p\<lparr>po_in_use := n\<rparr>) = pool_get j p"
  "i < length (po_storage p) \<Longrightarrow> pool_get j (p\<lparr>po_storage := (po_storage p)[i := s]\<rparr>) =
     (if j = i then case s of Object x \<Rightarrow> Some x | FreeNode _ \<Rightarrow> None else pool_get j p)"
  by (auto simp: pool_get_def nth_list_update)

lemma pool_get_bound: "pool_get i p \<noteq> None \<Longrightarrow> i < length (po_storage p)"
  by (simp add: pool_get_def split: if_splits)

lemma pool_get_cases: "i < length (po_storage p) \<Longrightarrow> po_storage p ! i = FreeNode nx \<Longrightarrow> pool_get i p = None"
  by (simp add: pool_get_def)

lemma pool_link_chain:
  "n \<le> length (po_storage p) \<Longrightarrow> free_chain (po_storage p) (po_free_head p) [n..<length (po_storage p)] \<Longrightarrow>
   free_chain (po_storage (pool_link n p)) (po_free_head (pool_link n p)) [0..<length (po_storage p)] \<and>
   length (po_storage (pool_link n p)) = length (po_storage p) \<and> po_in_use (pool_link n p) = po_in_use p"
proof (induction n arbitrary: p)
  case (Suc n)
  let ?p = "p\<lparr>po_storage := (po_storage p)[n := FreeNode (po_free_head p)], po_free_head := Some n\<rparr>"
  have "free_chain (po_storage ?p) (po_free_head ?p) (n # [Suc n..<length (po_storage p)])"
    using Suc.prems by simp
  also have "n # [Suc n..<length (po_storage p)] = [n..<length (po_storage p)]"
    using Suc.prems(1) by (simp add: upt_conv_Cons)
  finally show ?case using Suc.IH [of ?p] Suc.prems(1) by simp
qed simp

lemma free_chain_free: "free_chain st h fs \<Longrightarrow> i \<in> set fs \<Longrightarrow> i < length st \<and> (\<exists>nx. st ! i = FreeNode nx)"
  by (induction fs arbitrary: h) auto

lemma pool_new_facts:
  "length (po_storage (pool_new n :: 'a pool)) = n" "po_in_use (pool_new n :: 'a pool) = 0"
  "free_chain (po_storage (pool_new n :: 'a pool)) (po_free_head (pool_new n :: 'a pool)) [0..<n]"
proof -
  let ?p = "\<lparr>po_storage = replicate n (FreeNode None), po_free_head = None, po_in_use = 0\<rparr> :: 'a pool"
  have new: "pool_new n = pool_link n ?p" by (simp add: pool_new_def pool_reset_def)
  show "length (po_storage (pool_new n :: 'a pool)) = n" "po_in_use (pool_new n :: 'a pool) = 0"
    "free_chain (po_storage (pool_new n :: 'a pool)) (po_free_head (pool_new n :: 'a pool)) [0..<n]"
    using pool_link_chain [of n ?p] unfolding new by simp_all
qed

lemma pool_get_new [simp]: "pool_get i (pool_new n :: 'a pool) = None"
proof (cases "i < n")
  case True
  then obtain nx where "po_storage (pool_new n :: 'a pool) ! i = FreeNode nx"
    using free_chain_free [OF pool_new_facts(3), of i n] by auto
  then show ?thesis by (simp add: pool_get_def)
qed (simp add: pool_get_def pool_new_facts)

lemma pool_wf_new: "pool_wf (pool_new n)"
  unfolding pool_wf_def by (rule exI [of _ "[0..<n]"]) (auto simp: pool_new_facts)

lemma pool_acquire_wf:
  assumes wf: "pool_wf p" and small: "length (po_storage p) < 2 ^ 64"
  shows "\<exists>r p'. pool_acquire x p = Some (r, p') \<and> pool_wf p' \<and> length (po_storage p') = length (po_storage p) \<and>
    (case r of None \<Rightarrow> p' = p \<and> unat (po_in_use p) = length (po_storage p) \<and> (\<forall>i < length (po_storage p). pool_get i p \<noteq> None)
     | Some i \<Rightarrow> i < length (po_storage p) \<and> pool_get i p = None \<and> (\<forall>j. pool_get j p' = (if j = i then Some x else pool_get j p)) \<and>
         unat (po_in_use p') = Suc (unat (po_in_use p)) \<and> pool_release i p' = Some p)"
proof -
  obtain fs where fs: "free_chain (po_storage p) (po_free_head p) fs" "distinct fs"
    "set fs = {i. i < length (po_storage p) \<and> pool_get i p = None}" "unat (po_in_use p) + length fs = length (po_storage p)"
    using wf unfolding pool_wf_def by blast
  show ?thesis
  proof (cases fs)
    case Nil
    then have "\<forall>i < length (po_storage p). pool_get i p \<noteq> None" using fs(3) by auto
    then show ?thesis using Nil fs(1,4) wf by (simp add: pool_acquire_def)
  next
    case (Cons i fs')
    then obtain nx where i: "po_free_head p = Some i" "i < length (po_storage p)" "po_storage p ! i = FreeNode nx"
      "free_chain (po_storage p) nx fs'" using fs(1) by auto
    let ?p = "p\<lparr>po_free_head := nx, po_storage := (po_storage p)[i := Object x], po_in_use := po_in_use p + 1\<rparr>"
    have n: "unat (po_in_use p + 1) = Suc (unat (po_in_use p))"
      using fs(4) small Cons unat_add_small [of "po_in_use p" 1] by simp
    have get: "pool_get j ?p = (if j = i then Some x else pool_get j p)" for j
      using i(2) by (auto simp: pool_get_def nth_list_update)
    have "set fs' = set fs - {i}" using fs(2) Cons by auto
    then have "set fs' = {j. j < length (po_storage p) \<and> (if j = i then Some x else pool_get j p) = None}"
      unfolding fs(3) by auto
    moreover have "unat (po_in_use p + 1) + length fs' = length (po_storage p)" using n fs(4) Cons by simp
    ultimately have "pool_wf ?p"
      unfolding pool_wf_def get using i(4) fs(2) Cons by (intro exI [of _ fs']) simp
    moreover have "pool_get i p = None" using i(2,3) by (rule pool_get_cases)
    moreover have "pool_release i ?p = Some p"
      using i by (simp add: pool_release_def list_update_same_conv [THEN iffD2])
    ultimately show ?thesis using get n i by (simp add: pool_acquire_def)
  qed
qed

lemma pool_release_wf:
  assumes wf: "pool_wf p" and live: "pool_get i p = Some x"
  shows "\<exists>p'. pool_release i p = Some p' \<and> pool_wf p' \<and> length (po_storage p') = length (po_storage p) \<and>
    (\<forall>j. pool_get j p' = (if j = i then None else pool_get j p)) \<and> Suc (unat (po_in_use p')) = unat (po_in_use p)"
proof -
  obtain fs where fs: "free_chain (po_storage p) (po_free_head p) fs" "distinct fs"
    "set fs = {i. i < length (po_storage p) \<and> pool_get i p = None}" "unat (po_in_use p) + length fs = length (po_storage p)"
    using wf unfolding pool_wf_def by blast
  have i: "i < length (po_storage p)" "po_storage p ! i = Object x"
    using live by (auto simp: pool_get_def split: if_splits slot.splits)
  define n where "n = po_in_use p - 1"
  define p' where "p' = p\<lparr>po_storage := (po_storage p)[i := FreeNode (po_free_head p)], po_free_head := Some i, po_in_use := n\<rparr>"
  have get: "pool_get j p' = (if j = i then None else pool_get j p)" for j
    using i(1) by (auto simp: p'_def pool_get_def nth_list_update)
  have notin: "i \<notin> set fs" using fs(3) live by auto
  have "set (i # fs) \<subseteq> {..<length (po_storage p)}" using i(1) by (simp add: fs(3) subset_iff)
  then have "card (set (i # fs)) \<le> card {..<length (po_storage p)}" by (rule card_mono [OF finite_lessThan])
  then have "length (i # fs) \<le> length (po_storage p)" using fs(2) notin by (subst distinct_card [symmetric]) simp_all
  then have "length fs < length (po_storage p)" by simp
  then have "unat (po_in_use p) \<noteq> 0" using fs(4) by linarith
  then have "po_in_use p \<noteq> 0" by auto
  then have "unat n = unat (po_in_use p) - 1" unfolding n_def by (rule unat_minus_one)
  then have n: "unat (po_in_use p) = Suc (unat n)" using \<open>unat (po_in_use p) \<noteq> 0\<close> by linarith
  have "set (i # fs) = {j. j < length (po_storage p') \<and> pool_get j p' = None}"
    using i(1) by (auto simp: fs(3) get) (auto simp: p'_def)
  moreover have "free_chain (po_storage p') (po_free_head p') (i # fs)" using fs(1) i(1) notin by (simp add: p'_def)
  moreover have "unat (po_in_use p') + length (i # fs) = length (po_storage p')" using n fs(4) by (simp add: p'_def)
  moreover have "distinct (i # fs)" using fs(2) notin by simp
  ultimately have "pool_wf p'" unfolding pool_wf_def by blast
  moreover have "pool_release i p = Some p'" using i by (simp add: pool_release_def p'_def n_def)
  ultimately show ?thesis using get n by (intro exI [of _ p']) (simp add: p'_def)
qed

lemma pool_wf_in_use: "pool_wf p \<Longrightarrow> unat (po_in_use p) \<le> length (po_storage p)"
  unfolding pool_wf_def by (elim exE conjE) linarith

lemma in_use_card:
  assumes "pool_wf p"
  shows "unat (po_in_use p) = card {i. pool_get i p \<noteq> None}"
proof -
  obtain fs where fs: "distinct fs" "set fs = {i. i < length (po_storage p) \<and> pool_get i p = None}"
    "unat (po_in_use p) + length fs = length (po_storage p)"
    using assms unfolding pool_wf_def by blast
  have live: "{i. pool_get i p \<noteq> None} = {..<length (po_storage p)} - set fs"
    unfolding fs(2) using pool_get_bound by fastforce
  have "set fs \<subseteq> {..<length (po_storage p)}" by (simp add: fs(2) subset_iff)
  then have "card ({..<length (po_storage p)} - set fs) = length (po_storage p) - length fs"
    by (simp only: card_Diff_subset [OF finite_set] card_lessThan distinct_card [OF fs(1)])
  then show ?thesis using fs(3) unfolding live by linarith
qed

section \<open>Using a pool\<close>

text \<open>A client acquires and releases; releasing what is not an object of the pool is no step.\<close>

inductive pool_step :: "'a pool \<Rightarrow> 'a pool \<Rightarrow> bool" where
  step_acquire: "pool_acquire x p = Some (r, p') \<Longrightarrow> pool_step p p'"
| step_release: "pool_release i p = Some p' \<Longrightarrow> pool_step p p'"

lemma pool_release_live: "pool_release i p \<noteq> None \<longleftrightarrow> pool_get i p \<noteq> None"
  by (simp add: pool_release_def pool_get_def split: slot.splits)

lemma pool_run_wf:
  assumes "pool_step\<^sup>*\<^sup>* (pool_new n) p" and "n < 2 ^ 64"
  shows "pool_wf p \<and> length (po_storage p) = n"
  using assms(1)
proof (induction rule: rtranclp_induct)
  case base
  show ?case by (simp add: pool_wf_new pool_new_facts)
next
  case (step p p')
  then have p: "pool_wf p" "length (po_storage p) = n" by simp_all
  from step.hyps(2) show ?case
  proof cases
    case (step_acquire x r)
    then show ?thesis using pool_acquire_wf [OF p(1), of x] p(2) assms(2) by auto
  next
    case (step_release i)
    then obtain x where "pool_get i p = Some x" using pool_release_live [of i p] by auto
    from pool_release_wf [OF p(1) this] show ?thesis using step_release p(2) by auto
  qed
qed

text \<open>C28. The pool hands out every slot at most once.  After any run of acquisitions and releases on a
  fresh pool, \<open>acquire\<close> is defined and gives a slot that holds no object, with the object asked for
  and no other object touched, or no slot when all hold objects; \<open>release\<close> is defined exactly for
  slots that hold an object and frees only that one; releasing a slot just acquired restores the
  pool; and the number available is the number of slots without an object.\<close>

theorem fixed_pool_correct:
  assumes "pool_step\<^sup>*\<^sup>* (pool_new n) p" and "n < 2 ^ 64"
  shows "(\<exists>r p'. pool_acquire x p = Some (r, p') \<and>
      (case r of None \<Rightarrow> p' = p \<and> pool_empty p \<and> (\<forall>i < n. pool_get i p \<noteq> None)
       | Some i \<Rightarrow> i < n \<and> pool_get i p = None \<and> (\<forall>j. pool_get j p' = (if j = i then Some x else pool_get j p)) \<and>
           pool_release i p' = Some p)) \<and>
    (\<forall>i. (pool_release i p = None \<longleftrightarrow> pool_get i p = None) \<and>
       (\<forall>p'. pool_release i p = Some p' \<longrightarrow> (\<forall>j. pool_get j p' = (if j = i then None else pool_get j p)))) \<and>
    unat (pool_available p) = n - card {i. pool_get i p \<noteq> None}"
proof (intro conjI allI)
  have wf: "pool_wf p" "length (po_storage p) = n" using pool_run_wf [OF assms] by simp_all
  have avail: "unat (pool_available p) = n - unat (po_in_use p)"
  proof -
    have "unat (po_in_use p) \<le> n" using pool_wf_in_use [OF wf(1)] wf(2) by simp
    then have "po_in_use p \<le> of_nat n" using assms(2) by (simp add: word_le_nat_alt unat_of_nat_small)
    then show ?thesis
      using assms(2) by (simp add: pool_available_def pool_capacity_def wf(2) unat_sub unat_of_nat_small)
  qed
  then show "unat (pool_available p) = n - card {i. pool_get i p \<noteq> None}" by (simp only: in_use_card [OF wf(1)])
  obtain r p' where r: "pool_acquire x p = Some (r, p')"
    "case r of None \<Rightarrow> p' = p \<and> unat (po_in_use p) = length (po_storage p) \<and> (\<forall>i < length (po_storage p). pool_get i p \<noteq> None)
     | Some i \<Rightarrow> i < length (po_storage p) \<and> pool_get i p = None \<and> (\<forall>j. pool_get j p' = (if j = i then Some x else pool_get j p)) \<and>
         unat (po_in_use p') = Suc (unat (po_in_use p)) \<and> pool_release i p' = Some p"
    using pool_acquire_wf [OF wf(1), of x] assms(2) wf(2) by blast
  have "pool_empty p" if "unat (po_in_use p) = n"
    using avail that by (simp add: pool_empty_def unat_eq_0)
  then show "\<exists>r p'. pool_acquire x p = Some (r, p') \<and>
      (case r of None \<Rightarrow> p' = p \<and> pool_empty p \<and> (\<forall>i < n. pool_get i p \<noteq> None)
       | Some i \<Rightarrow> i < n \<and> pool_get i p = None \<and> (\<forall>j. pool_get j p' = (if j = i then Some x else pool_get j p)) \<and>
           pool_release i p' = Some p)"
    using r wf(2) by (intro exI [of _ r] exI [of _ p']) (auto split: option.splits)
  show "pool_release i p = None \<longleftrightarrow> pool_get i p = None" for i using pool_release_live [of i p] by blast
  show "pool_release i p = Some q \<longrightarrow> (\<forall>j. pool_get j q = (if j = i then None else pool_get j p))" for i q
    using pool_release_wf [OF wf(1), of i] pool_release_live [of i p] by fastforce
qed

theorem fixed_pool_correct_witness:
  "\<exists>p. pool_step\<^sup>*\<^sup>* (pool_new 2 :: nat pool) p \<and> pool_get 0 p = Some 7 \<and> pool_get 1 p = None \<and>
     (\<exists>p'. pool_acquire 8 p = Some (Some 1, p') \<and> pool_get 0 p' = Some 7 \<and> pool_get 1 p' = Some 8)"
proof -
  let ?p = "\<lparr>po_storage = [Object 7, FreeNode None], po_free_head = Some 1, po_in_use = 1\<rparr> :: nat pool"
  have "pool_acquire 7 (pool_new 2 :: nat pool) = Some (Some 0, ?p)"
    by (simp add: pool_new_def pool_reset_def pool_acquire_def numeral_2_eq_2)
  then have run: "pool_step\<^sup>*\<^sup>* (pool_new 2) ?p" by (blast intro: pool_step.step_acquire)
  show ?thesis
    using run fixed_pool_correct [OF run, of 8] by (intro exI [of _ ?p]) (auto simp: pool_acquire_def pool_get_def)
qed

section \<open>Scoped use\<close>

text \<open>What a client that acquires at the start of a call and releases at its end relies on.\<close>

locale object_pool =
  fixes acquire :: "'a \<Rightarrow> 'p \<Rightarrow> (nat option \<times> 'p) option"
    and release :: "nat \<Rightarrow> 'p \<Rightarrow> 'p option"
    and idle :: "'p \<Rightarrow> bool"
  assumes acquire_release: "idle p \<Longrightarrow> \<exists>i q. acquire x p = Some (Some i, q) \<and> release i q = Some p"
begin

lemma scope:
  assumes "idle p" and "\<And>i q. body (Some i, q) = Option.bind b (\<lambda>r. Option.bind (release i q) (\<lambda>p'. Some (f p' r)))"
  shows "Option.bind (acquire x p) body = map_option (f p) b"
  using acquire_release [OF assms(1), of x] assms(2) by (cases b) auto

end

definition pool_idle :: "'a pool \<Rightarrow> bool" where
  "pool_idle p \<longleftrightarrow> pool_wf p \<and> po_in_use p = 0 \<and> po_storage p \<noteq> [] \<and> length (po_storage p) < 2 ^ 64"

lemma pool_idle_new:
  assumes "0 < n" and "n < 2 ^ 64"
  shows "pool_idle (pool_new n :: 'a pool)"
proof -
  have "length (po_storage (pool_new n :: 'a pool)) = n" by (rule pool_new_facts(1))
  moreover from this have "po_storage (pool_new n :: 'a pool) \<noteq> []" using assms(1) by force
  ultimately show ?thesis using assms(2) by (simp add: pool_idle_def pool_wf_new pool_new_facts(2))
qed

interpretation scoped: object_pool pool_acquire pool_release pool_idle
proof
  fix x :: 'a and p :: "'a pool"
  assume idle: "pool_idle p"
  obtain r q where r: "pool_acquire x p = Some (r, q)"
    "case r of None \<Rightarrow> q = p \<and> unat (po_in_use p) = length (po_storage p) \<and> (\<forall>i < length (po_storage p). pool_get i p \<noteq> None)
     | Some i \<Rightarrow> i < length (po_storage p) \<and> pool_get i p = None \<and> (\<forall>j. pool_get j q = (if j = i then Some x else pool_get j p)) \<and>
         unat (po_in_use q) = Suc (unat (po_in_use p)) \<and> pool_release i q = Some p"
    using pool_acquire_wf [of p x] idle by (auto simp: pool_idle_def)
  have "r \<noteq> None"
  proof
    assume "r = None"
    then have "unat (po_in_use p) = length (po_storage p)" using r(2) by simp
    then show False using idle by (simp add: pool_idle_def)
  qed
  then show "\<exists>i q. pool_acquire x p = Some (Some i, q) \<and> pool_release i q = Some p" using r by auto
qed

end
