(* ===== verification/Firewall_Engine.thy ===== *)
theory Firewall_Engine
  imports Firewall_Ai Fixed_Pool Ipv4
begin

text \<open>
  The firewall in front of the stack (\<^verbatim>\<open>src/firewall/firewall_engine.cpp\<close>): from the bytes of a packet, or
  from a parsed one, to an event, from the event to a decision of the rules and the anomaly layer, and the
  statistics.  A read outside the received bytes is undefined behaviour and the value \<open>None\<close>.  The two
  readings of the clock in a call are its parameters \<open>t1\<close> and \<open>t2\<close>.
\<close>

section \<open>State\<close>

record fw_stats =
  fs_packets_inspected :: u64
  fs_packets_passed :: u64
  fs_packets_dropped :: u64
  fs_packets_alerted :: u64
  fs_pool_acquire_failed :: u64

definition fw_stats_zero :: fw_stats where
  "fw_stats_zero = \<lparr>fs_packets_inspected = 0, fs_packets_passed = 0, fs_packets_dropped = 0, fs_packets_alerted = 0,
     fs_pool_acquire_failed = 0\<rparr>"

text \<open>\<open>fw_decisions\<close> is what the decision callback has been told, if one is set.\<close>

record ('d, 'f) firewall =
  fw_enabled :: bool
  fw_shadow_mode :: bool
  fw_rule_engine :: "'d rule_engine"
  fw_ai :: "'f fw_ai option"
  fw_last_tick_time :: int
  fw_last_inference_time :: int
  fw_event_pool :: "packet_event pool"
  fw_decision_pool :: "'f decision pool"
  fw_stats :: fw_stats
  fw_on_decision :: bool
  fw_decisions :: "(packet_event \<times> 'f decision) list"

definition event_zero :: packet_event where
  "event_zero = \<lparr>ev_src_ip = 0, ev_dst_ip = 0, ev_src_port = 0, ev_dst_port = 0, ev_protocol = 0, ev_tcp_flags = 0,
     ev_total_len = 0, ev_payload_len = 0, ev_reserved = 0, ev_timestamp_us = 0, ev_raw_packet = []\<rparr>"

definition firewall_new :: "bool \<Rightarrow> bool \<Rightarrow> int \<Rightarrow> ('d, 'f) firewall" where
  "firewall_new enabled shadow now = \<lparr>fw_enabled = enabled, fw_shadow_mode = shadow, fw_rule_engine = engine_new, fw_ai = None,
     fw_last_tick_time = now, fw_last_inference_time = now, fw_event_pool = pool_new 4096, fw_decision_pool = pool_new 4096,
     fw_stats = fw_stats_zero, fw_on_decision = False, fw_decisions = []\<rparr>"

section \<open>Events\<close>

definition parse_packet :: "u64 \<Rightarrow> bytes \<Rightarrow> packet_event option option" where
  "parse_packet now data =
    (if length data < 20 then Some None
     else if drop_bit 4 (data ! 0) AND 0x0F \<noteq> 4 then Some None
     else
       let ip_header_len = hdr_length data in
       if ip_header_len < 20 \<or> ip_header_len > length data then Some None
       else
         let total_len = ntohs (ld16 data 2) in
         if unat total_len > length data then Some None
         else
           let evt = \<lparr>ev_src_ip = ld32 data 12, ev_dst_ip = ld32 data 16, ev_src_port = 0, ev_dst_port = 0,
                      ev_protocol = data ! 9, ev_tcp_flags = 0, ev_total_len = total_len, ev_payload_len = 0,
                      ev_reserved = 0, ev_timestamp_us = now, ev_raw_packet = data\<rparr>;
               transport_len = ucast total_len - of_nat ip_header_len :: u64
           in if data ! 9 = 6 \<and> transport_len \<ge> 20 then do {
                sport \<leftarrow> rd16 data ip_header_len;
                dport \<leftarrow> rd16 data (ip_header_len + 2);
                flags \<leftarrow> rd8 data (ip_header_len + 13);
                offset \<leftarrow> rd8 data (ip_header_len + 12);
                let tcp_data_offset = drop_bit 4 offset * 4;
                let evt = evt\<lparr>ev_src_port := ntohs sport, ev_dst_port := ntohs dport, ev_tcp_flags := flags\<rparr>;
                Some (Some (if ucast tcp_data_offset \<le> transport_len
                            then evt\<lparr>ev_payload_len := ucast (transport_len - ucast tcp_data_offset)\<rparr> else evt))
              }
              else if data ! 9 = 17 \<and> transport_len \<ge> 8 then do {
                sport \<leftarrow> rd16 data ip_header_len;
                dport \<leftarrow> rd16 data (ip_header_len + 2);
                Some (Some (evt\<lparr>ev_src_port := ntohs sport, ev_dst_port := ntohs dport,
                                ev_payload_len := ucast (transport_len - 8)\<rparr>))
              }
              else if data ! 9 = 1 then Some (Some (evt\<lparr>ev_payload_len := ucast transport_len\<rparr>))
              else Some (Some evt))"

definition fill_event_from_ipv4 :: "u64 \<Rightarrow> ipv4_packet \<Rightarrow> packet_event" where
  "fill_event_from_ipv4 now pkt =
    (let evt = \<lparr>ev_src_ip = htonl (ip_src_addr pkt), ev_dst_ip = htonl (ip_dst_addr pkt), ev_src_port = 0, ev_dst_port = 0,
                ev_protocol = ip_protocol pkt, ev_tcp_flags = 0, ev_total_len = ip_total_length pkt,
                ev_payload_len = of_nat (length (ip_payload pkt)), ev_reserved = 0, ev_timestamp_us = now,
                ev_raw_packet = ip_raw_data pkt\<rparr>
     in if length (ip_payload pkt) \<ge> 8 then
          let evt = (if ip_protocol pkt = 6 \<or> ip_protocol pkt = 17
                     then evt\<lparr>ev_src_port := ntohs (ld16 (ip_payload pkt) 0), ev_dst_port := ntohs (ld16 (ip_payload pkt) 2)\<rparr>
                     else evt)
          in if ip_protocol pkt = 6 \<and> length (ip_payload pkt) \<ge> 14 then evt\<lparr>ev_tcp_flags := ip_payload pkt ! 13\<rparr> else evt
        else evt)"

section \<open>Decisions\<close>

definition fw_evaluate ::
  "'d rate_math \<Rightarrow> u64 \<Rightarrow> packet_event \<Rightarrow> ('d, 'f :: zero) firewall \<Rightarrow> ('f decision \<times> ('d, 'f) firewall) option" where
  "fw_evaluate M now evt fw = do {
     (d, re) \<leftarrow> engine_evaluate M evt now (fw_rule_engine fw);
     let fw = fw\<lparr>fw_rule_engine := re\<rparr>;
     Some (if should_drop d then d
           else (case fw_ai fw of
                   Some a \<Rightarrow>
                     if ai_loaded a \<and> (is_alert (ai_evaluate a) \<or> should_drop (ai_evaluate a)) then ai_evaluate a else d
                 | None \<Rightarrow> d), fw)
   }"

definition record_decision :: "packet_event \<Rightarrow> 'f decision \<Rightarrow> ('d, 'f) firewall \<Rightarrow> ('d, 'f) firewall" where
  "record_decision evt d fw =
    (let st = fw_stats fw;
         st = st\<lparr>fs_packets_inspected := fs_packets_inspected st + 1\<rparr>;
         st = (case d_action d of
                 PASS \<Rightarrow> st\<lparr>fs_packets_passed := fs_packets_passed st + 1\<rparr>
               | LOG \<Rightarrow> st\<lparr>fs_packets_passed := fs_packets_passed st + 1\<rparr>
               | DROP \<Rightarrow> st\<lparr>fs_packets_dropped := fs_packets_dropped st + 1\<rparr>
               | ALERT \<Rightarrow> st\<lparr>fs_packets_alerted := fs_packets_alerted st + 1, fs_packets_passed := fs_packets_passed st + 1\<rparr>)
     in fw\<lparr>fw_stats := st, fw_decisions := fw_decisions fw @ (if fw_on_decision fw then [(evt, d)] else [])\<rparr>)"

definition note_pool_failure :: "('d, 'f) firewall \<Rightarrow> ('d, 'f) firewall" where
  "note_pool_failure fw =
     fw\<lparr>fw_stats := (fw_stats fw)\<lparr>fs_pool_acquire_failed := fs_pool_acquire_failed (fw_stats fw) + 1\<rparr>\<rparr>"

definition ai_note :: "packet_event \<Rightarrow> ('d, 'f) firewall \<Rightarrow> ('d, 'f) firewall" where
  "ai_note evt fw = fw\<lparr>fw_ai := map_option (ai_record_packet evt) (fw_ai fw)\<rparr>"

text \<open>From the event on, as both overloads of \<open>inspect\<close> continue; the decision is in its pool until the return.\<close>

definition inspect_event ::
  "'d rate_math \<Rightarrow> u64 \<Rightarrow> packet_event \<Rightarrow> ('d, 'f :: zero) firewall \<Rightarrow> (bool \<times> ('d, 'f) firewall) option" where
  "inspect_event M now evt fw = do {
     let fw = ai_note evt fw;
     (slot, pool) \<leftarrow> pool_acquire decision_pass (fw_decision_pool fw);
     case slot of
       None \<Rightarrow> Some (True, note_pool_failure fw)
     | Some i \<Rightarrow> do {
         (d, fw) \<leftarrow> fw_evaluate M now evt (fw\<lparr>fw_decision_pool := pool\<rparr>);
         let fw = record_decision evt d fw;
         pool \<leftarrow> pool_release i (fw_decision_pool fw);
         Some (should_pass d, fw\<lparr>fw_decision_pool := pool\<rparr>)
       }
   }"

definition inspect ::
  "'d rate_math \<Rightarrow> u64 \<Rightarrow> u64 \<Rightarrow> bytes \<Rightarrow> ('d, 'f :: zero) firewall \<Rightarrow> (bool \<times> ('d, 'f) firewall) option" where
  "inspect M t1 t2 data fw =
    (if \<not> fw_enabled fw then
       (case fw_ai fw of
          None \<Rightarrow> Some (True, fw)
        | Some _ \<Rightarrow> do {
            (slot, pool) \<leftarrow> pool_acquire event_zero (fw_event_pool fw);
            case slot of
              None \<Rightarrow> Some (True, fw)
            | Some i \<Rightarrow> do {
                parsed \<leftarrow> parse_packet t1 data;
                pool \<leftarrow> pool_release i pool;
                Some (True, (case parsed of Some evt \<Rightarrow> ai_note evt fw | None \<Rightarrow> fw)\<lparr>fw_event_pool := pool\<rparr>)
              }
          })
     else do {
       (slot, pool) \<leftarrow> pool_acquire event_zero (fw_event_pool fw);
       case slot of
         None \<Rightarrow> Some (True, note_pool_failure fw)
       | Some i \<Rightarrow> do {
           parsed \<leftarrow> parse_packet t1 data;
           let fw = fw\<lparr>fw_event_pool := pool\<rparr>;
           (ok, fw) \<leftarrow> (case parsed of
              None \<Rightarrow> Some (False, fw\<lparr>fw_stats := (fw_stats fw)
                \<lparr>fs_packets_inspected := fs_packets_inspected (fw_stats fw) + 1,
                 fs_packets_dropped := fs_packets_dropped (fw_stats fw) + 1\<rparr>\<rparr>)
            | Some evt \<Rightarrow> inspect_event M t2 evt fw);
           pool \<leftarrow> pool_release i (fw_event_pool fw);
           Some (ok, fw\<lparr>fw_event_pool := pool\<rparr>)
         }
     })"

definition inspect_packet ::
  "'d rate_math \<Rightarrow> u64 \<Rightarrow> u64 \<Rightarrow> ipv4_packet \<Rightarrow> ('d, 'f :: zero) firewall \<Rightarrow> (bool \<times> ('d, 'f) firewall) option" where
  "inspect_packet M t1 t2 pkt fw =
    (if \<not> fw_enabled fw then
       (case fw_ai fw of
          None \<Rightarrow> Some (True, fw)
        | Some _ \<Rightarrow> do {
            (slot, pool) \<leftarrow> pool_acquire event_zero (fw_event_pool fw);
            case slot of
              None \<Rightarrow> Some (True, fw)
            | Some i \<Rightarrow> do {
                pool \<leftarrow> pool_release i pool;
                Some (True, (ai_note (fill_event_from_ipv4 t1 pkt) fw)\<lparr>fw_event_pool := pool\<rparr>)
              }
          })
     else do {
       (slot, pool) \<leftarrow> pool_acquire event_zero (fw_event_pool fw);
       case slot of
         None \<Rightarrow> Some (True, note_pool_failure fw)
       | Some i \<Rightarrow> do {
           (ok, fw) \<leftarrow> inspect_event M t2 (fill_event_from_ipv4 t1 pkt) (fw\<lparr>fw_event_pool := pool\<rparr>);
           pool \<leftarrow> pool_release i (fw_event_pool fw);
           Some (ok, fw\<lparr>fw_event_pool := pool\<rparr>)
         }
     })"

section \<open>Configuration and timer\<close>

definition fw_set_enabled :: "bool \<Rightarrow> ('d, 'f) firewall \<Rightarrow> ('d, 'f) firewall" where
  "fw_set_enabled on fw = fw\<lparr>fw_enabled := on\<rparr>"

definition fw_set_shadow_mode :: "bool \<Rightarrow> ('d, 'f) firewall \<Rightarrow> ('d, 'f) firewall" where
  "fw_set_shadow_mode shadow fw = fw\<lparr>fw_shadow_mode := shadow\<rparr>"

definition fw_set_ai :: "'f fw_ai option \<Rightarrow> ('d, 'f) firewall \<Rightarrow> ('d, 'f) firewall" where
  "fw_set_ai ai fw = fw\<lparr>fw_ai := ai\<rparr>"

definition set_decision_callback :: "bool \<Rightarrow> ('d, 'f) firewall \<Rightarrow> ('d, 'f) firewall" where
  "set_decision_callback cb fw = fw\<lparr>fw_on_decision := cb\<rparr>"

definition fw_reset_stats :: "('d, 'f) firewall \<Rightarrow> ('d, 'f) firewall" where
  "fw_reset_stats fw = fw\<lparr>fw_stats := fw_stats_zero\<rparr>"

text \<open>\<open>loaded\<close>: whether the model file could be loaded.\<close>

definition enable_ai :: "bool \<Rightarrow> ('d, 'f :: zero) firewall \<Rightarrow> bool \<times> ('d, 'f) firewall" where
  "enable_ai loaded fw =
    (let a = fw_ai_new (fw_ai_config_default\<lparr>ac_shadow_mode := fw_shadow_mode fw\<rparr>) loaded
     in if loaded then (True, fw\<lparr>fw_ai := Some a\<rparr>) else (False, fw\<lparr>fw_ai := None\<rparr>))"

text \<open>The constructor with its configuration; \<open>ai\<close>: whether a configured model could be loaded.\<close>

definition firewall_create :: "bool \<Rightarrow> bool \<Rightarrow> bool option \<Rightarrow> int \<Rightarrow> ('d, 'f :: zero) firewall" where
  "firewall_create enabled shadow ai now =
    (case ai of None \<Rightarrow> firewall_new enabled shadow now | Some loaded \<Rightarrow> snd (enable_ai loaded (firewall_new enabled shadow now)))"

definition disable_ai :: "('d, 'f) firewall \<Rightarrow> ('d, 'f) firewall" where "disable_ai fw = fw\<lparr>fw_ai := None\<rparr>"

definition fw_on_timer :: "('e, 'f :: {zero, ord}) ai_params \<Rightarrow> int \<Rightarrow> ('d, 'f) firewall \<Rightarrow> ('d, 'f) firewall" where
  "fw_on_timer A now_ms fw =
    (case fw_ai fw of
       None \<Rightarrow> fw
     | Some a \<Rightarrow>
         let (a, fw) = (if now_ms - fw_last_tick_time fw \<ge> 1000
                        then (ai_tick a, fw\<lparr>fw_last_tick_time := now_ms\<rparr>) else (a, fw));
             (a, fw) = (if ai_loaded a \<and>
                           now_ms - fw_last_inference_time fw \<ge> uint (ac_inference_interval_ms (ai_config a))
                        then (snd (ai_run_inference A (of_int now_ms) a), fw\<lparr>fw_last_inference_time := now_ms\<rparr>)
                        else (a, fw))
         in fw\<lparr>fw_ai := Some a\<rparr>)"

section \<open>Calls without their pools\<close>

text \<open>What a call decides for an event, when the pools have a free slot.\<close>

definition decide :: "'d rate_math \<Rightarrow> u64 \<Rightarrow> packet_event \<Rightarrow> ('d, 'f :: zero) firewall \<Rightarrow> (bool \<times> ('d, 'f) firewall) option" where
  "decide M now evt fw =
     map_option (\<lambda>(d, fw). (should_pass d, record_decision evt d fw)) (fw_evaluate M now evt (ai_note evt fw))"

definition malformed :: "('d, 'f) firewall \<Rightarrow> ('d, 'f) firewall" where
  "malformed fw = fw\<lparr>fw_stats := (fw_stats fw)
     \<lparr>fs_packets_inspected := fs_packets_inspected (fw_stats fw) + 1,
      fs_packets_dropped := fs_packets_dropped (fw_stats fw) + 1\<rparr>\<rparr>"

definition pools_idle :: "('d, 'f) firewall \<Rightarrow> bool" where
  "pools_idle fw \<longleftrightarrow> pool_idle (fw_event_pool fw) \<and> pool_idle (fw_decision_pool fw)"

lemma fw_evaluate_pools:
  "fw_evaluate M now evt (fw\<lparr>fw_event_pool := p\<rparr>) =
     map_option (\<lambda>(d, fw). (d, fw\<lparr>fw_event_pool := p\<rparr>)) (fw_evaluate M now evt fw)"
  "fw_evaluate M now evt (fw\<lparr>fw_decision_pool := q\<rparr>) =
     map_option (\<lambda>(d, fw). (d, fw\<lparr>fw_decision_pool := q\<rparr>)) (fw_evaluate M now evt fw)"
  by (auto simp: fw_evaluate_def Let_def split: Option.bind_splits prod.splits)

lemma fw_evaluate_frame:
  assumes "fw_evaluate M now evt fw = Some (d, fw')"
  shows "\<exists>re. fw' = fw\<lparr>fw_rule_engine := re\<rparr>"
  using assms by (auto simp: fw_evaluate_def Let_def)

lemma ai_note_pools [simp]:
  "fw_event_pool (ai_note evt fw) = fw_event_pool fw" "fw_decision_pool (ai_note evt fw) = fw_decision_pool fw"
  "ai_note evt (fw\<lparr>fw_event_pool := p\<rparr>) = (ai_note evt fw)\<lparr>fw_event_pool := p\<rparr>"
  "fw_enabled (ai_note evt fw) = fw_enabled fw" "fw_stats (ai_note evt fw) = fw_stats fw"
  by (simp_all add: ai_note_def)

lemma record_decision_pools [simp]:
  "fw_event_pool (record_decision evt d fw) = fw_event_pool fw" "fw_decision_pool (record_decision evt d fw) = fw_decision_pool fw"
  "record_decision evt d (fw\<lparr>fw_event_pool := p\<rparr>) = (record_decision evt d fw)\<lparr>fw_event_pool := p\<rparr>"
  "record_decision evt d (fw\<lparr>fw_decision_pool := q\<rparr>) = (record_decision evt d fw)\<lparr>fw_decision_pool := q\<rparr>"
  by (simp_all add: record_decision_def Let_def)

lemma pool_scope:
  assumes "pool_idle p"
  obtains i q where "pool_acquire x p = Some (Some i, q)" "pool_release i q = Some p"
  using scoped.acquire_release [OF assms, of x] by blast

lemma inspect_event_eq:
  fixes fw :: "('d, 'f :: zero) firewall"
  assumes "pool_idle (fw_decision_pool fw)"
  shows "inspect_event M now evt fw = decide M now evt fw"
proof -
  obtain i q where q: "pool_acquire (decision_pass :: 'f decision) (fw_decision_pool fw) = Some (Some i, q)"
    "pool_release i q = Some (fw_decision_pool fw)" using assms by (rule pool_scope)
  show ?thesis
  proof (cases "fw_evaluate M now evt (ai_note evt fw)")
    case None
    then show ?thesis using q by (simp add: inspect_event_def decide_def Let_def fw_evaluate_pools)
  next
    case (Some r)
    obtain d fw' where r: "r = (d, fw')" by (rule prod.exhaust)
    obtain re where "fw' = (ai_note evt fw)\<lparr>fw_rule_engine := re\<rparr>" using fw_evaluate_frame Some r by blast
    then have "fw'\<lparr>fw_decision_pool := fw_decision_pool fw\<rparr> = fw'" by simp
    then have "(record_decision evt d fw')\<lparr>fw_decision_pool := fw_decision_pool fw\<rparr> = record_decision evt d fw'"
      by (metis record_decision_pools(4))
    then show ?thesis
      using q Some r by (simp add: inspect_event_def decide_def Let_def fw_evaluate_pools)
  qed
qed

lemma decide_frame:
  assumes "decide M now evt fw = Some (ok, fw')"
  shows "fw_event_pool fw' = fw_event_pool fw \<and> fw_decision_pool fw' = fw_decision_pool fw \<and> fw_enabled fw' = fw_enabled fw"
  using assms fw_evaluate_frame [of M now evt "ai_note evt fw"]
  by (auto simp: decide_def record_decision_def Let_def ai_note_def)

lemma decide_event_pool:
  "decide M now evt (fw\<lparr>fw_event_pool := p\<rparr>) = map_option (\<lambda>(ok, fw). (ok, fw\<lparr>fw_event_pool := p\<rparr>)) (decide M now evt fw)"
  by (auto simp: decide_def fw_evaluate_pools option.map_comp comp_def intro!: option.map_cong0 split: prod.splits)

lemma event_scope:
  assumes "pools_idle fw" and f: "\<forall>p. run (fw\<lparr>fw_event_pool := p\<rparr>) = map_option (\<lambda>(ok, fw). (ok, fw\<lparr>fw_event_pool := p\<rparr>)) (run fw)"
    and g: "\<forall>ok fw'. run fw = Some (ok, fw') \<longrightarrow> fw_event_pool fw' = fw_event_pool fw"
  shows "Option.bind (pool_acquire event_zero (fw_event_pool fw)) (\<lambda>(slot, pool). case slot of None \<Rightarrow> e
      | Some i \<Rightarrow> Option.bind (run (fw\<lparr>fw_event_pool := pool\<rparr>)) (\<lambda>(ok, fw). Option.bind (pool_release i (fw_event_pool fw))
          (\<lambda>pool. Some (ok, fw\<lparr>fw_event_pool := pool\<rparr>)))) = run fw"
proof -
  have "pool_idle (fw_event_pool fw)" using assms(1) by (simp add: pools_idle_def)
  then obtain i q where q: "pool_acquire event_zero (fw_event_pool fw) = Some (Some i, q)"
    "pool_release i q = Some (fw_event_pool fw)" by (rule pool_scope)
  show ?thesis
  proof (cases "run fw")
    case (Some r)
    then obtain ok fw' where r: "r = (ok, fw')" by (cases r) auto
    have "fw'\<lparr>fw_event_pool := fw_event_pool fw\<rparr> = fw'" using g Some r by simp
    then show ?thesis using q Some r by (simp add: f)
  qed (use q in \<open>simp add: f\<close>)
qed

lemma inspect_eq:
  assumes "pools_idle fw" and "fw_enabled fw"
  shows "inspect M t1 t2 data fw =
    (case parse_packet t1 data of
       None \<Rightarrow> None
     | Some None \<Rightarrow> Some (False, malformed fw)
     | Some (Some evt) \<Rightarrow> decide M t2 evt fw)"
proof (cases "parse_packet t1 data")
  case None
  have "pool_idle (fw_event_pool fw)" using assms(1) by (simp add: pools_idle_def)
  then obtain i q where "pool_acquire event_zero (fw_event_pool fw) = Some (Some i, q)" by (rule pool_scope)
  then show ?thesis using None assms(2) by (simp add: inspect_def)
next
  case (Some parsed)
  let ?run = "\<lambda>fw. case parsed of None \<Rightarrow> Some (False, malformed fw) | Some evt \<Rightarrow> inspect_event M t2 evt fw"
  have idle: "pool_idle (fw_decision_pool fw)" using assms(1) by (simp add: pools_idle_def)
  have eq: "\<forall>p. ?run (fw\<lparr>fw_event_pool := p\<rparr>) = map_option (\<lambda>(ok, fw). (ok, fw\<lparr>fw_event_pool := p\<rparr>)) (?run fw)"
    using idle by (cases parsed) (simp_all add: malformed_def inspect_event_eq decide_event_pool)
  have keep: "\<forall>ok fw'. ?run fw = Some (ok, fw') \<longrightarrow> fw_event_pool fw' = fw_event_pool fw"
    using idle by (cases parsed) (auto simp: malformed_def inspect_event_eq dest: decide_frame)
  have "inspect M t1 t2 data fw = ?run fw"
    using event_scope [of fw ?run "Some (True, note_pool_failure fw)", OF assms(1) eq keep] Some assms(2)
    by (simp add: inspect_def malformed_def case_prod_beta Let_def cong: option.case_cong)
  then show ?thesis using Some idle by (simp add: inspect_event_eq split: option.split)
qed

lemma inspect_packet_eq:
  assumes "pools_idle fw" and "fw_enabled fw"
  shows "inspect_packet M t1 t2 pkt fw = decide M t2 (fill_event_from_ipv4 t1 pkt) fw"
proof -
  let ?run = "inspect_event M t2 (fill_event_from_ipv4 t1 pkt)"
  have idle: "pool_idle (fw_decision_pool fw)" using assms(1) by (simp add: pools_idle_def)
  have eq: "\<forall>p. ?run (fw\<lparr>fw_event_pool := p\<rparr>) = map_option (\<lambda>(ok, fw). (ok, fw\<lparr>fw_event_pool := p\<rparr>)) (?run fw)"
    using idle by (simp add: inspect_event_eq decide_event_pool)
  have keep: "\<forall>ok fw'. ?run fw = Some (ok, fw') \<longrightarrow> fw_event_pool fw' = fw_event_pool fw"
    using idle by (auto simp: inspect_event_eq dest: decide_frame)
  show ?thesis
    using event_scope [of fw ?run "Some (True, note_pool_failure fw)", OF assms(1) eq keep] assms(2) idle
    by (simp add: inspect_packet_def inspect_event_eq [OF idle] case_prod_beta cong: option.case_cong)
qed

section \<open>Parsing\<close>

lemma version_nibble: "drop_bit 4 (w :: u8) AND 0x0F = drop_bit 4 w"
proof -
  have "(0x0F :: u8) = mask 4" by (simp add: mask_eq_exp_minus_1)
  then have "drop_bit 4 w AND 0x0F = take_bit 4 (drop_bit 4 w)" by (simp only: take_bit_eq_mask)
  also have "\<dots> = drop_bit 4 w" by (rule bit_word_eqI) (auto simp: bit_simps dest: bit_imp_le_length)
  finally show ?thesis .
qed

lemma unat_ucast_16_64: "unat (ucast (w :: u16) :: u64) = unat w"
  using unat_lt_2_16 [of w] by (simp add: unsigned_ucast_eq take_bit_nat_eq_self)

lemma hdr_length_bound: "hdr_length data \<le> 60"
proof -
  have "hdr_ihl data \<le> 0x0F" by (simp add: hdr_ihl_def word_and_le1)
  then show ?thesis by (simp add: hdr_length_def word_le_nat_alt)
qed

lemma transport_len_fits:
  assumes "h \<le> unat (tl16 :: u16)"
  shows "unat (ucast tl16 - of_nat h :: u64) = unat tl16 - h"
proof -
  have h: "unat (of_nat h :: u64) = h" using assms unat_lt_2_16 [of tl16] by (intro unat_of_nat_small) simp
  then have "(of_nat h :: u64) \<le> ucast tl16" using assms by (simp add: word_le_nat_alt unat_ucast_16_64)
  then show ?thesis by (simp add: unat_sub h unat_ucast_16_64)
qed

lemma transport_len_wraps:
  assumes "unat (tl16 :: u16) < h" and "h \<le> 60"
  shows "100 \<le> unat (ucast tl16 - of_nat h :: u64)"
proof -
  have h: "unat (of_nat h :: u64) = h" using assms(2) by (intro unat_of_nat_small) simp
  have "unat (ucast tl16 - of_nat h :: u64) = unat tl16 + 2 ^ 64 - h"
    using assms(1) by (simp add: unat_sub_if_size h unat_ucast_16_64 word_size)
  then show ?thesis using assms(2) by simp
qed

text \<open>A frame whose total length is less than its header, that ends before the ports or the flags.\<close>

definition reads_outside :: "bytes \<Rightarrow> bool" where
  "reads_outside data \<longleftrightarrow> 20 \<le> length data \<and> hdr_version data = 4 \<and> 20 \<le> hdr_length data \<and> hdr_length data \<le> length data \<and>
     unat (ntohs (ld16 data 2)) < hdr_length data \<and>
     (data ! 9 = 6 \<and> length data < hdr_length data + 14 \<or> data ! 9 = 17 \<and> length data < hdr_length data + 4)"

lemma parse_packet_outside: "parse_packet t data = None \<longleftrightarrow> reads_outside data"
proof (cases "20 \<le> length data \<and> hdr_version data = 4 \<and> 20 \<le> hdr_length data \<and> hdr_length data \<le> length data \<and>
    unat (ntohs (ld16 data 2)) \<le> length data")
  case False
  then show ?thesis by (auto simp: parse_packet_def reads_outside_def Let_def version_nibble hdr_version_def)
next
  case True
  let ?total = "ntohs (ld16 data 2)" and ?h = "hdr_length data"
  let ?len = "ucast ?total - of_nat ?h :: u64"
  have base: "parse_packet t data = None \<longleftrightarrow>
      (data ! 9 = 6 \<and> ?len \<ge> 20 \<and> length data < ?h + 14) \<or> (data ! 9 = 17 \<and> ?len \<ge> 8 \<and> length data < ?h + 4)"
    using True by (auto simp: parse_packet_def Let_def version_nibble hdr_version_def rd16_def rd8_def split: Option.bind_splits if_splits)
  show ?thesis
  proof (cases "unat ?total < ?h")
    case less: True
    have "?len \<ge> 20" "?len \<ge> 8"
      using transport_len_wraps [OF less hdr_length_bound] by (simp_all add: word_le_nat_alt)
    then show ?thesis using base less True by (auto simp: reads_outside_def)
  next
    case False
    then have u: "unat ?len = unat ?total - ?h" by (intro transport_len_fits) simp
    have "length data \<ge> ?h + 14" if "?len \<ge> 20"
    proof -
      have "20 \<le> unat ?total - ?h" using that u by (simp add: word_le_nat_alt)
      then show ?thesis using True by linarith
    qed
    moreover have "length data \<ge> ?h + 4" if "?len \<ge> 8"
    proof -
      have "8 \<le> unat ?total - ?h" using that u by (simp add: word_le_nat_alt)
      then show ?thesis using True by linarith
    qed
    ultimately show ?thesis using base False by (auto simp: reads_outside_def)
  qed
qed

definition short_frame :: bytes where
  "short_frame = [0x45, 0, 0, 0, 0, 0, 0, 0, 64, 6, 0, 0, 10, 0, 0, 1, 10, 0, 0, 2]"

text \<open>C31. The firewall reads past the end of a crafted packet.  The length of the transport part is the
  difference of total length and header length as unsigned 64-bit numbers; when the total length is the
  smaller one it is close to two to the 64, and the ports and flags are read from after the header even
  when the packet has ended: a bare header of twenty bytes with total length 0 and protocol 6 is enough.
  That is the only case: every other input, and every well-formed packet, is read inside its bytes.\<close>

theorem parse_packet_bounds:
  "(parse_packet t data = None \<longleftrightarrow> reads_outside data) \<and>
   \<not> (reads_outside data \<and> ipv4_wellformed data) \<and> parse_packet t short_frame = None"
proof -
  have "reads_outside short_frame"
    by (simp add: reads_outside_def short_frame_def hdr_version_def hdr_length_def hdr_ihl_def ld16_def mk16_def htons_def
        hi8_def lo8_def)
  then show ?thesis using parse_packet_outside by (auto simp: reads_outside_def ipv4_wellformed_def)
qed

end
