(* ===== verification/Firewall_Paths.thy ===== *)
theory Firewall_Paths
  imports Firewall_Engine
begin

text \<open>
  The firewall as a whole: the two overloads of \<open>inspect\<close> agree, the accounts balance over any run, and
  two things its users are told that it does not do.
\<close>

section \<open>Two ways in\<close>

text \<open>Events that differ at most in the payload length.\<close>

definition same_event :: "packet_event \<Rightarrow> packet_event \<Rightarrow> bool" where
  "same_event e1 e2 \<longleftrightarrow> e1\<lparr>ev_payload_len := 0\<rparr> = e2\<lparr>ev_payload_len := 0\<rparr>"

text \<open>Firewalls that differ at most in what the decision callback was told.\<close>

definition same_firewall :: "('d, 'f) firewall \<Rightarrow> ('d, 'f) firewall \<Rightarrow> bool" where
  "same_firewall f1 f2 \<longleftrightarrow> f1\<lparr>fw_decisions := []\<rparr> = f2\<lparr>fw_decisions := []\<rparr>"

lemma same_event_fields:
  assumes "same_event e1 e2"
  shows "ev_src_ip e1 = ev_src_ip e2" "ev_dst_ip e1 = ev_dst_ip e2" "ev_src_port e1 = ev_src_port e2"
    "ev_dst_port e1 = ev_dst_port e2" "ev_protocol e1 = ev_protocol e2" "ev_tcp_flags e1 = ev_tcp_flags e2"
    "ev_total_len e1 = ev_total_len e2"
  using assms unfolding same_event_def by (cases e1; cases e2; simp)+

lemma engine_evaluate_same:
  "same_event e1 e2 \<Longrightarrow> (engine_evaluate M e1 now e :: (('b :: zero) decision \<times> 'a rule_engine) option) = engine_evaluate M e2 now e"
proof -
  assume s: "same_event e1 e2"
  then have "event_matches e1 = event_matches e2" by (simp add: fun_eq_iff event_matches_def same_event_fields)
  then have "evaluate_rules e1 = (evaluate_rules e2 :: 'a rule_engine \<Rightarrow> 'b decision \<times> 'a rule_engine)"
    by (intro ext) (simp add: evaluate_rules_def)
  then show ?thesis 
    by (simp add: engine_evaluate_def same_event_fields [OF s] Let_def split: option.split prod.split)
qed

lemma ai_note_same: "same_event e1 e2 \<Longrightarrow> ai_note e1 fw = ai_note e2 fw"
proof -
  assume s: "same_event e1 e2"
  have "ai_record_packet e1 = (ai_record_packet e2 :: 'b fw_ai \<Rightarrow> 'b fw_ai)"
    by (simp add: fun_eq_iff ai_record_packet_def same_event_fields [OF s])
  then show ?thesis by (simp add: ai_note_def)
qed

lemma record_decision_same: "same_firewall (record_decision e1 d fw) (record_decision e2 d fw)"
  by (simp add: same_firewall_def record_decision_def Let_def)

lemma decide_same:
  assumes "same_event e1 e2" and "decide M now e1 fw = Some (ok, fw1)"
  shows "\<exists>fw2. decide M now e2 fw = Some (ok, fw2) \<and> same_firewall fw1 fw2"
proof -
  have eq: "fw_evaluate M now e1 (ai_note e1 fw) = fw_evaluate M now e2 (ai_note e2 fw)"
    by (simp add: fw_evaluate_def engine_evaluate_same [OF assms(1)] ai_note_same [OF assms(1)])
  obtain d fw' where d: "fw_evaluate M now e1 (ai_note e1 fw) = Some (d, fw')" "ok = should_pass d" "fw1 = record_decision e1 d fw'"
    using assms(2) by (auto simp: decide_def)
  have "decide M now e2 fw = Some (ok, record_decision e2 d fw')" using d by (simp add: decide_def flip: eq)
  then show ?thesis using record_decision_same d(3) by blast
qed

lemma ld16_slice: "i + 2 \<le> n \<Longrightarrow> h + n \<le> length data \<Longrightarrow> ld16 (take n (drop h data)) i = ld16 data (h + i)"
  by (simp add: ld16_def)

text \<open>What the two readers take from a frame that holds a complete transport header.\<close>

lemma parse_fill:
  assumes p: "ipv4_parse data = Some pkt" and tcp: "ip_protocol pkt = 6 \<longrightarrow> 20 \<le> length (ip_payload pkt)"
    and udp: "ip_protocol pkt = 17 \<longrightarrow> 8 \<le> length (ip_payload pkt)"
  shows "\<exists>evt. parse_packet t data = Some (Some evt) \<and> same_event evt (fill_event_from_ipv4 t pkt)"
proof -
  have wf: "ipv4_wellformed data" using p ipv4_parse_None [of data] by auto
  then have v: "ipv4_validate data = None" by (simp add: ipv4_validate_None)
  define h where "h = hdr_length data"
  define n where "n = unat (ntohs (ld16 data 2)) - h"
  let ?len = "ucast (ntohs (ld16 data 2)) - of_nat h :: u64"
  have le: "20 \<le> h" "h \<le> unat (ntohs (ld16 data 2))" "unat (ntohs (ld16 data 2)) \<le> length data" "hdr_version data = 4"
    using wf by (simp_all add: ipv4_wellformed_def h_def)
  have pkt: "ip_protocol pkt = data ! 9" "ip_src_addr pkt = ntohl (ld32 data 12)" "ip_dst_addr pkt = ntohl (ld32 data 16)"
    "ip_total_length pkt = ntohs (ld16 data 2)" "ip_raw_data pkt = data" "ip_payload pkt = take n (drop h data)"
    using p unfolding ipv4_parse_def v Let_def h_def n_def by auto
  have n: "length (ip_payload pkt) = n" "h + n \<le> length data" using le by (simp_all add: pkt n_def)
  have u: "unat ?len = n" using le(2) by (simp add: transport_len_fits n_def)
  have len: "k \<le> ?len \<longleftrightarrow> unat k \<le> n" for k by (simp add: word_le_nat_alt u)
  have sl: "8 \<le> n \<Longrightarrow> ld16 (ip_payload pkt) 0 = ld16 data h" "8 \<le> n \<Longrightarrow> ld16 (ip_payload pkt) 2 = ld16 data (h + 2)"
    "14 \<le> n \<Longrightarrow> ip_payload pkt ! 13 = data ! (h + 13)"
    using n(2) by (simp_all add: pkt ld16_slice)
  have ok: "\<not> length data < 20" "drop_bit 4 (data ! 0) AND 0x0F = 4" "\<not> (h < 20 \<or> h > length data)"
    "\<not> unat (ntohs (ld16 data 2)) > length data"
    using le by (simp_all add: version_nibble hdr_version_def)
  consider "data ! 9 = 6" "20 \<le> n" | "data ! 9 = 17" "8 \<le> n" | "data ! 9 \<noteq> 6" "data ! 9 \<noteq> 17"
    using tcp udp by (auto simp: n(1) pkt)
  then show ?thesis
  proof cases
    case 1
    then have "h + 2 \<le> length data" "h + 4 \<le> length data" "h + 13 < length data" "h + 12 < length data" using n(2) by linarith+
    then show ?thesis
      using 1 ok sl by (auto simp: parse_packet_def Let_def h_def [symmetric] rd16_def rd8_def len same_event_def
          fill_event_from_ipv4_def n(1) pkt(1-5))
  next
    case 2
    then have "h + 2 \<le> length data" "h + 4 \<le> length data" using n(2) by linarith+
    then show ?thesis
      using 2 ok sl by (auto simp: parse_packet_def Let_def h_def [symmetric] rd16_def rd8_def len same_event_def
          fill_event_from_ipv4_def n(1) pkt(1-5))
  next
    case 3
    then show ?thesis
      using ok by (auto simp: parse_packet_def Let_def h_def [symmetric] same_event_def
          fill_event_from_ipv4_def n(1) pkt(1-5))
  qed
qed

section \<open>Runs\<close>

lemma fw_evaluate_total:
  assumes "engine_wf (fw_rule_engine fw)"
  shows "\<exists>d re. fw_evaluate M now evt fw = Some (d :: ('f :: zero) decision, fw\<lparr>fw_rule_engine := re\<rparr>) \<and> engine_wf re"
proof -
  obtain d re where d: "engine_evaluate M evt now (fw_rule_engine fw) = Some (d :: 'f decision, re)"
    using engine_evaluate_total [OF assms] by blast
  then show ?thesis using evaluate_wf [OF assms d] by (auto simp: fw_evaluate_def Let_def)
qed

text \<open>Everything that changes a firewall: packets by either way, the timer, its configuration, and the calls
  on its rule engine and its anomaly layer.\<close>

inductive fw_step ::
  "(rule list \<Rightarrow> rule list) \<Rightarrow> 'd rate_math \<Rightarrow> ('e, 'f) ai_params \<Rightarrow> ('d, 'f :: {zero, ord}) firewall \<Rightarrow> ('d, 'f) firewall \<Rightarrow> bool"
  for srt :: "rule list \<Rightarrow> rule list" and M :: "'d rate_math" and A :: "('e, 'f) ai_params" where
  step_raw: "inspect M t1 t2 data fw = Some (ok, fw') \<Longrightarrow> fw_step srt M A fw fw'"
| step_parsed: "inspect_packet M t1 t2 pkt fw = Some (ok, fw') \<Longrightarrow> fw_step srt M A fw fw'"
| step_timer: "fw_step srt M A fw (fw_on_timer A now fw)"
| step_enabled: "fw_step srt M A fw (fw_set_enabled on fw)"
| step_shadow: "fw_step srt M A fw (fw_set_shadow_mode on fw)"
| step_enable_ai: "enable_ai loaded fw = (ok, fw') \<Longrightarrow> fw_step srt M A fw fw'"
| step_disable_ai: "fw_step srt M A fw (disable_ai fw)"
| step_set_ai: "fw_step srt M A fw (fw_set_ai ai fw)"
| step_callback: "fw_step srt M A fw (set_decision_callback on fw)"
| step_reset: "fw_step srt M A fw (fw_reset_stats fw)"
| step_rules: "engine_step srt M (fw_rule_engine fw) re \<Longrightarrow> fw_step srt M A fw (fw\<lparr>fw_rule_engine := re\<rparr>)"

definition accounts_ok :: "fw_stats \<Rightarrow> bool" where
  "accounts_ok st \<longleftrightarrow> fs_packets_inspected st = fs_packets_passed st + fs_packets_dropped st \<and> fs_pool_acquire_failed st = 0"

definition fw_ok :: "('d, 'f) firewall \<Rightarrow> bool" where
  "fw_ok fw \<longleftrightarrow> pools_idle fw \<and> engine_wf (fw_rule_engine fw) \<and> accounts_ok (fw_stats fw)"

lemma fw_ok_new: "fw_ok (firewall_new enabled shadow now)"
  by (simp add: fw_ok_def firewall_new_def pools_idle_def pool_idle_new engine_wf_new accounts_ok_def fw_stats_zero_def)

lemma record_decision_ok: "accounts_ok (fw_stats fw) \<Longrightarrow> accounts_ok (fw_stats (record_decision evt d fw))"
  by (auto simp: accounts_ok_def record_decision_def Let_def algebra_simps split: fw_action.split)

lemma decide_ok:
  assumes "fw_ok fw"
  shows "\<exists>ok fw'. decide M now evt fw = Some (ok, fw') \<and> fw_ok fw'"
proof -
  have "engine_wf (fw_rule_engine (ai_note evt fw))" using assms by (simp add: fw_ok_def ai_note_def)
  from fw_evaluate_total [OF this, of M now evt] obtain d re where
    d: "fw_evaluate M now evt (ai_note evt fw) = Some (d, (ai_note evt fw)\<lparr>fw_rule_engine := re\<rparr>)" "engine_wf re" by blast
  have "accounts_ok (fw_stats (record_decision evt d ((ai_note evt fw)\<lparr>fw_rule_engine := re\<rparr>)))"
    using assms by (intro record_decision_ok) (simp add: fw_ok_def)
  moreover have "fw_rule_engine (record_decision evt d ((ai_note evt fw)\<lparr>fw_rule_engine := re\<rparr>)) = re"
    by (simp add: record_decision_def Let_def)
  ultimately have "fw_ok (record_decision evt d ((ai_note evt fw)\<lparr>fw_rule_engine := re\<rparr>))"
    using assms d(2) by (simp add: fw_ok_def pools_idle_def)
  then show ?thesis using d(1) by (simp add: decide_def)
qed

lemma malformed_ok: "fw_ok fw \<Longrightarrow> fw_ok (malformed fw)"
  by (simp add: fw_ok_def malformed_def pools_idle_def accounts_ok_def)

lemma ai_note_ok: "fw_ok fw \<Longrightarrow> fw_ok (ai_note evt fw)"
  by (simp add: fw_ok_def ai_note_def pools_idle_def)

text \<open>A disabled firewall only feeds the anomaly layer.\<close>

lemma inspect_disabled:
  assumes "pools_idle fw" and "\<not> fw_enabled fw"
  shows "inspect M t1 t2 data fw =
      (if fw_ai fw = None then Some (True, fw)
       else map_option (\<lambda>parsed. (True, case parsed of Some evt \<Rightarrow> ai_note evt fw | None \<Rightarrow> fw)) (parse_packet t1 data))"
    "inspect_packet M t1 t2 pkt fw = Some (True, ai_note (fill_event_from_ipv4 t1 pkt) fw)"
proof -
  have "pool_idle (fw_event_pool fw)" using assms(1) by (simp add: pools_idle_def)
  then obtain i q where q: "pool_acquire event_zero (fw_event_pool fw) = Some (Some i, q)"
    "pool_release i q = Some (fw_event_pool fw)" by (rule pool_scope)
  have same: "(ai_note evt fw)\<lparr>fw_event_pool := fw_event_pool fw\<rparr> = ai_note evt fw" for evt by (simp add: ai_note_def)
  show "inspect M t1 t2 data fw = (if fw_ai fw = None then Some (True, fw)
       else map_option (\<lambda>parsed. (True, case parsed of Some evt \<Rightarrow> ai_note evt fw | None \<Rightarrow> fw)) (parse_packet t1 data))"
    using q assms(2) same
    by (cases "parse_packet t1 data") (auto simp: inspect_def split: option.split)
  show "inspect_packet M t1 t2 pkt fw = Some (True, ai_note (fill_event_from_ipv4 t1 pkt) fw)"
    using q assms(2) same
    by (cases "fw_ai fw") (simp_all add: inspect_packet_def, simp add: ai_note_def)
qed

lemma inspect_ok:
  assumes "fw_ok fw"
  shows "inspect M t1 t2 data fw = None \<longleftrightarrow> (fw_enabled fw \<or> fw_ai fw \<noteq> None) \<and> parse_packet t1 data = None"
    and "inspect M t1 t2 data fw = Some (ok, fw') \<Longrightarrow> fw_ok fw'"
proof -
  have idle: "pools_idle fw" using assms by (simp add: fw_ok_def)
  have "(inspect M t1 t2 data fw = None \<longleftrightarrow> (fw_enabled fw \<or> fw_ai fw \<noteq> None) \<and> parse_packet t1 data = None) \<and>
    (inspect M t1 t2 data fw = Some (ok, fw') \<longrightarrow> fw_ok fw')"
  proof (cases "fw_enabled fw")
    case True
    show ?thesis
    proof (cases "parse_packet t1 data")
      case (Some parsed)
      then show ?thesis
        using inspect_eq [OF idle True, of M t1 t2 data] malformed_ok [OF assms] decide_ok [OF assms, of M t2 "the parsed"] True
        by (cases parsed) auto
    qed (use True inspect_eq [OF idle True, of M t1 t2 data] in simp)
  next
    case False
    show ?thesis
      using inspect_disabled(1) [OF idle False, of M t1 t2 data] False ai_note_ok [OF assms] assms
      by (auto split: option.splits if_splits)
  qed
  then show "inspect M t1 t2 data fw = None \<longleftrightarrow> (fw_enabled fw \<or> fw_ai fw \<noteq> None) \<and> parse_packet t1 data = None"
    and "inspect M t1 t2 data fw = Some (ok, fw') \<Longrightarrow> fw_ok fw'" by blast+
qed

lemma inspect_packet_ok:
  assumes "fw_ok fw"
  shows "\<exists>ok fw'. inspect_packet M t1 t2 pkt fw = Some (ok, fw') \<and> fw_ok fw'"
proof (cases "fw_enabled fw")
  case True
  then show ?thesis using decide_ok [OF assms] assms by (simp add: inspect_packet_eq fw_ok_def)
next
  case False
  then have "inspect_packet M t1 t2 pkt fw = Some (True, ai_note (fill_event_from_ipv4 t1 pkt) fw)"
    using assms by (simp add: inspect_disabled(2) fw_ok_def)
  then show ?thesis using ai_note_ok [OF assms] by blast
qed

lemma fw_step_ok:
  assumes "fw_step srt M A fw fw'" and "sorts_rules srt" and ok: "fw_ok fw"
  shows "fw_ok fw'"
  using assms(1)
proof cases
  case (step_raw t1 t2 data r)
  then show ?thesis using inspect_ok(2) [OF ok] by blast
next
  case (step_parsed t1 t2 pkt r)
  then show ?thesis using inspect_packet_ok [OF ok, of M t1 t2 pkt] by auto
next
  case (step_rules re)
  have "engine_wf re" using engine_step_wf [OF step_rules(2) assms(2)] ok by (simp add: fw_ok_def)
  then show ?thesis using ok step_rules(1) by (simp add: fw_ok_def pools_idle_def)
next
  case (step_timer now)
  then show ?thesis
    using ok by (auto simp: fw_ok_def pools_idle_def fw_on_timer_def Let_def split: option.split)
qed (use ok in \<open>auto simp: fw_ok_def pools_idle_def fw_set_enabled_def fw_set_shadow_mode_def enable_ai_def disable_ai_def
    fw_set_ai_def set_decision_callback_def fw_reset_stats_def accounts_ok_def fw_stats_zero_def Let_def split: if_splits\<close>)

lemma fw_run_ok:
  "(fw_step srt M A)\<^sup>*\<^sup>* (firewall_new enabled shadow now) fw \<Longrightarrow> sorts_rules srt \<Longrightarrow> fw_ok fw"
  by (induction rule: rtranclp_induct) (auto intro: fw_ok_new fw_step_ok)

section \<open>Properties\<close>


lemma pool_idle_4096: "length (po_storage p) = 4096 \<Longrightarrow> pool_idle p \<Longrightarrow> unat (pool_available p) = 4096"
  by (simp add: pool_available_def pool_capacity_def pool_idle_def)

definition demo_ipv4 :: ipv4_packet where
  "demo_ipv4 = ipv4_built_packet (ipv4_builder_new\<lparr>ib_src_addr := 0x01020304\<rparr>)
     (the (ipv4_build (ipv4_builder_new\<lparr>ib_src_addr := 0x01020304\<rparr>) 20))"


text \<open>C23. The accounts of the firewall balance.  After any run, the packets inspected since the counters
  were last reset are those passed and those dropped, no packet was let through for lack of pool memory,
  and every slot of both pools is free; and the next packet is always decided, by the overload for parsed
  packets without exception and by the one for raw bytes unless the frame makes it read outside.\<close>

theorem inspect_accounts:
  assumes "sorts_rules srt" and "(fw_step srt M A)\<^sup>*\<^sup>* (firewall_new enabled shadow now) fw"
  shows "fs_packets_inspected (fw_stats fw) = fs_packets_passed (fw_stats fw) + fs_packets_dropped (fw_stats fw) \<and>
    fs_pool_acquire_failed (fw_stats fw) = 0 \<and> po_in_use (fw_event_pool fw) = 0 \<and> po_in_use (fw_decision_pool fw) = 0 \<and>
    inspect_packet M t1 t2 pkt fw \<noteq> None \<and>
    (inspect M t1 t2 data fw = None \<longleftrightarrow> (fw_enabled fw \<or> fw_ai fw \<noteq> None) \<and> reads_outside data)"
proof -
  have ok: "fw_ok fw" using fw_run_ok [OF assms(2,1)] .
  have "inspect_packet M t1 t2 pkt fw \<noteq> None" using inspect_packet_ok [OF ok, of M t1 t2 pkt] by auto
  moreover have "inspect M t1 t2 data fw = None \<longleftrightarrow> (fw_enabled fw \<or> fw_ai fw \<noteq> None) \<and> reads_outside data"
    by (simp add: inspect_ok(1) [OF ok] parse_packet_outside)
  ultimately show ?thesis
    using ok by (simp add: fw_ok_def accounts_ok_def pools_idle_def pool_idle_def)
qed

text \<open>One malformed packet into a fresh firewall.\<close>

theorem inspect_accounts_witness:
  "\<exists>fw. inspect demo_math 5 6 [] (firewall_new True False 0 :: (nat, nat) firewall) = Some (False, fw) \<and>
     fs_packets_inspected (fw_stats fw) = 1 \<and> fs_packets_passed (fw_stats fw) + fs_packets_dropped (fw_stats fw) = 1 \<and>
     po_in_use (fw_event_pool fw) = 0"
proof -
  let ?fw = "firewall_new True False 0 :: (nat, nat) firewall"
  have "pools_idle ?fw" using fw_ok_new [of True False 0] unfolding fw_ok_def by blast
  moreover have "fw_enabled ?fw" by (simp add: firewall_new_def)
  ultimately have i: "inspect demo_math 5 6 [] ?fw = Some (False, malformed ?fw)" by (simp add: inspect_eq parse_packet_def)
  have "(fw_step (sort_key r_priority) demo_math demo_ai)\<^sup>*\<^sup>* ?fw (malformed ?fw)" using step_raw [OF i] by blast
  from inspect_accounts [OF sort_key_sorts this] i show ?thesis
    by (simp add: malformed_def firewall_new_def fw_stats_zero_def)
qed

text \<open>Turning on shadow mode does not stop the anomaly layer from dropping.  The shadow mode of the engine
  is copied to the layer only when the layer is made, so a firewall that enforces its anomalies goes on
  dropping after \<open>set_shadow_mode(true)\<close>; and it drops packets of whitelisted addresses too, since a pass of the
  rules does not end the evaluation.\<close>

theorem shadow_switch_ignored:
  assumes "sorts_rules srt" and "(fw_step srt M A)\<^sup>*\<^sup>* (firewall_new enabled shadow now) fw"
    and "fw_enabled fw" and "fw_ai fw = Some a" and "ai_loaded a" and "ai_cached_is_anomaly a"
    and "\<not> ac_shadow_mode (ai_config a)" and "htonl (ip_src_addr pkt) \<in> en_whitelist_ips (fw_rule_engine fw)"
  shows "\<exists>fw'. inspect_packet M t1 t2 pkt (fw_set_shadow_mode True fw) = Some (False, fw') \<and> fw_shadow_mode fw' \<and>
    fs_packets_dropped (fw_stats fw') = fs_packets_dropped (fw_stats fw) + 1"
proof -
  have idle: "pools_idle (fw_set_shadow_mode True fw)" "fw_enabled (fw_set_shadow_mode True fw)"
    using fw_run_ok [OF assms(2,1)] assms(3) by (simp_all add: fw_ok_def pools_idle_def fw_set_shadow_mode_def)
  have white: "ev_src_ip (fill_event_from_ipv4 t1 pkt) \<in> en_whitelist_ips (fw_rule_engine fw)"
    using assms(8) by (simp add: fill_event_from_ipv4_def Let_def)
  have ai: "ai_loaded (ai_record_packet e a)" "ai_evaluate (ai_record_packet e a) =
      \<lparr>d_action = DROP, d_reason = AI_ANOMALY, d_rule_id = 0, d_score = ai_cached_anomaly_score a, d_rate_current = 0, d_rate_limit = 0\<rparr>" for e
    using assms(5-7) by (simp_all add: ai_record_packet_def ai_evaluate_def)
  show ?thesis
    unfolding inspect_packet_eq [OF idle] using white assms(4) ai
    by (simp add: decide_def fw_evaluate_def ai_note_def fw_set_shadow_mode_def engine_evaluate_def
        should_drop_def should_pass_def record_decision_def Let_def)
qed

text \<open>An enforcing layer, attached to a firewall that whitelists 1.2.3.4.\<close>

theorem shadow_switch_ignored_witness:
  "\<exists>fw :: (nat, nat) firewall. \<exists>fw'. inspect_packet demo_math 5 6 demo_ipv4 (fw_set_shadow_mode True fw) = Some (False, fw') \<and>
     htonl 0x01020304 \<in> en_whitelist_ips (fw_rule_engine fw) \<and> fs_packets_dropped (fw_stats fw') = 1"
proof -
  let ?a = "(fw_ai_new (fw_ai_config_default\<lparr>ac_shadow_mode := False\<rparr>) True :: nat fw_ai)\<lparr>ai_cached_is_anomaly := True\<rparr>"
  let ?fw0 = "firewall_new True False 0 :: (nat, nat) firewall"
  define fw1 where "fw1 = fw_set_ai (Some ?a) ?fw0"
  define fw2 where "fw2 = fw1\<lparr>fw_rule_engine := add_whitelist_ip (htonl 0x01020304) (fw_rule_engine fw1)\<rparr>"
  let ?step = "fw_step (sort_key r_priority) demo_math demo_ai"
  have "?step ?fw0 fw1" unfolding fw1_def by (rule step_set_ai)
  moreover have "?step fw1 fw2" unfolding fw2_def by (rule step_rules, rule engine_step.intros(5))
  ultimately have run: "?step\<^sup>*\<^sup>* ?fw0 fw2" by (rule rtranclp.rtrancl_into_rtrancl [OF r_into_rtranclp])
  have st: "fw_enabled fw2" "fw_ai fw2 = Some ?a" "htonl (ip_src_addr demo_ipv4) \<in> en_whitelist_ips (fw_rule_engine fw2)"
    "fs_packets_dropped (fw_stats fw2) = 0"
    by (simp_all add: fw2_def fw1_def fw_set_ai_def firewall_new_def add_whitelist_ip_def demo_ipv4_def ipv4_built_packet_def
        ipv4_builder_new_def fw_stats_zero_def)
  have a: "ai_loaded ?a" "ai_cached_is_anomaly ?a" "\<not> ac_shadow_mode (ai_config ?a)" by (simp_all add: fw_ai_new_def)
  obtain fw' where "inspect_packet demo_math 5 6 demo_ipv4 (fw_set_shadow_mode True fw2) = Some (False, fw')"
    "fs_packets_dropped (fw_stats fw') = 1"
    using shadow_switch_ignored [OF sort_key_sorts run st(1,2) a st(3), of 5 6] st(4) by auto
  then show ?thesis
    by (intro exI [of _ fw2] exI [of _ fw']) (simp add: fw2_def add_whitelist_ip_def)
qed

text \<open>The address lists hold addresses in network byte order.  A packet from a source address is dropped
  as blacklisted exactly when the byte-swapped address is on the list, so putting the address itself there,
  as the value of \<open>ip_from_string\<close> is, blocks the host of the reversed address and not the one meant.\<close>

theorem blacklist_byte_order:
  assumes "sorts_rules srt" and "(fw_step srt M A)\<^sup>*\<^sup>* (firewall_new enabled shadow now) fw"
    and "fw_enabled fw" and "fw_ai fw = None" and "en_whitelist_ips (fw_rule_engine fw) = {}"
    and "en_blacklist_ips (fw_rule_engine fw) = {}" and "\<not> cf_enabled (rl_config (en_rate_limiter (fw_rule_engine fw)))"
    and "en_rules (fw_rule_engine fw) = []"
  shows "\<exists>ok fw'. inspect_packet M t1 t2 pkt (fw\<lparr>fw_rule_engine := add_blacklist_ip ip (fw_rule_engine fw)\<rparr>) = Some (ok, fw') \<and>
    (ok \<longleftrightarrow> htonl (ip_src_addr pkt) \<noteq> ip)"
proof -
  let ?fw = "fw\<lparr>fw_rule_engine := add_blacklist_ip ip (fw_rule_engine fw)\<rparr>"
  have idle: "pools_idle ?fw" "fw_enabled ?fw" using fw_run_ok [OF assms(2,1)] assms(3) by (simp_all add: fw_ok_def pools_idle_def)
  have src: "ev_src_ip (fill_event_from_ipv4 t1 pkt) = htonl (ip_src_addr pkt)" by (simp add: fill_event_from_ipv4_def Let_def)
  show ?thesis
    unfolding inspect_packet_eq [OF idle] using assms(4-8)
    by (simp add: decide_def fw_evaluate_def ai_note_def add_blacklist_ip_def engine_evaluate_def src
        evaluate_rules_def decision_pass_def should_drop_def should_pass_def)
qed

text \<open>The address 1.2.3.4 on the blacklist: a packet from it passes.\<close>

theorem blacklist_byte_order_witness:
  "\<exists>fw'. inspect_packet demo_math 5 6 demo_ipv4
     ((firewall_new True False 0 :: (nat, nat) firewall)\<lparr>fw_rule_engine := add_blacklist_ip 0x01020304 engine_new\<rparr>) = Some (True, fw') \<and>
     ip_src_addr demo_ipv4 = 0x01020304"
proof -
  let ?fw = "firewall_new True False 0 :: (nat, nat) firewall"
  have src: "ip_src_addr demo_ipv4 = 0x01020304" "htonl (ip_src_addr demo_ipv4) \<noteq> 0x01020304"
    by (simp_all add: demo_ipv4_def ipv4_built_packet_def ipv4_builder_new_def htonl_def mk32_def htons_def mk16_def lo16_def hi16_def lo8_def hi8_def)
  have "\<exists>ok fw'. inspect_packet demo_math 5 6 demo_ipv4 (?fw\<lparr>fw_rule_engine := add_blacklist_ip 0x01020304 (fw_rule_engine ?fw)\<rparr>) =
    Some (ok, fw') \<and> (ok \<longleftrightarrow> htonl (ip_src_addr demo_ipv4) \<noteq> 0x01020304)"
    by (rule blacklist_byte_order [OF sort_key_sorts rtranclp.rtrancl_refl [of "fw_step (sort_key r_priority) demo_math demo_ai"]])
      (simp_all add: firewall_new_def engine_new_def rl_new_def rl_config_default_def)
  then show ?thesis using src by (simp add: firewall_new_def)
qed

end
