(* ===== verification/Text.thy ===== *)
theory Text
  imports Prelude "HOL-Library.Char_ord"
begin

text \<open>
  Text: the operations of \<open>std::string\<close> and of the conversions of the C++ library that the application layer
  uses (\<open>find\<close>, \<open>to_string\<close>, \<open>stoul\<close>, \<open>stoi\<close>, \<open>sscanf\<close> of an unsigned number), the helpers of
  \<^verbatim>\<open>include/neustack/common/string_utils.hpp\<close>, and addresses in dotted notation
  (\<^verbatim>\<open>src/common/ip_addr.cpp\<close>).
\<close>

section \<open>Searching\<close>

text \<open>\<open>find\<close> of a string and of a character: the first position, \<open>None\<close> for \<open>npos\<close>.\<close>

fun find_sub :: "string \<Rightarrow> string \<Rightarrow> nat option" where
  "find_sub pat [] = (if pat = [] then Some 0 else None)"
| "find_sub pat (c # s) = (if take (length pat) (c # s) = pat then Some 0 else map_option Suc (find_sub pat s))"

fun find_char :: "char \<Rightarrow> string \<Rightarrow> nat option" where
  "find_char c [] = None"
| "find_char c (x # s) = (if x = c then Some 0 else map_option Suc (find_char c s))"

text \<open>\<open>find(c, from)\<close>\<close>

definition find_char_from :: "char \<Rightarrow> nat \<Rightarrow> string \<Rightarrow> nat option" where
  "find_char_from c from s = map_option (\<lambda>i. from + i) (find_char c (drop from s))"

lemma find_sub_bound: "find_sub pat s = Some i \<Longrightarrow> i + length pat \<le> length s"
  by (induction s arbitrary: i) (auto split: if_splits dest: arg_cong [of _ _ length])

lemma find_sub_extend: "find_sub pat s = Some i \<Longrightarrow> find_sub pat (s @ t) = Some i"
proof (induction s arbitrary: i)
  case Nil
  then show ?case by (cases t) (auto split: if_splits)
next
  case (Cons c s)
  show ?case
  proof (cases "take (length pat) (c # s) = pat")
    case True
    then have "length pat \<le> length (c # s)" by (metis length_take min.absorb_iff2 min.commute)
    then show ?thesis using True Cons.prems by (simp add: take_append [of _ "c # s" t, simplified])
  next
    case False
    then obtain j where j: "find_sub pat s = Some j" "i = Suc j" using Cons.prems by auto
    then have "length pat \<le> length (c # s)" using find_sub_bound by fastforce
    then have "take (length pat) (c # s @ t) = take (length pat) (c # s)" by (simp add: take_append [of _ "c # s" t, simplified])
    then show ?thesis using False Cons.IH [OF j(1)] j(2) by simp
  qed
qed

lemma find_char_bound: "find_char c s = Some i \<Longrightarrow> i < length s"
  by (induction s arbitrary: i) (auto split: if_splits)

lemma find_char_notin: "c \<notin> set s \<Longrightarrow> find_char c (s @ c # t) = Some (length s)"
  by (induction s) auto

lemma find_char_None: "find_char c s = None \<longleftrightarrow> c \<notin> set s"
  by (induction s) auto

definition CRLF :: string where "CRLF = [CHR 0x0D, CHR 0x0A]"

lemma length_CRLF [simp]: "length CRLF = 2" "CRLF \<noteq> []"
  by (simp_all add: CRLF_def)

lemma find_CRLF: "CHR 0x0D \<notin> set line \<Longrightarrow> find_sub CRLF (line @ CRLF @ rest) = Some (length line)"
  by (induction line) (auto simp: CRLF_def)

section \<open>Numbers\<close>

definition digit_char :: "nat \<Rightarrow> char" where "digit_char d = char_of (48 + d)"

definition is_digit :: "char \<Rightarrow> bool" where "is_digit c \<longleftrightarrow> 48 \<le> (of_char c :: nat) \<and> (of_char c :: nat) \<le> 57"

definition digits_value :: "string \<Rightarrow> nat" where
  "digits_value s = foldl (\<lambda>v c. 10 * v + ((of_char c :: nat) - 48)) 0 s"

text \<open>\<open>std::to_string\<close> of an unsigned number.\<close>

fun to_dec :: "nat \<Rightarrow> string" where
  "to_dec n = (if n < 10 then [digit_char n] else to_dec (n div 10) @ [digit_char (n mod 10)])"

declare to_dec.simps [simp del]

definition is_space :: "char \<Rightarrow> bool" where
  "is_space c \<longleftrightarrow> c = CHR '' '' \<or> (9 \<le> (of_char c :: nat) \<and> (of_char c :: nat) \<le> 13)"

text \<open>What the conversions of the C library read: spaces, a sign, digits; the rest is left.\<close>

definition scan_number :: "string \<Rightarrow> (bool \<times> nat \<times> string) option" where
  "scan_number s =
    (let s = dropWhile is_space s;
         neg = (case s of c # _ \<Rightarrow> c = CHR ''-'' | [] \<Rightarrow> False);
         s = (case s of c # t \<Rightarrow> if c = CHR ''-'' \<or> c = CHR ''+'' then t else s | [] \<Rightarrow> s);
         ds = takeWhile is_digit s
     in if ds = [] then None else Some (neg, digits_value ds, drop (length ds) s))"

text \<open>\<open>std::stoul\<close> and \<open>std::stoi\<close>, where an exception is \<open>None\<close>.\<close>

definition stoul :: "string \<Rightarrow> u64 option" where
  "stoul s =
    (case scan_number s of
       None \<Rightarrow> None
     | Some (neg, n, _) \<Rightarrow> if n \<ge> 2 ^ 64 then None else Some (if neg then - of_nat n else of_nat n))"

definition stoi :: "string \<Rightarrow> int option" where
  "stoi s =
    (case scan_number s of
       None \<Rightarrow> None
     | Some (neg, n, _) \<Rightarrow>
         let v = (if neg then - int n else int n)
         in if v > 2147483647 \<or> v < -2147483648 then None else Some v)"

definition stoul_safe :: "string \<Rightarrow> u64" where
  "stoul_safe s = (if s = [] then 0 else case stoul s of Some v \<Rightarrow> v | None \<Rightarrow> 0)"

definition stoi_safe :: "string \<Rightarrow> int \<Rightarrow> int" where
  "stoi_safe s d = (if s = [] then d else case stoi s of Some v \<Rightarrow> v | None \<Rightarrow> d)"

lemma of_digit_char: "d < 10 \<Longrightarrow> (of_char (digit_char d) :: nat) = 48 + d"
  by (simp add: digit_char_def)

lemma digit_char_props: "d < 10 \<Longrightarrow> is_digit (digit_char d) \<and> \<not> is_space (digit_char d) \<and> digit_char d \<noteq> CHR ''-'' \<and> digit_char d \<noteq> CHR ''+''"
proof -
  assume d: "d < 10"
  have ne: "digit_char d \<noteq> c" if "(of_char c :: nat) < 48" for c using that of_digit_char [OF d] by auto
  have "digit_char d \<noteq> CHR ''-''" "digit_char d \<noteq> CHR ''+''" "digit_char d \<noteq> CHR '' ''" by (intro ne, simp)+
  then show ?thesis using d by (auto simp: is_digit_def is_space_def of_digit_char)
qed

lemma to_dec_props: "to_dec n \<noteq> [] \<and> (\<forall>c\<in>set (to_dec n). is_digit c \<and> \<not> is_space c \<and> c \<noteq> CHR ''-'' \<and> c \<noteq> CHR ''+'') \<and>
    digits_value (to_dec n) = n"
proof (induction n rule: to_dec.induct)
  case (1 n)
  show ?case
  proof (cases "n < 10")
    case True
    then show ?thesis using digit_char_props [of n] by (simp add: to_dec.simps [of n] digits_value_def of_digit_char)
  next
    case False
    then show ?thesis using 1 digit_char_props [of "n mod 10"]
      by (auto simp: to_dec.simps [of n] digits_value_def of_digit_char)
  qed
qed

lemma scan_to_dec:
  assumes "case rest of [] \<Rightarrow> True | c # _ \<Rightarrow> \<not> is_digit c"
  shows "scan_number (to_dec n @ rest) = Some (False, n, rest)"
proof -
  obtain c s where s: "to_dec n = c # s" using to_dec_props [of n] by (cases "to_dec n") auto
  have c: "\<not> is_space c" "c \<noteq> CHR ''-''" "c \<noteq> CHR ''+''" using to_dec_props [of n] by (simp_all add: s)
  have tw: "takeWhile is_digit (to_dec n @ rest) = to_dec n"
    using to_dec_props [of n] assms by (subst takeWhile_append2) (auto split: list.splits)
  have "to_dec n @ rest = c # s @ rest" by (simp add: s)
  then show ?thesis using c tw to_dec_props [of n] unfolding scan_number_def Let_def by (auto simp: s)
qed

lemma stoul_to_dec: "n < 2 ^ 64 \<Longrightarrow> stoul (to_dec n) = Some (of_nat n)"
  using scan_to_dec [of "[]" n] by (simp add: stoul_def)

lemma stoi_to_dec: "n < 2 ^ 31 \<Longrightarrow> stoi (to_dec n) = Some (int n)"
  using scan_to_dec [of "[]" n] by (simp add: stoi_def Let_def)

lemma stoul_safe_to_dec: "n < 2 ^ 64 \<Longrightarrow> stoul_safe (to_dec n) = of_nat n"
  using to_dec_props [of n] by (simp add: stoul_safe_def stoul_to_dec)

lemma stoi_safe_to_dec: "n < 2 ^ 31 \<Longrightarrow> stoi_safe (to_dec n) d = int n"
  using to_dec_props [of n] by (simp add: stoi_safe_def stoi_to_dec)

section \<open>Comparison without case\<close>

definition to_lower :: "char \<Rightarrow> char" where
  "to_lower c = (if 65 \<le> (of_char c :: nat) \<and> (of_char c :: nat) \<le> 90 then char_of ((of_char c :: nat) + 32) else c)"

fun iequals_loop :: "string \<Rightarrow> string \<Rightarrow> bool" where
  "iequals_loop (a # as) (b # bs) = (if to_lower a \<noteq> to_lower b then False else iequals_loop as bs)"
| "iequals_loop _ _ = True"

definition iequals :: "string \<Rightarrow> string \<Rightarrow> bool" where
  "iequals a b = (if length a \<noteq> length b then False else iequals_loop a b)"

lemma iequals_iff: "iequals a b \<longleftrightarrow> map to_lower a = map to_lower b"
proof -
  have "length a = length b \<Longrightarrow> iequals_loop a b \<longleftrightarrow> map to_lower a = map to_lower b"
    by (induction a b rule: list_induct2) auto
  then show ?thesis by (auto simp: iequals_def dest: map_eq_imp_length_eq)
qed

section \<open>Addresses\<close>

text \<open>
  \<open>sscanf\<close> of \<open>%u\<close>: the outer \<open>None\<close> is a number that does not fit, where the behaviour is undefined; the
  inner one that the input does not match.
\<close>

definition scan_u :: "string \<Rightarrow> (u32 \<times> string) option option" where
  "scan_u s =
    (case scan_number s of
       None \<Rightarrow> Some None
     | Some (neg, n, rest) \<Rightarrow> if n \<ge> 2 ^ 32 then None else Some (Some (if neg then - of_nat n else of_nat n, rest)))"

text \<open>Numbers separated by dots, as the rest of the format asks for: how many are left to read.\<close>

fun scan_dotted :: "nat \<Rightarrow> string \<Rightarrow> u32 list option option" where
  "scan_dotted 0 s = Some (Some [])"
| "scan_dotted (Suc n) s =
    (case scan_u s of
       None \<Rightarrow> None
     | Some None \<Rightarrow> Some None
     | Some (Some (v, rest)) \<Rightarrow>
         if n = 0 then Some (Some [v])
         else (case rest of
                 c # rest \<Rightarrow> if c = CHR ''.'' then map_option (map_option (Cons v)) (scan_dotted n rest) else Some None
               | [] \<Rightarrow> Some None))"

definition ip_from_string :: "string \<Rightarrow> u32 option" where
  "ip_from_string str =
    (case scan_dotted 4 str of
       None \<Rightarrow> None
     | Some (Some [a, b, c, d]) \<Rightarrow>
         if a > 255 \<or> b > 255 \<or> c > 255 \<or> d > 255 then Some 0
         else Some (push_bit 24 a OR push_bit 16 b OR push_bit 8 c OR d)
     | Some _ \<Rightarrow> Some 0)"

definition ip_to_string :: "u32 \<Rightarrow> string" where
  "ip_to_string addr =
     to_dec (unat (drop_bit 24 addr AND 0xFF)) @ CHR ''.'' # to_dec (unat (drop_bit 16 addr AND 0xFF)) @
     CHR ''.'' # to_dec (unat (drop_bit 8 addr AND 0xFF)) @ CHR ''.'' # to_dec (unat (addr AND 0xFF))"

lemma scan_u_to_dec:
  assumes "n < 2 ^ 32" and "case rest of [] \<Rightarrow> True | c # _ \<Rightarrow> \<not> is_digit c"
  shows "scan_u (to_dec n @ rest) = Some (Some (of_nat n, rest))"
  using assms by (simp add: scan_u_def scan_to_dec)

lemma dot_no_digit: "\<not> is_digit (CHR ''.'')"
  by (simp add: is_digit_def)

lemma byte_bound: "(w :: u32) AND 0xFF \<le> 255"
  by (rule word_and_le1)

lemma join_bytes:
  "push_bit 24 (drop_bit 24 w AND 0xFF) OR push_bit 16 (drop_bit 16 w AND 0xFF) OR push_bit 8 (drop_bit 8 w AND 0xFF) OR (w AND 0xFF)
     = (w :: u32)"
proof -
  have m: "(0xFF :: u32) = mask 8" by (simp add: mask_eq_exp_minus_1)
  have "bit (push_bit 24 (drop_bit 24 w AND mask 8) OR push_bit 16 (drop_bit 16 w AND mask 8) OR
      push_bit 8 (drop_bit 8 w AND mask 8) OR (w AND mask 8)) n = bit w n" if "n < 32" for n
  proof -
    consider "n < 8" | "8 \<le> n" "n < 16" | "16 \<le> n" "n < 24" | "24 \<le> n" by linarith
    then show ?thesis using that by cases (simp_all add: bit_simps, arith+)
  qed
  then show ?thesis unfolding m by (intro bit_word_eqI) simp
qed

lemma scan_dotted_step:
  "k < 2 ^ 32 \<Longrightarrow> scan_dotted (Suc (Suc n)) (to_dec k @ CHR ''.'' # s) =
     map_option (map_option (Cons (of_nat k))) (scan_dotted (Suc n) s)"
  using scan_u_to_dec [of k "CHR ''.'' # s"] dot_no_digit by (simp del: scan_dotted.simps add: scan_dotted.simps(2) [of "Suc n"])

lemma scan_dotted_single: "k < 2 ^ 32 \<Longrightarrow> scan_dotted (Suc 0) (to_dec k) = Some (Some [of_nat k])"
  using scan_u_to_dec [of k "[]"] by simp

text \<open>Every address survives being printed and read back: \<open>ip_from_string\<close> inverts \<open>ip_to_string\<close>.\<close>

theorem ip_string_roundtrip: "ip_from_string (ip_to_string addr) = Some addr"
proof -
  define b where "b i = drop_bit i addr AND 0xFF" for i :: nat
  have fits: "unat (b i) < 2 ^ 32" for i using unat_lt_2_32 [of "b i"] by simp
  have num: "(4 :: nat) = Suc (Suc (Suc (Suc 0)))" by simp
  have "scan_dotted 4 (ip_to_string addr) = Some (Some [b 24, b 16, b 8, b 0])"
    using fits fits [of 0] unfolding ip_to_string_def num b_def by (simp add: scan_dotted_step scan_dotted_single del: scan_dotted.simps)
  moreover have "\<not> b i > 255" for i using byte_bound [of "drop_bit i addr"] by (simp add: b_def not_less)
  moreover have "push_bit 24 (b 24) OR push_bit 16 (b 16) OR push_bit 8 (b 8) OR b 0 = addr"
    using join_bytes [of addr] by (simp add: b_def)
  ultimately show ?thesis by (simp add: ip_from_string_def)
qed

end
