(* ===== verification/Http_Parser.thy ===== *)
theory Http_Parser
  imports Text "HOL-Library.AList"
begin

text \<open>
  HTTP messages and the incremental parsers of requests and responses
  (\<^verbatim>\<open>include/neustack/app/http_types.hpp\<close>, \<^verbatim>\<open>http_parser.hpp\<close>, \<^verbatim>\<open>src/app/http_types.cpp\<close>, \<^verbatim>\<open>http_parser.cpp\<close>).
  Headers are an association list with distinct keys; the order in which \<open>unordered_map\<close> is iterated is the
  parameter \<open>ho\<close>.
\<close>

section \<open>Messages\<close>

datatype http_method = GET | POST | PUT | DELETE | HEAD | OPTIONS | UNKNOWN

type_synonym headers = "(string \<times> string list) list"

record http_request =
  rq_method :: http_method
  rq_path :: string
  rq_version :: string
  rq_raw_query :: string
  rq_query_params :: "(string \<times> string) list"
  rq_headers :: headers
  rq_body :: string

record http_response =
  rp_status :: int
  rp_headers :: headers
  rp_body :: string

definition http_request_new :: http_request where
  "http_request_new = \<lparr>rq_method = UNKNOWN, rq_path = [], rq_version = [], rq_raw_query = [], rq_query_params = [],
     rq_headers = [], rq_body = []\<rparr>"

definition http_response_new :: http_response where
  "http_response_new = \<lparr>rp_status = 200, rp_headers = [], rp_body = []\<rparr>"

definition values_of :: "string \<Rightarrow> headers \<Rightarrow> string list" where
  "values_of key hs = (case map_of hs key of Some vs \<Rightarrow> vs | None \<Rightarrow> [])"

definition get_header :: "string \<Rightarrow> http_request \<Rightarrow> string" where
  "get_header key r = (case map_of (rq_headers r) key of Some (v # _) \<Rightarrow> v | _ \<Rightarrow> [])"

definition get_headers :: "string \<Rightarrow> http_request \<Rightarrow> string list" where
  "get_headers key r = values_of key (rq_headers r)"

definition has_header :: "string \<Rightarrow> http_request \<Rightarrow> bool" where
  "has_header key r \<longleftrightarrow> map_of (rq_headers r) key \<noteq> None"

text \<open>\<open>headers[key].push_back(value)\<close>\<close>

definition push_header :: "string \<Rightarrow> string \<Rightarrow> headers \<Rightarrow> headers" where
  "push_header key v hs = AList.update key (values_of key hs @ [v]) hs"

definition rq_add_header :: "string \<Rightarrow> string \<Rightarrow> http_request \<Rightarrow> http_request" where
  "rq_add_header key v r = r\<lparr>rq_headers := push_header key v (rq_headers r)\<rparr>"

definition query_param :: "string \<Rightarrow> http_request \<Rightarrow> string" where
  "query_param key r = (case map_of (rq_query_params r) key of Some v \<Rightarrow> v | None \<Rightarrow> [])"

definition rp_set_header :: "string \<Rightarrow> string \<Rightarrow> http_response \<Rightarrow> http_response" where
  "rp_set_header key v r = r\<lparr>rp_headers := AList.update key [v] (rp_headers r)\<rparr>"

definition rp_add_header :: "string \<Rightarrow> string \<Rightarrow> http_response \<Rightarrow> http_response" where
  "rp_add_header key v r = r\<lparr>rp_headers := push_header key v (rp_headers r)\<rparr>"

definition content_type :: "string \<Rightarrow> http_response \<Rightarrow> http_response" where
  "content_type t r = rp_set_header ''Content-Type'' t r"

definition set_body :: "string \<Rightarrow> http_response \<Rightarrow> http_response" where
  "set_body content r = rp_set_header ''Content-Length'' (to_dec (length content)) (r\<lparr>rp_body := content\<rparr>)"

fun http_method_name :: "http_method \<Rightarrow> string" where
  "http_method_name GET = ''GET''"
| "http_method_name POST = ''POST''"
| "http_method_name PUT = ''PUT''"
| "http_method_name DELETE = ''DELETE''"
| "http_method_name HEAD = ''HEAD''"
| "http_method_name OPTIONS = ''OPTIONS''"
| "http_method_name UNKNOWN = ''UNKNOWN''"

definition parse_http_method :: "string \<Rightarrow> http_method" where
  "parse_http_method s =
    (if s = ''GET'' then GET
     else if s = ''POST'' then POST
     else if s = ''PUT'' then PUT
     else if s = ''DELETE'' then DELETE
     else if s = ''HEAD'' then HEAD
     else if s = ''OPTIONS'' then OPTIONS
     else UNKNOWN)"

definition http_status_text :: "int \<Rightarrow> string" where
  "http_status_text status =
    (if status = 200 then ''OK''
     else if status = 201 then ''Created''
     else if status = 204 then ''No Content''
     else if status = 301 then ''Moved Permanently''
     else if status = 302 then ''Found''
     else if status = 400 then ''Bad Request''
     else if status = 401 then ''Unauthorized''
     else if status = 403 then ''Forbidden''
     else if status = 404 then ''Not Found''
     else if status = 405 then ''Method Not Allowed''
     else if status = 500 then ''Internal Server Error''
     else if status = 501 then ''Not Implemented''
     else if status = 503 then ''Service Unavailable''
     else ''Unknown'')"

definition header_lines :: "headers \<Rightarrow> string" where
  "header_lines hs = concat (map (\<lambda>(key, vs). concat (map (\<lambda>v. key @ '': '' @ v @ CRLF) vs)) hs)"

definition rq_serialize :: "(headers \<Rightarrow> headers) \<Rightarrow> http_request \<Rightarrow> string" where
  "rq_serialize ho r =
     http_method_name (rq_method r) @ '' '' @ rq_path r @ '' '' @ (if rq_version r = [] then ''HTTP/1.1'' else rq_version r) @ CRLF @
     header_lines (ho (rq_headers r)) @ CRLF @ rq_body r"

text \<open>\<open>std::to_string\<close> of the status, which is not negative for a status the parser accepts or the code sets.\<close>

definition rp_serialize :: "(headers \<Rightarrow> headers) \<Rightarrow> http_response \<Rightarrow> string" where
  "rp_serialize ho r =
     ''HTTP/1.1 '' @ to_dec (nat (rp_status r)) @ '' '' @ http_status_text (rp_status r) @ CRLF @
     header_lines (ho (rp_headers r)) @ CRLF @ rp_body r"

section \<open>The parsers\<close>

datatype parse_state = FirstLine | Headers | Body | Complete | Error

record http_parser =
  hp_state :: parse_state
  hp_buffer :: string
  hp_error :: string
  hp_content_length :: u64

record request_parser = http_parser +
  hp_request :: http_request

record response_parser = http_parser +
  hp_response :: http_response
  hp_chunked :: bool

definition MAX_BUFFER_SIZE :: nat where "MAX_BUFFER_SIZE = 1 * 1024 * 1024"

definition request_parser_new :: request_parser where
  "request_parser_new = \<lparr>hp_state = FirstLine, hp_buffer = [], hp_error = [], hp_content_length = 0, hp_request = http_request_new\<rparr>"

definition response_parser_new :: response_parser where
  "response_parser_new = \<lparr>hp_state = FirstLine, hp_buffer = [], hp_error = [], hp_content_length = 0,
     hp_response = http_response_new, hp_chunked = False\<rparr>"

text \<open>\<open>find_header_ignore_case\<close>: the first entry in iteration order whose key is equal but for case.\<close>

definition find_header_ignore_case :: "headers \<Rightarrow> string \<Rightarrow> (string \<times> string list) option" where
  "find_header_ignore_case hs key = List.find (\<lambda>(k, _). iequals k key) hs"

definition end_headers :: "(headers \<Rightarrow> headers) \<Rightarrow> headers \<Rightarrow> 'a http_parser_scheme \<Rightarrow> 'a http_parser_scheme" where
  "end_headers ho hs p =
    (let p = (case find_header_ignore_case (ho hs) ''Content-Length'' of
                Some (_, v # _) \<Rightarrow> p\<lparr>hp_content_length := stoul_safe v\<rparr>
              | _ \<Rightarrow> p)
     in p\<lparr>hp_state := (if hp_content_length p > 0 then Body else Complete)\<rparr>)"

function parse_headers ::
  "(headers \<Rightarrow> headers) \<Rightarrow> headers \<Rightarrow> 'a http_parser_scheme \<Rightarrow> bool \<times> headers \<times> 'a http_parser_scheme" where
  "parse_headers ho hs p =
    (case find_sub CRLF (hp_buffer p) of
       None \<Rightarrow> (False, hs, p)
     | Some pos \<Rightarrow>
         if pos = 0 then (True, hs, end_headers ho hs (p\<lparr>hp_buffer := drop 2 (hp_buffer p)\<rparr>))
         else
           let line = take pos (hp_buffer p);
               p = p\<lparr>hp_buffer := drop (pos + 2) (hp_buffer p)\<rparr>
           in (case find_char (CHR '':'') line of
                 None \<Rightarrow> (True, hs, p\<lparr>hp_state := Error, hp_error := ''Invalid header line''\<rparr>)
               | Some colon \<Rightarrow>
                   parse_headers ho
                     (push_header (take colon line) (dropWhile (\<lambda>c. c = CHR '' '') (drop (colon + 1) line)) hs) p))"
  by pat_completeness auto
termination
  by (relation "measure (\<lambda>(_, _, p). length (hp_buffer p))") (auto dest: find_sub_bound)

declare parse_headers.simps [simp del]

definition parse_body :: "string \<Rightarrow> 'a http_parser_scheme \<Rightarrow> bool \<times> string \<times> 'a http_parser_scheme" where
  "parse_body body p =
    (let n = unat (hp_content_length p)
     in if length (hp_buffer p) \<ge> n
        then (True, take n (hp_buffer p), p\<lparr>hp_buffer := drop n (hp_buffer p), hp_state := Complete\<rparr>)
        else (False, body, p))"

text \<open>The loop of \<open>parse_query_string\<close> on what is left of the query.\<close>

function query_loop :: "string \<Rightarrow> (string \<times> string) list \<Rightarrow> (string \<times> string) list" where
  "query_loop rest params =
    (let pair = takeWhile (\<lambda>c. c \<noteq> CHR ''&'') rest;
         params = (if pair = [] then params
                   else (case find_char (CHR ''='') pair of
                           Some eq \<Rightarrow> AList.update (take eq pair) (drop (eq + 1) pair) params
                         | None \<Rightarrow> AList.update pair [] params))
     in (case dropWhile (\<lambda>c. c \<noteq> CHR ''&'') rest of
           [] \<Rightarrow> params
         | _ # rest' \<Rightarrow> query_loop rest' params))"
  by pat_completeness auto
termination
  by (relation "measure (\<lambda>(rest, _). length rest)")
    (auto, metis Suc_le_lessD length_Cons length_dropWhile_le)

declare query_loop.simps [simp del]

definition parse_query_string :: "string \<Rightarrow> (string \<times> string) list" where
  "parse_query_string query = query_loop query []"

definition split_path_query :: "string \<Rightarrow> http_request \<Rightarrow> http_request" where
  "split_path_query uri r =
    (case find_char (CHR ''?'') uri of
       Some q \<Rightarrow> r\<lparr>rq_path := take q uri, rq_raw_query := drop (q + 1) uri,
                   rq_query_params := parse_query_string (drop (q + 1) uri)\<rparr>
     | None \<Rightarrow> r\<lparr>rq_path := uri\<rparr>)"

definition parse_request_line :: "request_parser \<Rightarrow> bool \<times> request_parser" where
  "parse_request_line p =
    (case find_sub CRLF (hp_buffer p) of
       None \<Rightarrow> (False, p)
     | Some pos \<Rightarrow>
         let line = take pos (hp_buffer p);
             p = p\<lparr>hp_buffer := drop (pos + 2) (hp_buffer p)\<rparr>
         in (case find_char (CHR '' '') line of
               None \<Rightarrow> (True, p\<lparr>hp_state := Error, hp_error := ''Invalid request line''\<rparr>)
             | Some sp1 \<Rightarrow>
                 (case find_char_from (CHR '' '') (sp1 + 1) line of
                    None \<Rightarrow> (True, p\<lparr>hp_state := Error, hp_error := ''Invalid request line''\<rparr>)
                  | Some sp2 \<Rightarrow>
                      let r = (hp_request p)\<lparr>rq_method := parse_http_method (take sp1 line)\<rparr>;
                          r = split_path_query (take (sp2 - sp1 - 1) (drop (sp1 + 1) line)) r;
                          r = r\<lparr>rq_version := drop (sp2 + 1) line\<rparr>
                      in (True, p\<lparr>hp_request := r, hp_state := Headers\<rparr>))))"

definition hp_finished :: "'a http_parser_scheme \<Rightarrow> bool" where
  "hp_finished p \<longleftrightarrow> hp_state p = Complete \<or> hp_state p = Error"

text \<open>One turn of the loop of \<open>feed\<close>; the flag says that the loop goes on.\<close>

definition request_step :: "(headers \<Rightarrow> headers) \<Rightarrow> request_parser \<Rightarrow> bool \<times> request_parser" where
  "request_step ho p =
    (case hp_state p of
       FirstLine \<Rightarrow> parse_request_line p
     | Headers \<Rightarrow>
         (case parse_headers ho (rq_headers (hp_request p)) p of
            (ok, hs, p) \<Rightarrow> (ok, p\<lparr>hp_request := (hp_request p)\<lparr>rq_headers := hs\<rparr>\<rparr>))
     | Body \<Rightarrow>
         (case parse_body (rq_body (hp_request p)) p of
            (ok, body, p) \<Rightarrow> (ok, p\<lparr>hp_request := (hp_request p)\<lparr>rq_body := body\<rparr>\<rparr>))
     | _ \<Rightarrow> (True, p))"

definition parse_status_line :: "response_parser \<Rightarrow> bool \<times> response_parser" where
  "parse_status_line p =
    (case find_sub CRLF (hp_buffer p) of
       None \<Rightarrow> (False, p)
     | Some pos \<Rightarrow>
         let line = take pos (hp_buffer p);
             p = p\<lparr>hp_buffer := drop (pos + 2) (hp_buffer p)\<rparr>
         in (case find_char (CHR '' '') line of
               None \<Rightarrow> (True, p\<lparr>hp_state := Error, hp_error := ''Invalid status line''\<rparr>)
             | Some sp1 \<Rightarrow>
                 let status_str = (case find_char_from (CHR '' '') (sp1 + 1) line of
                                     Some sp2 \<Rightarrow> take (sp2 - sp1 - 1) (drop (sp1 + 1) line)
                                   | None \<Rightarrow> drop (sp1 + 1) line);
                     status_code = stoi_safe status_str 0
                 in if status_code < 100 \<or> status_code > 599
                    then (True, p\<lparr>hp_state := Error, hp_error := ''Invalid status code''\<rparr>)
                    else (True, p\<lparr>hp_response := (hp_response p)\<lparr>rp_status := status_code\<rparr>, hp_state := Headers\<rparr>)))"

definition response_step :: "(headers \<Rightarrow> headers) \<Rightarrow> response_parser \<Rightarrow> bool \<times> response_parser" where
  "response_step ho p =
    (case hp_state p of
       FirstLine \<Rightarrow> parse_status_line p
     | Headers \<Rightarrow>
         (case parse_headers ho (rp_headers (hp_response p)) p of
            (ok, hs, p) \<Rightarrow>
              let p = p\<lparr>hp_response := (hp_response p)\<lparr>rp_headers := hs\<rparr>\<rparr>
              in if \<not> ok then (False, p)
                 else
                   let p = (case find_header_ignore_case (ho hs) ''Transfer-Encoding'' of
                              Some (_, v # _) \<Rightarrow> p\<lparr>hp_chunked := (find_sub ''chunked'' v \<noteq> None)\<rparr>
                            | _ \<Rightarrow> p)
                   in if hp_chunked p \<and> hp_state p = Body
                      then (False, p\<lparr>hp_state := Error, hp_error := ''Chunked transfer not implemented''\<rparr>)
                      else (True, p))
     | Body \<Rightarrow>
         (case parse_body (rp_body (hp_response p)) p of
            (ok, body, p) \<Rightarrow> (ok, p\<lparr>hp_response := (hp_response p)\<lparr>rp_body := body\<rparr>\<rparr>))
     | _ \<Rightarrow> (True, p))"

section \<open>Progress\<close>

fun stage_left :: "parse_state \<Rightarrow> nat" where
  "stage_left FirstLine = 3" | "stage_left Headers = 2" | "stage_left Body = 1" | "stage_left _ = 0"

lemma end_headers_state: "hp_state (end_headers ho hs p) = Body \<or> hp_state (end_headers ho hs p) = Complete"
  by (simp add: end_headers_def Let_def)

lemma end_headers_buffer [simp]: "hp_buffer (end_headers ho hs p) = hp_buffer p"
  by (simp add: end_headers_def Let_def split: option.split list.split)

text \<open>The four ways a turn of \<open>parse_headers\<close> goes; a line is what precedes the end of line.\<close>

definition past_line :: "nat \<Rightarrow> 'a http_parser_scheme \<Rightarrow> 'a http_parser_scheme" where
  "past_line pos p = p\<lparr>hp_buffer := drop (pos + 2) (hp_buffer p)\<rparr>"

definition header_of :: "nat \<Rightarrow> string \<Rightarrow> headers \<Rightarrow> headers" where
  "header_of colon line hs = push_header (take colon line) (dropWhile (\<lambda>c. c = CHR '' '') (drop (colon + 1) line)) hs"

lemma parse_headers_eqs:
  "find_sub CRLF (hp_buffer p) = None \<Longrightarrow> parse_headers ho hs p = (False, hs, p)"
  "find_sub CRLF (hp_buffer p) = Some 0 \<Longrightarrow> parse_headers ho hs p = (True, hs, end_headers ho hs (past_line 0 p))"
  "find_sub CRLF (hp_buffer p) = Some pos \<Longrightarrow> pos \<noteq> 0 \<Longrightarrow> find_char (CHR '':'') (take pos (hp_buffer p)) = None \<Longrightarrow>
     parse_headers ho hs p = (True, hs, (past_line pos p)\<lparr>hp_state := Error, hp_error := ''Invalid header line''\<rparr>)"
  "find_sub CRLF (hp_buffer p) = Some pos \<Longrightarrow> pos \<noteq> 0 \<Longrightarrow> find_char (CHR '':'') (take pos (hp_buffer p)) = Some colon \<Longrightarrow>
     parse_headers ho hs p = parse_headers ho (header_of colon (take pos (hp_buffer p)) hs) (past_line pos p)"
  by (simp_all add: parse_headers.simps [of ho hs p] Let_def past_line_def header_of_def numeral_2_eq_2)

lemma parse_headers_induct [case_names wait blank bad line]:
  assumes "\<And>hs p. find_sub CRLF (hp_buffer p) = None \<Longrightarrow> P hs p"
    and "\<And>hs p. find_sub CRLF (hp_buffer p) = Some 0 \<Longrightarrow> P hs p"
    and "\<And>hs p pos. find_sub CRLF (hp_buffer p) = Some pos \<Longrightarrow> pos \<noteq> 0 \<Longrightarrow>
      find_char (CHR '':'') (take pos (hp_buffer p)) = None \<Longrightarrow> P hs p"
    and "\<And>hs p pos colon. find_sub CRLF (hp_buffer p) = Some pos \<Longrightarrow> pos \<noteq> 0 \<Longrightarrow>
      find_char (CHR '':'') (take pos (hp_buffer p)) = Some colon \<Longrightarrow>
      P (header_of colon (take pos (hp_buffer p)) hs) (past_line pos p) \<Longrightarrow> P hs p"
  shows "P hs (p :: 'a http_parser_scheme)"
proof (induction "length (hp_buffer p)" arbitrary: hs p rule: less_induct)
  case less
  show ?case
  proof (cases "find_sub CRLF (hp_buffer p)")
    case None
    then show ?thesis by (rule assms(1))
  next
    case (Some pos)
    then have "length (hp_buffer (past_line pos p)) < length (hp_buffer p)"
      using find_sub_bound by (fastforce simp: past_line_def)
    then show ?thesis
      using Some assms(2-4) less by (cases "pos = 0"; cases "find_char (CHR '':'') (take pos (hp_buffer p))") blast+
  qed
qed

lemma past_line_fields [simp]:
  "hp_state (past_line pos p) = hp_state p" "hp_error (past_line pos p) = hp_error p"
  "hp_content_length (past_line pos p) = hp_content_length p" "hp_buffer (past_line pos p) = drop (pos + 2) (hp_buffer p)"
  by (simp_all add: past_line_def)

lemma parse_headers_stage:
  "parse_headers ho hs p = (ok, hs', p') \<Longrightarrow>
     (if ok then stage_left (hp_state p') \<le> 1 else hp_state p' = hp_state p) \<and> length (hp_buffer p') \<le> length (hp_buffer p)"
proof (induction hs p rule: parse_headers_induct)
  case (wait hs p)
  then show ?case by (simp add: parse_headers_eqs(1))
next
  case (blank hs p)
  then show ?case using end_headers_state [of ho hs "past_line 0 p"] by (auto simp: parse_headers_eqs(2))
next
  case (bad hs p pos)
  then show ?case by (auto simp: parse_headers_eqs(3))
next
  case (line hs p pos colon)
  then show ?case by (fastforce simp: parse_headers_eqs(4))
qed

lemma request_step_stage:
  assumes "\<not> hp_finished p" and "request_step ho p = (ok, p')"
  shows "(if ok then stage_left (hp_state p') < stage_left (hp_state p) else \<not> hp_finished p') \<and>
    length (hp_buffer p') \<le> length (hp_buffer p)"
proof (cases "hp_state p")
  case FirstLine
  then show ?thesis
    using assms by (auto simp: request_step_def parse_request_line_def hp_finished_def Let_def split: option.splits)
next
  case Headers
  obtain b hs q where q: "parse_headers ho (rq_headers (hp_request p)) p = (b, hs, q)" by (metis prod_cases3)
  then show ?thesis using Headers assms parse_headers_stage [OF q] by (auto simp: request_step_def hp_finished_def)
next
  case Body
  then show ?thesis using assms by (auto simp: request_step_def parse_body_def hp_finished_def Let_def split: if_splits)
qed (use assms(1) in \<open>simp_all add: hp_finished_def\<close>)

lemma response_step_stage:
  assumes "\<not> hp_finished p" and "response_step ho p = (ok, p')"
  shows "(ok \<longrightarrow> stage_left (hp_state p') < stage_left (hp_state p)) \<and> length (hp_buffer p') \<le> length (hp_buffer p)"
proof (cases "hp_state p")
  case FirstLine
  then show ?thesis
    using assms by (auto simp: response_step_def parse_status_line_def Let_def split: option.splits if_splits)
next
  case Headers
  obtain b hs q where q: "parse_headers ho (rp_headers (hp_response p)) p = (b, hs, q)" by (metis prod_cases3)
  then show ?thesis using Headers assms parse_headers_stage [OF q]
    by (auto simp: response_step_def Let_def split: option.splits list.splits if_splits)
next
  case Body
  then show ?thesis using assms by (auto simp: response_step_def parse_body_def Let_def split: if_splits)
qed (use assms(1) in \<open>simp_all add: hp_finished_def\<close>)

function request_loop :: "(headers \<Rightarrow> headers) \<Rightarrow> request_parser \<Rightarrow> request_parser" where
  "request_loop ho p =
    (if hp_finished p then p
     else (case request_step ho p of (True, p') \<Rightarrow> request_loop ho p' | (False, p') \<Rightarrow> p'))"
  by pat_completeness auto
termination
  by (relation "measure (\<lambda>(_, p). stage_left (hp_state p))") (auto dest: request_step_stage [OF _ sym])

function response_loop :: "(headers \<Rightarrow> headers) \<Rightarrow> response_parser \<Rightarrow> response_parser" where
  "response_loop ho p =
    (if hp_finished p then p
     else (case response_step ho p of (True, p') \<Rightarrow> response_loop ho p' | (False, p') \<Rightarrow> p'))"
  by pat_completeness auto
termination
  by (relation "measure (\<lambda>(_, p). stage_left (hp_state p))") (auto dest: response_step_stage [OF _ sym])

declare request_loop.simps [simp del] response_loop.simps [simp del]

text \<open>\<open>feed\<close>: the bytes taken, and the parser.\<close>

definition request_feed :: "(headers \<Rightarrow> headers) \<Rightarrow> string \<Rightarrow> request_parser \<Rightarrow> nat \<times> request_parser" where
  "request_feed ho data p =
    (if hp_finished p then (0, p)
     else
       let p = p\<lparr>hp_buffer := hp_buffer p @ data\<rparr>
       in if length (hp_buffer p) > MAX_BUFFER_SIZE
          then (length data, p\<lparr>hp_state := Error, hp_error := ''Request too large''\<rparr>)
          else (length data, request_loop ho p))"

definition response_feed :: "(headers \<Rightarrow> headers) \<Rightarrow> string \<Rightarrow> response_parser \<Rightarrow> nat \<times> response_parser" where
  "response_feed ho data p =
    (if hp_finished p then (0, p)
     else
       let p = p\<lparr>hp_buffer := hp_buffer p @ data\<rparr>
       in if length (hp_buffer p) > MAX_BUFFER_SIZE
          then (length data, p\<lparr>hp_state := Error, hp_error := ''Response too large''\<rparr>)
          else (length data, response_loop ho p))"

definition request_reset :: "request_parser \<Rightarrow> request_parser" where
  "request_reset p = p\<lparr>hp_state := FirstLine, hp_request := http_request_new, hp_buffer := [], hp_error := [], hp_content_length := 0\<rparr>"

definition response_reset :: "response_parser \<Rightarrow> response_parser" where
  "response_reset p = p\<lparr>hp_state := FirstLine, hp_response := http_response_new, hp_buffer := [], hp_error := [],
     hp_content_length := 0, hp_chunked := False\<rparr>"

section \<open>Feeding in pieces\<close>

text \<open>
  A parser that is a loop of steps over what it has buffered: \<open>more bs p\<close> is \<open>p\<close> with \<open>bs\<close> added to its buffer,
  \<open>held p\<close> the number of bytes it holds.  A step that made progress makes the same progress when more is
  buffered behind; one that waits has lost nothing by having been tried.
\<close>

locale step_parser =
  fixes finished :: "'p \<Rightarrow> bool" and step :: "'p \<Rightarrow> bool \<times> 'p" and loop :: "'p \<Rightarrow> 'p" and more :: "string \<Rightarrow> 'p \<Rightarrow> 'p"
    and stage :: "'p \<Rightarrow> nat" and held :: "'p \<Rightarrow> nat"
  assumes loop: "\<And>p. loop p = (if finished p then p else (case step p of (True, p') \<Rightarrow> loop p' | (False, p') \<Rightarrow> p'))"
    and stage: "\<And>p p'. \<not> finished p \<Longrightarrow> step p = (True, p') \<Longrightarrow> stage p' < stage p"
    and held_step: "\<And>p ok p'. \<not> finished p \<Longrightarrow> step p = (ok, p') \<Longrightarrow> held p' \<le> held p"
    and held_more: "\<And>bs p. held (more bs p) = held p + length bs"
    and finished_more: "\<And>bs p. finished (more bs p) = finished p"
    and more_nil: "\<And>p. more [] p = p"
    and more_more: "\<And>as bs p. more bs (more as p) = more (as @ bs) p"
    and step_more: "\<And>bs p p'. \<not> finished p \<Longrightarrow> step p = (True, p') \<Longrightarrow> step (more bs p) = (True, more bs p')"
    and step_wait: "\<And>bs p p'. \<not> finished p \<Longrightarrow> step p = (False, p') \<Longrightarrow>
      (if finished p' then step (more bs p) = (False, more bs p') else step (more bs p') = step (more bs p))"
begin

lemma loop_finished: "finished p \<Longrightarrow> loop p = p"
  by (subst loop) simp

lemma loop_more:
  "if finished (loop p) then loop (more bs p) = more bs (loop p) else loop (more bs (loop p)) = loop (more bs p)"
proof (induction "stage p" arbitrary: p rule: less_induct)
  case less
  show ?case
  proof (cases "finished p")
    case True
    then show ?thesis by (simp add: loop_finished finished_more)
  next
    case False
    obtain ok p' where st: "step p = (ok, p')" by (cases "step p")
    show ?thesis
    proof (cases ok)
      case True
      have "loop p = loop p'" using False st True by (subst loop) simp
      moreover have "loop (more bs p) = loop (more bs p')"
        using False st True step_more [of p p' bs] by (subst loop) (simp add: finished_more)
      ultimately show ?thesis using less [of p'] stage [of p p'] False st True by simp
    next
      case nok: False
      have lp: "loop p = p'" using False st nok by (subst loop) simp
      show ?thesis
      proof (cases "finished p'")
        case True
        then have "loop (more bs p) = more bs p'"
          using False st nok step_wait [of p p' bs] by (subst loop) (simp add: finished_more)
        then show ?thesis using True lp by simp
      next
        case nf: False
        then have "step (more bs p') = step (more bs p)" using False st nok step_wait [of p p' bs] by simp
        then have "loop (more bs p') = loop (more bs p)"
          using False nf by (subst (1 2) loop) (simp add: finished_more)
        then show ?thesis using nf lp by simp
      qed
    qed
  qed
qed

lemma held_loop: "held (loop p) \<le> held p"
proof (induction "stage p" arbitrary: p rule: less_induct)
  case less
  show ?case
  proof (cases "finished p")
    case False
    obtain ok p' where st: "step p = (ok, p')" by (cases "step p")
    have le: "held p' \<le> held p" using held_step False st by blast
    show ?thesis
    proof (cases ok)
      case True
      have "held (loop p') \<le> held p'" using less [of p'] stage [of p p'] False st True by simp
      then show ?thesis using False st True le by (subst loop) simp
    next
      case nok: False
      then show ?thesis using False st le by (subst loop) simp
    qed
  qed (simp add: loop_finished)
qed

text \<open>Feeding piece by piece, below the limit of the buffer, against feeding everything at once.\<close>

lemma feed_pieces:
  assumes feed: "\<forall>c p. feed c p = (if finished p then p else if held (more c p) > limit then too_large c p else loop (more c p))"
    and new: "\<not> finished p" "loop p = p" and fits: "held p + length (concat cs) \<le> limit"
  shows "if finished (foldl (\<lambda>p c. feed c p) p cs)
    then \<exists>rest. loop (more (concat cs) p) = more rest (foldl (\<lambda>p c. feed c p) p cs)
    else foldl (\<lambda>p c. feed c p) p cs = loop (more (concat cs) p)"
  using fits
proof (induction cs rule: rev_induct)
  case Nil
  then show ?case using new by (simp add: more_nil)
next
  case (snoc c cs)
  define f where "f = foldl (\<lambda>p c. feed c p) p cs"
  define q where "q = more (concat cs) p"
  have all: "more (concat (cs @ [c])) p = more c q" by (simp add: q_def more_more)
  have IH: "if finished f then \<exists>rest. loop q = more rest f else f = loop q"
    using snoc by (simp add: f_def q_def)
  note lm = loop_more [of q c]
  have pieces: "foldl (\<lambda>p c. feed c p) p (cs @ [c]) = feed c f" by (simp add: f_def)
  show ?case
    unfolding pieces all
  proof (cases "finished f")
    case True
    then obtain rest where rest: "loop q = more rest f" using IH by auto
    then have "loop (more c q) = more (rest @ c) f" using lm True by (simp add: finished_more more_more)
    moreover have "feed c f = f" using feed True by simp
    ultimately show "if finished (feed c f) then \<exists>rest. loop (more c q) = more rest (feed c f) else feed c f = loop (more c q)"
      using True by auto
  next
    case False
    then have f: "f = loop q" using IH by simp
    then have "held f \<le> held p + length (concat cs)" using held_loop [of q] by (simp add: q_def held_more)
    then have small: "\<not> held (more c f) > limit" using snoc.prems by (simp add: held_more)
    have "loop (more c f) = loop (more c q)" using lm False f by simp
    then have "feed c f = loop (more c q)" using False small by (simp add: feed)
    moreover have "loop (more c q) = more [] (loop (more c q))" by (simp add: more_nil)
    ultimately show "if finished (feed c f) then \<exists>rest. loop (more c q) = more rest (feed c f) else feed c f = loop (more c q)"
      by (auto intro: exI [of _ "[]"])
  qed
qed

end

definition more_data :: "string \<Rightarrow> 'a http_parser_scheme \<Rightarrow> 'a http_parser_scheme" where
  "more_data bs p = p\<lparr>hp_buffer := hp_buffer p @ bs\<rparr>"

lemma more_data_fields [simp]:
  "hp_state (more_data bs p) = hp_state p" "hp_buffer (more_data bs p) = hp_buffer p @ bs"
  "hp_content_length (more_data bs p) = hp_content_length p" "hp_finished (more_data bs p) = hp_finished p"
  "more_data [] p = p" "more_data bs (more_data as p) = more_data (as @ bs) p"
  by (simp_all add: more_data_def hp_finished_def)

lemma more_data_swap:
  "more_data bs (past_line pos p) = past_line pos (more_data bs p)" if "pos + 2 \<le> length (hp_buffer p)"
  using that by (simp add: more_data_def past_line_def)

lemma more_data_end: "more_data bs (end_headers ho hs p) = end_headers ho hs (more_data bs p)"
  by (simp add: more_data_def end_headers_def Let_def split: option.split list.split)

lemma line_more:
  assumes "find_sub CRLF (hp_buffer p) = Some pos"
  shows "find_sub CRLF (hp_buffer (more_data bs p)) = Some pos" "take pos (hp_buffer (more_data bs p)) = take pos (hp_buffer p)"
    "past_line pos (more_data bs p) = more_data bs (past_line pos p)"
  using assms find_sub_bound [OF assms] by (simp_all add: find_sub_extend more_data_swap)

lemma parse_headers_more:
  "parse_headers ho hs p = (ok, hs', p') \<Longrightarrow>
    (if ok then parse_headers ho hs (more_data bs p) = (True, hs', more_data bs p')
     else parse_headers ho hs' (more_data bs p') = parse_headers ho hs (more_data bs p))"
proof (induction hs p rule: parse_headers_induct)
  case (wait hs p)
  then show ?case by (auto simp: parse_headers_eqs(1))
next
  case (blank hs p)
  note m = line_more [OF blank.hyps, of bs]
  show ?case using blank.prems blank.hyps m by (auto simp: parse_headers_eqs(2) more_data_end)
next
  case (bad hs p pos)
  note m = line_more [OF bad.hyps(1), of bs]
  have "parse_headers ho hs (more_data bs p) =
      (True, hs, (past_line pos (more_data bs p))\<lparr>hp_state := Error, hp_error := ''Invalid header line''\<rparr>)"
    by (intro parse_headers_eqs(3)) (simp_all only: m bad.hyps not_False_eq_True)
  then show ?case using bad.prems bad.hyps m(3) by (auto simp: parse_headers_eqs(3) more_data_def)
next
  case (line hs p pos colon)
  note m = line_more [OF line.hyps(1), of bs]
  have "parse_headers ho hs (more_data bs p) =
      parse_headers ho (header_of colon (take pos (hp_buffer p)) hs) (more_data bs (past_line pos p))"
    using line.hyps m parse_headers_eqs(4) [of "more_data bs p" pos colon ho hs] by (simp del: more_data_fields)
  then show ?case using line.IH line.prems line.hyps by (simp add: parse_headers_eqs(4))
qed

lemma parse_body_more:
  assumes "parse_body body p = (ok, body', p')"
  shows "if ok then parse_body body (more_data bs p) = (True, body', more_data bs p') else body' = body \<and> p' = p"
  using assms by (auto simp: parse_body_def Let_def more_data_def split: if_splits)

text \<open>\<open>parse_headers\<close> leaves what it does not know of a parser as it is: an update of other fields commutes.\<close>

lemma parse_headers_frame:
  assumes "\<forall>p. hp_buffer (f p) = hp_buffer p" and "\<forall>pos p. past_line pos (f p) = f (past_line pos p)"
    and "\<forall>ho hs p. end_headers ho hs (f p) = f (end_headers ho hs p)"
    and "\<forall>p st e. (f p)\<lparr>hp_state := st, hp_error := e\<rparr> = f (p\<lparr>hp_state := st, hp_error := e\<rparr>)"
  shows "parse_headers ho hs (f p) = (case parse_headers ho hs p of (ok, hs', q) \<Rightarrow> (ok, hs', f q))"
proof (induction hs p rule: parse_headers_induct)
  case (wait hs p)
  then show ?case using assms(1) by (simp add: parse_headers_eqs(1))
next
  case (blank hs p)
  then show ?case using assms(1-3) by (simp add: parse_headers_eqs(2))
next
  case (bad hs p pos)
  then show ?case using assms(1,2,4) by (simp add: parse_headers_eqs(3))
next
  case (line hs p pos colon)
  then show ?case using assms(1,2) by (simp add: parse_headers_eqs(4))
qed

lemma parse_headers_request:
  "parse_headers ho hs (p\<lparr>hp_request := r\<rparr>) = (case parse_headers ho hs p of (ok, hs', q) \<Rightarrow> (ok, hs', q\<lparr>hp_request := r\<rparr>))"
  by (rule parse_headers_frame) (simp_all add: past_line_def end_headers_def Let_def split: option.split list.split)

lemma parse_headers_response:
  "parse_headers ho hs (p\<lparr>hp_response := r\<rparr>) = (case parse_headers ho hs p of (ok, hs', q) \<Rightarrow> (ok, hs', q\<lparr>hp_response := r\<rparr>))"
  by (rule parse_headers_frame) (simp_all add: past_line_def end_headers_def Let_def split: option.split list.split)

lemma parse_headers_chunked:
  "parse_headers ho hs (p\<lparr>hp_chunked := b\<rparr>) = (case parse_headers ho hs p of (ok, hs', q) \<Rightarrow> (ok, hs', q\<lparr>hp_chunked := b\<rparr>))"
  by (rule parse_headers_frame) (simp_all add: past_line_def end_headers_def Let_def split: option.split list.split)

lemma parse_headers_keeps_request:
  assumes "parse_headers ho hs p = (ok, hs', q)"
  shows "hp_request q = hp_request p"
proof -
  have "p\<lparr>hp_request := hp_request p\<rparr> = p" by simp
  then have "q\<lparr>hp_request := hp_request p\<rparr> = q"
    using parse_headers_request [of ho hs "hp_request p" p] assms by simp
  then have "hp_request (q\<lparr>hp_request := hp_request p\<rparr>) = hp_request q" by (rule arg_cong)
  then show ?thesis by simp
qed

lemma split_path_query_frame: "rq_headers (split_path_query uri r) = rq_headers r"
  by (simp add: split_path_query_def split: option.split)

lemma request_step_more:
  assumes "\<not> hp_finished p" and "request_step ho p = (True, p')"
  shows "request_step ho (more_data bs p) = (True, more_data bs p')"
proof (cases "hp_state p")
  case FirstLine
  then obtain pos where pos: "find_sub CRLF (hp_buffer p) = Some pos"
    using assms(2) by (auto simp: request_step_def parse_request_line_def split: option.splits)
  note m = line_more [OF pos, of bs, unfolded past_line_def]
  show ?thesis
    using FirstLine assms(2) pos m(1,2) m(3) unfolding request_step_def parse_request_line_def
    by (auto simp: Let_def more_data_def split: option.splits)
next
  case Headers
  obtain ok hs q where q: "parse_headers ho (rq_headers (hp_request p)) p = (ok, hs, q)" by (metis prod_cases3)
  then show ?thesis
    using Headers assms(2) parse_headers_more [OF q, of bs] by (auto simp: request_step_def more_data_def)
next
  case Body
  obtain ok body q where q: "parse_body (rq_body (hp_request p)) p = (ok, body, q)" by (metis prod_cases3)
  then show ?thesis
    using Body assms(2) parse_body_more [OF q, of bs] by (auto simp: request_step_def more_data_def)
qed (use assms(1) in \<open>simp_all add: hp_finished_def\<close>)

lemma request_step_wait:
  assumes "\<not> hp_finished p" and "request_step ho p = (False, p')"
  shows "\<not> hp_finished p' \<and> request_step ho (more_data bs p') = request_step ho (more_data bs p)"
proof (cases "hp_state p")
  case FirstLine
  then have "p' = p"
    using assms(2) by (auto simp: request_step_def parse_request_line_def Let_def split: option.splits)
  then show ?thesis using assms(1) by simp
next
  case Headers
  obtain ok hs q where q: "parse_headers ho (rq_headers (hp_request p)) p = (ok, hs, q)" by (metis prod_cases3)
  then have p': "\<not> ok" "p' = q\<lparr>hp_request := (hp_request q)\<lparr>rq_headers := hs\<rparr>\<rparr>"
    using Headers assms(2) by (simp_all add: request_step_def)
  define R where "R = hp_request p"
  have req: "hp_request q = R" using parse_headers_keeps_request [OF q] by (simp add: R_def)
  obtain ok2 hs2 q2 where q2: "parse_headers ho (rq_headers R) (more_data bs p) = (ok2, hs2, q2)" by (metis prod_cases3)
  have req2: "hp_request q2 = R" using parse_headers_keeps_request [OF q2] by (simp add: more_data_def R_def)
  have more: "parse_headers ho hs (more_data bs q) = (ok2, hs2, q2)"
    using parse_headers_more [OF q, of bs] p'(1) q2 by (simp add: R_def)
  have mp: "more_data bs p' = (more_data bs q)\<lparr>hp_request := R\<lparr>rq_headers := hs\<rparr>\<rparr>"
    by (simp add: p'(2) req more_data_def)
  have st: "hp_state p' = Headers" using parse_headers_stage [OF q] p' Headers by simp
  have "request_step ho (more_data bs p') = (ok2, q2\<lparr>hp_request := R\<lparr>rq_headers := hs2\<rparr>\<rparr>)"
    using st more unfolding request_step_def more_data_fields by (simp add: mp parse_headers_request)
  moreover have "request_step ho (more_data bs p) = (ok2, q2\<lparr>hp_request := R\<lparr>rq_headers := hs2\<rparr>\<rparr>)"
    using Headers q2 req2 by (simp add: request_step_def more_data_def R_def)
  ultimately show ?thesis using st by (simp add: hp_finished_def)
next
  case Body
  obtain ok body q where q: "parse_body (rq_body (hp_request p)) p = (ok, body, q)" by (metis prod_cases3)
  then have "body = rq_body (hp_request p)" "q = p" "\<not> ok"
    using Body assms(2) parse_body_more [OF q, of bs] by (auto simp: request_step_def split: if_splits)
  then have "p' = p" using Body assms(2) q by (simp add: request_step_def)
  then show ?thesis using assms(1) by simp
qed (use assms(1) in \<open>simp_all add: hp_finished_def\<close>)

lemma parse_headers_keeps_response:
  assumes "parse_headers ho hs p = (ok, hs', q)"
  shows "hp_response q = hp_response p \<and> hp_chunked q = hp_chunked p"
proof -
  have "p\<lparr>hp_response := hp_response p\<rparr> = p" "p\<lparr>hp_chunked := hp_chunked p\<rparr> = p" by simp_all
  then have "q\<lparr>hp_response := hp_response p\<rparr> = q" "q\<lparr>hp_chunked := hp_chunked p\<rparr> = q"
    using parse_headers_response [of ho hs "hp_response p" p] parse_headers_chunked [of ho hs "hp_chunked p" p] assms by simp_all
  then have "hp_response (q\<lparr>hp_response := hp_response p\<rparr>) = hp_response q" "hp_chunked (q\<lparr>hp_chunked := hp_chunked p\<rparr>) = hp_chunked q"
    by (auto intro: arg_cong)
  then show ?thesis by simp
qed

text \<open>The end of the headers of a response, where its framing is decided.\<close>

definition response_framing :: "(headers \<Rightarrow> headers) \<Rightarrow> headers \<Rightarrow> response_parser \<Rightarrow> bool \<times> response_parser" where
  "response_framing ho hs p =
    (let p = (case find_header_ignore_case (ho hs) ''Transfer-Encoding'' of
                Some (_, v # _) \<Rightarrow> p\<lparr>hp_chunked := (find_sub ''chunked'' v \<noteq> None)\<rparr>
              | _ \<Rightarrow> p)
     in if hp_chunked p \<and> hp_state p = Body
        then (False, p\<lparr>hp_state := Error, hp_error := ''Chunked transfer not implemented''\<rparr>) else (True, p))"

lemma response_step_headers:
  assumes "hp_state p = Headers" and "parse_headers ho (rp_headers (hp_response p)) p = (ok, hs, q)"
  shows "response_step ho p =
    (let q = q\<lparr>hp_response := (hp_response p)\<lparr>rp_headers := hs\<rparr>\<rparr> in if ok then response_framing ho hs q else (False, q))"
proof -
  have keep: "hp_response p = hp_response q" using parse_headers_keeps_response [OF assms(2)] by simp
  show ?thesis
    unfolding keep using assms by (simp add: response_step_def response_framing_def Let_def)
qed

lemma response_framing_more:
  "response_framing ho hs (more_data bs p) = (case response_framing ho hs p of (ok, p') \<Rightarrow> (ok, more_data bs p'))"
  by (simp add: response_framing_def more_data_def Let_def split: option.split list.split)

lemma response_framing_finished:
  "response_framing ho hs p = (False, p') \<Longrightarrow> hp_finished p'"
  by (auto simp: response_framing_def hp_finished_def Let_def split: option.splits list.splits if_splits)

text \<open>What a whole status line, taken from the buffer, does to the parser.\<close>

definition status_of :: "nat \<Rightarrow> string \<Rightarrow> int" where
  "status_of sp1 line =
    stoi_safe (case find_char_from (CHR '' '') (sp1 + 1) line of
                 Some sp2 \<Rightarrow> take (sp2 - sp1 - 1) (drop (sp1 + 1) line)
               | None \<Rightarrow> drop (sp1 + 1) line) 0"

definition judge_status :: "string \<Rightarrow> response_parser \<Rightarrow> response_parser" where
  "judge_status line p =
    (case find_char (CHR '' '') line of
       None \<Rightarrow> p\<lparr>hp_state := Error, hp_error := ''Invalid status line''\<rparr>
     | Some sp1 \<Rightarrow>
         if status_of sp1 line < 100 \<or> status_of sp1 line > 599
         then p\<lparr>hp_state := Error, hp_error := ''Invalid status code''\<rparr>
         else p\<lparr>hp_response := (hp_response p)\<lparr>rp_status := status_of sp1 line\<rparr>, hp_state := Headers\<rparr>)"

lemma parse_status_line_eq:
  assumes "find_sub CRLF (hp_buffer p) = Some pos"
  shows "parse_status_line p = (True, judge_status (take pos (hp_buffer p)) (past_line pos p))"
  unfolding parse_status_line_def judge_status_def status_of_def past_line_def assms Let_def
  by (cases "find_char (CHR '' '') (take pos (hp_buffer p))") simp_all

lemma more_data_response: "more_data bs (p\<lparr>hp_response := r\<rparr>) = (more_data bs p)\<lparr>hp_response := r\<rparr>"
  by (simp add: more_data_def)

lemma judge_status_more: "judge_status line (more_data bs p) = more_data bs (judge_status line p)"
  by (simp add: judge_status_def more_data_def split: option.split)

lemma response_step_more:
  assumes "\<not> hp_finished p" and "response_step ho p = (ok, p')"
  shows "if ok \<or> hp_finished p' then response_step ho (more_data bs p) = (ok, more_data bs p')
    else response_step ho (more_data bs p') = response_step ho (more_data bs p)"
proof (cases "hp_state p")
  case FirstLine
  show ?thesis
  proof (cases "find_sub CRLF (hp_buffer p)")
    case None
    then have "p' = p \<and> \<not> ok" using FirstLine assms(2) by (auto simp: response_step_def parse_status_line_def)
    then show ?thesis using assms(1) by simp
  next
    case (Some pos)
    note m = line_more [OF Some, of bs]
    have "response_step ho p = (True, judge_status (take pos (hp_buffer p)) (past_line pos p))"
      using FirstLine by (simp add: response_step_def parse_status_line_eq [OF Some])
    moreover have "response_step ho (more_data bs p) = (True, judge_status (take pos (hp_buffer p)) (past_line pos (more_data bs p)))"
      using FirstLine parse_status_line_eq [OF m(1)] m(2) by (simp add: response_step_def del: more_data_fields(2))
    ultimately have "ok" "response_step ho (more_data bs p) = (ok, more_data bs p')"
      using assms(2) m(3) by (simp_all add: judge_status_more)
    then show ?thesis by simp
  qed
next
  case Headers
  obtain b hs q where q: "parse_headers ho (rp_headers (hp_response p)) p = (b, hs, q)" by (metis prod_cases3)
  define R where "R = hp_response p"
  define Q where "Q = q\<lparr>hp_response := R\<lparr>rp_headers := hs\<rparr>\<rparr>"
  have step: "response_step ho p = (if b then response_framing ho hs Q else (False, Q))"
    using response_step_headers [OF Headers q] by (simp add: Q_def R_def Let_def)
  have mst: "hp_state (more_data bs p) = Headers" "hp_response (more_data bs p) = R" using Headers by (simp_all add: more_data_def R_def)
  show ?thesis
  proof (cases b)
    case True
    have "parse_headers ho (rp_headers (hp_response (more_data bs p))) (more_data bs p) = (True, hs, more_data bs q)"
      using parse_headers_more [OF q, of bs] True mst(2) by (simp add: R_def)
    then have "response_step ho (more_data bs p) = response_framing ho hs (more_data bs Q)"
      using response_step_headers [OF mst(1)] mst(2) by (simp add: Let_def Q_def more_data_response)
    moreover have "response_framing ho hs Q = (ok, p')" using step True assms(2) by (simp only: if_True)
    ultimately have "response_step ho (more_data bs p) = (ok, more_data bs p')" by (simp add: response_framing_more)
    moreover have "ok \<or> hp_finished p'" using step True assms(2) response_framing_finished by (cases ok) auto
    ultimately show ?thesis by simp
  next
    case False
    then have p': "p' = Q" "\<not> ok" using step assms(2) by simp_all
    obtain ok2 hs2 q2 where q2: "parse_headers ho (rp_headers R) (more_data bs p) = (ok2, hs2, q2)" by (metis prod_cases3)
    have more: "parse_headers ho hs (more_data bs q) = (ok2, hs2, q2)"
      using parse_headers_more [OF q, of bs] False q2 by (simp add: R_def)
    have sq: "hp_state q = Headers" using parse_headers_stage [OF q] False Headers by simp
    then have st: "hp_state Q = Headers" by (simp add: Q_def)
    have mQ: "more_data bs Q = (more_data bs q)\<lparr>hp_response := R\<lparr>rp_headers := hs\<rparr>\<rparr>" by (simp add: Q_def more_data_response)
    have "parse_headers ho (rp_headers (hp_response (more_data bs Q))) (more_data bs Q) =
        (ok2, hs2, q2\<lparr>hp_response := R\<lparr>rp_headers := hs\<rparr>\<rparr>)"
      using more by (simp add: mQ parse_headers_response)
    then have "response_step ho (more_data bs Q) = response_step ho (more_data bs p)"
      using response_step_headers [of "more_data bs Q"] response_step_headers [OF mst(1), of ho ok2 hs2 q2] sq q2 mst(2)
      by (simp add: mQ Let_def)
    moreover have "\<not> hp_finished Q" using st by (simp add: hp_finished_def)
    ultimately show ?thesis using p' by simp
  qed
next
  case Body
  obtain b body q where q: "parse_body (rp_body (hp_response p)) p = (b, body, q)" by (metis prod_cases3)
  note m = parse_body_more [OF q, of bs]
  show ?thesis
  proof (cases b)
    case True
    then show ?thesis using Body assms(2) q m by (auto simp: response_step_def more_data_def)
  next
    case False
    then have "p' = p \<and> \<not> ok" using Body assms(2) q m by (simp add: response_step_def)
    then show ?thesis using assms(1) by simp
  qed
qed (use assms(1) in \<open>simp_all add: hp_finished_def\<close>)

interpretation requests: step_parser hp_finished "request_step ho" "request_loop ho" more_data "\<lambda>p. stage_left (hp_state p)"
    "\<lambda>p. length (hp_buffer p)" for ho
proof unfold_locales
  fix p p' :: request_parser and ok and bs :: string
  assume p: "\<not> hp_finished p"
  show "request_step ho p = (True, p') \<Longrightarrow> stage_left (hp_state p') < stage_left (hp_state p)"
    using request_step_stage [OF p] by simp
  show "request_step ho p = (ok, p') \<Longrightarrow> length (hp_buffer p') \<le> length (hp_buffer p)"
    using request_step_stage [OF p] by blast
  show "request_step ho p = (True, p') \<Longrightarrow> request_step ho (more_data bs p) = (True, more_data bs p')"
    using request_step_more [OF p] by blast
  assume "request_step ho p = (False, p')"
  from request_step_wait [OF p this, of bs]
  show "if hp_finished p' then request_step ho (more_data bs p) = (False, more_data bs p')
      else request_step ho (more_data bs p') = request_step ho (more_data bs p)" by simp
qed (simp_all add: request_loop.simps [of ho])

interpretation responses: step_parser hp_finished "response_step ho" "response_loop ho" more_data "\<lambda>p. stage_left (hp_state p)"
    "\<lambda>p. length (hp_buffer p)" for ho
proof unfold_locales
  fix p p' :: response_parser and ok and bs :: string
  assume p: "\<not> hp_finished p"
  show "response_step ho p = (True, p') \<Longrightarrow> stage_left (hp_state p') < stage_left (hp_state p)"
    using response_step_stage [OF p] by simp
  show "response_step ho p = (ok, p') \<Longrightarrow> length (hp_buffer p') \<le> length (hp_buffer p)"
    using response_step_stage [OF p] by blast
  show "response_step ho p = (True, p') \<Longrightarrow> response_step ho (more_data bs p) = (True, more_data bs p')"
    using response_step_more [OF p, of ho True p' bs] by simp
  assume "response_step ho p = (False, p')"
  from response_step_more [OF p this, of bs]
  show "if hp_finished p' then response_step ho (more_data bs p) = (False, more_data bs p')
      else response_step ho (more_data bs p') = response_step ho (more_data bs p)" by (simp split: if_splits)
qed (simp_all add: response_loop.simps [of ho])

end
