(* ===== verification/Http_Messages.thy ===== *)
theory Http_Messages
  imports Http_Parser "HOL-Library.Multiset"
begin

text \<open>
  What the two HTTP parsers promise to the connection that feeds them: the cut of the byte stream into segments
  does not change the message they report, and what \<open>HttpResponse::serialize\<close> writes is read back as it was.
\<close>

section \<open>Feeding in pieces\<close>

definition request_pieces :: "(headers \<Rightarrow> headers) \<Rightarrow> string list \<Rightarrow> request_parser \<Rightarrow> request_parser" where
  "request_pieces ho cs p = foldl (\<lambda>p c. snd (request_feed ho c p)) p cs"

definition response_pieces :: "(headers \<Rightarrow> headers) \<Rightarrow> string list \<Rightarrow> response_parser \<Rightarrow> response_parser" where
  "response_pieces ho cs p = foldl (\<lambda>p c. snd (response_feed ho c p)) p cs"

lemma request_feed_eq:
  "snd (request_feed ho c p) =
    (if hp_finished p then p
     else if length (hp_buffer (more_data c p)) > MAX_BUFFER_SIZE
     then (more_data c p)\<lparr>hp_state := Error, hp_error := ''Request too large''\<rparr>
     else request_loop ho (more_data c p))"
  by (simp add: request_feed_def more_data_def Let_def)

lemma response_feed_eq:
  "snd (response_feed ho c p) =
    (if hp_finished p then p
     else if length (hp_buffer (more_data c p)) > MAX_BUFFER_SIZE
     then (more_data c p)\<lparr>hp_state := Error, hp_error := ''Response too large''\<rparr>
     else response_loop ho (more_data c p))"
  by (simp add: response_feed_def more_data_def Let_def)

lemma request_fresh: "\<not> hp_finished request_parser_new" "hp_buffer request_parser_new = []" "request_loop ho request_parser_new = request_parser_new"
proof -
  have "request_step ho request_parser_new = (False, request_parser_new)"
    by (simp add: request_step_def parse_request_line_def request_parser_new_def)
  then show "request_loop ho request_parser_new = request_parser_new" by (simp add: request_loop.simps [of ho])
qed (simp_all add: hp_finished_def request_parser_new_def)

lemma response_fresh: "\<not> hp_finished response_parser_new" "hp_buffer response_parser_new = []" "response_loop ho response_parser_new = response_parser_new"
proof -
  have "response_step ho response_parser_new = (False, response_parser_new)"
    by (simp add: response_step_def parse_status_line_def response_parser_new_def)
  then show "response_loop ho response_parser_new = response_parser_new" by (simp add: response_loop.simps [of ho])
qed (simp_all add: hp_finished_def response_parser_new_def)

lemma request_pieces_once:
  assumes "length (concat cs) \<le> MAX_BUFFER_SIZE"
  shows "\<exists>rest. snd (request_feed ho (concat cs) request_parser_new) = more_data rest (request_pieces ho cs request_parser_new) \<and>
    (hp_finished (request_pieces ho cs request_parser_new) \<or> rest = [])"
proof -
  have once: "snd (request_feed ho (concat cs) request_parser_new) = request_loop ho (more_data (concat cs) request_parser_new)"
    using assms by (simp add: request_feed_eq request_fresh)
  have "if hp_finished (request_pieces ho cs request_parser_new)
    then \<exists>rest. request_loop ho (more_data (concat cs) request_parser_new) = more_data rest (request_pieces ho cs request_parser_new)
    else request_pieces ho cs request_parser_new = request_loop ho (more_data (concat cs) request_parser_new)"
    unfolding request_pieces_def
    by (rule requests.feed_pieces [where limit = MAX_BUFFER_SIZE and
          too_large = "\<lambda>c p. (more_data c p)\<lparr>hp_state := Error, hp_error := ''Request too large''\<rparr>"])
      (use assms in \<open>simp_all add: request_feed_eq request_fresh\<close>)
  then show ?thesis unfolding once by (cases "hp_finished (request_pieces ho cs request_parser_new)") (auto intro: exI [of _ "[]"])
qed

lemma response_pieces_once:
  assumes "length (concat cs) \<le> MAX_BUFFER_SIZE"
  shows "\<exists>rest. snd (response_feed ho (concat cs) response_parser_new) = more_data rest (response_pieces ho cs response_parser_new) \<and>
    (hp_finished (response_pieces ho cs response_parser_new) \<or> rest = [])"
proof -
  have once: "snd (response_feed ho (concat cs) response_parser_new) = response_loop ho (more_data (concat cs) response_parser_new)"
    using assms by (simp add: response_feed_eq response_fresh)
  have "if hp_finished (response_pieces ho cs response_parser_new)
    then \<exists>rest. response_loop ho (more_data (concat cs) response_parser_new) = more_data rest (response_pieces ho cs response_parser_new)
    else response_pieces ho cs response_parser_new = response_loop ho (more_data (concat cs) response_parser_new)"
    unfolding response_pieces_def
    by (rule responses.feed_pieces [where limit = MAX_BUFFER_SIZE and
          too_large = "\<lambda>c p. (more_data c p)\<lparr>hp_state := Error, hp_error := ''Response too large''\<rparr>"])
      (use assms in \<open>simp_all add: response_feed_eq response_fresh\<close>)
  then show ?thesis unfolding once by (cases "hp_finished (response_pieces ho cs response_parser_new)") (auto intro: exI [of _ "[]"])
qed

text \<open>C32. A request or a response of at most \<open>MAX_BUFFER_SIZE\<close> bytes is parsed the same way however TCP has cut it into
  segments: the state, the message, the error and the framing are those of the parser that is given everything
  at once; the only difference is that a parser which has finished does not take the bytes that follow into its
  buffer, whereas one fed at once keeps them there.
\<close>

theorem http_streaming:
  assumes "length (concat cs) \<le> MAX_BUFFER_SIZE"
  shows "(\<exists>rest. snd (request_feed ho (concat cs) request_parser_new) = more_data rest (request_pieces ho cs request_parser_new) \<and>
      (hp_finished (request_pieces ho cs request_parser_new) \<or> rest = [])) \<and>
    (\<exists>rest. snd (response_feed ho (concat cs) response_parser_new) = more_data rest (response_pieces ho cs response_parser_new) \<and>
      (hp_finished (response_pieces ho cs response_parser_new) \<or> rest = []))"
  using request_pieces_once [OF assms] response_pieces_once [OF assms] by blast

definition split_request :: "string list" where
  "split_request = [''GET /a HTTP'', ''/1.1'' @ [CHR 0x0D], [CHR 0x0A], CRLF, ''GET'']"

theorem http_streaming_witness:
  "\<exists>rest. snd (request_feed (\<lambda>hs. hs) (concat split_request) request_parser_new) =
     more_data rest (request_pieces (\<lambda>hs. hs) split_request request_parser_new)"
proof -
  have "length (concat split_request) \<le> MAX_BUFFER_SIZE" by (simp add: split_request_def MAX_BUFFER_SIZE_def)
  from http_streaming [OF this, of "\<lambda>hs. hs"] show ?thesis by blast
qed

section \<open>A response read back\<close>

text \<open>The lines of a header map, and what reading them one after the other makes of a map.\<close>

definition header_pairs :: "headers \<Rightarrow> (string \<times> string) list" where
  "header_pairs hs = concat (map (\<lambda>(key, vs). map (Pair key) vs) hs)"

definition pair_line :: "string \<times> string \<Rightarrow> string" where
  "pair_line kv = fst kv @ '': '' @ snd kv @ CRLF"

definition push_pairs :: "(string \<times> string) list \<Rightarrow> headers \<Rightarrow> headers" where
  "push_pairs kvs hs = foldl (\<lambda>hs (k, v). push_header k v hs) hs kvs"

lemma header_lines_pairs: "header_lines hs = concat (map pair_line (header_pairs hs))"
  by (induction hs) (auto simp: header_lines_def header_pairs_def pair_line_def intro!: arg_cong [of _ _ concat])

text \<open>A name or value that the text format can carry.\<close>

definition plain_pair :: "string \<times> string \<Rightarrow> bool" where
  "plain_pair kv \<longleftrightarrow> CHR '':'' \<notin> set (fst kv) \<and> CHR 0x0D \<notin> set (fst kv) \<and> CHR 0x0D \<notin> set (snd kv) \<and>
     (case snd kv of [] \<Rightarrow> True | c # _ \<Rightarrow> c \<noteq> CHR '' '')"

lemma drop_spaces: "(case v of [] \<Rightarrow> True | c # _ \<Rightarrow> c \<noteq> CHR '' '') \<Longrightarrow> dropWhile (\<lambda>c. c = CHR '' '') (CHR '' '' # v) = v"
  by (cases v) auto

lemma past_line_append: "past_line (length line) (p\<lparr>hp_buffer := line @ CRLF @ rest\<rparr>) = p\<lparr>hp_buffer := rest\<rparr>"
  by (simp add: past_line_def CRLF_def)

lemma parse_pair:
  assumes "plain_pair kv"
  shows "parse_headers ho hs (p\<lparr>hp_buffer := pair_line kv @ rest\<rparr>) =
    parse_headers ho (push_header (fst kv) (snd kv) hs) (p\<lparr>hp_buffer := rest\<rparr>)"
proof -
  obtain k v where kv: "kv = (k, v)" by (cases kv)
  let ?line = "k @ '': '' @ v"
  let ?p = "p\<lparr>hp_buffer := ?line @ CRLF @ rest\<rparr>"
  have cr: "CHR 0x0D \<notin> set ?line" using assms by (auto simp: plain_pair_def kv)
  have pos: "find_sub CRLF (hp_buffer ?p) = Some (length ?line)" using find_CRLF [OF cr] by simp
  have colon: "find_char (CHR '':'') (take (length ?line) (hp_buffer ?p)) = Some (length k)"
    using assms find_char_notin [of "CHR '':''" k "CHR '' '' # v"] by (simp add: plain_pair_def kv)
  have "parse_headers ho hs ?p = parse_headers ho (header_of (length k) (take (length ?line) (hp_buffer ?p)) hs) (past_line (length ?line) ?p)"
    by (rule parse_headers_eqs(4) [OF pos _ colon]) simp
  moreover have "header_of (length k) (take (length ?line) (hp_buffer ?p)) hs = push_header k v hs"
    using assms drop_spaces [of v] by (simp add: header_of_def plain_pair_def kv)
  moreover have "past_line (length ?line) ?p = p\<lparr>hp_buffer := rest\<rparr>" by (rule past_line_append)
  ultimately show ?thesis by (simp add: kv pair_line_def)
qed

lemma parse_pairs:
  "\<forall>kv\<in>set kvs. plain_pair kv \<Longrightarrow>
    parse_headers ho hs (p\<lparr>hp_buffer := concat (map pair_line kvs) @ CRLF @ body\<rparr>) =
      (True, push_pairs kvs hs, end_headers ho (push_pairs kvs hs) (p\<lparr>hp_buffer := body\<rparr>))"
proof (induction kvs arbitrary: hs)
  case Nil
  have "find_sub CRLF (hp_buffer (p\<lparr>hp_buffer := CRLF @ body\<rparr>)) = Some 0" using find_CRLF [of "[]" body] by simp
  then show ?case using parse_headers_eqs(2) [of "p\<lparr>hp_buffer := CRLF @ body\<rparr>" ho hs]
    by (simp add: push_pairs_def past_line_def)
next
  case (Cons kv kvs)
  then show ?case using parse_pair [where kv = kv and ho = ho and hs = hs and p = p and rest = "concat (map pair_line kvs) @ CRLF @ body"]
    by (simp add: push_pairs_def split_beta)
qed

lemma values_of_push: "values_of key (push_header k v hs) = (if key = k then values_of key hs @ [v] else values_of key hs)"
  by (simp add: values_of_def push_header_def update_conv')

lemma push_header_map: "map_of (push_header k v hs) = (map_of hs)(k \<mapsto> values_of k hs @ [v])"
  by (simp add: push_header_def update_conv')

lemma push_pairs_key:
  "vs \<noteq> [] \<Longrightarrow> map_of (push_pairs (map (Pair k) vs) hs) = (map_of hs)(k \<mapsto> values_of k hs @ vs)"
proof (induction vs arbitrary: hs)
  case (Cons v vs)
  show ?case
  proof (cases "vs = []")
    case False
    then have "map_of (push_pairs (map (Pair k) vs) (push_header k v hs)) =
        (map_of (push_header k v hs))(k \<mapsto> values_of k (push_header k v hs) @ vs)" by (rule Cons.IH)
    then show ?thesis by (simp add: push_pairs_def push_header_map values_of_push)
  qed (simp add: push_pairs_def push_header_map)
qed simp

lemma push_pairs_map:
  "distinct (map fst hs) \<Longrightarrow> \<forall>(k, vs)\<in>set hs. vs \<noteq> [] \<Longrightarrow> \<forall>k\<in>fst ` set hs. map_of acc k = None \<Longrightarrow>
    map_of (push_pairs (header_pairs hs) acc) = map_of acc ++ map_of hs"
proof (induction hs arbitrary: acc)
  case (Cons kvs hs)
  obtain k vs where kv: "kvs = (k, vs)" by (cases kvs)
  define acc' where "acc' = push_pairs (map (Pair k) vs) acc"
  have m: "map_of acc' = (map_of acc)(k \<mapsto> vs)"
    using Cons.prems push_pairs_key [of vs k acc] by (simp add: kv acc'_def values_of_def)
  have "map_of (push_pairs (header_pairs hs) acc') = map_of acc' ++ map_of hs"
    using Cons.prems by (intro Cons.IH) (auto simp: kv m)
  moreover have "push_pairs (header_pairs (kvs # hs)) acc = push_pairs (header_pairs hs) acc'"
    by (simp add: push_pairs_def header_pairs_def acc'_def kv)
  moreover have "(map_of acc)(k \<mapsto> vs) ++ map_of hs = map_of acc ++ map_of (kvs # hs)"
  proof -
    have "map_of hs k = None" using Cons.prems(1) by (simp add: kv map_of_eq_None_iff)
    then show ?thesis by (intro ext) (simp add: kv map_add_def split: option.split)
  qed
  ultimately show ?case by (simp only: m)
qed (simp add: push_pairs_def header_pairs_def)

lemma push_pairs_distinct: "distinct (map fst hs) \<Longrightarrow> distinct (map fst (push_pairs kvs hs))"
proof (induction kvs arbitrary: hs)
  case (Cons kv kvs)
  then have "distinct (map fst (push_header (fst kv) (snd kv) hs))" by (simp add: push_header_def distinct_update)
  then show ?case using Cons.IH by (simp add: push_pairs_def split_beta)
qed (simp add: push_pairs_def)
text \<open>The entry that \<open>find_header_ignore_case\<close> finds when only one can match does not depend on the order.\<close>

lemma find_header_only:
  assumes "(k, vs) \<in> set hs" and "iequals k key" and "\<forall>(k', vs')\<in>set hs. iequals k' key \<longrightarrow> (k', vs') = (k, vs)"
  shows "find_header_ignore_case hs key = Some (k, vs)"
  using assms unfolding find_header_ignore_case_def by (induction hs) auto

lemma find_header_none: "\<forall>k\<in>fst ` set hs. \<not> iequals k key \<Longrightarrow> find_header_ignore_case hs key = None"
  unfolding find_header_ignore_case_def by (induction hs) auto

text \<open>Reading back the headers written, whatever the two iteration orders are.\<close>

lemma parsed_headers:
  assumes ho: "\<forall>hs. mset (ho hs) = mset hs" and hs: "distinct (map fst hs)" "\<forall>(k, vs)\<in>set hs. vs \<noteq> []"
  shows "map_of (push_pairs (header_pairs (ho hs)) []) = map_of hs \<and>
    set (ho (push_pairs (header_pairs (ho hs)) [])) = set hs"
proof -
  have s: "set (ho hs) = set hs" for hs using ho mset_eq_setD by blast
  have d: "distinct (map fst (ho hs)) = distinct (map fst hs)" for hs
    using ho by (intro mset_eq_imp_distinct_iff) simp
  let ?X = "push_pairs (header_pairs (ho hs)) []"
  have dX: "distinct (map fst ?X)" by (rule push_pairs_distinct) simp
  have "map_of ?X = map_of (ho hs)" using push_pairs_map [of "ho hs" "[]"] hs by (simp add: s d)
  also have "map_of (ho hs) = map_of hs" using hs(1) by (subst map_of_inject_set) (simp_all add: s d)
  finally have m: "map_of ?X = map_of hs" .
  then have "set ?X = set hs" using dX hs(1) by (simp add: map_of_inject_set)
  then show ?thesis using m by (simp add: s)
qed
text \<open>
  Headers that survive the trip: at least one value each, nothing in a name or a value that the text format cannot
  carry, at most one way of writing \<open>Content-Length\<close>, and no \<open>Transfer-Encoding\<close>.
\<close>

definition sendable :: "headers \<Rightarrow> bool" where
  "sendable hs \<longleftrightarrow> distinct (map fst hs) \<and>
     (\<forall>(k, vs)\<in>set hs. vs \<noteq> [] \<and> (iequals k ''Content-Length'' \<longrightarrow> k = ''Content-Length'') \<and>
       \<not> iequals k ''Transfer-Encoding'' \<and> (\<forall>v\<in>set vs. plain_pair (k, v)))"

lemma to_dec_no: "CHR 0x0D \<notin> set (to_dec n)" "CHR '' '' \<notin> set (to_dec n)"
proof -
  have digits: "\<forall>c\<in>set (to_dec n). is_digit c" using to_dec_props [of n] by blast
  moreover have "\<not> is_digit (CHR 0x0D)" "\<not> is_digit (CHR '' '')" by (simp_all add: is_digit_def)
  ultimately show "CHR 0x0D \<notin> set (to_dec n)" "CHR '' '' \<notin> set (to_dec n)" by blast+
qed

lemma digits_plain: "plain_pair (''Content-Length'', to_dec n)"
  using to_dec_no [of n] by (cases "to_dec n") (auto simp: plain_pair_def)

lemma sendable_length: "sendable hs \<Longrightarrow> sendable (AList.update ''Content-Length'' [to_dec n] hs)"
proof -
  assume hs: "sendable hs"
  have new: "\<not> iequals ''Content-Length'' ''Transfer-Encoding''" by (simp add: iequals_def)
  have sub: "set (AList.update k v hs) \<subseteq> insert (k, v) (set hs)" for k v by (induction hs) auto
  have "distinct (map fst (AList.update ''Content-Length'' [to_dec n] hs))" using hs by (simp add: sendable_def distinct_update)
  then show ?thesis
    using hs sub [of "''Content-Length''" "[to_dec n]"] new digits_plain unfolding sendable_def by fastforce
qed

lemma header_pairs_plain:
  assumes "sendable hs" and "set hs' = set hs"
  shows "\<forall>kv\<in>set (header_pairs hs'). plain_pair kv"
  using assms by (auto simp: header_pairs_def sendable_def)

lemma status_line_read:
  assumes "100 \<le> st" "st \<le> 599"
  shows "judge_status (''HTTP/1.1 '' @ to_dec (nat st) @ '' '' @ http_status_text st) p =
      p\<lparr>hp_response := (hp_response p)\<lparr>rp_status := st\<rparr>, hp_state := Headers\<rparr>"
    and "CHR 0x0D \<notin> set (''HTTP/1.1 '' @ to_dec (nat st) @ '' '' @ http_status_text st)"
proof -
  let ?line = "''HTTP/1.1 '' @ to_dec (nat st) @ '' '' @ http_status_text st"
  note nosp = to_dec_no(2) [of "nat st"] to_dec_no(1) [of "nat st"]
  have "find_char (CHR '' '') ?line = Some 8" by simp
  moreover have "find_char_from (CHR '' '') 9 ?line = Some (9 + length (to_dec (nat st)))"
    using find_char_notin [OF nosp(1), of "http_status_text st"] by (simp add: find_char_from_def)
  moreover have "stoi_safe (to_dec (nat st)) 0 = st" using stoi_safe_to_dec [of "nat st" 0] assms by simp
  ultimately have "status_of 8 ?line = st" "find_char (CHR '' '') ?line = Some 8" by (simp_all add: status_of_def)
  then show "judge_status ?line p = p\<lparr>hp_response := (hp_response p)\<lparr>rp_status := st\<rparr>, hp_state := Headers\<rparr>"
    unfolding judge_status_def using assms by (simp del: append.simps)
  show "CHR 0x0D \<notin> set ?line" using nosp(2) by (simp add: http_status_text_def)
qed
lemma response_loop_step: "\<not> hp_finished p \<Longrightarrow> response_step ho p = (True, p') \<Longrightarrow> response_loop ho p = response_loop ho p'"
  by (simp add: response_loop.simps [of ho p])

lemma response_loop_finished: "hp_finished p \<Longrightarrow> response_loop ho p = p"
  by (simp add: response_loop.simps [of ho p])

text \<open>The three stages of the parser on what \<open>serialize\<close> has written.\<close>

lemma status_stage:
  assumes "100 \<le> st" "st \<le> 599" and "hp_state p = FirstLine"
  shows "response_step ho (p\<lparr>hp_buffer := (''HTTP/1.1 '' @ to_dec (nat st) @ '' '' @ http_status_text st) @ CRLF @ rest\<rparr>) =
    (True, p\<lparr>hp_buffer := rest, hp_response := (hp_response p)\<lparr>rp_status := st\<rparr>, hp_state := Headers\<rparr>)"
proof -
  define line where "line = ''HTTP/1.1 '' @ to_dec (nat st) @ '' '' @ http_status_text st"
  let ?p = "p\<lparr>hp_buffer := line @ CRLF @ rest\<rparr>"
  have "find_sub CRLF (hp_buffer ?p) = Some (length line)"
    using find_CRLF [OF status_line_read(2) [OF assms(1,2)]] by (simp add: line_def)
  from parse_status_line_eq [OF this]
  have "parse_status_line ?p = (True, judge_status line (p\<lparr>hp_buffer := rest\<rparr>))" by (simp add: past_line_append)
  also have "judge_status line (p\<lparr>hp_buffer := rest\<rparr>) =
      p\<lparr>hp_buffer := rest, hp_response := (hp_response p)\<lparr>rp_status := st\<rparr>, hp_state := Headers\<rparr>"
    unfolding line_def status_line_read(1) [OF assms(1,2)] by simp
  finally show ?thesis unfolding line_def [symmetric] using assms(3) by (simp add: response_step_def)
qed

lemma headers_stage:
  assumes p: "hp_state p = Headers" "hp_chunked p = False" "rp_headers (hp_response p) = []"
    and plain: "\<forall>kv\<in>set kvs. plain_pair kv"
    and cl: "find_header_ignore_case (ho (push_pairs kvs [])) ''Content-Length'' = Some (k, [to_dec n])" and n: "n < 2 ^ 64"
    and te: "find_header_ignore_case (ho (push_pairs kvs [])) ''Transfer-Encoding'' = None"
  shows "response_step ho (p\<lparr>hp_buffer := concat (map pair_line kvs) @ CRLF @ body\<rparr>) =
    (True, p\<lparr>hp_buffer := body, hp_content_length := of_nat n, hp_state := (if n = 0 then Complete else Body),
       hp_response := (hp_response p)\<lparr>rp_headers := push_pairs kvs []\<rparr>\<rparr>)"
proof -
  let ?p = "p\<lparr>hp_buffer := concat (map pair_line kvs) @ CRLF @ body\<rparr>"
  have pos: "(0 :: u64) < of_nat n \<longleftrightarrow> n \<noteq> 0"
    using n by (simp add: word_less_nat_alt unat_of_nat take_bit_nat_eq_self)
  have "end_headers ho (push_pairs kvs []) (p\<lparr>hp_buffer := body\<rparr>) =
      p\<lparr>hp_buffer := body, hp_content_length := of_nat n, hp_state := (if n = 0 then Complete else Body)\<rparr>"
    by (simp add: end_headers_def cl stoul_safe_to_dec [OF n] pos)
  then have "parse_headers ho (rp_headers (hp_response ?p)) ?p = (True, push_pairs kvs [],
      p\<lparr>hp_buffer := body, hp_content_length := of_nat n, hp_state := (if n = 0 then Complete else Body)\<rparr>)"
    using parse_pairs [OF plain, where ho = ho and hs = "[]" and p = p and body = body] p by simp
  from response_step_headers [OF _ this] show ?thesis using p by (simp add: response_framing_def te)
qed

lemma body_stage:
  assumes "hp_state p = Body" "hp_buffer p = body" "hp_content_length p = of_nat (length body)" "length body < 2 ^ 64"
  shows "response_step ho p = (True, p\<lparr>hp_buffer := [], hp_state := Complete, hp_response := (hp_response p)\<lparr>rp_body := body\<rparr>\<rparr>)"
proof -
  have "unat (hp_content_length p) = length body" using assms by (simp add: unat_of_nat take_bit_nat_eq_self)
  then show ?thesis using assms by (simp add: response_step_def parse_body_def)
qed

text \<open>All three in a row, from a new parser.\<close>

lemma response_stages:
  assumes st: "100 \<le> st" "st \<le> 599" and plain: "\<forall>kv\<in>set kvs. plain_pair kv"
    and cl: "find_header_ignore_case (ho (push_pairs kvs [])) ''Content-Length'' = Some (k, [to_dec (length body)])"
    and small: "length body < 2 ^ 64"
    and te: "find_header_ignore_case (ho (push_pairs kvs [])) ''Transfer-Encoding'' = None"
    and data: "data = (''HTTP/1.1 '' @ to_dec (nat st) @ '' '' @ http_status_text st) @ CRLF @ (concat (map pair_line kvs) @ CRLF @ body)"
  shows "response_loop ho (response_parser_new\<lparr>hp_buffer := data\<rparr>) =
    response_parser_new\<lparr>hp_content_length := of_nat (length body), hp_state := Complete,
      hp_response := \<lparr>rp_status = st, rp_headers = push_pairs kvs [], rp_body = body\<rparr>\<rparr>"
proof -
  define p1 where "p1 = response_parser_new\<lparr>hp_response := http_response_new\<lparr>rp_status := st\<rparr>, hp_state := Headers\<rparr>"
  define p2 where "p2 = p1\<lparr>hp_buffer := body, hp_content_length := of_nat (length body),
      hp_state := (if length body = 0 then Complete else Body), hp_response := (hp_response p1)\<lparr>rp_headers := push_pairs kvs []\<rparr>\<rparr>"
  define p3 where "p3 = p2\<lparr>hp_buffer := [], hp_state := Complete, hp_response := (hp_response p2)\<lparr>rp_body := body\<rparr>\<rparr>"
  have "response_step ho (response_parser_new\<lparr>hp_buffer := data\<rparr>) =
      (True, p1\<lparr>hp_buffer := concat (map pair_line kvs) @ CRLF @ body\<rparr>)"
    unfolding data using status_stage [OF st, of response_parser_new] by (simp add: p1_def response_parser_new_def del: append.simps)
  then have "response_loop ho (response_parser_new\<lparr>hp_buffer := data\<rparr>) =
      response_loop ho (p1\<lparr>hp_buffer := concat (map pair_line kvs) @ CRLF @ body\<rparr>)"
    by (intro response_loop_step) (simp add: hp_finished_def response_parser_new_def)
  also have "\<dots> = response_loop ho p2"
  proof (rule response_loop_step)
    show "response_step ho (p1\<lparr>hp_buffer := concat (map pair_line kvs) @ CRLF @ body\<rparr>) = (True, p2)"
      unfolding p2_def by (rule headers_stage [where kvs = kvs and ho = ho, OF _ _ _ plain cl small te])
        (simp_all add: p1_def response_parser_new_def http_response_new_def)
  qed (simp add: hp_finished_def p1_def)
  also have "\<dots> = p3"
  proof (cases "body = []")
    case True
    then show ?thesis by (subst response_loop_finished) (simp_all add: p3_def p2_def p1_def hp_finished_def http_response_new_def)
  next
    case False
    then have "response_step ho p2 = (True, p3)" unfolding p3_def using small by (intro body_stage) (simp_all add: p2_def)
    then have "response_loop ho p2 = response_loop ho p3" using False by (intro response_loop_step) (simp_all add: p2_def hp_finished_def)
    then show ?thesis by (simp add: response_loop_finished p3_def hp_finished_def)
  qed
  finally show ?thesis by (simp add: p3_def p2_def p1_def response_parser_new_def http_response_new_def)
qed

lemma response_read_back:
  assumes ho: "\<forall>hs. mset (ho hs) = mset hs" and hs: "sendable (rp_headers r)"
    and st: "100 \<le> rp_status r" "rp_status r \<le> 599"
    and fits: "length (rp_serialize ho (set_body content r)) \<le> MAX_BUFFER_SIZE"
  shows "let p = snd (response_feed ho (rp_serialize ho (set_body content r)) response_parser_new) in
    hp_state p = Complete \<and> rp_status (hp_response p) = rp_status r \<and> rp_body (hp_response p) = content \<and>
    map_of (rp_headers (hp_response p)) = (map_of (rp_headers r))(''Content-Length'' \<mapsto> [to_dec (length content)]) \<and>
    hp_buffer p = []"
proof -
  let ?hs = "AList.update ''Content-Length'' [to_dec (length content)] (rp_headers r)"
  define R where "R = set_body content r"
  define kvs where "kvs = header_pairs (ho ?hs)"
  define data where "data = rp_serialize ho R"
  have R: "rp_headers R = ?hs" "rp_status R = rp_status r" "rp_body R = content"
    by (simp_all add: R_def set_body_def rp_set_header_def)
  have shs: "sendable ?hs" by (rule sendable_length [OF hs])
  have dvs: "distinct (map fst ?hs)" "\<forall>(k, vs)\<in>set ?hs. vs \<noteq> []" using shs by (auto simp: sendable_def)
  note ph = parsed_headers [OF ho dvs, folded kvs_def]
  have "set (ho ?hs) = set ?hs" using ho by (intro mset_eq_setD) simp
  then have plain: "\<forall>kv\<in>set kvs. plain_pair kv" unfolding kvs_def by (rule header_pairs_plain [OF shs])
  have "(''Content-Length'', [to_dec (length content)]) \<in> set ?hs" by (rule map_of_SomeD) (simp add: update_conv')
  then have cl: "find_header_ignore_case (ho (push_pairs kvs [])) ''Content-Length'' = Some (''Content-Length'', [to_dec (length content)])"
    using shs ph dvs(1) by (intro find_header_only) (auto simp: sendable_def iequals_iff dest: eq_key_imp_eq_value)
  have te: "find_header_ignore_case (ho (push_pairs kvs [])) ''Transfer-Encoding'' = None"
    using shs ph by (intro find_header_none) (auto simp: sendable_def)
  have data: "data = (''HTTP/1.1 '' @ to_dec (nat (rp_status r)) @ '' '' @ http_status_text (rp_status r)) @ CRLF @
      (concat (map pair_line kvs) @ CRLF @ content)"
    by (simp add: data_def rp_serialize_def R header_lines_pairs kvs_def)
  have small: "length content < 2 ^ 64"
    using fits unfolding R_def [symmetric] data_def [symmetric] data by (simp add: MAX_BUFFER_SIZE_def)
  have "snd (response_feed ho data response_parser_new) = response_loop ho (response_parser_new\<lparr>hp_buffer := data\<rparr>)"
    using fits unfolding R_def [symmetric] data_def [symmetric]
    by (simp add: response_feed_eq response_fresh more_data_def)
  then show ?thesis
    using ph unfolding R_def [symmetric] data_def [symmetric] response_stages [where kvs = kvs and ho = ho, OF st plain cl small te data]
    by (simp add: update_conv' response_parser_new_def)
qed

text \<open>A response with \<open>sendable\<close> headers and a status the parser accepts, given its body with \<open>set_body\<close>, serialised
  and parsed, is complete and has the same status, headers and body, whatever the two iteration orders of the header
  map are, as long as it fits the parser's buffer.
\<close>

theorem http_response_roundtrip:
  assumes ho: "\<forall>hs. mset (ho hs) = mset hs" and hs: "sendable (rp_headers r)"
    and st: "100 \<le> rp_status r" "rp_status r \<le> 599"
    and fits: "length (rp_serialize ho (set_body content r)) \<le> MAX_BUFFER_SIZE"
  shows "let p = snd (response_feed ho (rp_serialize ho (set_body content r)) response_parser_new) in
    hp_state p = Complete \<and> rp_status (hp_response p) = rp_status r \<and> rp_body (hp_response p) = content \<and>
    map_of (rp_headers (hp_response p)) = (map_of (rp_headers r))(''Content-Length'' \<mapsto> [to_dec (length content)]) \<and>
    hp_buffer p = []"
  by (rule response_read_back [OF assms])

definition small_page :: http_response where
  "small_page = \<lparr>rp_status = 404, rp_headers = [(''Set-Cookie'', [''a'', ''b''])], rp_body = []\<rparr>"

theorem http_response_roundtrip_witness:
  "rp_body (hp_response (snd (response_feed rev (rp_serialize rev (set_body ''no'' small_page)) response_parser_new))) = ''no'' \<and>
   rp_status (hp_response (snd (response_feed rev (rp_serialize rev (set_body ''no'' small_page)) response_parser_new))) = 404"
proof -
  have ho: "\<forall>hs. mset (rev hs) = mset (hs :: headers)" by simp
  have hs: "sendable (rp_headers small_page)" by (simp add: small_page_def sendable_def plain_pair_def iequals_def)
  have st: "100 \<le> rp_status small_page" "rp_status small_page \<le> 599" by (simp_all add: small_page_def)
  have "length (to_dec 404) = 3" "length (to_dec (Suc (Suc 0))) = 1" by (simp_all add: to_dec.simps)
  then have fits: "length (rp_serialize rev (set_body ''no'' small_page)) \<le> MAX_BUFFER_SIZE"
    by (simp add: small_page_def rp_serialize_def set_body_def rp_set_header_def header_lines_def http_status_text_def MAX_BUFFER_SIZE_def)
  show ?thesis using http_response_roundtrip [OF ho hs st fits] by (simp add: Let_def small_page_def)
qed

end
