(* ===== verification/Http_Client.thy ===== *)
theory Http_Client
  imports Http_Parser
begin

text \<open>
  The HTTP client (\<^verbatim>\<open>src/app/http_client.cpp\<close>, \<^verbatim>\<open>include/neustack/app/http_client.hpp\<close>): a request and the three
  callbacks it gives the transport.  What the callbacks send, close and report is appended to logs; the addresses of
  the connections are \<open>'n\<close>.
\<close>

section \<open>Requests\<close>

record http_client =
  cl_default_host :: string
  cl_user_agent :: string

definition http_client_new :: http_client where
  "http_client_new = \<lparr>cl_default_host = [], cl_user_agent = ''NeuStack/1.4''\<rparr>"

definition set_default_host :: "string \<Rightarrow> http_client \<Rightarrow> http_client" where
  "set_default_host host cl = cl\<lparr>cl_default_host := host\<rparr>"

definition set_user_agent :: "string \<Rightarrow> http_client \<Rightarrow> http_client" where
  "set_user_agent ua cl = cl\<lparr>cl_user_agent := ua\<rparr>"

text \<open>\<open>RequestContext\<close>, with the logs of its callbacks; \<open>cx_callback\<close> says that the response callback is set.\<close>

record 'n request_context =
  cx_parser :: response_parser
  cx_callback :: bool
  cx_conn :: "'n option"
  cx_results :: "(http_response \<times> int) list"
  cx_sent :: "string list"
  cx_closed :: "'n list"

definition context_new :: "bool \<Rightarrow> 'n request_context" where
  "context_new cb = \<lparr>cx_parser = response_parser_new, cx_callback = cb, cx_conn = None, cx_results = [], cx_sent = [], cx_closed = []\<rparr>"

definition add_missing :: "string \<Rightarrow> string \<Rightarrow> http_request \<Rightarrow> http_request" where
  "add_missing key v r = (if \<not> has_header key r then rq_add_header key v r else r)"

definition full_request :: "http_client \<Rightarrow> u32 \<Rightarrow> http_request \<Rightarrow> http_request" where
  "full_request cl server_ip r =
    (let r = add_missing ''Host'' (if cl_default_host cl \<noteq> [] then cl_default_host cl else ip_to_string server_ip) r;
         r = add_missing ''User-Agent'' (cl_user_agent cl) r
     in add_missing ''Connection'' ''close'' r)"

text \<open>\<open>request\<close>: the bytes to send once connected, and the context of the callbacks.\<close>

definition client_request :: "(headers \<Rightarrow> headers) \<Rightarrow> http_client \<Rightarrow> u32 \<Rightarrow> http_request \<Rightarrow> bool \<Rightarrow> string \<times> 'n request_context" where
  "client_request ho cl server_ip r cb = (rq_serialize ho (full_request cl server_ip r), context_new cb)"

definition client_get :: "(headers \<Rightarrow> headers) \<Rightarrow> http_client \<Rightarrow> u32 \<Rightarrow> string \<Rightarrow> bool \<Rightarrow> string \<times> 'n request_context" where
  "client_get ho cl server_ip path cb =
     client_request ho cl server_ip (http_request_new\<lparr>rq_method := GET, rq_path := path\<rparr>) cb"

definition client_post ::
  "(headers \<Rightarrow> headers) \<Rightarrow> http_client \<Rightarrow> u32 \<Rightarrow> string \<Rightarrow> string \<Rightarrow> string \<Rightarrow> bool \<Rightarrow> string \<times> 'n request_context" where
  "client_post ho cl server_ip path body ctype cb =
    (let r = http_request_new\<lparr>rq_method := POST, rq_path := path, rq_body := body\<rparr>;
         r = rq_add_header ''Content-Type'' ctype r;
         r = rq_add_header ''Content-Length'' (to_dec (length body)) r
     in client_request ho cl server_ip r cb)"

section \<open>Callbacks\<close>

definition report :: "http_response \<Rightarrow> int \<Rightarrow> 'n request_context \<Rightarrow> 'n request_context" where
  "report rp err c = (if cx_callback c then c\<lparr>cx_results := cx_results c @ [(rp, err)]\<rparr> else c)"

definition report_once :: "http_response \<Rightarrow> int \<Rightarrow> 'n request_context \<Rightarrow> 'n request_context" where
  "report_once rp err c = (report rp err c)\<lparr>cx_callback := False\<rparr>"

definition client_on_connect :: "string \<Rightarrow> 'n option \<Rightarrow> int \<Rightarrow> 'n request_context \<Rightarrow> 'n request_context" where
  "client_on_connect data conn err c =
    (if err \<noteq> 0 \<or> conn = None then report http_response_new (- 1) c
     else c\<lparr>cx_conn := conn, cx_sent := cx_sent c @ [data]\<rparr>)"

definition client_on_receive :: "(headers \<Rightarrow> headers) \<Rightarrow> 'n \<Rightarrow> string \<Rightarrow> 'n request_context \<Rightarrow> 'n request_context" where
  "client_on_receive ho conn data c =
    (let c = c\<lparr>cx_parser := snd (response_feed ho data (cx_parser c))\<rparr>
     in if hp_state (cx_parser c) = Complete
        then (report_once (hp_response (cx_parser c)) 0 c)\<lparr>cx_closed := cx_closed c @ [conn]\<rparr>
        else if hp_state (cx_parser c) = Error
        then (report_once http_response_new (- 2) c)\<lparr>cx_closed := cx_closed c @ [conn]\<rparr>
        else c)"

definition client_on_close :: "'n request_context \<Rightarrow> 'n request_context" where
  "client_on_close c =
    (if cx_callback c
     then (if hp_state (cx_parser c) \<noteq> FirstLine then report_once (hp_response (cx_parser c)) 0 c
           else report_once http_response_new (- 1) c)
     else c)"

section \<open>Runs\<close>

datatype client_event = Arrived string | Ended

definition client_step :: "(headers \<Rightarrow> headers) \<Rightarrow> 'n \<Rightarrow> client_event \<Rightarrow> 'n request_context \<Rightarrow> 'n request_context" where
  "client_step ho conn ev c = (case ev of Arrived data \<Rightarrow> client_on_receive ho conn data c | Ended \<Rightarrow> client_on_close c)"

definition client_run :: "(headers \<Rightarrow> headers) \<Rightarrow> 'n \<Rightarrow> client_event list \<Rightarrow> 'n request_context \<Rightarrow> 'n request_context" where
  "client_run ho conn evs c = fold (client_step ho conn) evs c"

lemmas client_defs = client_step_def client_on_receive_def client_on_close_def report_once_def report_def Let_def

text \<open>Called or still set, never both.\<close>

definition one_call :: "'n request_context \<Rightarrow> bool" where
  "one_call c \<longleftrightarrow> length (cx_results c) = (if cx_callback c then 0 else 1)"

lemma client_step_one: "one_call c \<Longrightarrow> one_call (client_step ho conn ev c)"
  by (auto simp: one_call_def client_defs split: client_event.split)

lemma client_step_ended: "\<not> cx_callback (client_step ho conn Ended c)" "\<not> cx_callback c \<Longrightarrow> \<not> cx_callback (client_step ho conn ev c)"
  by (auto simp: client_defs split: client_event.split)

lemma client_step_sent [simp]: "cx_sent (client_step ho conn ev c) = cx_sent c" "cx_conn (client_step ho conn ev c) = cx_conn c"
  by (auto simp: client_defs split: client_event.split)

lemma client_run_post:
  "one_call c \<Longrightarrow> one_call (client_run ho conn evs c) \<and> (Ended \<in> set evs \<or> \<not> cx_callback c \<longrightarrow> \<not> cx_callback (client_run ho conn evs c)) \<and>
    cx_sent (client_run ho conn evs c) = cx_sent c"
proof (induction evs arbitrary: c)
  case (Cons ev evs)
  then show ?case using client_step_one [OF Cons.prems, where ho = ho and conn = conn and ev = ev]
      client_step_ended [where ho = ho and conn = conn and c = c]
    by (cases ev) (auto simp: client_run_def)
qed (simp add: client_run_def)



end
