(* ===== verification/Http_Exchange.thy ===== *)
theory Http_Exchange
  imports Http_Client Http_Messages
begin

text \<open>
  One exchange over HTTP: the request that the client writes is read by the server's parser, and the response that
  the server writes reaches the callback of the client, however the two byte streams are cut on their way.
\<close>

section \<open>A request read back\<close>

lemma request_loop_step: "\<not> hp_finished p \<Longrightarrow> request_step ho p = (True, p') \<Longrightarrow> request_loop ho p = request_loop ho p'"
  by (simp add: request_loop.simps [of ho p])

lemma request_loop_finished: "hp_finished p \<Longrightarrow> request_loop ho p = p"
  by (simp add: request_loop.simps [of ho p])

lemma method_name: "CHR '' '' \<notin> set (http_method_name m)" "CHR 0x0D \<notin> set (http_method_name m)" "parse_http_method (http_method_name m) = m"
  by (cases m; simp add: parse_http_method_def)+

text \<open>A path and a version that a request line can carry.\<close>

definition plain_path :: "string \<Rightarrow> bool" where
  "plain_path s \<longleftrightarrow> CHR '' '' \<notin> set s \<and> CHR 0x0D \<notin> set s \<and> CHR ''?'' \<notin> set s"

definition request_line :: "http_method \<Rightarrow> string \<Rightarrow> string \<Rightarrow> string" where
  "request_line m path version = http_method_name m @ '' '' @ path @ '' '' @ version"

lemma request_line_stage:
  assumes "plain_path path" and "CHR 0x0D \<notin> set version" and "hp_state p = FirstLine"
  shows "request_step ho (p\<lparr>hp_buffer := request_line m path version @ CRLF @ rest\<rparr>) =
    (True, p\<lparr>hp_buffer := rest, hp_request := (hp_request p)\<lparr>rq_method := m, rq_path := path, rq_version := version\<rparr>, hp_state := Headers\<rparr>)"
proof -
  let ?name = "http_method_name m" and ?line = "request_line m path version"
  have "CHR 0x0D \<notin> set ?line" using assms(1,2) method_name(2) [of m] by (simp add: request_line_def plain_path_def)
  then have pos: "find_sub CRLF (?line @ CRLF @ rest) = Some (length ?line)" by (rule find_CRLF)
  have sp1: "find_char (CHR '' '') ?line = Some (length ?name)"
    using find_char_notin [OF method_name(1) [of m], of "path @ '' '' @ version"] by (simp add: request_line_def)
  have "find_char (CHR '' '') (path @ CHR '' '' # version) = Some (length path)"
    using assms(1) by (intro find_char_notin) (simp add: plain_path_def)
  then have sp2: "find_char_from (CHR '' '') (length ?name + 1) ?line = Some (length ?name + 1 + length path)"
    by (simp add: find_char_from_def request_line_def)
  have "find_char (CHR ''?'') path = None" using assms(1) by (simp add: find_char_None plain_path_def)
  then have path: "split_path_query path r = r\<lparr>rq_path := path\<rparr>" for r by (simp add: split_path_query_def)
  have cut: "take (length ?name) ?line = ?name" "take (length path) (drop (length ?name + 1) ?line) = path"
      "drop (length ?name + 1 + length path + 1) ?line = version"
    by (simp_all add: request_line_def)
  have drop: "drop (length ?line + 2) (?line @ CRLF @ rest) = rest" by (simp add: CRLF_def)
  have "parse_request_line (p\<lparr>hp_buffer := ?line @ CRLF @ rest\<rparr>) =
      (True, p\<lparr>hp_buffer := rest, hp_request := (hp_request p)\<lparr>rq_method := m, rq_path := path, rq_version := version\<rparr>, hp_state := Headers\<rparr>)"
    unfolding parse_request_line_def Let_def
    by (simp add: pos sp1 sp2 cut path method_name drop del: One_nat_def)
  then show ?thesis using assms(3) by (simp add: request_step_def)
qed

text \<open>The length of the body is announced, or there is none.\<close>

definition announces :: "string \<Rightarrow> (string \<times> string list) option \<Rightarrow> bool" where
  "announces body found \<longleftrightarrow> (\<exists>k. found = Some (k, [to_dec (length body)])) \<or> found = None \<and> body = []"

lemma request_headers_stage:
  assumes p: "hp_state p = Headers" "hp_content_length p = 0" "rq_headers (hp_request p) = []"
    and plain: "\<forall>kv\<in>set kvs. plain_pair kv"
    and cl: "announces body (find_header_ignore_case (ho (push_pairs kvs [])) ''Content-Length'')" and n: "length body < 2 ^ 64"
  shows "request_step ho (p\<lparr>hp_buffer := concat (map pair_line kvs) @ CRLF @ body\<rparr>) =
    (True, p\<lparr>hp_buffer := body, hp_content_length := of_nat (length body), hp_state := (if body = [] then Complete else Body),
       hp_request := (hp_request p)\<lparr>rq_headers := push_pairs kvs []\<rparr>\<rparr>)"
proof -
  let ?p = "p\<lparr>hp_buffer := concat (map pair_line kvs) @ CRLF @ body\<rparr>"
  have pos: "(0 :: u64) < of_nat (length body) \<longleftrightarrow> body \<noteq> []"
    using n by (simp add: word_less_nat_alt unat_of_nat take_bit_nat_eq_self)
  have "end_headers ho (push_pairs kvs []) (p\<lparr>hp_buffer := body\<rparr>) =
      p\<lparr>hp_buffer := body, hp_content_length := of_nat (length body), hp_state := (if body = [] then Complete else Body)\<rparr>"
  proof (cases "find_header_ignore_case (ho (push_pairs kvs [])) ''Content-Length''")
    case None
    then have "body = []" using cl by (simp add: announces_def)
    then show ?thesis using None p(2) by (simp add: end_headers_def)
  next
    case (Some f)
    then obtain k where "f = (k, [to_dec (length body)])" using cl by (auto simp: announces_def)
    then show ?thesis using Some by (simp add: end_headers_def stoul_safe_to_dec [OF n] pos)
  qed
  then have "parse_headers ho (rq_headers (hp_request ?p)) ?p = (True, push_pairs kvs [],
      p\<lparr>hp_buffer := body, hp_content_length := of_nat (length body), hp_state := (if body = [] then Complete else Body)\<rparr>)"
    using parse_pairs [OF plain, where ho = ho and hs = "[]" and p = p and body = body] p by simp
  then show ?thesis using p(1) by (simp add: request_step_def)
qed

lemma request_body_stage:
  assumes "hp_state p = Body" "hp_buffer p = body" "hp_content_length p = of_nat (length body)" "length body < 2 ^ 64"
  shows "request_step ho p = (True, p\<lparr>hp_buffer := [], hp_state := Complete, hp_request := (hp_request p)\<lparr>rq_body := body\<rparr>\<rparr>)"
proof -
  have "unat (hp_content_length p) = length body" using assms by (simp add: unat_of_nat take_bit_nat_eq_self)
  then show ?thesis using assms by (simp add: request_step_def parse_body_def)
qed

lemma request_stages:
  assumes path: "plain_path path" and version: "CHR 0x0D \<notin> set version" and plain: "\<forall>kv\<in>set kvs. plain_pair kv"
    and cl: "announces body (find_header_ignore_case (ho (push_pairs kvs [])) ''Content-Length'')" and small: "length body < 2 ^ 64"
    and data: "data = request_line m path version @ CRLF @ (concat (map pair_line kvs) @ CRLF @ body)"
  shows "request_loop ho (request_parser_new\<lparr>hp_buffer := data\<rparr>) =
    request_parser_new\<lparr>hp_content_length := of_nat (length body), hp_state := Complete,
      hp_request := http_request_new\<lparr>rq_method := m, rq_path := path, rq_version := version, rq_headers := push_pairs kvs [], rq_body := body\<rparr>\<rparr>"
proof -
  define p1 where "p1 = request_parser_new\<lparr>hp_request := http_request_new\<lparr>rq_method := m, rq_path := path, rq_version := version\<rparr>, hp_state := Headers\<rparr>"
  define p2 where "p2 = p1\<lparr>hp_buffer := body, hp_content_length := of_nat (length body),
      hp_state := (if body = [] then Complete else Body), hp_request := (hp_request p1)\<lparr>rq_headers := push_pairs kvs []\<rparr>\<rparr>"
  define p3 where "p3 = p2\<lparr>hp_buffer := [], hp_state := Complete, hp_request := (hp_request p2)\<lparr>rq_body := body\<rparr>\<rparr>"
  have "request_step ho (request_parser_new\<lparr>hp_buffer := data\<rparr>) =
      (True, p1\<lparr>hp_buffer := concat (map pair_line kvs) @ CRLF @ body\<rparr>)"
    unfolding data using request_line_stage [OF path version, of request_parser_new] by (simp add: p1_def request_parser_new_def)
  then have "request_loop ho (request_parser_new\<lparr>hp_buffer := data\<rparr>) =
      request_loop ho (p1\<lparr>hp_buffer := concat (map pair_line kvs) @ CRLF @ body\<rparr>)"
    by (intro request_loop_step) (simp add: hp_finished_def request_parser_new_def)
  also have "\<dots> = request_loop ho p2"
  proof (rule request_loop_step)
    show "request_step ho (p1\<lparr>hp_buffer := concat (map pair_line kvs) @ CRLF @ body\<rparr>) = (True, p2)"
      unfolding p2_def by (rule request_headers_stage [where ho = ho and kvs = kvs, OF _ _ _ plain cl small])
        (simp_all add: p1_def request_parser_new_def http_request_new_def)
  qed (simp add: hp_finished_def p1_def)
  also have "\<dots> = p3"
  proof (cases "body = []")
    case True
    then show ?thesis by (subst request_loop_finished) (simp_all add: p3_def p2_def p1_def hp_finished_def http_request_new_def)
  next
    case False
    then have "request_step ho p2 = (True, p3)" unfolding p3_def using small by (intro request_body_stage) (simp_all add: p2_def)
    then have "request_loop ho p2 = request_loop ho p3" using False by (intro request_loop_step) (simp_all add: p2_def hp_finished_def)
    then show ?thesis by (simp add: request_loop_finished p3_def hp_finished_def)
  qed
  finally show ?thesis by (simp add: p3_def p2_def p1_def request_parser_new_def http_request_new_def)
qed

section \<open>What the client adds\<close>

lemma sendable_push:
  assumes hs: "sendable hs" and new: "map_of hs key = None" and key: "\<not> iequals key ''Transfer-Encoding''" "\<not> iequals key ''Content-Length''"
    and v: "plain_pair (key, v)"
  shows "sendable (push_header key v hs)"
proof -
  have sub: "set (AList.update k w hs) \<subseteq> insert (k, w) (set hs)" for k w by (induction hs) auto
  have "push_header key v hs = AList.update key [v] hs" using new by (simp add: push_header_def values_of_def)
  moreover have "distinct (map fst (AList.update key [v] hs))" using hs by (simp add: sendable_def distinct_update)
  ultimately show ?thesis using hs key v sub [of key "[v]"] unfolding sendable_def by fastforce
qed

lemma sendable_add_missing:
  assumes "sendable (rq_headers r)" and "\<not> iequals key ''Transfer-Encoding''" "\<not> iequals key ''Content-Length''" and "plain_pair (key, v)"
  shows "sendable (rq_headers (add_missing key v r))"
  using sendable_push [OF assms(1) _ assms(2-4)] assms(1) by (simp add: add_missing_def has_header_def rq_add_header_def)

lemma add_missing_keeps [simp]:
  "rq_method (add_missing key v r) = rq_method r" "rq_path (add_missing key v r) = rq_path r" "rq_version (add_missing key v r) = rq_version r"
  "rq_body (add_missing key v r) = rq_body r" "k \<noteq> key \<Longrightarrow> map_of (rq_headers (add_missing key v r)) k = map_of (rq_headers r) k"
  by (simp_all add: add_missing_def rq_add_header_def push_header_map)

lemma ip_to_string_plain: "CHR 0x0D \<notin> set (ip_to_string a)" "plain_pair (''Host'', ip_to_string a)"
proof -
  show cr: "CHR 0x0D \<notin> set (ip_to_string a)" using to_dec_no(1) by (simp add: ip_to_string_def)
  obtain c cs where c: "to_dec (unat (drop_bit 24 a AND 0xFF)) = c # cs"
    using to_dec_props [of "unat (drop_bit 24 a AND 0xFF)"] by (cases "to_dec (unat (drop_bit 24 a AND 0xFF))") auto
  then have "c \<noteq> CHR '' ''" using to_dec_no(2) [of "unat (drop_bit 24 a AND 0xFF)"] by auto
  then have "case ip_to_string a of [] \<Rightarrow> True | c # _ \<Rightarrow> c \<noteq> CHR '' ''" unfolding ip_to_string_def c by simp
  then show "plain_pair (''Host'', ip_to_string a)" using cr by (simp add: plain_pair_def)
qed

text \<open>A client whose own headers, and a request whose text, the format can carry.\<close>

definition plain_client :: "http_client \<Rightarrow> bool" where
  "plain_client cl \<longleftrightarrow> plain_pair (''Host'', cl_default_host cl) \<and> plain_pair (''User-Agent'', cl_user_agent cl)"

definition plain_request :: "http_request \<Rightarrow> bool" where
  "plain_request r \<longleftrightarrow> plain_path (rq_path r) \<and> CHR 0x0D \<notin> set (rq_version r) \<and> sendable (rq_headers r) \<and>
     (map_of (rq_headers r) ''Content-Length'' = Some [to_dec (length (rq_body r))] \<or>
      map_of (rq_headers r) ''Content-Length'' = None \<and> rq_body r = [])"

lemma full_request_keeps [simp]:
  "rq_method (full_request cl ip r) = rq_method r" "rq_path (full_request cl ip r) = rq_path r"
  "rq_version (full_request cl ip r) = rq_version r" "rq_body (full_request cl ip r) = rq_body r"
  "map_of (rq_headers (full_request cl ip r)) ''Content-Length'' = map_of (rq_headers r) ''Content-Length''"
  by (simp_all add: full_request_def Let_def)

lemma full_request_sendable:
  assumes "plain_client cl" and "sendable (rq_headers r)"
  shows "sendable (rq_headers (full_request cl ip r))"
proof -
  have "plain_pair (''Connection'', ''close'')" by (simp add: plain_pair_def)
  moreover have "plain_pair (''Host'', if cl_default_host cl \<noteq> [] then cl_default_host cl else ip_to_string ip)"
    using assms(1) ip_to_string_plain(2) by (simp add: plain_client_def)
  moreover have "plain_pair (''User-Agent'', cl_user_agent cl)" using assms(1) by (simp add: plain_client_def)
  moreover have "\<not> iequals ''Host'' ''Transfer-Encoding''" "\<not> iequals ''Host'' ''Content-Length''"
      "\<not> iequals ''User-Agent'' ''Transfer-Encoding''" "\<not> iequals ''User-Agent'' ''Content-Length''"
      "\<not> iequals ''Connection'' ''Transfer-Encoding''" "\<not> iequals ''Connection'' ''Content-Length''"
    by (simp_all add: iequals_def)
  ultimately show ?thesis unfolding full_request_def Let_def using assms(2) by (intro sendable_add_missing)
qed

text \<open>The server's parser on the bytes of the client.\<close>

lemma request_read_back:
  assumes ho: "\<forall>hs. mset (ho hs) = mset hs" and r: "plain_request r" and fits: "length (rq_serialize ho r) \<le> MAX_BUFFER_SIZE"
  shows "\<exists>hs. map_of hs = map_of (rq_headers r) \<and>
    snd (request_feed ho (rq_serialize ho r) request_parser_new) = request_parser_new\<lparr>hp_content_length := of_nat (length (rq_body r)),
      hp_state := Complete, hp_request := http_request_new\<lparr>rq_method := rq_method r, rq_path := rq_path r,
        rq_version := (if rq_version r = [] then ''HTTP/1.1'' else rq_version r), rq_headers := hs, rq_body := rq_body r\<rparr>\<rparr>"
proof -
  define version where "version = (if rq_version r = [] then ''HTTP/1.1'' else rq_version r)"
  define kvs where "kvs = header_pairs (ho (rq_headers r))"
  define data where "data = rq_serialize ho r"
  have shs: "sendable (rq_headers r)" and line: "plain_path (rq_path r)" "CHR 0x0D \<notin> set version"
    using r by (auto simp: plain_request_def version_def)
  have dvs: "distinct (map fst (rq_headers r))" "\<forall>(k, vs)\<in>set (rq_headers r). vs \<noteq> []" using shs by (auto simp: sendable_def)
  note ph = parsed_headers [OF ho dvs, folded kvs_def]
  have "set (ho (rq_headers r)) = set (rq_headers r)" using ho by (intro mset_eq_setD) simp
  then have plain: "\<forall>kv\<in>set kvs. plain_pair kv" unfolding kvs_def by (rule header_pairs_plain [OF shs])
  have cl: "announces (rq_body r) (find_header_ignore_case (ho (push_pairs kvs [])) ''Content-Length'')"
  proof (cases "map_of (rq_headers r) ''Content-Length''")
    case None
    then have "''Content-Length'' \<notin> fst ` set (rq_headers r)" by (simp add: map_of_eq_None_iff)
    moreover have "k = ''Content-Length''" if "(k, vs) \<in> set (rq_headers r)" "iequals k ''Content-Length''" for k vs
    proof -
      have "\<forall>(k, vs)\<in>set (rq_headers r). iequals k ''Content-Length'' \<longrightarrow> k = ''Content-Length''"
        using shs unfolding sendable_def by auto
      from bspec [OF this that(1)] that(2) show ?thesis by simp
    qed
    ultimately have "\<not> iequals (fst kv) ''Content-Length''" if "kv \<in> set (rq_headers r)" for kv
      using that by (cases kv) force
    then have "\<forall>k\<in>fst ` set (rq_headers r). \<not> iequals k ''Content-Length''" by blast
    then have "find_header_ignore_case (ho (push_pairs kvs [])) ''Content-Length'' = None"
      unfolding conjunct2 [OF ph, symmetric] by (rule find_header_none)
    then show ?thesis using r None by (simp add: plain_request_def announces_def)
  next
    case (Some vs)
    then have vs: "vs = [to_dec (length (rq_body r))]" using r by (simp add: plain_request_def)
    have "(''Content-Length'', vs) \<in> set (rq_headers r)" by (rule map_of_SomeD [OF Some])
    then have "find_header_ignore_case (ho (push_pairs kvs [])) ''Content-Length'' = Some (''Content-Length'', vs)"
      using shs ph dvs(1) by (intro find_header_only) (auto simp: sendable_def iequals_iff dest: eq_key_imp_eq_value)
    then show ?thesis by (simp add: announces_def vs)
  qed
  have data: "data = request_line (rq_method r) (rq_path r) version @ CRLF @ (concat (map pair_line kvs) @ CRLF @ rq_body r)"
    by (simp add: data_def rq_serialize_def request_line_def version_def header_lines_pairs kvs_def)
  have small: "length (rq_body r) < 2 ^ 64"
    using fits unfolding data_def [symmetric] data by (simp add: MAX_BUFFER_SIZE_def)
  have "snd (request_feed ho data request_parser_new) = request_loop ho (request_parser_new\<lparr>hp_buffer := data\<rparr>)"
    using fits unfolding data_def [symmetric] by (simp add: request_feed_eq request_fresh more_data_def)
  then show ?thesis
    using ph unfolding data_def [symmetric] request_stages [where ho = ho and kvs = kvs, OF line plain cl small data] version_def [symmetric]
    by (intro exI [of _ "push_pairs kvs []"]) simp
qed

section \<open>Pieces\<close>

lemma more_data_complete: "more_data rest p = q \<Longrightarrow> hp_buffer q = [] \<Longrightarrow> p = q"
  by (auto simp: more_data_def)

text \<open>The client reports when its parser has finished, and once.\<close>

definition reported :: "'n request_context \<Rightarrow> bool" where
  "reported c \<longleftrightarrow> (cx_callback c \<longleftrightarrow> \<not> hp_finished (cx_parser c)) \<and>
     cx_results c = (if hp_state (cx_parser c) = Complete then [(hp_response (cx_parser c), 0)]
       else if hp_state (cx_parser c) = Error then [(http_response_new, - 2)] else [])"

lemma client_receives:
  assumes "reported c"
  shows "reported (client_on_receive ho conn data c) \<and> cx_parser (client_on_receive ho conn data c) = snd (response_feed ho data (cx_parser c))"
proof (cases "hp_finished (cx_parser c)")
  case True
  then show ?thesis using assms by (auto simp: reported_def client_defs hp_finished_def response_feed_eq)
next
  case False
  then show ?thesis using assms by (auto simp: reported_def client_defs hp_finished_def)
qed

lemma client_pieces:
  "reported c \<Longrightarrow> reported (client_run ho conn (map Arrived ds) c) \<and>
    cx_parser (client_run ho conn (map Arrived ds) c) = response_pieces ho ds (cx_parser c)"
proof (induction ds arbitrary: c)
  case (Cons d ds)
  then show ?case using client_receives [OF Cons.prems, where ho = ho and conn = conn and data = d]
    by (simp add: client_run_def client_step_def response_pieces_def)
qed (simp add: client_run_def response_pieces_def)

text \<open>C34. An exchange over HTTP.  The bytes that the client sends for a request, cut into any pieces, complete the
  server's parser with the method, path, headers and body of the request and the headers the client has added; and
  the bytes of a response with status, headers and body, cut into any pieces, make the client call its callback
  exactly once, without error, with these.\<close>

theorem http_exchange:
  assumes "\<forall>hs. mset (ho hs) = mset hs" and "plain_client cl" and "plain_request r"
    and "sendable (rp_headers rp)" and "100 \<le> rp_status rp" and "rp_status rp \<le> 599"
    and "concat cs = fst (client_request ho cl server_ip r True)" and "length (concat cs) \<le> MAX_BUFFER_SIZE"
    and "concat ds = rp_serialize ho (set_body content rp)" and "length (concat ds) \<le> MAX_BUFFER_SIZE"
  shows "let p = request_pieces ho cs request_parser_new;
      c = client_run ho conn (map Arrived ds)
        (client_on_connect (concat cs) (Some conn) 0 (snd (client_request ho cl server_ip r True)))
    in hp_state p = Complete \<and> rq_method (hp_request p) = rq_method r \<and> rq_path (hp_request p) = rq_path r \<and>
       rq_body (hp_request p) = rq_body r \<and> map_of (rq_headers (hp_request p)) = map_of (rq_headers (full_request cl server_ip r)) \<and>
       (\<exists>rp'. cx_results c = [(rp', 0)] \<and> rp_status rp' = rp_status rp \<and> rp_body rp' = content \<and>
          map_of (rp_headers rp') = (map_of (rp_headers rp))(''Content-Length'' \<mapsto> [to_dec (length content)]))"
proof -
  let ?r = "full_request cl server_ip r"
  have pr: "plain_request ?r" using assms(3) full_request_sendable [OF assms(2)] by (simp add: plain_request_def)
  have cs: "concat cs = rq_serialize ho ?r" using assms(7) by (simp add: client_request_def)
  obtain hs p0 where p0: "snd (request_feed ho (concat cs) request_parser_new) = p0" "map_of hs = map_of (rq_headers ?r)"
      "p0 = request_parser_new\<lparr>hp_content_length := of_nat (length (rq_body r)), hp_state := Complete,
        hp_request := http_request_new\<lparr>rq_method := rq_method r, rq_path := rq_path r,
          rq_version := (if rq_version ?r = [] then ''HTTP/1.1'' else rq_version ?r), rq_headers := hs, rq_body := rq_body r\<rparr>\<rparr>"
    using request_read_back [OF assms(1) pr assms(8) [unfolded cs]] unfolding cs full_request_keeps(1,2,4) by blast
  obtain rest where "p0 = more_data rest (request_pieces ho cs request_parser_new)"
    using request_pieces_once [OF assms(8), of ho] p0(1) by auto
  moreover have "hp_buffer p0 = []" by (simp add: p0(3) request_parser_new_def)
  ultimately have p: "request_pieces ho cs request_parser_new = p0" by (metis more_data_complete)
  have fits: "length (rp_serialize ho (set_body content rp)) \<le> MAX_BUFFER_SIZE" using assms(9,10) by simp
  let ?q = "snd (response_feed ho (concat ds) response_parser_new)"
  have q: "hp_state ?q = Complete" "rp_status (hp_response ?q) = rp_status rp" "rp_body (hp_response ?q) = content"
      "map_of (rp_headers (hp_response ?q)) = (map_of (rp_headers rp))(''Content-Length'' \<mapsto> [to_dec (length content)])" "hp_buffer ?q = []"
    using response_read_back [OF assms(1,4-6) fits] by (simp_all add: assms(9) Let_def)
  obtain rest where "?q = more_data rest (response_pieces ho ds response_parser_new)"
    using response_pieces_once [OF assms(10), of ho] by auto
  then have q': "response_pieces ho ds response_parser_new = ?q" using q(5) by (metis more_data_complete)
  let ?c = "client_on_connect (concat cs) (Some conn) 0 (context_new True)"
  have "reported ?c" "cx_parser ?c = response_parser_new"
    by (simp_all add: reported_def client_on_connect_def context_new_def hp_finished_def response_parser_new_def)
  from client_pieces [OF this(1), where ho = ho and conn = conn and ds = ds] this(2) q'
  have "cx_results (client_run ho conn (map Arrived ds) ?c) = [(hp_response ?q, 0)]" using q(1) by (simp add: reported_def)
  then show ?thesis using p p0(2,3) q(2-4) by (simp add: Let_def client_request_def)
qed

text \<open>A form is posted, and the answer arrives in two pieces.\<close>

definition demo_post :: http_request where
  "demo_post = rq_add_header ''Content-Length'' (to_dec 3) (rq_add_header ''Content-Type'' ''text/plain''
     (http_request_new\<lparr>rq_method := POST, rq_path := ''/form'', rq_body := ''a=1''\<rparr>))"

definition demo_client :: http_client where
  "demo_client = set_default_host ''example.org'' http_client_new"

theorem http_exchange_witness:
  "let (data, c) = client_request rev demo_client 0x0A000001 demo_post True;
     answer = rp_serialize rev (set_body ''no'' small_page);
     p = request_pieces rev [take 9 data, drop 9 data] request_parser_new;
     c = client_run rev (1 :: nat) (map Arrived [take 20 answer, drop 20 answer]) (client_on_connect data (Some 1) 0 c)
   in hp_state p = Complete \<and> rq_method (hp_request p) = POST \<and> rq_path (hp_request p) = ''/form'' \<and> rq_body (hp_request p) = ''a=1'' \<and>
     (\<exists>rp. cx_results c = [(rp, 0)] \<and> rp_status rp = 404 \<and> rp_body rp = ''no'')"
proof -
  let ?data = "fst (client_request rev demo_client 0x0A000001 demo_post True :: string \<times> nat request_context)"
  let ?answer = "rp_serialize rev (set_body ''no'' small_page)"
  have ho: "\<forall>hs. mset (rev hs) = mset (hs :: headers)" by simp
  have cl: "plain_client demo_client" by (simp add: demo_client_def set_default_host_def plain_client_def http_client_new_def plain_pair_def)
  have n: "to_dec 3 = ''3''" "to_dec 2 = ''2''" "to_dec (Suc (Suc (Suc 0))) = ''3''" "to_dec (Suc (Suc 0)) = ''2''" by code_simp+
  have post: "rq_headers demo_post = [(''Content-Type'', [''text/plain'']), (''Content-Length'', [''3''])]" "rq_method demo_post = POST"
      "rq_path demo_post = ''/form''" "rq_body demo_post = ''a=1''" "rq_version demo_post = []"
    by (simp_all add: demo_post_def rq_add_header_def push_header_def values_of_def http_request_new_def n)
  have r: "plain_request demo_post"
    by (simp add: plain_request_def post plain_path_def sendable_def plain_pair_def iequals_def n)
  have hs: "sendable (rp_headers small_page)" by (simp add: small_page_def sendable_def plain_pair_def iequals_def)
  have st: "100 \<le> rp_status small_page" "rp_status small_page \<le> 599" by (simp_all add: small_page_def)
  have cs: "concat [take 9 ?data, drop 9 ?data] = ?data" and ds: "concat [take 20 ?answer, drop 20 ?answer] = ?answer" by simp_all
  have full: "rq_headers (full_request demo_client 0x0A000001 demo_post) = [(''Content-Type'', [''text/plain'']), (''Content-Length'', [''3'']),
      (''Host'', [''example.org'']), (''User-Agent'', [''NeuStack/1.4'']), (''Connection'', [''close''])]"
    by (simp add: full_request_def Let_def add_missing_def has_header_def rq_add_header_def push_header_def values_of_def post
        demo_client_def set_default_host_def http_client_new_def)
  have fits: "length (concat [take 9 ?data, drop 9 ?data]) \<le> MAX_BUFFER_SIZE"
    unfolding cs by (simp add: client_request_def rq_serialize_def full post header_lines_def MAX_BUFFER_SIZE_def)
  have "length (to_dec 404) = 3" by (simp add: to_dec.simps)
  then have fits': "length (concat [take 20 ?answer, drop 20 ?answer]) \<le> MAX_BUFFER_SIZE"
    unfolding ds by (simp add: small_page_def rp_serialize_def set_body_def rp_set_header_def header_lines_def http_status_text_def MAX_BUFFER_SIZE_def n)
  show ?thesis
    using http_exchange [OF ho cl r hs st cs fits ds fits', of "1 :: nat"] unfolding Let_def split_beta cs ds post
    by (auto simp: client_request_def small_page_def)
qed

end
