(* ===== verification/Http_Server.thy ===== *)
theory Http_Server
  imports Http_Parser
begin

text \<open>
  The HTTP server (\<^verbatim>\<open>src/app/http_server.cpp\<close>, \<^verbatim>\<open>include/neustack/app/http_server.hpp\<close>).  The streams it is
  written against (\<open>IStreamConnection\<close>), the files it reads and the generators of an application
  (\<open>IChunkedResponse\<close>) are parameters; a handler may change a state of the application.  A \<open>char\<close> of the model is
  a byte of the stream.  Calls of the transport do not come back into the server before they return.
\<close>

section \<open>Interfaces\<close>

text \<open>The virtual methods of \<open>IChunkedResponse\<close>, on the states \<open>'g\<close> of all generators.\<close>

record 'g generator_ops =
  go_next :: "nat \<Rightarrow> 'g \<Rightarrow> string \<times> 'g"
  go_more :: "'g \<Rightarrow> bool"
  go_total :: "'g \<Rightarrow> u64"
  go_type :: "'g \<Rightarrow> string"

text \<open>A call of the transport that the model of the transport leaves undefined is \<open>None\<close>.\<close>

record ('n, 'g, 't) http_env =
  he_order :: "headers \<Rightarrow> headers"
  he_send :: "'n \<Rightarrow> string \<Rightarrow> 't \<Rightarrow> (int \<times> 't) option"
  he_close :: "'n \<Rightarrow> 't \<Rightarrow> 't option"
  he_file :: "string \<Rightarrow> string option"
  he_gen :: "'g generator_ops"

type_synonym 'a handler = "http_request \<Rightarrow> 'a \<Rightarrow> http_response \<times> 'a"
type_synonym ('g, 'a) chunked_handler = "http_request \<Rightarrow> 'a \<Rightarrow> 'g option \<times> 'a"

section \<open>The server\<close>

record 'g conn_state =
  cs_parser :: request_parser
  cs_keep_alive :: bool
  cs_pending :: string
  cs_offset :: nat
  cs_generator :: "'g option"
  cs_header_sent :: bool

definition conn_state_new :: "'g conn_state" where
  "conn_state_new = \<lparr>cs_parser = request_parser_new, cs_keep_alive = True, cs_pending = [], cs_offset = 0, cs_generator = None,
     cs_header_sent = False\<rparr>"

record ('n, 'g, 'a, 't) http_server =
  hs_routes :: "http_method \<rightharpoonup> (string \<rightharpoonup> 'a handler)"
  hs_chunked_routes :: "string \<rightharpoonup> ('g, 'a) chunked_handler"
  hs_not_found :: "'a handler option"
  hs_static_prefix :: string
  hs_static_dir :: string
  hs_conns :: "'n \<rightharpoonup> 'g conn_state"
  hs_app :: 'a
  hs_net :: 't

definition http_server_new :: "'a \<Rightarrow> 't \<Rightarrow> ('n, 'g, 'a, 't) http_server" where
  "http_server_new a t = \<lparr>hs_routes = Map.empty, hs_chunked_routes = Map.empty, hs_not_found = None, hs_static_prefix = [],
     hs_static_dir = [], hs_conns = Map.empty, hs_app = a, hs_net = t\<rparr>"

definition add_route :: "http_method \<Rightarrow> string \<Rightarrow> 'a handler \<Rightarrow> ('n, 'g, 'a, 't) http_server \<Rightarrow> ('n, 'g, 'a, 't) http_server" where
  "add_route m path h s =
    (let paths = (case hs_routes s m of Some ps \<Rightarrow> ps | None \<Rightarrow> Map.empty)
     in s\<lparr>hs_routes := (hs_routes s)(m \<mapsto> paths(path \<mapsto> h))\<rparr>)"

definition http_get :: "string \<Rightarrow> 'a handler \<Rightarrow> ('n, 'g, 'a, 't) http_server \<Rightarrow> ('n, 'g, 'a, 't) http_server" where
  "http_get = add_route GET"

definition http_post :: "string \<Rightarrow> 'a handler \<Rightarrow> ('n, 'g, 'a, 't) http_server \<Rightarrow> ('n, 'g, 'a, 't) http_server" where
  "http_post = add_route POST"

definition http_put :: "string \<Rightarrow> 'a handler \<Rightarrow> ('n, 'g, 'a, 't) http_server \<Rightarrow> ('n, 'g, 'a, 't) http_server" where
  "http_put = add_route PUT"

definition http_del :: "string \<Rightarrow> 'a handler \<Rightarrow> ('n, 'g, 'a, 't) http_server \<Rightarrow> ('n, 'g, 'a, 't) http_server" where
  "http_del = add_route DELETE"

definition get_chunked :: "string \<Rightarrow> ('g, 'a) chunked_handler \<Rightarrow> ('n, 'g, 'a, 't) http_server \<Rightarrow> ('n, 'g, 'a, 't) http_server" where
  "get_chunked path h s = s\<lparr>hs_chunked_routes := (hs_chunked_routes s)(path \<mapsto> h)\<rparr>"

definition set_not_found_handler :: "'a handler \<Rightarrow> ('n, 'g, 'a, 't) http_server \<Rightarrow> ('n, 'g, 'a, 't) http_server" where
  "set_not_found_handler h s = s\<lparr>hs_not_found := Some h\<rparr>"

definition serve_static :: "string \<Rightarrow> string \<Rightarrow> ('n, 'g, 'a, 't) http_server \<Rightarrow> ('n, 'g, 'a, 't) http_server" where
  "serve_static prefix dir s = s\<lparr>hs_static_prefix := prefix, hs_static_dir := dir\<rparr>"

text \<open>The callback that \<open>listen\<close> gives the transport for a new connection.\<close>

definition http_accept :: "'n \<Rightarrow> ('n, 'g, 'a, 't) http_server \<Rightarrow> ('n, 'g, 'a, 't) http_server" where
  "http_accept n s = s\<lparr>hs_conns := (hs_conns s)(n \<mapsto> conn_state_new)\<rparr>"

section \<open>Static files\<close>

definition MIME_TYPES :: "(string \<times> string) list" where
  "MIME_TYPES =
    [(''.html'', ''text/html''), (''.htm'', ''text/html''), (''.css'', ''text/css''), (''.js'', ''application/javascript''),
     (''.json'', ''application/json''), (''.xml'', ''application/xml''), (''.txt'', ''text/plain''), (''.csv'', ''text/csv''),
     (''.png'', ''image/png''), (''.jpg'', ''image/jpeg''), (''.jpeg'', ''image/jpeg''), (''.gif'', ''image/gif''),
     (''.svg'', ''image/svg+xml''), (''.ico'', ''image/x-icon''), (''.webp'', ''image/webp''),
     (''.woff'', ''font/woff''), (''.woff2'', ''font/woff2''), (''.ttf'', ''font/ttf''), (''.otf'', ''font/otf''),
     (''.eot'', ''application/vnd.ms-fontobject''),
     (''.zip'', ''application/zip''), (''.gz'', ''application/gzip''), (''.tar'', ''application/x-tar''),
     (''.pdf'', ''application/pdf''), (''.mp3'', ''audio/mpeg''), (''.mp4'', ''video/mp4''), (''.wasm'', ''application/wasm'')]"

definition get_extension :: "string \<Rightarrow> string" where
  "get_extension path =
    (if CHR ''.'' \<in> set path then CHR ''.'' # rev (takeWhile (\<lambda>c. c \<noteq> CHR ''.'') (rev path)) else [])"

definition get_mime_type :: "string \<Rightarrow> string" where
  "get_mime_type path =
    (case map_of MIME_TYPES (get_extension path) of Some t \<Rightarrow> t | None \<Rightarrow> ''application/octet-stream'')"

definition forbidden_page :: http_response where
  "forbidden_page = set_body ''<html><body><h1>403 Forbidden</h1></body></html>''
     (content_type ''text/html'' (http_response_new\<lparr>rp_status := 403\<rparr>))"

definition not_found_page :: http_response where
  "not_found_page = set_body ''<html><body><h1>404 Not Found</h1></body></html>''
     (content_type ''text/html'' (http_response_new\<lparr>rp_status := 404\<rparr>))"

text \<open>The part of \<open>dispatch\<close> for static files; \<open>None\<close> goes on.\<close>

definition static_page :: "(string \<Rightarrow> string option) \<Rightarrow> string \<Rightarrow> string \<Rightarrow> http_request \<Rightarrow> http_response option" where
  "static_page files prefix dir r =
    (if prefix \<noteq> [] \<and> find_sub prefix (rq_path r) = Some 0 \<and> rq_method r = GET
     then
       let relative_path = drop (length prefix) (rq_path r)
       in if find_sub ''..'' relative_path \<noteq> None \<or> (relative_path \<noteq> [] \<and> hd relative_path = CHR ''/'')
          then Some forbidden_page
          else
            let file_path = dir @ ''/'' @ relative_path
            in (case files file_path of
                  Some content \<Rightarrow> Some (content_type (get_mime_type file_path) (set_body content http_response_new))
                | None \<Rightarrow> None)
     else None)"

section \<open>Dispatch\<close>

definition find_route :: "http_request \<Rightarrow> ('n, 'g, 'a, 't) http_server \<Rightarrow> 'a handler option" where
  "find_route r s = Option.bind (hs_routes s (rq_method r)) (\<lambda>paths. paths (rq_path r))"

definition http_dispatch ::
  "('n, 'g, 't) http_env \<Rightarrow> http_request \<Rightarrow> ('n, 'g, 'a, 't) http_server \<Rightarrow> http_response \<times> ('n, 'g, 'a, 't) http_server" where
  "http_dispatch E r s =
    (let call = (\<lambda>h. case h r (hs_app s) of (rp, a) \<Rightarrow> (rp, s\<lparr>hs_app := a\<rparr>)) in
     case find_route r s of
       Some h \<Rightarrow> call h
     | None \<Rightarrow>
         (case static_page (he_file E) (hs_static_prefix s) (hs_static_dir s) r of
            Some rp \<Rightarrow> (rp, s)
          | None \<Rightarrow> (case hs_not_found s of Some h \<Rightarrow> call h | None \<Rightarrow> (not_found_page, s))))"

section \<open>Sending\<close>

text \<open>The loop that sends a string from an offset on; the flag says that all was taken.\<close>

function send_all :: "('n, 'g, 't) http_env \<Rightarrow> 'n \<Rightarrow> string \<Rightarrow> nat \<Rightarrow> 't \<Rightarrow> (bool \<times> nat \<times> 't) option" where
  "send_all E n text offset t =
    (if offset < length text then do {
       (sent, t) \<leftarrow> he_send E n (drop offset text) t;
       if sent \<le> 0 then Some (False, offset, t) else send_all E n text (offset + nat sent) t
     }
     else Some (True, offset, t))"
  by pat_completeness auto
termination
  by (relation "measure (\<lambda>(_, _, text, offset, _). length text - offset)") auto

declare send_all.simps [simp del]

definition put_conn :: "'n \<Rightarrow> 'g conn_state \<Rightarrow> 't \<Rightarrow> ('n, 'g, 'a, 't) http_server \<Rightarrow> ('n, 'g, 'a, 't) http_server" where
  "put_conn n st t s = s\<lparr>hs_conns := (hs_conns s)(n \<mapsto> st), hs_net := t\<rparr>"

text \<open>\<open>conn->close()\<close>, unless the connection is kept alive.\<close>

definition close_unless_kept :: "('n, 'g, 't) http_env \<Rightarrow> 'n \<Rightarrow> bool \<Rightarrow> 't \<Rightarrow> 't option" where
  "close_unless_kept E n keep t = (if keep then Some t else he_close E n t)"

definition flush_pending ::
  "('n, 'g, 't) http_env \<Rightarrow> 'n \<Rightarrow> ('n, 'g, 'a, 't) http_server \<Rightarrow> (bool \<times> ('n, 'g, 'a, 't) http_server) option" where
  "flush_pending E n s =
    (case hs_conns s n of
       None \<Rightarrow> Some (True, s)
     | Some st \<Rightarrow> do {
         (all_sent, offset, t) \<leftarrow> send_all E n (cs_pending st) (cs_offset st) (hs_net s);
         if \<not> all_sent then Some (False, put_conn n (st\<lparr>cs_offset := offset\<rparr>) t s)
         else do {
           t \<leftarrow> close_unless_kept E n (cs_keep_alive st) t;
           Some (True, put_conn n (st\<lparr>cs_pending := [], cs_offset := 0\<rparr>) t s)
         }
       })"

definition send_response ::
  "('n, 'g, 't) http_env \<Rightarrow> 'n \<Rightarrow> http_response \<Rightarrow> ('n, 'g, 'a, 't) http_server \<Rightarrow> ('n, 'g, 'a, 't) http_server option" where
  "send_response E n rp s =
    (case hs_conns s n of
       None \<Rightarrow> Some s
     | Some st \<Rightarrow> do {
         (_, s) \<leftarrow> flush_pending E n (put_conn n (st\<lparr>cs_pending := rp_serialize (he_order E) rp, cs_offset := 0\<rparr>) (hs_net s) s);
         Some s
       })"

section \<open>Streamed responses\<close>

definition chunked_header :: "'g generator_ops \<Rightarrow> bool \<Rightarrow> 'g \<Rightarrow> string" where
  "chunked_header go keep g =
     ''HTTP/1.1 200 OK'' @ CRLF @ ''Content-Type: '' @ go_type go g @ CRLF @ ''Cache-Control: no-cache'' @ CRLF @
     (if go_total go g > 0 then ''Content-Length: '' @ to_dec (unat (go_total go g)) @ CRLF
      else ''Transfer-Encoding: chunked'' @ CRLF) @
     (if \<not> keep then ''Connection: close'' @ CRLF else []) @ CRLF"

text \<open>The loop over the chunks of a generator; the first result is what is left of a chunk that was not taken.  It runs
  as long as the generator has more and the transport takes it.\<close>

partial_function (option) chunk_loop ::
  "('n, 'g, 't) http_env \<Rightarrow> 'n \<Rightarrow> 'g \<Rightarrow> 't \<Rightarrow> (string option \<times> 'g \<times> 't) option" where
  "chunk_loop E n g t =
    (if \<not> go_more (he_gen E) g then Some (None, g, t)
     else (case go_next (he_gen E) 32768 g of
       (chunk, g) \<Rightarrow>
         if chunk = [] then Some (None, g, t)
         else Option.bind (send_all E n chunk 0 t) (\<lambda>(all_sent, offset, t).
           if \<not> all_sent then Some (Some (drop offset chunk), g, t) else chunk_loop E n g t)))"

definition begin_chunked :: "'g generator_ops \<Rightarrow> 'g \<Rightarrow> 'g conn_state \<Rightarrow> 'g conn_state" where
  "begin_chunked go g st =
    (if cs_header_sent st then st
     else st\<lparr>cs_pending := chunked_header go (cs_keep_alive st) g, cs_offset := 0, cs_header_sent := True\<rparr>)"

definition send_next_chunk ::
  "('n, 'g, 't) http_env \<Rightarrow> 'n \<Rightarrow> ('n, 'g, 'a, 't) http_server \<Rightarrow> (bool \<times> ('n, 'g, 'a, 't) http_server) option" where
  "send_next_chunk E n s =
    (case hs_conns s n of
       None \<Rightarrow> Some (True, s)
     | Some st \<Rightarrow>
         (case cs_generator st of
            None \<Rightarrow> Some (True, s)
          | Some g \<Rightarrow>
              let st = begin_chunked (he_gen E) g st in do {
                (all_sent, offset, t) \<leftarrow> send_all E n (cs_pending st) (cs_offset st) (hs_net s);
                if \<not> all_sent then Some (False, put_conn n (st\<lparr>cs_offset := offset\<rparr>) t s)
                else do {
                  let st = (if cs_pending st = [] then st else st\<lparr>cs_pending := [], cs_offset := 0\<rparr>);
                  (rest, g, t) \<leftarrow> chunk_loop E n g t;
                  (case rest of
                     Some left \<Rightarrow> Some (False, put_conn n (st\<lparr>cs_pending := left, cs_offset := 0, cs_generator := Some g\<rparr>) t s)
                   | None \<Rightarrow>
                       if \<not> go_more (he_gen E) g then do {
                         t \<leftarrow> close_unless_kept E n (cs_keep_alive st) t;
                         Some (True, put_conn n (st\<lparr>cs_generator := None\<rparr>) t s)
                       }
                       else Some (False, put_conn n (st\<lparr>cs_generator := Some g\<rparr>) t s))
                }
              }))"

definition dispatch_chunked ::
  "('n, 'g, 't) http_env \<Rightarrow> 'n \<Rightarrow> http_request \<Rightarrow> ('n, 'g, 'a, 't) http_server \<Rightarrow> (bool \<times> ('n, 'g, 'a, 't) http_server) option" where
  "dispatch_chunked E n r s =
    (case hs_chunked_routes s (rq_path r) of
       None \<Rightarrow> Some (False, s)
     | Some h \<Rightarrow>
         (case hs_conns s n of
            None \<Rightarrow> Some (False, s)
          | Some st \<Rightarrow>
              (case h r (hs_app s) of
                 (gen, a) \<Rightarrow>
                   let s = s\<lparr>hs_app := a\<rparr>; st = st\<lparr>cs_generator := gen\<rparr>
                   in if gen = None then Some (False, put_conn n st (hs_net s) s)
                      else do {
                        (_, s) \<leftarrow> send_next_chunk E n (put_conn n (st\<lparr>cs_header_sent := False\<rparr>) (hs_net s) s);
                        Some (True, s)
                      })))"

section \<open>Requests\<close>

definition conn_of :: "'n \<Rightarrow> ('n, 'g, 'a, 't) http_server \<Rightarrow> 'g conn_state" where
  "conn_of n s = (case hs_conns s n of Some st \<Rightarrow> st | None \<Rightarrow> conn_state_new)"

definition put_parser :: "'n \<Rightarrow> request_parser \<Rightarrow> ('n, 'g, 'a, 't) http_server \<Rightarrow> ('n, 'g, 'a, 't) http_server" where
  "put_parser n p s = put_conn n ((conn_of n s)\<lparr>cs_parser := p\<rparr>) (hs_net s) s"

text \<open>The loop over complete requests; the flag says that the handler returned from inside it.  The connection is in
  the table, and nothing in the loop takes it out.\<close>

partial_function (option) serve_loop ::
  "('n, 'g, 't) http_env \<Rightarrow> 'n \<Rightarrow> ('n, 'g, 'a, 't) http_server \<Rightarrow> (bool \<times> ('n, 'g, 'a, 't) http_server) option" where
  "serve_loop E n s =
    (let st = conn_of n s in
     if hp_state (cs_parser st) \<noteq> Complete then Some (False, s)
     else
       let r = hp_request (cs_parser st); keep = (get_header ''Connection'' r \<noteq> ''close'');
           s = put_conn n (st\<lparr>cs_keep_alive := keep\<rparr>) (hs_net s) s
       in Option.bind (if rq_method r = GET then dispatch_chunked E n r s else Some (False, s)) (\<lambda>(chunked, s).
            if chunked then Some (True, put_parser n (request_reset (cs_parser (conn_of n s))) s)
            else (case http_dispatch E r s of
              (rp, s) \<Rightarrow>
                Option.bind (send_response E n (if \<not> keep then rp_set_header ''Connection'' ''close'' rp else rp) s) (\<lambda>s.
                  let s = put_parser n (request_reset (cs_parser (conn_of n s))) s
                  in if cs_pending (conn_of n s) \<noteq> [] then Some (False, s)
                     else if \<not> keep then Option.bind (he_close E n (hs_net s)) (\<lambda>t. Some (False, s\<lparr>hs_net := t\<rparr>))
                     else serve_loop E n s))))"

definition bad_request :: http_response where
  "bad_request = set_body ''Bad Request'' (http_response_new\<lparr>rp_status := 400\<rparr>)"

definition serve_requests ::
  "('n, 'g, 't) http_env \<Rightarrow> 'n \<Rightarrow> string \<Rightarrow> ('n, 'g, 'a, 't) http_server \<Rightarrow> ('n, 'g, 'a, 't) http_server option" where
  "serve_requests E n data s = do {
     let s = put_parser n (snd (request_feed (he_order E) data (cs_parser (conn_of n s)))) s;
     (returned, s) \<leftarrow> serve_loop E n s;
     if returned then Some s
     else if hp_state (cs_parser (conn_of n s)) = Error then do {
       s \<leftarrow> send_response E n bad_request s;
       t \<leftarrow> he_close E n (hs_net s);
       Some (s\<lparr>hs_net := t\<rparr>)
     }
     else Some s
   }"

definition http_on_receive ::
  "('n, 'g, 't) http_env \<Rightarrow> 'n \<Rightarrow> string \<Rightarrow> ('n, 'g, 'a, 't) http_server \<Rightarrow> ('n, 'g, 'a, 't) http_server option" where
  "http_on_receive E n data s =
    (case hs_conns s n of
       None \<Rightarrow> Some s
     | Some st \<Rightarrow>
         if cs_generator st \<noteq> None then do { (_, s) \<leftarrow> send_next_chunk E n s; Some s }
         else if cs_pending st \<noteq> [] then do {
           (_, s) \<leftarrow> flush_pending E n s;
           if cs_pending (conn_of n s) \<noteq> [] then Some s else serve_requests E n data s
         }
         else serve_requests E n data s)"

definition http_on_close ::
  "('n, 'g, 't) http_env \<Rightarrow> 'n \<Rightarrow> ('n, 'g, 'a, 't) http_server \<Rightarrow> ('n, 'g, 'a, 't) http_server option" where
  "http_on_close E n s = do {
     t \<leftarrow> he_close E n (hs_net s);
     Some (s\<lparr>hs_conns := (hs_conns s)(n := None), hs_net := t\<rparr>)
   }"

text \<open>The connections in the order in which the map is iterated.\<close>

fun http_poll ::
  "('n, 'g, 't) http_env \<Rightarrow> 'n list \<Rightarrow> ('n, 'g, 'a, 't) http_server \<Rightarrow> ('n, 'g, 'a, 't) http_server option" where
  "http_poll E [] s = Some s"
| "http_poll E (n # ns) s = do {
     s \<leftarrow> (if cs_generator (conn_of n s) \<noteq> None then map_option snd (send_next_chunk E n s)
           else if cs_pending (conn_of n s) \<noteq> [] then map_option snd (flush_pending E n s)
           else Some s);
     http_poll E ns s
   }"

section \<open>A generator\<close>

text \<open>\<open>RandomDataGenerator\<close>: the words of an xorshift generator, each chunk cut to its length.\<close>

record rdg =
  rg_total :: u64
  rg_sent :: u64
  rg_state :: u32

definition rdg_new :: "u64 \<Rightarrow> rdg" where
  "rdg_new n = \<lparr>rg_total = n, rg_sent = 0, rg_state = 0xDEADBEEF\<rparr>"

definition xorshift :: "u32 \<Rightarrow> u32" where
  "xorshift x = (let x = x XOR push_bit 13 x; x = x XOR drop_bit 17 x in x XOR push_bit 5 x)"

definition word_chars :: "u32 \<Rightarrow> string" where
  "word_chars w = map (\<lambda>b. char_of (unat b)) (st32 w)"

fun rdg_fill :: "nat \<Rightarrow> u32 \<Rightarrow> string \<times> u32" where
  "rdg_fill n st =
    (if n = 0 then ([], st)
     else
       let st = xorshift st
       in case rdg_fill (n - 4) st of (rest, st') \<Rightarrow> (take (min n 4) (word_chars st) @ rest, st'))"

declare rdg_fill.simps [simp del]

definition rdg_next_chunk :: "nat \<Rightarrow> rdg \<Rightarrow> string \<times> rdg" where
  "rdg_next_chunk chunk_size g =
    (if rg_sent g \<ge> rg_total g then ([], g)
     else
       let to_generate = min chunk_size (unat (rg_total g - rg_sent g))
       in case rdg_fill to_generate (rg_state g) of
            (chunk, st) \<Rightarrow> (chunk, g\<lparr>rg_state := st, rg_sent := rg_sent g + of_nat to_generate\<rparr>))"

definition rdg_has_more :: "rdg \<Rightarrow> bool" where
  "rdg_has_more g \<longleftrightarrow> rg_sent g < rg_total g"

definition rdg_ops :: "rdg generator_ops" where
  "rdg_ops = \<lparr>go_next = rdg_next_chunk, go_more = rdg_has_more, go_total = rg_total, go_type = (\<lambda>_. ''application/octet-stream'')\<rparr>"

end
