(* ===== verification/Http_Serving.thy ===== *)
theory Http_Serving
  imports Http_Server
begin

text \<open>
  What the HTTP server writes on a connection: the contracts of a transport and of a generator as locales, and,
  proved inside them, that the bytes given to the transport, followed by those the server still holds, are the
  responses to the requests in order.
\<close>

section \<open>Contracts\<close>

text \<open>
  A transport: a call takes a prefix of the bytes it is given, and the log of a connection is what it took.
  \<open>other\<close> is what the transport does by itself; \<open>live\<close> counts these events, of which there may be \<open>budget\<close>.
\<close>

locale byte_stream =
  fixes send :: "'n \<Rightarrow> string \<Rightarrow> 't \<Rightarrow> (int \<times> 't) option" and close :: "'n \<Rightarrow> 't \<Rightarrow> 't option"
    and other :: "'e \<Rightarrow> 't \<Rightarrow> 't option" and allowed :: "'e \<Rightarrow> 't \<Rightarrow> bool"
    and log :: "'t \<Rightarrow> 'n \<Rightarrow> string" and live :: "nat \<Rightarrow> 't \<Rightarrow> bool" and budget :: nat
  assumes send_law: "live k t \<Longrightarrow> \<exists>c t'. send n bs t = Some (c, t') \<and> live k t' \<and> c \<le> int (length bs) \<and>
      log t' = (log t)(n := log t n @ take (nat c) bs)"
    and close_law: "live k t \<Longrightarrow> \<exists>t'. close n t = Some t' \<and> live k t' \<and> log t' = log t"
    and other_law: "live k t \<Longrightarrow> k < budget \<Longrightarrow> allowed e t \<Longrightarrow> \<exists>t'. other e t = Some t' \<and> live (Suc k) t' \<and> log t' = log t"

text \<open>A generator that, asked for the server's chunk size, ends, and whose chunks are a text fixed beforehand.\<close>

locale chunked_source =
  fixes go :: "'g generator_ops" and fin :: "'g \<Rightarrow> bool" and left :: "'g \<Rightarrow> string"
  assumes next_law: "fin g \<Longrightarrow> go_more go g \<Longrightarrow> go_next go 32768 g = (c, g') \<Longrightarrow> c \<noteq> [] \<and> fin g' \<and> left g = c @ left g'"
    and done_law: "fin g \<Longrightarrow> \<not> go_more go g \<Longrightarrow> left g = []"

locale http_stack =
  byte_stream "he_send E" "he_close E" other allowed log live budget + chunked_source "he_gen E" fin left
  for E :: "('n, 'g, 't) http_env" and other :: "'e \<Rightarrow> 't \<Rightarrow> 't option" and allowed log live budget fin left

section \<open>What a connection is owed\<close>

definition owed :: "('g \<Rightarrow> string) \<Rightarrow> 'g conn_state \<Rightarrow> string" where
  "owed left st = drop (cs_offset st) (cs_pending st) @ (case cs_generator st of Some g \<Rightarrow> left g | None \<Rightarrow> [])"

definition conn_ok :: "('g \<Rightarrow> bool) \<Rightarrow> 'g conn_state \<Rightarrow> bool" where
  "conn_ok fin st \<longleftrightarrow> cs_offset st \<le> length (cs_pending st) \<and>
     (case cs_generator st of Some g \<Rightarrow> fin g \<and> cs_header_sent st | None \<Rightarrow> True)"

definition only_at :: "'n \<Rightarrow> ('n \<Rightarrow> string) \<Rightarrow> ('n \<Rightarrow> string) \<Rightarrow> bool" where
  "only_at n f f' \<longleftrightarrow> (\<forall>m. m \<noteq> n \<longrightarrow> f' m = f m)"

lemma only_at_refl [simp]: "only_at n f f" "only_at n f (f(n := x))"
  by (simp_all add: only_at_def)

lemma only_at_trans: "only_at n f f' \<Longrightarrow> only_at n f' f'' \<Longrightarrow> only_at n f f''"
  by (simp add: only_at_def)

text \<open>A call that has written on the connection \<open>n\<close>, whose state was \<open>st\<close>: its bytes are now \<open>text\<close>.\<close>

definition wrote ::
  "('t \<Rightarrow> 'n \<Rightarrow> string) \<Rightarrow> (nat \<Rightarrow> 't \<Rightarrow> bool) \<Rightarrow> ('g \<Rightarrow> bool) \<Rightarrow> ('g \<Rightarrow> string) \<Rightarrow> nat \<Rightarrow> 'n \<Rightarrow> 'g conn_state \<Rightarrow> string \<Rightarrow>
     ('n, 'g, 'a, 't) http_server \<Rightarrow> 'g conn_state \<Rightarrow> ('n, 'g, 'a, 't) http_server \<Rightarrow> bool" where
  "wrote log live fin left k n st text s st' s' \<longleftrightarrow>
     (\<exists>t'. s' = put_conn n st' t' s \<and> live k t' \<and> only_at n (log (hs_net s)) (log t') \<and> log t' n @ owed left st' = text \<and>
       conn_ok fin st' \<and> cs_parser st' = cs_parser st \<and> cs_keep_alive st' = cs_keep_alive st)"

lemma put_conn_simps [simp]:
  "hs_conns (put_conn n st t s) = (hs_conns s)(n \<mapsto> st)" "hs_net (put_conn n st t s) = t" "hs_app (put_conn n st t s) = hs_app s"
  "hs_chunked_routes (put_conn n st t s) = hs_chunked_routes s" "put_conn n st t (put_conn n st' t' s) = put_conn n st t s"
  "conn_of n (put_conn n st t s) = st" "put_conn n st t s\<lparr>hs_net := t'\<rparr> = put_conn n st t' s"
  by (simp_all add: put_conn_def conn_of_def)

context http_stack
begin

lemma send_all_post:
  "live k t \<Longrightarrow> i \<le> length text \<Longrightarrow>
    \<exists>b j t'. send_all E n text i t = Some (b, j, t') \<and> live k t' \<and> only_at n (log t) (log t') \<and>
      log t' n @ drop j text = log t n @ drop i text \<and> j \<le> length text \<and> (b \<longrightarrow> j = length text) \<and> (\<not> b \<longrightarrow> j < length text)"
proof (induction "length text - i" arbitrary: i t rule: less_induct)
  case less
  show ?case
  proof (cases "i < length text")
    case False
    then have "send_all E n text i t = Some (True, i, t)" by (simp add: send_all.simps)
    then show ?thesis using less.prems False by auto
  next
    case True
    obtain c t1 where c: "he_send E n (drop i text) t = Some (c, t1)" "live k t1" "c \<le> int (length (drop i text))"
        "log t1 = (log t)(n := log t n @ take (nat c) (drop i text))"
      using send_law [OF less.prems(1)] by blast
    show ?thesis
    proof (cases "c \<le> 0")
      case True
      then have "send_all E n text i t = Some (False, i, t1)" using c(1) \<open>i < length text\<close> by (simp add: send_all.simps)
      then show ?thesis using c True less.prems(2) \<open>i < length text\<close> by auto
    next
      case False
      then have step: "send_all E n text i t = send_all E n text (i + nat c) t1"
        using c(1) \<open>i < length text\<close> by (subst send_all.simps) simp
      have le: "i + nat c \<le> length text" "length text - (i + nat c) < length text - i" using False c(3) \<open>i < length text\<close> by simp_all
      obtain b j t' where r: "send_all E n text (i + nat c) t1 = Some (b, j, t')" "live k t'" "only_at n (log t1) (log t')"
          "log t' n @ drop j text = log t1 n @ drop (i + nat c) text" "j \<le> length text" "b \<longrightarrow> j = length text" "\<not> b \<longrightarrow> j < length text"
        using less.hyps [OF le(2) c(2) le(1)] by blast
      have "log t1 n @ drop (i + nat c) text = log t n @ drop i text"
        using c(4) append_take_drop_id [of "nat c" "drop i text"] by (simp add: add.commute)
      moreover have "only_at n (log t) (log t')" using only_at_trans [OF _ r(3)] c(4) by simp
      ultimately show ?thesis using step r by auto
    qed
  qed
qed

lemma chunk_loop_post:
  "live k t \<Longrightarrow> fin g \<Longrightarrow>
    \<exists>r g' t'. chunk_loop E n g t = Some (r, g', t') \<and> live k t' \<and> fin g' \<and> only_at n (log t) (log t') \<and>
      log t' n @ (case r of Some rest \<Rightarrow> rest | None \<Rightarrow> []) @ left g' = log t n @ left g \<and> (r = None \<longrightarrow> \<not> go_more (he_gen E) g')"
proof (induction "length (left g)" arbitrary: g t rule: less_induct)
  case less
  show ?case
  proof (cases "go_more (he_gen E) g")
    case False
    then have "chunk_loop E n g t = Some (None, g, t)" by (simp add: chunk_loop.simps)
    then show ?thesis using less.prems False by auto
  next
    case True
    obtain c g1 where c: "go_next (he_gen E) 32768 g = (c, g1)" by fastforce
    have g1: "c \<noteq> []" "fin g1" "left g = c @ left g1" using next_law [OF less.prems(2) True c] by auto
    obtain b j t1 where s: "send_all E n c 0 t = Some (b, j, t1)" "live k t1" "only_at n (log t) (log t1)"
        "log t1 n @ drop j c = log t n @ c" "j \<le> length c" "b \<longrightarrow> j = length c" "\<not> b \<longrightarrow> j < length c"
      using send_all_post [OF less.prems(1), of 0 c n] by auto
    have step: "chunk_loop E n g t = (if \<not> b then Some (Some (drop j c), g1, t1) else chunk_loop E n g1 t1)"
      using True c g1(1) s(1) by (subst chunk_loop.simps) simp
    show ?thesis
    proof (cases b)
      case False
      have "log t1 n @ drop j c @ left g1 = log t n @ left g" using arg_cong [OF s(4), of "\<lambda>x. x @ left g1"] g1(3) by simp
      then show ?thesis using False step s(2,3) g1(2) by simp
    next
      case True
      then have "log t1 n = log t n @ c" using s(4,6) by simp
      moreover have "length (left g1) < length (left g)" using g1 by simp
      then obtain r g' t' where r: "chunk_loop E n g1 t1 = Some (r, g', t')" "live k t'" "fin g'" "only_at n (log t1) (log t')"
          "log t' n @ (case r of Some rest \<Rightarrow> rest | None \<Rightarrow> []) @ left g' = log t1 n @ left g1" "r = None \<longrightarrow> \<not> go_more (he_gen E) g'"
        using less.hyps [OF _ s(2) g1(2)] by blast
      moreover have "only_at n (log t) (log t')" by (rule only_at_trans [OF s(3) r(4)])
      ultimately show ?thesis using True step g1(3) by simp
    qed
  qed
qed

lemma close_unless_kept_post: "live k t \<Longrightarrow> \<exists>t'. close_unless_kept E n keep t = Some t' \<and> live k t' \<and> log t' = log t"
  using close_law by (simp add: close_unless_kept_def)

abbreviation "writes \<equiv> wrote log live fin left"

lemma flush_pending_post:
  assumes st: "hs_conns s n = Some st" "cs_generator st = None" "conn_ok fin st" and l: "live k (hs_net s)"
  shows "\<exists>b st' s'. flush_pending E n s = Some (b, s') \<and> writes k n st (log (hs_net s) n @ owed left st) s st' s' \<and>
    cs_generator st' = None \<and> (b \<longleftrightarrow> cs_pending st' = [])"
proof -
  have off: "cs_offset st \<le> length (cs_pending st)" using st(3) by (simp add: conn_ok_def)
  obtain b j t1 where s: "send_all E n (cs_pending st) (cs_offset st) (hs_net s) = Some (b, j, t1)" "live k t1"
      "only_at n (log (hs_net s)) (log t1)" "log t1 n @ drop j (cs_pending st) = log (hs_net s) n @ drop (cs_offset st) (cs_pending st)"
      "j \<le> length (cs_pending st)" "b \<longrightarrow> j = length (cs_pending st)" "\<not> b \<longrightarrow> j < length (cs_pending st)"
    using send_all_post [OF l off, of n] by blast
  show ?thesis
  proof (cases b)
    case False
    let ?st = "st\<lparr>cs_offset := j\<rparr>"
    have "writes k n st (log (hs_net s) n @ owed left st) s ?st (put_conn n ?st t1 s)"
      using s st(2) by (auto simp: wrote_def owed_def conn_ok_def intro!: exI [of _ t1])
    moreover have "cs_pending st \<noteq> []" using False s(7) by auto
    ultimately show ?thesis using False s(1) st(1,2)
      by (intro exI [of _ False] exI [of _ ?st] exI [of _ "put_conn n ?st t1 s"]) (simp add: flush_pending_def)
  next
    case True
    obtain t2 where c: "close_unless_kept E n (cs_keep_alive st) t1 = Some t2" "live k t2" "log t2 = log t1"
      using close_unless_kept_post [OF s(2)] by blast
    let ?st = "st\<lparr>cs_pending := [], cs_offset := 0\<rparr>"
    have "writes k n st (log (hs_net s) n @ owed left st) s ?st (put_conn n ?st t2 s)"
      using s st(2) c True by (auto simp: wrote_def owed_def conn_ok_def intro!: exI [of _ t2])
    then show ?thesis using True s(1) st(1,2) c(1)
      by (intro exI [of _ True] exI [of _ ?st] exI [of _ "put_conn n ?st t2 s"]) (simp add: flush_pending_def)
  qed
qed

lemma send_next_chunk_post:
  assumes st: "hs_conns s n = Some st" "cs_generator st = Some g" "fin g" and l: "live k (hs_net s)"
    and off: "cs_header_sent st \<Longrightarrow> cs_offset st \<le> length (cs_pending st)"
  shows "\<exists>b st' s'. send_next_chunk E n s = Some (b, s') \<and>
    writes k n st (log (hs_net s) n @ owed left (begin_chunked (he_gen E) g st)) s st' s'"
proof -
  define st1 where "st1 = begin_chunked (he_gen E) g st"
  have st1: "cs_generator st1 = Some g" "cs_header_sent st1" "cs_offset st1 \<le> length (cs_pending st1)" "cs_parser st1 = cs_parser st"
      "cs_keep_alive st1 = cs_keep_alive st"
    using st(2) off by (auto simp: st1_def begin_chunked_def)
  obtain b j t1 where s: "send_all E n (cs_pending st1) (cs_offset st1) (hs_net s) = Some (b, j, t1)" "live k t1"
      "only_at n (log (hs_net s)) (log t1)" "log t1 n @ drop j (cs_pending st1) = log (hs_net s) n @ drop (cs_offset st1) (cs_pending st1)"
      "j \<le> length (cs_pending st1)" "b \<longrightarrow> j = length (cs_pending st1)" "\<not> b \<longrightarrow> j < length (cs_pending st1)"
    using send_all_post [OF l st1(3), of n] by blast
  let ?text = "log (hs_net s) n @ owed left st1"
  show ?thesis
  proof (cases b)
    case False
    let ?st = "st1\<lparr>cs_offset := j\<rparr>"
    have "log t1 n @ owed left ?st = ?text"
      using arg_cong [OF s(4), of "\<lambda>x. x @ left g"] st1(1) by (simp add: owed_def)
    then have "writes k n st ?text s ?st (put_conn n ?st t1 s)"
      using s st1 st(3) by (auto simp: wrote_def conn_ok_def intro!: exI [of _ t1])
    then show ?thesis using False s(1) st(1,2)
      by (intro exI [of _ False] exI [of _ ?st] exI [of _ "put_conn n ?st t1 s"])
        (simp add: send_next_chunk_def Let_def flip: st1_def)
  next
    case True
    obtain r g' t2 where c: "chunk_loop E n g t1 = Some (r, g', t2)" "live k t2" "fin g'" "only_at n (log t1) (log t2)"
        "log t2 n @ (case r of Some rest \<Rightarrow> rest | None \<Rightarrow> []) @ left g' = log t1 n @ left g" "r = None \<longrightarrow> \<not> go_more (he_gen E) g'"
      using chunk_loop_post [OF s(2) st(3)] by blast
    have clear: "(if cs_pending st1 = [] then st1 else st1\<lparr>cs_pending := [], cs_offset := 0\<rparr>) = st1\<lparr>cs_pending := [], cs_offset := 0\<rparr>"
      using st1(3) by (cases st1) auto
    have lg: "only_at n (log (hs_net s)) (log t2)" by (rule only_at_trans [OF s(3) c(4)])
    have tx: "log t1 n @ left g = ?text" using s(4,6) True st1(1) by (simp add: owed_def)
    show ?thesis
    proof (cases r)
      case (Some rest)
      let ?st = "st1\<lparr>cs_pending := rest, cs_offset := 0, cs_generator := Some g'\<rparr>"
      have "writes k n st ?text s ?st (put_conn n ?st t2 s)"
        using c lg tx Some st1 by (auto simp: wrote_def owed_def conn_ok_def intro!: exI [of _ t2])
      then show ?thesis using True Some s(1) st(1,2) c(1)
        by (intro exI [of _ False] exI [of _ ?st] exI [of _ "put_conn n ?st t2 s"])
          (simp add: send_next_chunk_def Let_def clear flip: st1_def)
    next
      case None
      then have m: "\<not> go_more (he_gen E) g'" using c(6) by simp
      obtain t3 where d: "close_unless_kept E n (cs_keep_alive st) t2 = Some t3" "live k t3" "log t3 = log t2"
        using close_unless_kept_post [OF c(2)] by blast
      let ?st = "st1\<lparr>cs_pending := [], cs_offset := 0, cs_generator := None\<rparr>"
      have "writes k n st ?text s ?st (put_conn n ?st t3 s)"
        using c d lg tx None st1 done_law [OF c(3) m] by (auto simp: wrote_def owed_def conn_ok_def intro!: exI [of _ t3])
      then show ?thesis using True None m s(1) st(1,2) c(1) d(1) st1(5)
        by (intro exI [of _ True] exI [of _ ?st] exI [of _ "put_conn n ?st t3 s"])
          (simp add: send_next_chunk_def Let_def clear flip: st1_def)
    qed
  qed
qed

end

section \<open>Requests and their responses\<close>

definition kept :: "http_request \<Rightarrow> bool" where "kept r \<longleftrightarrow> get_header ''Connection'' r \<noteq> ''close''"

definition generator_for :: "http_request \<Rightarrow> ('n, 'g, 'a, 't) http_server \<Rightarrow> 'g option \<times> 'a" where
  "generator_for r s =
    (if rq_method r = GET
     then (case hs_chunked_routes s (rq_path r) of Some h \<Rightarrow> h r (hs_app s) | None \<Rightarrow> (None, hs_app s))
     else (None, hs_app s))"

text \<open>The response to a request, with the state of the application after it.\<close>

definition reply ::
  "('n, 'g, 't) http_env \<Rightarrow> ('g \<Rightarrow> string) \<Rightarrow> http_request \<Rightarrow> ('n, 'g, 'a, 't) http_server \<Rightarrow> string \<times> 'a" where
  "reply E left r s =
    (case generator_for r s of
       (Some g, a) \<Rightarrow> (chunked_header (he_gen E) (kept r) g @ left g, a)
     | (None, a) \<Rightarrow>
         (case http_dispatch E r (s\<lparr>hs_app := a\<rparr>) of
            (rp, s') \<Rightarrow> (rp_serialize (he_order E) (if kept r then rp else rp_set_header ''Connection'' ''close'' rp), hs_app s')))"

text \<open>What a parser that has been fed makes the server answer.\<close>

definition answer ::
  "('n, 'g, 't) http_env \<Rightarrow> ('g \<Rightarrow> string) \<Rightarrow> request_parser \<Rightarrow> ('n, 'g, 'a, 't) http_server \<Rightarrow> string \<times> 'a" where
  "answer E left p s =
    (if hp_state p = Complete then reply E left (hp_request p) s
     else if hp_state p = Error then (rp_serialize (he_order E) bad_request, hs_app s)
     else ([], hs_app s))"

definition generators_ok :: "('g \<Rightarrow> bool) \<Rightarrow> ('n, 'g, 'a, 't) http_server \<Rightarrow> bool" where
  "generators_ok fin s \<longleftrightarrow> (\<forall>path h r a g a'. hs_chunked_routes s path = Some h \<longrightarrow> h r a = (Some g, a') \<longrightarrow> fin g)"

lemma put_conn_app: "put_conn n st t s\<lparr>hs_app := a\<rparr> = put_conn n st t (s\<lparr>hs_app := a\<rparr>)"
  by (simp add: put_conn_def)

lemma http_dispatch_cases: "\<exists>rp a. http_dispatch E r s = (rp, s\<lparr>hs_app := a\<rparr>)"
proof -
  have same: "s\<lparr>hs_app := hs_app s\<rparr> = s" by simp
  show ?thesis
    by (auto simp: http_dispatch_def Let_def split: option.splits prod.splits intro: exI [of _ "hs_app s"])
qed

lemma http_dispatch_put:
  "http_dispatch E r (put_conn n st t s) = (case http_dispatch E r s of (rp, s') \<Rightarrow> (rp, put_conn n st t s'))"
  by (auto simp: http_dispatch_def Let_def find_route_def put_conn_def split: option.splits prod.splits)

lemma put_conn_same: "hs_conns s n = Some st \<Longrightarrow> put_conn n st (hs_net s) s = s"
  by (simp add: put_conn_def fun_upd_idem)

lemma generator_for_put [simp]: "generator_for r (put_conn n st t s) = generator_for r s"
  by (simp add: generator_for_def put_conn_def split: option.splits)

lemma reset_ready: "hp_state (cs_parser (conn_of n (put_parser n (request_reset p) s))) = FirstLine"
  by (simp add: put_parser_def request_reset_def)

lemma dispatch_chunked_none:
  assumes "generator_for r s = (None, a)" and "hs_conns s n = Some st" and "cs_generator st = None"
  shows "(if rq_method r = GET then dispatch_chunked E n r s else Some (False, s)) = Some (False, s\<lparr>hs_app := a\<rparr>)"
proof -
  have "st\<lparr>cs_generator := None\<rparr> = st" using assms(3) by simp
  then have "put_conn n (st\<lparr>cs_generator := None\<rparr>) (hs_net s) (s\<lparr>hs_app := a\<rparr>) = s\<lparr>hs_app := a\<rparr>"
    using put_conn_same [of "s\<lparr>hs_app := a\<rparr>" n st] assms(2) by (simp del: conn_state.simps)
  then show ?thesis using assms
    by (auto simp: dispatch_chunked_def generator_for_def Let_def split: option.splits if_splits)
qed

lemma dispatch_chunked_some:
  assumes "generator_for r s = (Some g, a)" and "hs_conns s n = Some st"
  shows "rq_method r = GET" "dispatch_chunked E n r s = Option.bind
     (send_next_chunk E n (put_conn n (st\<lparr>cs_generator := Some g, cs_header_sent := False\<rparr>) (hs_net s) (s\<lparr>hs_app := a\<rparr>)))
     (\<lambda>(_, s). Some (True, s))"
  using assms by (auto simp: dispatch_chunked_def generator_for_def Let_def put_conn_def split: option.splits if_splits)

context http_stack
begin

lemma send_response_post:
  assumes st: "hs_conns s n = Some st" "cs_generator st = None" and l: "live k (hs_net s)"
  shows "\<exists>st' s'. send_response E n rp s = Some s' \<and>
    writes k n st (log (hs_net s) n @ rp_serialize (he_order E) rp) s st' s' \<and> cs_generator st' = None"
proof -
  define st0 where "st0 = st\<lparr>cs_pending := rp_serialize (he_order E) rp, cs_offset := 0\<rparr>"
  define s0 where "s0 = put_conn n st0 (hs_net s) s"
  have p: "hs_conns s0 n = Some st0" "cs_generator st0 = None" "conn_ok fin st0" "live k (hs_net s0)"
    using st l by (simp_all add: s0_def st0_def conn_ok_def)
  obtain b st' s' where f: "flush_pending E n s0 = Some (b, s')" "writes k n st0 (log (hs_net s0) n @ owed left st0) s0 st' s'"
      "cs_generator st' = None"
    using flush_pending_post [OF p] by blast
  have "send_response E n rp s = Some s'" using st(1) f(1) by (simp add: send_response_def flip: st0_def s0_def)
  moreover have "writes k n st (log (hs_net s) n @ rp_serialize (he_order E) rp) s st' s'"
    using f(2) st(2) by (simp add: wrote_def s0_def st0_def owed_def)
  ultimately show ?thesis using f(3) by blast
qed

text \<open>A call that has served data: the configuration is the same.\<close>

definition served :: "nat \<Rightarrow> 'n \<Rightarrow> string \<times> 'a \<Rightarrow> ('n, 'g, 'a, 't) http_server \<Rightarrow> ('n, 'g, 'a, 't) http_server \<Rightarrow> bool" where
  "served k n ta s s' \<longleftrightarrow> (\<exists>st' t'. s' = put_conn n st' t' (s\<lparr>hs_app := snd ta\<rparr>) \<and> live k t' \<and> only_at n (log (hs_net s)) (log t') \<and>
     conn_ok fin st' \<and> log t' n @ owed left st' = log (hs_net s) n @ fst ta)"

lemma served_parser:
  assumes "writes k n st (log (hs_net s1) n @ text) s1 st' s'" and "s1 = put_conn n st (hs_net s) (s\<lparr>hs_app := a\<rparr>)"
  shows "served k n (text, a) s (put_parser n p s')"
proof -
  obtain t' where t: "s' = put_conn n st' t' (s\<lparr>hs_app := a\<rparr>)" "live k t'" "only_at n (log (hs_net s)) (log t')"
      "log t' n @ owed left st' = log (hs_net s) n @ text" "conn_ok fin st'"
    using assms by (auto simp: wrote_def)
  show ?thesis
    unfolding served_def
    by (rule exI [of _ "st'\<lparr>cs_parser := p\<rparr>"], rule exI [of _ t'])
      (use t in \<open>simp add: put_parser_def owed_def conn_ok_def split: option.splits\<close>)
qed

lemma serve_complete:
  assumes st: "hs_conns s n = Some st" "cs_generator st = None" "cs_pending st = []" "hp_state (cs_parser st) = Complete"
    and l: "live k (hs_net s)" and g: "generators_ok fin s"
  shows "\<exists>b s'. serve_loop E n s = Some (b, s') \<and> served k n (reply E left (hp_request (cs_parser st)) s) s s' \<and>
    hp_state (cs_parser (conn_of n s')) = FirstLine"
proof -
  define r where "r = hp_request (cs_parser st)"
  define st1 where "st1 = st\<lparr>cs_keep_alive := kept r\<rparr>"
  define s1 where "s1 = put_conn n st1 (hs_net s) s"
  have s1: "hs_conns s1 n = Some st1" "cs_generator st1 = None" "hs_net s1 = hs_net s" using st by (simp_all add: s1_def st1_def)
  have conn: "conn_of n s = st" using st(1) by (simp add: conn_of_def)
  have start: "serve_loop E n s = Option.bind (if rq_method r = GET then dispatch_chunked E n r s1 else Some (False, s1)) (\<lambda>(chunked, s).
            if chunked then Some (True, put_parser n (request_reset (cs_parser (conn_of n s))) s)
            else (case http_dispatch E r s of
              (rp, s) \<Rightarrow>
                Option.bind (send_response E n (if \<not> kept r then rp_set_header ''Connection'' ''close'' rp else rp) s) (\<lambda>s.
                  let s = put_parser n (request_reset (cs_parser (conn_of n s))) s
                  in if cs_pending (conn_of n s) \<noteq> [] then Some (False, s)
                     else if \<not> kept r then Option.bind (he_close E n (hs_net s)) (\<lambda>t. Some (False, s\<lparr>hs_net := t\<rparr>))
                     else serve_loop E n s)))"
    by (subst serve_loop.simps) (simp only: Let_def conn st(4) kept_def r_def st1_def s1_def if_False simp_thms)
  obtain gen a where ga: "generator_for r s = (gen, a)" by fastforce
  show ?thesis
  proof (cases gen)
    case (Some g0)
    have gf: "generator_for r s1 = (Some g0, a)" using ga Some by (simp add: s1_def)
    note d = dispatch_chunked_some(1) [OF gf s1(1)] dispatch_chunked_some(2) [OF gf s1(1), of E]
    obtain h where "hs_chunked_routes s (rq_path r) = Some h" "h r (hs_app s) = (Some g0, a)"
      using ga Some by (auto simp: generator_for_def split: option.splits if_splits)
    then have fin0: "fin g0" using g unfolding generators_ok_def by blast
    define st2 where "st2 = st1\<lparr>cs_generator := Some g0, cs_header_sent := False\<rparr>"
    define s2 where "s2 = put_conn n st2 (hs_net s) (s\<lparr>hs_app := a\<rparr>)"
    have s2eq: "put_conn n st2 (hs_net s1) (s1\<lparr>hs_app := a\<rparr>) = s2" by (simp add: s2_def s1_def put_conn_app)
    have p: "hs_conns s2 n = Some st2" "cs_generator st2 = Some g0" "fin g0" "live k (hs_net s2)"
        "cs_header_sent st2 \<Longrightarrow> cs_offset st2 \<le> length (cs_pending st2)"
      using l fin0 by (simp_all add: s2_def st2_def)
    obtain b st' s' where f: "send_next_chunk E n s2 = Some (b, s')"
        "writes k n st2 (log (hs_net s2) n @ owed left (begin_chunked (he_gen E) g0 st2)) s2 st' s'"
      using send_next_chunk_post [OF p] by blast
    have "owed left (begin_chunked (he_gen E) g0 st2) = fst (reply E left r s)"
      using ga Some by (simp add: begin_chunked_def st2_def st1_def owed_def reply_def)
    moreover have "a = snd (reply E left r s)" using ga Some by (simp add: reply_def)
    ultimately have "served k n (reply E left r s) s (put_parser n (request_reset (cs_parser (conn_of n s'))) s')"
      using served_parser [OF f(2) s2_def] by simp
    moreover have "serve_loop E n s = Some (True, put_parser n (request_reset (cs_parser (conn_of n s'))) s')"
      using start d f(1) by (simp flip: st2_def add: s2eq)
    ultimately show ?thesis using reset_ready by (auto simp: r_def)
  next
    case None
    have "generator_for r s1 = (None, a)" using ga None by (simp add: s1_def)
    note d = dispatch_chunked_none [OF this s1(1,2), of E]
    obtain rp a' where rp: "http_dispatch E r (s\<lparr>hs_app := a\<rparr>) = (rp, s\<lparr>hs_app := a'\<rparr>)"
      using http_dispatch_cases [of E r "s\<lparr>hs_app := a\<rparr>"] by auto
    define s2 where "s2 = put_conn n st1 (hs_net s) (s\<lparr>hs_app := a'\<rparr>)"
    have disp: "http_dispatch E r (s1\<lparr>hs_app := a\<rparr>) = (rp, s2)"
      by (simp add: s1_def put_conn_app s2_def http_dispatch_put rp)
    define rp' where "rp' = (if \<not> kept r then rp_set_header ''Connection'' ''close'' rp else rp)"
    have p: "hs_conns s2 n = Some st1" "cs_generator st1 = None" "live k (hs_net s2)" using s1(2) l by (simp_all add: s2_def)
    obtain st' s' where f: "send_response E n rp' s2 = Some s'"
        "writes k n st1 (log (hs_net s2) n @ rp_serialize (he_order E) rp') s2 st' s'" "cs_generator st' = None"
      using send_response_post [OF p, of rp'] by blast
    define s3 where "s3 = put_parser n (request_reset (cs_parser (conn_of n s'))) s'"
    have rep: "reply E left r s = (rp_serialize (he_order E) rp', a')" using ga None rp by (simp add: reply_def rp'_def)
    have sv: "served k n (reply E left r s) s s3" unfolding rep s3_def by (rule served_parser [OF f(2) s2_def])
    have st3: "hp_state (cs_parser (conn_of n s3)) = FirstLine" unfolding s3_def by (rule reset_ready)
    have loop: "serve_loop E n s = (if cs_pending (conn_of n s3) \<noteq> [] then Some (False, s3)
        else if \<not> kept r then Option.bind (he_close E n (hs_net s3)) (\<lambda>t. Some (False, s3\<lparr>hs_net := t\<rparr>))
        else serve_loop E n s3)"
      using start d disp f(1) by (simp add: Let_def flip: rp'_def s3_def)
    have again: "serve_loop E n s3 = Some (False, s3)" using st3 by (subst serve_loop.simps) (simp add: Let_def)
    obtain st3' t3 where sv3: "s3 = put_conn n st3' t3 (s\<lparr>hs_app := a'\<rparr>)" "live k t3" "only_at n (log (hs_net s)) (log t3)" "conn_ok fin st3'"
        "log t3 n @ owed left st3' = log (hs_net s) n @ fst (reply E left r s)"
      using sv by (auto simp: served_def rep)
    obtain t4 where c: "he_close E n t3 = Some t4" "live k t4" "log t4 = log t3" using close_law [OF sv3(2)] by blast
    have "served k n (reply E left r s) s (s3\<lparr>hs_net := t4\<rparr>)"
      using sv3 c unfolding served_def rep by (intro exI [of _ st3'] exI [of _ t4]) simp
    moreover have "hp_state (cs_parser (conn_of n (s3\<lparr>hs_net := t4\<rparr>))) = FirstLine" using st3 by (simp add: conn_of_def)
    ultimately show ?thesis using loop again sv st3 c(1) sv3(1) unfolding r_def [symmetric] by (auto split: if_splits)
  qed
qed

end

text \<open>What the data on an open connection makes it promise.\<close>

definition fed :: "('n, 'g, 't) http_env \<Rightarrow> 'n \<Rightarrow> string \<Rightarrow> ('n, 'g, 'a, 't) http_server \<Rightarrow> request_parser" where
  "fed E n data s = snd (request_feed (he_order E) data (cs_parser (conn_of n s)))"

lemma reply_put [simp]: "reply E left r (put_conn n st t s) = reply E left r s"
  by (simp add: reply_def put_conn_app http_dispatch_put split: option.splits prod.splits)

lemma put_parser_conn: "hs_conns s n = Some st \<Longrightarrow> put_parser n p s = put_conn n (st\<lparr>cs_parser := p\<rparr>) (hs_net s) s"
  by (simp add: put_parser_def conn_of_def)

context http_stack
begin

lemma served_put: "served k n x (put_conn n st (hs_net s) s) s' \<Longrightarrow> served k n x s s'"
  by (simp add: served_def put_conn_app)

lemma serve_requests_post:
  assumes st: "hs_conns s n = Some st" "cs_generator st = None" "cs_pending st = []" "conn_ok fin st"
    and l: "live k (hs_net s)" and g: "generators_ok fin s"
  shows "\<exists>s'. serve_requests E n data s = Some s' \<and> served k n (answer E left (fed E n data s) s) s s'"
proof -
  define p where "p = fed E n data s"
  define st1 where "st1 = st\<lparr>cs_parser := p\<rparr>"
  define s1 where "s1 = put_conn n st1 (hs_net s) s"
  have s1: "put_parser n p s = s1" "hs_conns s1 n = Some st1" "cs_generator st1 = None" "cs_pending st1 = []" "cs_parser st1 = p"
      "live k (hs_net s1)" "generators_ok fin s1" "conn_of n s1 = st1" "hs_net s1 = hs_net s"
    using st l g by (simp_all add: s1_def st1_def put_parser_conn generators_ok_def)
  have start: "serve_requests E n data s = Option.bind (serve_loop E n s1) (\<lambda>(returned, s).
      if returned then Some s
      else if hp_state (cs_parser (conn_of n s)) = Error
      then Option.bind (send_response E n bad_request s) (\<lambda>s. Option.bind (he_close E n (hs_net s)) (\<lambda>t. Some (s\<lparr>hs_net := t\<rparr>)))
      else Some s)"
    using s1(1) by (simp add: serve_requests_def p_def fed_def Let_def)
  show ?thesis
  proof (cases "hp_state p = Complete")
    case True
    then have c: "hp_state (cs_parser st1) = Complete" by (simp add: s1(5))
    obtain b s' where r: "serve_loop E n s1 = Some (b, s')" "served k n (reply E left (hp_request (cs_parser st1)) s1) s1 s'"
        "hp_state (cs_parser (conn_of n s')) = FirstLine"
      using serve_complete [OF s1(2,3,4) c s1(6,7)] by blast
    have "served k n (reply E left (hp_request p) s) s s'"
      using served_put [OF r(2) [unfolded s1_def]] by (simp add: st1_def)
    then show ?thesis using start r(1,3) True by (auto simp: answer_def p_def)
  next
    case False
    have loop: "serve_loop E n s1 = Some (False, s1)"
      using False by (subst serve_loop.simps) (simp add: s1 Let_def)
    show ?thesis
    proof (cases "hp_state p = Error")
      case True
      obtain st' s' where r: "send_response E n bad_request s1 = Some s'"
          "writes k n st1 (log (hs_net s1) n @ rp_serialize (he_order E) bad_request) s1 st' s'"
        using send_response_post [OF s1(2,3,6)] by blast
      obtain t' where t: "s' = put_conn n st' t' s" "live k t'" "only_at n (log (hs_net s)) (log t')" "conn_ok fin st'"
          "log t' n @ owed left st' = log (hs_net s) n @ rp_serialize (he_order E) bad_request"
        using r(2) by (auto simp: wrote_def s1_def)
      obtain t2 where c: "he_close E n t' = Some t2" "live k t2" "log t2 = log t'" using close_law [OF t(2)] by blast
      have "serve_requests E n data s = Some (s'\<lparr>hs_net := t2\<rparr>)"
        using start loop True r(1) c(1) t(1) s1 by simp
      moreover have "s\<lparr>hs_app := hs_app s\<rparr> = s" by simp
      then have "served k n (answer E left p s) s (s'\<lparr>hs_net := t2\<rparr>)"
        unfolding served_def using True t c by (intro exI [of _ st'] exI [of _ t2]) (simp add: answer_def)
      ultimately show ?thesis by (simp add: p_def)
    next
      case err: False
      have "served k n (answer E left p s) s s1"
        unfolding served_def using False err st l
        by (intro exI [of _ st1] exI [of _ "hs_net s"]) (simp add: answer_def s1_def st1_def owed_def conn_ok_def)
      then show ?thesis using start loop err by (simp add: s1 p_def)
    qed
  qed
qed

end

section \<open>Runs\<close>

datatype ('n, 'e) http_event = Accepted 'n | Received 'n string | Closed 'n | Polled "'n list" | Network 'e

definition http_step ::
  "('n, 'g, 't) http_env \<Rightarrow> ('e \<Rightarrow> 't \<Rightarrow> 't option) \<Rightarrow> ('n, 'e) http_event \<Rightarrow> ('n, 'g, 'a, 't) http_server \<Rightarrow> ('n, 'g, 'a, 't) http_server option" where
  "http_step E other ev s =
    (case ev of
       Accepted n \<Rightarrow> Some (http_accept n s)
     | Received n data \<Rightarrow> http_on_receive E n data s
     | Closed n \<Rightarrow> http_on_close E n s
     | Polled ns \<Rightarrow> http_poll E ns s
     | Network e \<Rightarrow> map_option (\<lambda>t. s\<lparr>hs_net := t\<rparr>) (other e (hs_net s)))"

text \<open>Data is looked at when no earlier response is in the way, and then it may complete a request.\<close>

definition listens :: "('n, 'g, 't) http_env \<Rightarrow> 'n \<Rightarrow> ('n, 'g, 'a, 't) http_server \<Rightarrow> bool" where
  "listens E n s \<longleftrightarrow>
    (case hs_conns s n of
       None \<Rightarrow> False
     | Some st \<Rightarrow> cs_generator st = None \<and>
         (cs_pending st = [] \<or> (case flush_pending E n s of Some (emptied, _) \<Rightarrow> emptied | None \<Rightarrow> False)))"

definition answered ::
  "('n, 'g, 't) http_env \<Rightarrow> ('g \<Rightarrow> string) \<Rightarrow> 'n \<Rightarrow> ('n, 'e) http_event \<Rightarrow> ('n, 'g, 'a, 't) http_server \<Rightarrow> string" where
  "answered E left n ev s =
    (case ev of
       Received m data \<Rightarrow> if m = n \<and> listens E n s then fst (answer E left (fed E n data s) s) else []
     | _ \<Rightarrow> [])"

fun http_run ::
  "('n, 'g, 't) http_env \<Rightarrow> ('e \<Rightarrow> 't \<Rightarrow> 't option) \<Rightarrow> ('n, 'e) http_event list \<Rightarrow> ('n, 'g, 'a, 't) http_server \<Rightarrow>
     ('n, 'g, 'a, 't) http_server option" where
  "http_run E other [] s = Some s"
| "http_run E other (ev # evs) s = Option.bind (http_step E other ev s) (http_run E other evs)"

text \<open>The responses to what arrived on the connection \<open>n\<close>, in order.\<close>

fun answers ::
  "('n, 'g, 't) http_env \<Rightarrow> ('e \<Rightarrow> 't \<Rightarrow> 't option) \<Rightarrow> ('g \<Rightarrow> string) \<Rightarrow> 'n \<Rightarrow> ('n, 'e) http_event list \<Rightarrow> ('n, 'g, 'a, 't) http_server \<Rightarrow> string list" where
  "answers E other left n [] s = []"
| "answers E other left n (ev # evs) s =
     answered E left n ev s # (case http_step E other ev s of Some s' \<Rightarrow> answers E other left n evs s' | None \<Rightarrow> [])"

text \<open>What the transport does by itself in the run is allowed.\<close>

fun network_ok ::
  "('n, 'g, 't) http_env \<Rightarrow> ('e \<Rightarrow> 't \<Rightarrow> 't option) \<Rightarrow> ('e \<Rightarrow> 't \<Rightarrow> bool) \<Rightarrow> ('n, 'e) http_event list \<Rightarrow> ('n, 'g, 'a, 't) http_server \<Rightarrow> bool" where
  "network_ok E other allowed [] s \<longleftrightarrow> True"
| "network_ok E other allowed (ev # evs) s \<longleftrightarrow>
     (case ev of Network e \<Rightarrow> allowed e (hs_net s) | _ \<Rightarrow> True) \<and>
     (case http_step E other ev s of Some s' \<Rightarrow> network_ok E other allowed evs s' | None \<Rightarrow> True)"

definition promised :: "('t \<Rightarrow> 'n \<Rightarrow> string) \<Rightarrow> ('g \<Rightarrow> string) \<Rightarrow> 'n \<Rightarrow> ('n, 'g, 'a, 't) http_server \<Rightarrow> string" where
  "promised log left n s = log (hs_net s) n @ (case hs_conns s n of Some st \<Rightarrow> owed left st | None \<Rightarrow> [])"

definition server_ok ::
  "(nat \<Rightarrow> 't \<Rightarrow> bool) \<Rightarrow> ('g \<Rightarrow> bool) \<Rightarrow> nat \<Rightarrow> ('n, 'g, 'a, 't) http_server \<Rightarrow> bool" where
  "server_ok live fin k s \<longleftrightarrow> live k (hs_net s) \<and> generators_ok fin s \<and> (\<forall>n st. hs_conns s n = Some st \<longrightarrow> conn_ok fin st)"

lemma answer_put [simp]: "answer E left p (put_conn n st t s) = answer E left p s"
  by (simp add: answer_def)

lemma http_run_append: "http_run E other (evs @ evs') s = Option.bind (http_run E other evs s) (http_run E other evs')"
  by (induction evs arbitrary: s) (auto split: Option.bind_splits)

context http_stack
begin

abbreviation "ok \<equiv> server_ok live fin"
abbreviation "owes \<equiv> promised log left"

lemma put_ok:
  assumes "ok k s" and "s' = put_conn n st' t' (s\<lparr>hs_app := a\<rparr>)" and "live k t'" and "only_at n (log (hs_net s)) (log t')" and "conn_ok fin st'"
  shows "ok k s'" "owes n s' = log t' n @ owed left st'" "m \<noteq> n \<Longrightarrow> owes m s' = owes m s"
  using assms by (auto simp: server_ok_def promised_def only_at_def generators_ok_def)

lemma writes_ok:
  assumes "ok k s" and "writes k n st text s st' s'"
  shows "ok k s'" "owes n s' = text" "m \<noteq> n \<Longrightarrow> owes m s' = owes m s"
proof -
  obtain t' where t: "s' = put_conn n st' t' s" "live k t'" "only_at n (log (hs_net s)) (log t')" "log t' n @ owed left st' = text" "conn_ok fin st'"
    using assms(2) by (auto simp: wrote_def)
  have "s' = put_conn n st' t' (s\<lparr>hs_app := hs_app s\<rparr>)" using t(1) by simp
  note p = put_ok [OF assms(1) this t(2,3,5)]
  show "ok k s'" "owes n s' = text" "m \<noteq> n \<Longrightarrow> owes m s' = owes m s" using p t(4) by simp_all
qed

lemma served_ok:
  assumes "ok k s" and "served k n ta s s'"
  shows "ok k s'" "owes n s' = log (hs_net s) n @ fst ta" "m \<noteq> n \<Longrightarrow> owes m s' = owes m s"
proof -
  obtain st' t' where t: "s' = put_conn n st' t' (s\<lparr>hs_app := snd ta\<rparr>)" "live k t'" "only_at n (log (hs_net s)) (log t')" "conn_ok fin st'"
      "log t' n @ owed left st' = log (hs_net s) n @ fst ta"
    using assms(2) by (auto simp: served_def)
  note p = put_ok [OF assms(1) t(1-4)]
  show "ok k s'" "owes n s' = log (hs_net s) n @ fst ta" "m \<noteq> n \<Longrightarrow> owes m s' = owes m s" using p t(5) by simp_all
qed

lemma conn_facts:
  assumes "ok k s" and "hs_conns s n = Some st"
  shows "live k (hs_net s)" "generators_ok fin s" "conn_ok fin st" "owes n s = log (hs_net s) n @ owed left st"
  using assms by (simp_all add: server_ok_def promised_def)

text \<open>Sending on: nothing is added.\<close>

lemma continue_post:
  assumes "ok k s" and "hs_conns s n = Some st" and "cs_generator st = Some g"
  shows "\<exists>b s'. send_next_chunk E n s = Some (b, s') \<and> ok k s' \<and> (\<forall>m. owes m s' = owes m s)"
proof -
  note c = conn_facts [OF assms(1,2)]
  have g: "fin g" "cs_header_sent st" "cs_offset st \<le> length (cs_pending st)" using c(3) assms(3) by (simp_all add: conn_ok_def)
  obtain b st' s' where r: "send_next_chunk E n s = Some (b, s')"
      "writes k n st (log (hs_net s) n @ owed left (begin_chunked (he_gen E) g st)) s st' s'"
    using send_next_chunk_post [OF assms(2,3) g(1) c(1) g(3)] by blast
  have "begin_chunked (he_gen E) g st = st" using g(2) by (simp add: begin_chunked_def)
  then show ?thesis using r writes_ok [OF assms(1) r(2)] c(4) by metis
qed

lemma flush_post:
  assumes "ok k s" and "hs_conns s n = Some st" and "cs_generator st = None"
  shows "\<exists>b st' t' s'. flush_pending E n s = Some (b, s') \<and> ok k s' \<and> (\<forall>m. owes m s' = owes m s) \<and> s' = put_conn n st' t' s \<and>
    cs_generator st' = None \<and> cs_parser st' = cs_parser st \<and> (b \<longleftrightarrow> cs_pending st' = [])"
proof -
  note c = conn_facts [OF assms(1,2)]
  obtain b st' s' where r: "flush_pending E n s = Some (b, s')" "writes k n st (log (hs_net s) n @ owed left st) s st' s'"
      "cs_generator st' = None" "b \<longleftrightarrow> cs_pending st' = []"
    using flush_pending_post [OF assms(2,3) c(3,1)] by blast
  have "\<forall>m. owes m s' = owes m s" using writes_ok(2,3) [OF assms(1) r(2)] c(4) by metis
  moreover obtain t' where "s' = put_conn n st' t' s" "cs_parser st' = cs_parser st" using r(2) by (auto simp: wrote_def)
  ultimately show ?thesis using r(1,3,4) writes_ok(1) [OF assms(1) r(2)] by blast
qed

lemma serve_post:
  assumes "ok k s" and "hs_conns s n = Some st" and "cs_generator st = None" and "cs_pending st = []"
  shows "\<exists>s'. serve_requests E n data s = Some s' \<and> ok k s' \<and>
    (\<forall>m. owes m s' = owes m s @ (if m = n then fst (answer E left (fed E n data s) s) else []))"
proof -
  note c = conn_facts [OF assms(1,2)]
  obtain s' where r: "serve_requests E n data s = Some s'" "served k n (answer E left (fed E n data s) s) s s'"
    using serve_requests_post [OF assms(2-4) c(3,1,2)] by blast
  have "owed left st = []" using assms(3,4) by (simp add: owed_def)
  then have "owes m s' = owes m s @ (if m = n then fst (answer E left (fed E n data s) s) else [])" for m
    using served_ok(2,3) [OF assms(1) r(2)] c(4) by simp
  then show ?thesis using r(1) served_ok(1) [OF assms(1) r(2)] by blast
qed

lemma on_receive_post:
  assumes "ok k s"
  shows "\<exists>s'. http_on_receive E n data s = Some s' \<and> ok k s' \<and> (\<forall>m. owes m s' = owes m s @ answered E left m (Received n data) s)"
proof (cases "hs_conns s n")
  case None
  then show ?thesis using assms by (simp add: http_on_receive_def answered_def listens_def)
next
  case (Some st)
  show ?thesis
  proof (cases "cs_generator st")
    case gen: (Some g)
    have "\<not> listens E n s" using Some gen by (simp add: listens_def)
    then have quiet: "answered E left m (Received n data) s = []" for m by (auto simp: answered_def)
    show ?thesis using continue_post [OF assms Some gen] Some gen quiet by (auto simp: http_on_receive_def)
  next
    case None
    show ?thesis
    proof (cases "cs_pending st = []")
      case True
      then have "listens E n s" using Some None by (simp add: listens_def)
      then show ?thesis using serve_post [OF assms Some None True, of data] Some None True
        by (auto simp: http_on_receive_def answered_def)
    next
      case False
      obtain b st' t' s1 where f: "flush_pending E n s = Some (b, s1)" "ok k s1" "\<forall>m. owes m s1 = owes m s" "s1 = put_conn n st' t' s"
          "cs_generator st' = None" "cs_parser st' = cs_parser st" "b \<longleftrightarrow> cs_pending st' = []"
        using flush_post [OF assms Some None] by blast
      have listens: "listens E n s = b" using Some None False f(1) by (simp add: listens_def)
      have start: "http_on_receive E n data s = (if cs_pending st' \<noteq> [] then Some s1 else serve_requests E n data s1)"
        using Some None False f(1,4) by (simp add: http_on_receive_def)
      show ?thesis
      proof (cases b)
        case False
        then show ?thesis using start f(2,3,7) listens by (auto simp: answered_def)
      next
        case True
        have s1: "hs_conns s1 n = Some st'" "cs_pending st' = []" using f(4,7) True by simp_all
        have "fed E n data s1 = fed E n data s" using f(4,6) Some by (simp add: fed_def conn_of_def)
        then have "answer E left (fed E n data s1) s1 = answer E left (fed E n data s) s" using f(4) by simp
        then show ?thesis using serve_post [OF f(2) s1(1) f(5) s1(2), of data] start s1(2) f(3) listens True
          by (auto simp: answered_def)
      qed
    qed
  qed
qed

lemma poll_post: "ok k s \<Longrightarrow> \<exists>s'. http_poll E ns s = Some s' \<and> ok k s' \<and> (\<forall>m. owes m s' = owes m s)"
proof (induction ns arbitrary: s)
  case (Cons n ns)
  have "\<exists>s1. (if cs_generator (conn_of n s) \<noteq> None then map_option snd (send_next_chunk E n s)
           else if cs_pending (conn_of n s) \<noteq> [] then map_option snd (flush_pending E n s)
           else Some s) = Some s1 \<and> ok k s1 \<and> (\<forall>m. owes m s1 = owes m s)"
  proof (cases "hs_conns s n")
    case None
    then show ?thesis using Cons.prems by (simp add: conn_of_def conn_state_new_def)
  next
    case (Some st)
    show ?thesis
    proof (cases "cs_generator st")
      case gen: (Some g)
      then show ?thesis using continue_post [OF Cons.prems Some gen] Some by (auto simp: conn_of_def)
    next
      case None
      then show ?thesis using flush_post [OF Cons.prems Some None] Some Cons.prems by (auto simp: conn_of_def)
    qed
  qed
  then obtain s1 where s1: "(if cs_generator (conn_of n s) \<noteq> None then map_option snd (send_next_chunk E n s)
           else if cs_pending (conn_of n s) \<noteq> [] then map_option snd (flush_pending E n s)
           else Some s) = Some s1" "ok k s1" "\<forall>m. owes m s1 = owes m s"
    by blast
  then show ?case using Cons.IH [OF s1(2)] by simp
qed simp

lemma step_post:
  assumes "ok k s" and "k < budget" and "case ev of Network e \<Rightarrow> allowed e (hs_net s) | _ \<Rightarrow> True"
    and "ev \<noteq> Accepted n" and "ev \<noteq> Closed n"
  shows "\<exists>k' s'. http_step E other ev s = Some s' \<and> ok k' s' \<and> k' \<le> Suc k \<and> owes n s' = owes n s @ answered E left n ev s"
proof (cases ev)
  case (Accepted m)
  have "conn_ok fin conn_state_new" by (simp add: conn_ok_def conn_state_new_def)
  then have "ok k (http_accept m s)" "owes n (http_accept m s) = owes n s"
    using assms(1,4) Accepted by (auto simp: server_ok_def http_accept_def promised_def generators_ok_def)
  then show ?thesis using Accepted by (intro exI [of _ k]) (simp add: http_step_def answered_def)
next
  case (Received m data)
  then show ?thesis using on_receive_post [OF assms(1), of m data]
    by (intro exI [of _ k]) (auto simp: http_step_def)
next
  case (Closed m)
  have l: "live k (hs_net s)" using assms(1) by (simp add: server_ok_def)
  obtain t where t: "he_close E m (hs_net s) = Some t" "live k t" "log t = log (hs_net s)" using close_law [OF l] by blast
  let ?s = "s\<lparr>hs_conns := (hs_conns s)(m := None), hs_net := t\<rparr>"
  have "ok k ?s" "owes n ?s = owes n s"
    using assms(1,5) t Closed by (auto simp: server_ok_def promised_def generators_ok_def)
  then show ?thesis using Closed t(1)
    by (intro exI [of _ k] exI [of _ ?s]) (simp add: http_step_def http_on_close_def answered_def)
next
  case (Polled ns)
  then show ?thesis using poll_post [OF assms(1), of ns]
    by (intro exI [of _ k]) (auto simp: http_step_def answered_def)
next
  case (Network e)
  have l: "live k (hs_net s)" using assms(1) by (simp add: server_ok_def)
  obtain t where t: "other e (hs_net s) = Some t" "live (Suc k) t" "log t = log (hs_net s)"
    using other_law [OF l assms(2)] assms(3) Network by auto
  have "ok (Suc k) (s\<lparr>hs_net := t\<rparr>)" "owes n (s\<lparr>hs_net := t\<rparr>) = owes n s"
    using assms(1) t by (auto simp: server_ok_def promised_def generators_ok_def)
  then show ?thesis using Network t(1) by (intro exI [of _ "Suc k"] exI [of _ "s\<lparr>hs_net := t\<rparr>"]) (simp add: http_step_def answered_def)
qed

lemma run_post:
  "ok k s \<Longrightarrow> k + length evs \<le> budget \<Longrightarrow> network_ok E other allowed evs s \<Longrightarrow> Accepted n \<notin> set evs \<Longrightarrow> Closed n \<notin> set evs \<Longrightarrow>
    \<exists>k' s'. http_run E other evs s = Some s' \<and> ok k' s' \<and> k' \<le> k + length evs \<and>
      owes n s' = owes n s @ concat (answers E other left n evs s)"
proof (induction evs arbitrary: k s)
  case Nil
  then show ?case by auto
next
  case (Cons ev evs)
  have k: "k < budget" using Cons.prems(2) by simp
  obtain k1 s1 where s1: "http_step E other ev s = Some s1" "ok k1 s1" "k1 \<le> Suc k" "owes n s1 = owes n s @ answered E left n ev s"
    using step_post [OF Cons.prems(1) k, of ev n] Cons.prems(3-5) by auto
  have "k1 + length evs \<le> budget" "network_ok E other allowed evs s1" using s1(1,3) Cons.prems(2,3) by auto
  then obtain k2 s2 where "http_run E other evs s1 = Some s2" "ok k2 s2" "k2 \<le> k1 + length evs"
      "owes n s2 = owes n s1 @ concat (answers E other left n evs s1)"
    using Cons.IH [OF s1(2)] Cons.prems(4,5) by auto
  then show ?case using s1 by (intro exI [of _ k2] exI [of _ s2]) simp
qed

end

section \<open>The random generator\<close>

lemma rdg_fill_length: "length (fst (rdg_fill n st)) = n"
proof (induction n st rule: rdg_fill.induct)
  case (1 n st)
  show ?case
  proof (cases "n = 0")
    case True
    then show ?thesis by (simp add: rdg_fill.simps)
  next
    case False
    then have "length (fst (rdg_fill (n - 4) (xorshift st))) = n - 4" using 1 by simp
    then show ?thesis using False
      by (subst rdg_fill.simps) (auto simp: Let_def word_chars_def split: prod.splits)
  qed
qed

lemma rdg_next_cases:
  assumes "rdg_next_chunk k g = (c, g')" and "rdg_has_more g"
  shows "length c = min k (unat (rg_total g) - unat (rg_sent g))" "rg_total g' = rg_total g" "unat (rg_sent g') = unat (rg_sent g) + length c"
proof -
  define n where "n = min k (unat (rg_total g - rg_sent g))"
  have lt: "rg_sent g < rg_total g" using assms(2) by (simp add: rdg_has_more_def)
  then have sub: "unat (rg_total g - rg_sent g) = unat (rg_total g) - unat (rg_sent g)" by (intro unat_sub_small) simp
  obtain c0 st where f: "rdg_fill n (rg_state g) = (c0, st)" by fastforce
  have r: "c = c0" "g' = g\<lparr>rg_state := st, rg_sent := rg_sent g + of_nat n\<rparr>"
    using assms(1) lt [unfolded not_le [symmetric]] f by (auto simp: rdg_next_chunk_def Let_def simp flip: n_def split: if_splits)
  have c: "length c = n" using rdg_fill_length [of n "rg_state g"] f r(1) by simp
  have "unat (rg_total g) < 2 ^ 64" by (rule order_less_le_trans [OF unsigned_less]) simp
  then have "unat (rg_sent g) + n < 2 ^ 64" using lt by (simp add: n_def sub word_less_nat_alt)
  then have "unat (rg_sent g + of_nat n) = unat (rg_sent g) + n" by (simp add: unat_word_ariths unat_of_nat)
  then show "length c = min k (unat (rg_total g) - unat (rg_sent g))" "rg_total g' = rg_total g" "unat (rg_sent g') = unat (rg_sent g) + length c"
    using c r(2) by (simp_all add: n_def sub)
qed

text \<open>The text of a generator, chunk after chunk as the server asks for them.\<close>

function rdg_left :: "rdg \<Rightarrow> string" where
  "rdg_left g = (if rdg_has_more g then (case rdg_next_chunk 32768 g of (c, g') \<Rightarrow> c @ rdg_left g') else [])"
  by pat_completeness auto
termination
proof (relation "measure (\<lambda>g. unat (rg_total g) - unat (rg_sent g))", goal_cases)
  case (2 g c g')
  then have m: "rdg_has_more g" and n: "rdg_next_chunk 32768 g = (c, g')" by simp_all
  have "unat (rg_sent g) < unat (rg_total g)" using m by (simp add: rdg_has_more_def word_less_nat_alt)
  then show ?case using rdg_next_cases [OF n m] by simp
qed simp

declare rdg_left.simps [simp del]

interpretation rdg: chunked_source rdg_ops "\<lambda>_. True" rdg_left
proof (unfold_locales, goal_cases)
  case (1 g c g')
  then have m: "rdg_has_more g" and n: "rdg_next_chunk 32768 g = (c, g')" by (simp_all add: rdg_ops_def)
  have "unat (rg_sent g) < unat (rg_total g)" using m by (simp add: rdg_has_more_def word_less_nat_alt)
  then have "c \<noteq> []" using rdg_next_cases(1) [OF n m] by auto
  moreover have "rdg_left g = c @ rdg_left g'" using m n by (subst rdg_left.simps) simp
  ultimately show ?case by simp
next
  case (2 g)
  then show ?case by (subst rdg_left.simps) (simp add: rdg_ops_def)
qed

text \<open>A download is as long as its header says.\<close>

lemma rdg_left_length: "unat (rg_sent g) \<le> unat (rg_total g) \<Longrightarrow> length (rdg_left g) = unat (rg_total g) - unat (rg_sent g)"
proof (induction g rule: rdg_left.induct)
  case (1 g)
  show ?case
  proof (cases "rdg_has_more g")
    case False
    then show ?thesis using 1(2) by (subst rdg_left.simps) (simp add: rdg_has_more_def word_less_nat_alt)
  next
    case True
    obtain c g' where n: "rdg_next_chunk 32768 g = (c, g')" by fastforce
    note c = rdg_next_cases [OF n True]
    have "length (rdg_left g') = unat (rg_total g') - unat (rg_sent g')" using 1(1) [OF True n [symmetric]] c 1(2) by simp
    moreover have "rdg_left g = c @ rdg_left g'" using True n by (subst rdg_left.simps) simp
    ultimately show ?thesis using c 1(2) by simp
  qed
qed

end
