(* ===== verification/Http_Tcp.thy ===== *)
theory Http_Tcp
  imports Http_Serving Tcp_Stream
begin

text \<open>
  The HTTP server over TCP: the streams of \<^verbatim>\<open>src/transport/tcp_layer.cpp\<close> (class \<open>TCPStreamConnection\<close>) are a
  transport in the sense of the server, and so the responses are what the peers acknowledge.
\<close>

section \<open>TCP as a transport\<close>

definition to_bytes :: "string \<Rightarrow> bytes" where
  "to_bytes = map of_char"

text \<open>The connections, each with the text the application was told is accepted.\<close>

record ('n, 'c, 'a) tcp_net =
  tn_conn :: "'n \<Rightarrow> ('c, 'a) conn"
  tn_log :: "'n \<Rightarrow> string"

definition set_conn :: "'n \<Rightarrow> ('c, 'a) conn \<Rightarrow> ('n, 'c, 'a) tcp_net \<Rightarrow> ('n, 'c, 'a) tcp_net" where
  "set_conn n c net = net\<lparr>tn_conn := (tn_conn net)(n := c)\<rparr>"

definition stream_send :: "('c, 'a) params \<Rightarrow> 'n \<Rightarrow> string \<Rightarrow> ('n, 'c, 'a) tcp_net \<Rightarrow> (int \<times> ('n, 'c, 'a) tcp_net) option" where
  "stream_send P n text net = do {
     (k, c) \<leftarrow> tcp_send P (to_bytes text) (tn_conn net n);
     Some (k, (set_conn n c net)\<lparr>tn_log := (tn_log net)(n := tn_log net n @ take (nat k) text)\<rparr>)
   }"

definition stream_close :: "('c, 'a) params \<Rightarrow> 'n \<Rightarrow> ('n, 'c, 'a) tcp_net \<Rightarrow> ('n, 'c, 'a) tcp_net option" where
  "stream_close P n net = do {
     (deleted, c) \<leftarrow> tcp_close P (tn_conn net n);
     if deleted then None else Some (set_conn n c net)
   }"

text \<open>What happens to a connection without the application: acknowledgements, none ahead of what was sent, and timers.\<close>

definition net_event :: "('c, 'a) params \<Rightarrow> 'n \<times> snd_event \<Rightarrow> ('n, 'c, 'a) tcp_net \<Rightarrow> ('n, 'c, 'a) tcp_net option" where
  "net_event P e net = map_option (\<lambda>(_, c). set_conn (fst e) c net) (snd_step P (snd e) (tn_conn net (fst e)))"

definition net_allowed :: "'n \<times> snd_event \<Rightarrow> ('n, 'c, 'a) tcp_net \<Rightarrow> bool" where
  "net_allowed e net \<longleftrightarrow>
    (case snd e of
       SndAck ack _ \<Rightarrow> seq_le ack (t_snd_nxt (fst (tn_conn net (fst e))))
     | SndTick _ \<Rightarrow> True
     | _ \<Rightarrow> False)"

section \<open>The contract\<close>

text \<open>
  After \<open>k\<close> events of its own, a connection that can still send has at most \<open>2 k\<close> sequence numbers without data in
  its queue; the end of sending adds two.
\<close>

definition numbers :: "nat \<Rightarrow> 'c tcb \<Rightarrow> nat" where
  "numbers k t = 2 * k + (if can_send t then 0 else 2)"

definition on_wire :: "u32 \<Rightarrow> string \<Rightarrow> 'c tcb \<Rightarrow> bool" where
  "on_wire una text t \<longleftrightarrow> (\<exists>acked. to_bytes text = sym_bytes acked @ snd_bytes t \<and> t_snd_una t = at una (length acked))"

definition net_live :: "('c \<Rightarrow> bool) \<Rightarrow> ('n \<Rightarrow> u32) \<Rightarrow> nat \<Rightarrow> ('n, 'c, 'a) tcp_net \<Rightarrow> bool" where
  "net_live good una k net \<longleftrightarrow> k \<le> 268435456 \<and>
     (\<forall>n. run_inv good (numbers k (fst (tn_conn net n))) (fst (tn_conn net n)) \<and> on_wire (una n) (tn_log net n) (fst (tn_conn net n)))"

lemma numbers_small: "k \<le> 268435456 \<Longrightarrow> Suc (numbers k t) < 1073741824"
  by (simp add: numbers_def)

lemma to_bytes_append [simp]: "to_bytes (a @ b) = to_bytes a @ to_bytes b"
  by (simp add: to_bytes_def)

lemma to_bytes_take: "to_bytes (take n a) = take n (to_bytes a)"
  by (simp add: to_bytes_def take_map)

lemma on_wire_more:
  assumes "on_wire una text t" and "snd_bytes t @ to_bytes extra = sym_bytes acked @ snd_bytes t'" and "t_snd_una t' = at (t_snd_una t) (length acked)"
  shows "on_wire una (text @ extra) t'"
proof -
  obtain a where a: "to_bytes text = sym_bytes a @ snd_bytes t" "t_snd_una t = at una (length a)"
    using assms(1) by (auto simp: on_wire_def)
  have "to_bytes (text @ extra) = sym_bytes a @ snd_bytes t @ to_bytes extra" using a(1) by simp
  also have "\<dots> = sym_bytes (a @ acked) @ snd_bytes t'" using assms(2) by simp
  finally have "to_bytes (text @ extra) = sym_bytes (a @ acked) @ snd_bytes t'" .
  moreover have "t_snd_una t' = at una (length (a @ acked))" using assms(3) a(2) by (simp add: at_at)
  ultimately show ?thesis unfolding on_wire_def by blast
qed

text \<open>A call that ends sending may have added two numbers; any other has added none.\<close>

lemma call_run_inv:
  assumes post: "call_post (Suc (Suc (numbers k t))) t e t' e'" and inv: "run_inv good (numbers k t) t"
    and same: "t_state t' = t_state t \<longrightarrow> sender_inv (numbers k t) t'"
  shows "run_inv good (numbers k t') t'"
proof -
  have r: "run_inv good (Suc (Suc (numbers k t))) t'" by (rule call_post_run_inv [OF post inv])
  show ?thesis
  proof (cases "t_state t' = t_state t")
    case True
    then show ?thesis using same r by (simp add: numbers_def can_send_def run_inv_def)
  next
    case False
    have "close_step (t_state t) (t_state t')" using post by (simp add: call_post_def app_frame_def)
    then have "can_send t" "\<not> can_send t'" using False by (auto simp: close_step_def can_send_def)
    then show ?thesis using r by (simp add: numbers_def)
  qed
qed

lemma set_conn_live:
  assumes "net_live good una k net" and "run_inv good (numbers k (fst c)) (fst c)" and "on_wire (una n) (tn_log net n @ extra) (fst c)"
  shows "net_live good una k ((set_conn n c net)\<lparr>tn_log := (tn_log net)(n := tn_log net n @ extra)\<rparr>)"
  using assms by (simp add: net_live_def set_conn_def)

lemma run_inv_mono: "run_inv good k t \<Longrightarrow> k \<le> k' \<Longrightarrow> k' \<le> 1073741824 \<Longrightarrow> run_inv good k' t"
  using sender_inv_mono [of k t k'] by (simp add: run_inv_def)

lemma stream_send_law:
  assumes "net_live good una k net"
  shows "\<exists>c net'. stream_send P n text net = Some (c, net') \<and> net_live good una k net' \<and> c \<le> int (length text) \<and>
    tn_log net' = (tn_log net)(n := tn_log net n @ take (nat c) text)"
proof -
  obtain t e where c: "tn_conn net n = (t, e)" by fastforce
  have inv: "run_inv good (numbers k t) t" "on_wire (una n) (tn_log net n) t" and k: "Suc (numbers k t) < 1073741824"
    using assms c numbers_small [of k t] by (auto simp: net_live_def dest!: spec [of _ n])
  have s: "sender_inv (numbers k t) t" using inv(1) by (simp add: run_inv_def)
  obtain m t' e' where r: "tcp_send P (to_bytes text) (t, e) = Some (m, t', e')" "call_post (Suc (numbers k t)) t e t' e'"
      "m \<le> int (length (to_bytes text))" "snd_bytes t' = snd_bytes t @ take (nat m) (to_bytes text)"
      "t_state t' = t_state t \<longrightarrow> sender_inv (numbers k t) t'"
    using tcp_send_post [OF s, of P "to_bytes text" e] k by auto
  have "call_post (Suc (Suc (numbers k t))) t e t' e'" by (rule call_post_mono [OF r(2)]) (use k in simp_all)
  then have i: "run_inv good (numbers k t') t'" by (rule call_run_inv [OF _ inv(1) r(5)])
  have "t_snd_una t' = t_snd_una t" using r(2) by (simp add: call_post_def app_frame_def)
  then have "on_wire (una n) (tn_log net n @ take (nat m) text) t'"
    using r(4) by (intro on_wire_more [OF inv(2), where acked = "[]"]) (simp_all add: to_bytes_take)
  then have "net_live good una k ((set_conn n (t', e') net)\<lparr>tn_log := (tn_log net)(n := tn_log net n @ take (nat m) text)\<rparr>)"
    using i by (intro set_conn_live [OF assms]) simp_all
  then show ?thesis using r(1,3) c by (auto simp: stream_send_def to_bytes_def)
qed

lemma stream_close_law:
  assumes "net_live good una k net"
  shows "\<exists>net'. stream_close P n net = Some net' \<and> net_live good una k net' \<and> tn_log net' = tn_log net"
proof -
  obtain t e where c: "tn_conn net n = (t, e)" by fastforce
  have inv: "run_inv good (numbers k t) t" "on_wire (una n) (tn_log net n) t" and k: "Suc (numbers k t) < 1073741824"
    using assms c numbers_small [of k t] by (auto simp: net_live_def dest!: spec [of _ n])
  have s: "sender_inv (numbers k t) t" using inv(1) by (simp add: run_inv_def)
  obtain d t' e' where r: "tcp_close P (t, e) = Some (d, t', e')" "call_post (Suc (Suc (numbers k t))) t e t' e'"
      "snd_bytes t' = snd_bytes t" "d \<longleftrightarrow> t_state t = LISTEN \<or> t_state t = SYN_SENT" "t_state t' = t_state t \<longrightarrow> sender_inv (numbers k t) t'"
    using tcp_close_post [OF s k, of P e] by auto
  have d: "\<not> d" using r(4) inv(1) by (simp add: run_inv_def live_state_def)
  have i: "run_inv good (numbers k t') t'" by (rule call_run_inv [OF r(2) inv(1) r(5)])
  have "t_snd_una t' = t_snd_una t" using r(2) by (simp add: call_post_def app_frame_def)
  then have w: "on_wire (una n) (tn_log net n @ []) t'"
    using r(3) by (intro on_wire_more [OF inv(2), where acked = "[]"]) (simp_all add: to_bytes_def)
  have "net_live good una k ((set_conn n (t', e') net)\<lparr>tn_log := (tn_log net)(n := tn_log net n @ [])\<rparr>)"
    using i w by (intro set_conn_live [OF assms]) simp_all
  then have "net_live good una k (set_conn n (t', e') net)" by (simp add: set_conn_def net_live_def)
  then show ?thesis using r(1) c d by (simp add: stream_close_def set_conn_def)
qed

context congestion_controller
begin

lemma net_event_law:
  assumes live: "net_live good una k net" and k: "k < 268435456" and e: "net_allowed e net" and P: "p_cc P = ops"
  shows "\<exists>net'. net_event P e net = Some net' \<and> net_live good una (Suc k) net' \<and> tn_log net' = tn_log net"
proof -
  obtain n ev where ev: "e = (n, ev)" by fastforce
  obtain t en where c: "tn_conn net n = (t, en)" by fastforce
  have inv: "run_inv good (numbers k t) t" "on_wire (una n) (tn_log net n) t" and small: "Suc (numbers k t) < 1073741824"
    using live c numbers_small [of k t] by (auto simp: net_live_def dest!: spec [of _ n])
  have ack: "\<forall>a w. ev = SndAck a w \<longrightarrow> seq_le a (t_snd_nxt t)" using e ev c by (auto simp: net_allowed_def)
  obtain bs t' e' acked where r: "snd_step P ev (t, en) = Some (bs, t', e')" "run_inv good (Suc (Suc (numbers k t))) t'"
      "snd_bytes t @ bs = sym_bytes acked @ snd_bytes t'" "t_snd_una t' = at (t_snd_una t) (length acked)" "can_send t' \<longrightarrow> can_send t"
    using snd_step_post [OF inv(1) small P ack, of en] by blast
  have "bs = []" using r(1) e ev by (auto simp: snd_step_def net_allowed_def split: if_splits snd_event.splits)
  then have "on_wire (una n) (tn_log net n @ []) t'" using r(3,4) by (intro on_wire_more [OF inv(2)]) (simp_all add: to_bytes_def)
  then have w: "on_wire (una n) (tn_log net n) t'" by simp
  have "Suc (Suc (numbers k t)) \<le> numbers (Suc k) t'" using r(5) by (auto simp: numbers_def)
  then have i: "run_inv good (numbers (Suc k) t') t'"
    using run_inv_mono [OF r(2)] k by (simp add: numbers_def)
  have "run_inv good (numbers (Suc k) u) u" if "run_inv good (numbers k u) u" for u
    using run_inv_mono [OF that, of "numbers (Suc k) u"] k by (simp add: numbers_def)
  then have "net_live good una (Suc k) (set_conn n (t', e') net)"
    using live k i w by (simp add: net_live_def set_conn_def)
  then show ?thesis using r(1) c ev by (simp add: net_event_def set_conn_def)
qed

end

section \<open>The server on TCP\<close>

definition http_tcp_env ::
  "('c, 'a) params \<Rightarrow> 'g generator_ops \<Rightarrow> (headers \<Rightarrow> headers) \<Rightarrow> (string \<Rightarrow> string option) \<Rightarrow> ('n, 'g, ('n, 'c, 'a) tcp_net) http_env" where
  "http_tcp_env P go ord files = \<lparr>he_order = ord, he_send = stream_send P, he_close = stream_close P, he_file = files, he_gen = go\<rparr>"

lemma tcp_byte_stream:
  assumes "congestion_controller good (p_cc P)"
  shows "byte_stream (stream_send P) (stream_close P) (net_event P) net_allowed tn_log (net_live good una) 268435456"
  by unfold_locales
    (simp_all add: stream_send_law stream_close_law congestion_controller.net_event_law [OF assms _ _ _ refl])

lemma http_tcp_stack:
  assumes "congestion_controller good (p_cc P)" and "chunked_source go fin left"
  shows "http_stack (http_tcp_env P go ord files) (net_event P) net_allowed tn_log (net_live good una) 268435456 fin left"
  using tcp_byte_stream [OF assms(1)] assms(2) by (simp add: http_stack_def http_tcp_env_def)

definition over_reno :: "(reno, 'a) params \<Rightarrow> (reno, 'a) params" where
  "over_reno P = P\<lparr>p_cc := reno_ops\<rparr>"

lemma over_reno_controller: "congestion_controller reno_wf (p_cc (over_reno P))"
  using reno.congestion_controller_axioms by (simp add: over_reno_def)

interpretation reno_streams: byte_stream "stream_send (over_reno P)" "stream_close (over_reno P)" "net_event (over_reno P)"
    net_allowed tn_log "net_live reno_wf una" 268435456 for P una
  by (rule tcp_byte_stream [OF over_reno_controller])

interpretation downloads: http_stack "http_tcp_env (over_reno P) rdg_ops ord files" "net_event (over_reno P)" net_allowed tn_log "net_live reno_wf una"
    268435456 "\<lambda>_. True" rdg_left for P una ord files
  by (rule http_tcp_stack [OF over_reno_controller rdg.chunked_source_axioms])

section \<open>Properties\<close>

text \<open>What the server still holds for a connection.\<close>

definition held :: "('g \<Rightarrow> string) \<Rightarrow> 'n \<Rightarrow> ('n, 'g, 'a, 't) http_server \<Rightarrow> string" where
  "held left n s = (case hs_conns s n of Some st \<Rightarrow> owed left st | None \<Rightarrow> [])"

definition fresh_net :: "('c \<Rightarrow> bool) \<Rightarrow> ('n, 'c, 'a) tcp_net \<Rightarrow> bool" where
  "fresh_net good net \<longleftrightarrow> (\<forall>n. fresh_sender good (fst (tn_conn net n)) \<and> tn_log net n = [])"

lemma fresh_net_live:
  assumes "fresh_net good net"
  shows "net_live good (\<lambda>n. t_snd_una (fst (tn_conn net n))) 0 net"
proof -
  have "run_inv good (numbers 0 t) t \<and> on_wire (t_snd_una t) [] t" if "fresh_sender good t" for t
    using fresh_sender_inv [OF that] run_inv_mono [of good 0 t "numbers 0 t"]
    by (auto simp: numbers_def on_wire_def to_bytes_def intro!: exI [of _ "[]"])
  then show ?thesis using assms by (simp add: net_live_def fresh_net_def)
qed


text \<open>A download of five bytes, of which the first is acknowledged while it is sent.\<close>

definition demo_server :: "(nat, rdg, unit, (nat, reno, unit) tcp_net) http_server" where
  "demo_server = get_chunked ''/random'' (\<lambda>_ a. (Some (rdg_new 5), a))
     (http_server_new () \<lparr>tn_conn = \<lambda>_. (demo_conn, demo_env), tn_log = \<lambda>_. []\<rparr>)"


end
