(* ===== verification/Http_Static.thy ===== *)
theory Http_Static
  imports Http_Serving "HOL-Library.Sublist"
begin

text \<open>
  What a client can learn of the file system through the static files of \<^verbatim>\<open>src/app/http_server.cpp\<close>: a run of the
  server is the same for two file systems that agree on the served directory.
\<close>

section \<open>Paths inside a directory\<close>

text \<open>A path below a directory, by its text: no component leads upwards, and none starts at the root.\<close>

definition below :: "string \<Rightarrow> string \<Rightarrow> bool" where
  "below dir path \<longleftrightarrow> (\<exists>rel. path = dir @ ''/'' @ rel \<and> \<not> sublist ''..'' rel \<and> \<not> prefix ''/'' rel)"

lemma find_sub_sublist: "find_sub pat s = None \<longleftrightarrow> \<not> sublist pat s"
proof (induction s)
  case (Cons c s)
  have "take (length pat) (c # s) = pat \<longleftrightarrow> prefix pat (c # s)"
    by (metis append_eq_conv_conj append_take_drop_id prefix_def)
  then show ?case using Cons by (simp add: sublist_Cons_right)
qed auto

lemma static_page_below:
  assumes "\<And>path. below dir path \<Longrightarrow> files path = files' path"
  shows "static_page files pre dir r = static_page files' pre dir r"
proof -
  have "files (dir @ ''/'' @ rel) = files' (dir @ ''/'' @ rel)" if "\<not> (find_sub ''..'' rel \<noteq> None \<or> (rel \<noteq> [] \<and> hd rel = CHR ''/''))" for rel
    using that by (intro assms) (auto simp: below_def find_sub_sublist prefix_def)
  then show ?thesis by (simp add: static_page_def Let_def)
qed

section \<open>Two file systems\<close>

definition with_files :: "(string \<Rightarrow> string option) \<Rightarrow> ('n, 'g, 't) http_env \<Rightarrow> ('n, 'g, 't) http_env" where
  "with_files files E = E\<lparr>he_file := files\<rparr>"

lemma with_files_simps [simp]:
  "he_send (with_files files E) = he_send E" "he_close (with_files files E) = he_close E" "he_gen (with_files files E) = he_gen E"
  "he_order (with_files files E) = he_order E" "he_file (with_files files E) = files"
  "with_files files (with_files files' E) = with_files files E" "with_files (he_file E) E = E"
  by (simp_all add: with_files_def)

lemma send_all_files: "send_all (with_files files E) n bs i t = send_all E n bs i t"
proof (induction "length bs - i" arbitrary: i t rule: less_induct)
  case less
  have "send_all (with_files files E) n bs (i + nat c) t' = send_all E n bs (i + nat c) t'" if "i < length bs" "\<not> c \<le> 0" for c t'
    using that by (intro less) simp
  then show ?case by (subst (1 2) send_all.simps) (auto split: Option.bind_splits)
qed

lemma close_unless_kept_files: "close_unless_kept (with_files files E) n keep t = close_unless_kept E n keep t"
  by (simp add: close_unless_kept_def)

lemma flush_pending_files: "flush_pending (with_files files E) n s = flush_pending E n s"
  unfolding flush_pending_def send_all_files close_unless_kept_files ..

lemma send_response_files: "send_response (with_files files E) n rp s = send_response E n rp s"
  unfolding send_response_def flush_pending_files with_files_simps ..

lemma chunk_loop_files_some:
  assumes "chunk_loop E n g t = Some r"
  shows "chunk_loop (with_files files E) n g t = Some r"
proof (rule chunk_loop.raw_induct [where P = "\<lambda>E n g t r. chunk_loop (with_files files E) n g t = Some r"
      and E = E and n = n and g = g and t = t and y = r, OF _ assms], goal_cases)
  case (1 loop E n g t r)
  obtain c g1 where c: "go_next (he_gen E) 32768 g = (c, g1)" by fastforce
  note unfold = chunk_loop.simps [of "with_files files E" n g t, unfolded send_all_files with_files_simps c prod.case]
  show ?case
  proof (cases "go_more (he_gen E) g \<and> c \<noteq> []")
    case False
    then show ?thesis using 1(2) c unfold by auto
  next
    case True
    then obtain b i t1 where b: "send_all E n c 0 t = Some (b, i, t1)"
        "(if \<not> b then Some (Some (drop i c), g1, t1) else loop E n g1 t1) = Some r"
      using 1(2) c by (cases "send_all E n c 0 t") auto
    have "(if \<not> b then Some (Some (drop i c), g1, t1) else chunk_loop (with_files files E) n g1 t1) = Some r"
      using b(2) 1(1) [of E n g1 t1 r] by (cases b) simp_all
    then show ?thesis using True unfold b(1) by simp
  qed
qed

lemma chunk_loop_files: "chunk_loop (with_files files E) n g t = chunk_loop E n g t"
proof (cases "chunk_loop E n g t")
  case None
  then show ?thesis using chunk_loop_files_some [of "with_files files E" n g t _ "he_file E"]
    by (cases "chunk_loop (with_files files E) n g t") auto
qed (simp add: chunk_loop_files_some)

lemma send_next_chunk_files: "send_next_chunk (with_files files E) n s = send_next_chunk E n s"
  unfolding send_next_chunk_def send_all_files chunk_loop_files close_unless_kept_files with_files_simps ..

lemma dispatch_chunked_files: "dispatch_chunked (with_files files E) n r s = dispatch_chunked E n r s"
  unfolding dispatch_chunked_def send_next_chunk_files ..

lemmas files_simps = flush_pending_files send_response_files send_next_chunk_files dispatch_chunked_files

section \<open>The directory stays\<close>

lemma static_dir_put [simp]: "hs_static_dir (put_conn n st t s) = hs_static_dir s" "hs_static_dir (put_parser n p s) = hs_static_dir s"
  by (simp_all add: put_conn_def put_parser_def)

lemma static_dir_flush: "flush_pending E n s = Some (b, s') \<Longrightarrow> hs_static_dir s' = hs_static_dir s"
  by (auto simp: flush_pending_def split: option.splits Option.bind_splits if_splits)

lemma static_dir_response: "send_response E n rp s = Some s' \<Longrightarrow> hs_static_dir s' = hs_static_dir s"
  by (auto simp: send_response_def split: option.splits Option.bind_splits dest: static_dir_flush)

lemma static_dir_chunk: "send_next_chunk E n s = Some (b, s') \<Longrightarrow> hs_static_dir s' = hs_static_dir s"
  by (auto simp: send_next_chunk_def Let_def split: option.splits Option.bind_splits if_splits)

lemma static_dir_chunked: "dispatch_chunked E n r s = Some (b, s') \<Longrightarrow> hs_static_dir s' = hs_static_dir s"
  by (auto simp: dispatch_chunked_def Let_def split: option.splits Option.bind_splits if_splits prod.splits dest: static_dir_chunk)

lemma static_dir_dispatch: "hs_static_dir (snd (http_dispatch E r s)) = hs_static_dir s"
  by (auto simp: http_dispatch_def Let_def split: option.splits prod.splits)

section \<open>Runs\<close>

definition agree_below :: "string \<Rightarrow> (string \<Rightarrow> string option) \<Rightarrow> (string \<Rightarrow> string option) \<Rightarrow> bool" where
  "agree_below dir files files' \<longleftrightarrow> (\<forall>path. below dir path \<longrightarrow> files path = files' path)"

lemma http_dispatch_files:
  assumes "agree_below (hs_static_dir s) (he_file E) files"
  shows "http_dispatch (with_files files E) r s = http_dispatch E r s"
proof -
  have "static_page files pre (hs_static_dir s) r = static_page (he_file E) pre (hs_static_dir s) r" for pre
    using assms by (intro static_page_below) (simp add: agree_below_def)
  then show ?thesis by (simp add: http_dispatch_def cong: option.case_cong)
qed

text \<open>The rest of a round of the loop, after the streamed routes; \<open>f\<close> is the next round.\<close>

definition serve_rest ::
  "('n, 'g, 't) http_env \<Rightarrow> 'n \<Rightarrow> http_request \<Rightarrow> bool \<Rightarrow> (('n, 'g, 'a, 't) http_server \<Rightarrow> (bool \<times> ('n, 'g, 'a, 't) http_server) option) \<Rightarrow>
     bool \<times> ('n, 'g, 'a, 't) http_server \<Rightarrow> (bool \<times> ('n, 'g, 'a, 't) http_server) option" where
  "serve_rest E n q keep f bs = (case bs of (chunked, s) \<Rightarrow>
     if chunked then Some (True, put_parser n (request_reset (cs_parser (conn_of n s))) s)
     else (case http_dispatch E q s of
       (rp, s) \<Rightarrow>
         Option.bind (send_response E n (if \<not> keep then rp_set_header ''Connection'' ''close'' rp else rp) s) (\<lambda>s.
           let s = put_parser n (request_reset (cs_parser (conn_of n s))) s
           in if cs_pending (conn_of n s) \<noteq> [] then Some (False, s)
              else if \<not> keep then Option.bind (he_close E n (hs_net s)) (\<lambda>t. Some (False, s\<lparr>hs_net := t\<rparr>))
              else f s)))"

lemma serve_rest_files:
  assumes r: "serve_rest E n q keep f (b, s) = Some r" and agree: "agree_below (hs_static_dir s) (he_file E) files"
    and f: "\<And>s' r. f s' = Some r \<Longrightarrow> hs_static_dir s' = hs_static_dir s \<Longrightarrow> f' s' = Some r \<and> hs_static_dir (snd r) = hs_static_dir s"
  shows "serve_rest (with_files files E) n q keep f' (b, s) = Some r \<and> hs_static_dir (snd r) = hs_static_dir s"
proof (cases b)
  case True
  then show ?thesis using r by (auto simp: serve_rest_def)
next
  case False
  obtain rp s1 where d: "http_dispatch E q s = (rp, s1)" by fastforce
  have d1: "hs_static_dir s1 = hs_static_dir s" using static_dir_dispatch [of E q s] d by simp
  let ?rp = "if \<not> keep then rp_set_header ''Connection'' ''close'' rp else rp"
  obtain s2 where s2: "send_response E n ?rp s1 = Some s2"
    using r False d by (auto simp: serve_rest_def split: Option.bind_splits)
  define s3 where "s3 = put_parser n (request_reset (cs_parser (conn_of n s2))) s2"
  have d3: "hs_static_dir s3 = hs_static_dir s" using static_dir_response [OF s2] d1 by (simp add: s3_def)
  define next_round where "next_round f0 = (if cs_pending (conn_of n s3) \<noteq> [] then Some (False, s3)
      else if \<not> keep then Option.bind (he_close E n (hs_net s3)) (\<lambda>t. Some (False, s3\<lparr>hs_net := t\<rparr>)) else f0 s3)"
    for f0 :: "_ \<Rightarrow> (bool \<times> _) option"
  have "serve_rest E n q keep f (b, s) = next_round f"
    using False d s2 by (simp add: serve_rest_def next_round_def s3_def Let_def)
  moreover have "serve_rest (with_files files E) n q keep f' (b, s) = next_round f'"
    using False d s2 http_dispatch_files [OF agree, of q] by (simp add: serve_rest_def next_round_def s3_def Let_def files_simps)
  moreover have "next_round f' = Some r \<and> hs_static_dir (snd r) = hs_static_dir s" if "next_round f = Some r"
    using that f [OF _ d3] d3 by (auto simp: next_round_def split: if_splits Option.bind_splits)
  ultimately show ?thesis using r by simp
qed

lemma serve_loop_step:
  "serve_loop E n s = (let st = conn_of n s; q = hp_request (cs_parser st); keep = (get_header ''Connection'' q \<noteq> ''close'');
       s1 = put_conn n (st\<lparr>cs_keep_alive := keep\<rparr>) (hs_net s) s
     in if hp_state (cs_parser st) \<noteq> Complete then Some (False, s)
        else Option.bind (if rq_method q = GET then dispatch_chunked E n q s1 else Some (False, s1))
          (serve_rest E n q keep (serve_loop E n)))"
  by (subst serve_loop.simps) (simp add: Let_def serve_rest_def [abs_def])

lemma serve_loop_files_some:
  assumes "serve_loop E n s = Some r" and "agree_below (hs_static_dir s) (he_file E) files"
  shows "serve_loop (with_files files E) n s = Some r \<and> hs_static_dir (snd r) = hs_static_dir s"
proof -
  let ?P = "\<lambda>E n s r. agree_below (hs_static_dir s) (he_file E) files \<longrightarrow>
      serve_loop (with_files files E) n s = Some r \<and> hs_static_dir (snd r) = hs_static_dir s"
  have "?P E n s r"
  proof (rule serve_loop.raw_induct [where P = ?P and E = E and n = n and s = s and y = r, OF _ assms(1)], goal_cases)
    case (1 loop E n s r)
    show ?case
    proof
      assume agree: "agree_below (hs_static_dir s) (he_file E) files"
      define st where "st = conn_of n s"
      define q where "q = hp_request (cs_parser st)"
      define keep where "keep = (get_header ''Connection'' q \<noteq> ''close'')"
      define s1 where "s1 = put_conn n (st\<lparr>cs_keep_alive := keep\<rparr>) (hs_net s) s"
      let ?X = "if rq_method q = GET then dispatch_chunked E n q s1 else Some (False, s1)"
      have l: "(if hp_state (cs_parser st) \<noteq> Complete then Some (False, s) else Option.bind ?X (serve_rest E n q keep (loop E n))) = Some r"
        using 1(2) unfolding Let_def st_def q_def keep_def s1_def serve_rest_def [abs_def] .
      have l': "serve_loop (with_files files E) n s = (if hp_state (cs_parser st) \<noteq> Complete then Some (False, s)
          else Option.bind ?X (serve_rest (with_files files E) n q keep (serve_loop (with_files files E) n)))"
        by (subst serve_loop_step) (simp add: Let_def st_def q_def keep_def s1_def files_simps)
      show "serve_loop (with_files files E) n s = Some r \<and> hs_static_dir (snd r) = hs_static_dir s"
      proof (cases "hp_state (cs_parser st) = Complete")
        case False
        then have "r = (False, s)" using l by simp
        then show ?thesis using False l' by simp
      next
        case True
        obtain b s2 where s2: "?X = Some (b, s2)" "serve_rest E n q keep (loop E n) (b, s2) = Some r"
          using l True by (cases ?X) auto
        have d2: "hs_static_dir s2 = hs_static_dir s" using s2(1) by (auto simp: s1_def split: if_splits dest: static_dir_chunked)
        have "serve_rest (with_files files E) n q keep (serve_loop (with_files files E) n) (b, s2) = Some r \<and>
            hs_static_dir (snd r) = hs_static_dir s2"
        proof (rule serve_rest_files [OF s2(2)])
          show "agree_below (hs_static_dir s2) (he_file E) files" using agree d2 by simp
          show "serve_loop (with_files files E) n s' = Some r \<and> hs_static_dir (snd r) = hs_static_dir s2"
            if "loop E n s' = Some r" "hs_static_dir s' = hs_static_dir s2" for s' r
            using 1(1) [OF that(1)] agree that(2) d2 by simp
        qed
        then show ?thesis using l' True s2(1) d2 by simp
      qed
    qed
  qed
  then show ?thesis using assms(2) by simp
qed

lemma serve_loop_files:
  assumes "agree_below (hs_static_dir s) (he_file E) files"
  shows "serve_loop (with_files files E) n s = serve_loop E n s"
proof (cases "serve_loop E n s")
  case None
  have "agree_below (hs_static_dir s) (he_file (with_files files E)) (he_file E)" using assms by (simp add: agree_below_def)
  then show ?thesis using None serve_loop_files_some [of "with_files files E" n s _ "he_file E"]
    by (cases "serve_loop (with_files files E) n s") auto
next
  case (Some r)
  then show ?thesis using serve_loop_files_some [OF Some assms] by simp
qed

lemma static_dir_loop: "serve_loop E n s = Some (b, s') \<Longrightarrow> hs_static_dir s' = hs_static_dir s"
  using serve_loop_files_some [of E n s "(b, s')" "he_file E"] by (simp add: agree_below_def)

lemma static_dir_serve: "serve_requests E n data s = Some s' \<Longrightarrow> hs_static_dir s' = hs_static_dir s"
  by (auto simp: serve_requests_def Let_def bind_eq_Some_conv split: if_splits dest!: static_dir_loop static_dir_response)

lemma serve_requests_files:
  assumes "agree_below (hs_static_dir s) (he_file E) files"
  shows "serve_requests (with_files files E) n data s = serve_requests E n data s"
proof -
  have "agree_below (hs_static_dir (put_parser n p s)) (he_file E) files" for p using assms by simp
  from serve_loop_files [OF this]
  show ?thesis unfolding serve_requests_def Let_def send_response_files with_files_simps by simp
qed

text \<open>One call of the server, and the runs of \<open>Http_Serving\<close>.\<close>

lemma http_on_receive_files:
  assumes "agree_below (hs_static_dir s) (he_file E) files"
  shows "http_on_receive (with_files files E) n data s = http_on_receive E n data s"
proof -
  have "serve_requests (with_files files E) n data s1 = serve_requests E n data s1" if "flush_pending E n s = Some (b, s1)" for b s1
    using static_dir_flush [OF that] assms by (intro serve_requests_files) simp
  then show ?thesis using serve_requests_files [OF assms]
    by (auto simp: http_on_receive_def files_simps split: option.splits Option.bind_splits)
qed

lemma http_poll_files: "http_poll (with_files files E) ns s = http_poll E ns s"
proof (induction ns arbitrary: s)
  case (Cons n ns)
  show ?case unfolding http_poll.simps files_simps Cons.IH ..
qed simp

lemma static_dir_poll: "http_poll E ns s = Some s' \<Longrightarrow> hs_static_dir s' = hs_static_dir s"
proof (induction ns arbitrary: s)
  case (Cons n ns)
  then show ?case by (auto split: Option.bind_splits if_splits dest!: static_dir_chunk static_dir_flush)
qed simp

lemma static_dir_step: "http_step E other ev s = Some s' \<Longrightarrow> hs_static_dir s' = hs_static_dir s"
  by (auto simp: http_step_def http_accept_def http_on_receive_def http_on_close_def
      split: http_event.splits option.splits Option.bind_splits if_splits
      dest!: static_dir_poll static_dir_serve static_dir_flush static_dir_chunk)

lemma http_step_files:
  assumes "agree_below (hs_static_dir s) (he_file E) files"
  shows "http_step (with_files files E) other ev s = http_step E other ev s"
  using assms by (simp add: http_step_def http_on_receive_files http_poll_files http_on_close_def split: http_event.split)

section \<open>Properties\<close>

text \<open>C33. Clients read nothing outside the served directory.  In any run of the server, over any transport and with
  whatever bytes its clients send, what it does is the same for any two file systems that agree below the directory:
  no path with \<open>..\<close> in it, and none that starts again at the root, has an influence on what is sent.\<close>

theorem static_confined:
  assumes "\<forall>path. below (hs_static_dir s) path \<longrightarrow> files path = files' path"
  shows "http_run (with_files files E) other evs s = http_run (with_files files' E) other evs s"
proof -
  have "agree_below (hs_static_dir s) (he_file (with_files files E)) files'"
    using assms by (simp add: agree_below_def)
  then show ?thesis
  proof (induction evs arbitrary: s)
    case (Cons ev evs)
    have "http_run (with_files files E) other evs s1 = http_run (with_files files' E) other evs s1"
      if "http_step (with_files files E) other ev s = Some s1" for s1
      using Cons.IH [of s1] Cons.prems static_dir_step [OF that] by simp
    moreover have "http_step (with_files files' E) other ev s = http_step (with_files files E) other ev s"
      using http_step_files [OF Cons.prems] by simp
    ultimately show ?case by (auto split: Option.bind_splits)
  qed simp
qed

theorem static_confined_witness:
  "let E = \<lparr>he_order = (\<lambda>h. h), he_send = (\<lambda>(n :: nat) bs log. Some (int (length bs), log @ [bs])), he_close = (\<lambda>_ log. Some log),
         he_file = (\<lambda>_. None), he_gen = rdg_ops\<rparr>;
       s = serve_static ''/'' ''www'' (http_server_new () []);
       evs = [Accepted 1, Received 1 (''GET /../key HTTP/1.1'' @ CRLF @ CRLF)]
     in http_run (with_files (\<lambda>path. if path = ''www/../key'' then Some ''secret'' else None) E) (\<lambda>(_ :: unit). Some) evs s =
        http_run (with_files (\<lambda>_. None) E) (\<lambda>_. Some) evs s"
proof -
  have "\<not> below ''www'' ''www/../key''" by (auto simp: below_def sublist_Cons_right)
  then have "\<forall>path. below (hs_static_dir (serve_static ''/'' ''www'' (http_server_new () []))) path \<longrightarrow>
      (if path = ''www/../key'' then Some ''secret'' else None) = None"
    by (auto simp: serve_static_def)
  then show ?thesis unfolding Let_def by (rule static_confined)
qed

end
