(* ===== verification/Dns_Client.thy ===== *)
theory Dns_Client
  imports Udp_Layer "HOL-Library.AList" "HOL-Library.Multiset"
begin

text \<open>
  The DNS client (\<^verbatim>\<open>include/neustack/app/dns_client.hpp\<close>, \<^verbatim>\<open>src/app/dns_client.cpp\<close>) over the UDP layer:
  names on the wire, queries, the parser of responses, and the table of pending queries with its
  retransmission.  A \<open>std::string\<close> is its bytes.  The order in which \<open>unordered_map\<close> is iterated is a parameter,
  of which only that it visits every entry once is used.  A result handed to a callback is recorded; a
  callback that calls the client again from inside is not modelled (the iterator held over the call may
  then be invalid).
\<close>

section \<open>Messages\<close>

datatype dns_data = Ipv4_Data u32 | Name_Data bytes | Raw_Data bytes

record dns_record =
  rec_name :: bytes
  rec_type :: u16
  rec_cls :: u16
  rec_ttl :: u32
  rec_data :: dns_data

record dns_response =
  rsp_id :: u16
  rsp_rcode :: u8
  rsp_answers :: "dns_record list"

definition DNS_A :: u16 where "DNS_A = 1"
definition DNS_NS :: u16 where "DNS_NS = 2"
definition DNS_CNAME :: u16 where "DNS_CNAME = 5"

fun as_ipv4 :: "dns_record \<Rightarrow> u32 option" where
  "as_ipv4 r = (case rec_data r of Ipv4_Data ip \<Rightarrow> Some ip | _ \<Rightarrow> None)"

fun as_name :: "dns_record \<Rightarrow> bytes option" where
  "as_name r = (case rec_data r of Name_Data name \<Rightarrow> Some name | _ \<Rightarrow> None)"

definition get_ip :: "dns_response \<Rightarrow> u32 option" where
  "get_ip r = (case List.find (\<lambda>ans. rec_type ans = DNS_A) (rsp_answers r) of Some ans \<Rightarrow> as_ipv4 ans | None \<Rightarrow> None)"

text \<open>The loop of \<open>encode_name\<close> on the rest of the name; 46 is the dot.\<close>

function encode_labels :: "bytes \<Rightarrow> bytes" where
  "encode_labels name =
    (if name = [] then []
     else
       let label = takeWhile (\<lambda>c. c \<noteq> 46) name;
           len = (if length label > 63 then 63 else length label)
       in of_nat len # label @ encode_labels (drop (length label + 1) name))"
  by pat_completeness auto
termination by (relation "measure length") auto

declare encode_labels.simps [simp del]

definition encode_name :: "bytes \<Rightarrow> bytes" where
  "encode_name name = encode_labels name @ [0]"

definition build_query :: "u16 \<Rightarrow> bytes \<Rightarrow> u16 \<Rightarrow> bytes" where
  "build_query qid hostname type =
     st16 (htons qid) @ st16 (htons 0x0100) @ st16 (htons 1) @ [0, 0, 0, 0, 0, 0] @
     encode_name hostname @ st16 (htons type) @ st16 (htons 1)"

text \<open>The loop of \<open>decode_name\<close>; \<open>ret\<close> is \<open>original_offset\<close> once \<open>jumped\<close>.\<close>

definition name_end :: "nat option \<Rightarrow> nat \<Rightarrow> nat" where
  "name_end ret offset = (case ret of Some original \<Rightarrow> original | None \<Rightarrow> offset)"

function decode_loop ::
  "bytes \<Rightarrow> nat \<Rightarrow> nat \<Rightarrow> nat option \<Rightarrow> bool \<Rightarrow> bytes \<Rightarrow> (bytes \<times> nat) option" where
  "decode_loop data offset jumps ret first result =
    (if offset \<ge> length data then Some (result, name_end ret offset)
     else
       (case rd8 data offset of
          None \<Rightarrow> None
        | Some label_len \<Rightarrow>
            if label_len AND 0xC0 = 0xC0 then
              (if offset + 1 \<ge> length data then Some (result, name_end ret offset)
               else
                 (case rd8 data (offset + 1) of
                    None \<Rightarrow> None
                  | Some low \<Rightarrow>
                      let ptr = unat (mk16 (label_len AND 0x3F) low);
                          ret = (case ret of None \<Rightarrow> Some (offset + 2) | Some original \<Rightarrow> Some original)
                      in if jumps + 1 > 10 then Some (result, name_end ret ptr)
                         else decode_loop data ptr (jumps + 1) ret first result))
            else if label_len = 0 then Some (result, name_end ret (offset + 1))
            else if offset + 1 + unat label_len > length data then Some (result, name_end ret (offset + 1))
            else
              (case rd_slice data (offset + 1) (unat label_len) of
                 None \<Rightarrow> None
               | Some label \<Rightarrow>
                   decode_loop data (offset + 1 + unat label_len) jumps ret False
                     (result @ (if first then [] else [46]) @ label))))"
  by pat_completeness auto
termination
  by (relation "measures [\<lambda>(_, _, jumps, _). 11 - jumps, \<lambda>(data, offset, _). length data - offset]") auto

declare decode_loop.simps [simp del]

definition decode_name :: "bytes \<Rightarrow> nat \<Rightarrow> (bytes \<times> nat) option" where
  "decode_name data offset = decode_loop data offset 0 None True []"

fun skip_questions :: "bytes \<Rightarrow> nat \<Rightarrow> nat \<Rightarrow> nat option" where
  "skip_questions data 0 offset = Some offset"
| "skip_questions data (Suc n) offset =
    (if offset < length data
     then (case decode_name data offset of None \<Rightarrow> None | Some (_, o') \<Rightarrow> skip_questions data n (o' + 4))
     else Some offset)"

definition record_data :: "bytes \<Rightarrow> u16 \<Rightarrow> u16 \<Rightarrow> nat \<Rightarrow> dns_data option" where
  "record_data data type rdlength offset =
    (if type = DNS_A \<and> rdlength = 4 then map_option Ipv4_Data (rd_be32 data offset)
     else if type = DNS_CNAME \<or> type = DNS_NS then map_option (\<lambda>(name, _). Name_Data name) (decode_name data offset)
     else map_option Raw_Data (rd_slice data offset (unat rdlength)))"

fun parse_answers :: "bytes \<Rightarrow> nat \<Rightarrow> nat \<Rightarrow> dns_record list option" where
  "parse_answers data 0 offset = Some []"
| "parse_answers data (Suc n) offset =
    (if offset \<ge> length data then Some []
     else do {
       (name, offset) \<leftarrow> decode_name data offset;
       if offset + 10 > length data then Some []
       else do {
         type \<leftarrow> rd_be16 data offset;
         cls \<leftarrow> rd_be16 data (offset + 2);
         ttl \<leftarrow> rd_be32 data (offset + 4);
         rdlength \<leftarrow> rd_be16 data (offset + 8);
         (if offset + 10 + unat rdlength > length data then Some []
          else do {
            rdata \<leftarrow> record_data data type rdlength (offset + 10);
            rest \<leftarrow> parse_answers data n (offset + 10 + unat rdlength);
            Some (\<lparr>rec_name = name, rec_type = type, rec_cls = cls, rec_ttl = ttl, rec_data = rdata\<rparr> # rest)
          })
       }
     })"

definition parse_response :: "bytes \<Rightarrow> dns_response option option" where
  "parse_response data =
    (if length data < 12 then Some None
     else
       let flags = ntohs (ld16 data 2) in
       if flags AND 0x8000 = 0 then Some None
       else do {
         offset \<leftarrow> skip_questions data (unat (ntohs (ld16 data 4))) 12;
         answers \<leftarrow> parse_answers data (unat (ntohs (ld16 data 6))) offset;
         Some (Some \<lparr>rsp_id = ntohs (ld16 data 0), rsp_rcode = ucast (flags AND 0x0f), rsp_answers = answers\<rparr>)
       })"

section \<open>The client\<close>

text \<open>Times are in nanoseconds.\<close>

record pending_query =
  pq_id :: u16
  pq_hostname :: bytes
  pq_type :: u16
  pq_callback :: nat
  pq_send_time :: int
  pq_retries :: int

type_synonym pending_table = "(u16 \<times> pending_query) list"

record dns_net = udp_net +
  dns_server :: u32
  dns_local_port :: u16
  dns_next_id :: u16
  dns_pending :: pending_table
  dns_results :: "(nat \<times> dns_response option) list"

definition dns_new :: "u32 \<Rightarrow> udp_net \<Rightarrow> dns_net" where
  "dns_new server s = udp_net.extend s
     \<lparr>dns_server = server, dns_local_port = 0, dns_next_id = 1, dns_pending = [], dns_results = []\<rparr>"

definition dns_set_server :: "u32 \<Rightarrow> dns_net \<Rightarrow> dns_net" where
  "dns_set_server ip s = s\<lparr>dns_server := ip\<rparr>"

text \<open>\<open>rnd\<close> is drawn from the random device, \<open>cb\<close> the number of the client's UDP callback.\<close>

definition dns_init :: "u32 \<Rightarrow> nat \<Rightarrow> dns_net \<Rightarrow> bool \<times> dns_net" where
  "dns_init rnd cb s =
    (let s = s\<lparr>dns_local_port := of_nat (10000 + unat rnd mod 50000)\<rparr>
     in (True, snd (udp_bind (dns_local_port s) (Some cb) s)))"

definition send_query :: "pending_query \<Rightarrow> dns_net \<Rightarrow> dns_net" where
  "send_query q s =
     snd (udp_sendto (dns_server s) 53 (dns_local_port s) (build_query (pq_id q) (pq_hostname q) (pq_type q)) s)"

definition resolve_async :: "bytes \<Rightarrow> nat \<Rightarrow> u16 \<Rightarrow> int \<Rightarrow> dns_net \<Rightarrow> dns_net" where
  "resolve_async hostname callback type now s =
    (let qid = dns_next_id s;
         q = \<lparr>pq_id = qid, pq_hostname = hostname, pq_type = type, pq_callback = callback, pq_send_time = now, pq_retries = 0\<rparr>
     in send_query q (s\<lparr>dns_next_id := dns_next_id s + 1, dns_pending := AList.update qid q (dns_pending s)\<rparr>))"

definition dns_on_receive :: "u32 \<Rightarrow> u16 \<Rightarrow> bytes \<Rightarrow> dns_net \<Rightarrow> dns_net option" where
  "dns_on_receive src_ip src_port data s =
    (if src_ip \<noteq> dns_server s \<or> src_port \<noteq> 53 then Some s
     else do {
       response \<leftarrow> parse_response data;
       (case response of
          None \<Rightarrow> Some s
        | Some r \<Rightarrow>
            (case map_of (dns_pending s) (rsp_id r) of
               None \<Rightarrow> Some s
             | Some q \<Rightarrow> Some (s\<lparr>dns_results := dns_results s @ [(pq_callback q, Some r)],
                                 dns_pending := AList.delete (rsp_id r) (dns_pending s)\<rparr>)))
     })"

definition tick_query :: "int \<Rightarrow> dns_net \<Rightarrow> u16 \<times> pending_query \<Rightarrow> dns_net" where
  "tick_query now s = (\<lambda>(qid, q).
    if now - pq_send_time q > 2000000000 then
      if pq_retries q \<ge> 3 then
        s\<lparr>dns_results := dns_results s @ [(pq_callback q, None)], dns_pending := AList.delete qid (dns_pending s)\<rparr>
      else
        let q = q\<lparr>pq_retries := pq_retries q + 1, pq_send_time := now\<rparr>
        in send_query q (s\<lparr>dns_pending := AList.update qid q (dns_pending s)\<rparr>)
    else s)"

definition dns_on_timer :: "(pending_table \<Rightarrow> pending_table) \<Rightarrow> int \<Rightarrow> dns_net \<Rightarrow> dns_net" where
  "dns_on_timer order now s = foldl (tick_query now) s (order (dns_pending s))"

section \<open>Names on the wire\<close>

text \<open>A host name as its labels.\<close>

fun dotted :: "bytes list \<Rightarrow> bytes" where
  "dotted [] = []"
| "dotted [l] = l"
| "dotted (l # ls) = l @ 46 # dotted ls"

definition label_ok :: "bytes \<Rightarrow> bool" where
  "label_ok l \<longleftrightarrow> l \<noteq> [] \<and> length l \<le> 63 \<and> 46 \<notin> set l"

fun wire_labels :: "bytes list \<Rightarrow> bytes" where
  "wire_labels [] = []"
| "wire_labels (l # ls) = of_nat (length l) # l @ wire_labels ls"

lemma encode_dotted: "\<forall>l\<in>set ls. label_ok l \<Longrightarrow> encode_labels (dotted ls) = wire_labels ls"
proof (induction ls rule: dotted.induct)
  case 1
  then show ?case by (simp add: encode_labels.simps)
next
  case (2 l)
  then have l: "takeWhile (\<lambda>c. c \<noteq> 46) l = l" "l \<noteq> []" "length l \<le> 63"
    unfolding label_ok_def by (auto intro: takeWhile_eq_all_conv [THEN iffD2])
  show ?case unfolding dotted.simps wire_labels.simps encode_labels.simps [of l] Let_def l(1)
    using l(2,3) by (simp add: encode_labels.simps [of "[]"])
next
  case (3 l l' ls)
  have "takeWhile (\<lambda>c. c \<noteq> 46) (l @ 46 # dotted (l' # ls)) = l"
    using 3 by (subst takeWhile_append2) (auto simp: label_ok_def)
  then show ?case
    using 3 by (simp add: encode_labels.simps [of "l @ 46 # dotted (l' # ls)"] Let_def label_ok_def)
qed

lemma length_wire: "ls \<noteq> [] \<Longrightarrow> length (wire_labels ls) = length (dotted ls) + 1"
  by (induction ls rule: dotted.induct) auto

lemma no_pointer: "unat (w :: u8) \<le> 63 \<Longrightarrow> w AND 0xC0 \<noteq> 0xC0"
proof
  assume "unat w \<le> 63" and "w AND 0xC0 = 0xC0"
  moreover have "w AND 0xC0 \<le> w" by (rule word_and_le2)
  ultimately show False by (simp add: word_le_nat_alt)
qed

lemma decode_wire:
  assumes "\<forall>l\<in>set ls. label_ok l" and "data = pre @ wire_labels ls @ 0 # post"
  shows "decode_loop data (length pre) jumps None first result =
    Some (result @ (if first \<or> ls = [] then [] else [46]) @ dotted ls, length pre + length (wire_labels ls) + 1)"
  using assms
proof (induction ls arbitrary: pre first result)
  case Nil
  then show ?case by (simp add: decode_loop.simps [of _ "length pre"] rd8_def name_end_def)
next
  case (Cons l ls)
  have l: "l \<noteq> []" "length l \<le> 63" using Cons.prems(1) by (simp_all add: label_ok_def)
  let ?n = "of_nat (length l) :: u8"
  have n: "unat ?n = length l" using l(2) by (intro unat_of_nat_small) simp
  have tag: "?n AND 0xC0 \<noteq> 0xC0" "?n \<noteq> 0"
    using no_pointer [of ?n] l n by (auto simp: unat_eq_0 [symmetric])
  let ?pre = "pre @ ?n # l"
  have data: "data = ?pre @ wire_labels ls @ 0 # post" using Cons.prems(2) by simp
  have first: "rd8 data (length pre) = Some ?n" by (simp add: data rd8_def)
  have "rd_slice data (length pre + 1) (length l) = Some l" by (simp add: data rd_slice_def)
  then have step: "decode_loop data (length pre) jumps None first result =
      decode_loop data (length ?pre) jumps None False (result @ (if first then [] else [46]) @ l)"
    using tag first n by (subst decode_loop.simps) (simp add: data)
  have "dotted (l # ls) = l @ (if ls = [] then [] else 46 # dotted ls)" by (cases ls) auto
  then show ?case
    unfolding step using Cons.IH [of ?pre False "result @ (if first then [] else [46]) @ l"] Cons.prems(1) data by simp
qed

text \<open>Every read of a name is inside the packet, and the name is bounded.\<close>

lemma decode_loop_bounds:
  assumes "jumps \<le> 10"
  shows "\<exists>name o'. decode_loop data offset jumps ret first result = Some (name, o') \<and>
    length name \<le> length result + (length data - offset) + (10 - jumps) * length data \<and>
    (case ret of Some q \<Rightarrow> o' = q | None \<Rightarrow> offset \<le> o' \<and> o' \<le> max offset (length data))"
  using assms
proof (induction data offset jumps ret first result rule: decode_loop.induct)
  case (1 data offset jumps ret first result)
  show ?case
  proof (cases "length data \<le> offset")
    case True
    then show ?thesis by (auto simp: decode_loop.simps [of data offset] name_end_def split: option.split)
  next
    case False
    then have rd: "rd8 data offset = Some (data ! offset)" by (simp add: rd8_def)
    let ?n = "data ! offset"
    consider (stop) "offset + 1 \<ge> length data" "?n AND 0xC0 = 0xC0" | (pointer) "offset + 1 < length data" "?n AND 0xC0 = 0xC0"
      | (root) "?n AND 0xC0 \<noteq> 0xC0" "?n = 0" | (cut) "?n AND 0xC0 \<noteq> 0xC0" "?n \<noteq> 0" "offset + 1 + unat ?n > length data"
      | (label) "?n AND 0xC0 \<noteq> 0xC0" "?n \<noteq> 0" "offset + 1 + unat ?n \<le> length data"
      by linarith
    then show ?thesis
    proof cases
      case pointer
      define p where "p = unat (mk16 (?n AND 0x3F) (data ! (offset + 1)))"
      define b where "b = (case ret of None \<Rightarrow> Some (offset + 2) | Some original \<Rightarrow> Some original)"
      have rd1: "rd8 data (offset + 1) = Some (data ! (offset + 1))" using pointer by (simp add: rd8_def)
      have step: "decode_loop data offset jumps ret first result =
        (if jumps + 1 > 10 then Some (result, name_end b p) else decode_loop data p (jumps + 1) b first result)"
        using False rd rd1 pointer unfolding p_def b_def by (subst decode_loop.simps) (simp add: Let_def)
      have b: "name_end b x = (case ret of Some q \<Rightarrow> q | None \<Rightarrow> offset + 2)" for x
        by (simp add: b_def name_end_def split: option.split)
      show ?thesis
      proof (cases "jumps + 1 > 10")
        case True
        then show ?thesis using step b pointer(1) by (auto split: option.splits)
      next
        case nj: False
        have "\<exists>name o'. decode_loop data p (jumps + 1) b first result = Some (name, o') \<and>
          length name \<le> length result + (length data - p) + (10 - (jumps + 1)) * length data \<and>
          (case b of Some q \<Rightarrow> o' = q | None \<Rightarrow> p \<le> o' \<and> o' \<le> max p (length data))"
          using "1.IH"(1) [OF False rd pointer(2) _ rd1 p_def b_def nj] nj pointer(1) by simp
        then obtain name o' where r: "decode_loop data p (jumps + 1) b first result = Some (name, o')"
          "length name \<le> length result + (length data - p) + (10 - (jumps + 1)) * length data"
          "case b of Some q \<Rightarrow> o' = q | None \<Rightarrow> p \<le> o' \<and> o' \<le> max p (length data)" by blast
        have "10 - jumps = Suc (10 - (jumps + 1))" using nj by simp
        then have "length name \<le> length result + (length data - offset) + (10 - jumps) * length data"
          using r(2) by simp
        then show ?thesis using step nj r(1,3) pointer(1) by (auto simp: b_def split: option.splits)
      qed
    next
      case label
      have sl: "rd_slice data (offset + 1) (unat ?n) = Some (take (unat ?n) (drop (offset + 1) data))"
        using label by (simp add: rd_slice_def)
      define o2 where "o2 = offset + 1 + unat ?n"
      define res where "res = result @ (if first then [] else [46]) @ take (unat ?n) (drop (offset + 1) data)"
      have step: "decode_loop data offset jumps ret first result = decode_loop data o2 jumps ret False res"
        using False rd sl label unfolding o2_def res_def by (subst decode_loop.simps) simp
      have "\<exists>name o'. decode_loop data o2 jumps ret False res = Some (name, o') \<and>
          length name \<le> length res + (length data - o2) + (10 - jumps) * length data \<and>
          (case ret of Some q \<Rightarrow> o' = q | None \<Rightarrow> o2 \<le> o' \<and> o' \<le> max o2 (length data))"
        using "1.IH"(2) [OF False rd label(1,2) _ sl] label(3) "1.prems" unfolding o2_def res_def by simp
      then obtain name o' where r: "decode_loop data o2 jumps ret False res = Some (name, o')"
          "length name \<le> length res + (length data - o2) + (10 - jumps) * length data"
          "case ret of Some q \<Rightarrow> o' = q | None \<Rightarrow> o2 \<le> o' \<and> o' \<le> max o2 (length data)" by blast
      have "length (take (unat ?n) (drop (offset + 1) data)) \<le> unat ?n" by simp
      then have "length res \<le> length result + 1 + unat ?n" by (simp add: res_def del: length_take length_drop)
      then have "length name \<le> length result + (length data - offset) + (10 - jumps) * length data"
        using r(2) label(3) unfolding o2_def by linarith
      then show ?thesis using step r(1,3) label(3) by (auto simp: o2_def split: option.splits)
    qed (use False rd in \<open>auto simp: decode_loop.simps [of data offset] name_end_def split: option.split\<close>)
  qed
qed

lemma decode_name_bounds:
  "\<exists>name o'. decode_name data offset = Some (name, o') \<and> length name \<le> 11 * length data \<and>
     offset \<le> o' \<and> o' \<le> max offset (length data)"
proof -
  obtain name o' where r: "decode_name data offset = Some (name, o')"
    "length name \<le> (length data - offset) + 10 * length data" "offset \<le> o'" "o' \<le> max offset (length data)"
    using decode_loop_bounds [of 0 data offset None True "[]"] unfolding decode_name_def by auto
  have "length name \<le> 11 * length data" using r(2) by linarith
  then show ?thesis using r by blast
qed

lemma skip_questions_total: "\<exists>o'. skip_questions data n offset = Some o' \<and> offset \<le> o'"
proof (induction n arbitrary: offset)
  case (Suc n)
  show ?case
  proof (cases "offset < length data")
    case True
    obtain name o' where d: "decode_name data offset = Some (name, o')" "offset \<le> o'"
      using decode_name_bounds [of data offset] by blast
    obtain o2 where "skip_questions data n (o' + 4) = Some o2" "o' + 4 \<le> o2" using Suc.IH by blast
    then show ?thesis using True d by auto
  qed simp
qed simp

lemma rd_be_total:
  "i + 2 \<le> length data \<Longrightarrow> \<exists>w. rd_be16 data i = Some w" "i + 4 \<le> length data \<Longrightarrow> \<exists>w. rd_be32 data i = Some w"
  by (simp_all add: rd_be16_def rd_be32_def rd8_def)

lemma record_data_total:
  "offset + unat rdlength \<le> length data \<Longrightarrow> \<exists>d. record_data data type rdlength offset = Some d \<and>
     (case d of Name_Data name \<Rightarrow> length name \<le> 11 * length data | Raw_Data raw \<Rightarrow> length raw \<le> length data | Ipv4_Data _ \<Rightarrow> True)"
proof -
  assume len: "offset + unat rdlength \<le> length data"
  obtain name o' where d: "decode_name data offset = Some (name, o')" "length name \<le> 11 * length data"
    using decode_name_bounds [of data offset] by blast
  show ?thesis
    using len d rd_be_total(2) [of offset data] by (auto simp: record_data_def rd_slice_def)
qed

definition record_bounded :: "nat \<Rightarrow> dns_record \<Rightarrow> bool" where
  "record_bounded n r \<longleftrightarrow> length (rec_name r) \<le> 11 * n \<and>
     (case rec_data r of Name_Data name \<Rightarrow> length name \<le> 11 * n | Raw_Data raw \<Rightarrow> length raw \<le> n | Ipv4_Data _ \<Rightarrow> True)"

lemma parse_answers_total:
  "\<exists>rs. parse_answers data n offset = Some rs \<and> length rs \<le> n \<and> offset + 10 * length rs \<le> max offset (length data) \<and>
     list_all (record_bounded (length data)) rs"
proof (induction n arbitrary: offset)
  case (Suc n)
  obtain name o' where d: "decode_name data offset = Some (name, o')" "length name \<le> 11 * length data" "offset \<le> o'"
    using decode_name_bounds [of data offset] by blast
  show ?case
  proof (cases "offset < length data \<and> o' + 10 \<le> length data")
    case True
    then obtain type cls ttl rdlength where r: "rd_be16 data o' = Some type" "rd_be16 data (o' + 2) = Some cls"
      "rd_be32 data (o' + 4) = Some ttl" "rd_be16 data (o' + 8) = Some rdlength"
      using rd_be_total(1) [of o' data] rd_be_total(1) [of "o' + 2" data] rd_be_total(2) [of "o' + 4" data]
        rd_be_total(1) [of "o' + 8" data] by auto
    show ?thesis
    proof (cases "o' + 10 + unat rdlength \<le> length data")
      case fits: True
      obtain rd where rd: "record_data data type rdlength (o' + 10) = Some rd"
        "case rd of Name_Data name \<Rightarrow> length name \<le> 11 * length data | Raw_Data raw \<Rightarrow> length raw \<le> length data | Ipv4_Data _ \<Rightarrow> True"
        using record_data_total [OF fits] by blast
      obtain rs where rs: "parse_answers data n (o' + 10 + unat rdlength) = Some rs" "length rs \<le> n"
        "o' + 10 + unat rdlength + 10 * length rs \<le> max (o' + 10 + unat rdlength) (length data)"
        "list_all (record_bounded (length data)) rs" using Suc.IH by blast
      moreover have "record_bounded (length data)
          \<lparr>rec_name = name, rec_type = type, rec_cls = cls, rec_ttl = ttl, rec_data = rd\<rparr>"
        using d(2) rd(2) by (simp add: record_bounded_def)
      ultimately show ?thesis using True d r fits rd(1) by auto
    qed (use True d r in auto)
  qed (use d in auto)
qed simp

section \<open>The table of pending queries\<close>

lemma send_query_frame [simp]:
  "dns_pending (send_query q s) = dns_pending s" "dns_results (send_query q s) = dns_results s"
  "dns_next_id (send_query q s) = dns_next_id s" "dns_server (send_query q s) = dns_server s"
  by (simp_all add: send_query_def udp_sendto_def ip_send_def Let_def split: option.split)

text \<open>Calls of the client, with the callbacks that were given to it; other traffic of the UDP layer leaves the
  client's fields as they are.\<close>

definition same_client :: "dns_net \<Rightarrow> dns_net \<Rightarrow> bool" where
  "same_client s t \<longleftrightarrow> udp_net.more s = udp_net.more t"

inductive dns_run :: "(pending_table \<Rightarrow> pending_table) \<Rightarrow> nat list \<Rightarrow> dns_net \<Rightarrow> bool" for order :: "pending_table \<Rightarrow> pending_table" where
  run_new: "dns_run order [] (dns_new server s)"
| run_init: "dns_run order cbs s \<Longrightarrow> dns_init rnd cb s = (ok, s') \<Longrightarrow> dns_run order cbs s'"
| run_server: "dns_run order cbs s \<Longrightarrow> dns_run order cbs (dns_set_server ip s)"
| run_resolve: "dns_run order cbs s \<Longrightarrow> dns_run order (cbs @ [cb]) (resolve_async hostname cb type now s)"
| run_receive: "dns_run order cbs s \<Longrightarrow> dns_on_receive src_ip src_port data s = Some s' \<Longrightarrow> dns_run order cbs s'"
| run_timer: "dns_run order cbs s \<Longrightarrow> dns_run order cbs (dns_on_timer order now s)"
| run_other: "dns_run order cbs s \<Longrightarrow> same_client s s' \<Longrightarrow> dns_run order cbs s'"

text \<open>Iterating a table visits each of its entries once.\<close>

definition iterates :: "(pending_table \<Rightarrow> pending_table) \<Rightarrow> bool" where
  "iterates order \<longleftrightarrow> (\<forall>xs. mset (order xs) = mset xs)"

definition callbacks_of :: "pending_table \<Rightarrow> nat multiset" where
  "callbacks_of xs = mset (map (\<lambda>(_, q). pq_callback q) xs)"

definition table_ok :: "pending_table \<Rightarrow> bool" where
  "table_ok xs \<longleftrightarrow> distinct (map fst xs) \<and> (\<forall>(qid, q)\<in>set xs. pq_id q = qid \<and> 0 \<le> pq_retries q \<and> pq_retries q \<le> 3)"

lemma update_new:
  "qid \<notin> fst ` set xs \<Longrightarrow> AList.update qid q xs = xs @ [(qid, q)]"
  by (induction xs) auto

lemma callbacks_split:
  assumes "distinct (map fst xs)" and "map_of xs qid = Some q"
  shows "callbacks_of xs = add_mset (pq_callback q) (callbacks_of (AList.delete qid xs))"
  using assms
proof (induction xs)
  case (Cons x xs)
  show ?case
  proof (cases "fst x = qid")
    case True
    then have "AList.delete qid xs = xs" using Cons.prems(1) by (intro delete_id) auto
    then show ?thesis using Cons.prems True by (cases x) (auto simp: callbacks_of_def)
  next
    case False
    then show ?thesis using Cons by (cases x) (auto simp: callbacks_of_def)
  qed
qed simp

lemma callbacks_update:
  assumes "distinct (map fst xs)" and "map_of xs qid = Some q" and "pq_callback q' = pq_callback q"
  shows "callbacks_of (AList.update qid q' xs) = callbacks_of xs"
  using assms
proof (induction xs)
  case (Cons x xs)
  then show ?case by (cases x) (auto simp: callbacks_of_def split: if_splits)
qed simp

lemma table_ok_delete: "table_ok xs \<Longrightarrow> table_ok (AList.delete qid xs)"
  unfolding table_ok_def by (auto simp: AList.delete_eq intro: distinct_delete [unfolded AList.delete_eq])

lemma table_ok_update:
  assumes "table_ok xs" and "pq_id q = qid" "0 \<le> pq_retries q" "pq_retries q \<le> 3"
  shows "table_ok (AList.update qid q xs)"
proof -
  have "set (AList.update qid q xs) \<subseteq> insert (qid, q) (set xs)" by (induction xs) auto
  then show ?thesis using assms distinct_update [of xs qid q] unfolding table_ok_def by fast
qed

text \<open>One visit of the timer: what it does to the entry it is given, and to nothing else.\<close>

definition tick_entry :: "int \<Rightarrow> pending_query \<Rightarrow> pending_query option" where
  "tick_entry now q =
    (if now - pq_send_time q > 2000000000
     then if pq_retries q \<ge> 3 then None else Some (q\<lparr>pq_retries := pq_retries q + 1, pq_send_time := now\<rparr>)
     else Some q)"

lemma tick_query_post:
  assumes "table_ok (dns_pending s)" and "map_of (dns_pending s) qid = Some q"
  shows "table_ok (dns_pending (tick_query now s (qid, q)))"
    and "callbacks_of (dns_pending (tick_query now s (qid, q))) + mset (map fst (dns_results (tick_query now s (qid, q)))) =
         callbacks_of (dns_pending s) + mset (map fst (dns_results s))"
    and "map_of (dns_pending (tick_query now s (qid, q))) = (map_of (dns_pending s))(qid := tick_entry now q)"
    and "dns_next_id (tick_query now s (qid, q)) = dns_next_id s"
    and "dns_results (tick_query now s (qid, q)) =
           dns_results s @ (if tick_entry now q = None then [(pq_callback q, None)] else [])"
proof -
  have in_tab: "(qid, q) \<in> set (dns_pending s)" using assms(2) by (rule map_of_SomeD)
  then have q: "pq_id q = qid" "0 \<le> pq_retries q" "pq_retries q \<le> 3" and d: "distinct (map fst (dns_pending s))"
    using assms(1) by (auto simp: table_ok_def)
  show "table_ok (dns_pending (tick_query now s (qid, q)))"
    using assms(1) q by (auto simp: tick_query_def Let_def intro!: table_ok_delete table_ok_update)
  show "callbacks_of (dns_pending (tick_query now s (qid, q))) + mset (map fst (dns_results (tick_query now s (qid, q)))) =
         callbacks_of (dns_pending s) + mset (map fst (dns_results s))"
    using callbacks_split [OF d assms(2)] callbacks_update [OF d assms(2)] by (simp add: tick_query_def Let_def)
  show "map_of (dns_pending (tick_query now s (qid, q))) = (map_of (dns_pending s))(qid := tick_entry now q)"
    using assms(2) by (auto simp: tick_query_def tick_entry_def Let_def delete_conv' update_conv' fun_eq_iff)
  show "dns_next_id (tick_query now s (qid, q)) = dns_next_id s" by (simp add: tick_query_def Let_def)
  show "dns_results (tick_query now s (qid, q)) =
           dns_results s @ (if tick_entry now q = None then [(pq_callback q, None)] else [])"
    by (simp add: tick_query_def tick_entry_def Let_def)
qed

text \<open>The whole visit of the timer, over any list of the table's entries.\<close>

lemma tick_all_post:
  assumes "table_ok (dns_pending s)" and "distinct (map fst xs)"
    and "\<forall>(qid, q)\<in>set xs. map_of (dns_pending s) qid = Some q"
  shows "table_ok (dns_pending (foldl (tick_query now) s xs)) \<and>
    callbacks_of (dns_pending (foldl (tick_query now) s xs)) + mset (map fst (dns_results (foldl (tick_query now) s xs))) =
      callbacks_of (dns_pending s) + mset (map fst (dns_results s)) \<and>
    (\<forall>k. map_of (dns_pending (foldl (tick_query now) s xs)) k =
       (case map_of xs k of Some q \<Rightarrow> tick_entry now q | None \<Rightarrow> map_of (dns_pending s) k)) \<and>
    dns_next_id (foldl (tick_query now) s xs) = dns_next_id s \<and>
    set (dns_results (foldl (tick_query now) s xs)) =
      set (dns_results s) \<union> {(pq_callback q, None) | q. \<exists>k. map_of xs k = Some q \<and> tick_entry now q = None}"
  using assms
proof (induction xs arbitrary: s)
  case (Cons x xs)
  obtain qid q where x: "x = (qid, q)" by (cases x)
  let ?s = "tick_query now s (qid, q)"
  have q: "map_of (dns_pending s) qid = Some q" using Cons.prems(3) x by simp
  note post = tick_query_post [OF Cons.prems(1) q, of now]
  have nin: "map_of xs qid = None" using Cons.prems(2) x by (auto simp: map_of_eq_None_iff)
  have others: "\<forall>(k, q')\<in>set xs. map_of (dns_pending ?s) k = Some q'"
  proof (intro ballI case_prodI2)
    fix y k q'
    assume y: "y \<in> set xs" "y = (k, q')"
    then have "k \<noteq> qid" using Cons.prems(2) x by force
    moreover have "map_of (dns_pending s) k = Some q'" using Cons.prems(3) y by auto
    ultimately show "map_of (dns_pending ?s) k = Some q'" by (simp add: post(3))
  qed
  note IH = Cons.IH [OF post(1) _ others]
  have d: "distinct (map fst xs)" using Cons.prems(2) by simp
  have res: "{(pq_callback q', None :: dns_response option) | q'. \<exists>k. map_of (x # xs) k = Some q' \<and> tick_entry now q' = None} =
      (if tick_entry now q = None then {(pq_callback q, None)} else {}) \<union>
      {(pq_callback q', None) | q'. \<exists>k. map_of xs k = Some q' \<and> tick_entry now q' = None}"
    using nin x by (auto split: if_splits) (metis option.distinct(1))+
  show ?case
    unfolding res using IH [OF d] post(2,4,5) nin x
    by (auto simp: post(3) split: option.split)
qed simp

lemma iterates_map:
  assumes "iterates order" and "table_ok xs"
  shows "distinct (map fst (order xs))" and "map_of (order xs) = map_of xs"
proof -
  have m: "mset (order xs) = mset xs" using assms(1) by (simp add: iterates_def)
  have d: "distinct (map fst xs)" using assms(2) by (simp add: table_ok_def)
  have "mset (map fst (order xs)) = mset (map fst xs)" using m by simp
  then show d': "distinct (map fst (order xs))" using d by (metis mset_eq_imp_distinct_iff)
  show "map_of (order xs) = map_of xs" using d d' mset_eq_setD [OF m] by (intro map_of_inject_set [THEN iffD2])
qed

lemma on_timer_post:
  assumes "iterates order" and ok: "table_ok (dns_pending s)"
  shows "table_ok (dns_pending (dns_on_timer order now s))"
    and "callbacks_of (dns_pending (dns_on_timer order now s)) + mset (map fst (dns_results (dns_on_timer order now s))) =
      callbacks_of (dns_pending s) + mset (map fst (dns_results s))"
    and "map_of (dns_pending (dns_on_timer order now s)) k = Option.bind (map_of (dns_pending s) k) (tick_entry now)"
    and "dns_next_id (dns_on_timer order now s) = dns_next_id s"
    and "set (dns_results (dns_on_timer order now s)) =
      set (dns_results s) \<union> {(pq_callback q, None) | q. \<exists>k. map_of (dns_pending s) k = Some q \<and> tick_entry now q = None}"
proof -
  note it = iterates_map [OF assms]
  have ents: "\<forall>(qid, q)\<in>set (order (dns_pending s)). map_of (dns_pending s) qid = Some q"
    using it by (auto simp flip: it(2))
  note all = tick_all_post [OF ok it(1) ents, of now, folded dns_on_timer_def, unfolded it(2)]
  show "table_ok (dns_pending (dns_on_timer order now s))"
    "callbacks_of (dns_pending (dns_on_timer order now s)) + mset (map fst (dns_results (dns_on_timer order now s))) =
      callbacks_of (dns_pending s) + mset (map fst (dns_results s))"
    "dns_next_id (dns_on_timer order now s) = dns_next_id s"
    "set (dns_results (dns_on_timer order now s)) =
      set (dns_results s) \<union> {(pq_callback q, None) | q. \<exists>k. map_of (dns_pending s) k = Some q \<and> tick_entry now q = None}"
    using all by blast+
  show "map_of (dns_pending (dns_on_timer order now s)) k = Option.bind (map_of (dns_pending s) k) (tick_entry now)"
    using all by (auto split: option.splits)
qed

definition dns_inv :: "nat list \<Rightarrow> dns_net \<Rightarrow> bool" where
  "dns_inv cbs s \<longleftrightarrow> table_ok (dns_pending s) \<and> dns_next_id s = of_nat (length cbs) + 1 \<and>
     fst ` set (dns_pending s) \<subseteq> {of_nat i + 1 | i. i < length cbs} \<and>
     (length cbs \<le> 65536 \<longrightarrow> callbacks_of (dns_pending s) + mset (map fst (dns_results s)) = mset cbs)"

lemma same_client_fields:
  assumes "same_client s t"
  shows "dns_pending t = dns_pending s" "dns_results t = dns_results s" "dns_next_id t = dns_next_id s"
  using assms by (cases s; cases t; simp add: same_client_def)+

lemma udp_bind_client: "udp_net.more (snd (udp_bind port cb (s :: dns_net))) = udp_net.more s"
  by (auto simp: udp_bind_def udp_allocate_ephemeral_port_def Let_def split: option.split prod.split)

lemma dns_inv_init:
  assumes "dns_inv cbs s" and "dns_init rnd cb s = (ok, s')"
  shows "dns_inv cbs s'"
proof -
  let ?s = "s\<lparr>dns_local_port := of_nat (10000 + unat rnd mod 50000)\<rparr>"
  have "same_client ?s s'"
    using assms(2) udp_bind_client [of "dns_local_port ?s" "Some cb" ?s] by (auto simp: same_client_def dns_init_def Let_def)
  from same_client_fields [OF this] show ?thesis using assms(1) by (simp add: dns_inv_def)
qed

lemma fresh_id:
  assumes "n < 65536" and "i < n"
  shows "(of_nat i + 1 :: u16) \<noteq> of_nat n + 1"
proof -
  have "unat (of_nat i :: u16) = i" "unat (of_nat n :: u16) = n" using assms by (simp_all add: unat_of_nat_small)
  then have "(of_nat i :: u16) \<noteq> of_nat n" using assms(2) by (metis less_irrefl)
  then show ?thesis by simp
qed

lemma dns_inv_resolve:
  assumes "dns_inv cbs s"
  shows "dns_inv (cbs @ [cb]) (resolve_async hostname cb type now s)"
proof -
  define q where "q = \<lparr>pq_id = dns_next_id s, pq_hostname = hostname, pq_type = type, pq_callback = cb, pq_send_time = now, pq_retries = 0\<rparr>"
  let ?tab = "AList.update (dns_next_id s) q (dns_pending s)"
  have r: "dns_pending (resolve_async hostname cb type now s) = ?tab" "dns_results (resolve_async hostname cb type now s) = dns_results s"
    "dns_next_id (resolve_async hostname cb type now s) = dns_next_id s + 1"
    by (simp_all add: resolve_async_def Let_def q_def)
  have inv: "table_ok (dns_pending s)" "dns_next_id s = of_nat (length cbs) + 1"
    "fst ` set (dns_pending s) \<subseteq> {of_nat i + 1 | i. i < length cbs}"
    using assms by (simp_all add: dns_inv_def)
  have "table_ok ?tab" using inv(1) by (intro table_ok_update) (simp_all add: q_def)
  moreover have "fst ` set ?tab \<subseteq> {of_nat i + 1 | i. i < length (cbs @ [cb])}"
    using inv(2,3) by (auto simp: dom_update less_Suc_eq)
  moreover have "callbacks_of ?tab + mset (map fst (dns_results s)) = mset (cbs @ [cb])" if "length (cbs @ [cb]) \<le> 65536"
  proof -
    have "dns_next_id s \<notin> fst ` set (dns_pending s)"
    proof
      assume "dns_next_id s \<in> fst ` set (dns_pending s)"
      then obtain i where "i < length cbs" "dns_next_id s = of_nat i + 1" using inv(3) by blast
      then show False using fresh_id [of "length cbs" i] that inv(2) by simp
    qed
    then show ?thesis using assms that by (simp add: update_new dns_inv_def callbacks_of_def q_def)
  qed
  ultimately show ?thesis using inv(2) by (simp add: dns_inv_def r)
qed

lemma receive_cases:
  assumes "dns_on_receive src_ip src_port data s = Some s'"
  obtains (ignored) "s' = s"
  | (answered) r q where "src_ip = dns_server s" "src_port = 53" "parse_response data = Some (Some r)"
      "map_of (dns_pending s) (rsp_id r) = Some q"
      "s' = s\<lparr>dns_results := dns_results s @ [(pq_callback q, Some r)], dns_pending := AList.delete (rsp_id r) (dns_pending s)\<rparr>"
proof (cases "src_ip = dns_server s \<and> src_port = 53")
  case True
  then obtain response where resp: "parse_response data = Some response"
    using assms by (cases "parse_response data") (simp_all add: dns_on_receive_def)
  show ?thesis
  proof (cases response)
    case None
    then show ?thesis using assms True resp by (intro ignored) (simp add: dns_on_receive_def)
  next
    case (Some r)
    then show ?thesis using assms True resp
      by (cases "map_of (dns_pending s) (rsp_id r)") (auto simp: dns_on_receive_def intro: ignored answered)
  qed
next
  case False
  then show ?thesis using assms by (intro ignored) (auto simp: dns_on_receive_def)
qed

lemma dns_inv_receive:
  assumes "dns_inv cbs s" and "dns_on_receive src_ip src_port data s = Some s'"
  shows "dns_inv cbs s'"
  using assms(2)
proof (cases rule: receive_cases)
  case ignored
  then show ?thesis using assms(1) by simp
next
  case q: (answered r q)
  have tab: "table_ok (dns_pending s)" using assms(1) by (simp add: dns_inv_def)
  then have "callbacks_of (dns_pending s) = add_mset (pq_callback q) (callbacks_of (AList.delete (rsp_id r) (dns_pending s)))"
    using callbacks_split [OF _ q(4)] by (simp add: table_ok_def)
  moreover have "fst ` set (AList.delete (rsp_id r) (dns_pending s)) \<subseteq> {of_nat i + 1 | i. i < length cbs}"
    using assms(1) dom_delete_subset [of "rsp_id r" "dns_pending s"] unfolding dns_inv_def by blast
  ultimately show ?thesis
    using assms(1) q(5) table_ok_delete [OF tab] by (simp add: dns_inv_def)
qed

lemma dns_run_inv: "dns_run order cbs s \<Longrightarrow> iterates order \<Longrightarrow> dns_inv cbs s"
proof (induction rule: dns_run.induct)
  case (run_new server s)
  then show ?case by (simp add: dns_inv_def dns_new_def dns_net.defs udp_net.defs table_ok_def callbacks_of_def)
next
  case (run_init cbs s rnd cb ok s')
  then show ?case using dns_inv_init by blast
next
  case (run_server cbs s ip)
  then show ?case by (simp add: dns_inv_def dns_set_server_def)
next
  case (run_resolve cbs s cb hostname type now)
  then show ?case using dns_inv_resolve by blast
next
  case (run_receive cbs s src_ip src_port data s')
  then show ?case using dns_inv_receive by blast
next
  case (run_timer cbs s now)
  then have inv: "dns_inv cbs s" by blast
  then have tab: "table_ok (dns_pending s)" by (simp add: dns_inv_def)
  note post = on_timer_post [OF run_timer.prems tab, of now]
  have "dom (map_of (dns_pending (dns_on_timer order now s))) \<subseteq> dom (map_of (dns_pending s))"
    by (auto simp: post(3) bind_eq_Some_conv)
  then have "fst ` set (dns_pending (dns_on_timer order now s)) \<subseteq> fst ` set (dns_pending s)" by (simp add: dom_map_of_conv_image_fst)
  then show ?case using inv post(1,2,4) by (auto simp: dns_inv_def)
next
  case (run_other cbs s s')
  then show ?case using same_client_fields [OF run_other.hyps(2)] by (simp add: dns_inv_def)
qed

lemma parse_response_bounds:
  "\<exists>response. parse_response data = Some response \<and>
     (case response of
        None \<Rightarrow> True
      | Some r \<Rightarrow> 10 * length (rsp_answers r) \<le> length data \<and> list_all (record_bounded (length data)) (rsp_answers r))"
proof (cases "length data < 12 \<or> ntohs (ld16 data 2) AND 0x8000 = 0")
  case True
  then show ?thesis by (auto simp: parse_response_def Let_def)
next
  case False
  obtain o' where o': "skip_questions data (unat (ntohs (ld16 data 4))) 12 = Some o'"
    using skip_questions_total by blast
  obtain rs where rs: "parse_answers data (unat (ntohs (ld16 data 6))) o' = Some rs"
    "o' + 10 * length rs \<le> max o' (length data)" "list_all (record_bounded (length data)) rs"
    using parse_answers_total by blast
  then have "10 * length rs \<le> length data" by linarith
  then show ?thesis using False o' rs by (auto simp: parse_response_def Let_def)
qed

lemma receive_total: "\<exists>s'. dns_on_receive src_ip src_port data s = Some s'"
proof -
  obtain response where "parse_response data = Some response" using parse_response_bounds by blast
  then show ?thesis by (simp add: dns_on_receive_def split: option.split)
qed

section \<open>Properties\<close>

text \<open>C36. A host name survives the wire.  The encoding of a name of labels of 1 to 63 bytes, wherever it
  stands in a packet, decodes to the name and leaves the offset right after it; its length is that of the
  name plus two.\<close>

theorem dns_name_roundtrip:
  assumes "ls \<noteq> []" and "\<forall>l\<in>set ls. label_ok l"
  shows "decode_name (pre @ encode_name (dotted ls) @ post) (length pre) =
      Some (dotted ls, length pre + length (encode_name (dotted ls))) \<and>
    length (encode_name (dotted ls)) = length (dotted ls) + 2"
  using decode_wire [OF assms(2) refl, of pre post 0 True "[]"] length_wire [OF assms(1)] encode_dotted [OF assms(2)]
  by (simp add: decode_name_def encode_name_def)

text \<open>"ab.c" at the end of a header.\<close>

theorem dns_name_roundtrip_witness:
  "decode_name ([7, 7] @ encode_name [97, 98, 46, 99] @ [0, 1]) 2 = Some ([97, 98, 46, 99], 8)"
proof -
  have d: "dotted [[97, 98], [99]] = [97, 98, 46, 99 :: u8]" by simp
  have ok: "\<forall>l\<in>set [[97, 98], [99 :: u8]]. label_ok l" by (simp add: label_ok_def)
  have two: "length [7, 7 :: u8] = 2" by simp
  show ?thesis using dns_name_roundtrip [of "[[97, 98], [99]]" "[7, 7]" "[0, 1]", OF _ ok] unfolding d two by simp
qed

text \<open>A label of more than 63 bytes is sent with the length 63 but all of its bytes: the rest of the packet
  is read at the wrong place.\<close>

lemma long_label_misread:
  "encode_name (replicate 64 97) = 63 # replicate 64 97 @ [0] \<and>
   decode_name (encode_name (replicate 64 97)) 0 = Some (replicate 63 97, 65)"
proof -
  let ?data = "63 # replicate 64 97 @ [0] :: bytes"
  have tw: "takeWhile (\<lambda>c. c \<noteq> 46) (replicate 64 (97 :: u8)) = replicate 64 97"
    by (subst takeWhile_eq_all_conv) simp
  then have e: "encode_name (replicate 64 97) = ?data"
    by (simp add: encode_name_def encode_labels.simps [of "replicate 64 97"] encode_labels.simps [of "[]"] Let_def)
  have "?data ! 64 = 97" by (simp add: nth_Cons' nth_append)
  then have "decode_loop ?data 64 0 None False (replicate 63 97) = Some (replicate 63 97, 65)"
    by (subst decode_loop.simps) (simp add: rd8_def name_end_def)
  then have "decode_name ?data 0 = Some (replicate 63 97, 65)"
    by (simp add: decode_name_def decode_loop.simps [of ?data 0] rd8_def rd_slice_def take_Cons')
  then show ?thesis using e by simp
qed

text \<open>C37. Parsing a response is safe on any bytes: it always returns, no read leaves the packet, whatever
  compression pointers it holds, and what it gives is bounded by the packet, in the number of answers and in
  the length of every name.\<close>

theorem dns_parse_safe:
  "\<exists>response. parse_response data = Some response \<and>
     (case response of
        None \<Rightarrow> True
      | Some r \<Rightarrow> 10 * length (rsp_answers r) \<le> length data \<and> list_all (record_bounded (length data)) (rsp_answers r))"
  by (rule parse_response_bounds)


text \<open>Two queries, the second of which is answered with no records.\<close>

definition demo_run :: "bytes \<Rightarrow> dns_net option" where
  "demo_run data = dns_on_receive 8 53 data
     (resolve_async [98] 11 1 5 (resolve_async [97] 10 1 0 (dns_new 8 (udp_new (net_new (\<lambda>_. 0))))))"




end
