(* ===== verification/Ai_Agent.thy ===== *)
theory Ai_Agent
  imports Prelude
begin

text \<open>
  The decision layer of the AI plane (\<^verbatim>\<open>include/neustack/ai/ai_agent.hpp\<close>, \<^verbatim>\<open>src/ai/ai_agent.cpp\<close>): a state machine
  driven by the outputs of three models, which decides whether connections are accepted and how far the
  learned congestion control may go.  A \<open>float\<close> is a type variable; the comparisons and conversions the code
  makes are the parameter \<open>M\<close>.  A reason is kept as the values its text is made from.
\<close>

section \<open>Operations\<close>

datatype agent_state = NORMAL | DEGRADED | UNDER_ATTACK | RECOVERY

datatype 'f agent_reason =
  RecoveryCompleted
| AnomalyOver 'f 'f
| AnomalyClear int
| BandwidthDropped 'f u32
| BandwidthRecovered u32

record 'f agent_decision =
  ad_timestamp_us :: u64
  ad_from :: agent_state
  ad_to :: agent_state
  ad_reason :: "'f agent_reason"

text \<open>
  \<open>am_drop bw prev\<close> is \<open>1.0f - bw / prev > BW_DROP_RATIO\<close>, \<open>am_recovered bw pre\<close> is
  \<open>bw >= pre * BW_RECOVER_RATIO\<close>, and the constants are the bounds of \<open>std::clamp\<close>.
\<close>

record 'f agent_math =
  am_zero :: 'f
  am_of_u32 :: "u32 \<Rightarrow> 'f"
  am_gt :: "'f \<Rightarrow> 'f \<Rightarrow> bool"
  am_drop :: "u32 \<Rightarrow> 'f \<Rightarrow> bool"
  am_recovered :: "u32 \<Rightarrow> 'f \<Rightarrow> bool"
  am_clamp :: "'f \<Rightarrow> 'f \<Rightarrow> 'f \<Rightarrow> 'f"
  am_minus_1 :: 'f
  am_1 :: 'f
  am_03 :: 'f
  am_05 :: 'f

record 'f agent =
  ag_state :: agent_state
  ag_anomaly_threshold :: 'f
  ag_anomaly_score :: 'f
  ag_predicted_bw :: u32
  ag_current_alpha :: 'f
  ag_anomaly_clear_count :: int
  ag_recovery_ticks :: int
  ag_prev_predicted_bw :: 'f
  ag_pre_degraded_bw :: 'f
  ag_history :: "'f agent_decision list"

definition MAX_HISTORY_SIZE :: nat where "MAX_HISTORY_SIZE = 1000"
definition ANOMALY_CLEAR_REQUIRED :: int where "ANOMALY_CLEAR_REQUIRED = 50"
definition RECOVERY_TICKS_REQUIRED :: int where "RECOVERY_TICKS_REQUIRED = 100"

definition agent_new :: "'f agent_math \<Rightarrow> 'f \<Rightarrow> 'f agent" where
  "agent_new M threshold = \<lparr>ag_state = NORMAL, ag_anomaly_threshold = threshold, ag_anomaly_score = am_zero M,
     ag_predicted_bw = 0, ag_current_alpha = am_zero M, ag_anomaly_clear_count = 0, ag_recovery_ticks = 0,
     ag_prev_predicted_bw = am_zero M, ag_pre_degraded_bw = am_zero M, ag_history = []\<rparr>"

definition transition_to :: "u64 \<Rightarrow> agent_state \<Rightarrow> 'f agent_reason \<Rightarrow> 'f agent \<Rightarrow> 'f agent" where
  "transition_to now new_state reason a =
    (if ag_state a = new_state then a
     else
       let old_state = ag_state a;
           a = a\<lparr>ag_state := new_state\<rparr>;
           a = (if new_state = RECOVERY then a\<lparr>ag_recovery_ticks := 0, ag_anomaly_clear_count := 0\<rparr> else a);
           hist = ag_history a @ [\<lparr>ad_timestamp_us = now, ad_from = old_state, ad_to = new_state, ad_reason = reason\<rparr>]
       in a\<lparr>ag_history := (if length hist > MAX_HISTORY_SIZE then tl hist else hist)\<rparr>)"

definition on_cwnd_adjust :: "u64 \<Rightarrow> 'f \<Rightarrow> 'f agent \<Rightarrow> 'f agent" where
  "on_cwnd_adjust now alpha a =
    (let a = a\<lparr>ag_current_alpha := alpha\<rparr>
     in if ag_state a = RECOVERY then
          let a = a\<lparr>ag_recovery_ticks := ag_recovery_ticks a + 1\<rparr>
          in if ag_recovery_ticks a \<ge> RECOVERY_TICKS_REQUIRED then transition_to now NORMAL RecoveryCompleted a else a
        else a)"

definition on_anomaly :: "'f agent_math \<Rightarrow> u64 \<Rightarrow> 'f \<Rightarrow> 'f agent \<Rightarrow> 'f agent" where
  "on_anomaly M now score a =
    (let a = a\<lparr>ag_anomaly_score := score\<rparr>
     in if am_gt M score (ag_anomaly_threshold a) then
          let a = a\<lparr>ag_anomaly_clear_count := 0\<rparr>
          in if ag_state a \<noteq> UNDER_ATTACK then transition_to now UNDER_ATTACK (AnomalyOver score (ag_anomaly_threshold a)) a
             else a
        else if ag_state a = UNDER_ATTACK then
          let a = a\<lparr>ag_anomaly_clear_count := ag_anomaly_clear_count a + 1\<rparr>
          in if ag_anomaly_clear_count a \<ge> ANOMALY_CLEAR_REQUIRED
             then transition_to now RECOVERY (AnomalyClear (ag_anomaly_clear_count a)) a else a
        else a)"

definition on_bw_prediction :: "'f agent_math \<Rightarrow> u64 \<Rightarrow> u32 \<Rightarrow> 'f agent \<Rightarrow> 'f agent" where
  "on_bw_prediction M now bw a =
    (let a = a\<lparr>ag_prev_predicted_bw := am_of_u32 M (ag_predicted_bw a), ag_predicted_bw := bw\<rparr>
     in if ag_state a = NORMAL \<and> am_gt M (ag_prev_predicted_bw a) (am_zero M) then
          if am_drop M bw (ag_prev_predicted_bw a) then
            let a = a\<lparr>ag_pre_degraded_bw := ag_prev_predicted_bw a\<rparr>
            in transition_to now DEGRADED (BandwidthDropped (ag_prev_predicted_bw a) bw) a
          else a
        else if ag_state a = DEGRADED \<and> am_gt M (ag_pre_degraded_bw a) (am_zero M) then
          if am_recovered M bw (ag_pre_degraded_bw a) then transition_to now NORMAL (BandwidthRecovered bw) a else a
        else a)"

definition effective_alpha :: "'f agent_math \<Rightarrow> 'f agent \<Rightarrow> 'f" where
  "effective_alpha M a =
    (case ag_state a of
       NORMAL \<Rightarrow> am_clamp M (ag_current_alpha a) (am_minus_1 M) (am_1 M)
     | DEGRADED \<Rightarrow> am_clamp M (ag_current_alpha a) (am_minus_1 M) (am_03 M)
     | UNDER_ATTACK \<Rightarrow> am_zero M
     | RECOVERY \<Rightarrow> am_clamp M (ag_current_alpha a) (am_minus_1 M) (am_05 M))"

definition should_accept_connection :: "'f agent \<Rightarrow> bool" where
  "should_accept_connection a =
    (case ag_state a of NORMAL \<Rightarrow> True | DEGRADED \<Rightarrow> True | RECOVERY \<Rightarrow> True | UNDER_ATTACK \<Rightarrow> False)"

section \<open>Runs\<close>

text \<open>The inputs of an agent, each with the time it arrives.\<close>

datatype 'f agent_input = Cwnd 'f | Anomaly 'f | Bandwidth u32

fun agent_step :: "'f agent_math \<Rightarrow> 'f agent \<Rightarrow> u64 \<times> 'f agent_input \<Rightarrow> 'f agent" where
  "agent_step M a (now, Cwnd alpha) = on_cwnd_adjust now alpha a"
| "agent_step M a (now, Anomaly score) = on_anomaly M now score a"
| "agent_step M a (now, Bandwidth bw) = on_bw_prediction M now bw a"

definition agent_run :: "'f agent_math \<Rightarrow> 'f \<Rightarrow> (u64 \<times> 'f agent_input) list \<Rightarrow> 'f agent" where
  "agent_run M threshold evs = foldl (agent_step M) (agent_new M threshold) evs"

text \<open>The verdicts on the anomaly scores, the latest first, and how many alphas have come since the latest score.\<close>

definition verdicts :: "'f agent_math \<Rightarrow> 'f \<Rightarrow> (u64 \<times> 'f agent_input) list \<Rightarrow> bool list" where
  "verdicts M threshold evs =
     rev (List.map_filter (\<lambda>(_, ev). case ev of Anomaly score \<Rightarrow> Some (am_gt M score threshold) | _ \<Rightarrow> None) evs)"

definition under_attack :: "bool list \<Rightarrow> bool" where
  "under_attack vs \<longleftrightarrow> True \<in> set (take 50 vs)"

fun agent_edge :: "agent_state \<Rightarrow> agent_state \<Rightarrow> bool" where
  "agent_edge NORMAL s \<longleftrightarrow> s = DEGRADED \<or> s = UNDER_ATTACK"
| "agent_edge DEGRADED s \<longleftrightarrow> s = NORMAL \<or> s = UNDER_ATTACK"
| "agent_edge UNDER_ATTACK s \<longleftrightarrow> s = RECOVERY"
| "agent_edge RECOVERY s \<longleftrightarrow> s = NORMAL \<or> s = UNDER_ATTACK"

lemma attack_edge [simp]: "s \<noteq> UNDER_ATTACK \<Longrightarrow> agent_edge s UNDER_ATTACK"
  by (cases s) auto

text \<open>A log of transitions that ends in a state.\<close>

fun log_ends :: "'f agent_decision list \<Rightarrow> agent_state \<Rightarrow> bool" where
  "log_ends [] s \<longleftrightarrow> True"
| "log_ends [d] s \<longleftrightarrow> agent_edge (ad_from d) (ad_to d) \<and> ad_to d = s"
| "log_ends (d # d' # ds) s \<longleftrightarrow> agent_edge (ad_from d) (ad_to d) \<and> ad_to d = ad_from d' \<and> log_ends (d' # ds) s"

lemma log_ends_snoc:
  "log_ends ds (ad_from d) \<Longrightarrow> agent_edge (ad_from d) (ad_to d) \<Longrightarrow> log_ends (ds @ [d]) (ad_to d)"
  by (induction ds "ad_from d" rule: log_ends.induct) auto

lemma log_ends_tl: "log_ends ds s \<Longrightarrow> log_ends (tl ds) s"
  by (induction ds s rule: log_ends.induct) auto

definition agent_ok :: "bool list \<Rightarrow> 'f agent \<Rightarrow> bool" where
  "agent_ok vs a \<longleftrightarrow>
     (ag_state a = UNDER_ATTACK \<longleftrightarrow> under_attack vs) \<and>
     (ag_state a = UNDER_ATTACK \<longrightarrow> ag_anomaly_clear_count a = int (length (takeWhile Not vs))) \<and>
     (ag_state a = RECOVERY \<longrightarrow> 0 \<le> ag_recovery_ticks a \<and> ag_recovery_ticks a < 100) \<and>
     length (ag_history a) \<le> 1000 \<and> log_ends (ag_history a) (ag_state a)"

lemma transition_to_fields:
  assumes "ag_state a \<noteq> s"
  shows "ag_state (transition_to now s r a) = s"
    "ag_recovery_ticks (transition_to now s r a) = (if s = RECOVERY then 0 else ag_recovery_ticks a)"
    "ag_anomaly_clear_count (transition_to now s r a) = (if s = RECOVERY then 0 else ag_anomaly_clear_count a)"
    "ag_anomaly_threshold (transition_to now s r a) = ag_anomaly_threshold a"
  using assms by (simp_all add: transition_to_def Let_def)

lemma transition_to_log:
  assumes "log_ends (ag_history a) (ag_state a)" and "length (ag_history a) \<le> 1000" and "agent_edge (ag_state a) s"
  shows "log_ends (ag_history (transition_to now s r a)) s \<and> length (ag_history (transition_to now s r a)) \<le> 1000"
proof -
  define d where "d = \<lparr>ad_timestamp_us = now, ad_from = ag_state a, ad_to = s, ad_reason = r\<rparr>"
  have neq: "ag_state a \<noteq> s" using assms(3) by (cases "ag_state a") auto
  have "log_ends (ag_history a @ [d]) s" using log_ends_snoc [of "ag_history a" d] assms(1,3) by (simp add: d_def)
  then have "log_ends (tl (ag_history a @ [d])) s" "log_ends (ag_history a @ [d]) s" by (simp_all add: log_ends_tl)
  then show ?thesis using neq assms(2) by (auto simp: transition_to_def Let_def MAX_HISTORY_SIZE_def d_def)
qed

lemma under_attack_Cons:
  "under_attack (True # vs)"
  "under_attack (False # vs) \<longleftrightarrow> under_attack vs \<and> length (takeWhile Not vs) < 49"
proof -
  show "under_attack (True # vs)" by (simp add: under_attack_def)
  have *: "True \<in> set (take n vs) \<longleftrightarrow> length (takeWhile Not vs) < n \<and> True \<in> set vs" for n
  proof (induction vs arbitrary: n)
    case (Cons v vs)
    then show ?case by (cases n) auto
  qed simp
  show "under_attack (False # vs) \<longleftrightarrow> under_attack vs \<and> length (takeWhile Not vs) < 49"
    using * [of 49] * [of 50] by (auto simp: under_attack_def take_Cons')
qed

lemma on_anomaly_ok:
  assumes "agent_ok vs a"
  shows "agent_ok (am_gt M score (ag_anomaly_threshold a) # vs) (on_anomaly M now score a)"
proof -
  let ?over = "am_gt M score (ag_anomaly_threshold a)"
  let ?a = "a\<lparr>ag_anomaly_score := score\<rparr>"
  show ?thesis
  proof (cases ?over)
    case True
    let ?b = "?a\<lparr>ag_anomaly_clear_count := 0\<rparr>"
    have "log_ends (ag_history (transition_to now UNDER_ATTACK r ?b)) UNDER_ATTACK \<and>
        length (ag_history (transition_to now UNDER_ATTACK r ?b)) \<le> 1000" if "ag_state a \<noteq> UNDER_ATTACK" for r
      using assms that by (intro transition_to_log) (auto simp: agent_ok_def)
    then show ?thesis
      using True assms by (auto simp: on_anomaly_def Let_def agent_ok_def under_attack_Cons transition_to_fields)
  next
    case over: False
    show ?thesis
    proof (cases "ag_state a = UNDER_ATTACK \<and> ag_anomaly_clear_count a + 1 \<ge> 50")
      case True
      let ?b = "?a\<lparr>ag_anomaly_clear_count := ag_anomaly_clear_count a + 1\<rparr>"
      have "log_ends (ag_history (transition_to now RECOVERY r ?b)) RECOVERY \<and>
          length (ag_history (transition_to now RECOVERY r ?b)) \<le> 1000" for r
        using assms True by (intro transition_to_log) (auto simp: agent_ok_def)
      then show ?thesis
        using True over assms
        by (auto simp: on_anomaly_def Let_def agent_ok_def under_attack_Cons transition_to_fields ANOMALY_CLEAR_REQUIRED_def)
    next
      case False
      then show ?thesis
        using over assms by (auto simp: on_anomaly_def Let_def agent_ok_def under_attack_Cons ANOMALY_CLEAR_REQUIRED_def)
    qed
  qed
qed

lemma on_cwnd_adjust_ok:
  assumes "agent_ok vs a"
  shows "agent_ok vs (on_cwnd_adjust now alpha a)"
proof (cases "ag_state a = RECOVERY \<and> ag_recovery_ticks a + 1 \<ge> 100")
  case True
  let ?b = "a\<lparr>ag_current_alpha := alpha, ag_recovery_ticks := ag_recovery_ticks a + 1\<rparr>"
  have "log_ends (ag_history (transition_to now NORMAL r ?b)) NORMAL \<and>
      length (ag_history (transition_to now NORMAL r ?b)) \<le> 1000" for r
    using assms True by (intro transition_to_log) (auto simp: agent_ok_def)
  then show ?thesis
    using True assms by (auto simp: on_cwnd_adjust_def Let_def agent_ok_def transition_to_fields RECOVERY_TICKS_REQUIRED_def)
next
  case False
  then show ?thesis using assms by (auto simp: on_cwnd_adjust_def Let_def agent_ok_def RECOVERY_TICKS_REQUIRED_def)
qed

lemma on_bw_prediction_ok:
  assumes "agent_ok vs a"
  shows "agent_ok vs (on_bw_prediction M now bw a)"
proof -
  define b where "b = a\<lparr>ag_prev_predicted_bw := am_of_u32 M (ag_predicted_bw a), ag_predicted_bw := bw\<rparr>"
  have b: "agent_ok vs b" "ag_state b = ag_state a" using assms by (simp_all add: b_def agent_ok_def)
  have step: "agent_ok vs (transition_to now s r c)"
    if "agent_ok vs c" "agent_edge (ag_state c) s" "s \<noteq> UNDER_ATTACK" "s \<noteq> RECOVERY" "ag_state c \<noteq> UNDER_ATTACK"
    for s r and c :: "'a agent"
  proof -
    have "ag_state c \<noteq> s" using that(2) by (cases "ag_state c") auto
    then show ?thesis using that transition_to_log [OF _ _ that(2)] by (auto simp: agent_ok_def transition_to_fields)
  qed
  have d: "agent_ok vs (b\<lparr>ag_pre_degraded_bw := ag_prev_predicted_bw b\<rparr>)" using b(1) by (simp add: agent_ok_def)
  show ?thesis
    using b(1) step [OF d, of DEGRADED] step [OF b(1), of NORMAL]
    unfolding on_bw_prediction_def Let_def b_def [symmetric] by auto
qed

lemma agent_threshold: "ag_anomaly_threshold (agent_step M a ev) = ag_anomaly_threshold a"
  by (cases "(M, a, ev)" rule: agent_step.cases)
    (simp_all add: on_cwnd_adjust_def on_anomaly_def on_bw_prediction_def transition_to_def Let_def)

lemma agent_run_ok:
  "agent_ok (verdicts M threshold evs) (agent_run M threshold evs) \<and> ag_anomaly_threshold (agent_run M threshold evs) = threshold"
proof (induction evs rule: rev_induct)
  case Nil
  show ?case by (simp add: agent_run_def verdicts_def agent_ok_def agent_new_def under_attack_def)
next
  case (snoc ev evs)
  obtain now x where ev: "ev = (now, x)" by (cases ev)
  have run: "agent_run M threshold (evs @ [ev]) = agent_step M (agent_run M threshold evs) ev" by (simp add: agent_run_def)
  have vs: "verdicts M threshold (evs @ [ev]) =
      (case x of Anomaly score \<Rightarrow> [am_gt M score threshold] | _ \<Rightarrow> []) @ verdicts M threshold evs"
    by (cases x) (simp_all add: verdicts_def List.map_filter_def ev)
  show ?case
    using snoc on_anomaly_ok [of _ "agent_run M threshold evs" M] on_cwnd_adjust_ok on_bw_prediction_ok
    unfolding run vs agent_threshold by (cases x) (auto simp: ev)
qed

lemma accepts_iff: "should_accept_connection a \<longleftrightarrow> ag_state a \<noteq> UNDER_ATTACK"
  by (cases "ag_state a") (simp_all add: should_accept_connection_def)

text \<open>C40. The agent refuses connections exactly while one of the last fifty anomaly scores was over the
  threshold.  Whatever the three models report, in any order, this is also exactly when the learned
  congestion control is switched off; and the log holds at most a thousand transitions, each along an edge
  of the state machine, each starting where the one before ended, the last one in the current state.\<close>

theorem agent_attack_window:
  "let a = agent_run M threshold evs in
     (should_accept_connection a \<longleftrightarrow> True \<notin> set (take 50 (verdicts M threshold evs))) \<and>
     (ag_state a = UNDER_ATTACK \<longleftrightarrow> True \<in> set (take 50 (verdicts M threshold evs))) \<and>
     length (ag_history a) \<le> 1000 \<and> log_ends (ag_history a) (ag_state a)"
proof -
  have ok: "agent_ok (verdicts M threshold evs) (agent_run M threshold evs)" using agent_run_ok by (rule conjunct1)
  show ?thesis
    using ok unfolding Let_def accepts_iff agent_ok_def under_attack_def by (elim conjE, intro conjI) (simp_all only: simp_thms)
qed

end
