(* ===== verification/Xdp_Ring.thy ===== *)
theory Xdp_Ring
  imports Prelude
begin

text \<open>
  The view of a ring that user space shares with the kernel (\<^verbatim>\<open>include/neustack/hal/xdp_ring.hpp\<close>, class
  \<open>XdpRing\<close>) and the allocator of frames (\<^verbatim>\<open>include/neustack/hal/umem.hpp\<close>, \<open>UmemFrameAllocator\<close>).  The pointers
  of the view go to the shared positions and descriptors, which are fields of the record here; the kernel works
  on the other end of the ring by the same protocol.
\<close>

section \<open>The ring\<close>

record 'a xdp_ring =
  xr_producer :: u32
  xr_consumer :: u32
  xr_descs :: "'a list"
  xr_flags :: "u32 option"
  xr_mask :: u32
  xr_size :: u32
  xr_cached_prod :: u32
  xr_cached_cons :: u32

definition xr_new :: "'a xdp_ring" where
  "xr_new = \<lparr>xr_producer = 0, xr_consumer = 0, xr_descs = [], xr_flags = None, xr_mask = 0, xr_size = 0,
     xr_cached_prod = 0, xr_cached_cons = 0\<rparr>"

definition xr_init :: "u32 \<Rightarrow> u32 \<Rightarrow> 'a list \<Rightarrow> u32 \<Rightarrow> u32 option \<Rightarrow> 'a xdp_ring \<Rightarrow> 'a xdp_ring" where
  "xr_init producer consumer descs n flags r =
     r\<lparr>xr_producer := producer, xr_consumer := consumer, xr_descs := descs, xr_mask := n - 1, xr_size := n, xr_flags := flags\<rparr>"

definition xr_reserve :: "u32 \<Rightarrow> 'a xdp_ring \<Rightarrow> u32 \<times> 'a xdp_ring" where
  "xr_reserve count r =
    (let prod = xr_producer r; cons = xr_consumer r; free = xr_size r - (prod - cons)
     in (min count free, r\<lparr>xr_cached_prod := prod\<rparr>))"

text \<open>A store through the reference that \<open>ring_at\<close> returns.\<close>

definition xr_put :: "u32 \<Rightarrow> 'a \<Rightarrow> 'a xdp_ring \<Rightarrow> 'a xdp_ring option" where
  "xr_put idx v r =
    (let i = unat ((xr_cached_prod r + idx) AND xr_mask r)
     in if i < length (xr_descs r) then Some (r\<lparr>xr_descs := (xr_descs r)[i := v]\<rparr>) else None)"

definition xr_submit :: "u32 \<Rightarrow> 'a xdp_ring \<Rightarrow> 'a xdp_ring" where
  "xr_submit count r = r\<lparr>xr_producer := xr_cached_prod r + count\<rparr>"

definition xr_peek :: "u32 \<Rightarrow> 'a xdp_ring \<Rightarrow> u32 \<times> 'a xdp_ring" where
  "xr_peek count r =
    (let cons = xr_consumer r; prod = xr_producer r; available = prod - cons
     in (min count available, r\<lparr>xr_cached_cons := cons\<rparr>))"

definition xr_get :: "u32 \<Rightarrow> 'a xdp_ring \<Rightarrow> 'a option" where
  "xr_get idx r =
    (let i = unat ((xr_cached_cons r + idx) AND xr_mask r) in if i < length (xr_descs r) then Some (xr_descs r ! i) else None)"

definition xr_release :: "u32 \<Rightarrow> 'a xdp_ring \<Rightarrow> 'a xdp_ring" where
  "xr_release count r = r\<lparr>xr_consumer := xr_cached_cons r + count\<rparr>"

text \<open>\<open>XDP_RING_NEED_WAKEUP\<close> is 1.\<close>

definition xr_needs_wakeup :: "'a xdp_ring \<Rightarrow> bool" where
  "xr_needs_wakeup r \<longleftrightarrow> (case xr_flags r of None \<Rightarrow> False | Some f \<Rightarrow> f AND 1 \<noteq> 0)"

definition xr_empty :: "'a xdp_ring \<Rightarrow> bool" where
  "xr_empty r \<longleftrightarrow> xr_producer r = xr_consumer r"

text \<open>The kernel's end: as the consumer it takes the entry at the consumer position, as the producer it adds one.\<close>

definition kernel_take :: "'a xdp_ring \<Rightarrow> ('a \<times> 'a xdp_ring) option" where
  "kernel_take r =
    (if xr_consumer r = xr_producer r then None
     else Some (xr_descs r ! unat (xr_consumer r AND xr_mask r), r\<lparr>xr_consumer := xr_consumer r + 1\<rparr>))"

definition kernel_put :: "'a \<Rightarrow> 'a xdp_ring \<Rightarrow> 'a xdp_ring option" where
  "kernel_put v r =
    (if xr_producer r - xr_consumer r \<ge> xr_size r then None
     else Some (r\<lparr>xr_descs := (xr_descs r)[unat (xr_producer r AND xr_mask r) := v], xr_producer := xr_producer r + 1\<rparr>))"

section \<open>The ring as a queue\<close>

definition xr_wf :: "'a xdp_ring \<Rightarrow> bool" where
  "xr_wf r \<longleftrightarrow> (\<exists>k < 32. length (xr_descs r) = 2 ^ k \<and> xr_size r = 2 ^ k \<and> xr_mask r = mask k \<and>
     unat (xr_producer r - xr_consumer r) \<le> 2 ^ k)"

definition xr_used :: "'a xdp_ring \<Rightarrow> nat" where "xr_used r = unat (xr_producer r - xr_consumer r)"

definition xr_room :: "'a xdp_ring \<Rightarrow> nat" where "xr_room r = unat (xr_size r) - xr_used r"

text \<open>The \<open>n\<close> entries from the consumer position on.\<close>

definition xr_window :: "'a xdp_ring \<Rightarrow> nat \<Rightarrow> 'a list" where
  "xr_window r n = map (\<lambda>i. xr_descs r ! unat ((xr_consumer r + of_nat i) AND xr_mask r)) [0..<n]"

definition xr_contents :: "'a xdp_ring \<Rightarrow> 'a list" where "xr_contents r = xr_window r (xr_used r)"

lemma length_window [simp]: "length (xr_window r n) = n"
  by (simp add: xr_window_def)

lemma length_contents [simp]: "length (xr_contents r) = xr_used r"
  by (simp add: xr_contents_def)

lemma xr_slot:
  assumes "k < 32" and "xr_mask r = mask k"
  shows "unat ((pos + of_nat i) AND xr_mask r) = (unat (pos :: u32) + i) mod 2 ^ k"
proof -
  have "(2 ^ k :: nat) dvd 2 ^ 32" using assms(1) by (intro le_imp_power_dvd) simp
  then show ?thesis
    unfolding assms(2) take_bit_eq_mask [symmetric] unsigned_take_bit_eq
    by (simp add: unat_word_ariths unat_of_nat mod_mod_cancel take_bit_eq_mod mod_simps)
qed

lemma unat_pow2:
  assumes "k < 32"
  shows "unat (2 ^ k :: u32) = 2 ^ k"
proof -
  have "(2 ^ k :: nat) < 2 ^ 32" using assms by (rule power_strict_increasing) simp
  then have "unat (of_nat (2 ^ k) :: u32) = 2 ^ k" by (intro unat_of_nat_small) simp
  then show ?thesis by simp
qed

lemma xr_size_used: "xr_wf r \<Longrightarrow> xr_used r \<le> unat (xr_size r)"
  by (auto simp: xr_wf_def xr_used_def unat_pow2)

text \<open>An entry written behind the window extends it.\<close>

lemma window_write:
  assumes wf: "xr_wf r" and n: "n < unat (xr_size r)" and pos: "pos = xr_consumer r + of_nat n"
    and i: "i = unat (pos AND xr_mask r)"
  shows "i < length (xr_descs r)"
    "xr_window (r\<lparr>xr_descs := (xr_descs r)[i := v]\<rparr>) (Suc n) = xr_window r n @ [v]"
proof -
  obtain k where k: "k < 32" "length (xr_descs r) = 2 ^ k" "xr_size r = 2 ^ k" "xr_mask r = mask k"
    using wf by (auto simp: xr_wf_def)
  have i': "i = (unat (xr_consumer r) + n) mod 2 ^ k" unfolding i pos by (rule xr_slot [OF k(1,4)])
  then show len: "i < length (xr_descs r)" by (simp add: k(2))
  have n: "n < 2 ^ k" using n k by (simp add: unat_pow2)
  have other: "i \<noteq> unat ((xr_consumer r + of_nat j) AND xr_mask r)" if "j < n" for j
    using mod_offset_inj [of "unat (xr_consumer r)" j "2 ^ k" n] that n xr_slot [OF k(1,4), of "xr_consumer r" j] i' by auto
  have "xr_window (r\<lparr>xr_descs := (xr_descs r)[i := v]\<rparr>) n = xr_window r n"
    using other by (simp add: xr_window_def)
  moreover have "(xr_descs r)[i := v] ! unat ((xr_consumer r + of_nat n) AND xr_mask r) = v"
    using len by (simp add: i pos)
  ultimately show "xr_window (r\<lparr>xr_descs := (xr_descs r)[i := v]\<rparr>) (Suc n) = xr_window r n @ [v]"
    by (simp add: xr_window_def)
qed


text \<open>What the two ends see of a well-formed ring: the producer's room, the entries it has written and not yet
  submitted, and the entries the consumer has been given.\<close>

definition same_view :: "'a xdp_ring \<Rightarrow> 'a xdp_ring \<Rightarrow> bool" where
  "same_view r r' \<longleftrightarrow> xr_size r' = xr_size r \<and> xr_mask r' = xr_mask r \<and> xr_flags r' = xr_flags r \<and>
     length (xr_descs r') = length (xr_descs r)"

text \<open>A ring in which the first \<open>m\<close> reserved slots hold \<open>vs\<close>.\<close>

definition xr_filled :: "'a xdp_ring \<Rightarrow> 'a list \<Rightarrow> 'a xdp_ring \<Rightarrow> bool" where
  "xr_filled r vs r' \<longleftrightarrow> xr_wf r' \<and> same_view r r' \<and> xr_producer r' = xr_producer r \<and> xr_consumer r' = xr_consumer r \<and>
     xr_cached_prod r' = xr_producer r \<and> xr_used r + length vs \<le> unat (xr_size r) \<and>
     xr_window r' (xr_used r + length vs) = xr_contents r @ vs"

lemma xr_size_room: "xr_wf r \<Longrightarrow> unat (xr_size r - (xr_producer r - xr_consumer r)) = xr_room r"
  using xr_size_used [of r] by (simp add: xr_room_def xr_used_def unat_sub_small word_le_nat_alt)

lemma reserve_filled:
  assumes "xr_wf r" and "xr_reserve count r = (n, r')"
  shows "xr_filled r [] r'" "unat n = min (unat count) (xr_room r)"
  using assms xr_size_room [OF assms(1)] xr_size_used [OF assms(1)]
  by (auto simp: xr_reserve_def Let_def xr_filled_def same_view_def xr_wf_def xr_contents_def xr_window_def xr_used_def
      min_def word_le_nat_alt)

lemma put_filled:
  assumes "xr_filled r vs r'" and "length vs < xr_room r" and "idx = of_nat (length vs)"
  shows "\<exists>r''. xr_put idx v r' = Some r'' \<and> xr_filled r (vs @ [v]) r''"
proof -
  let ?n = "xr_used r + length vs"
  define i where "i = unat ((xr_cached_prod r' + idx) AND xr_mask r')"
  have wf: "xr_wf r'" and n: "?n < unat (xr_size r')" using assms by (auto simp: xr_filled_def same_view_def xr_room_def)
  have pos: "xr_cached_prod r' + idx = xr_consumer r' + of_nat ?n"
    using assms by (simp add: xr_filled_def xr_used_def)
  note w = window_write(1) [OF wf n pos i_def] window_write(2) [OF wf n pos i_def, where v = v]
  have "xr_put idx v r' = Some (r'\<lparr>xr_descs := (xr_descs r')[i := v]\<rparr>)"
    using w(1) by (simp add: xr_put_def i_def)
  moreover have "xr_filled r (vs @ [v]) (r'\<lparr>xr_descs := (xr_descs r')[i := v]\<rparr>)"
    using assms w(2) n by (auto simp: xr_filled_def same_view_def xr_wf_def)
  ultimately show ?thesis by blast
qed

lemma submit_filled:
  assumes "xr_filled r vs r'" and "n = of_nat (length vs)"
  shows "xr_wf (xr_submit n r')" "xr_contents (xr_submit n r') = xr_contents r @ vs" "same_view r (xr_submit n r')"
proof -
  have le: "xr_used r + length vs \<le> unat (xr_size r)" using assms by (simp add: xr_filled_def)
  have "unat (xr_size r) < 2 ^ 32" using unat_lt_2_32 [of "xr_size r"] by simp
  then have "unat (xr_producer r - xr_consumer r + n) = xr_used r + length vs"
    using le assms(2) by (simp add: xr_used_def unat_word_ariths unat_of_nat take_bit_nat_eq_self)
  moreover have "xr_producer (xr_submit n r') - xr_consumer (xr_submit n r') = xr_producer r - xr_consumer r + n"
    using assms(1) by (simp add: xr_submit_def xr_filled_def)
  ultimately have used: "xr_used (xr_submit n r') = xr_used r + length vs" by (simp only: xr_used_def)
  have win: "xr_window (xr_submit n r') m = xr_window r' m" for m by (simp add: xr_window_def xr_submit_def)
  show "xr_contents (xr_submit n r') = xr_contents r @ vs"
    using assms(1) by (simp add: xr_contents_def [of "xr_submit n r'"] used win xr_filled_def)
  obtain k where k: "k < 32" "length (xr_descs r') = 2 ^ k" "xr_size r' = 2 ^ k" "xr_mask r' = mask k"
    using assms(1) by (auto simp: xr_filled_def xr_wf_def)
  have "unat (xr_producer (xr_submit n r') - xr_consumer (xr_submit n r')) \<le> 2 ^ k"
    using used le k unat_pow2 [OF k(1)] assms(1) by (simp add: xr_used_def xr_filled_def same_view_def)
  then show "xr_wf (xr_submit n r')" using k by (auto simp: xr_wf_def xr_submit_def)
  show "same_view r (xr_submit n r')" using assms(1) by (simp add: xr_filled_def same_view_def xr_submit_def)
qed

text \<open>A ring whose consumer has looked at the entries.\<close>

definition xr_peeked :: "'a xdp_ring \<Rightarrow> 'a xdp_ring \<Rightarrow> bool" where
  "xr_peeked r r' \<longleftrightarrow> r' = r\<lparr>xr_cached_cons := xr_consumer r\<rparr>"

lemma peek_peeked:
  assumes "xr_peek count r = (n, r')"
  shows "xr_peeked r r'" "unat n = min (unat count) (xr_used r)"
  using assms by (auto simp: xr_peek_def Let_def xr_peeked_def xr_used_def min_def word_le_nat_alt)

lemma get_peeked:
  assumes "xr_wf r" and "xr_peeked r r'" and "m < xr_used r" and "idx = of_nat m"
  shows "xr_get idx r' = Some (xr_contents r ! m)"
proof -
  obtain k where k: "k < 32" "length (xr_descs r) = 2 ^ k" "xr_mask r = mask k" using assms(1) by (auto simp: xr_wf_def)
  show ?thesis
    using assms(2-4) xr_slot [OF k(1,3), of "xr_consumer r" m]
    by (simp add: xr_peeked_def xr_get_def xr_contents_def xr_window_def k(2))
qed

lemma window_drop: "drop m (xr_window r n) = xr_window (r\<lparr>xr_consumer := xr_consumer r + of_nat m\<rparr>) (n - m)"
proof (rule nth_equalityI)
  fix i
  assume "i < length (drop m (xr_window r n))"
  then have "m + i < n" "i < n - m" by simp_all
  then show "drop m (xr_window r n) ! i = xr_window (r\<lparr>xr_consumer := xr_consumer r + of_nat m\<rparr>) (n - m) ! i"
    by (simp add: xr_window_def add.assoc)
qed simp

lemma consume:
  assumes "xr_wf r" and "m \<le> xr_used r" and "r' = r\<lparr>xr_consumer := xr_consumer r + of_nat m, xr_cached_cons := c\<rparr>"
  shows "xr_wf r'" "xr_contents r' = drop m (xr_contents r)" "same_view r r'"
proof -
  have "unat (of_nat m :: u32) = m" using assms(2) unat_lt_2_32 [of "xr_producer r - xr_consumer r"]
    by (intro unat_of_nat_small) (simp add: xr_used_def)
  then have "unat (xr_producer r - xr_consumer r - of_nat m) = xr_used r - m"
    using assms(2) by (simp add: xr_used_def unat_sub_small word_le_nat_alt)
  moreover have "xr_producer r' - xr_consumer r' = xr_producer r - xr_consumer r - of_nat m" by (simp add: assms(3))
  ultimately have used: "xr_used r' = xr_used r - m" by (simp only: xr_used_def)
  have "xr_window r' n = xr_window (r\<lparr>xr_consumer := xr_consumer r + of_nat m\<rparr>) n" for n
    by (simp add: xr_window_def assms(3))
  then show "xr_contents r' = drop m (xr_contents r)"
    unfolding xr_contents_def used window_drop by simp
  show "xr_wf r'" using assms(1) used unfolding xr_wf_def xr_used_def by (auto simp: assms(3))
  show "same_view r r'" by (simp add: assms(3) same_view_def)
qed

lemma release_peeked:
  assumes "xr_wf r" and "xr_peeked r r'" and "m \<le> xr_used r" and "n = of_nat m"
  shows "xr_wf (xr_release n r')" "xr_contents (xr_release n r') = drop m (xr_contents r)" "same_view r (xr_release n r')"
proof -
  have "xr_release n r' = r\<lparr>xr_consumer := xr_consumer r + of_nat m, xr_cached_cons := xr_consumer r\<rparr>"
    using assms(2,4) by (simp add: xr_release_def xr_peeked_def)
  then show "xr_wf (xr_release n r')" "xr_contents (xr_release n r') = drop m (xr_contents r)" "same_view r (xr_release n r')"
    using consume [OF assms(1,3)] by blast+
qed

lemma kernel_take_contents:
  assumes "xr_wf r" and "kernel_take r = Some (v, r')"
  shows "xr_wf r'" "xr_contents r = v # xr_contents r'" "same_view r r'"
proof -
  have ne: "xr_consumer r \<noteq> xr_producer r" and v: "v = xr_descs r ! unat (xr_consumer r AND xr_mask r)"
    and r': "r' = r\<lparr>xr_consumer := xr_consumer r + of_nat 1, xr_cached_cons := xr_cached_cons r\<rparr>"
    using assms(2) by (auto simp: kernel_take_def split: if_splits)
  have "unat (xr_producer r - xr_consumer r) \<noteq> 0" using ne by (simp add: unat_eq_0)
  then have used: "1 \<le> xr_used r" by (simp add: xr_used_def)
  note c = consume [OF assms(1) used r']
  have "xr_contents r ! 0 = v" using used by (simp add: xr_contents_def xr_window_def v)
  moreover have "xr_contents r \<noteq> []" using used by (metis length_contents list.size(3) not_one_le_zero)
  ultimately show "xr_contents r = v # xr_contents r'" unfolding c(2) by (cases "xr_contents r") simp_all
  show "xr_wf r'" "same_view r r'" using c by simp_all
qed

lemma kernel_put_contents:
  assumes "xr_wf r" and "kernel_put v r = Some r'"
  shows "xr_wf r'" "xr_contents r' = xr_contents r @ [v]" "same_view r r'"
proof -
  define i where "i = unat (xr_producer r AND xr_mask r)"
  have room: "xr_used r < unat (xr_size r)" and r': "r' = r\<lparr>xr_descs := (xr_descs r)[i := v], xr_producer := xr_producer r + 1\<rparr>"
    using assms(2) by (auto simp: kernel_put_def i_def xr_used_def word_le_nat_alt split: if_splits)
  have pos: "xr_producer r = xr_consumer r + of_nat (xr_used r)" by (simp add: xr_used_def)
  note w = window_write(2) [OF assms(1) room pos i_def, where v = v]
  have "unat (xr_producer r - xr_consumer r + 1) = xr_used r + 1"
    using room unat_lt_2_32 [of "xr_size r"] by (simp add: xr_used_def unat_word_ariths)
  moreover have "xr_producer r' - xr_consumer r' = xr_producer r - xr_consumer r + 1" by (simp add: r')
  ultimately have used: "xr_used r' = Suc (xr_used r)" by (simp add: xr_used_def)
  have "xr_window r' n = xr_window (r\<lparr>xr_descs := (xr_descs r)[i := v]\<rparr>) n" for n by (simp add: xr_window_def r')
  then show "xr_contents r' = xr_contents r @ [v]" using w by (simp add: xr_contents_def used)
  show "xr_wf r'" using assms(1) used room unat_pow2 unfolding xr_wf_def xr_used_def by (auto simp: r')
  show "same_view r r'" by (simp add: r' same_view_def)
qed

lemma init_contents:
  assumes "k < 32" and "length descs = 2 ^ k" and "n = 2 ^ k"
  shows "xr_wf (xr_init 0 0 descs n flags r)" "xr_contents (xr_init 0 0 descs n flags r) = []"
  using assms by (auto simp: xr_wf_def xr_init_def xr_contents_def xr_window_def xr_used_def mask_eq_exp_minus_1)

section \<open>The frame allocator\<close>

text \<open>The end of the list is the back of the vector.\<close>

record umem_alloc =
  ua_frame_size :: u32
  ua_free :: "u64 list"

definition INVALID_ADDR :: u64 where "INVALID_ADDR = - 1"

definition ua_new :: "u32 \<Rightarrow> u32 \<Rightarrow> umem_alloc" where
  "ua_new frame_count frame_size =
     \<lparr>ua_frame_size = frame_size, ua_free = map (\<lambda>i. ucast (of_nat i * frame_size)) [0..<unat frame_count]\<rparr>"

definition ua_alloc :: "umem_alloc \<Rightarrow> u64 \<times> umem_alloc" where
  "ua_alloc a = (if ua_free a = [] then (INVALID_ADDR, a) else (last (ua_free a), a\<lparr>ua_free := butlast (ua_free a)\<rparr>))"

fun ua_pop :: "nat \<Rightarrow> u64 list \<Rightarrow> u64 list \<times> u64 list" where
  "ua_pop 0 fl = ([], fl)"
| "ua_pop (Suc n) fl = (case ua_pop n (butlast fl) of (addrs, fl') \<Rightarrow> (last fl # addrs, fl'))"

definition ua_alloc_batch :: "u32 \<Rightarrow> umem_alloc \<Rightarrow> u64 list \<times> umem_alloc" where
  "ua_alloc_batch count a =
    (let n = min count (of_nat (length (ua_free a)))
     in case ua_pop (unat n) (ua_free a) of (addrs, fl) \<Rightarrow> (addrs, a\<lparr>ua_free := fl\<rparr>))"

definition ua_give :: "u64 \<Rightarrow> umem_alloc \<Rightarrow> umem_alloc" where
  "ua_give addr a = a\<lparr>ua_free := ua_free a @ [addr]\<rparr>"

definition ua_give_batch :: "u64 list \<Rightarrow> umem_alloc \<Rightarrow> umem_alloc" where
  "ua_give_batch addrs a = foldl (\<lambda>a addr. ua_give addr a) a addrs"

definition ua_available :: "umem_alloc \<Rightarrow> u32" where
  "ua_available a = of_nat (length (ua_free a))"

end
