(* ===== verification/Afxdp.thy ===== *)
theory Afxdp
  imports Xdp_Ring "HOL-Library.Monad_Syntax"
begin

text \<open>
  The AF\_XDP device (\<^verbatim>\<open>src/hal/hal_linux_afxdp.cpp\<close>, class \<open>LinuxAFXDPDevice\<close>) with its UMEM
  (\<^verbatim>\<open>src/hal/umem.cpp\<close>) and Ethernet framing (\<^verbatim>\<open>include/neustack/hal/ethernet.hpp\<close>).  The memory of the UMEM is a
  list of bytes, and an access outside it is \<open>None\<close>.  The results of system calls are parameters, and those
  without a result the code looks at are logged.
\<close>

section \<open>Memory and Ethernet frames\<close>

definition mem_store :: "nat \<Rightarrow> bytes \<Rightarrow> bytes \<Rightarrow> bytes option" where
  "mem_store at bs m = (if at + length bs \<le> length m then Some (blit m at bs) else None)"

definition ETH_HLEN :: nat where "ETH_HLEN = 14"
definition ETH_P_IP :: u16 where "ETH_P_IP = 0x0800"

definition eth_header :: "bytes \<Rightarrow> bytes \<Rightarrow> u16 \<Rightarrow> bytes" where
  "eth_header dst_mac src_mac ethertype = take 6 dst_mac @ take 6 src_mac @ st16 (htons ethertype)"

text \<open>The EtherType in host order, the place of the payload and its length; only the first is set for a short frame.\<close>

definition parse_ethernet :: "nat \<Rightarrow> u32 \<Rightarrow> bytes \<Rightarrow> (u16 \<times> nat \<times> u32) option" where
  "parse_ethernet frame frame_len m =
    (if unat frame_len < ETH_HLEN then Some (0, 0, 0)
     else do { be \<leftarrow> rd16 m (frame + 12); Some (htons be, frame + ETH_HLEN, frame_len - of_nat ETH_HLEN) })"

definition build_ethernet :: "nat \<Rightarrow> bytes \<Rightarrow> bytes \<Rightarrow> u16 \<Rightarrow> bytes \<Rightarrow> bytes option" where
  "build_ethernet buf dst_mac src_mac ethertype m = mem_store (buf - ETH_HLEN) (eth_header dst_mac src_mac ethertype) m"

section \<open>The device\<close>

text \<open>The data of a packet is in the UMEM or in a buffer of the caller.\<close>

datatype packet_data = In_Umem nat | External bytes

record packet_desc =
  pd_data :: packet_data
  pd_len :: u32
  pd_addr :: u32
  pd_port_id :: u16
  pd_flags :: u16

definition FLAG_ZEROCOPY :: u16 where "FLAG_ZEROCOPY = 1"
definition FLAG_NEED_FREE :: u16 where "FLAG_NEED_FREE = 2"

definition is_zerocopy :: "packet_desc \<Rightarrow> bool" where
  "is_zerocopy d \<longleftrightarrow> pd_flags d AND FLAG_ZEROCOPY \<noteq> 0"

record xdp_desc =
  xd_addr :: u64
  xd_len :: u32
  xd_options :: u32

record afxdp_config =
  ac_local_mac :: bytes
  ac_gateway_mac :: bytes
  ac_frame_count :: u32
  ac_frame_size :: u32
  ac_headroom :: u32
  ac_fill_ring_size :: u32
  ac_comp_ring_size :: u32
  ac_rx_ring_size :: u32
  ac_tx_ring_size :: u32
  ac_batch_size :: u32
  ac_zero_copy :: bool

record afxdp_stats =
  xs_rx_packets :: u64
  xs_tx_packets :: u64
  xs_rx_dropped :: u64
  xs_tx_dropped :: u64
  xs_fill_ring_empty :: u64
  xs_invalid_descs :: u64

datatype afxdp_call = Kick_Rx | Kick_Tx

record afxdp =
  ax_config :: afxdp_config
  ax_ifindex :: u32
  ax_xsk_fd :: int
  ax_mem :: bytes
  ax_alloc :: umem_alloc
  ax_fill :: "u64 xdp_ring"
  ax_comp :: "u64 xdp_ring"
  ax_rx :: "xdp_desc xdp_ring"
  ax_tx :: "xdp_desc xdp_ring"
  ax_mapped :: "bool list"
  ax_bpf_prog_fd :: int
  ax_stats :: afxdp_stats
  ax_calls :: "afxdp_call list"

definition afxdp_new :: "afxdp_config \<Rightarrow> afxdp" where
  "afxdp_new c = \<lparr>ax_config = c, ax_ifindex = - 1, ax_xsk_fd = -1, ax_mem = [], ax_alloc = ua_new (ac_frame_count c) (ac_frame_size c),
     ax_fill = xr_new, ax_comp = xr_new, ax_rx = xr_new, ax_tx = xr_new, ax_mapped = [False, False, False, False],
     ax_bpf_prog_fd = -1, ax_stats = \<lparr>xs_rx_packets = 0, xs_tx_packets = 0, xs_rx_dropped = 0, xs_tx_dropped = 0,
       xs_fill_ring_empty = 0, xs_invalid_descs = 0\<rparr>, ax_calls = []\<rparr>"

section \<open>Frames for the kernel\<close>

text \<open>The loop that gives free frames to the reserved slots of the fill ring; the result counts those filled.\<close>

fun fill_frames :: "nat \<Rightarrow> u32 \<Rightarrow> afxdp \<Rightarrow> (u32 \<times> afxdp) option" where
  "fill_frames 0 i s = Some (i, s)"
| "fill_frames (Suc n) i s =
    (case ua_alloc (ax_alloc s) of
       (addr, a) \<Rightarrow>
         if addr = INVALID_ADDR then Some (i, s)
         else do {
           fill \<leftarrow> xr_put i addr (ax_fill s);
           fill_frames n (i + 1) (s\<lparr>ax_alloc := a, ax_fill := fill\<rparr>)
         })"

text \<open>A reservation of \<open>count\<close> slots, the loop, and the submission of what was filled.\<close>

definition refill_ring :: "u32 \<Rightarrow> afxdp \<Rightarrow> afxdp option" where
  "refill_ring count s =
    (case xr_reserve count (ax_fill s) of
       (n, fill) \<Rightarrow> do {
         (filled, s) \<leftarrow> fill_frames (unat n) 0 (s\<lparr>ax_fill := fill\<rparr>);
         Some (s\<lparr>ax_fill := xr_submit filled (ax_fill s)\<rparr>)
       })"

definition populate_fill_ring :: "afxdp \<Rightarrow> afxdp option" where
  "populate_fill_ring s = refill_ring (ac_frame_count (ax_config s) div 2) s"

definition refill_fill_ring :: "afxdp \<Rightarrow> afxdp option" where
  "refill_fill_ring s =
    (case xr_reserve 0 (ax_fill s) of
       (avail, fill) \<Rightarrow>
         let s = s\<lparr>ax_fill := fill\<rparr>; threshold = ac_fill_ring_size (ax_config s) div 4
         in if avail \<ge> threshold \<or> ua_available (ax_alloc s) = 0 then Some s
            else
              let s = s\<lparr>ax_stats := (ax_stats s)\<lparr>xs_fill_ring_empty := xs_fill_ring_empty (ax_stats s) + 1\<rparr>\<rparr>;
                  need = ac_fill_ring_size (ax_config s) div 2 - avail
              in refill_ring need s)"

fun reclaim_loop :: "nat \<Rightarrow> u32 \<Rightarrow> afxdp \<Rightarrow> afxdp option" where
  "reclaim_loop 0 i s = Some s"
| "reclaim_loop (Suc n) i s = do {
     addr \<leftarrow> xr_get i (ax_comp s);
     reclaim_loop n (i + 1) (s\<lparr>ax_alloc := ua_give addr (ax_alloc s)\<rparr>)
   }"

definition reclaim_completion_ring :: "afxdp \<Rightarrow> afxdp option" where
  "reclaim_completion_ring s =
    (case xr_peek (ac_batch_size (ax_config s)) (ax_comp s) of
       (n, cr) \<Rightarrow>
         let s = s\<lparr>ax_comp := cr\<rparr>
         in if n = 0 then Some s
            else do {
              s \<leftarrow> reclaim_loop (unat n) 0 s;
              Some (s\<lparr>ax_comp := xr_release n (ax_comp s)\<rparr>)
            })"

definition wake_rx :: "afxdp \<Rightarrow> afxdp" where
  "wake_rx s = (if xr_needs_wakeup (ax_fill s) then s\<lparr>ax_calls := ax_calls s @ [Kick_Rx]\<rparr> else s)"

section \<open>Receiving\<close>

fun recv_loop :: "nat \<Rightarrow> u32 \<Rightarrow> afxdp \<Rightarrow> (packet_desc list \<times> afxdp) option" where
  "recv_loop 0 i s = Some ([], s)"
| "recv_loop (Suc n) i s = do {
     d \<leftarrow> xr_get i (ax_rx s);
     (etype, payload, payload_len) \<leftarrow> parse_ethernet (unat (xd_addr d)) (xd_len d) (ax_mem s);
     if etype \<noteq> ETH_P_IP
     then recv_loop n (i + 1) (s\<lparr>ax_alloc := ua_give (xd_addr d) (ax_alloc s),
       ax_stats := (ax_stats s)\<lparr>xs_rx_dropped := xs_rx_dropped (ax_stats s) + 1\<rparr>\<rparr>)
     else do {
       (ds, s) \<leftarrow> recv_loop n (i + 1) s;
       Some (\<lparr>pd_data = In_Umem payload, pd_len = payload_len, pd_addr = ucast (xd_addr d), pd_port_id = 0,
         pd_flags = FLAG_ZEROCOPY OR FLAG_NEED_FREE\<rparr> # ds, s)
     }
   }"

definition recv_batch :: "u32 \<Rightarrow> afxdp \<Rightarrow> (packet_desc list \<times> afxdp) option" where
  "recv_batch max_count s = do {
     s \<leftarrow> reclaim_completion_ring s;
     s \<leftarrow> refill_fill_ring s;
     let (n, rx) = xr_peek max_count (ax_rx s);
     let s = s\<lparr>ax_rx := rx\<rparr>;
     if n = 0 then Some ([], wake_rx s)
     else do {
       (ds, s) \<leftarrow> recv_loop (unat n) 0 s;
       let out = of_nat (length ds);
       let s = s\<lparr>ax_rx := xr_release n (ax_rx s),
         ax_stats := (ax_stats s)\<lparr>xs_rx_packets := xs_rx_packets (ax_stats s) + of_nat (length ds)\<rparr>\<rparr>;
       s \<leftarrow> (if out < n then refill_ring (n - out) s else Some s);
       Some (ds, s)
     }
   }"

fun release_loop :: "u32 \<Rightarrow> packet_desc list \<Rightarrow> afxdp \<Rightarrow> afxdp option" where
  "release_loop i [] s = Some s"
| "release_loop i (d # ds) s = do {
     fill \<leftarrow> xr_put i (ucast (pd_addr d)) (ax_fill s);
     release_loop (i + 1) ds (s\<lparr>ax_fill := fill\<rparr>)
   }"

definition release_rx :: "packet_desc list \<Rightarrow> afxdp \<Rightarrow> afxdp option" where
  "release_rx descs s =
    (case xr_reserve (of_nat (length descs)) (ax_fill s) of
       (n, fill) \<Rightarrow> do {
         s \<leftarrow> release_loop 0 (take (unat n) descs) (s\<lparr>ax_fill := fill\<rparr>);
         let s = s\<lparr>ax_fill := xr_submit n (ax_fill s),
           ax_alloc := ua_give_batch (map (\<lambda>d. ucast (pd_addr d)) (drop (unat n) descs)) (ax_alloc s)\<rparr>;
         s \<leftarrow> refill_fill_ring s;
         Some (wake_rx s)
       })"

section \<open>Sending\<close>

definition pd_bytes :: "packet_desc \<Rightarrow> bytes \<Rightarrow> bytes option" where
  "pd_bytes d m =
    (case pd_data d of
       In_Umem off \<Rightarrow> rd_slice m off (unat (pd_len d))
     | External bs \<Rightarrow> rd_slice bs 0 (unat (pd_len d)))"

text \<open>The first reserved slots get the descriptors; the result counts those written.\<close>

fun send_descs :: "u32 \<Rightarrow> u32 \<Rightarrow> packet_desc list \<Rightarrow> afxdp \<Rightarrow> (u32 \<times> afxdp) option" where
  "send_descs count i [] s = Some (i, s)"
| "send_descs count i (d # ds) s =
    (if is_zerocopy d then do {
       tx \<leftarrow> xr_put i \<lparr>xd_addr = ucast (pd_addr d), xd_len = pd_len d, xd_options = 0\<rparr> (ax_tx s);
       send_descs count (i + 1) ds (s\<lparr>ax_tx := tx\<rparr>)
     }
     else
       (case ua_alloc (ax_alloc s) of
          (addr, a) \<Rightarrow>
            if addr = INVALID_ADDR
            then Some (i, s\<lparr>ax_stats := (ax_stats s)\<lparr>xs_invalid_descs := xs_invalid_descs (ax_stats s) + ucast (count - i)\<rparr>\<rparr>)
            else do {
              m \<leftarrow> build_ethernet (unat addr + ETH_HLEN) (ac_gateway_mac (ax_config s)) (ac_local_mac (ax_config s)) ETH_P_IP (ax_mem s);
              bs \<leftarrow> pd_bytes d m;
              m \<leftarrow> mem_store (unat addr + ETH_HLEN) bs m;
              tx \<leftarrow> xr_put i \<lparr>xd_addr = addr, xd_len = pd_len d + of_nat ETH_HLEN, xd_options = 0\<rparr> (ax_tx s);
              send_descs count (i + 1) ds (s\<lparr>ax_alloc := a, ax_mem := m, ax_tx := tx\<rparr>)
            }))"

definition send_batch :: "packet_desc list \<Rightarrow> afxdp \<Rightarrow> (u32 \<times> afxdp) option" where
  "send_batch descs s =
    (let count = of_nat (length descs) in
     case xr_reserve count (ax_tx s) of
       (n, tx) \<Rightarrow>
         let s = s\<lparr>ax_tx := tx\<rparr>
         in if n = 0
            then Some (0, s\<lparr>ax_stats := (ax_stats s)\<lparr>xs_tx_dropped := xs_tx_dropped (ax_stats s) + ucast count\<rparr>\<rparr>)
            else do {
              (n, s) \<leftarrow> send_descs count 0 (take (unat n) descs) s;
              let s = s\<lparr>ax_tx := xr_submit n (ax_tx s),
                ax_stats := (ax_stats s)\<lparr>xs_tx_packets := xs_tx_packets (ax_stats s) + ucast n\<rparr>\<rparr>;
              let s = (if xr_needs_wakeup (ax_tx s) then s\<lparr>ax_calls := ax_calls s @ [Kick_Tx]\<rparr> else s);
              Some (n, s)
            })"

text \<open>The calls for a single packet; \<open>poll\<close> gives the events it found.\<close>

definition afxdp_send :: "bytes \<Rightarrow> afxdp \<Rightarrow> (int \<times> afxdp) option" where
  "afxdp_send bs s = do {
     (sent, s) \<leftarrow> send_batch [\<lparr>pd_data = External bs, pd_len = of_nat (length bs), pd_addr = 0, pd_port_id = 0, pd_flags = 0\<rparr>] s;
     Some (if sent > 0 then int (length bs) else -1, s)
   }"

definition poll_events :: "(int \<times> bool \<times> bool \<times> bool) \<Rightarrow> nat" where
  "poll_events result =
    (case result of
       (ret, readable, writable, failed) \<Rightarrow>
         if ret < 0 then 4 else if ret = 0 then 0
         else (if readable then 1 else 0) + (if writable then 2 else 0) + (if failed then 4 else 0))"

definition afxdp_recv :: "(int \<times> bool \<times> bool \<times> bool) \<Rightarrow> nat \<Rightarrow> int \<Rightarrow> afxdp \<Rightarrow> (bytes \<times> afxdp) option" where
  "afxdp_recv polled len timeout_ms s =
    (if timeout_ms \<noteq> 0 \<and> even (poll_events polled) then Some ([], s)
     else do {
       (ds, s) \<leftarrow> recv_batch 1 s;
       (case ds of
          [] \<Rightarrow> Some ([], s)
        | d # _ \<Rightarrow> do {
            bs \<leftarrow> (case pd_data d of In_Umem off \<Rightarrow> rd_slice (ax_mem s) off (min len (unat (pd_len d))) | External bs \<Rightarrow> Some bs);
            s \<leftarrow> release_rx [d] s;
            Some (bs, s)
          })
     })"
section \<open>Opening and closing\<close>

text \<open>
  What the system calls of \<open>open\<close> return: the index of the interface, the addresses found for it and for its
  gateway, whether the memory of the UMEM was mapped, the socket, whether the UMEM was registered, the results of
  the calls that set the four ring sizes and read the offsets, of the four mappings, of \<open>bind\<close> and, where the
  card cannot do zero copy, of the second \<open>bind\<close>, and the program that was attached.
\<close>

record afxdp_os =
  os_ifindex :: u32
  os_local_mac :: "bytes option"
  os_gateway_mac :: "bytes option"
  os_umem_mapped :: bool
  os_socket :: int
  os_registered :: bool
  os_ring_sizes :: "bool list"
  os_offsets :: bool
  os_ring_maps :: "bool list"
  os_bind :: bool
  os_bind_unsupported :: bool
  os_bind_copy :: bool
  os_bpf_prog :: "int option"
  os_ring_flags :: "u32 list"

text \<open>\<open>Umem::create\<close>: memory is zeroed.\<close>

definition umem_create :: "afxdp_os \<Rightarrow> afxdp \<Rightarrow> bool \<times> afxdp" where
  "umem_create os s =
    (if os_umem_mapped os
     then (True, s\<lparr>ax_mem := replicate (unat (ac_frame_count (ax_config s)) * unat (ac_frame_size (ax_config s))) 0\<rparr>)
     else (False, s\<lparr>ax_mem := []\<rparr>))"

definition create_socket :: "afxdp_os \<Rightarrow> afxdp \<Rightarrow> bool \<times> afxdp" where
  "create_socket os s =
    (let s = s\<lparr>ax_xsk_fd := os_socket os\<rparr>
     in if ax_xsk_fd s < 0 then (False, s) else if \<not> os_registered os then (False, s) else (True, s))"

text \<open>\<open>mmap_ring\<close> and \<open>init\<close> of one ring; a ring the kernel has just made is empty.\<close>

definition map_ring :: "afxdp_os \<Rightarrow> nat \<Rightarrow> u32 \<Rightarrow> 'a \<Rightarrow> 'a xdp_ring \<Rightarrow> 'a xdp_ring" where
  "map_ring os i n zero r = xr_init 0 0 (replicate (unat n) zero) n (Some (os_ring_flags os ! i)) r"

definition setup_rings :: "afxdp_os \<Rightarrow> afxdp \<Rightarrow> bool \<times> afxdp" where
  "setup_rings os s =
    (let c = ax_config s; desc0 = \<lparr>xd_addr = 0, xd_len = 0, xd_options = 0\<rparr> in
     if False \<in> set (take 4 (os_ring_sizes os)) then (False, s)
     else if \<not> os_offsets os then (False, s)
     else if \<not> os_ring_maps os ! 0 then (False, s)
     else
       let s = s\<lparr>ax_mapped := (ax_mapped s)[0 := True], ax_fill := map_ring os 0 (ac_fill_ring_size c) 0 (ax_fill s)\<rparr> in
     if \<not> os_ring_maps os ! 1 then (False, s)
     else
       let s = s\<lparr>ax_mapped := (ax_mapped s)[1 := True], ax_comp := map_ring os 1 (ac_comp_ring_size c) 0 (ax_comp s)\<rparr> in
     if \<not> os_ring_maps os ! 2 then (False, s)
     else
       let s = s\<lparr>ax_mapped := (ax_mapped s)[2 := True], ax_rx := map_ring os 2 (ac_rx_ring_size c) desc0 (ax_rx s)\<rparr> in
     if \<not> os_ring_maps os ! 3 then (False, s)
     else (True, s\<lparr>ax_mapped := (ax_mapped s)[3 := True], ax_tx := map_ring os 3 (ac_tx_ring_size c) desc0 (ax_tx s)\<rparr>))"

definition bind_to_interface :: "afxdp_os \<Rightarrow> afxdp \<Rightarrow> bool" where
  "bind_to_interface os s \<longleftrightarrow>
    (if os_bind os then True
     else if ac_zero_copy (ax_config s) \<and> os_bind_unsupported os then os_bind_copy os else False)"

definition detect_macs :: "afxdp_os \<Rightarrow> afxdp_config \<Rightarrow> afxdp_config" where
  "detect_macs os c =
    (let c = (if ac_local_mac c = replicate 6 0
              then (case os_local_mac os of Some mac \<Rightarrow> c\<lparr>ac_local_mac := mac\<rparr> | None \<Rightarrow> c) else c)
     in if ac_gateway_mac c = replicate 6 0
        then (case os_gateway_mac os of Some mac \<Rightarrow> c\<lparr>ac_gateway_mac := mac\<rparr> | None \<Rightarrow> c) else c)"

definition afxdp_open :: "afxdp_os \<Rightarrow> afxdp \<Rightarrow> (int \<times> afxdp) option" where
  "afxdp_open os s =
    (let s = s\<lparr>ax_ifindex := os_ifindex os\<rparr> in
     if ax_ifindex s = 0 then Some (-1, s)
     else
       let s = s\<lparr>ax_config := detect_macs os (ax_config s)\<rparr> in
     case umem_create os s of (ok, s) \<Rightarrow> if \<not> ok then Some (-1, s) else
     case create_socket os s of (ok, s) \<Rightarrow> if \<not> ok then Some (-1, s) else
     case setup_rings os s of (ok, s) \<Rightarrow> if \<not> ok then Some (-1, s) else
     if \<not> bind_to_interface os s then Some (-1, s)
     else
       let s = (case os_bpf_prog os of Some fd \<Rightarrow> s\<lparr>ax_bpf_prog_fd := fd\<rparr> | None \<Rightarrow> s)
       in do { s \<leftarrow> populate_fill_ring s; Some (0, s) })"

definition afxdp_close :: "afxdp \<Rightarrow> afxdp" where
  "afxdp_close s =
    (let s = (if ax_bpf_prog_fd s \<ge> 0 \<and> sint (ax_ifindex s) > 0 then s\<lparr>ax_bpf_prog_fd := -1\<rparr> else s);
         s = s\<lparr>ax_mapped := map (\<lambda>_. False) (ax_mapped s)\<rparr>
     in if ax_xsk_fd s \<ge> 0 then s\<lparr>ax_xsk_fd := -1\<rparr> else s)"

end
