(* ===== verification/Afxdp_Frames.thy ===== *)
theory Afxdp_Frames
  imports Afxdp "HOL-Library.Multiset"
begin

text \<open>
  What each call of the AF\_XDP device does to the frames it owns and to the memory behind them: a frame moves
  between the free list, the rings and the hands of the caller and of the kernel, and only memory of frames that
  the call has taken from the free list is written.
\<close>

section \<open>Frames and their bytes\<close>

definition chunk_size :: "afxdp \<Rightarrow> nat" where "chunk_size s = unat (ac_frame_size (ax_config s))"
definition chunk_count :: "afxdp \<Rightarrow> nat" where "chunk_count s = unat (ac_frame_count (ax_config s))"

text \<open>The bytes of a descriptor, and that they lie in one frame.\<close>

definition bytes_at :: "bytes \<Rightarrow> nat \<Rightarrow> nat \<Rightarrow> bytes" where "bytes_at m a n = take n (drop a m)"

definition desc_bytes :: "bytes \<Rightarrow> xdp_desc \<Rightarrow> bytes" where
  "desc_bytes m d = bytes_at m (unat (xd_addr d)) (unat (xd_len d))"

definition fits :: "nat \<Rightarrow> nat \<Rightarrow> nat \<Rightarrow> bool" where "fits fs a n \<longleftrightarrow> a mod fs + n \<le> fs"

text \<open>Memory that differs at most in the frames \<open>C\<close>.\<close>

definition agree :: "nat \<Rightarrow> nat set \<Rightarrow> bytes \<Rightarrow> bytes \<Rightarrow> bool" where
  "agree fs C m m' \<longleftrightarrow> length m' = length m \<and> (\<forall>i < length m. i div fs \<notin> C \<longrightarrow> m' ! i = m ! i)"

lemma agree_refl [simp]: "agree fs C m m"
  by (simp add: agree_def)

lemma agree_trans: "agree fs C m m' \<Longrightarrow> agree fs D m' m'' \<Longrightarrow> agree fs (C \<union> D) m m''"
  by (simp add: agree_def)

lemma agree_mono: "agree fs C m m' \<Longrightarrow> C \<subseteq> D \<Longrightarrow> agree fs D m m'"
  by (auto simp: agree_def)

lemma same_chunk:
  assumes "a mod fs + j < (fs :: nat)"
  shows "(a + j) div fs = a div fs"
proof (rule div_nat_eqI)
  have a: "a = fs * (a div fs) + a mod fs" by simp
  show "fs * (a div fs) \<le> a + j" using a by linarith
  have "a + j < fs * (a div fs) + fs" using a assms by linarith
  then show "a + j < fs * Suc (a div fs)" by simp
qed

lemma fits_end:
  assumes "fits fs a n" and "a < c * fs"
  shows "a + n \<le> c * fs"
proof -
  have a: "a = fs * (a div fs) + a mod fs" by simp
  have "Suc (a div fs) \<le> c" using assms(2) by (simp add: Suc_leI less_mult_imp_div_less)
  then have "fs * Suc (a div fs) \<le> fs * c" by (rule mult_le_mono2)
  then have "fs * (a div fs) + fs \<le> c * fs" by (simp add: mult.commute)
  then show ?thesis using a assms(1) unfolding fits_def by linarith
qed

lemma bytes_at_agree:
  assumes "agree fs C m m'" and "fits fs a n" and "a div fs \<notin> C"
  shows "bytes_at m' a n = bytes_at m a n"
proof (rule nth_equalityI)
  show "length (bytes_at m' a n) = length (bytes_at m a n)" using assms(1) by (simp add: bytes_at_def agree_def)
  fix j
  assume j: "j < length (bytes_at m' a n)"
  then have "(a + j) div fs = a div fs" using assms(2) by (intro same_chunk) (simp add: fits_def bytes_at_def)
  moreover have "a \<le> length m" "j < n" "a + j < length m" using j assms(1) by (auto simp: bytes_at_def agree_def)
  ultimately show "bytes_at m' a n ! j = bytes_at m a n ! j" using assms(1,3) by (simp add: bytes_at_def agree_def)
qed

lemma mem_store_agree:
  assumes "fits fs a n" and "a + n \<le> length m" and "a \<le> at" and "at + length bs \<le> a + n"
  shows "\<exists>m'. mem_store at bs m = Some m' \<and> agree fs {a div fs} m m' \<and> bytes_at m' at (length bs) = bs \<and>
    (\<forall>b k. b + k \<le> at \<or> at + length bs \<le> b \<longrightarrow> bytes_at m' b k = bytes_at m b k)"
proof -
  have le: "at + length bs \<le> length m" using assms(2,4) by simp
  have "i div fs = a div fs" if "at \<le> i" "i < at + length bs" for i
  proof -
    have "a mod fs + (i - a) < fs" using that assms by (simp add: fits_def)
    then show ?thesis using same_chunk [of a fs "i - a"] that(1) assms(3) by simp
  qed
  then have "agree fs {a div fs} m (blit m at bs)" using le by (auto simp: agree_def nth_blit)
  moreover have "bytes_at (blit m at bs) at (length bs) = bs" using le by (simp add: bytes_at_def blit_def)
  moreover have "bytes_at (blit m at bs) b k = bytes_at m b k" if "b + k \<le> at \<or> at + length bs \<le> b" for b k
    using that le by (intro nth_equalityI) (auto simp: bytes_at_def nth_blit)
  ultimately show ?thesis using le by (auto simp: mem_store_def)
qed
section \<open>Frames for the kernel\<close>

abbreviation free_list :: "afxdp \<Rightarrow> u64 list" where "free_list s \<equiv> ua_free (ax_alloc s)"

lemma alloc_cases:
  "free_list s = [] \<and> ua_alloc (ax_alloc s) = (INVALID_ADDR, ax_alloc s) \<or>
   (\<exists>fl x. free_list s = fl @ [x] \<and> ua_alloc (ax_alloc s) = (x, (ax_alloc s)\<lparr>ua_free := fl\<rparr>))"
  by (cases "free_list s" rule: rev_cases) (auto simp: ua_alloc_def)

text \<open>Everything but the free list, the fill ring and the log of the device.\<close>

definition same_rest :: "afxdp \<Rightarrow> afxdp \<Rightarrow> bool" where
  "same_rest s s' \<longleftrightarrow> ax_config s' = ax_config s \<and> ax_mem s' = ax_mem s \<and> ax_comp s' = ax_comp s \<and> ax_rx s' = ax_rx s \<and> ax_tx s' = ax_tx s"

lemma same_rest_trans: "same_rest s s' \<Longrightarrow> same_rest s' s'' \<Longrightarrow> same_rest s s''"
  by (simp add: same_rest_def)

text \<open>Frames \<open>taken\<close> have moved from the back of the free list to the end of the fill ring.\<close>

definition filled_with :: "u64 list \<Rightarrow> afxdp \<Rightarrow> afxdp \<Rightarrow> bool" where
  "filled_with taken s s' \<longleftrightarrow> same_rest s s' \<and> free_list s = free_list s' @ rev taken \<and>
     xr_wf (ax_fill s') \<and> same_view (ax_fill s) (ax_fill s') \<and> xr_contents (ax_fill s') = xr_contents (ax_fill s) @ taken"

lemma same_view_trans: "same_view r r' \<Longrightarrow> same_view r' r'' \<Longrightarrow> same_view r r''"
  by (simp add: same_view_def)

lemma filled_with_trans: "filled_with as s s' \<Longrightarrow> filled_with bs s' s'' \<Longrightarrow> filled_with (as @ bs) s s''"
  by (auto simp: filled_with_def intro: same_rest_trans same_view_trans)

lemma fill_frames_post:
  "xr_filled r vs (ax_fill s) \<Longrightarrow> length vs + n \<le> xr_room r \<Longrightarrow> INVALID_ADDR \<notin> set (free_list s) \<Longrightarrow>
    \<exists>taken s'. fill_frames n (of_nat (length vs)) s = Some (of_nat (length vs + length taken), s') \<and> same_rest s s' \<and>
      length taken = min n (length (free_list s)) \<and> free_list s = free_list s' @ rev taken \<and> xr_filled r (vs @ taken) (ax_fill s')"
proof (induction n arbitrary: vs s)
  case 0
  then show ?case by (auto simp: same_rest_def intro: exI [of _ "[]"])
next
  case (Suc n)
  from alloc_cases [of s] show ?case
  proof (elim disjE exE conjE)
    assume "free_list s = []" "ua_alloc (ax_alloc s) = (INVALID_ADDR, ax_alloc s)"
    then show ?thesis using Suc.prems by (auto simp: same_rest_def intro: exI [of _ "[]"])
  next
    fix fl x
    assume fl: "free_list s = fl @ [x]" "ua_alloc (ax_alloc s) = (x, (ax_alloc s)\<lparr>ua_free := fl\<rparr>)"
    obtain f where f: "xr_put (of_nat (length vs)) x (ax_fill s) = Some f" "xr_filled r (vs @ [x]) f"
      using put_filled [OF Suc.prems(1) _ refl, of x] Suc.prems(2) by auto
    define s1 where "s1 = s\<lparr>ax_alloc := (ax_alloc s)\<lparr>ua_free := fl\<rparr>, ax_fill := f\<rparr>"
    have s1: "free_list s1 = fl" "ax_fill s1 = f" "same_rest s s1" by (simp_all add: s1_def same_rest_def)
    have p: "xr_filled r (vs @ [x]) (ax_fill s1)" "length (vs @ [x]) + n \<le> xr_room r" "INVALID_ADDR \<notin> set (free_list s1)"
      using Suc.prems f(2) fl(1) s1(1,2) by simp_all
    from Suc.IH [OF p]
    obtain taken s' where t: "fill_frames n (of_nat (length (vs @ [x]))) s1 = Some (of_nat (length (vs @ [x]) + length taken), s')"
        "same_rest s1 s'" "length taken = min n (length (free_list s1))" "free_list s1 = free_list s' @ rev taken"
        "xr_filled r ((vs @ [x]) @ taken) (ax_fill s')"
      by blast
    have "fill_frames (Suc n) (of_nat (length vs)) s = fill_frames n (of_nat (length (vs @ [x]))) s1"
      using fl Suc.prems(3) f(1) by (auto simp: s1_def add.commute)
    then have "fill_frames (Suc n) (of_nat (length vs)) s = Some (of_nat (length vs + length (x # taken)), s')"
      unfolding t(1) by simp
    moreover have "same_rest s s'" by (rule same_rest_trans [OF s1(3) t(2)])
    moreover have "length (x # taken) = min (Suc n) (length (free_list s))" using t(3) s1(1) fl(1) by simp
    moreover have "free_list s = free_list s' @ rev (x # taken)" using t(4) s1(1) fl(1) by simp
    moreover have "xr_filled r (vs @ x # taken) (ax_fill s')" using t(5) by simp
    ultimately show ?thesis by blast
  qed
qed

lemma refill_post:
  assumes "xr_wf (ax_fill s)" and "INVALID_ADDR \<notin> set (free_list s)"
  shows "\<exists>taken s'. refill_ring want s = Some s' \<and> filled_with taken s s' \<and>
    length taken = min (min (unat want) (xr_room (ax_fill s))) (length (free_list s))"
proof -
  obtain n r where n: "xr_reserve want (ax_fill s) = (n, r)" by (cases "xr_reserve want (ax_fill s)")
  note rf = reserve_filled [OF assms(1) n]
  define s0 where "s0 = s\<lparr>ax_fill := r\<rparr>"
  have s0: "ax_fill s0 = r" "free_list s0 = free_list s" "same_rest s s0" by (simp_all add: s0_def same_rest_def)
  have p: "xr_filled (ax_fill s) [] (ax_fill s0)" "length ([] :: u64 list) + unat n \<le> xr_room (ax_fill s)"
      "INVALID_ADDR \<notin> set (free_list s0)"
    using rf assms(2) s0 by simp_all
  obtain taken s' where t: "fill_frames (unat n) 0 s0 = Some (of_nat (length taken), s')" "same_rest s0 s'"
      "length taken = min (unat n) (length (free_list s0))" "free_list s0 = free_list s' @ rev taken"
      "xr_filled (ax_fill s) taken (ax_fill s')"
    using fill_frames_post [OF p, unfolded list.size append_Nil add_0 semiring_1_class.of_nat_0] by blast
  define s2 where "s2 = s'\<lparr>ax_fill := xr_submit (of_nat (length taken)) (ax_fill s')\<rparr>"
  have "refill_ring want s = Some s2" using n t(1) by (simp add: refill_ring_def s0_def s2_def)
  moreover have "filled_with taken s s2"
    using submit_filled [OF t(5) refl] t(2,4) s0 by (simp add: filled_with_def s2_def same_rest_def)
  ultimately show ?thesis using t(3) rf(2) s0(2) by (intro exI [of _ taken] exI [of _ s2]) simp
qed

lemma filled_with_more: "filled_with [] s s" if "xr_wf (ax_fill s)"
  using that by (simp add: filled_with_def same_rest_def same_view_def)

lemma refill_fill_ring_post:
  assumes "xr_wf (ax_fill s)" and "INVALID_ADDR \<notin> set (free_list s)"
  shows "\<exists>taken s'. refill_fill_ring s = Some s' \<and> filled_with taken s s'"
proof -
  obtain n r where n: "xr_reserve 0 (ax_fill s) = (n, r)" by (cases "xr_reserve 0 (ax_fill s)")
  have rf: "xr_filled (ax_fill s) [] r" by (rule reserve_filled [OF assms(1) n])
  have f0: "filled_with [] s s1" if "ax_fill s1 = r" "free_list s1 = free_list s" "same_rest s s1" for s1
    using that rf by (simp add: filled_with_def xr_filled_def xr_contents_def xr_used_def)
  define s1 where "s1 = s\<lparr>ax_fill := r\<rparr>"
  define s2 where "s2 = s1\<lparr>ax_stats := (ax_stats s1)\<lparr>xs_fill_ring_empty := xs_fill_ring_empty (ax_stats s1) + 1\<rparr>\<rparr>"
  have s1: "filled_with [] s s1" by (rule f0) (simp_all add: s1_def same_rest_def)
  have s2: "filled_with [] s s2" by (rule f0) (simp_all add: s2_def s1_def same_rest_def)
  then have "xr_wf (ax_fill s2)" "INVALID_ADDR \<notin> set (free_list s2)" using assms(2) by (auto simp: filled_with_def)
  from refill_post [OF this, of "ac_fill_ring_size (ax_config s) div 2 - n"]
  obtain taken s' where "refill_ring (ac_fill_ring_size (ax_config s) div 2 - n) s2 = Some s'" "filled_with taken s2 s'" by blast
  then show ?thesis
    using n s1 filled_with_trans [OF s2] unfolding refill_fill_ring_def
    by (auto simp: s1_def s2_def Let_def)
qed
section \<open>Completed and received frames\<close>

lemma take_drop_Suc: "m < length xs \<Longrightarrow> take (Suc n) (drop m xs) = xs ! m # take n (drop (Suc m) xs)"
  by (simp add: Cons_nth_drop_Suc [symmetric])

definition give_frames :: "u64 list \<Rightarrow> afxdp \<Rightarrow> afxdp" where
  "give_frames addrs s = s\<lparr>ax_alloc := (ax_alloc s)\<lparr>ua_free := free_list s @ addrs\<rparr>\<rparr>"

lemma give_frames_simps [simp]:
  "free_list (give_frames addrs s) = free_list s @ addrs" "ax_comp (give_frames addrs s) = ax_comp s"
  "ax_rx (give_frames addrs s) = ax_rx s" "ax_mem (give_frames addrs s) = ax_mem s" "ax_fill (give_frames addrs s) = ax_fill s"
  "ax_tx (give_frames addrs s) = ax_tx s" "ax_config (give_frames addrs s) = ax_config s"
  "give_frames bs (give_frames addrs s) = give_frames (addrs @ bs) s" "give_frames [] s = s"
  by (simp_all add: give_frames_def)

lemma reclaim_loop_post:
  "xr_wf c \<Longrightarrow> xr_peeked c (ax_comp s) \<Longrightarrow> m + n \<le> xr_used c \<Longrightarrow>
    reclaim_loop n (of_nat m) s = Some (give_frames (take n (drop m (xr_contents c))) s)"
proof (induction n arbitrary: m s)
  case (Suc n)
  have "xr_get (of_nat m) (ax_comp s) = Some (xr_contents c ! m)"
    using Suc.prems by (intro get_peeked [OF Suc.prems(1,2)]) simp_all
  moreover have "s\<lparr>ax_alloc := ua_give a (ax_alloc s)\<rparr> = give_frames [a] s" for a
    by (simp add: give_frames_def ua_give_def)
  ultimately have "reclaim_loop (Suc n) (of_nat m) s = reclaim_loop n (of_nat (Suc m)) (give_frames [xr_contents c ! m] s)"
    by (simp add: add.commute)
  also have "\<dots> = Some (give_frames (take n (drop (Suc m) (xr_contents c))) (give_frames [xr_contents c ! m] s))"
    using Suc.prems by (intro Suc.IH) simp_all
  finally show ?case using Suc.prems(3) by (simp add: take_drop_Suc)
qed simp

text \<open>Frames have moved from the front of the completion ring to the free list.\<close>

definition reclaimed :: "u64 list \<Rightarrow> afxdp \<Rightarrow> afxdp \<Rightarrow> bool" where
  "reclaimed taken s s' \<longleftrightarrow> ax_config s' = ax_config s \<and> ax_mem s' = ax_mem s \<and> ax_fill s' = ax_fill s \<and> ax_rx s' = ax_rx s \<and>
     ax_tx s' = ax_tx s \<and> free_list s' = free_list s @ taken \<and> xr_wf (ax_comp s') \<and> same_view (ax_comp s) (ax_comp s') \<and>
     xr_contents (ax_comp s) = taken @ xr_contents (ax_comp s')"

lemma peeked_same:
  assumes "xr_wf r" and "xr_peeked r r'"
  shows "xr_wf r'" "xr_contents r' = xr_contents r" "same_view r r'"
  using assms by (auto simp: xr_peeked_def xr_wf_def same_view_def xr_contents_def xr_window_def xr_used_def)

lemma reclaim_post:
  assumes "xr_wf (ax_comp s)"
  shows "\<exists>taken s'. reclaim_completion_ring s = Some s' \<and> reclaimed taken s s'"
proof -
  obtain n r where n: "xr_peek (ac_batch_size (ax_config s)) (ax_comp s) = (n, r)"
    by (cases "xr_peek (ac_batch_size (ax_config s)) (ax_comp s)")
  note pk = peek_peeked [OF n]
  define s0 where "s0 = s\<lparr>ax_comp := r\<rparr>"
  have le: "unat n \<le> xr_used (ax_comp s)" using pk(2) by simp
  show ?thesis
  proof (cases "n = 0")
    case True
    then have "reclaim_completion_ring s = Some s0" using n by (simp add: reclaim_completion_ring_def s0_def)
    moreover have "reclaimed [] s s0" using peeked_same [OF assms pk(1)] by (simp add: reclaimed_def s0_def)
    ultimately show ?thesis by blast
  next
    case False
    define taken where "taken = take (unat n) (xr_contents (ax_comp s))"
    define s2 where "s2 = (give_frames taken s0)\<lparr>ax_comp := xr_release n r\<rparr>"
    have "reclaim_loop (unat n) 0 s0 = Some (give_frames taken s0)"
      using reclaim_loop_post [OF assms, of s0 0 "unat n"] pk(1) le by (simp add: s0_def taken_def)
    then have "reclaim_completion_ring s = Some s2"
      using n False by (simp add: reclaim_completion_ring_def s0_def s2_def)
    moreover have "reclaimed taken s s2"
      using release_peeked [OF assms pk(1) le, of n] by (simp add: reclaimed_def s2_def s0_def taken_def)
    ultimately show ?thesis by blast
  qed
qed

text \<open>An IPv4 frame, and the descriptor that is handed up for it.\<close>

definition ip_frame :: "bytes \<Rightarrow> bool" where
  "ip_frame bs \<longleftrightarrow> ETH_HLEN \<le> length bs \<and> htons (ld16 bs 12) = ETH_P_IP"

definition rx_desc :: "xdp_desc \<Rightarrow> packet_desc" where
  "rx_desc d = \<lparr>pd_data = In_Umem (unat (xd_addr d) + ETH_HLEN), pd_len = xd_len d - of_nat ETH_HLEN, pd_addr = ucast (xd_addr d),
     pd_port_id = 0, pd_flags = FLAG_ZEROCOPY OR FLAG_NEED_FREE\<rparr>"

definition in_memory :: "bytes \<Rightarrow> xdp_desc \<Rightarrow> bool" where
  "in_memory m d \<longleftrightarrow> unat (xd_addr d) + unat (xd_len d) \<le> length m"

lemma parse_ethernet_cases:
  assumes "in_memory m d"
  shows "\<exists>et off len. parse_ethernet (unat (xd_addr d)) (xd_len d) m = Some (et, off, len) \<and>
    (et = ETH_P_IP \<longleftrightarrow> ip_frame (desc_bytes m d)) \<and>
    (ip_frame (desc_bytes m d) \<longrightarrow> off = unat (xd_addr d) + ETH_HLEN \<and> len = xd_len d - of_nat ETH_HLEN)"
proof (cases "unat (xd_len d) < ETH_HLEN")
  case True
  then show ?thesis using assms
    by (simp add: parse_ethernet_def ip_frame_def desc_bytes_def bytes_at_def in_memory_def ETH_P_IP_def)
next
  case False
  then have len: "14 \<le> unat (xd_len d)" by (simp add: ETH_HLEN_def)
  then have "ld16 (desc_bytes m d) 12 = ld16 m (unat (xd_addr d) + 12)" "length (desc_bytes m d) = unat (xd_len d)"
    using assms by (simp_all add: ld16_def desc_bytes_def bytes_at_def in_memory_def add.commute)
  moreover have "rd16 m (unat (xd_addr d) + 12) = Some (ld16 m (unat (xd_addr d) + 12))"
    using assms len by (simp add: rd16_def in_memory_def)
  ultimately show ?thesis using len by (auto simp: parse_ethernet_def ip_frame_def ETH_HLEN_def)
qed

lemma recv_loop_post:
  "xr_wf c \<Longrightarrow> xr_peeked c (ax_rx s) \<Longrightarrow> m + n \<le> xr_used c \<Longrightarrow> \<forall>d\<in>set (xr_contents c). in_memory (ax_mem s) d \<Longrightarrow>
    es = take n (drop m (xr_contents c)) \<Longrightarrow>
    \<exists>st. recv_loop n (of_nat m) s =
      Some (map rx_desc (filter (\<lambda>d. ip_frame (desc_bytes (ax_mem s) d)) es),
        (give_frames (map xd_addr (filter (\<lambda>d. \<not> ip_frame (desc_bytes (ax_mem s) d)) es)) s)\<lparr>ax_stats := st\<rparr>)"
proof (induction n arbitrary: m s es)
  case 0
  then show ?case by (auto intro: exI [of _ "ax_stats s"])
next
  case (Suc n)
  let ?ip = "\<lambda>d. ip_frame (desc_bytes (ax_mem s) d)"
  define d where "d = xr_contents c ! m"
  define es' where "es' = take n (drop (Suc m) (xr_contents c))"
  have es: "es = d # es'" using Suc.prems(3,5) by (simp add: take_drop_Suc d_def es'_def)
  have get: "xr_get (of_nat m) (ax_rx s) = Some d"
    using Suc.prems(3) unfolding d_def by (intro get_peeked [OF Suc.prems(1,2)]) simp_all
  have "d \<in> set (xr_contents c)" using Suc.prems(3) by (simp add: d_def)
  then have "in_memory (ax_mem s) d" using Suc.prems(4) by blast
  from parse_ethernet_cases [OF this] obtain et off len where
    pe: "parse_ethernet (unat (xd_addr d)) (xd_len d) (ax_mem s) = Some (et, off, len)" "et = ETH_P_IP \<longleftrightarrow> ?ip d"
      "?ip d \<longrightarrow> off = unat (xd_addr d) + ETH_HLEN \<and> len = xd_len d - of_nat ETH_HLEN" by blast
  have ih: "\<exists>st. recv_loop n (of_nat (Suc m)) t =
      Some (map rx_desc (filter ?ip es'), (give_frames (map xd_addr (filter (\<lambda>d. \<not> ?ip d) es')) t)\<lparr>ax_stats := st\<rparr>)"
    if "ax_rx t = ax_rx s" "ax_mem t = ax_mem s" for t
    using Suc.IH [of t "Suc m" es'] Suc.prems that by (simp add: es'_def)
  show ?case
  proof (cases "?ip d")
    case True
    obtain st where "recv_loop n (of_nat (Suc m)) s =
        Some (map rx_desc (filter ?ip es'), (give_frames (map xd_addr (filter (\<lambda>d. \<not> ?ip d) es')) s)\<lparr>ax_stats := st\<rparr>)"
      using ih [of s] by auto
    then show ?thesis using True get pe by (auto simp: es rx_desc_def add.commute)
  next
    case False
    define t where "t = s\<lparr>ax_alloc := ua_give (xd_addr d) (ax_alloc s),
        ax_stats := (ax_stats s)\<lparr>xs_rx_dropped := xs_rx_dropped (ax_stats s) + 1\<rparr>\<rparr>"
    obtain st where st: "recv_loop n (of_nat (Suc m)) t =
        Some (map rx_desc (filter ?ip es'), (give_frames (map xd_addr (filter (\<lambda>d. \<not> ?ip d) es')) t)\<lparr>ax_stats := st\<rparr>)"
      using ih [of t] by (auto simp: t_def)
    have "recv_loop (Suc n) (of_nat m) s = recv_loop n (of_nat (Suc m)) t"
      using False get pe by (simp add: t_def add.commute)
    moreover have "(give_frames as t)\<lparr>ax_stats := st\<rparr> = (give_frames (xd_addr d # as) s)\<lparr>ax_stats := st\<rparr>" for as
      by (simp add: t_def give_frames_def ua_give_def)
    ultimately have "recv_loop (Suc n) (of_nat m) s = Some (map rx_desc (filter ?ip es'),
        (give_frames (xd_addr d # map xd_addr (filter (\<lambda>d. \<not> ?ip d) es')) s)\<lparr>ax_stats := st\<rparr>)"
      using st by (simp only:)
    then show ?thesis using False by (intro exI [of _ st]) (simp del: recv_loop.simps add: es)
  qed
qed
section \<open>What the calls keep\<close>

text \<open>The frames that are not in the hands of anyone who knows their contents, and a call that only moves them.\<close>

definition dev_pool :: "afxdp \<Rightarrow> u64 multiset" where
  "dev_pool s = mset (free_list s) + mset (xr_contents (ax_fill s)) + mset (xr_contents (ax_comp s))"

definition rings_wf :: "afxdp \<Rightarrow> bool" where
  "rings_wf s \<longleftrightarrow> xr_wf (ax_fill s) \<and> xr_wf (ax_comp s) \<and> xr_wf (ax_rx s) \<and> xr_wf (ax_tx s)"

definition keeps :: "afxdp \<Rightarrow> afxdp \<Rightarrow> bool" where
  "keeps s s' \<longleftrightarrow> ax_config s' = ax_config s \<and> ax_mem s' = ax_mem s \<and> xr_contents (ax_rx s') = xr_contents (ax_rx s) \<and>
     xr_contents (ax_tx s') = xr_contents (ax_tx s)"

lemma keeps_trans: "keeps s s' \<Longrightarrow> keeps s' s'' \<Longrightarrow> keeps s s''"
  by (simp add: keeps_def)

lemma filled_with_keeps: "filled_with taken s s' \<Longrightarrow> rings_wf s \<Longrightarrow> rings_wf s' \<and> keeps s s' \<and> dev_pool s' = dev_pool s"
  by (simp add: filled_with_def same_rest_def rings_wf_def keeps_def dev_pool_def ac_simps)

lemma reclaimed_keeps: "reclaimed taken s s' \<Longrightarrow> rings_wf s \<Longrightarrow> rings_wf s' \<and> keeps s s' \<and> dev_pool s' = dev_pool s"
  by (simp add: reclaimed_def rings_wf_def keeps_def dev_pool_def ac_simps)

lemma pool_free: "INVALID_ADDR \<notin># dev_pool s \<Longrightarrow> INVALID_ADDR \<notin> set (free_list s)"
  by (simp add: dev_pool_def)

lemma refill_keeps:
  assumes "rings_wf s" and "INVALID_ADDR \<notin># dev_pool s"
  shows "\<exists>s'. refill_ring want s = Some s' \<and> rings_wf s' \<and> keeps s s' \<and> dev_pool s' = dev_pool s"
    "\<exists>s'. refill_fill_ring s = Some s' \<and> rings_wf s' \<and> keeps s s' \<and> dev_pool s' = dev_pool s"
proof -
  have wf: "xr_wf (ax_fill s)" using assms(1) by (simp add: rings_wf_def)
  show "\<exists>s'. refill_ring want s = Some s' \<and> rings_wf s' \<and> keeps s s' \<and> dev_pool s' = dev_pool s"
    using refill_post [OF wf pool_free [OF assms(2)], of want] filled_with_keeps [OF _ assms(1)] by blast
  show "\<exists>s'. refill_fill_ring s = Some s' \<and> rings_wf s' \<and> keeps s s' \<and> dev_pool s' = dev_pool s"
    using refill_fill_ring_post [OF wf pool_free [OF assms(2)]] filled_with_keeps [OF _ assms(1)] by blast
qed

lemma wake_rx_keeps: "rings_wf s \<Longrightarrow> rings_wf (wake_rx s) \<and> keeps s (wake_rx s) \<and> dev_pool (wake_rx s) = dev_pool s"
  by (simp add: wake_rx_def rings_wf_def keeps_def dev_pool_def)

text \<open>Receiving: the entries taken from the RX ring, the frames of those that are not IPv4 back in the pool.\<close>

definition received :: "xdp_desc list \<Rightarrow> packet_desc list \<Rightarrow> afxdp \<Rightarrow> afxdp \<Rightarrow> bool" where
  "received es ds s s' \<longleftrightarrow> rings_wf s' \<and> ax_config s' = ax_config s \<and> ax_mem s' = ax_mem s \<and>
     xr_contents (ax_tx s') = xr_contents (ax_tx s) \<and> xr_contents (ax_rx s) = es @ xr_contents (ax_rx s') \<and>
     ds = map rx_desc (filter (\<lambda>d. ip_frame (desc_bytes (ax_mem s) d)) es) \<and>
     dev_pool s' = dev_pool s + mset (map xd_addr (filter (\<lambda>d. \<not> ip_frame (desc_bytes (ax_mem s) d)) es))"

lemma received_after: "keeps s s1 \<Longrightarrow> dev_pool s1 = dev_pool s \<Longrightarrow> received es ds s1 s' \<Longrightarrow> received es ds s s'"
  by (simp add: received_def keeps_def)

lemma received_before: "received es ds s s1 \<Longrightarrow> keeps s1 s' \<Longrightarrow> rings_wf s' \<Longrightarrow> dev_pool s' = dev_pool s1 \<Longrightarrow> received es ds s s'"
  by (simp add: received_def keeps_def)

lemma receive_ring:
  assumes wf: "rings_wf s" and mem: "\<forall>d\<in>set (xr_contents (ax_rx s)). in_memory (ax_mem s) d" and n: "xr_peek max_count (ax_rx s) = (n, r)"
  shows "\<exists>ds s1. recv_loop (unat n) 0 (s\<lparr>ax_rx := r\<rparr>) = Some (ds, s1) \<and>
    (\<forall>st. received (take (unat n) (xr_contents (ax_rx s))) ds s (s1\<lparr>ax_rx := xr_release n (ax_rx s1), ax_stats := st\<rparr>))"
proof -
  note pk = peek_peeked [OF n]
  have rx: "xr_wf (ax_rx s)" using wf by (simp add: rings_wf_def)
  have le: "unat n \<le> xr_used (ax_rx s)" using pk(2) by simp
  define es where "es = take (unat n) (xr_contents (ax_rx s))"
  let ?s = "s\<lparr>ax_rx := r\<rparr>"
  have p: "xr_peeked (ax_rx s) (ax_rx ?s)" "0 + unat n \<le> xr_used (ax_rx s)" "\<forall>d\<in>set (xr_contents (ax_rx s)). in_memory (ax_mem ?s) d"
      "es = take (unat n) (drop 0 (xr_contents (ax_rx s)))"
    using pk(1) le mem by (simp_all add: es_def)
  obtain st' where "recv_loop (unat n) (of_nat 0) ?s =
      Some (map rx_desc (filter (\<lambda>d. ip_frame (desc_bytes (ax_mem ?s) d)) es),
        (give_frames (map xd_addr (filter (\<lambda>d. \<not> ip_frame (desc_bytes (ax_mem ?s) d)) es)) ?s)\<lparr>ax_stats := st'\<rparr>)"
    using recv_loop_post [OF rx p] by blast
  moreover have "\<forall>st. received es (map rx_desc (filter (\<lambda>d. ip_frame (desc_bytes (ax_mem s) d)) es)) s
      ((give_frames (map xd_addr (filter (\<lambda>d. \<not> ip_frame (desc_bytes (ax_mem s) d)) es)) ?s)\<lparr>ax_stats := st', ax_rx := xr_release n r, ax_stats := st\<rparr>)"
    using release_peeked [OF rx pk(1) le, of n] wf
    by (simp add: received_def rings_wf_def es_def dev_pool_def ac_simps)
  ultimately show ?thesis unfolding es_def by auto
qed

lemma recv_batch_post:
  assumes wf: "rings_wf s" and pool: "INVALID_ADDR \<notin># dev_pool s"
    and rx: "\<forall>d\<in>set (xr_contents (ax_rx s)). in_memory (ax_mem s) d \<and> xd_addr d \<noteq> INVALID_ADDR"
  shows "\<exists>es ds s'. recv_batch max_count s = Some (ds, s') \<and> received es ds s s' \<and>
    length es = min (unat max_count) (xr_used (ax_rx s))"
proof -
  obtain s1 where s1: "reclaim_completion_ring s = Some s1" "rings_wf s1" "keeps s s1" "dev_pool s1 = dev_pool s"
    using reclaim_post [of s] reclaimed_keeps [OF _ wf] wf by (auto simp: rings_wf_def)
  obtain s2 where s2: "refill_fill_ring s1 = Some s2" "rings_wf s2" "keeps s s2" "dev_pool s2 = dev_pool s"
    using refill_keeps(2) [OF s1(2)] pool s1 keeps_trans by force
  obtain n r where n: "xr_peek max_count (ax_rx s2) = (n, r)" by (cases "xr_peek max_count (ax_rx s2)")
  have mem: "\<forall>d\<in>set (xr_contents (ax_rx s2)). in_memory (ax_mem s2) d" using rx s2(3) by (simp add: keeps_def)
  have used: "xr_used (ax_rx s2) = xr_used (ax_rx s)" using s2(3) by (metis keeps_def length_contents)
  have start: "recv_batch max_count s = (let s3 = s2\<lparr>ax_rx := r\<rparr> in
      if n = 0 then Some ([], wake_rx s3)
      else do {
        (ds, s3) \<leftarrow> recv_loop (unat n) 0 s3;
        let out = of_nat (length ds);
        let s3 = s3\<lparr>ax_rx := xr_release n (ax_rx s3),
          ax_stats := (ax_stats s3)\<lparr>xs_rx_packets := xs_rx_packets (ax_stats s3) + of_nat (length ds)\<rparr>\<rparr>;
        s3 \<leftarrow> (if out < n then refill_ring (n - out) s3 else Some s3);
        Some (ds, s3) })"
    using s1(1) s2(1) n by (simp add: recv_batch_def)
  show ?thesis
  proof (cases "n = 0")
    case True
    define s3 where "s3 = s2\<lparr>ax_rx := r\<rparr>"
    have rxwf: "xr_wf (ax_rx s2)" using s2(2) by (simp add: rings_wf_def)
    have "rings_wf s3" "keeps s2 s3" "dev_pool s3 = dev_pool s2"
      using peeked_same [OF rxwf peek_peeked(1) [OF n]] s2(2) by (simp_all add: s3_def rings_wf_def keeps_def dev_pool_def)
    then have w: "rings_wf (wake_rx s3)" "keeps s (wake_rx s3)" "dev_pool (wake_rx s3) = dev_pool s"
      using wake_rx_keeps [of s3] s2(3,4) keeps_trans by (simp_all add: keeps_def)
    have "received [] [] s (wake_rx s3)" using w by (simp add: received_def keeps_def)
    moreover have "recv_batch max_count s = Some ([], wake_rx s3)" using start True by (simp add: s3_def)
    moreover have "min (unat max_count) (xr_used (ax_rx s)) = 0" using peek_peeked(2) [OF n] True used by simp
    ultimately show ?thesis by (metis list.size(3))
  next
    case False
    define es where "es = take (unat n) (xr_contents (ax_rx s2))"
    obtain ds t where loop: "recv_loop (unat n) 0 (s2\<lparr>ax_rx := r\<rparr>) = Some (ds, t)"
      "\<forall>st. received es ds s2 (t\<lparr>ax_rx := xr_release n (ax_rx t), ax_stats := st\<rparr>)"
      using receive_ring [OF s2(2) mem n] unfolding es_def by blast
    define s4 where "s4 = t\<lparr>ax_rx := xr_release n (ax_rx t),
        ax_stats := (ax_stats t)\<lparr>xs_rx_packets := xs_rx_packets (ax_stats t) + of_nat (length ds)\<rparr>\<rparr>"
    have es: "received es ds s2 s4" using loop(2) unfolding s4_def by blast
    have len: "length es = min (unat max_count) (xr_used (ax_rx s))" using peek_peeked(2) [OF n] used by (simp add: es_def)
    have "xr_contents (ax_rx s) = es @ xr_contents (ax_rx s4)" using es s2(3) by (simp add: received_def keeps_def)
    then have "set es \<subseteq> set (xr_contents (ax_rx s))" by simp
    then have "INVALID_ADDR \<notin># dev_pool s4" using es pool rx s2(4) by (fastforce simp: received_def)
    from refill_keeps(1) [OF _ this] obtain s5 where
      s5: "(if of_nat (length ds) < n then refill_ring (n - of_nat (length ds)) s4 else Some s4) = Some s5"
        "rings_wf s5" "keeps s4 s5" "dev_pool s5 = dev_pool s4"
      using es by (cases "of_nat (length ds) < n") (auto simp: received_def keeps_def)
    have "recv_batch max_count s = Some (ds, s5)" unfolding start
      using False loop(1) s5(1) by (cases "of_nat (length ds) < n") (simp_all add: Let_def flip: s4_def)
    moreover have "received es ds s s5" using received_before [OF received_after [OF s2(3,4) es] s5(3,2,4)] .
    ultimately show ?thesis using len by blast
  qed
qed
section \<open>Released frames\<close>

definition held_addr :: "packet_desc \<Rightarrow> u64" where "held_addr d = ucast (pd_addr d)"

lemma release_loop_post:
  "xr_filled r vs (ax_fill s) \<Longrightarrow> length vs + length ds \<le> xr_room r \<Longrightarrow>
    \<exists>f. release_loop (of_nat (length vs)) ds s = Some (s\<lparr>ax_fill := f\<rparr>) \<and> xr_filled r (vs @ map held_addr ds) f"
proof (induction ds arbitrary: vs s)
  case Nil
  then show ?case by (intro exI [of _ "ax_fill s"]) simp
next
  case (Cons d ds)
  obtain f where f: "xr_put (of_nat (length vs)) (held_addr d) (ax_fill s) = Some f" "xr_filled r (vs @ [held_addr d]) f"
    using put_filled [OF Cons.prems(1) _ refl, of "held_addr d"] Cons.prems(2) by auto
  have p: "xr_filled r (vs @ [held_addr d]) (ax_fill (s\<lparr>ax_fill := f\<rparr>))" "length (vs @ [held_addr d]) + length ds \<le> xr_room r"
    using f(2) Cons.prems(2) by simp_all
  obtain f' where "release_loop (of_nat (length (vs @ [held_addr d]))) ds (s\<lparr>ax_fill := f\<rparr>) = Some (s\<lparr>ax_fill := f\<rparr>\<lparr>ax_fill := f'\<rparr>)"
      "xr_filled r ((vs @ [held_addr d]) @ map held_addr ds) f'"
    using Cons.IH [OF p] by blast
  then show ?case using f(1) by (intro exI [of _ f']) (simp add: add.commute flip: held_addr_def)
qed

lemma give_batch: "ua_give_batch addrs a = a\<lparr>ua_free := ua_free a @ addrs\<rparr>"
  by (induction addrs arbitrary: a) (simp_all add: ua_give_batch_def ua_give_def)

lemma release_rx_post:
  assumes wf: "rings_wf s" and pool: "INVALID_ADDR \<notin># dev_pool s" and ds: "length ds < 2 ^ 32" "INVALID_ADDR \<notin> held_addr ` set ds"
  shows "\<exists>s'. release_rx ds s = Some s' \<and> rings_wf s' \<and> keeps s s' \<and> dev_pool s' = dev_pool s + mset (map held_addr ds)"
proof -
  obtain n r where n: "xr_reserve (of_nat (length ds)) (ax_fill s) = (n, r)" by (cases "xr_reserve (of_nat (length ds)) (ax_fill s)")
  have fwf: "xr_wf (ax_fill s)" using wf by (simp add: rings_wf_def)
  note rf = reserve_filled [OF fwf n]
  have len: "unat n \<le> length ds" "unat n \<le> xr_room (ax_fill s)"
    using rf(2) ds(1) unat_of_nat_small [of "length ds", where 'a = 32] by simp_all
  define s0 where "s0 = s\<lparr>ax_fill := r\<rparr>"
  have p: "xr_filled (ax_fill s) [] (ax_fill s0)" "length ([] :: u64 list) + length (take (unat n) ds) \<le> xr_room (ax_fill s)"
    using rf(1) len by (simp_all add: s0_def)
  obtain f where f: "release_loop 0 (take (unat n) ds) s0 = Some (s0\<lparr>ax_fill := f\<rparr>)"
      "xr_filled (ax_fill s) (map held_addr (take (unat n) ds)) f"
    using release_loop_post [OF p, unfolded list.size append_Nil semiring_1_class.of_nat_0] by blast
  have "n = of_nat (length (map held_addr (take (unat n) ds)))" using len(1) by simp
  note sub = submit_filled [OF f(2) this]
  define s1 where "s1 = (give_frames (map held_addr (drop (unat n) ds)) s0)\<lparr>ax_fill := xr_submit n f\<rparr>"
  have s1: "rings_wf s1" "keeps s s1" using wf sub by (simp_all add: s1_def s0_def rings_wf_def keeps_def)
  have "dev_pool s1 = dev_pool s + mset (map held_addr (take (unat n) ds)) + mset (map held_addr (drop (unat n) ds))"
    using sub(2) by (simp add: s1_def s0_def dev_pool_def)
  also have "\<dots> = dev_pool s + mset (map held_addr ds)"
    by (metis append_take_drop_id map_append mset_append union_assoc)
  finally have pool1: "dev_pool s1 = dev_pool s + mset (map held_addr ds)" .
  then have "INVALID_ADDR \<notin># dev_pool s1" using pool ds(2) by simp
  from refill_keeps(2) [OF s1(1) this] obtain s2 where
    s2: "refill_fill_ring s1 = Some s2" "rings_wf s2" "keeps s1 s2" "dev_pool s2 = dev_pool s1" by blast
  have "s0\<lparr>ax_fill := xr_submit n f, ax_alloc := ua_give_batch (map held_addr (drop (unat n) ds)) (ax_alloc s0)\<rparr> = s1"
    by (simp add: s1_def give_frames_def give_batch)
  then have "release_rx ds s = Some (wake_rx s2)"
    using n f(1) s2(1) by (simp add: release_rx_def s0_def Let_def flip: held_addr_def)
  moreover have "rings_wf (wake_rx s2)" "keeps s (wake_rx s2)" "dev_pool (wake_rx s2) = dev_pool s + mset (map held_addr ds)"
    using wake_rx_keeps [OF s2(2)] s1(2) s2(3,4) pool1 keeps_trans by (auto simp: keeps_def)
  ultimately show ?thesis by blast
qed
section \<open>Sent frames\<close>

definition chunk :: "nat \<Rightarrow> u64 \<Rightarrow> nat" where "chunk fs a = unat a div fs"

definition zc_addrs :: "packet_desc list \<Rightarrow> u64 list" where "zc_addrs ds = map held_addr (filter is_zerocopy ds)"

definition tx_desc :: "packet_desc \<Rightarrow> xdp_desc" where
  "tx_desc d = \<lparr>xd_addr = held_addr d, xd_len = pd_len d, xd_options = 0\<rparr>"

text \<open>What a caller may pass, where an address may be up to \<open>room\<close> bytes into its frame: bytes that leave space for
  the header, or a part of a frame.  Nothing in the code checks it.\<close>

definition may_send :: "nat \<Rightarrow> nat \<Rightarrow> nat \<Rightarrow> packet_desc \<Rightarrow> bool" where
  "may_send fs lim room d \<longleftrightarrow>
    (if is_zerocopy d then fits fs (unat (held_addr d)) (unat (pd_len d)) \<and> unat (held_addr d) mod fs \<le> room \<and> unat (held_addr d) < lim
     else room + ETH_HLEN + unat (pd_len d) \<le> fs \<and> (case pd_data d of External bs \<Rightarrow> unat (pd_len d) \<le> length bs | In_Umem _ \<Rightarrow> False))"

text \<open>The frame that a packet becomes.\<close>

definition framed :: "afxdp_config \<Rightarrow> bytes \<Rightarrow> packet_desc \<Rightarrow> bytes" where
  "framed c m d =
    (if is_zerocopy d then desc_bytes m (tx_desc d)
     else eth_header (ac_gateway_mac c) (ac_local_mac c) ETH_P_IP @ (case pd_data d of External bs \<Rightarrow> take (unat (pd_len d)) bs | In_Umem _ \<Rightarrow> []))"

definition macs_ok :: "afxdp_config \<Rightarrow> bool" where
  "macs_ok c \<longleftrightarrow> length (ac_gateway_mac c) = 6 \<and> length (ac_local_mac c) = 6"

lemma length_eth_header: "macs_ok c \<Longrightarrow> length (eth_header (ac_gateway_mac c) (ac_local_mac c) et) = ETH_HLEN"
  by (simp add: macs_ok_def eth_header_def ETH_HLEN_def)

lemma bytes_at_append: "bytes_at m a (n + k) = bytes_at m a n @ bytes_at m (a + n) k"
  by (simp only: bytes_at_def take_add drop_drop add.commute [of n a])

text \<open>Writing header and payload into the frame at \<open>a\<close>.\<close>

lemma write_frame:
  assumes macs: "macs_ok c" and d: "may_send fs lim room d" "\<not> is_zerocopy d"
    and a: "unat a mod fs \<le> room" "unat a < k * fs" "k * fs = length m" "fs < 2 ^ 32"
  shows "\<exists>m1 bs m2. build_ethernet (unat a + ETH_HLEN) (ac_gateway_mac c) (ac_local_mac c) ETH_P_IP m = Some m1 \<and>
    pd_bytes d m1 = Some bs \<and> mem_store (unat a + ETH_HLEN) bs m1 = Some m2 \<and> agree fs {chunk fs a} m m2 \<and>
    fits fs (unat a) (unat (pd_len d + of_nat ETH_HLEN)) \<and>
    desc_bytes m2 \<lparr>xd_addr = a, xd_len = pd_len d + of_nat ETH_HLEN, xd_options = 0\<rparr> = framed c m d"
proof -
  define hdr where "hdr = eth_header (ac_gateway_mac c) (ac_local_mac c) ETH_P_IP"
  have hdr: "length hdr = ETH_HLEN" unfolding hdr_def by (rule length_eth_header [OF macs])
  obtain bs0 where bs0: "pd_data d = External bs0" "unat (pd_len d) \<le> length bs0" "room + ETH_HLEN + unat (pd_len d) \<le> fs"
    using d by (auto simp: may_send_def split: packet_data.splits)
  define bs where "bs = take (unat (pd_len d)) bs0"
  have bs: "length bs = unat (pd_len d)" "pd_bytes d m' = Some bs" for m'
    using bs0 by (simp_all add: bs_def pd_bytes_def rd_slice_def)
  let ?n = "ETH_HLEN + unat (pd_len d)"
  have fit: "fits fs (unat a) ?n" using a(1) bs0(3) by (simp add: fits_def)
  have fsm: "unat a + ?n \<le> length m" using fits_end [OF fit a(2)] a(3) by simp
  obtain m1 where m1: "mem_store (unat a) hdr m = Some m1" "agree fs {unat a div fs} m m1" "bytes_at m1 (unat a) (length hdr) = hdr"
    using mem_store_agree [OF fit fsm, of "unat a" hdr] hdr by auto
  have fsm1: "unat a + ?n \<le> length m1" using fsm m1(2) by (simp add: agree_def)
  obtain m2 where m2: "mem_store (unat a + ETH_HLEN) bs m1 = Some m2" "agree fs {unat a div fs} m1 m2"
      "bytes_at m2 (unat a + ETH_HLEN) (length bs) = bs" "bytes_at m2 (unat a) ETH_HLEN = bytes_at m1 (unat a) ETH_HLEN"
    using mem_store_agree [OF fit fsm1, of "unat a + ETH_HLEN" bs] bs(1) by auto
  have len: "unat (pd_len d + of_nat ETH_HLEN) = ?n"
    using bs0(3) a(4) by (subst unat_add_small) (simp_all add: ETH_HLEN_def)
  have "desc_bytes m2 \<lparr>xd_addr = a, xd_len = pd_len d + of_nat ETH_HLEN, xd_options = 0\<rparr> = hdr @ bs"
    using m1(3) m2(3,4) by (simp add: desc_bytes_def len bytes_at_append hdr bs(1))
  also have "hdr @ bs = framed c m d" using d(2) bs0(1) by (simp add: framed_def hdr_def bs_def)
  finally have "desc_bytes m2 \<lparr>xd_addr = a, xd_len = pd_len d + of_nat ETH_HLEN, xd_options = 0\<rparr> = framed c m d" .
  moreover have "agree fs {chunk fs a} m m2" using agree_trans [OF m1(2) m2(2)] by (simp add: chunk_def)
  moreover have "build_ethernet (unat a + ETH_HLEN) (ac_gateway_mac c) (ac_local_mac c) ETH_P_IP m = Some m1"
    using m1(1) by (simp add: build_ethernet_def hdr_def)
  ultimately show ?thesis using m2(1) bs(2) fit len by auto
qed
text \<open>The frames written: the descriptors \<open>ws\<close> for a prefix of the packets, with frames \<open>taken\<close> from the free list.\<close>

definition sent_as :: "nat \<Rightarrow> packet_desc list \<Rightarrow> xdp_desc list \<Rightarrow> u64 list \<Rightarrow> afxdp \<Rightarrow> afxdp \<Rightarrow> bool" where
  "sent_as fs ds ws taken s s' \<longleftrightarrow> ax_config s' = ax_config s \<and> ax_fill s' = ax_fill s \<and> ax_comp s' = ax_comp s \<and> ax_rx s' = ax_rx s \<and>
     free_list s = free_list s' @ rev taken \<and> length ws \<le> length ds \<and> agree fs (chunk fs ` set taken) (ax_mem s) (ax_mem s') \<and>
     mset (map xd_addr ws) = mset taken + mset (zc_addrs (take (length ws) ds)) \<and>
     map (desc_bytes (ax_mem s')) ws = map (framed (ax_config s) (ax_mem s)) (take (length ws) ds) \<and>
     (\<forall>w\<in>set ws. fits fs (unat (xd_addr w)) (unat (xd_len w)))"

lemma sent_as_Nil: "sent_as fs ds [] [] s s' \<longleftrightarrow> ax_config s' = ax_config s \<and> ax_fill s' = ax_fill s \<and> ax_comp s' = ax_comp s \<and>
    ax_rx s' = ax_rx s \<and> free_list s' = free_list s \<and> agree fs {} (ax_mem s) (ax_mem s')"
  by (auto simp: sent_as_def zc_addrs_def)

text \<open>A zero-copy packet in front.\<close>

lemma sent_as_zero_copy:
  assumes zc: "is_zerocopy d" "may_send fs lim room d" and dist: "distinct (map (chunk fs) (free_list s @ zc_addrs (d # ds)))"
    and s1: "s1 = s\<lparr>ax_tx := t\<rparr>" and rest: "sent_as fs ds ws taken s1 s'"
  shows "sent_as fs (d # ds) (tx_desc d # ws) taken s s'"
proof -
  have fit: "fits fs (unat (held_addr d)) (unat (pd_len d))" using zc by (simp add: may_send_def)
  have "set taken \<subseteq> set (free_list s)" using rest s1 by (auto simp: sent_as_def)
  then have "chunk fs (held_addr d) \<notin> chunk fs ` set taken" using dist zc(1) by (auto simp: zc_addrs_def)
  then have "desc_bytes (ax_mem s') (tx_desc d) = desc_bytes (ax_mem s) (tx_desc d)"
    using rest s1 fit by (auto simp: desc_bytes_def tx_desc_def chunk_def sent_as_def intro!: bytes_at_agree)
  then show ?thesis using rest s1 zc(1) fit by (auto simp: sent_as_def zc_addrs_def framed_def tx_desc_def)
qed

text \<open>A copied packet in front, in the last free frame.\<close>

lemma sent_as_copy:
  assumes d: "\<not> is_zerocopy d" and w: "desc_bytes m2 w = framed (ax_config s) (ax_mem s) d" "xd_addr w = a"
      "fits fs (unat a) (unat (xd_len w))"
    and fl: "free_list s = fl @ [a]" and mem: "agree fs {chunk fs a} (ax_mem s) m2"
    and dist: "distinct (map (chunk fs) (free_list s @ zc_addrs (d # ds)))" and may: "\<forall>d\<in>set ds. may_send fs lim room d"
    and s1: "s1 = s\<lparr>ax_alloc := (ax_alloc s)\<lparr>ua_free := fl\<rparr>, ax_mem := m2, ax_tx := t\<rparr>" and rest: "sent_as fs ds ws taken s1 s'"
  shows "sent_as fs (d # ds) (w # ws) (a # taken) s s'"
proof -
  have sub: "set taken \<subseteq> set fl" using rest s1 by (auto simp: sent_as_def)
  then have "chunk fs a \<notin> chunk fs ` set taken" using dist fl by fastforce
  then have first: "desc_bytes (ax_mem s') w = framed (ax_config s) (ax_mem s) d"
    using rest s1 w bytes_at_agree [of fs "chunk fs ` set taken" m2 "ax_mem s'" "unat a" "unat (xd_len w)"]
    by (simp add: sent_as_def desc_bytes_def chunk_def)
  have later: "framed (ax_config s1) (ax_mem s1) e = framed (ax_config s) (ax_mem s) e" if "e \<in> set ds" for e
  proof (cases "is_zerocopy e")
    case True
    then have "held_addr e \<in> set (zc_addrs (d # ds))" using that by (simp add: zc_addrs_def)
    then have "chunk fs (held_addr e) \<noteq> chunk fs a" using dist fl by (auto simp: image_iff)
    moreover have "fits fs (unat (held_addr e)) (unat (pd_len e))" using may that True by (auto simp: may_send_def)
    ultimately show ?thesis using True mem s1
      by (auto simp: framed_def desc_bytes_def tx_desc_def chunk_def intro!: bytes_at_agree)
  qed (simp add: framed_def s1)
  have "agree fs (chunk fs ` set (a # taken)) (ax_mem s) (ax_mem s')"
    using agree_trans [OF mem, of "chunk fs ` set taken" "ax_mem s'"] rest s1 by (simp add: sent_as_def)
  moreover have "map (framed (ax_config s1) (ax_mem s1)) (take (length ws) ds) = map (framed (ax_config s) (ax_mem s)) (take (length ws) ds)"
    using later by (auto dest: in_set_takeD)
  ultimately show ?thesis
    using rest s1 first fl d w(2,3) by (simp add: sent_as_def zc_addrs_def)
qed
text \<open>The free frames lie in the memory, and their addresses at most \<open>room\<close> bytes into them.\<close>

definition free_ok :: "nat \<Rightarrow> nat \<Rightarrow> nat \<Rightarrow> u64 list \<Rightarrow> bool" where
  "free_ok fs lim room as \<longleftrightarrow> (\<forall>a\<in>set as. unat a mod fs \<le> room \<and> unat a < lim \<and> a \<noteq> INVALID_ADDR)"

lemma send_descs_post:
  "xr_filled r vs (ax_tx s) \<Longrightarrow> length vs + length ds \<le> xr_room r \<Longrightarrow> macs_ok (ax_config s) \<Longrightarrow> length (ax_mem s) = k * fs \<Longrightarrow> fs < 2 ^ 32 \<Longrightarrow>
    free_ok fs (k * fs) room (free_list s) \<Longrightarrow> \<forall>d\<in>set ds. may_send fs (k * fs) room d \<Longrightarrow>
    distinct (map (chunk fs) (free_list s @ zc_addrs ds)) \<Longrightarrow>
    \<exists>ws taken s'. send_descs n (of_nat (length vs)) ds s = Some (of_nat (length vs + length ws), s') \<and>
      sent_as fs ds ws taken s s' \<and> xr_filled r (vs @ ws) (ax_tx s') \<and> (length ws < length ds \<longrightarrow> free_list s' = [])"
proof (induction ds arbitrary: vs s)
  case Nil
  then show ?case by (intro exI [of _ "[]"] exI [of _ s]) (simp add: sent_as_Nil)
next
  case (Cons d ds)
  have room: "length vs < xr_room r" using Cons.prems(2) by simp
  show ?case
  proof (cases "is_zerocopy d")
    case True
    obtain t where t: "xr_put (of_nat (length vs)) (tx_desc d) (ax_tx s) = Some t" "xr_filled r (vs @ [tx_desc d]) t"
      using put_filled [OF Cons.prems(1) room refl, of "tx_desc d"] by blast
    define s1 where "s1 = s\<lparr>ax_tx := t\<rparr>"
    have "distinct (map (chunk fs) (free_list s @ zc_addrs ds))" using Cons.prems(8) True by (simp add: zc_addrs_def)
    then have p: "xr_filled r (vs @ [tx_desc d]) (ax_tx s1)" "length (vs @ [tx_desc d]) + length ds \<le> xr_room r" "macs_ok (ax_config s1)"
        "length (ax_mem s1) = k * fs" "fs < 2 ^ 32" "free_ok fs (k * fs) room (free_list s1)" "\<forall>d\<in>set ds. may_send fs (k * fs) room d"
        "distinct (map (chunk fs) (free_list s1 @ zc_addrs ds))"
      using Cons.prems t(2) by (simp_all add: s1_def)
    obtain ws taken s' where ih: "send_descs n (of_nat (length (vs @ [tx_desc d]))) ds s1 = Some (of_nat (length (vs @ [tx_desc d]) + length ws), s')"
        "sent_as fs ds ws taken s1 s'" "xr_filled r ((vs @ [tx_desc d]) @ ws) (ax_tx s')" "length ws < length ds \<longrightarrow> free_list s' = []"
      using Cons.IH [OF p] by blast
    have "send_descs n (of_nat (length vs)) (d # ds) s = send_descs n (of_nat (length (vs @ [tx_desc d]))) ds s1"
      using True t(1) by (simp add: s1_def tx_desc_def held_addr_def add.commute)
    then have "send_descs n (of_nat (length vs)) (d # ds) s = Some (of_nat (length vs + length (tx_desc d # ws)), s')"
      unfolding ih(1) by simp
    moreover have "sent_as fs (d # ds) (tx_desc d # ws) taken s s'"
      using Cons.prems(7) by (intro sent_as_zero_copy [where lim = "k * fs" and room = room, OF True _ Cons.prems(8) s1_def ih(2)]) simp
    moreover have "xr_filled r (vs @ tx_desc d # ws) (ax_tx s')" using ih(3) by simp
    moreover have "length (tx_desc d # ws) < length (d # ds) \<longrightarrow> free_list s' = []" using ih(4) by simp
    ultimately show ?thesis by blast
  next
    case False
    from alloc_cases [of s] show ?thesis
    proof (elim disjE exE conjE)
      assume "free_list s = []" "ua_alloc (ax_alloc s) = (INVALID_ADDR, ax_alloc s)"
      then show ?thesis using Cons.prems(1) False
        by (intro exI [of _ "[]"] exI [of _ "s\<lparr>ax_stats := (ax_stats s)\<lparr>xs_invalid_descs := xs_invalid_descs (ax_stats s) + ucast (n - of_nat (length vs))\<rparr>\<rparr>"])
          (simp add: sent_as_Nil)
    next
      fix fl a
      assume fl: "free_list s = fl @ [a]" "ua_alloc (ax_alloc s) = (a, (ax_alloc s)\<lparr>ua_free := fl\<rparr>)"
      have a: "unat a mod fs \<le> room" "unat a < k * fs" "a \<noteq> INVALID_ADDR" using Cons.prems(6) fl(1) by (simp_all add: free_ok_def)
      have may: "may_send fs (k * fs) room d" using Cons.prems(7) by simp
      define w where "w = \<lparr>xd_addr = a, xd_len = pd_len d + of_nat ETH_HLEN, xd_options = 0\<rparr>"
      obtain m1 bs m2 where m: "build_ethernet (unat a + ETH_HLEN) (ac_gateway_mac (ax_config s)) (ac_local_mac (ax_config s)) ETH_P_IP (ax_mem s) = Some m1"
          "pd_bytes d m1 = Some bs" "mem_store (unat a + ETH_HLEN) bs m1 = Some m2" "agree fs {chunk fs a} (ax_mem s) m2"
          "fits fs (unat a) (unat (pd_len d + of_nat ETH_HLEN))" "desc_bytes m2 w = framed (ax_config s) (ax_mem s) d"
        using write_frame [OF Cons.prems(3) may False a(1,2) Cons.prems(4) [symmetric] Cons.prems(5)] unfolding w_def by blast
      obtain t where t: "xr_put (of_nat (length vs)) w (ax_tx s) = Some t" "xr_filled r (vs @ [w]) t"
        using put_filled [OF Cons.prems(1) room refl, of w] by blast
      define s1 where "s1 = s\<lparr>ax_alloc := (ax_alloc s)\<lparr>ua_free := fl\<rparr>, ax_mem := m2, ax_tx := t\<rparr>"
      have "distinct (map (chunk fs) (fl @ zc_addrs ds))" using Cons.prems(8) False fl(1) by (auto simp: zc_addrs_def)
      then have p: "xr_filled r (vs @ [w]) (ax_tx s1)" "length (vs @ [w]) + length ds \<le> xr_room r" "macs_ok (ax_config s1)"
          "length (ax_mem s1) = k * fs" "fs < 2 ^ 32" "free_ok fs (k * fs) room (free_list s1)" "\<forall>d\<in>set ds. may_send fs (k * fs) room d"
          "distinct (map (chunk fs) (free_list s1 @ zc_addrs ds))"
        using Cons.prems t(2) m(4) fl(1) by (simp_all add: s1_def agree_def free_ok_def)
      obtain ws taken s' where ih: "send_descs n (of_nat (length (vs @ [w]))) ds s1 = Some (of_nat (length (vs @ [w]) + length ws), s')"
          "sent_as fs ds ws taken s1 s'" "xr_filled r ((vs @ [w]) @ ws) (ax_tx s')" "length ws < length ds \<longrightarrow> free_list s' = []"
        using Cons.IH [OF p] by blast
      have "send_descs n (of_nat (length vs)) (d # ds) s = send_descs n (of_nat (length (vs @ [w]))) ds s1"
        using False fl(2) a(3) m(1-3) t(1) by (simp add: s1_def w_def add.commute)
      then have "send_descs n (of_nat (length vs)) (d # ds) s = Some (of_nat (length vs + length (w # ws)), s')"
        unfolding ih(1) by simp
      moreover have "sent_as fs (d # ds) (w # ws) (a # taken) s s'"
        by (rule sent_as_copy [OF False m(6) _ _ fl(1) m(4) Cons.prems(8) p(7) s1_def ih(2)]) (simp_all add: w_def m(5))
      moreover have "xr_filled r (vs @ w # ws) (ax_tx s')" using ih(3) by simp
      moreover have "length (w # ws) < length (d # ds) \<longrightarrow> free_list s' = []" using ih(4) by simp
      ultimately show ?thesis by blast
    qed
  qed
qed

lemma send_batch_post:
  assumes wf: "rings_wf s" and ds: "length ds < 2 ^ 32" "\<forall>d\<in>set ds. may_send fs (k * fs) room d"
    and dev: "macs_ok (ax_config s)" "length (ax_mem s) = k * fs" "fs < 2 ^ 32" "free_ok fs (k * fs) room (free_list s)"
    and dist: "distinct (map (chunk fs) (free_list s @ zc_addrs ds))"
  shows "\<exists>n ws taken s'. send_batch ds s = Some (n, s') \<and> rings_wf s' \<and> sent_as fs ds ws taken s s' \<and> unat n = length ws \<and>
    xr_contents (ax_tx s') = xr_contents (ax_tx s) @ ws \<and>
    (length ws < min (length ds) (xr_room (ax_tx s)) \<longrightarrow> free_list s' = [])"
proof -
  obtain n r where n: "xr_reserve (of_nat (length ds)) (ax_tx s) = (n, r)" by (cases "xr_reserve (of_nat (length ds)) (ax_tx s)")
  have twf: "xr_wf (ax_tx s)" using wf by (simp add: rings_wf_def)
  note rf = reserve_filled [OF twf n]
  have un: "unat n = min (length ds) (xr_room (ax_tx s))"
    using rf(2) ds(1) unat_of_nat_small [of "length ds", where 'a = 32] by simp
  define s0 where "s0 = s\<lparr>ax_tx := r\<rparr>"
  let ?ds = "take (unat n) ds"
  have len: "length ?ds = unat n" using un by simp
  have "zc_addrs ds = zc_addrs ?ds @ zc_addrs (drop (unat n) ds)"
    by (metis append_take_drop_id filter_append map_append zc_addrs_def)
  then have "distinct (map (chunk fs) (free_list s @ zc_addrs ?ds))" using dist by auto
  then have p: "xr_filled (ax_tx s) [] (ax_tx s0)" "length ([] :: xdp_desc list) + length ?ds \<le> xr_room (ax_tx s)" "macs_ok (ax_config s0)"
      "length (ax_mem s0) = k * fs" "fs < 2 ^ 32" "free_ok fs (k * fs) room (free_list s0)" "\<forall>d\<in>set ?ds. may_send fs (k * fs) room d"
      "distinct (map (chunk fs) (free_list s0 @ zc_addrs ?ds))"
    using rf(1) dev ds(2) un by (auto simp: s0_def dest: in_set_takeD)
  obtain ws taken s1 where l: "send_descs (of_nat (length ds)) 0 ?ds s0 = Some (of_nat (length ws), s1)"
      "sent_as fs ?ds ws taken s0 s1" "xr_filled (ax_tx s) ws (ax_tx s1)" "length ws < length ?ds \<longrightarrow> free_list s1 = []"
    using send_descs_post [OF p, of "of_nat (length ds)", unfolded list.size append_Nil add_0 semiring_1_class.of_nat_0] by blast
  have wl: "length ws \<le> unat n" using l(2) un by (simp add: sent_as_def)
  then have uw: "unat (of_nat (length ws) :: u32) = length ws" using unat_lt_2_32 [of n] by (intro unat_of_nat_small) simp
  have sent: "sent_as fs ds ws taken s s'" if "ax_config s' = ax_config s1" "ax_fill s' = ax_fill s1" "ax_comp s' = ax_comp s1"
      "ax_rx s' = ax_rx s1" "ax_mem s' = ax_mem s1" "free_list s' = free_list s1" for s'
  proof -
    have "length ws \<le> length ds" "take (length ws) ?ds = take (length ws) ds" using un wl by simp_all
    then show ?thesis using l(2) that unfolding sent_as_def by (simp add: s0_def)
  qed
  note sub = submit_filled [OF l(3) refl]
  show ?thesis
  proof (cases "n = 0")
    case True
    define s' where "s' = s0\<lparr>ax_stats := (ax_stats s0)\<lparr>xs_tx_dropped := xs_tx_dropped (ax_stats s0) + ucast (of_nat (length ds) :: u32)\<rparr>\<rparr>"
    have "send_batch ds s = Some (0, s')" using n True by (simp add: send_batch_def s'_def s0_def Let_def)
    moreover have "rings_wf s'" "xr_contents (ax_tx s') = xr_contents (ax_tx s)"
      using rf(1) wf by (simp_all add: s'_def s0_def rings_wf_def xr_filled_def xr_contents_def xr_used_def)
    moreover have "sent_as fs ds [] [] s s'" by (simp add: sent_as_Nil s'_def s0_def)
    ultimately show ?thesis using un True by (intro exI [of _ 0] exI [of _ "[]"] exI [of _ s']) simp
  next
    case False
    define s2 where "s2 = s1\<lparr>ax_tx := xr_submit (of_nat (length ws)) (ax_tx s1),
        ax_stats := (ax_stats s1)\<lparr>xs_tx_packets := xs_tx_packets (ax_stats s1) + ucast (of_nat (length ws) :: u32)\<rparr>\<rparr>"
    define s3 where "s3 = (if xr_needs_wakeup (ax_tx s2) then s2\<lparr>ax_calls := ax_calls s2 @ [Kick_Tx]\<rparr> else s2)"
    have s3: "ax_config s3 = ax_config s1" "ax_fill s3 = ax_fill s1" "ax_comp s3 = ax_comp s1" "ax_rx s3 = ax_rx s1"
        "ax_mem s3 = ax_mem s1" "free_list s3 = free_list s1" "ax_tx s3 = xr_submit (of_nat (length ws)) (ax_tx s1)"
      by (simp_all add: s3_def s2_def)
    have "send_batch ds s = Some (of_nat (length ws), s3)"
      using n False l(1) by (simp add: send_batch_def Let_def flip: s0_def) (simp add: s3_def s2_def)
    moreover have "rings_wf s3" using wf sub(1) l(2) by (simp add: rings_wf_def s3 sent_as_def s0_def)
    moreover have "xr_contents (ax_tx s3) = xr_contents (ax_tx s) @ ws" by (simp add: s3 sub(2))
    moreover have "length ws < min (length ds) (xr_room (ax_tx s)) \<longrightarrow> free_list s3 = []" using l(4) len un s3(6) by simp
    ultimately show ?thesis using sent [OF s3(1-6)] uw by blast
  qed
qed

end
