(* ===== verification/Afxdp_Traffic.thy ===== *)
theory Afxdp_Traffic
  imports Afxdp_Frames
begin

text \<open>
  The AF\_XDP device between an application and the kernel.  The calls of the application and the work of the
  kernel alternate in any order; what the kernel does during a call, which has read the shared positions of the
  rings when it started, is as if done after it.
\<close>

section \<open>The system\<close>

text \<open>
  The device; the frames that the kernel has taken from the fill ring and from the TX ring; the packets the
  application holds, each with its bytes when it was received; the frames the application has sent and those the
  kernel has put on the wire, the frames that came from the wire and the packets that were received.
\<close>

record ax_sys =
  sy_dev :: afxdp
  sy_filled :: "u64 list"
  sy_taken :: "u64 list"
  sy_held :: "(packet_desc \<times> bytes) list"
  sy_sent :: "bytes list"
  sy_wire :: "bytes list"
  sy_arrived :: "bytes list"
  sy_received :: "bytes list"

abbreviation held_addrs :: "(packet_desc \<times> bytes) list \<Rightarrow> u64 list" where
  "held_addrs hs \<equiv> map (\<lambda>h. held_addr (fst h)) hs"

text \<open>
  The kernel writes a frame at most \<open>room\<close> bytes (its headroom) into the frame of memory, wherever the address it
  was given points in it.  The application releases and sends only what it holds; a call takes fewer than
  \<open>2 ^ 32\<close> packets.
\<close>

inductive afxdp_step :: "nat \<Rightarrow> ax_sys \<Rightarrow> ax_sys \<Rightarrow> bool" for room :: nat where
  receive: "recv_batch n (sy_dev s) = Some (ds, dev) \<Longrightarrow> map (\<lambda>d. pd_bytes d (ax_mem dev)) ds = map Some bss \<Longrightarrow>
    afxdp_step room s (s\<lparr>sy_dev := dev, sy_held := sy_held s @ zip ds bss, sy_received := sy_received s @ bss\<rparr>)"
| release: "mset (sy_held s) = mset hs + mset rest \<Longrightarrow> length hs < 2 ^ 32 \<Longrightarrow> release_rx (map fst hs) (sy_dev s) = Some dev \<Longrightarrow>
    afxdp_step room s (s\<lparr>sy_dev := dev, sy_held := rest\<rparr>)"
| send: "send_batch ds (sy_dev s) = Some (n, dev) \<Longrightarrow> length ds < 2 ^ 32 \<Longrightarrow>
    \<forall>d\<in>set ds. may_send (chunk_size (sy_dev s)) (chunk_count (sy_dev s) * chunk_size (sy_dev s)) room d \<Longrightarrow>
    mset (zc_addrs ds) \<subseteq># mset (held_addrs (sy_held s)) \<Longrightarrow>
    mset (sy_held s) = mset hs + mset rest \<Longrightarrow> mset (held_addrs hs) = mset (zc_addrs (take (unat n) ds)) \<Longrightarrow>
    afxdp_step room s (s\<lparr>sy_dev := dev, sy_held := rest,
      sy_sent := sy_sent s @ map (framed (ax_config (sy_dev s)) (ax_mem (sy_dev s))) (take (unat n) ds)\<rparr>)"
| kernel_fill: "kernel_take (ax_fill (sy_dev s)) = Some (a, fill) \<Longrightarrow>
    afxdp_step room s (s\<lparr>sy_dev := (sy_dev s)\<lparr>ax_fill := fill\<rparr>, sy_filled := sy_filled s @ [a]\<rparr>)"
| kernel_rx: "sy_filled s = as @ a # bs \<Longrightarrow> off \<le> room \<Longrightarrow> off + length frame \<le> chunk_size (sy_dev s) \<Longrightarrow>
    at = chunk (chunk_size (sy_dev s)) a * chunk_size (sy_dev s) + off \<Longrightarrow>
    mem_store at frame (ax_mem (sy_dev s)) = Some m \<Longrightarrow>
    kernel_put \<lparr>xd_addr = of_nat at, xd_len = of_nat (length frame), xd_options = options\<rparr> (ax_rx (sy_dev s)) = Some rx \<Longrightarrow>
    afxdp_step room s (s\<lparr>sy_dev := (sy_dev s)\<lparr>ax_mem := m, ax_rx := rx\<rparr>, sy_filled := as @ bs, sy_arrived := sy_arrived s @ [frame]\<rparr>)"
| kernel_tx: "kernel_take (ax_tx (sy_dev s)) = Some (d, tx) \<Longrightarrow>
    afxdp_step room s (s\<lparr>sy_dev := (sy_dev s)\<lparr>ax_tx := tx\<rparr>, sy_taken := sy_taken s @ [xd_addr d],
      sy_wire := sy_wire s @ [desc_bytes (ax_mem (sy_dev s)) d]\<rparr>)"
| kernel_done: "sy_taken s = as @ a # bs \<Longrightarrow> kernel_put a (ax_comp (sy_dev s)) = Some comp' \<Longrightarrow>
    afxdp_step room s (s\<lparr>sy_dev := (sy_dev s)\<lparr>ax_comp := comp'\<rparr>, sy_taken := as @ bs\<rparr>)"

section \<open>The invariant\<close>

definition all_addrs :: "ax_sys \<Rightarrow> u64 multiset" where
  "all_addrs s = dev_pool (sy_dev s) + mset (map xd_addr (xr_contents (ax_rx (sy_dev s)))) + mset (map xd_addr (xr_contents (ax_tx (sy_dev s)))) +
     mset (sy_filled s) + mset (sy_taken s) + mset (held_addrs (sy_held s))"

text \<open>A received packet, still in its frame.\<close>

definition held_ok :: "nat \<Rightarrow> bytes \<Rightarrow> packet_desc \<times> bytes \<Rightarrow> bool" where
  "held_ok fs m h \<longleftrightarrow> (\<exists>x. fst h = rx_desc x \<and> held_addr (fst h) = xd_addr x \<and> fits fs (unat (xd_addr x)) (unat (xd_len x)) \<and> in_memory m x \<and>
     ip_frame (desc_bytes m x) \<and> snd h = drop ETH_HLEN (desc_bytes m x))"

definition layout_ok :: "nat \<Rightarrow> afxdp \<Rightarrow> bool" where
  "layout_ok room d \<longleftrightarrow> macs_ok (ax_config d) \<and> room < chunk_size d \<and> chunk_count d * chunk_size d \<le> 2 ^ 32 \<and>
     length (ax_mem d) = chunk_count d * chunk_size d"

definition addrs_ok :: "nat \<Rightarrow> nat \<Rightarrow> nat \<Rightarrow> u64 multiset \<Rightarrow> bool" where
  "addrs_ok fs lim room A \<longleftrightarrow> (\<forall>a\<in>#A. unat a mod fs \<le> room \<and> unat a < lim)"

definition descs_ok :: "nat \<Rightarrow> afxdp \<Rightarrow> bool" where
  "descs_ok fs d \<longleftrightarrow> (\<forall>x\<in>set (xr_contents (ax_rx d)) \<union> set (xr_contents (ax_tx d)). fits fs (unat (xd_addr x)) (unat (xd_len x)))"

definition payloads :: "bytes list \<Rightarrow> bytes list" where
  "payloads fs = map (drop ETH_HLEN) (filter ip_frame fs)"

definition ax_inv :: "nat \<Rightarrow> ax_sys \<Rightarrow> bool" where
  "ax_inv room s \<longleftrightarrow>
    (let d = sy_dev s; fs = chunk_size d; k = chunk_count d in
     rings_wf d \<and> layout_ok room d \<and> descs_ok fs d \<and>
     image_mset (chunk fs) (all_addrs s) = mset [0..<k] \<and> addrs_ok fs (k * fs) room (all_addrs s) \<and>
     sy_sent s = sy_wire s @ map (desc_bytes (ax_mem d)) (xr_contents (ax_tx d)) \<and>
     payloads (sy_arrived s) = sy_received s @ payloads (map (desc_bytes (ax_mem d)) (xr_contents (ax_rx d))) \<and>
     (\<forall>h\<in>set (sy_held s). held_ok fs (ax_mem d) h))"

text \<open>Frames in different places are different.\<close>

lemma places_differ:
  assumes "image_mset f M = mset xs" and "distinct xs" and "M = P + Q + R" and "a \<in># P" and "b \<in># Q"
  shows "f a \<noteq> f b"
proof
  assume eq: "f a = f b"
  obtain P' Q' where "P = {#a#} + P'" "Q = {#b#} + Q'"
    using assms(4,5) by (metis insert_DiffM add_mset_add_single add.commute)
  then have "mset xs = {#f a#} + {#f a#} + image_mset f (P' + Q' + R)" using assms(1,3) eq by (simp add: ac_simps)
  moreover have "count ({#f a#} + {#f a#} + image_mset f (P' + Q' + R)) (f a) \<ge> 2" by simp
  moreover have "count (mset xs) (f a) \<le> 1" using assms(2) by (simp add: distinct_count_atmost_1)
  ultimately show False by simp
qed

lemma valid_addr: "unat (a :: u64) < lim \<Longrightarrow> lim \<le> 2 ^ 32 \<Longrightarrow> a \<noteq> INVALID_ADDR \<and> ucast (ucast a :: u32) = a"
proof -
  assume "unat a < lim" "lim \<le> 2 ^ 32"
  then have a: "unat a < 2 ^ 32" by simp
  have "unat (ucast (ucast a :: u32) :: u64) = unat a" using a by (simp add: unsigned_ucast_eq unsigned_take_bit_eq take_bit_nat_eq_self)
  then have "ucast (ucast a :: u32) = a" by (simp only: word_unat_eq_iff)
  moreover have "unat INVALID_ADDR = 2 ^ 64 - 1" by (simp add: INVALID_ADDR_def unsigned_minus_1_eq_mask mask_eq_exp_minus_1)
  then have "a \<noteq> INVALID_ADDR" using a by auto
  ultimately show ?thesis by blast
qed

lemma distinct_places:
  assumes "image_mset f M = mset xs" and "distinct xs" and "mset ys \<subseteq># M"
  shows "distinct (map f ys)"
proof -
  have "mset (map f ys) \<subseteq># mset xs" using image_mset_subseteq_mono [OF assms(3), of f] assms(1) by simp
  then obtain C where "mset xs = mset (map f ys) + C" by (metis subset_mset.add_diff_inverse)
  moreover obtain cs where "C = mset cs" by (metis ex_mset)
  ultimately have "mset xs = mset (map f ys @ cs)" by simp
  then have "distinct (map f ys @ cs)" using assms(2) mset_eq_imp_distinct_iff by blast
  then show ?thesis by simp
qed

text \<open>The parts of the invariant.\<close>

lemma ax_invI:
  assumes "rings_wf (sy_dev s)" and "layout_ok room (sy_dev s)" and "descs_ok fs (sy_dev s)" and "fs = chunk_size (sy_dev s)"
    and "k = chunk_count (sy_dev s)" and "image_mset (chunk fs) (all_addrs s) = mset [0..<k]" and "addrs_ok fs (k * fs) room (all_addrs s)"
    and "sy_sent s = sy_wire s @ map (desc_bytes (ax_mem (sy_dev s))) (xr_contents (ax_tx (sy_dev s)))"
    and "payloads (sy_arrived s) = sy_received s @ payloads (map (desc_bytes (ax_mem (sy_dev s))) (xr_contents (ax_rx (sy_dev s))))"
    and "\<forall>h\<in>set (sy_held s). held_ok fs (ax_mem (sy_dev s)) h"
  shows "ax_inv room s"
  using assms by (simp add: ax_inv_def Let_def)

lemma ax_invD:
  assumes "ax_inv room s" and "fs = chunk_size (sy_dev s)" and "k = chunk_count (sy_dev s)"
  shows "rings_wf (sy_dev s)" "layout_ok room (sy_dev s)" "descs_ok fs (sy_dev s)"
    "image_mset (chunk fs) (all_addrs s) = mset [0..<k]" "addrs_ok fs (k * fs) room (all_addrs s)"
    "sy_sent s = sy_wire s @ map (desc_bytes (ax_mem (sy_dev s))) (xr_contents (ax_tx (sy_dev s)))"
    "payloads (sy_arrived s) = sy_received s @ payloads (map (desc_bytes (ax_mem (sy_dev s))) (xr_contents (ax_rx (sy_dev s))))"
    "\<forall>h\<in>set (sy_held s). held_ok fs (ax_mem (sy_dev s)) h"
  using assms by (simp_all add: ax_inv_def Let_def)

lemma known_addr:
  assumes inv: "ax_inv room s" and a: "a \<in># all_addrs s"
  shows "a \<noteq> INVALID_ADDR" "ucast (ucast a :: u32) = a" "unat a mod chunk_size (sy_dev s) \<le> room"
    "unat a < chunk_count (sy_dev s) * chunk_size (sy_dev s)"
proof -
  note i = ax_invD [OF inv refl refl]
  show lt: "unat a mod chunk_size (sy_dev s) \<le> room" "unat a < chunk_count (sy_dev s) * chunk_size (sy_dev s)"
    using i(5) a by (auto simp: addrs_ok_def)
  show "a \<noteq> INVALID_ADDR" "ucast (ucast a :: u32) = a" using valid_addr [OF lt(2)] i(2) by (simp_all add: layout_ok_def)
qed

lemma pool_known: "ax_inv room s \<Longrightarrow> INVALID_ADDR \<notin># dev_pool (sy_dev s)"
  using known_addr(1) [of room s INVALID_ADDR] by (auto simp: all_addrs_def)

lemma rx_known:
  assumes inv: "ax_inv room s" and x: "x \<in> set (xr_contents (ax_rx (sy_dev s)))"
  shows "in_memory (ax_mem (sy_dev s)) x" "xd_addr x \<noteq> INVALID_ADDR" "held_addr (rx_desc x) = xd_addr x"
    "fits (chunk_size (sy_dev s)) (unat (xd_addr x)) (unat (xd_len x))"
proof -
  note i = ax_invD [OF inv refl refl]
  have a: "xd_addr x \<in># all_addrs s" using x by (simp add: all_addrs_def)
  note k = known_addr [OF inv a]
  show fit: "fits (chunk_size (sy_dev s)) (unat (xd_addr x)) (unat (xd_len x))" using i(3) x by (simp add: descs_ok_def)
  show "in_memory (ax_mem (sy_dev s)) x" using fits_end [OF fit k(4)] i(2) by (simp add: in_memory_def layout_ok_def)
  show "xd_addr x \<noteq> INVALID_ADDR" by (rule k(1))
  show "held_addr (rx_desc x) = xd_addr x" using k(2) by (simp add: held_addr_def rx_desc_def)
qed

section \<open>Every step keeps the invariant\<close>

lemma rx_bytes:
  assumes "in_memory m x" and "ip_frame (desc_bytes m x)"
  shows "pd_bytes (rx_desc x) m = Some (drop ETH_HLEN (desc_bytes m x))"
proof -
  have "14 \<le> unat (xd_len x)" using assms(2) by (simp add: ip_frame_def desc_bytes_def bytes_at_def ETH_HLEN_def)
  then have "unat (xd_len x - of_nat ETH_HLEN) = unat (xd_len x) - 14" by (simp add: ETH_HLEN_def unat_sub_small word_le_nat_alt)
  then show ?thesis using assms(1) \<open>14 \<le> unat (xd_len x)\<close>
    by (simp add: pd_bytes_def rx_desc_def rd_slice_def in_memory_def desc_bytes_def bytes_at_def ETH_HLEN_def drop_take add.commute)
qed

lemma step_receive:
  assumes inv: "ax_inv room s" and call: "recv_batch n (sy_dev s) = Some (ds, dev)"
    and bss: "map (\<lambda>d. pd_bytes d (ax_mem dev)) ds = map Some bss"
  shows "ax_inv room (s\<lparr>sy_dev := dev, sy_held := sy_held s @ zip ds bss, sy_received := sy_received s @ bss\<rparr>)"
proof -
  let ?d = "sy_dev s" and ?fs = "chunk_size (sy_dev s)"
  note i = ax_invD [OF inv refl refl]
  let ?ip = "\<lambda>x. ip_frame (desc_bytes (ax_mem ?d) x)"
  obtain es where r: "received es ds ?d dev"
    using recv_batch_post [OF i(1) pool_known [OF inv], of n] rx_known(1,2) [OF inv] call by auto
  have cfg: "ax_config dev = ax_config ?d" "ax_mem dev = ax_mem ?d" using r by (simp_all add: received_def)
  then have sz: "chunk_size dev = ?fs" "chunk_count dev = chunk_count ?d" by (simp_all add: chunk_size_def chunk_count_def)
  have ds: "ds = map rx_desc (filter ?ip es)" and rx: "xr_contents (ax_rx ?d) = es @ xr_contents (ax_rx dev)"
    and tx: "xr_contents (ax_tx dev) = xr_contents (ax_tx ?d)" using r by (simp_all add: received_def)
  have known: "in_memory (ax_mem ?d) x" "held_addr (rx_desc x) = xd_addr x" "fits ?fs (unat (xd_addr x)) (unat (xd_len x))"
    if "x \<in> set es" for x using rx_known [OF inv] that rx by simp_all
  have "map (\<lambda>d. pd_bytes d (ax_mem ?d)) ds = map Some (map (\<lambda>x. drop ETH_HLEN (desc_bytes (ax_mem ?d) x)) (filter ?ip es))"
    using known(1) rx_bytes by (simp add: ds)
  then have "map Some bss = map Some (map (\<lambda>x. drop ETH_HLEN (desc_bytes (ax_mem ?d) x)) (filter ?ip es))"
    using bss cfg(2) by (simp only:)
  then have b: "bss = map (\<lambda>x. drop ETH_HLEN (desc_bytes (ax_mem ?d) x)) (filter ?ip es)" by (simp only: inj_map_eq_map [OF inj_Some])
  have "map fst (zip ds bss) = map rx_desc (filter ?ip es)" by (simp add: b ds)
  then have "held_addrs (zip ds bss) = map (\<lambda>x. held_addr (rx_desc x)) (filter ?ip es)"
    by (metis (no_types, lifting) map_map comp_def map_eq_conv)
  then have held: "held_addrs (zip ds bss) = map xd_addr (filter ?ip es)" using known(2) by simp
  have split: "mset (map xd_addr es) = mset (map xd_addr (filter ?ip es)) + mset (map xd_addr (filter (\<lambda>x. \<not> ?ip x) es))"
    by (metis image_mset_union mset_map multiset_partition mset_filter)
  let ?s = "s\<lparr>sy_dev := dev, sy_held := sy_held s @ zip ds bss, sy_received := sy_received s @ bss\<rparr>"
  have all: "all_addrs ?s = all_addrs s"
    using r split held by (simp add: all_addrs_def received_def tx rx ac_simps)
  show ?thesis
  proof (rule ax_invI [where fs = ?fs and k = "chunk_count ?d"])
    show "rings_wf (sy_dev ?s)" using r by (simp add: received_def)
    show "layout_ok room (sy_dev ?s)" using i(2) by (simp add: layout_ok_def sz cfg)
    show "descs_ok ?fs (sy_dev ?s)" using i(3) rx tx by (simp add: descs_ok_def)
    show "payloads (sy_arrived ?s) = sy_received ?s @ payloads (map (desc_bytes (ax_mem (sy_dev ?s))) (xr_contents (ax_rx (sy_dev ?s))))"
      using i(7) rx cfg(2) by (simp add: payloads_def b filter_map comp_def)
    have "held_ok ?fs (ax_mem ?d) h" if "h \<in> set (zip ds bss)" for h
    proof -
      have "zip ds bss = map (\<lambda>x. (rx_desc x, drop ETH_HLEN (desc_bytes (ax_mem ?d) x))) (filter ?ip es)"
        by (simp add: b ds zip_map_map zip_same_conv_map)
      then show ?thesis using that known by (auto simp: held_ok_def)
    qed
    then show "\<forall>h\<in>set (sy_held ?s). held_ok ?fs (ax_mem (sy_dev ?s)) h" using i(8) cfg(2) by auto
  qed (use i all sz cfg tx in simp_all)
qed

text \<open>A call that moves frames within the device, or between it and the application.\<close>

lemma keeps_inv:
  assumes inv: "ax_inv room s" and dev: "rings_wf dev" "keeps (sy_dev s) dev"
    and s': "s' = s\<lparr>sy_dev := dev, sy_filled := filled, sy_held := held\<rparr>" and all: "all_addrs s' = all_addrs s"
    and held: "set held \<subseteq> set (sy_held s)"
  shows "ax_inv room s'"
proof -
  note i = ax_invD [OF inv refl refl]
  have sz: "chunk_size dev = chunk_size (sy_dev s)" "chunk_count dev = chunk_count (sy_dev s)"
    using dev(2) by (simp_all add: chunk_size_def chunk_count_def keeps_def)
  show ?thesis
    by (rule ax_invI [where fs = "chunk_size (sy_dev s)" and k = "chunk_count (sy_dev s)"])
      (use i dev all held in \<open>auto simp: s' sz layout_ok_def descs_ok_def keeps_def\<close>)
qed

lemma step_release:
  assumes inv: "ax_inv room s" and hs: "mset (sy_held s) = mset hs + mset rest" "length hs < 2 ^ 32"
    and call: "release_rx (map fst hs) (sy_dev s) = Some dev"
  shows "ax_inv room (s\<lparr>sy_dev := dev, sy_held := rest\<rparr>)"
proof -
  note i = ax_invD [OF inv refl refl]
  have held: "mset (held_addrs (sy_held s)) = mset (held_addrs hs) + mset (held_addrs rest)"
    using arg_cong [OF hs(1), of "image_mset (\<lambda>h. held_addr (fst h))"] by simp
  then have "\<forall>h\<in>set hs. held_addr (fst h) \<in># all_addrs s" by (auto simp: all_addrs_def)
  then have "INVALID_ADDR \<notin> held_addr ` set (map fst hs)" using known_addr(1) [OF inv] by fastforce
  then have r: "rings_wf dev" "keeps (sy_dev s) dev" "dev_pool dev = dev_pool (sy_dev s) + mset (held_addrs hs)"
    using release_rx_post [OF i(1) pool_known [OF inv], of "map fst hs"] hs(2) call by (auto simp: comp_def)
  have "set rest \<subseteq> set (sy_held s)" using arg_cong [OF hs(1), of set_mset] by auto
  show ?thesis
    by (rule keeps_inv [OF inv r(1,2) _ _ \<open>set rest \<subseteq> set (sy_held s)\<close>, where filled = "sy_filled s"])
      (use r held in \<open>simp_all add: all_addrs_def keeps_def ac_simps\<close>)
qed

lemma step_kernel_fill:
  assumes inv: "ax_inv room s" and k: "kernel_take (ax_fill (sy_dev s)) = Some (a, fill)"
  shows "ax_inv room (s\<lparr>sy_dev := (sy_dev s)\<lparr>ax_fill := fill\<rparr>, sy_filled := sy_filled s @ [a]\<rparr>)"
proof -
  have wf: "rings_wf (sy_dev s)" using ax_invD(1) [OF inv refl refl] .
  have "xr_wf (ax_fill (sy_dev s))" using wf by (simp add: rings_wf_def)
  note t = kernel_take_contents [OF this k]
  show ?thesis
    by (rule keeps_inv [OF inv, where dev = "(sy_dev s)\<lparr>ax_fill := fill\<rparr>" and held = "sy_held s"])
      (use t wf in \<open>simp_all add: all_addrs_def keeps_def rings_wf_def dev_pool_def ac_simps\<close>)
qed

text \<open>The kernel's work on the TX side.\<close>

lemma step_kernel_tx:
  assumes inv: "ax_inv room s" and k: "kernel_take (ax_tx (sy_dev s)) = Some (d, tx)"
  shows "ax_inv room (s\<lparr>sy_dev := (sy_dev s)\<lparr>ax_tx := tx\<rparr>, sy_taken := sy_taken s @ [xd_addr d],
      sy_wire := sy_wire s @ [desc_bytes (ax_mem (sy_dev s)) d]\<rparr>)"
proof -
  note i = ax_invD [OF inv refl refl]
  have "xr_wf (ax_tx (sy_dev s))" using i(1) by (simp add: rings_wf_def)
  note t = kernel_take_contents [OF this k]
  show ?thesis
    by (rule ax_invI [where fs = "chunk_size (sy_dev s)" and k = "chunk_count (sy_dev s)"])
      (use i t in \<open>simp_all add: all_addrs_def rings_wf_def dev_pool_def layout_ok_def descs_ok_def chunk_size_def chunk_count_def ac_simps\<close>)
qed

lemma step_kernel_done:
  assumes inv: "ax_inv room s" and a: "sy_taken s = as @ a # bs" and k: "kernel_put a (ax_comp (sy_dev s)) = Some comp'"
  shows "ax_inv room (s\<lparr>sy_dev := (sy_dev s)\<lparr>ax_comp := comp'\<rparr>, sy_taken := as @ bs\<rparr>)"
proof -
  note i = ax_invD [OF inv refl refl]
  have "xr_wf (ax_comp (sy_dev s))" using i(1) by (simp add: rings_wf_def)
  note t = kernel_put_contents [OF this k]
  show ?thesis
    by (rule ax_invI [where fs = "chunk_size (sy_dev s)" and k = "chunk_count (sy_dev s)"])
      (use i t a in \<open>simp_all add: all_addrs_def rings_wf_def dev_pool_def layout_ok_def descs_ok_def chunk_size_def chunk_count_def ac_simps\<close>)
qed

text \<open>Bytes of a frame in another place than those written.\<close>

lemma held_elsewhere:
  assumes h: "held_ok fs m h" and m: "agree fs C m m'" and a: "chunk fs (held_addr (fst h)) \<notin> C"
  shows "held_ok fs m' h"
proof -
  obtain x where x: "fst h = rx_desc x" "held_addr (fst h) = xd_addr x" "fits fs (unat (xd_addr x)) (unat (xd_len x))" "in_memory m x"
      "ip_frame (desc_bytes m x)" "snd h = drop ETH_HLEN (desc_bytes m x)"
    using h by (auto simp: held_ok_def)
  have "desc_bytes m' x = desc_bytes m x" "in_memory m' x"
    using bytes_at_agree [OF m x(3)] a m x(2,4) by (simp_all add: desc_bytes_def chunk_def in_memory_def agree_def)
  then show ?thesis using x unfolding held_ok_def by metis
qed

lemma descs_elsewhere:
  assumes m: "agree fs C m m'" and xs: "\<forall>x\<in>set xs. fits fs (unat (xd_addr x)) (unat (xd_len x)) \<and> chunk fs (xd_addr x) \<notin> C"
  shows "map (desc_bytes m') xs = map (desc_bytes m) xs"
  using xs bytes_at_agree [OF m] by (simp add: desc_bytes_def chunk_def)

definition shared_addrs :: "ax_sys \<Rightarrow> u64 multiset" where
  "shared_addrs s = mset (map xd_addr (xr_contents (ax_rx (sy_dev s)))) + mset (map xd_addr (xr_contents (ax_tx (sy_dev s)))) +
     mset (held_addrs (sy_held s))"

lemma write_elsewhere:
  assumes inv: "ax_inv room s" and fs: "fs = chunk_size (sy_dev s)" and m: "agree fs C (ax_mem (sy_dev s)) m'"
    and C: "\<forall>b\<in>#shared_addrs s. chunk fs b \<notin> C"
  shows "map (desc_bytes m') (xr_contents (ax_rx (sy_dev s))) = map (desc_bytes (ax_mem (sy_dev s))) (xr_contents (ax_rx (sy_dev s)))"
    "map (desc_bytes m') (xr_contents (ax_tx (sy_dev s))) = map (desc_bytes (ax_mem (sy_dev s))) (xr_contents (ax_tx (sy_dev s)))"
    "\<forall>h\<in>set (sy_held s). held_ok fs m' h"
proof -
  note i = ax_invD [OF inv fs refl]
  show "map (desc_bytes m') (xr_contents (ax_rx (sy_dev s))) = map (desc_bytes (ax_mem (sy_dev s))) (xr_contents (ax_rx (sy_dev s)))"
    "map (desc_bytes m') (xr_contents (ax_tx (sy_dev s))) = map (desc_bytes (ax_mem (sy_dev s))) (xr_contents (ax_tx (sy_dev s)))"
    using i(3) C by (intro descs_elsewhere [OF m]; auto simp: descs_ok_def shared_addrs_def)+
  show "\<forall>h\<in>set (sy_held s). held_ok fs m' h"
    using i(8) C by (auto intro!: held_elsewhere [OF _ m] simp: shared_addrs_def)
qed

lemma step_send:
  assumes inv: "ax_inv room s" and call: "send_batch ds (sy_dev s) = Some (n, dev)" and len: "length ds < 2 ^ 32"
    and may: "\<forall>d\<in>set ds. may_send (chunk_size (sy_dev s)) (chunk_count (sy_dev s) * chunk_size (sy_dev s)) room d"
    and zc: "mset (zc_addrs ds) \<subseteq># mset (held_addrs (sy_held s))"
    and hs: "mset (sy_held s) = mset hs + mset rest" "mset (held_addrs hs) = mset (zc_addrs (take (unat n) ds))"
  shows "ax_inv room (s\<lparr>sy_dev := dev, sy_held := rest,
      sy_sent := sy_sent s @ map (framed (ax_config (sy_dev s)) (ax_mem (sy_dev s))) (take (unat n) ds)\<rparr>)"
proof -
  let ?d = "sy_dev s"
  define fs k where "fs = chunk_size ?d" and "k = chunk_count ?d"
  note i = ax_invD [OF inv fs_def k_def]
  have all: "all_addrs s = dev_pool ?d + (shared_addrs s + mset (sy_filled s) + mset (sy_taken s))"
    by (simp add: all_addrs_def shared_addrs_def ac_simps)
  have free: "free_ok fs (k * fs) room (free_list ?d)"
    using known_addr [OF inv] by (auto simp: free_ok_def all dev_pool_def fs_def k_def)
  have "mset (free_list ?d @ zc_addrs ds) \<subseteq># dev_pool ?d + mset (held_addrs (sy_held s))"
    using zc by (simp add: dev_pool_def subset_mset.add_mono)
  also have "\<dots> \<subseteq># all_addrs s" by (simp add: all_addrs_def)
  finally have dist: "distinct (map (chunk fs) (free_list ?d @ zc_addrs ds))"
    by (rule distinct_places [OF i(4) distinct_upt])
  have "fs < 2 ^ 32" using unat_lt_2_32 [of "ac_frame_size (ax_config ?d)"] by (simp add: fs_def chunk_size_def)
  then obtain ws taken where r: "rings_wf dev" "sent_as fs ds ws taken ?d dev" "unat n = length ws" "xr_contents (ax_tx dev) = xr_contents (ax_tx ?d) @ ws"
    using send_batch_post [OF i(1) len may [folded fs_def k_def] _ _ _ free dist] i(2) call
    by (auto simp: layout_ok_def fs_def k_def)
  have cfg: "ax_config dev = ax_config ?d" "ax_rx dev = ax_rx ?d" and pool: "dev_pool ?d = dev_pool dev + mset taken"
    and mem: "agree fs (chunk fs ` set taken) (ax_mem ?d) (ax_mem dev)"
    using r(2) by (simp_all add: sent_as_def dev_pool_def)
  have sz: "chunk_size dev = fs" "chunk_count dev = k" using cfg by (simp_all add: chunk_size_def chunk_count_def fs_def k_def)
  have "\<forall>b\<in>#shared_addrs s. chunk fs b \<notin> chunk fs ` set taken"
  proof
    fix b
    assume "b \<in># shared_addrs s"
    then have "chunk fs a \<noteq> chunk fs b" if "a \<in> set taken" for a
      using that by (intro places_differ [OF i(4) distinct_upt, where P = "dev_pool ?d" and R = "mset (sy_filled s) + mset (sy_taken s)"])
        (simp_all add: all pool ac_simps)
    then show "chunk fs b \<notin> chunk fs ` set taken" by force
  qed
  note w = write_elsewhere [OF inv fs_def mem this]
  have held: "mset (held_addrs (sy_held s)) = mset (zc_addrs (take (unat n) ds)) + mset (held_addrs rest)"
    using arg_cong [OF hs(1), of "image_mset (\<lambda>h. held_addr (fst h))"] hs(2) by simp
  have sub: "set rest \<subseteq> set (sy_held s)" using arg_cong [OF hs(1), of set_mset] by auto
  let ?s = "s\<lparr>sy_dev := dev, sy_held := rest,
      sy_sent := sy_sent s @ map (framed (ax_config (sy_dev s)) (ax_mem (sy_dev s))) (take (unat n) ds)\<rparr>"
  have ws: "mset (map xd_addr ws) = mset taken + mset (zc_addrs (take (unat n) ds))" using r(2,3) by (simp add: sent_as_def)
  have all': "all_addrs ?s = all_addrs s"
    using ws held by (simp add: all_addrs_def r(4) cfg pool ac_simps)
  have tx': "map (desc_bytes (ax_mem dev)) (xr_contents (ax_tx dev)) = map (desc_bytes (ax_mem ?d)) (xr_contents (ax_tx ?d)) @
      map (framed (ax_config ?d) (ax_mem ?d)) (take (unat n) ds)"
    using r(2,3) by (simp only: r(4) map_append w(2) sent_as_def)
  show ?thesis
  proof (rule ax_invI [where fs = fs and k = k])
    show "rings_wf (sy_dev ?s)" using r(1) by simp
    show "layout_ok room (sy_dev ?s)" using i(2) mem sz cfg(1) by (simp add: layout_ok_def agree_def fs_def k_def)
    show "descs_ok fs (sy_dev ?s)" using i(3) r(2,4) cfg(2) by (auto simp: descs_ok_def sent_as_def)
    show "sy_sent ?s = sy_wire ?s @ map (desc_bytes (ax_mem (sy_dev ?s))) (xr_contents (ax_tx (sy_dev ?s)))"
      using i(6) by (simp add: tx')
    show "payloads (sy_arrived ?s) = sy_received ?s @ payloads (map (desc_bytes (ax_mem (sy_dev ?s))) (xr_contents (ax_rx (sy_dev ?s))))"
      using i(7) by (simp add: cfg w(1))
    show "\<forall>h\<in>set (sy_held ?s). held_ok fs (ax_mem (sy_dev ?s)) h" using w(3) sub by auto
    show "image_mset (chunk fs) (all_addrs ?s) = mset [0..<k]" "addrs_ok fs (k * fs) room (all_addrs ?s)"
      using i(4,5) by (simp_all only: all')
  qed (simp_all add: sz)
qed

lemma step_kernel_rx:
  assumes inv: "ax_inv room s" and a: "sy_filled s = as @ a # bs" and off: "off \<le> room" "off + length frame \<le> chunk_size (sy_dev s)"
    and at: "at = chunk (chunk_size (sy_dev s)) a * chunk_size (sy_dev s) + off" and m: "mem_store at frame (ax_mem (sy_dev s)) = Some m"
    and put: "kernel_put \<lparr>xd_addr = of_nat at, xd_len = of_nat (length frame), xd_options = options\<rparr> (ax_rx (sy_dev s)) = Some rx"
  shows "ax_inv room (s\<lparr>sy_dev := (sy_dev s)\<lparr>ax_mem := m, ax_rx := rx\<rparr>, sy_filled := as @ bs, sy_arrived := sy_arrived s @ [frame]\<rparr>)"
proof -
  let ?d = "sy_dev s"
  define fs k where "fs = chunk_size ?d" and "k = chunk_count ?d"
  note i = ax_invD [OF inv fs_def k_def]
  have ka: "a \<in># all_addrs s" by (simp add: all_addrs_def a)
  have lt: "unat a < k * fs" using known_addr(4) [OF inv ka] by (simp add: fs_def k_def)
  have rm: "room < fs" "k * fs \<le> 2 ^ 32" "length (ax_mem ?d) = k * fs" using i(2) by (simp_all add: layout_ok_def fs_def k_def)
  then have at': "at div fs = chunk fs a" "at mod fs = off" using off at by (simp_all add: fs_def)
  have "chunk fs a < k" using lt by (simp add: chunk_def less_mult_imp_div_less)
  then have "chunk fs a * fs + fs \<le> k * fs" by (metis Suc_leI mult_Suc mult_le_mono1 add.commute)
  then have small: "at < k * fs" using off rm at by (simp add: fs_def)
  have u: "unat (of_nat at :: u64) = at" using small rm by (intro unat_of_nat_small) simp
  have ch: "chunk fs (of_nat at) = chunk fs a" using at' by (simp add: chunk_def [of fs "of_nat at"] u)
  have fit: "fits fs at (length frame)" using at'(2) off by (simp add: fits_def fs_def)
  have "fs < 2 ^ 32" using unat_lt_2_32 [of "ac_frame_size (ax_config ?d)"] by (simp add: fs_def chunk_size_def)
  then have ul: "unat (of_nat (length frame) :: u32) = length frame" using off by (intro unat_of_nat_small) (simp add: fs_def)
  have w0: "agree fs {chunk fs a} (ax_mem ?d) m" "bytes_at m at (length frame) = frame"
    using mem_store_agree [OF fit _ order_refl, of "ax_mem ?d" frame] fits_end [OF fit small] rm(3) m at'(1) by auto
  define x where "x = \<lparr>xd_addr = of_nat at, xd_len = of_nat (length frame), xd_options = options\<rparr>"
  have "xr_wf (ax_rx ?d)" using i(1) by (simp add: rings_wf_def)
  note t = kernel_put_contents [OF this put [folded x_def]]
  have x: "desc_bytes m x = frame" "fits fs (unat (xd_addr x)) (unat (xd_len x))" "xd_addr x = of_nat at"
    using w0(2) fit by (simp_all add: desc_bytes_def x_def u ul)
  have all: "all_addrs s = mset (sy_filled s) + (shared_addrs s + dev_pool ?d + mset (sy_taken s))"
    by (simp add: all_addrs_def shared_addrs_def ac_simps)
  have "\<forall>b\<in>#shared_addrs s. chunk fs b \<notin> {chunk fs a}"
  proof
    fix b
    assume "b \<in># shared_addrs s"
    then have "chunk fs a \<noteq> chunk fs b"
      by (intro places_differ [OF i(4) distinct_upt, where P = "mset (sy_filled s)" and R = "dev_pool ?d + mset (sy_taken s)"])
        (simp_all add: all a ac_simps)
    then show "chunk fs b \<notin> {chunk fs a}" by simp
  qed
  note w = write_elsewhere [OF inv fs_def w0(1) this]
  let ?s = "s\<lparr>sy_dev := (sy_dev s)\<lparr>ax_mem := m, ax_rx := rx\<rparr>, sy_filled := as @ bs, sy_arrived := sy_arrived s @ [frame]\<rparr>"
  define A where "A = dev_pool ?d + mset (map xd_addr (xr_contents (ax_rx ?d))) + mset (map xd_addr (xr_contents (ax_tx ?d))) +
    mset (as @ bs) + mset (sy_taken s) + mset (held_addrs (sy_held s))"
  have A: "all_addrs s = add_mset a A" "all_addrs ?s = add_mset (of_nat at) A"
    using t(2) x(3) by (simp_all add: all_addrs_def A_def a dev_pool_def)
  have sz: "chunk_size (sy_dev ?s) = fs" "chunk_count (sy_dev ?s) = k" by (simp_all add: chunk_size_def chunk_count_def fs_def k_def)
  have rx': "map (desc_bytes m) (xr_contents rx) = map (desc_bytes (ax_mem ?d)) (xr_contents (ax_rx ?d)) @ [frame]"
    by (simp only: t(2) map_append w(1) list.map x(1))
  show ?thesis
  proof (rule ax_invI [where fs = fs and k = k])
    show "rings_wf (sy_dev ?s)" using i(1) t(1) by (simp add: rings_wf_def)
    show "layout_ok room (sy_dev ?s)" using i(2) w0(1) sz by (simp add: layout_ok_def agree_def fs_def k_def)
    show "descs_ok fs (sy_dev ?s)" using i(3) t(2) x(2) by (simp add: descs_ok_def)
    show "image_mset (chunk fs) (all_addrs ?s) = mset [0..<k]" using i(4) by (simp add: A ch)
    show "addrs_ok fs (k * fs) room (all_addrs ?s)" using i(5) small at'(2) off by (simp add: A addrs_ok_def u)
    show "payloads (sy_arrived ?s) = sy_received ?s @ payloads (map (desc_bytes (ax_mem (sy_dev ?s))) (xr_contents (ax_rx (sy_dev ?s))))"
      using i(7) by (simp add: rx' payloads_def)
  qed (use i w sz in simp_all)
qed

lemma step_inv: "afxdp_step room s s' \<Longrightarrow> ax_inv room s \<Longrightarrow> ax_inv room s'"
proof (induction rule: afxdp_step.induct)
  case receive
  then show ?case using step_receive by blast
next
  case release
  then show ?case using step_release by blast
next
  case send
  then show ?case using step_send by blast
next
  case kernel_fill
  then show ?case using step_kernel_fill by blast
next
  case kernel_rx
  then show ?case using step_kernel_rx by blast
next
  case kernel_tx
  then show ?case using step_kernel_tx by blast
next
  case kernel_done
  then show ?case using step_kernel_done by blast
qed

section \<open>The device after it was opened\<close>

definition ax_start :: "afxdp \<Rightarrow> ax_sys" where
  "ax_start dev = \<lparr>sy_dev = dev, sy_filled = [], sy_taken = [], sy_held = [], sy_sent = [], sy_wire = [], sy_arrived = [], sy_received = []\<rparr>"

definition pow2 :: "u32 \<Rightarrow> bool" where "pow2 n \<longleftrightarrow> n \<in> (\<lambda>k. 2 ^ k) ` {..<32}"

text \<open>
  What is asked of the configuration: ring sizes the kernel accepts, frames longer than the kernel's headroom, a
  UMEM of at most \<open>2 ^ 32\<close> bytes, because the allocator multiplies in 32 bits, and addresses of 6 bytes.
\<close>

definition config_ok :: "nat \<Rightarrow> afxdp_os \<Rightarrow> afxdp_config \<Rightarrow> bool" where
  "config_ok room os c \<longleftrightarrow> list_all pow2 [ac_fill_ring_size c, ac_comp_ring_size c, ac_rx_ring_size c, ac_tx_ring_size c] \<and>
     room < unat (ac_frame_size c) \<and> unat (ac_frame_count c) * unat (ac_frame_size c) \<le> 2 ^ 32 \<and> macs_ok (detect_macs os c)"

lemma detect_macs_fields [simp]:
  "ac_frame_count (detect_macs os c) = ac_frame_count c" "ac_frame_size (detect_macs os c) = ac_frame_size c"
  by (auto simp: detect_macs_def Let_def split: option.splits)

lemma fresh_ring:
  assumes "pow2 n"
  shows "xr_wf (map_ring os i n z r)" "xr_contents (map_ring os i n z r) = []"
proof -
  obtain k where k: "k < 32" "n = 2 ^ k" using assms by (auto simp: pow2_def)
  then show "xr_wf (map_ring os i n z r)" "xr_contents (map_ring os i n z r) = []"
    by (simp_all add: map_ring_def unat_pow2 init_contents)
qed

lemma detect_macs_rings [simp]:
  "ac_fill_ring_size (detect_macs os c) = ac_fill_ring_size c" "ac_comp_ring_size (detect_macs os c) = ac_comp_ring_size c"
  "ac_rx_ring_size (detect_macs os c) = ac_rx_ring_size c" "ac_tx_ring_size (detect_macs os c) = ac_tx_ring_size c"
  by (auto simp: detect_macs_def Let_def split: option.splits)

lemma open_fields:
  assumes "afxdp_open os (afxdp_new c) = Some (0, dev)"
  shows "\<exists>s. populate_fill_ring s = Some dev \<and> ax_config s = detect_macs os c \<and>
    ax_mem s = replicate (unat (ac_frame_count c) * unat (ac_frame_size c)) 0 \<and> ax_alloc s = ua_new (ac_frame_count c) (ac_frame_size c) \<and>
    ax_fill s = map_ring os 0 (ac_fill_ring_size c) 0 xr_new \<and>
    ax_comp s = map_ring os 1 (ac_comp_ring_size c) 0 xr_new \<and>
    ax_rx s = map_ring os 2 (ac_rx_ring_size c) \<lparr>xd_addr = 0, xd_len = 0, xd_options = 0\<rparr> xr_new \<and>
    ax_tx s = map_ring os 3 (ac_tx_ring_size c) \<lparr>xd_addr = 0, xd_len = 0, xd_options = 0\<rparr> xr_new"
  using assms
  by (auto simp: afxdp_open_def afxdp_new_def Let_def umem_create_def create_socket_def setup_rings_def bind_eq_Some_conv
      split: if_splits option.splits)

lemma new_frames:
  assumes "unat n * unat fs \<le> 2 ^ 32" and "0 < unat fs"
  shows "map (\<lambda>a. unat a) (ua_free (ua_new n fs)) = map (\<lambda>i. i * unat fs) [0..<unat n]"
proof -
  have "unat (ucast (of_nat i * fs :: u32) :: u64) = i * unat fs" if i: "i < unat n" for i
  proof -
    have "Suc i * unat fs \<le> unat n * unat fs" using i by (intro mult_le_mono1) simp
    then have "i * unat fs < 2 ^ 32" using assms by simp
    moreover have "unat (of_nat i :: u32) = i" using i unat_lt_2_32 [of n] by (intro unat_of_nat_small) simp
    ultimately have "unat (of_nat i * fs) = i * unat fs" by (simp add: unat_word_ariths)
    then show ?thesis using \<open>i * unat fs < 2 ^ 32\<close> by (simp add: unsigned_ucast_eq take_bit_nat_eq_self)
  qed
  then show ?thesis by (simp add: ua_new_def)
qed

lemma open_inv:
  assumes opened: "afxdp_open os (afxdp_new c) = Some (0, dev)" and ok: "config_ok room os c"
  shows "ax_inv room (ax_start dev)"
proof -
  obtain s where f: "populate_fill_ring s = Some dev" "ax_config s = detect_macs os c"
      "ax_mem s = replicate (unat (ac_frame_count c) * unat (ac_frame_size c)) 0" "ax_alloc s = ua_new (ac_frame_count c) (ac_frame_size c)"
      "ax_fill s = map_ring os 0 (ac_fill_ring_size c) 0 xr_new" "ax_comp s = map_ring os 1 (ac_comp_ring_size c) 0 xr_new"
      "ax_rx s = map_ring os 2 (ac_rx_ring_size c) \<lparr>xd_addr = 0, xd_len = 0, xd_options = 0\<rparr> xr_new"
      "ax_tx s = map_ring os 3 (ac_tx_ring_size c) \<lparr>xd_addr = 0, xd_len = 0, xd_options = 0\<rparr> xr_new"
    using open_fields [OF opened] by blast
  have p2: "pow2 (ac_fill_ring_size c)" "pow2 (ac_comp_ring_size c)" "pow2 (ac_rx_ring_size c)" "pow2 (ac_tx_ring_size c)"
    using ok by (simp_all add: config_ok_def)
  have s: "populate_fill_ring s = Some dev" "ax_config s = detect_macs os c"
    "ax_mem s = replicate (unat (ac_frame_count c) * unat (ac_frame_size c)) 0" "ax_alloc s = ua_new (ac_frame_count c) (ac_frame_size c)"
    "xr_wf (ax_fill s)" "xr_wf (ax_comp s)" "xr_wf (ax_rx s)" "xr_wf (ax_tx s)"
    "xr_contents (ax_fill s) = []" "xr_contents (ax_comp s) = []" "xr_contents (ax_rx s) = []" "xr_contents (ax_tx s) = []"
    by (simp_all only: f fresh_ring [OF p2(1)] fresh_ring [OF p2(2)] fresh_ring [OF p2(3)] fresh_ring [OF p2(4)])
  define fs k where "fs = unat (ac_frame_size c)" and "k = unat (ac_frame_count c)"
  have sz: "room < fs" "k * fs \<le> 2 ^ 32" and macs: "macs_ok (detect_macs os c)" using ok by (simp_all add: config_ok_def fs_def k_def)
  have frames: "map (\<lambda>a. unat a) (free_list s) = map (\<lambda>i. i * fs) [0..<k]"
    using new_frames [of "ac_frame_count c" "ac_frame_size c"] sz s(4) by (simp add: fs_def k_def)
  have at: "unat a mod fs \<le> room \<and> unat a < k * fs" if "a \<in> set (free_list s)" for a
  proof -
    have "unat a \<in> set (map (\<lambda>i. i * fs) [0..<k])" using that by (simp flip: frames)
    then show ?thesis using sz(1) by auto
  qed
  have "map (chunk fs) (free_list s) = map (\<lambda>x. x div fs) (map (\<lambda>a. unat a) (free_list s))" by (simp add: chunk_def)
  also have "\<dots> = [0..<k]" unfolding frames using sz(1) by (simp add: map_idI)
  finally have chunks: "image_mset (chunk fs) (mset (free_list s)) = mset [0..<k]" by (metis mset_map)
  have pool: "dev_pool s = mset (free_list s)" by (simp add: dev_pool_def s)
  have wf: "rings_wf s" using s by (simp add: rings_wf_def)
  have inval: "INVALID_ADDR \<notin># dev_pool s" using at valid_addr sz(2) by (auto simp: pool)
  have r: "rings_wf dev" "keeps s dev" "dev_pool dev = dev_pool s"
    using refill_keeps(1) [OF wf inval, of "ac_frame_count (ax_config s) div 2"] s(1) by (auto simp: populate_fill_ring_def)
  have all: "all_addrs (ax_start dev) = mset (free_list s)"
    using r s by (simp add: all_addrs_def ax_start_def keeps_def pool)
  show ?thesis
  proof (rule ax_invI [where fs = fs and k = k])
    show "addrs_ok fs (k * fs) room (all_addrs (ax_start dev))" using at by (simp add: all addrs_ok_def)
    show "image_mset (chunk fs) (all_addrs (ax_start dev)) = mset [0..<k]" using chunks by (simp only: all)
  qed (use r s sz macs in \<open>simp_all add: ax_start_def keeps_def layout_ok_def descs_ok_def chunk_size_def chunk_count_def fs_def k_def payloads_def\<close>)
qed

lemma afxdp_run_inv:
  assumes "afxdp_open os (afxdp_new c) = Some (0, dev)" and "config_ok room os c" and "(afxdp_step room)\<^sup>*\<^sup>* (ax_start dev) s"
  shows "ax_inv room s"
  using assms(3) by (induction rule: rtranclp_induct) (blast intro: open_inv [OF assms(1,2)] step_inv)+

section \<open>The properties\<close>


lemma held_bytes: "held_ok fs m h \<Longrightarrow> pd_bytes (fst h) m = Some (snd h)"
  by (auto simp: held_ok_def intro: rx_bytes)

lemma recv_returns:
  assumes "ax_inv room s"
  shows "\<exists>ds dev. recv_batch n (sy_dev s) = Some (ds, dev) \<and> length ds \<le> unat n"
proof -
  obtain es ds dev where r: "recv_batch n (sy_dev s) = Some (ds, dev)" "received es ds (sy_dev s) dev"
      "length es = min (unat n) (xr_used (ax_rx (sy_dev s)))"
    using recv_batch_post [OF ax_invD(1) [OF assms refl refl] pool_known [OF assms], of n] rx_known(1,2) [OF assms] by blast
  have "length ds = length (filter (\<lambda>d. ip_frame (desc_bytes (ax_mem (sy_dev s)) d)) es)" using r(2) by (simp add: received_def)
  then show ?thesis using r(1,3) length_filter_le [of "\<lambda>d. ip_frame (desc_bytes (ax_mem (sy_dev s)) d)" es] by auto
qed

text \<open>C21. Traffic arrives unchanged and in order: what the kernel puts on the wire is what was sent, behind its
  Ethernet header, and what is sent and not yet on the wire stands in the TX ring; the packets received are the
  payloads of the IPv4 frames that arrived, up to those still in the RX ring; a packet that the application
  holds keeps its bytes until it is released; receiving never reads outside the memory.\<close>

theorem afxdp_traffic:
  assumes "afxdp_open os (afxdp_new c) = Some (0, dev)" and "config_ok room os c" and "(afxdp_step room)\<^sup>*\<^sup>* (ax_start dev) s"
  shows "sy_sent s = sy_wire s @ map (desc_bytes (ax_mem (sy_dev s))) (xr_contents (ax_tx (sy_dev s))) \<and>
    payloads (sy_arrived s) = sy_received s @ payloads (map (desc_bytes (ax_mem (sy_dev s))) (xr_contents (ax_rx (sy_dev s)))) \<and>
    list_all (\<lambda>h. pd_bytes (fst h) (ax_mem (sy_dev s)) = Some (snd h)) (sy_held s) \<and>
    (\<exists>ds dev'. recv_batch n (sy_dev s) = Some (ds, dev') \<and> length ds \<le> unat n)"
  using ax_invD [OF afxdp_run_inv [OF assms] refl refl] recv_returns [OF afxdp_run_inv [OF assms]] held_bytes
  by (auto simp: list_all_iff)

section \<open>An example\<close>

text \<open>Four frames of 32 bytes: a frame is taken from the fill ring, an IPv4 packet arrives in it, is received and
  released, and one is sent.\<close>

definition ex_config :: afxdp_config where
  "ex_config = \<lparr>ac_local_mac = [2, 0, 0, 0, 0, 1], ac_gateway_mac = replicate 6 0, ac_frame_count = 4, ac_frame_size = 32, ac_headroom = 0,
     ac_fill_ring_size = 2, ac_comp_ring_size = 2, ac_rx_ring_size = 2, ac_tx_ring_size = 2, ac_batch_size = 2, ac_zero_copy = False\<rparr>"

definition ex_os :: afxdp_os where
  "ex_os = \<lparr>os_ifindex = 3, os_local_mac = None, os_gateway_mac = Some [2, 0, 0, 0, 0, 2], os_umem_mapped = True, os_socket = 5,
     os_registered = True, os_ring_sizes = [True, True, True, True], os_offsets = True, os_ring_maps = [True, True, True, True],
     os_bind = True, os_bind_unsupported = False, os_bind_copy = False, os_bpf_prog = Some 7, os_ring_flags = [0, 0, 0, 0]\<rparr>"

definition ex_frame :: bytes where
  "ex_frame = [2, 0, 0, 0, 0, 1, 2, 0, 0, 0, 0, 2, 8, 0, 69, 0, 0, 20]"

lemma ex_config_ok: "config_ok 8 ex_os ex_config"
proof -
  have "pow2 2" unfolding pow2_def by (rule image_eqI [of _ _ 1]) simp_all
  then show ?thesis by (simp add: config_ok_def ex_config_def macs_ok_def detect_macs_def ex_os_def)
qed

text \<open>The states of the device, by memory, free list, the four rings and the two counters of packets.\<close>

definition ex_ring :: "u32 \<Rightarrow> u32 \<Rightarrow> 'a list \<Rightarrow> u32 \<Rightarrow> u32 \<Rightarrow> 'a xdp_ring" where
  "ex_ring p c ds cp cc = \<lparr>xr_producer = p, xr_consumer = c, xr_descs = ds, xr_flags = Some 0, xr_mask = 1, xr_size = 2,
     xr_cached_prod = cp, xr_cached_cons = cc\<rparr>"

definition ex_device :: "bytes \<Rightarrow> u64 list \<Rightarrow> u64 xdp_ring \<Rightarrow> u64 xdp_ring \<Rightarrow> xdp_desc xdp_ring \<Rightarrow> xdp_desc xdp_ring \<Rightarrow> u64 \<Rightarrow> u64 \<Rightarrow> afxdp" where
  "ex_device m fl fill cring rx tx r t =
     \<lparr>ax_config = ex_config\<lparr>ac_gateway_mac := [2, 0, 0, 0, 0, 2]\<rparr>, ax_ifindex = 3, ax_xsk_fd = 5, ax_mem = m,
      ax_alloc = \<lparr>ua_frame_size = 32, ua_free = fl\<rparr>, ax_fill = fill, ax_comp = cring, ax_rx = rx, ax_tx = tx,
      ax_mapped = [True, True, True, True], ax_bpf_prog_fd = 7,
      ax_stats = \<lparr>xs_rx_packets = r, xs_tx_packets = t, xs_rx_dropped = 0, xs_tx_dropped = 0, xs_fill_ring_empty = 0, xs_invalid_descs = 0\<rparr>,
      ax_calls = []\<rparr>"

definition ex_desc :: "u64 \<Rightarrow> u32 \<Rightarrow> xdp_desc" where
  "ex_desc a n = \<lparr>xd_addr = a, xd_len = n, xd_options = 0\<rparr>"

definition ex_wire :: bytes where "ex_wire = [2, 0, 0, 0, 0, 2, 2, 0, 0, 0, 0, 1, 8, 0, 69, 0, 0, 22, 1, 2]"

definition ex_mem1 :: bytes where "ex_mem1 = blit (replicate 128 0) 98 ex_frame"
definition ex_mem2 :: bytes where "ex_mem2 = blit ex_mem1 32 ex_wire"

definition ex_dev :: afxdp where
  "ex_dev = ex_device (replicate 128 0) [0, 32] (ex_ring 2 0 [96, 64] 0 0) (ex_ring 0 0 [0, 0] 0 0)
     (ex_ring 0 0 [ex_desc 0 0, ex_desc 0 0] 0 0) (ex_ring 0 0 [ex_desc 0 0, ex_desc 0 0] 0 0) 0 0"

definition ex_dev_filled :: afxdp where "ex_dev_filled = ex_dev\<lparr>ax_fill := ex_ring 2 1 [96, 64] 0 0\<rparr>"

definition ex_dev_arrived :: afxdp where
  "ex_dev_arrived = ex_dev_filled\<lparr>ax_mem := ex_mem1, ax_rx := ex_ring 1 0 [ex_desc 98 18, ex_desc 0 0] 0 0\<rparr>"

definition ex_dev_received :: afxdp where
  "ex_dev_received = ex_device ex_mem1 [0, 32] (ex_ring 2 1 [96, 64] 2 0) (ex_ring 0 0 [0, 0] 0 0)
     (ex_ring 1 1 [ex_desc 98 18, ex_desc 0 0] 0 0) (ex_ring 0 0 [ex_desc 0 0, ex_desc 0 0] 0 0) 1 0"

definition ex_dev_sent :: afxdp where
  "ex_dev_sent = ex_device ex_mem2 [0] (ex_ring 2 1 [96, 64] 2 0) (ex_ring 0 0 [0, 0] 0 0)
     (ex_ring 1 1 [ex_desc 98 18, ex_desc 0 0] 0 0) (ex_ring 1 0 [ex_desc 32 20, ex_desc 0 0] 0 0) 1 1"

definition ex_dev_released :: afxdp where
  "ex_dev_released = ex_device ex_mem2 [0] (ex_ring 3 1 [98, 64] 3 0) (ex_ring 0 0 [0, 0] 0 0)
     (ex_ring 1 1 [ex_desc 98 18, ex_desc 0 0] 0 0) (ex_ring 1 0 [ex_desc 32 20, ex_desc 0 0] 0 0) 1 1"

definition ex_held :: packet_desc where
  "ex_held = \<lparr>pd_data = In_Umem 112, pd_len = 4, pd_addr = 98, pd_port_id = 0, pd_flags = 3\<rparr>"

definition ex_packet :: packet_desc where
  "ex_packet = \<lparr>pd_data = External [69, 0, 0, 22, 1, 2], pd_len = 6, pd_addr = 0, pd_port_id = 0, pd_flags = 0\<rparr>"

lemma ex_open: "afxdp_open ex_os (afxdp_new ex_config) = Some (0, ex_dev)"
  by code_simp

lemma ex_calls:
  "kernel_take (ax_fill ex_dev) = Some (96, ax_fill ex_dev_filled)"
  "mem_store 98 ex_frame (ax_mem ex_dev_filled) = Some ex_mem1"
  "kernel_put (ex_desc 98 18) (ax_rx ex_dev_filled) = Some (ax_rx ex_dev_arrived)"
  "recv_batch 2 ex_dev_arrived = Some ([ex_held], ex_dev_received)"
  "pd_bytes ex_held ex_mem1 = Some [69, 0, 0, 20]"
  "send_batch [ex_packet] ex_dev_received = Some (1, ex_dev_sent)"
  "framed (ax_config ex_dev_received) (ax_mem ex_dev_received) ex_packet = ex_wire"
  "release_rx [ex_held] ex_dev_sent = Some ex_dev_released"
  by code_simp+

definition ex_sys :: "afxdp \<Rightarrow> u64 list \<Rightarrow> (packet_desc \<times> bytes) list \<Rightarrow> bytes list \<Rightarrow> bytes list \<Rightarrow> bytes list \<Rightarrow> ax_sys" where
  "ex_sys d filled held sent arrived got = \<lparr>sy_dev = d, sy_filled = filled, sy_taken = [], sy_held = held, sy_sent = sent, sy_wire = [],
     sy_arrived = arrived, sy_received = got\<rparr>"

lemma ex_layout:
  "chunk_size ex_dev_filled = 32" "chunk_size ex_dev_received = 32" "chunk_count ex_dev_received = 4" "chunk 32 96 = 3"
  by code_simp+

lemma ex_same:
  "ex_dev\<lparr>ax_fill := ax_fill ex_dev_filled\<rparr> = ex_dev_filled"
  "ex_dev_filled\<lparr>ax_mem := ex_mem1, ax_rx := ax_rx ex_dev_arrived\<rparr> = ex_dev_arrived"
  "ax_mem ex_dev_received = ex_mem1"
  by (simp_all add: ex_dev_arrived_def ex_dev_filled_def ex_dev_received_def ex_device_def)

lemma ex_steps:
  "afxdp_step 8 (ax_start ex_dev) (ex_sys ex_dev_filled [96] [] [] [] [])"
  "afxdp_step 8 (ex_sys ex_dev_filled [96] [] [] [] []) (ex_sys ex_dev_arrived [] [] [] [ex_frame] [])"
  "afxdp_step 8 (ex_sys ex_dev_arrived [] [] [] [ex_frame] [])
     (ex_sys ex_dev_received [] [(ex_held, [69, 0, 0, 20])] [] [ex_frame] [[69, 0, 0, 20]])"
  "afxdp_step 8 (ex_sys ex_dev_received [] [(ex_held, [69, 0, 0, 20])] [] [ex_frame] [[69, 0, 0, 20]])
     (ex_sys ex_dev_sent [] [(ex_held, [69, 0, 0, 20])] [ex_wire] [ex_frame] [[69, 0, 0, 20]])"
  "afxdp_step 8 (ex_sys ex_dev_sent [] [(ex_held, [69, 0, 0, 20])] [ex_wire] [ex_frame] [[69, 0, 0, 20]])
     (ex_sys ex_dev_released [] [] [ex_wire] [ex_frame] [[69, 0, 0, 20]])"
proof -
  show "afxdp_step 8 (ax_start ex_dev) (ex_sys ex_dev_filled [96] [] [] [] [])"
    using afxdp_step.kernel_fill [of "ax_start ex_dev", where room = 8] ex_calls(1) ex_same(1) by (simp add: ax_start_def ex_sys_def)
  show "afxdp_step 8 (ex_sys ex_dev_filled [96] [] [] [] []) (ex_sys ex_dev_arrived [] [] [] [ex_frame] [])"
    using afxdp_step.kernel_rx [of "ex_sys ex_dev_filled [96] [] [] [] []" "[]" 96 "[]" 2 8 ex_frame 98 ex_mem1 0 "ax_rx ex_dev_arrived"]
      ex_calls(2,3) ex_same(2) ex_layout by (simp add: ex_sys_def ex_desc_def ex_frame_def)
  show "afxdp_step 8 (ex_sys ex_dev_arrived [] [] [] [ex_frame] [])
     (ex_sys ex_dev_received [] [(ex_held, [69, 0, 0, 20])] [] [ex_frame] [[69, 0, 0, 20]])"
    using afxdp_step.receive [of 2 "ex_sys ex_dev_arrived [] [] [] [ex_frame] []" "[ex_held]" ex_dev_received "[[69, 0, 0, 20]]" 8]
      ex_calls(4,5) ex_same(3) by (simp add: ex_sys_def)
  show "afxdp_step 8 (ex_sys ex_dev_received [] [(ex_held, [69, 0, 0, 20])] [] [ex_frame] [[69, 0, 0, 20]])
     (ex_sys ex_dev_sent [] [(ex_held, [69, 0, 0, 20])] [ex_wire] [ex_frame] [[69, 0, 0, 20]])"
  proof -
    have "is_zerocopy ex_packet = False" by code_simp
    then show ?thesis
      using afxdp_step.send [of "[ex_packet]" "ex_sys ex_dev_received [] [(ex_held, [69, 0, 0, 20])] [] [ex_frame] [[69, 0, 0, 20]]" 1 ex_dev_sent 8
          "[]" "[(ex_held, [69, 0, 0, 20])]"] ex_calls(6,7) ex_layout
      by (simp add: ex_sys_def may_send_def zc_addrs_def ETH_HLEN_def ex_packet_def)
  qed
  show "afxdp_step 8 (ex_sys ex_dev_sent [] [(ex_held, [69, 0, 0, 20])] [ex_wire] [ex_frame] [[69, 0, 0, 20]])
     (ex_sys ex_dev_released [] [] [ex_wire] [ex_frame] [[69, 0, 0, 20]])"
    using afxdp_step.release [of "ex_sys ex_dev_sent [] [(ex_held, [69, 0, 0, 20])] [ex_wire] [ex_frame] [[69, 0, 0, 20]]"
        "[(ex_held, [69, 0, 0, 20])]" "[]" ex_dev_released 8] ex_calls(8) by (simp add: ex_sys_def)
qed

definition ex_after_send :: ax_sys where
  "ex_after_send = ex_sys ex_dev_sent [] [(ex_held, [69, 0, 0, 20])] [ex_wire] [ex_frame] [[69, 0, 0, 20]]"

definition ex_at_end :: ax_sys where
  "ex_at_end = ex_sys ex_dev_released [] [] [ex_wire] [ex_frame] [[69, 0, 0, 20]]"

lemma ex_run: "(afxdp_step 8)\<^sup>*\<^sup>* (ax_start ex_dev) ex_after_send" "(afxdp_step 8)\<^sup>*\<^sup>* (ax_start ex_dev) ex_at_end"
  unfolding ex_after_send_def ex_at_end_def using ex_steps
  by (meson converse_rtranclp_into_rtranclp rtranclp.rtrancl_refl)+


lemma afxdp_traffic_witness:
  "map (desc_bytes (ax_mem ex_dev_sent)) (xr_contents (ax_tx ex_dev_sent)) = [ex_wire] \<and> pd_bytes ex_held (ax_mem ex_dev_sent) = Some [69, 0, 0, 20]"
  using afxdp_traffic [OF ex_open ex_config_ok ex_run(1)] by (simp add: ex_after_send_def ex_sys_def)

end
