(* ===== verification/Spec2Isabelle.thy ===== *)
theory Spec2Isabelle
  imports Ipv4 Ip_Layer Udp_Layer Tcp_Stream Tcp_Transfer Tcp_Timers Tcp_Layer
    Spsc_Queue Firewall_Paths Http_Messages Http_Exchange Http_Tcp Http_Static Dns_Client Ai_Agent Afxdp_Traffic
begin

text \<open>
  NeuStack is a TCP/IP stack in user space: packets come from a device (\<^verbatim>\<open>src/hal\<close>), pass a firewall
  (\<^verbatim>\<open>src/firewall\<close>), are dispatched by the IPv4 layer (\<^verbatim>\<open>src/net\<close>) to ICMP, UDP and TCP
  (\<^verbatim>\<open>src/transport\<close>), and reach applications that are written against the byte streams and datagrams of
  these layers (\<^verbatim>\<open>src/app\<close>: HTTP and DNS).  Everything runs in one event loop; a second thread runs the
  neural networks (\<^verbatim>\<open>src/ai\<close>) and is connected to it by lock-free queues (\<^verbatim>\<open>include/neustack/common\<close>).

  The development models the stack as functions on explicit states.  A C++ object is a record, a method a
  function that returns the new record; machine integers are words of their width; a call that the language
  leaves undefined (a read outside a buffer, a division by zero) or that throws is \<open>None\<close>; what a method hands
  to a device, a callback or a socket is appended to a log in its state.  Time is an argument.

  \<^bold>\<open>The theories and the code\<close>

  \<^item> \<open>Prelude\<close>: words, byte order, loads and stores, checked reads; the collections of simplification rules.
  \<^item> \<open>Checksum\<close>: \<^verbatim>\<open>src/common/checksum.cpp\<close>.  Accumulation is the one's complement sum; a filled checksum
    verifies, and a change of one word is detected.
  \<^item> \<open>Ipv4\<close>, \<open>Ip_Layer\<close>: \<^verbatim>\<open>src/net/ipv4.cpp\<close>, \<^verbatim>\<open>icmp.cpp\<close>.  Parser, validator and builder with their round
    trip; dispatch, the echo server, and the rules for ICMP errors.
  \<^item> \<open>Udp_Layer\<close>: \<^verbatim>\<open>src/transport/udp.cpp\<close>.  Delivery from one layer to another, ephemeral ports.
  \<^item> \<open>Tcp_Seq\<close>, \<open>Stream_Buffer\<close>, \<open>Tcp_Wire\<close>, \<open>Tcp_Reno\<close>, \<open>Tcp_Tcb\<close>: the parts of a connection.  Sequence
    numbers as positions in a stream; the byte ring buffer as a bounded FIFO (locale \<open>byte_fifo\<close>); segments on
    the wire; the interface of congestion control (locale \<open>congestion_controller\<close>) and Reno; the control block.
  \<^item> \<open>Tcp_Send\<close>, \<open>Tcp_Ack\<close>, \<open>Tcp_Receive\<close>, \<open>Tcp_Machine\<close>: \<^verbatim>\<open>src/transport/tcp_connection.cpp\<close>, one definition
    per method: sending, acknowledgements and retransmission, reassembly, the handlers of the states, and the
    connection manager with its tables and timers.  \<open>Tcp_Layer\<close>: \<^verbatim>\<open>tcp_layer.cpp\<close>.
  \<^item> \<open>Tcp_Sender\<close>, \<open>Tcp_Acked\<close>, \<open>Tcp_Stream\<close>: the invariant of the sender (the retransmission queue and the send
    buffer are the unacknowledged part of the stream) and what it gives over runs of sends, acknowledgements and
    timer ticks.  \<open>Tcp_Receiver\<close>, \<open>Tcp_Transfer\<close>: the invariant of the receiver and delivery in order.
    \<open>Tcp_Lifecycle\<close>: the state diagram.  \<open>Tcp_Manager\<close>, \<open>Tcp_Tables\<close>: resets and the tables.  \<open>Tcp_Timers\<close>:
    giving up, TIME\_WAIT.  \<open>Tcp_Example\<close>: the connection used where a property is applied.
  \<^item> \<open>Spsc_Queue\<close>, \<open>Fixed_Pool\<close>: \<^verbatim>\<open>spsc_queue.hpp\<close>, \<^verbatim>\<open>memory_pool.hpp\<close>.  The queue as a step relation over the
    loads and stores of its two threads, the pool with its intrusive free list (locale \<open>object_pool\<close>).
  \<^item> \<open>Rate_Limiter\<close>, \<open>Firewall_Rules\<close>, \<open>Security_Metrics\<close>, \<open>Firewall_Ai\<close>, \<open>Firewall_Engine\<close>, \<open>Firewall_Paths\<close>:
    \<^verbatim>\<open>src/firewall\<close>, \<^verbatim>\<open>include/neustack/firewall\<close>, \<^verbatim>\<open>security_metrics.hpp\<close>.  Token buckets with an LRU list in
    a hash map, refining an ordered association list; the rule engine against its documented policy; counters
    over a sliding window; the anomaly layer; both ways into the firewall.
  \<^item> \<open>Text\<close>, \<open>Http_Parser\<close>, \<open>Http_Messages\<close>: \<^verbatim>\<open>string_utils.hpp\<close>, \<^verbatim>\<open>ip_addr.cpp\<close>, \<^verbatim>\<open>http_types.cpp\<close>,
    \<^verbatim>\<open>http_parser.cpp\<close>.  The incremental parsers (locale \<open>step_parser\<close>), independent of how the stream is cut.
  \<^item> \<open>Http_Client\<close>, \<open>Http_Exchange\<close>: \<^verbatim>\<open>http_client.cpp\<close>.  The callbacks of a request and their one outcome; a
    request and its response from the client to the server's parser and back.
  \<^item> \<open>Http_Server\<close>, \<open>Http_Serving\<close>, \<open>Http_Static\<close>, \<open>Http_Tcp\<close>: \<^verbatim>\<open>http_server.cpp\<close>.  The server is written against
    a transport (locale \<open>byte_stream\<close>) and generators (locale \<open>chunked_source\<close>); \<open>Http_Serving\<close> proves, in the locale
    \<open>http_stack\<close> of both, that the bytes it gives to the transport and those it still holds are the responses.
    \<open>Http_Tcp\<close> shows that the TCP connections are such a transport and so composes the server with TCP: calls of the
    transport return before anything else happens, acknowledgements and timers are steps between them, and the end of
    a connection is reported as the event \<open>Closed\<close>.  \<open>Http_Static\<close>: static files and the directory they come from.
  \<^item> \<open>Xdp_Ring\<close>, \<open>Afxdp\<close>, \<open>Afxdp_Frames\<close>, \<open>Afxdp_Traffic\<close>: \<^verbatim>\<open>hal_linux_afxdp.cpp\<close>, \<^verbatim>\<open>umem.hpp\<close>,
    \<^verbatim>\<open>xdp_ring.hpp\<close>, \<^verbatim>\<open>ethernet.hpp\<close>.  A shared ring seen from both ends as a queue; the device over a memory
    of bytes; what each call does to the frames; runs of the device with an application and the kernel.
  \<^item> \<open>Dns_Client\<close>: \<^verbatim>\<open>dns_client.cpp\<close>.  \<open>Ai_Agent\<close>: \<^verbatim>\<open>ai_agent.cpp\<close>.

  \<^bold>\<open>Parameters, bounds and fuel\<close>

  Arithmetic on \<open>float\<close> and \<open>double\<close>, the models behind ONNX, the iteration order of \<open>unordered_map\<close>, hash
  functions and the device are parameters; a theorem that needs a law of one of them states it.  The host is
  little-endian.  Application callbacks are programs of calls to the same connection.  Loops of the code are
  recursive functions with a termination proof; those that may not end (the sending loop of TCP, delivery from the
  out-of-order queue, the loops of the HTTP server) are partial functions with results in \<open>option\<close>, and the theorems
  that rest on them prove that the result exists.  No fuel is used.

  \<^bold>\<open>Not modelled\<close>

  The floating-point congestion controllers (Cubic, Orca), what a system call does beyond its result, the devices that
  are thin wrappers of system calls, the construction of the stack and its event loop, the tables of callbacks of
  \<^verbatim>\<open>tcp_layer.cpp\<close> (a callback is an event of the application's model), logging, the exporters, the ONNX
  runtime and the command line tools.
\<close>

end
